(* ===== verification/Vfs_Path.thy ===== *)
theory Vfs_Path
  imports Sim_Prelude
begin

text \<open>
  Paths.  \<open>normalize_vfs\<close> is the VFS normaliser of \<^verbatim>\<open>simulacra-vfs/src/path.rs\<close>, \<open>normalize_path\<close>
  the capability layer's of \<^verbatim>\<open>simulacra-types/src/capability.rs\<close>.  A normal path is
  \<open>abs_path ps\<close> for a list \<open>ps\<close> of proper segments; the lemmas below turn the prefix tests the
  filesystem code makes on strings (\<open>starts_with\<close> of the path followed by a slash) into prefix
  tests on segment lists, which is what the component proofs reason with.
\<close>

section \<open>Normalisation\<close>

definition norm_seg :: "string list \<Rightarrow> string \<Rightarrow> string list" where
  "norm_seg parts seg =
     (if seg = [] \<or> seg = ''.'' then parts
      else if seg = ''..'' then butlast parts
      else parts @ [seg])"

definition norm_parts :: "string \<Rightarrow> string list" where
  "norm_parts path = foldl norm_seg [] (split_on slash path)"

definition normalize_vfs :: "string \<Rightarrow> string" where
  "normalize_vfs path =
     (let parts = norm_parts path
      in if parts = [] then ''/'' else ''/'' @ join_with slash parts)"

definition normalize_path :: "string \<Rightarrow> string" where
  "normalize_path path =
     (let components = norm_parts path
      in if starts_with path ''/'' then ''/'' @ join_with slash components
         else join_with slash components)"

section \<open>Normal forms\<close>

definition good_seg :: "string \<Rightarrow> bool" where
  "good_seg s \<longleftrightarrow> s \<noteq> [] \<and> s \<noteq> ''.'' \<and> s \<noteq> ''..'' \<and> slash \<notin> set s"

definition good_segs :: "string list \<Rightarrow> bool" where
  "good_segs ss \<longleftrightarrow> (\<forall>s \<in> set ss. good_seg s)"

definition abs_path :: "string list \<Rightarrow> string" where
  "abs_path ps = slash # join_with slash ps"

lemma good_segs_simps [simp]:
  "good_segs []"
  "good_segs (s # ss) \<longleftrightarrow> good_seg s \<and> good_segs ss"
  "good_segs (ss @ ts) \<longleftrightarrow> good_segs ss \<and> good_segs ts"
  by (auto simp: good_segs_def)

lemma good_segs_butlast: "good_segs ss \<Longrightarrow> good_segs (butlast ss)"
  by (auto simp: good_segs_def dest: in_set_butlastD)

lemma good_segs_prefix: "good_segs ss \<Longrightarrow> prefix ts ss \<Longrightarrow> good_segs ts"
  by (auto simp: prefix_def)

lemma good_seg_noslash: "good_seg s \<Longrightarrow> slash \<notin> set s"
  by (simp add: good_seg_def)

lemma normalize_abs: "normalize_vfs path = abs_path (norm_parts path)"
  by (simp add: normalize_vfs_def abs_path_def Let_def)

lemma norm_seg_good:
  "good_segs parts \<Longrightarrow> slash \<notin> set seg \<Longrightarrow> good_segs (norm_seg parts seg)"
  by (auto simp: norm_seg_def good_segs_butlast good_seg_def)

lemma foldl_norm_seg_good:
  "good_segs parts \<Longrightarrow> \<forall>s \<in> set ss. slash \<notin> set s \<Longrightarrow> good_segs (foldl norm_seg parts ss)"
  by (induction ss arbitrary: parts) (auto simp: norm_seg_good)

lemma norm_parts_good [simp]: "good_segs (norm_parts path)"
  by (auto simp: norm_parts_def intro!: foldl_norm_seg_good dest: split_on_no_sep)

lemma foldl_norm_seg_id: "good_segs ss \<Longrightarrow> foldl norm_seg parts ss = parts @ ss"
  by (induction ss arbitrary: parts) (auto simp: norm_seg_def good_seg_def)

lemma split_abs_path:
  "good_segs ps \<Longrightarrow> split_on slash (abs_path ps) = [] # (if ps = [] then [[]] else ps)"
  by (auto simp: abs_path_def good_segs_def good_seg_def intro!: split_join)

lemma norm_parts_abs [simp]: "good_segs ps \<Longrightarrow> norm_parts (abs_path ps) = ps"
  by (auto simp: norm_parts_def split_abs_path norm_seg_def foldl_norm_seg_id)

lemma normalize_abs_path [simp]: "good_segs ps \<Longrightarrow> normalize_vfs (abs_path ps) = abs_path ps"
  by (simp add: normalize_abs)

lemma normalize_idem [simp]: "normalize_vfs (normalize_vfs path) = normalize_vfs path"
  by (simp add: normalize_abs)

lemma norm_parts_normalize [simp]: "norm_parts (normalize_vfs path) = norm_parts path"
  by (simp add: normalize_abs)

lemma abs_path_inject:
  "good_segs ps \<Longrightarrow> good_segs qs \<Longrightarrow> abs_path ps = abs_path qs \<longleftrightarrow> ps = qs"
  by (metis norm_parts_abs)

lemma normalize_eq_iff: "normalize_vfs p = normalize_vfs q \<longleftrightarrow> norm_parts p = norm_parts q"
  by (simp add: normalize_abs abs_path_inject)

lemma abs_path_root [simp]: "abs_path [] = ''/''"
  by (simp add: abs_path_def)

lemma abs_path_eq_root [simp]: "good_segs ps \<Longrightarrow> abs_path ps = ''/'' \<longleftrightarrow> ps = []"
  using abs_path_inject[of ps "[]"] by simp

lemma normalize_root_iff: "normalize_vfs p = ''/'' \<longleftrightarrow> norm_parts p = []"
  by (simp add: normalize_abs)

definition is_normal :: "string \<Rightarrow> bool" where
  "is_normal p \<longleftrightarrow> normalize_vfs p = p"

lemma is_normal_normalize [simp]: "is_normal (normalize_vfs p)"
  by (simp add: is_normal_def)

lemma is_normal_abs [simp]: "good_segs ps \<Longrightarrow> is_normal (abs_path ps)"
  by (simp add: is_normal_def)

lemma is_normalE:
  assumes "is_normal p"
  obtains ps where "p = abs_path ps" "good_segs ps" "norm_parts p = ps"
  using assms norm_parts_good normalize_abs unfolding is_normal_def by metis

section \<open>Prefix tests\<close>

lemma abs_path_append:
  "qs \<noteq> [] \<Longrightarrow> abs_path (ps @ qs) = (if ps = [] then [] else abs_path ps) @ slash # join_with slash qs"
  by (simp add: abs_path_def join_with_append)

lemma abs_path_snoc: "abs_path (ps @ [s]) = (if ps = [] then [] else abs_path ps) @ slash # s"
  by (simp add: abs_path_append)

lemma last_abs_path: "good_segs ps \<Longrightarrow> ps \<noteq> [] \<Longrightarrow> last (abs_path ps) \<noteq> slash"
proof (induction ps rule: rev_induct)
  case (snoc q ps)
  then have q: "q \<noteq> []" "slash \<notin> set q" by (auto simp: good_seg_def)
  then have "last q \<noteq> slash" by (metis last_in_set)
  with q show ?case by (simp add: abs_path_snoc)
qed simp

text \<open>
  The workhorse: a normal path starts with \<open>p\<close> and a slash exactly when its segments strictly
  extend those of \<open>p\<close>.
\<close>

lemma split_join_slash:
  "good_segs ps \<Longrightarrow> ps \<noteq> [] \<Longrightarrow> split_on slash (join_with slash ps @ slash # t) = ps @ split_on slash t"
  by (induction slash ps rule: join_with.induct) (auto simp: split_on_append_sep good_seg_noslash)

lemma prefix_abs_slash:
  assumes ps: "good_segs ps" "ps \<noteq> []" and qs: "good_segs qs"
  shows "prefix (abs_path ps @ ''/'') (abs_path qs) \<longleftrightarrow> (\<exists>r. r \<noteq> [] \<and> qs = ps @ r)"
proof
  assume "prefix (abs_path ps @ ''/'') (abs_path qs)"
  then obtain t where "abs_path qs = abs_path ps @ slash # t"
    by (auto simp: prefix_def)
  then have j: "join_with slash qs = join_with slash ps @ slash # t"
    by (simp add: abs_path_def)
  then have "qs \<noteq> []" by auto
  have "qs = split_on slash (join_with slash qs)"
    using qs \<open>qs \<noteq> []\<close> by (simp add: split_join good_segs_def good_seg_def)
  also have "\<dots> = ps @ split_on slash t"
    using j ps by (simp add: split_join_slash)
  finally show "\<exists>r. r \<noteq> [] \<and> qs = ps @ r" by auto
next
  assume "\<exists>r. r \<noteq> [] \<and> qs = ps @ r"
  then show "prefix (abs_path ps @ ''/'') (abs_path qs)"
    using ps by (auto simp: abs_path_append prefix_def)
qed

lemma not_prefix_double_slash:
  assumes "good_segs qs"
  shows "\<not> prefix ''//'' (abs_path qs)"
proof (cases qs)
  case (Cons q qs')
  then obtain c q' where "q = c # q'" "c \<noteq> slash"
    using assms by (cases q) (auto simp: good_seg_def)
  with Cons show ?thesis by (cases qs') (auto simp: abs_path_def)
qed simp

section \<open>Below a path\<close>

text \<open>\<open>k\<close> is \<open>p\<close> or below it, as the filesystem code tests it.\<close>

definition at_or_below :: "string \<Rightarrow> string \<Rightarrow> bool" where
  "at_or_below p k \<longleftrightarrow> k = p \<or> starts_with k (p @ ''/'')"

lemma starts_below_iff:
  assumes "good_segs ps" "good_segs qs" "ps \<noteq> []"
  shows "starts_with (abs_path qs) (abs_path ps @ ''/'') \<longleftrightarrow> strict_prefix ps qs"
  unfolding starts_with_def prefix_abs_slash[OF assms(1,3,2)]
  by (auto simp: strict_prefix_def prefix_def)

lemma at_or_below_iff:
  assumes "good_segs ps" "good_segs qs" "ps \<noteq> []"
  shows "at_or_below (abs_path ps) (abs_path qs) \<longleftrightarrow> prefix ps qs"
  using assms by (auto simp: at_or_below_def starts_below_iff abs_path_inject strict_prefix_def)

lemma at_or_below_root:
  assumes "good_segs qs"
  shows "at_or_below ''/'' (abs_path qs) \<longleftrightarrow> qs = []"
  using assms not_prefix_double_slash[OF assms]
  by (simp add: at_or_below_def starts_with_def)

lemma at_or_below_refl [simp]: "at_or_below p p"
  by (simp add: at_or_below_def)

text \<open>The two normalisers agree on absolute paths and only there.\<close>

lemma normalize_path_absolute:
  "starts_with path ''/'' \<Longrightarrow> normalize_path path = normalize_vfs path"
  by (simp add: normalize_path_def normalize_abs abs_path_def Let_def)

lemma normalize_path_relative:
  "\<not> starts_with path ''/'' \<Longrightarrow> ''/'' @ normalize_path path = normalize_vfs path"
  by (simp add: normalize_path_def normalize_abs abs_path_def Let_def)

lemma starts_with_slash_abs [simp]: "starts_with (abs_path ps) ''/''"
  by (simp add: starts_with_def abs_path_def)

section \<open>Ancestors\<close>

text \<open>
  The loop shared by \<open>ensure_parents\<close> and \<open>reject_file_ancestor\<close>: the accumulated path
  \<open>cur\<close> grows by one segment at a time and the loop stops when it reaches the path itself.
\<close>

fun ancestor_paths :: "string \<Rightarrow> string list \<Rightarrow> string \<Rightarrow> string list" where
  "ancestor_paths cur [] path = []"
| "ancestor_paths cur (seg # segs) path =
     (let cur' = cur @ ''/'' @ seg
      in if cur' = path then [] else cur' # ancestor_paths cur' segs path)"

definition path_ancestors :: "string \<Rightarrow> string list" where
  "path_ancestors path = ancestor_paths [] (filter (\<lambda>s. s \<noteq> []) (split_on slash path)) path"

definition raw_path :: "string list \<Rightarrow> string" where
  "raw_path ps = (if ps = [] then [] else abs_path ps)"

lemma raw_path_snoc: "raw_path ps @ ''/'' @ s = raw_path (ps @ [s])"
  by (simp add: raw_path_def abs_path_snoc)

lemma ancestor_paths_raw:
  "good_segs (ps @ qs) \<Longrightarrow>
   ancestor_paths (raw_path ps) qs (abs_path (ps @ qs)) =
     map (\<lambda>n. abs_path (ps @ take n qs)) [1..<length qs]"
proof (induction qs arbitrary: ps)
  case (Cons q qs)
  have cur: "raw_path ps @ ''/'' @ q = abs_path (ps @ [q])"
    using abs_path_snoc[of ps q] by (simp add: raw_path_def)
  have stop: "abs_path (ps @ [q]) = abs_path (ps @ q # qs) \<longleftrightarrow> qs = []"
    using Cons.prems by (subst abs_path_inject) auto
  have IH: "ancestor_paths (abs_path (ps @ [q])) qs (abs_path (ps @ q # qs)) =
      map (\<lambda>n. abs_path (ps @ q # take n qs)) [1..<length qs]"
    using Cons.IH[of "ps @ [q]"] Cons.prems by (simp add: raw_path_def)
  show ?case
  proof (cases "qs = []")
    case False
    then have "[1..<length (q # qs)] = 1 # map Suc [1..<length qs]"
      by (subst upt_conv_Cons) (simp_all add: map_Suc_upt del: upt_Suc)
    with False show ?thesis
      by (simp only: ancestor_paths.simps Let_def cur stop IH) (simp add: comp_def)
  qed (simp only: ancestor_paths.simps Let_def cur stop, simp)
qed simp

lemma filter_split_abs: "good_segs ps \<Longrightarrow> filter (\<lambda>s. s \<noteq> []) (split_on slash (abs_path ps)) = ps"
  by (auto simp: split_abs_path good_segs_def good_seg_def intro: filter_True)

lemma path_ancestors_abs:
  "good_segs ps \<Longrightarrow> path_ancestors (abs_path ps) = map (\<lambda>n. abs_path (take n ps)) [1..<length ps]"
  using ancestor_paths_raw[of "[]" ps] by (simp add: path_ancestors_def filter_split_abs raw_path_def)

lemma strict_prefix_take_iff: "strict_prefix as ps \<longleftrightarrow> (\<exists>n < length ps. as = take n ps)"
proof
  assume "strict_prefix as ps"
  then show "\<exists>n < length ps. as = take n ps"
    by (auto simp: strict_prefix_def prefix_def intro!: exI[of _ "length as"])
qed (auto simp: strict_prefix_def take_is_prefix)

lemma set_path_ancestors:
  assumes "good_segs ps"
  shows "set (path_ancestors (abs_path ps)) = abs_path ` {as. as \<noteq> [] \<and> strict_prefix as ps}"
proof -
  have "{as. as \<noteq> [] \<and> strict_prefix as ps} = (\<lambda>n. take n ps) ` {1..<length ps}"
    by (auto simp: strict_prefix_take_iff image_iff Bex_def Suc_le_eq)
  then show ?thesis
    using assms by (simp add: path_ancestors_abs image_image)
qed

end
