(* ===== verification/Vfs_Types.thy ===== *)
theory Vfs_Types
  imports Vfs_Path
begin

text \<open>
  The value types of the virtual filesystem (\<^verbatim>\<open>simulacra-types/src/vfs.rs\<close>, \<^verbatim>\<open>vfs_ops.rs\<close>), the
  \<open>VirtualFs\<close> trait as a record of operations over an abstract state, and the contract its clients
  rely on as a locale.  A trait object \<open>Arc<dyn VirtualFs>\<close> is a dictionary of this record together
  with its current state; an operation that takes \<open>&self\<close> and mutates under a lock returns the new
  state.  The serialised form of a snapshot is a type parameter \<open>'j\<close>.
\<close>

section \<open>Values\<close>

datatype vfs_error =
    NotFound string | AlreadyExists string | NotADirectory string | NotAFile string
  | Io string | PermissionDenied string | HookDenied string | HookKilled string
  | HookContractViolation | Unsupported string | Conflict string | QuotaExceeded string
  | DeadlineExceeded string | OutcomeUnknown string | FilesystemRestored string

record fs_metadata =
  md_is_file :: bool
  md_is_dir :: bool
  md_size :: u64
  md_revision :: "u64 option"
  md_media_type :: "string option"

definition metadata_file :: "u64 \<Rightarrow> fs_metadata" where
  "metadata_file n = \<lparr>md_is_file = True, md_is_dir = False, md_size = n, md_revision = None, md_media_type = None\<rparr>"

definition metadata_dir :: fs_metadata where
  "metadata_dir = \<lparr>md_is_file = False, md_is_dir = True, md_size = 0, md_revision = None, md_media_type = None\<rparr>"

definition with_revision :: "u64 \<Rightarrow> fs_metadata \<Rightarrow> fs_metadata" where
  "with_revision r m = m\<lparr>md_revision := Some r\<rparr>"

datatype precondition = Unconditional | MustBeAbsent | MustMatch u64

datatype fs_mutation =
    MWrite string bytes precondition
  | MMkdir string
  | MRemove string precondition
  | MRename string string precondition

fun mutation_paths :: "fs_mutation \<Rightarrow> string list" where
  "mutation_paths (MWrite p _ _) = [p]"
| "mutation_paths (MMkdir p) = [p]"
| "mutation_paths (MRemove p _) = [p]"
| "mutation_paths (MRename f t _) = [f, t]"

record dir_listing =
  dl_entries :: "string list"
  dl_truncated :: bool

definition listing_complete :: "string list \<Rightarrow> dir_listing" where
  "listing_complete es = \<lparr>dl_entries = es, dl_truncated = False\<rparr>"

section \<open>The trait\<close>

type_synonym 's outcome = "(vfs_error + unit) \<times> 's"

record ('s, 'j) virtual_fs =
  vfs_read :: "'s \<Rightarrow> string \<Rightarrow> vfs_error + bytes"
  vfs_write :: "'s \<Rightarrow> string \<Rightarrow> bytes \<Rightarrow> 's outcome"
  vfs_exists :: "'s \<Rightarrow> string \<Rightarrow> bool"
  vfs_list_dir :: "'s \<Rightarrow> string \<Rightarrow> vfs_error + string list"
  vfs_mkdir :: "'s \<Rightarrow> string \<Rightarrow> 's outcome"
  vfs_remove :: "'s \<Rightarrow> string \<Rightarrow> 's outcome"
  vfs_metadata :: "'s \<Rightarrow> string \<Rightarrow> vfs_error + fs_metadata"
  vfs_snapshot :: "'s \<Rightarrow> vfs_error + 'j"
  vfs_restore :: "'s \<Rightarrow> 'j \<Rightarrow> 's outcome"
  vfs_write_if :: "'s \<Rightarrow> string \<Rightarrow> bytes \<Rightarrow> precondition \<Rightarrow> 's outcome"
  vfs_rename :: "'s \<Rightarrow> string \<Rightarrow> string \<Rightarrow> 's outcome"
  vfs_apply_batch :: "'s \<Rightarrow> fs_mutation list \<Rightarrow> 's outcome"
  vfs_list_dir_bounded :: "'s \<Rightarrow> string \<Rightarrow> vfs_error + dir_listing"

text \<open>The default bodies of the trait.\<close>

definition default_list_dir_bounded :: "('s \<Rightarrow> string \<Rightarrow> vfs_error + string list) \<Rightarrow> 's \<Rightarrow> string \<Rightarrow> vfs_error + dir_listing" where
  "default_list_dir_bounded ls s path =
     (case ls s path of Inl e \<Rightarrow> Err e | Inr es \<Rightarrow> Ok (listing_complete es))"

text \<open>A client's calls that may change the filesystem, and a run of them.\<close>

datatype fs_call =
    CWrite string bytes | CMkdir string | CRemove string | CWriteIf string bytes precondition
  | CRename string string | CBatch "fs_mutation list"

fun vfs_call :: "('s, 'j) virtual_fs \<Rightarrow> 's \<Rightarrow> fs_call \<Rightarrow> 's outcome" where
  "vfs_call F s (CWrite p d) = vfs_write F s p d"
| "vfs_call F s (CMkdir p) = vfs_mkdir F s p"
| "vfs_call F s (CRemove p) = vfs_remove F s p"
| "vfs_call F s (CWriteIf p d c) = vfs_write_if F s p d c"
| "vfs_call F s (CRename f t) = vfs_rename F s f t"
| "vfs_call F s (CBatch ms) = vfs_apply_batch F s ms"

fun vfs_run :: "('s, 'j) virtual_fs \<Rightarrow> fs_call list \<Rightarrow> 's \<Rightarrow> 's" where
  "vfs_run F [] s = s"
| "vfs_run F (c # cs) s = vfs_run F cs (snd (vfs_call F s c))"

lemma vfs_run_append: "vfs_run F (cs @ ds) s = vfs_run F ds (vfs_run F cs s)"
  by (induction cs arbitrary: s) auto

text \<open>The paths a call names.\<close>

fun call_paths :: "fs_call \<Rightarrow> string list" where
  "call_paths (CWrite p _) = [p]"
| "call_paths (CMkdir p) = [p]"
| "call_paths (CRemove p) = [p]"
| "call_paths (CWriteIf p _ _) = [p]"
| "call_paths (CRename f t) = [f, t]"
| "call_paths (CBatch ms) = concat (map mutation_paths ms)"

section \<open>The contract\<close>

text \<open>What a filesystem shows: the bytes a read of the path returns.\<close>

definition content :: "('s, 'j) virtual_fs \<Rightarrow> 's \<Rightarrow> string \<Rightarrow> bytes option" where
  "content F s p = (case vfs_read F s p of Inl _ \<Rightarrow> None | Inr d \<Rightarrow> Some d)"

definition missing :: "('s, 'j) virtual_fs \<Rightarrow> 's \<Rightarrow> string \<Rightarrow> bool" where
  "missing F s p \<longleftrightarrow> (\<exists>x. vfs_read F s p = Err (NotFound x))"

locale file_store =
  fixes F :: "('s, 'j) virtual_fs" and inv :: "'s \<Rightarrow> bool"
  assumes read_normal: "inv s \<Longrightarrow> vfs_read F s (normalize_vfs p) = vfs_read F s p"
    and exists_normal: "inv s \<Longrightarrow> vfs_exists F s (normalize_vfs p) = vfs_exists F s p"
    and not_exists: "inv s \<Longrightarrow> \<not> vfs_exists F s p \<Longrightarrow> missing F s p"
    and write_inv: "inv s \<Longrightarrow> inv (snd (vfs_write F s p d))"
    and write_err: "inv s \<Longrightarrow> vfs_write F s p d = (Err e, s') \<Longrightarrow> s' = s"
    and write_content: "inv s \<Longrightarrow> vfs_write F s p d = (Ok u, s') \<Longrightarrow>
      content F s' q = (if norm_parts q = norm_parts p then Some d else content F s q)"
    and mkdir_inv: "inv s \<Longrightarrow> inv (snd (vfs_mkdir F s p))"
    and mkdir_err: "inv s \<Longrightarrow> vfs_mkdir F s p = (Err e, s') \<Longrightarrow> s' = s"
    and mkdir_content: "inv s \<Longrightarrow> vfs_mkdir F s p = (Ok u, s') \<Longrightarrow> content F s' q = content F s q"
    and remove_inv: "inv s \<Longrightarrow> inv (snd (vfs_remove F s p))"
    and remove_err: "inv s \<Longrightarrow> vfs_remove F s p = (Err e, s') \<Longrightarrow> s' = s"
    and remove_content: "inv s \<Longrightarrow> vfs_remove F s p = (Ok u, s') \<Longrightarrow>
      content F s' q = (if prefix (norm_parts p) (norm_parts q) then None else content F s q)"
    and remove_root: "inv s \<Longrightarrow> norm_parts p = [] \<Longrightarrow> \<not> is_ok (fst (vfs_remove F s p))"
begin

lemma content_normal: "inv s \<Longrightarrow> content F s (normalize_vfs p) = content F s p"
  by (simp add: content_def read_normal)

lemma content_cong: "inv s \<Longrightarrow> norm_parts p = norm_parts q \<Longrightarrow> content F s p = content F s q"
  by (metis content_normal normalize_eq_iff)

text \<open>Reading back what was written, and the frame of a write and of a removal.\<close>

lemma read_after_write:
  "inv s \<Longrightarrow> vfs_write F s p d = (Ok u, s') \<Longrightarrow> vfs_read F s' p = Ok d"
  using write_content[of s p d u s' p] by (simp add: content_def split: sum.splits)

lemma write_frame:
  "inv s \<Longrightarrow> vfs_write F s p d = (Ok u, s') \<Longrightarrow> norm_parts q \<noteq> norm_parts p \<Longrightarrow>
     content F s' q = content F s q"
  by (simp add: write_content)

lemma remove_below:
  "inv s \<Longrightarrow> vfs_remove F s p = (Ok u, s') \<Longrightarrow> prefix (norm_parts p) (norm_parts q) \<Longrightarrow>
     content F s' q = None"
  by (simp add: remove_content)

end

text \<open>The atomic operations on top: any error means nothing changed.\<close>

locale atomic_store = file_store +
  assumes write_if_inv: "inv s \<Longrightarrow> inv (snd (vfs_write_if F s p d c))"
    and write_if_err: "inv s \<Longrightarrow> vfs_write_if F s p d c = (Err e, s') \<Longrightarrow> s' = s"
    and write_if_content: "inv s \<Longrightarrow> vfs_write_if F s p d c = (Ok u, s') \<Longrightarrow>
      content F s' q = (if norm_parts q = norm_parts p then Some d else content F s q)"
    and batch_inv: "inv s \<Longrightarrow> inv (snd (vfs_apply_batch F s ms))"
    and batch_err: "inv s \<Longrightarrow> vfs_apply_batch F s ms = (Err e, s') \<Longrightarrow> s' = s"
    and rename_iff_batch: "inv s \<Longrightarrow> vfs_rename F s f t = (Ok u, s') \<longleftrightarrow>
      vfs_apply_batch F s [MRename f t Unconditional] = (Ok u, s')"
    and rename_inv: "inv s \<Longrightarrow> inv (snd (vfs_rename F s f t))"
    and rename_err: "inv s \<Longrightarrow> vfs_rename F s f t = (Err e, s') \<Longrightarrow> s' = s"
begin

text \<open>A failed atomic call is invisible: every read afterwards answers as before.\<close>

lemma failed_batch_invisible:
  "inv s \<Longrightarrow> \<not> is_ok (fst (vfs_apply_batch F s ms)) \<Longrightarrow> snd (vfs_apply_batch F s ms) = s"
  by (cases "vfs_apply_batch F s ms"; cases "fst (vfs_apply_batch F s ms)") (auto dest: batch_err)

lemma batch_content_cases:
  "inv s \<Longrightarrow> content F (snd (vfs_apply_batch F s ms)) q \<noteq> content F s q \<Longrightarrow> is_ok (fst (vfs_apply_batch F s ms))"
  using failed_batch_invisible by force

end

end
