(* ===== verification/Atomic_Paths.thy ===== *)
theory Atomic_Paths
  imports Vfs_Types
begin

text \<open>
  The paths an atomic call touches (\<^verbatim>\<open>simulacra-vfs/src/atomic_paths.rs\<close>), shared by the gating
  filesystem decorators.
\<close>

record touch =
  t_path :: string
  takes_subtree :: bool

definition touch_new :: "string \<Rightarrow> bool \<Rightarrow> touch" where
  "touch_new path sub = \<lparr>t_path = normalize_vfs path, takes_subtree = sub\<rparr>"

definition written :: "string \<Rightarrow> touch list" where
  "written path = [touch_new path False]"

definition removed :: "string \<Rightarrow> touch list" where
  "removed path = [touch_new path True]"

definition renamed :: "string \<Rightarrow> string \<Rightarrow> touch list" where
  "renamed from to = [touch_new from True, touch_new to False]"

fun mutation_takes :: "fs_mutation \<Rightarrow> nat \<Rightarrow> bool" where
  "mutation_takes (MRemove _ _) _ = True"
| "mutation_takes (MRename _ _ _) index = (index = 0)"
| "mutation_takes (MWrite _ _ _) _ = False"
| "mutation_takes (MMkdir _) _ = False"

definition mutation_touches :: "fs_mutation \<Rightarrow> touch list" where
  "mutation_touches m =
     map (\<lambda>(index, path). touch_new path (mutation_takes m index))
       (List.enumerate 0 (mutation_paths m))"

definition batched :: "fs_mutation list \<Rightarrow> touch list" where
  "batched ms = concat (map mutation_touches ms)"

definition is_ancestor :: "string \<Rightarrow> string \<Rightarrow> bool" where
  "is_ancestor path0 prefix0 =
     (let path = normalize_vfs path0; pre = normalize_vfs prefix0
      in path = ''/'' \<or> (pre \<noteq> path \<and> starts_with pre (path @ ''/'')))"

definition is_root :: "string \<Rightarrow> bool" where
  "is_root path \<longleftrightarrow> normalize_vfs path = ''/''"

fun normalize_mutation :: "fs_mutation \<Rightarrow> fs_mutation" where
  "normalize_mutation (MWrite p d c) = MWrite (normalize_vfs p) d c"
| "normalize_mutation (MMkdir p) = MMkdir (normalize_vfs p)"
| "normalize_mutation (MRemove p c) = MRemove (normalize_vfs p) c"
| "normalize_mutation (MRename f t c) = MRename (normalize_vfs f) (normalize_vfs t) c"

definition normalize_mutations :: "fs_mutation list \<Rightarrow> fs_mutation list" where
  "normalize_mutations ms = map normalize_mutation ms"

lemma mutation_touches_simps [simp]:
  "mutation_touches (MWrite p d c) = [touch_new p False]"
  "mutation_touches (MMkdir p) = [touch_new p False]"
  "mutation_touches (MRemove p c) = [touch_new p True]"
  "mutation_touches (MRename f t c) = [touch_new f True, touch_new t False]"
  by (simp_all add: mutation_touches_def enumerate_simps)

lemma touch_new_sel [simp]:
  "t_path (touch_new p b) = normalize_vfs p" "takes_subtree (touch_new p b) = b"
  by (simp_all add: touch_new_def)

lemma batched_simps [simp]:
  "batched [] = []" "batched (m # ms) = mutation_touches m @ batched ms"
  by (simp_all add: batched_def)

lemma normalize_mutations_simps [simp]:
  "normalize_mutations [] = []" "normalize_mutations (m # ms) = normalize_mutation m # normalize_mutations ms"
  by (simp_all add: normalize_mutations_def)

text \<open>On segments, an ancestor is the root or a strict prefix.\<close>

lemma is_ancestor_iff: "is_ancestor p q \<longleftrightarrow> norm_parts p = [] \<or> strict_prefix (norm_parts p) (norm_parts q)"
proof (cases "norm_parts p = []")
  case False
  then show ?thesis
    using starts_below_iff[of "norm_parts p" "norm_parts q"]
    by (auto simp: is_ancestor_def Let_def normalize_abs abs_path_inject strict_prefix_def)
qed (simp add: is_ancestor_def Let_def normalize_root_iff)

lemma is_root_iff: "is_root p \<longleftrightarrow> norm_parts p = []"
  by (simp add: is_root_def normalize_root_iff)

lemma touches_normalize: "batched (normalize_mutations ms) = batched ms"
proof (induction ms)
  case (Cons m ms)
  then show ?case by (cases m) (simp_all add: touch_new_def)
qed simp

end
