(* ===== verification/Vfs_Layers.thy ===== *)
theory Vfs_Layers
  imports Atomic_Paths
begin

text \<open>
  What the filesystem layers of \<^verbatim>\<open>simulacra-vfs\<close> share: an atomic call is judged on the paths it touches
  and reaches the inner filesystem with normalized paths or not at all.  \<open>calls_only\<close> says which calls a
  layer made on the filesystem below it.
\<close>

section \<open>Calls on the filesystem below\<close>

definition calls_only :: "('s, 'j) virtual_fs \<Rightarrow> (fs_call \<Rightarrow> bool) \<Rightarrow> 's \<Rightarrow> 's \<Rightarrow> bool" where
  "calls_only F P s s' \<longleftrightarrow> (\<exists>cs. (\<forall>c \<in> set cs. P c) \<and> s' = vfs_run F cs s)"

lemma calls_only_refl [simp]: "calls_only F P s s"
  unfolding calls_only_def by (rule exI[of _ "[]"]) simp

lemma calls_only_trans: "calls_only F P s t \<Longrightarrow> calls_only F P t u \<Longrightarrow> calls_only F P s u"
  unfolding calls_only_def by (metis (no_types, lifting) Un_iff set_append vfs_run_append)

lemma calls_only_one: "P c \<Longrightarrow> calls_only F P s (snd (vfs_call F s c))"
  unfolding calls_only_def by (rule exI[of _ "[c]"]) simp

lemma calls_only_mono: "calls_only F P s s' \<Longrightarrow> (\<And>c. P c \<Longrightarrow> Q c) \<Longrightarrow> calls_only F Q s s'"
  unfolding calls_only_def by blast

text \<open>A layer whose every call makes certain calls below makes only those in a run.\<close>

lemma calls_only_run:
  assumes "\<And>c s. Q c \<Longrightarrow> calls_only I P (below s) (below (snd (vfs_call F s c)))" "\<forall>c \<in> set cs. Q c"
  shows "calls_only I P (below s) (below (vfs_run F cs s))"
  using assms(2)
proof (induction cs arbitrary: s)
  case (Cons c cs)
  then show ?case using assms(1)[of c s] calls_only_trans by fastforce
qed simp

definition clean :: "(string \<Rightarrow> bool) \<Rightarrow> fs_call \<Rightarrow> bool" where
  "clean ok c \<longleftrightarrow> (\<forall>p \<in> set (call_paths c). ok p)"

lemma clean_simps [simp]:
  "clean ok (CWrite p d) = ok p" "clean ok (CMkdir p) = ok p" "clean ok (CRemove p) = ok p"
  "clean ok (CWriteIf p d c) = ok p" "clean ok (CRename p q) = (ok p \<and> ok q)"
  "clean ok (CBatch ms) = (\<forall>m \<in> set ms. \<forall>p \<in> set (mutation_paths m). ok p)"
  by (auto simp: clean_def)

text \<open>The paths of a call, as a filesystem that normalizes them understands them.\<close>

definition reaches :: "(string \<Rightarrow> bool) \<Rightarrow> fs_call \<Rightarrow> bool" where
  "reaches R c \<longleftrightarrow> clean (\<lambda>p. R (normalize_vfs p)) c"

lemma reaches_mono: "reaches R c \<Longrightarrow> (\<And>p. is_normal p \<Longrightarrow> R p \<Longrightarrow> Q p) \<Longrightarrow> reaches Q c"
  by (auto simp: reaches_def clean_def)

lemma reaches_all [simp]: "reaches (\<lambda>p. True) c"
  by (simp add: reaches_def clean_def)

text \<open>Two states that no reading call of a client tells apart.\<close>

definition same_reads :: "('s, 'j) virtual_fs \<Rightarrow> 's \<Rightarrow> 's \<Rightarrow> bool" where
  "same_reads F s s' \<longleftrightarrow> vfs_read F s' = vfs_read F s \<and> vfs_exists F s' = vfs_exists F s \<and>
     vfs_list_dir F s' = vfs_list_dir F s \<and> vfs_metadata F s' = vfs_metadata F s \<and>
     vfs_list_dir_bounded F s' = vfs_list_dir_bounded F s"

section \<open>Gated atomic calls\<close>

definition gated_write_if ::
  "(touch list \<Rightarrow> vfs_error + unit) \<Rightarrow> ('s, 'j) virtual_fs \<Rightarrow> 's \<Rightarrow> string \<Rightarrow> bytes \<Rightarrow> precondition \<Rightarrow> 's outcome" where
  "gated_write_if G I s path data c =
     (case G (written path) of Inl e \<Rightarrow> (Err e, s) | Inr _ \<Rightarrow> vfs_write_if I s (normalize_vfs path) data c)"

definition gated_rename ::
  "(touch list \<Rightarrow> vfs_error + unit) \<Rightarrow> ('s, 'j) virtual_fs \<Rightarrow> 's \<Rightarrow> string \<Rightarrow> string \<Rightarrow> 's outcome" where
  "gated_rename G I s from to =
     (case G (renamed from to) of
        Inl e \<Rightarrow> (Err e, s)
      | Inr _ \<Rightarrow> vfs_rename I s (normalize_vfs from) (normalize_vfs to))"

definition gated_apply_batch ::
  "(touch list \<Rightarrow> vfs_error + unit) \<Rightarrow> ('s, 'j) virtual_fs \<Rightarrow> 's \<Rightarrow> fs_mutation list \<Rightarrow> 's outcome" where
  "gated_apply_batch G I s ms =
     (case G (batched ms) of Inl e \<Rightarrow> (Err e, s) | Inr _ \<Rightarrow> vfs_apply_batch I s (normalize_mutations ms))"

lemmas gated_defs = gated_write_if_def gated_rename_def gated_apply_batch_def

definition gate_keeps :: "(touch list \<Rightarrow> vfs_error + unit) \<Rightarrow> (string \<Rightarrow> bool) \<Rightarrow> bool" where
  "gate_keeps G ok \<longleftrightarrow> (\<forall>ts. G ts = Ok () \<longrightarrow> (\<forall>t \<in> set ts. is_normal (t_path t) \<longrightarrow> ok (t_path t)))"

lemma normalized_paths:
  "p \<in> set (mutation_paths (normalize_mutation m)) \<longleftrightarrow> (\<exists>t \<in> set (mutation_touches m). t_path t = p)"
  by (cases m) auto

lemma touches_normal: "t \<in> set (mutation_touches m) \<Longrightarrow> is_normal (t_path t)"
  by (cases m) auto

lemma set_batched: "set (batched ms) = (\<Union>m \<in> set ms. set (mutation_touches m))"
  by (induction ms) auto

lemma gated_calls:
  assumes "gate_keeps G ok"
  shows "reaches R (CWriteIf p d c) \<Longrightarrow> calls_only I (reaches (\<lambda>p. ok p \<and> R p)) s (snd (gated_write_if G I s p d c))"
    "reaches R (CRename p q) \<Longrightarrow> calls_only I (reaches (\<lambda>p. ok p \<and> R p)) s (snd (gated_rename G I s p q))"
    "reaches R (CBatch ms) \<Longrightarrow> calls_only I (reaches (\<lambda>p. ok p \<and> R p)) s (snd (gated_apply_batch G I s ms))"
proof -
  note k = assms[unfolded gate_keeps_def, rule_format]
  show "reaches R (CWriteIf p d c) \<Longrightarrow> calls_only I (reaches (\<lambda>p. ok p \<and> R p)) s (snd (gated_write_if G I s p d c))"
    using calls_only_one[of "reaches (\<lambda>p. ok p \<and> R p)" "CWriteIf (normalize_vfs p) d c" I s] k[of "written p"]
    by (auto simp: gated_write_if_def written_def reaches_def split: sum.split)
  show "reaches R (CRename p q) \<Longrightarrow> calls_only I (reaches (\<lambda>p. ok p \<and> R p)) s (snd (gated_rename G I s p q))"
    using calls_only_one[of "reaches (\<lambda>p. ok p \<and> R p)" "CRename (normalize_vfs p) (normalize_vfs q)" I s]
      k[of "renamed p q" "touch_new p True"] k[of "renamed p q" "touch_new q False"]
    by (auto simp: gated_rename_def renamed_def reaches_def split: sum.split)
  assume R: "reaches R (CBatch ms)"
  show "calls_only I (reaches (\<lambda>p. ok p \<and> R p)) s (snd (gated_apply_batch G I s ms))"
  proof (cases "G (batched ms)")
    case (Inr u)
    have keep: "ok (t_path t)" if "m \<in> set ms" "t \<in> set (mutation_touches m)" for m t
      using k[of "batched ms" t] Inr that touches_normal by (auto simp: set_batched)
    have asked: "R (t_path t)" if "m \<in> set ms" "t \<in> set (mutation_touches m)" for m t
      using R that by (cases m) (fastforce simp: reaches_def)+
    have "normalize_vfs (t_path t) = t_path t" if "t \<in> set (mutation_touches m)" for m t
      using touches_normal[OF that] by (simp add: is_normal_def)
    then have "reaches (\<lambda>p. ok p \<and> R p) (CBatch (normalize_mutations ms))"
      using keep asked by (auto simp: normalize_mutations_def normalized_paths reaches_def)
    from calls_only_one[of "reaches (\<lambda>p. ok p \<and> R p)", OF this, of I s] show ?thesis
      using Inr by (simp add: gated_apply_batch_def)
  qed (simp add: gated_apply_batch_def)
qed

end
