(* ===== verification/Memory_Path.thy ===== *)
theory Memory_Path
  imports Vfs_Path
begin

text \<open>
  Memory identifiers (\<^verbatim>\<open>simulacra-types/src/memory.rs\<close>): the validated tenant id, the validated
  memory path and the memory section of a capability token.  A \<open>MemoryPath\<close> is the string it
  wraps; \<open>parse\<close> returns the canonical spelling or the first violation, in the order of the code.
\<close>

section \<open>Tenant ids\<close>

datatype tenant_id_error = TEmpty | TTooLong nat | TInvalidStart | TInvalidChar char

definition is_ascii_lowercase :: "char \<Rightarrow> bool" where
  "is_ascii_lowercase c \<longleftrightarrow> CHR ''a'' \<le> c \<and> c \<le> CHR ''z''"

definition is_ascii_digit :: "char \<Rightarrow> bool" where
  "is_ascii_digit c \<longleftrightarrow> CHR ''0'' \<le> c \<and> c \<le> CHR ''9''"

fun tenant_rest_check :: "string \<Rightarrow> tenant_id_error option" where
  "tenant_rest_check [] = None"
| "tenant_rest_check (c # cs) =
     (if \<not> (is_ascii_lowercase c \<or> is_ascii_digit c \<or> c = CHR ''_'' \<or> c = CHR ''-'')
      then Some (TInvalidChar c) else tenant_rest_check cs)"

definition tenant_id_parse :: "string \<Rightarrow> tenant_id_error + string" where
  "tenant_id_parse s =
     (case s of
        [] \<Rightarrow> Err TEmpty
      | first # chars \<Rightarrow>
          if length s > 64 then Err (TTooLong (length s))
          else if \<not> (is_ascii_lowercase first \<or> is_ascii_digit first) then Err TInvalidStart
          else (case tenant_rest_check chars of
                  Some e \<Rightarrow> Err e
                | None \<Rightarrow> Ok s))"

section \<open>Memory paths\<close>

datatype memory_path_error =
    MEmpty | MInvalidPrefix | MParentSegment | MNullByte | MControlChar nat
  | MSegmentTooLong nat | MPathTooLong nat | MEmptySegment

definition hex_digit :: "nat \<Rightarrow> char" where
  "hex_digit d = (if d < 10 then char_of (48 + d) else char_of (55 + d))"

definition show_hex4 :: "nat \<Rightarrow> string" where
  "show_hex4 n = [hex_digit (n div 4096 mod 16), hex_digit (n div 256 mod 16),
                  hex_digit (n div 16 mod 16), hex_digit (n mod 16)]"

fun show_memory_path_error :: "memory_path_error \<Rightarrow> string" where
  "show_memory_path_error MEmpty = ''memory path is empty''"
| "show_memory_path_error MInvalidPrefix = ''memory path must start with /var/memory/ or /mnt/''"
| "show_memory_path_error MParentSegment =
     ''memory path contains '' @ [CHR 0x27] @ ''..'' @ [CHR 0x27] @ '' segment (parent traversal not allowed)''"
| "show_memory_path_error MNullByte = ''memory path contains null byte''"
| "show_memory_path_error (MControlChar v) = ''memory path contains control character: U+'' @ show_hex4 v"
| "show_memory_path_error (MSegmentTooLong n) = ''path segment too long: max 255 bytes, got '' @ show_nat n"
| "show_memory_path_error (MPathTooLong n) = ''memory path too long: max 1024 bytes, got '' @ show_nat n"
| "show_memory_path_error MEmptySegment = ''memory path contains empty segment (consecutive slashes)''"

definition is_memory_path_str :: "string \<Rightarrow> bool" where
  "is_memory_path_str path \<longleftrightarrow>
     starts_with path ''/var/memory/'' \<or> path = ''/var/memory'' \<or>
     starts_with path ''/mnt/'' \<or> path = ''/mnt''"

text \<open>The control-character scan; \<open>c as u32\<close> of an ASCII character is its byte value.\<close>

fun first_control :: "string \<Rightarrow> nat option" where
  "first_control [] = None"
| "first_control (c # cs) =
     (let v = of_char c :: nat in if v < 32 \<or> v = 127 then Some v else first_control cs)"

text \<open>The segment walk: it rejects empty and parent segments, drops dot segments and appends the
  rest to the canonical string.\<close>

fun walk_segments :: "string \<Rightarrow> bool \<Rightarrow> string list \<Rightarrow> memory_path_error + string" where
  "walk_segments canonical is_first [] = Ok canonical"
| "walk_segments canonical is_first (segment # rest) =
     (if segment = [] then Err MEmptySegment
      else if segment = ''..'' then Err MParentSegment
      else if segment = ''.'' then walk_segments canonical is_first rest
      else if length segment > 255 then Err (MSegmentTooLong (length segment))
      else walk_segments ((if is_first then canonical else canonical @ ''/'') @ segment) False rest)"

definition memory_path_parse :: "string \<Rightarrow> memory_path_error + string" where
  "memory_path_parse s =
     (if s = [] then Err MEmpty
      else if length s > 1024 then Err (MPathTooLong (length s))
      else if contains_char s (CHR 0x00) then Err MNullByte
      else case first_control s of
        Some v \<Rightarrow> Err (MControlChar v)
      | None \<Rightarrow>
          if \<not> is_memory_path_str s then Err MInvalidPrefix
          else let t = trim_end_char slash s;
                   trimmed = (if t = [] then s else t)
               in walk_segments ''/'' True (drop 1 (split_on slash trimmed)))"

definition starts_with_prefix :: "string \<Rightarrow> string \<Rightarrow> bool" where
  "starts_with_prefix self pre =
     (if self = pre then True
      else let p = (if ends_with pre ''/'' then pre else pre @ ''/'') in starts_with self p)"

definition is_dedup :: "string \<Rightarrow> bool" where
  "is_dedup p \<longleftrightarrow> starts_with p ''/var/memory/dedup/'' \<or> p = ''/var/memory/dedup''"

definition is_mnt :: "string \<Rightarrow> bool" where
  "is_mnt p \<longleftrightarrow> starts_with p ''/mnt/'' \<or> p = ''/mnt''"

section \<open>Memory capability\<close>

record memory_capability =
  enabled :: bool
  search_scopes :: "string list"
  write_scopes :: "string list"

definition can_read :: "memory_capability \<Rightarrow> string \<Rightarrow> bool" where
  "can_read m path \<longleftrightarrow> enabled m \<and> list_ex (\<lambda>scope. starts_with_prefix path scope) (search_scopes m)"

definition can_write :: "memory_capability \<Rightarrow> string \<Rightarrow> bool" where
  "can_write m path \<longleftrightarrow> enabled m \<and> list_ex (\<lambda>scope. starts_with_prefix path scope) (write_scopes m)"

section \<open>Canonical form\<close>

text \<open>What the walk produces: the segments it was given without the dots, joined behind a slash.\<close>

lemma walk_segments_raw:
  assumes "walk_segments canonical is_first segs = Ok r"
    and "canonical = (if is_first then ''/'' else abs_path ps)" "is_first \<longleftrightarrow> ps = []"
    and "\<forall>s \<in> set segs. slash \<notin> set s" "good_segs ps"
  shows "\<exists>qs. r = abs_path (ps @ qs) \<and> good_segs (ps @ qs) \<and> qs = filter (\<lambda>s. s \<noteq> ''.'') segs"
  using assms
proof (induction canonical is_first segs arbitrary: ps rule: walk_segments.induct)
  case (2 canonical is_first segment rest)
  show ?case
  proof (cases "segment = ''.''")
    case True
    with 2 show ?thesis by simp
  next
    case False
    with 2(3) have seg: "segment \<noteq> []" "segment \<noteq> ''..''" "length segment \<le> 255"
      and w: "walk_segments ((if is_first then canonical else canonical @ ''/'') @ segment) False rest = Ok r"
      by (auto split: if_splits)
    have good: "good_segs (ps @ [segment])"
      using 2(6,7) seg False by (simp add: good_seg_def)
    have can: "(if is_first then canonical else canonical @ ''/'') @ segment = abs_path (ps @ [segment])"
      using 2(4,5) abs_path_snoc[of ps segment] by auto
    have "\<exists>qs. r = abs_path ((ps @ [segment]) @ qs) \<and> good_segs ((ps @ [segment]) @ qs) \<and>
        qs = filter (\<lambda>s. s \<noteq> ''.'') rest"
      using 2(2)[OF _ _ False _ w] seg can good 2(6) by auto
    with False show ?thesis by auto
  qed
qed auto

lemma walk_segments_abs:
  assumes "walk_segments ''/'' True segs = Ok r" "\<forall>s \<in> set segs. slash \<notin> set s"
  shows "r = abs_path (filter (\<lambda>s. s \<noteq> ''.'') segs)" "good_segs (filter (\<lambda>s. s \<noteq> ''.'') segs)"
  using walk_segments_raw[OF assms(1), of "[]"] assms(2) by auto

lemma walk_segments_no_parent:
  "walk_segments canonical is_first segs = Ok r \<Longrightarrow>
     s \<in> set segs \<Longrightarrow> s \<noteq> [] \<and> s \<noteq> ''..'' \<and> length s \<le> 255"
  by (induction canonical is_first segs rule: walk_segments.induct) (auto split: if_splits)

lemma walk_segments_good:
  "good_segs qs \<Longrightarrow> \<forall>s \<in> set qs. length s \<le> 255 \<Longrightarrow> good_segs ps \<Longrightarrow>
   walk_segments (abs_path ps) (ps = []) qs = Ok (abs_path (ps @ qs))"
proof (induction qs arbitrary: ps)
  case (Cons q qs)
  then have step: "(if ps = [] then abs_path ps else abs_path ps @ ''/'') @ q = abs_path (ps @ [q])"
    using abs_path_snoc[of ps q] by auto
  with Cons.IH[of "ps @ [q]"] Cons.prems show ?case
    by (auto simp: good_seg_def)
qed simp

text \<open>Trimming the trailing slashes of a string only drops empty segments at its end.\<close>

lemma foldl_norm_seg_skip: "foldl norm_seg ps (ss @ [[]]) = foldl norm_seg ps ss"
  by (simp add: norm_seg_def)

lemma split_on_snoc_sep: "split_on c (s @ [c]) = split_on c s @ [[]]"
proof (induction c s rule: split_on.induct)
  case (2 c x xs)
  then show ?case by (cases "split_on c xs") auto
qed simp

lemma norm_parts_snoc_slash: "norm_parts (s @ [slash]) = norm_parts s"
  by (simp add: norm_parts_def split_on_snoc_sep norm_seg_def)

lemma norm_parts_trim_end: "norm_parts (trim_end_char slash s) = norm_parts s"
proof (induction s rule: rev_induct)
  case (snoc c s)
  show ?case
  proof (cases "c = slash")
    case True
    with snoc show ?thesis by (simp add: norm_parts_snoc_slash)
  next
    case False
    then show ?thesis by (simp add: trim_end_char_other)
  qed
qed (simp add: trim_end_char_def)

lemma foldl_norm_seg_filter:
  "\<forall>s \<in> set ss. s \<noteq> [] \<and> s \<noteq> ''..'' \<Longrightarrow>
     foldl norm_seg ps ss = ps @ filter (\<lambda>s. s \<noteq> ''.'') ss"
  by (induction ss arbitrary: ps) (auto simp: norm_seg_def)

lemma is_memory_path_abs:
  "good_segs ps \<Longrightarrow>
   is_memory_path_str (abs_path ps) \<longleftrightarrow> prefix [''var'', ''memory''] ps \<or> prefix [''mnt''] ps"
proof -
  assume ps: "good_segs ps"
  have good: "good_segs [''var'', ''memory'']" "good_segs [''mnt'']"
    by (auto simp: good_seg_def)
  have eqs: "abs_path [''var'', ''memory''] = ''/var/memory''" "abs_path [''mnt''] = ''/mnt''"
    by (simp_all add: abs_path_def)
  show ?thesis
    using at_or_below_iff[OF good(1) ps] at_or_below_iff[OF good(2) ps]
    unfolding eqs is_memory_path_str_def at_or_below_def by auto
qed

lemma is_mnt_abs: "good_segs ps \<Longrightarrow> is_mnt (abs_path ps) \<longleftrightarrow> prefix [''mnt''] ps"
proof -
  assume ps: "good_segs ps"
  have "good_segs [''mnt'']" "abs_path [''mnt''] = ''/mnt''"
    by (simp_all add: good_seg_def abs_path_def)
  with at_or_below_iff[OF _ ps, of "[''mnt'']"] show ?thesis
    unfolding is_mnt_def at_or_below_def by auto
qed

lemma starts_with_prefix_abs:
  assumes "good_segs ps" "good_segs qs"
  shows "starts_with_prefix (abs_path qs) (abs_path ps) \<longleftrightarrow> prefix ps qs"
proof (cases "ps = []")
  case True
  then show ?thesis by (simp add: starts_with_prefix_def ends_with_def)
next
  case False
  have "\<not> ends_with (abs_path ps) ''/''"
    using last_abs_path[OF assms(1) False] by (auto simp: ends_with_def suffix_def)
  then show ?thesis
    using assms False
    by (auto simp: starts_with_prefix_def abs_path_inject starts_below_iff Let_def strict_prefix_def)
qed

lemma starts_with_prefix_refl [simp]: "starts_with_prefix p p"
  by (simp add: starts_with_prefix_def)

lemma starts_with_prefix_trans:
  assumes "starts_with_prefix x s" "starts_with_prefix s t"
  shows "starts_with_prefix x t"
proof (cases "x = s \<or> s = t")
  case False
  define t' where "t' = (if ends_with t ''/'' then t else t @ ''/'')"
  have "prefix t' s" "prefix s x"
    using assms False
    by (auto simp: starts_with_prefix_def starts_with_def t'_def Let_def split: if_splits
        dest: append_prefixD)
  then have "prefix t' x" by (rule prefix_order.trans)
  then show ?thesis by (simp add: starts_with_prefix_def starts_with_def t'_def Let_def)
qed (use assms in auto)

section \<open>Parsing\<close>

lemma length_join_filter: "length (join_with c (filter P ss)) \<le> length (join_with c ss)"
proof (induction ss)
  case (Cons s ss)
  then show ?case
    by (cases "ss = []"; cases "filter P ss = []") (auto simp: join_with_Cons)
qed simp

lemma set_join_filter: "set (join_with c (filter P ss)) \<subseteq> set (join_with c ss)"
proof (induction ss)
  case (Cons s ss)
  then show ?case
    by (cases "ss = []"; cases "filter P ss = []") (auto simp: join_with_Cons)
qed simp

lemma first_control_None_iff: "first_control s = None \<longleftrightarrow> (\<forall>c \<in> set s. \<not> (of_char c < (32::nat) \<or> of_char c = (127::nat)))"
  by (induction s) (auto simp: Let_def)

lemma memory_path_shape:
  assumes "memory_path_parse s = Ok p"
  obtains segs where "trim_end_char slash s = abs_path segs" "p = normalize_vfs s"
    "norm_parts s = filter (\<lambda>x. x \<noteq> ''.'') segs" "segs \<noteq> []"
    "\<forall>x \<in> set segs. x \<noteq> [] \<and> x \<noteq> ''..'' \<and> length x \<le> 255 \<and> slash \<notin> set x"
proof -
  let ?t = "trim_end_char slash s"
  have mem: "is_memory_path_str s"
    and w: "walk_segments ''/'' True (drop 1 (split_on slash (if ?t = [] then s else ?t))) = Ok p"
    using assms by (auto simp: memory_path_parse_def Let_def split: if_splits option.splits)
  from mem obtain c cs where s: "s = slash # c # cs" "c \<noteq> slash"
    by (auto simp: is_memory_path_str_def starts_with_def prefix_def)
  have "?t \<noteq> []"
    using s by (auto simp: trim_end_char_def dropWhile_append split: if_splits)
  moreover have "\<exists>z. s = ?t @ z" and "\<exists>z. ?t = slash # z"
  proof -
    show "\<exists>z. s = ?t @ z"
      unfolding trim_end_char_def by (metis rev_append rev_rev_ident takeWhile_dropWhile_id)
    with s \<open>?t \<noteq> []\<close> show "\<exists>z. ?t = slash # z" by (cases ?t) auto
  qed
  ultimately obtain z where t: "?t = slash # z" by blast
  define segs where "segs = split_on slash z"
  have drop: "drop 1 (split_on slash (if ?t = [] then s else ?t)) = segs"
    using t by (simp add: segs_def)
  have noslash: "\<forall>x \<in> set segs. slash \<notin> set x"
    by (auto simp: segs_def dest: split_on_no_sep)
  have props: "\<forall>x \<in> set segs. x \<noteq> [] \<and> x \<noteq> ''..'' \<and> length x \<le> 255 \<and> slash \<notin> set x"
    using w noslash unfolding drop by (auto dest: walk_segments_no_parent)
  have parts: "norm_parts s = filter (\<lambda>x. x \<noteq> ''.'') segs"
    using props foldl_norm_seg_filter[of segs "[]"]
    by (subst norm_parts_trim_end[symmetric]) (simp add: norm_parts_def t norm_seg_def segs_def)
  have "p = normalize_vfs s"
    using walk_segments_abs[OF w[unfolded drop] noslash] by (simp add: normalize_abs parts)
  moreover have "?t = abs_path segs"
    using t by (simp add: abs_path_def segs_def join_split)
  ultimately show ?thesis using that parts props by (auto simp: segs_def)
qed

lemma prefix_filter_heads:
  "prefix xs ys \<Longrightarrow> \<forall>x \<in> set xs. P x \<Longrightarrow> prefix xs (filter P ys)"
  by (auto simp: prefix_def)

lemma trim_end_char_append:
  "xs \<noteq> [] \<Longrightarrow> last xs \<noteq> c \<Longrightarrow> trim_end_char c (xs @ r) = xs @ trim_end_char c r"
proof (induction r rule: rev_induct)
  case Nil
  then show ?case by (auto simp: trim_end_char_other)
next
  case (snoc x r)
  show ?case
  proof (cases "x = c")
    case True
    with snoc show ?thesis by (simp flip: append_assoc)
  next
    case False
    then show ?thesis by (simp add: trim_end_char_other flip: append_assoc)
  qed
qed

lemma trim_end_char_hd:
  "r = [] \<or> hd r = c' \<Longrightarrow> trim_end_char c r = [] \<or> (\<exists>z. trim_end_char c r = c' # z)"
proof (induction r rule: rev_induct)
  case (snoc x r)
  show ?case
  proof (cases "x = c")
    case True
    with snoc show ?thesis by (cases r) (auto simp: trim_end_char_def)
  next
    case False
    with snoc show ?thesis by (cases r) (auto simp: trim_end_char_other)
  qed
qed (simp add: trim_end_char_def)

lemma memory_path_segs:
  assumes s: "is_memory_path_str s" and t: "trim_end_char slash s = abs_path segs"
    and props: "\<forall>x \<in> set segs. x \<noteq> [] \<and> slash \<notin> set x" and ne: "segs \<noteq> []"
  shows "prefix [''var'', ''memory''] segs \<or> prefix [''mnt''] segs"
proof -
  have key: "prefix qs segs"
    if q: "s = abs_path qs \<or> starts_with s (abs_path qs @ ''/'')" and g: "good_segs qs" "qs \<noteq> []" for qs
  proof -
    obtain r where r: "s = abs_path qs @ r" "r = [] \<or> hd r = slash"
      using q by (auto simp: starts_with_def prefix_def)
    have "trim_end_char slash s = abs_path qs @ trim_end_char slash r"
      unfolding r(1) using last_abs_path[OF g]
      by (intro trim_end_char_append) (auto simp: abs_path_def)
    then have j: "join_with slash segs = join_with slash qs @ trim_end_char slash r"
      using t by (simp add: abs_path_def)
    have segs: "split_on slash (join_with slash segs) = segs"
      using props ne by (intro split_join) auto
    have qs: "split_on slash (join_with slash qs) = qs"
      using g by (intro split_join) (auto simp: good_segs_def good_seg_def)
    consider "trim_end_char slash r = []" | z where "trim_end_char slash r = slash # z"
      using trim_end_char_hd[OF r(2)] by blast
    then show "prefix qs segs"
    proof cases
      case 1
      with j have "join_with slash segs = join_with slash qs" by simp
      with segs qs have "segs = qs" by metis
      then show ?thesis by simp
    next
      case 2
      with j have "split_on slash (join_with slash segs) = qs @ split_on slash z"
        using split_join_slash[OF g, of z] by simp
      with segs show ?thesis by (metis prefixI)
    qed
  qed
  have "abs_path [''var'', ''memory''] = ''/var/memory''" "abs_path [''mnt''] = ''/mnt''"
    by (simp_all add: abs_path_def)
  moreover have "good_segs [''var'', ''memory'']" "good_segs [''mnt'']"
    by (simp_all add: good_seg_def)
  ultimately show ?thesis
    using s key[of "[''var'', ''memory'']"] key[of "[''mnt'']"]
    unfolding is_memory_path_str_def by (metis append_Cons append_Nil list.distinct(1))
qed

lemma memory_path_parse_normal:
  assumes "memory_path_parse s = Ok p"
  shows "p = normalize_vfs s" "is_memory_path_str p"
proof -
  obtain segs where segs: "trim_end_char slash s = abs_path segs" "p = normalize_vfs s"
      "norm_parts s = filter (\<lambda>x. x \<noteq> ''.'') segs" "segs \<noteq> []"
      "\<forall>x \<in> set segs. x \<noteq> [] \<and> x \<noteq> ''..'' \<and> length x \<le> 255 \<and> slash \<notin> set x"
    using memory_path_shape[OF assms] by blast
  show "p = normalize_vfs s" by (rule segs)
  have "is_memory_path_str s"
    using assms by (auto simp: memory_path_parse_def split: if_splits option.splits)
  then have "prefix [''var'', ''memory''] segs \<or> prefix [''mnt''] segs"
    using segs by (intro memory_path_segs) auto
  then have "prefix [''var'', ''memory''] (norm_parts s) \<or> prefix [''mnt''] (norm_parts s)"
    using prefix_filter_heads[of "[''var'', ''memory'']" segs "\<lambda>x. x \<noteq> ''.''"]
      prefix_filter_heads[of "[''mnt'']" segs "\<lambda>x. x \<noteq> ''.''"]
    unfolding segs(3) by fastforce
  then show "is_memory_path_str p"
    unfolding segs(2) normalize_abs by (simp only: is_memory_path_abs norm_parts_good)
qed

lemma normalize_shrinks:
  assumes "memory_path_parse s = Ok p"
  shows "length p \<le> length s" "set p \<subseteq> set s"
proof -
  obtain segs where segs: "trim_end_char slash s = abs_path segs" "p = normalize_vfs s"
      "norm_parts s = filter (\<lambda>x. x \<noteq> ''.'') segs"
    using memory_path_shape[OF assms] by blast
  have "length (trim_end_char slash s) \<le> length s" "set (trim_end_char slash s) \<subseteq> set s"
    by (auto simp: trim_end_char_def length_dropWhile_le[of _ "rev s", simplified] dest: set_dropWhileD)
  moreover have "length p \<le> length (abs_path segs)" "set p \<subseteq> set (abs_path segs)"
    using segs length_join_filter[of slash "\<lambda>x. x \<noteq> ''.''" segs]
      set_join_filter[of slash "\<lambda>x. x \<noteq> ''.''" segs]
    by (auto simp: normalize_abs abs_path_def)
  ultimately show "length p \<le> length s" "set p \<subseteq> set s" using segs(1) by auto
qed

lemma memory_path_parse_fixed:
  assumes "memory_path_parse s = Ok p"
  shows "p = normalize_vfs s \<and> is_memory_path_str p \<and> memory_path_parse p = Ok p"
proof -
  obtain segs where segs: "norm_parts s = filter (\<lambda>x. x \<noteq> ''.'') segs"
      "\<forall>x \<in> set segs. length x \<le> 255"
    using memory_path_shape[OF assms] by (metis (mono_tags, lifting))
  have p: "p = normalize_vfs s" "is_memory_path_str p" by (rule memory_path_parse_normal[OF assms])+
  have lens: "length p \<le> 1024" "CHR 0x00 \<notin> set p" "first_control p = None"
    using normalize_shrinks[OF assms] assms
    by (auto simp: memory_path_parse_def contains_char_def first_control_None_iff split: if_splits option.splits)
  have abs: "p = abs_path (norm_parts s)" and ne: "norm_parts s \<noteq> []"
    using p by (auto simp: normalize_abs is_memory_path_abs)
  have "trim_end_char slash p = p" and "p \<noteq> []"
    using last_abs_path[OF _ ne] by (auto simp: abs abs_path_def intro!: trim_end_char_other)
  moreover have "drop 1 (split_on slash p) = norm_parts s"
    using ne by (simp add: abs split_abs_path)
  moreover have "\<forall>x \<in> set (norm_parts s). length x \<le> 255"
    using segs by auto
  then have "walk_segments ''/'' True (norm_parts s) = Ok p"
    using walk_segments_good[of "norm_parts s" "[]"] abs by simp
  ultimately have "memory_path_parse p = Ok p"
    using lens p(2) by (simp add: memory_path_parse_def contains_char_def Let_def)
  with p show ?thesis by simp
qed

text \<open>C11: A memory path that parses is canonical: the result is the VFS normal form of the input,
  it still lies under \<^verbatim>\<open>/var/memory\<close> or \<^verbatim>\<open>/mnt\<close> (so no spelling escapes the memory trees) and
  parsing it again returns it unchanged.\<close>

theorem memory_path_parse_canonical:
  assumes "memory_path_parse s = Ok p"
  shows "p = normalize_vfs s \<and> is_memory_path_str p \<and> memory_path_parse p = Ok p"
  by (rule memory_path_parse_fixed[OF assms])

theorem memory_path_parse_canonical_witness:
  "memory_path_parse ''/var/memory/./self/notes/'' = Ok ''/var/memory/self/notes'' \<and>
   normalize_vfs ''/var/memory/./self/notes/'' = ''/var/memory/self/notes'' \<and>
   memory_path_parse ''/var/memory/self/notes'' = Ok ''/var/memory/self/notes''"
proof -
  have "memory_path_parse ''/var/memory/./self/notes/'' = Ok ''/var/memory/self/notes''"
    by code_simp
  from this memory_path_parse_canonical[OF this] show ?thesis by metis
qed

text \<open>A tenant id that parses is exactly the input, at most 64 bytes long, and is a single proper
  path segment: interpolated below any directory it names one direct child of that directory and
  cannot traverse out of it.\<close>

theorem tenant_id_safe_segment:
  assumes "tenant_id_parse s = Ok t" and "good_segs dir"
  shows "t = s \<and> length t \<le> 64 \<and> norm_parts (abs_path dir @ ''/'' @ t) = dir @ [t]"
proof -
  have rest: "tenant_rest_check cs = None \<Longrightarrow> slash \<notin> set cs \<and> CHR ''.'' \<notin> set cs" for cs
    by (induction cs) (auto simp: is_ascii_lowercase_def is_ascii_digit_def split: if_splits)
  have t: "t = s" "length t \<le> 64" "slash \<notin> set t" "CHR ''.'' \<notin> set t" "t \<noteq> []"
    using assms(1) rest
    by (auto simp: tenant_id_parse_def is_ascii_lowercase_def is_ascii_digit_def
        split: list.splits if_splits option.splits)
  then have good: "good_seg t" by (auto simp: good_seg_def)
  have "norm_parts (abs_path dir @ ''/'' @ t) = dir @ [t]"
  proof (cases "dir = []")
    case True
    with t good show ?thesis
      by (simp add: norm_parts_def split_on_atom norm_seg_def good_seg_def)
  next
    case False
    then have "abs_path dir @ ''/'' @ t = abs_path (dir @ [t])" by (simp add: abs_path_snoc)
    then show ?thesis using assms(2) good by simp
  qed
  with t show ?thesis by simp
qed

theorem tenant_id_safe_segment_witness:
  "norm_parts ''/data/acme-01'' = [''data'', ''acme-01'']"
proof -
  have "tenant_id_parse ''acme-01'' = Ok ''acme-01''" by code_simp
  moreover have "good_segs [''data'']" by (simp add: good_seg_def)
  ultimately show ?thesis
    using tenant_id_safe_segment[of "''acme-01''" "''acme-01''" "[''data'']"] by (simp add: abs_path_def)
qed

end
