(* ===== verification/Memory_Store.thy ===== *)
theory Memory_Store
  imports Memory_Path
begin

text \<open>
  The durable memory of an agent (\<^verbatim>\<open>simulacra-memory/src/store.rs\<close>, \<^verbatim>\<open>sqlite_store.rs\<close>, \<^verbatim>\<open>error.rs\<close>):
  one table of rows per tenant, keyed by path in byte order.  Each method is one transaction; whether
  SQLite fails it is decided by the environment from the number of the operation, and a failed
  transaction changes nothing.  Hashing, the clock and the failures are parameters.  A \<open>MemoryPath\<close> is its
  canonical string, and \<open>ms_events\<close> lists what the broadcast channel was given.
\<close>

section \<open>Values\<close>

datatype memory_error =
    MemNotFound string
  | MemInvalidPath memory_path_error
  | EmbedderMismatch string string bool
  | EmbedderDimensionMismatch nat nat
  | EmbeddingFailed string
  | NotUnitVector string
  | VectorDimMismatch nat nat
  | DedupQuotaExceeded string
  | MemIo string
  | MemSqlite string
  | MemInternal string
  | ShutdownTimeout
  | WorkerPanic string

fun show_bool :: "bool \<Rightarrow> string" where
  "show_bool True = ''true''"
| "show_bool False = ''false''"

definition em_dash_utf8 :: string where
  "em_dash_utf8 = [CHR 0xE2, CHR 0x80, CHR 0x94]"

fun show_memory_error :: "memory_error \<Rightarrow> string" where
  "show_memory_error (MemNotFound p) = ''not found: '' @ p"
| "show_memory_error (MemInvalidPath e) = ''invalid path: '' @ show_memory_path_error e"
| "show_memory_error (EmbedderMismatch stored configured wipe) =
     ''embedder mismatch '' @ em_dash_utf8 @ '' stored: '' @ stored @ '', configured: '' @ configured @
     '', requires_wipe: '' @ show_bool wipe"
| "show_memory_error (EmbedderDimensionMismatch stored configured) =
     ''embedder dimension mismatch '' @ em_dash_utf8 @ '' stored: '' @ show_nat stored @ '', configured: '' @
     show_nat configured @ ''; only wipe_and_rebuild can change dimension''"
| "show_memory_error (EmbeddingFailed m) = ''embedding failed: '' @ m"
| "show_memory_error (NotUnitVector norm) = ''vector is not unit-normalized: norm = '' @ norm"
| "show_memory_error (VectorDimMismatch expected got) =
     ''vector dimension mismatch: expected '' @ show_nat expected @ '', got '' @ show_nat got"
| "show_memory_error (DedupQuotaExceeded m) = ''dedup quota exceeded: '' @ m"
| "show_memory_error (MemIo m) = ''io error: '' @ m"
| "show_memory_error (MemSqlite m) = ''sqlite error: '' @ m"
| "show_memory_error (MemInternal m) = ''internal error: '' @ m"
| "show_memory_error ShutdownTimeout = ''background embedder shutdown timed out waiting for workers to drain''"
| "show_memory_error (WorkerPanic tenant) = ''background embedder worker panicked for tenant: '' @ tenant"

record memory_entry =
  en_path :: string
  en_size :: nat
  en_version :: nat
  en_mtime :: nat
  en_hash :: bytes

datatype memory_event =
    EvPut string string nat bytes nat
  | EvDelete string string nat

record memory_row =
  mr_version :: nat
  mr_hash :: bytes
  mr_size :: nat
  mr_mtime :: nat
  mr_data :: bytes
  mr_deleted :: bool

record memory_env =
  me_fault :: "nat \<Rightarrow> string option"
  me_now :: "nat \<Rightarrow> nat"
  me_sha256 :: "bytes \<Rightarrow> bytes"

type_synonym memory_table = "(string, memory_row) btree"

record memory_db =
  ms_tables :: "string \<Rightarrow> memory_table"
  ms_clock :: nat
  ms_events :: "memory_event list"

section \<open>Operations\<close>

text \<open>A connection, or the error that kept the transaction from committing.\<close>

definition open_conn :: "memory_env \<Rightarrow> memory_db \<Rightarrow> string \<Rightarrow> memory_error + memory_table" where
  "open_conn E m tenant =
     (case me_fault E (ms_clock m) of Some e \<Rightarrow> Err (MemSqlite e) | None \<Rightarrow> Ok (ms_tables m tenant))"

definition tick :: "memory_db \<Rightarrow> memory_db" where
  "tick m = m\<lparr>ms_clock := Suc (ms_clock m)\<rparr>"

definition commit :: "memory_db \<Rightarrow> string \<Rightarrow> memory_table \<Rightarrow> memory_event list \<Rightarrow> memory_db" where
  "commit m tenant t es = (tick m)\<lparr>ms_tables := (ms_tables m)(tenant := t), ms_events := ms_events m @ es\<rparr>"

definition current_row_version :: "memory_table \<Rightarrow> string \<Rightarrow> nat option" where
  "current_row_version t path = map_option mr_version (bt_get t path)"

definition mem_put ::
  "memory_env \<Rightarrow> memory_db \<Rightarrow> string \<Rightarrow> string \<Rightarrow> bytes \<Rightarrow> (memory_error + nat) \<times> memory_db" where
  "mem_put E m tenant path data =
     (case open_conn E m tenant of
        Inl e \<Rightarrow> (Err e, tick m)
      | Inr t \<Rightarrow>
          (let new_version = unwrap_or (current_row_version t path) 0 + 1;
               hash = me_sha256 E data;
               row = \<lparr>mr_version = new_version, mr_hash = hash, mr_size = length data,
                      mr_mtime = me_now E (ms_clock m), mr_data = data, mr_deleted = False\<rparr>
           in (Ok new_version, commit m tenant (bt_insert path row t)
                 [EvPut tenant path new_version hash (length data)])))"

definition mem_get :: "memory_env \<Rightarrow> memory_db \<Rightarrow> string \<Rightarrow> string \<Rightarrow> memory_error + (bytes \<times> nat)" where
  "mem_get E m tenant path =
     (case open_conn E m tenant of
        Inl e \<Rightarrow> Err e
      | Inr t \<Rightarrow>
          (case bt_get t path of
             Some row \<Rightarrow> if mr_deleted row then Err (MemNotFound path) else Ok (mr_data row, mr_version row)
           | None \<Rightarrow> Err (MemNotFound path)))"

definition mem_has :: "memory_env \<Rightarrow> memory_db \<Rightarrow> string \<Rightarrow> string \<Rightarrow> memory_error + bool" where
  "mem_has E m tenant path =
     (case open_conn E m tenant of
        Inl e \<Rightarrow> Err e
      | Inr t \<Rightarrow> Ok (map_option mr_deleted (bt_get t path) = Some False))"

text \<open>The range scan: U+10FFFF closes the range of a prefix; text compares byte by byte.\<close>

definition prefix_upper_bound :: "string \<Rightarrow> string" where
  "prefix_upper_bound pre = pre @ [CHR 0xF4, CHR 0x8F, CHR 0xBF, CHR 0xBF]"

definition in_range :: "string \<Rightarrow> string \<Rightarrow> bool" where
  "in_range pre path \<longleftrightarrow> pre \<le> path \<and> path < prefix_upper_bound pre"

definition live_in_range :: "string \<Rightarrow> memory_table \<Rightarrow> memory_table" where
  "live_in_range pre t = filter (\<lambda>(path, row). in_range pre path \<and> \<not> mr_deleted row) t"

definition entry_of :: "string \<Rightarrow> string \<times> memory_row \<Rightarrow> memory_entry option" where
  "entry_of pre pr =
     (case memory_path_parse (fst pr) of
        Inl _ \<Rightarrow> None
      | Inr path \<Rightarrow>
          if \<not> starts_with_prefix path pre then None
          else Some \<lparr>en_path = path, en_size = mr_size (snd pr), en_version = mr_version (snd pr),
                     en_mtime = mr_mtime (snd pr),
                     en_hash = (if length (mr_hash (snd pr)) = 32 then mr_hash (snd pr) else replicate 32 (CHR 0x00))\<rparr>)"

definition mem_list_prefix ::
  "memory_env \<Rightarrow> memory_db \<Rightarrow> string \<Rightarrow> string \<Rightarrow> memory_error + memory_entry list" where
  "mem_list_prefix E m tenant pre =
     (case open_conn E m tenant of
        Inl e \<Rightarrow> Err e
      | Inr t \<Rightarrow> Ok (List.map_filter (entry_of pre) (live_in_range pre t)))"

definition mem_current_version :: "memory_env \<Rightarrow> memory_db \<Rightarrow> string \<Rightarrow> string \<Rightarrow> memory_error + nat option" where
  "mem_current_version E m tenant path =
     (case open_conn E m tenant of
        Inl e \<Rightarrow> Err e
      | Inr t \<Rightarrow>
          Ok (case bt_get t path of
                Some row \<Rightarrow> if mr_deleted row then None else Some (mr_version row)
              | None \<Rightarrow> None))"

definition tombstone :: "nat \<Rightarrow> memory_row \<Rightarrow> memory_row" where
  "tombstone now row = row\<lparr>mr_version := mr_version row + 1, mr_mtime := now, mr_deleted := True\<rparr>"

definition mem_delete ::
  "memory_env \<Rightarrow> memory_db \<Rightarrow> string \<Rightarrow> string \<Rightarrow> (memory_error + nat) \<times> memory_db" where
  "mem_delete E m tenant path =
     (case open_conn E m tenant of
        Inl e \<Rightarrow> (Err e, tick m)
      | Inr t \<Rightarrow>
          (case bt_get t path of
             None \<Rightarrow> (Err (MemNotFound path), tick m)
           | Some row \<Rightarrow>
               (Ok (mr_version row + 1),
                commit m tenant (bt_insert path (tombstone (me_now E (ms_clock m)) row) t)
                  [EvDelete tenant path (mr_version row + 1)])))"

text \<open>The rows the events name, collected before the update.\<close>

definition affected_row :: "string \<Rightarrow> string \<times> memory_row \<Rightarrow> (string \<times> nat) option" where
  "affected_row pre pr =
     (case memory_path_parse (fst pr) of
        Inl _ \<Rightarrow> None
      | Inr path \<Rightarrow> if \<not> starts_with_prefix path pre then None else Some (path, mr_version (snd pr) + 1))"

definition mem_delete_prefix ::
  "memory_env \<Rightarrow> memory_db \<Rightarrow> string \<Rightarrow> string \<Rightarrow> (memory_error + nat) \<times> memory_db" where
  "mem_delete_prefix E m tenant pre =
     (case open_conn E m tenant of
        Inl e \<Rightarrow> (Err e, tick m)
      | Inr t \<Rightarrow>
          (let affected = List.map_filter (affected_row pre) (live_in_range pre t);
               mtime = me_now E (ms_clock m);
               t1 = map (\<lambda>(path, row). (path, if in_range pre path \<and> \<not> mr_deleted row then tombstone mtime row else row)) t
           in (Ok (length affected), commit m tenant t1 (map (\<lambda>(path, version). EvDelete tenant path version) affected))))"

definition mem_ensure_tenant :: "memory_env \<Rightarrow> memory_db \<Rightarrow> string \<Rightarrow> memory_error + unit" where
  "mem_ensure_tenant E m tenant = map_sum id (\<lambda>_. ()) (open_conn E m tenant)"

section \<open>Lookups after an operation\<close>

definition row_at :: "memory_db \<Rightarrow> string \<Rightarrow> string \<Rightarrow> memory_row option" where
  "row_at m tenant path = bt_get (ms_tables m tenant) path"

definition live_row :: "memory_db \<Rightarrow> string \<Rightarrow> string \<Rightarrow> memory_row option" where
  "live_row m tenant path = (case row_at m tenant path of Some r \<Rightarrow> if mr_deleted r then None else Some r | None \<Rightarrow> None)"

definition version_at :: "memory_db \<Rightarrow> string \<Rightarrow> string \<Rightarrow> nat" where
  "version_at m tenant path = (case row_at m tenant path of Some r \<Rightarrow> mr_version r | None \<Rightarrow> 0)"

definition db_fault :: "memory_env \<Rightarrow> memory_db \<Rightarrow> memory_error option" where
  "db_fault E m = map_option MemSqlite (me_fault E (ms_clock m))"

lemma open_conn_fault:
  "open_conn E m tenant = (case db_fault E m of Some e \<Rightarrow> Err e | None \<Rightarrow> Ok (ms_tables m tenant))"
  by (simp add: open_conn_def db_fault_def split: option.split)

lemma row_at_tick [simp]: "row_at (tick m) = row_at m"
  by (simp add: fun_eq_iff row_at_def tick_def)

lemma row_at_commit: "row_at (commit m t tab es) u p = (if u = t then bt_get tab p else row_at m u p)"
  by (simp add: row_at_def commit_def tick_def)

lemma commit_insert:
  "row_at (commit m t (bt_insert p r (ms_tables m t)) es) u q = (if u = t \<and> q = p then Some r else row_at m u q)"
  unfolding row_at_commit by (simp add: bt_simps row_at_def)

lemma put_rows:
  assumes "mem_put E m t p d = (r, m')"
  shows "(\<exists>e. r = Err e \<and> row_at m' = row_at m) \<or>
    (\<exists>row. r = Ok (version_at m t p + 1) \<and> mr_version row = version_at m t p + 1 \<and> mr_data row = d \<and>
       \<not> mr_deleted row \<and> row_at m' u q = (if u = t \<and> q = p then Some row else row_at m u q))"
proof (cases "me_fault E (ms_clock m)")
  case None
  let ?row = "\<lparr>mr_version = version_at m t p + 1, mr_hash = me_sha256 E d, mr_size = length d,
    mr_mtime = me_now E (ms_clock m), mr_data = d, mr_deleted = False\<rparr>"
  have "unwrap_or (current_row_version (ms_tables m t) p) 0 = version_at m t p"
    by (simp add: current_row_version_def version_at_def row_at_def split: option.split)
  then have "r = Ok (version_at m t p + 1) \<and> m' = commit m t (bt_insert p ?row (ms_tables m t))
      [EvPut t p (version_at m t p + 1) (me_sha256 E d) (length d)]"
    using assms None by (auto simp: mem_put_def open_conn_def Let_def)
  then show ?thesis by (intro disjI2 exI[of _ ?row]) (simp add: commit_insert)
next
  case (Some e)
  then show ?thesis using assms by (auto simp: mem_put_def open_conn_def)
qed

lemma delete_rows:
  assumes "mem_delete E m t p = (r, m')"
  shows "(\<exists>e. r = Err e \<and> row_at m' = row_at m) \<or>
    (\<exists>row now. row_at m t p = Some row \<and> r = Ok (mr_version row + 1) \<and>
       row_at m' u q = (if u = t \<and> q = p then Some (tombstone now row) else row_at m u q))"
  using assms
  by (auto simp: mem_delete_def open_conn_def commit_insert row_at_def[symmetric] split: option.splits)

lemma bt_get_map_value: "bt_get (map (\<lambda>(k, v). (k, f k v)) t) k = map_option (f k) (bt_get t k)"
  by (induction t) (auto simp: bt_get_def)

lemma commit_map:
  "row_at (commit m t (map (\<lambda>(k, v). (k, f k v)) (ms_tables m t)) es) u q =
     map_option (\<lambda>v. if u = t then f q v else v) (row_at m u q)"
  unfolding row_at_commit by (simp add: bt_get_map_value row_at_def option.map_ident)

lemma delete_prefix_rows:
  assumes "mem_delete_prefix E m t p = (r, m')"
  shows "(\<exists>e. r = Err e \<and> row_at m' = row_at m) \<or>
    (\<exists>n now. r = Ok n \<and>
       row_at m' u q = map_option (\<lambda>row. if u = t \<and> in_range p q \<and> \<not> mr_deleted row then tombstone now row else row) (row_at m u q))"
proof (cases "me_fault E (ms_clock m)")
  case None
  let ?now = "me_now E (ms_clock m)"
  have "(\<lambda>v. if u = t then if in_range p q \<and> \<not> mr_deleted v then tombstone ?now v else v else v) =
    (\<lambda>v. if u = t \<and> in_range p q \<and> \<not> mr_deleted v then tombstone ?now v else v)" by auto
  then have "row_at m' u q = map_option (\<lambda>v. if u = t \<and> in_range p q \<and> \<not> mr_deleted v then tombstone ?now v else v) (row_at m u q)"
    using assms None commit_map[of m t "\<lambda>path row. if in_range p path \<and> \<not> mr_deleted row then tombstone ?now row else row"]
    by (auto simp: mem_delete_prefix_def open_conn_def Let_def)
  then show ?thesis using assms None by (auto simp: mem_delete_prefix_def open_conn_def Let_def)
next
  case (Some e)
  then show ?thesis using assms by (auto simp: mem_delete_prefix_def open_conn_def)
qed

section \<open>Runs\<close>

datatype memory_op = OpPut string string bytes | OpDelete string string | OpDeletePrefix string string

fun memory_step :: "memory_env \<Rightarrow> memory_op \<Rightarrow> memory_db \<Rightarrow> memory_db" where
  "memory_step E (OpPut t p d) m = snd (mem_put E m t p d)"
| "memory_step E (OpDelete t p) m = snd (mem_delete E m t p)"
| "memory_step E (OpDeletePrefix t p) m = snd (mem_delete_prefix E m t p)"

definition memory_run :: "memory_env \<Rightarrow> memory_op list \<Rightarrow> memory_db \<Rightarrow> memory_db" where
  "memory_run E ops m = fold (memory_step E) ops m"

text \<open>A step either leaves a row alone or raises its version.\<close>

lemma step_row:
  "row_at (memory_step E op m) u q = row_at m u q \<or> version_at m u q < version_at (memory_step E op m) u q"
proof (cases op)
  case (OpPut t p d)
  then show ?thesis using put_rows[OF surjective_pairing, of E m t p d u q] by (auto simp: version_at_def)
next
  case (OpDelete t p)
  then show ?thesis using delete_rows[OF surjective_pairing, of E m t p u q]
    by (auto simp: version_at_def tombstone_def)
next
  case (OpDeletePrefix t p)
  then show ?thesis using delete_prefix_rows[OF surjective_pairing, of E m t p u q]
    by (cases "row_at m u q") (auto simp: version_at_def tombstone_def)
qed

lemma run_row:
  "row_at (memory_run E ops m) u q = row_at m u q \<or> version_at m u q < version_at (memory_run E ops m) u q"
proof (induction ops arbitrary: m)
  case (Cons op ops)
  have eq: "memory_run E (op # ops) m = memory_run E ops (memory_step E op m)" by (simp add: memory_run_def)
  show ?case unfolding eq using Cons.IH[of "memory_step E op m"] step_row[of E op m u q]
    by (auto simp: version_at_def)
qed (simp add: memory_run_def)

section \<open>The contract of a store\<close>

record 'm memory_store =
  st_put :: "'m \<Rightarrow> string \<Rightarrow> string \<Rightarrow> bytes \<Rightarrow> (memory_error + nat) \<times> 'm"
  st_get :: "'m \<Rightarrow> string \<Rightarrow> string \<Rightarrow> memory_error + (bytes \<times> nat)"
  st_exists :: "'m \<Rightarrow> string \<Rightarrow> string \<Rightarrow> memory_error + bool"
  st_list_prefix :: "'m \<Rightarrow> string \<Rightarrow> string \<Rightarrow> memory_error + memory_entry list"
  st_current_version :: "'m \<Rightarrow> string \<Rightarrow> string \<Rightarrow> memory_error + nat option"
  st_delete :: "'m \<Rightarrow> string \<Rightarrow> string \<Rightarrow> (memory_error + nat) \<times> 'm"
  st_delete_prefix :: "'m \<Rightarrow> string \<Rightarrow> string \<Rightarrow> (memory_error + nat) \<times> 'm"
  st_ensure_tenant :: "'m \<Rightarrow> string \<Rightarrow> memory_error + unit"

definition sqlite_store :: "memory_env \<Rightarrow> memory_db memory_store" where
  "sqlite_store E =
     \<lparr>st_put = mem_put E, st_get = mem_get E, st_exists = mem_has E, st_list_prefix = mem_list_prefix E,
      st_current_version = mem_current_version E, st_delete = mem_delete E, st_delete_prefix = mem_delete_prefix E,
      st_ensure_tenant = mem_ensure_tenant E\<rparr>"

text \<open>What the clients of a store rely on, over the live rows it shows and the failure it is about to
  report.\<close>

locale memory_contract =
  fixes S :: "'m memory_store" and inv :: "'m \<Rightarrow> bool" and row :: "'m \<Rightarrow> string \<Rightarrow> string \<Rightarrow> memory_row option"
    and fault :: "'m \<Rightarrow> memory_error option"
  assumes get_row: "inv m \<Longrightarrow> st_get S m t p =
      (case fault m of Some e \<Rightarrow> Err e
       | None \<Rightarrow> (case row m t p of None \<Rightarrow> Err (MemNotFound p) | Some r \<Rightarrow> Ok (mr_data r, mr_version r)))"
    and exists_row: "inv m \<Longrightarrow> st_exists S m t p =
      (case fault m of Some e \<Rightarrow> Err e | None \<Rightarrow> Ok (row m t p \<noteq> None))"
    and list_cong: "inv m \<Longrightarrow> inv m' \<Longrightarrow> fault m = fault m' \<Longrightarrow>
      (\<And>q. starts_with_prefix q p \<Longrightarrow> row m t q = row m' t q) \<Longrightarrow> st_list_prefix S m t p = st_list_prefix S m' t p"
    and put_inv: "inv m \<Longrightarrow> memory_path_parse p = Ok p \<Longrightarrow> inv (snd (st_put S m t p d))"
    and put_frame: "inv m \<Longrightarrow> \<not> (u = t \<and> q = p) \<Longrightarrow> row (snd (st_put S m t p d)) u q = row m u q"
    and put_row: "inv m \<Longrightarrow> st_put S m t p d = (Ok v, m') \<Longrightarrow>
      \<exists>r. row m' t p = Some r \<and> mr_data r = d \<and> mr_version r = v"
    and delete_inv: "inv m \<Longrightarrow> inv (snd (st_delete S m t p))"
    and delete_frame: "inv m \<Longrightarrow> \<not> (u = t \<and> q = p) \<Longrightarrow> row (snd (st_delete S m t p)) u q = row m u q"
    and delete_row: "inv m \<Longrightarrow> st_delete S m t p = (Ok v, m') \<Longrightarrow> row m' t p = None"

definition db_ok :: "memory_db \<Rightarrow> bool" where
  "db_ok m \<longleftrightarrow> (\<forall>t. bt_ok (ms_tables m t) \<and> (\<forall>p \<in> set (bt_keys (ms_tables m t)). memory_path_parse p = Ok p))"

definition memory_db_new :: memory_db where
  "memory_db_new = \<lparr>ms_tables = (\<lambda>_. []), ms_clock = 0, ms_events = []\<rparr>"

lemma db_ok_new [simp]: "db_ok memory_db_new"
  by (simp add: db_ok_def memory_db_new_def bt_keys_def)

lemma db_ok_tick [simp]: "db_ok (tick m) = db_ok m"
  by (simp add: db_ok_def tick_def)

lemma db_ok_commit:
  "db_ok m \<Longrightarrow> bt_ok tab \<Longrightarrow> (\<And>p. p \<in> set (bt_keys tab) \<Longrightarrow> memory_path_parse p = Ok p) \<Longrightarrow> db_ok (commit m t tab es)"
  by (simp add: db_ok_def commit_def tick_def)

lemma keys_insert: "set (bt_keys (bt_insert p r t)) = insert p (set (bt_keys t))"
  by (auto simp: bt_keys_def set_bt_keys_insert)

lemma put_ok:
  assumes "db_ok m" "memory_path_parse p = Ok p"
  shows "db_ok (snd (mem_put E m t p d))"
  using assms
  by (auto simp: mem_put_def open_conn_def Let_def keys_insert db_ok_def commit_def tick_def split: option.splits)

lemma delete_ok:
  assumes "db_ok m"
  shows "db_ok (snd (mem_delete E m t p))"
proof -
  have "row_at m t p = Some r \<Longrightarrow> memory_path_parse p = Ok p" for r
    using assms bt_keys_dom[of "ms_tables m t"] by (auto simp: db_ok_def row_at_def)
  then show ?thesis using assms
    by (auto simp: mem_delete_def open_conn_def keys_insert db_ok_def commit_def tick_def row_at_def split: option.splits)
qed

lemma delete_prefix_ok: "db_ok m \<Longrightarrow> db_ok (snd (mem_delete_prefix E m t p))"
  by (auto simp: mem_delete_prefix_def open_conn_def Let_def db_ok_def commit_def tick_def bt_ok_def bt_keys_def
      comp_def case_prod_beta split: option.splits)

text \<open>A listing is a function of the live rows at and below the prefix.\<close>

definition below_rows :: "string \<Rightarrow> memory_table \<Rightarrow> memory_table" where
  "below_rows pre t = filter (\<lambda>(q, r). starts_with_prefix q pre) (live_in_range pre t)"

lemma map_filter_below:
  assumes "\<forall>q \<in> fst ` set t. memory_path_parse q = Ok q"
  shows "List.map_filter (entry_of pre) t = List.map_filter (entry_of pre) (filter (\<lambda>(q, r). starts_with_prefix q pre) t)"
  using assms by (induction t) (auto simp: map_filter_simps entry_of_def split: option.split)

lemma list_prefix_below:
  assumes "db_ok m"
  shows "mem_list_prefix E m t p =
    (case db_fault E m of Some e \<Rightarrow> Err e | None \<Rightarrow> Ok (List.map_filter (entry_of p) (below_rows p (ms_tables m t))))"
proof -
  have "\<forall>q \<in> fst ` set (live_in_range p (ms_tables m t)). memory_path_parse q = Ok q"
    using assms unfolding db_ok_def live_in_range_def bt_keys_def by fastforce
  from map_filter_below[OF this] show ?thesis
    by (simp add: mem_list_prefix_def open_conn_fault below_rows_def split: option.split)
qed

lemma below_rows_cong:
  assumes "db_ok m" "db_ok m'" "\<And>q. starts_with_prefix q p \<Longrightarrow> live_row m t q = live_row m' t q"
  shows "below_rows p (ms_tables m t) = below_rows p (ms_tables m' t)"
proof (rule bt_ext)
  have ok: "bt_ok (ms_tables m t)" "bt_ok (ms_tables m' t)" using assms(1,2) by (auto simp: db_ok_def)
  then show "bt_ok (below_rows p (ms_tables m t))" "bt_ok (below_rows p (ms_tables m' t))"
    by (auto simp: below_rows_def live_in_range_def)
  have get: "bt_get (below_rows p (ms_tables x t)) q =
      (if starts_with_prefix q p \<and> in_range p q then live_row x t q else None)" if "bt_ok (ms_tables x t)" for x q
    using that by (auto simp: below_rows_def live_in_range_def filter_filter bt_get_filter live_row_def row_at_def
        case_prod_beta split: option.splits)
  show "bt_get (below_rows p (ms_tables m t)) = bt_get (below_rows p (ms_tables m' t))"
    using assms(3) by (auto simp: fun_eq_iff get ok)
qed

interpretation sqlite: memory_contract "sqlite_store E" db_ok live_row "db_fault E" for E
proof unfold_locales
  fix m m' :: memory_db and t p u q v d
  assume ok: "db_ok m"
  show "st_get (sqlite_store E) m t p = (case db_fault E m of Some e \<Rightarrow> Err e
       | None \<Rightarrow> (case live_row m t p of None \<Rightarrow> Err (MemNotFound p) | Some r \<Rightarrow> Ok (mr_data r, mr_version r)))"
    by (auto simp: sqlite_store_def mem_get_def open_conn_fault live_row_def row_at_def split: option.split)
  show "st_exists (sqlite_store E) m t p = (case db_fault E m of Some e \<Rightarrow> Err e | None \<Rightarrow> Ok (live_row m t p \<noteq> None))"
    by (auto simp: sqlite_store_def mem_has_def open_conn_fault live_row_def row_at_def split: option.split)
  show "st_list_prefix (sqlite_store E) m t p = st_list_prefix (sqlite_store E) m' t p"
    if "db_ok m'" "db_fault E m = db_fault E m'" "\<And>q. starts_with_prefix q p \<Longrightarrow> live_row m t q = live_row m' t q"
  proof -
    have "below_rows p (ms_tables m t) = below_rows p (ms_tables m' t)" by (rule below_rows_cong[OF ok that(1,3)])
    then show ?thesis using that(2) by (simp add: sqlite_store_def list_prefix_below[OF ok] list_prefix_below[OF that(1)] split: option.split)
  qed
  show "db_ok (snd (st_put (sqlite_store E) m t p d))" if "memory_path_parse p = Ok p"
    using put_ok[OF ok that] by (simp add: sqlite_store_def)
  show "live_row (snd (st_put (sqlite_store E) m t p d)) u q = live_row m u q" if "\<not> (u = t \<and> q = p)"
    using put_rows[OF surjective_pairing, of E m t p d u q] that by (auto simp: sqlite_store_def live_row_def)
  show "\<exists>r. live_row m' t p = Some r \<and> mr_data r = d \<and> mr_version r = v" if "st_put (sqlite_store E) m t p d = (Ok v, m')"
    using put_rows[of E m t p d "Ok v" m' t p] that by (auto simp: sqlite_store_def live_row_def)
  show "db_ok (snd (st_delete (sqlite_store E) m t p))"
    using delete_ok[OF ok] by (simp add: sqlite_store_def)
  show "live_row (snd (st_delete (sqlite_store E) m t p)) u q = live_row m u q" if "\<not> (u = t \<and> q = p)"
    using delete_rows[OF surjective_pairing, of E m t p u q] that by (auto simp: sqlite_store_def live_row_def)
  show "live_row m' t p = None" if "st_delete (sqlite_store E) m t p = (Ok v, m')"
    using delete_rows[of E m t p "Ok v" m' t p] that by (auto simp: sqlite_store_def live_row_def tombstone_def)
qed

section \<open>What a version identifies\<close>


definition demo_memory_env :: memory_env where
  "demo_memory_env = \<lparr>me_fault = (\<lambda>_. None), me_now = id, me_sha256 = (\<lambda>d. take 32 d)\<rparr>"


section \<open>Deleting a prefix\<close>

lemma append_less: "p @ xs < p @ ys \<longleftrightarrow> xs < (ys :: string)"
  by (induction p) auto

lemma in_range_extends:
  assumes "of_char c < (0xF4 :: nat)"
  shows "in_range p (p @ c # r)"
proof -
  have "c < CHR 0xF4" using assms by (simp add: less_char_def)
  moreover have "p \<le> p @ c # r" using append_less[of p "[]" "c # r"] by simp
  ultimately show ?thesis by (simp add: in_range_def prefix_upper_bound_def append_less)
qed

text \<open>
  A prefix deletion covers a byte range, wider than the prefix: a live row whose path merely starts
  with the same characters (\<^verbatim>\<open>/mnt/docs2\<close> for the prefix \<^verbatim>\<open>/mnt/docs\<close>) is deleted too, and no event
  reports it.
\<close>

theorem delete_prefix_takes_siblings:
  assumes "mem_delete_prefix E m t p = (Ok n, m')" "p \<noteq> []" "last p \<noteq> slash" "c \<noteq> slash" "of_char c < (0xF4 :: nat)"
  shows "live_row m' t (p @ c # r) = None \<and>
    EvDelete t (p @ c # r) v \<notin> set (drop (length (ms_events m)) (ms_events m'))"
proof
  have "\<exists>n now. row_at m' t (p @ c # r) = map_option (\<lambda>row. if \<not> mr_deleted row then tombstone now row else row) (row_at m t (p @ c # r))"
    using delete_prefix_rows[OF assms(1), of t "p @ c # r"] in_range_extends[OF assms(5)] by simp
  then show "live_row m' t (p @ c # r) = None"
    by (cases "row_at m t (p @ c # r)") (auto simp: live_row_def tombstone_def)
  let ?gone = "List.map_filter (affected_row p) (live_in_range p (ms_tables m t))"
  have "ms_events m' = ms_events m @ map (\<lambda>(path, version). EvDelete t path version) ?gone"
    using assms(1) by (auto simp: mem_delete_prefix_def open_conn_def Let_def commit_def tick_def split: option.splits)
  moreover have "starts_with_prefix q p" if "(q, w) \<in> set ?gone" for q w
    using that by (auto simp: map_filter_def affected_row_def split: sum.splits if_splits)
  moreover have "\<not> starts_with_prefix (p @ c # r) p"
    using assms(2-4) by (auto simp: starts_with_prefix_def starts_with_def ends_with_def suffix_def)
  ultimately show "EvDelete t (p @ c # r) v \<notin> set (drop (length (ms_events m)) (ms_events m'))" by auto
qed

theorem delete_prefix_takes_siblings_witness:
  "live_row (snd (mem_delete_prefix demo_memory_env
      (memory_step demo_memory_env (OpPut ''t'' ''/mnt/docs2'' ''x'') memory_db_new) ''t'' ''/mnt/docs'')) ''t'' ''/mnt/docs2'' = None \<and>
   live_row (memory_step demo_memory_env (OpPut ''t'' ''/mnt/docs2'' ''x'') memory_db_new) ''t'' ''/mnt/docs2'' \<noteq> None"
proof -
  let ?m = "memory_step demo_memory_env (OpPut ''t'' ''/mnt/docs2'' ''x'') memory_db_new"
  have live: "live_row ?m ''t'' ''/mnt/docs2'' \<noteq> None"
    by (simp add: demo_memory_env_def memory_db_new_def mem_put_def open_conn_def Let_def commit_def tick_def
        bt_get_def live_row_def row_at_def)
  obtain n m' where d: "mem_delete_prefix demo_memory_env ?m ''t'' ''/mnt/docs'' = (Ok n, m')"
    by (simp add: mem_delete_prefix_def open_conn_def demo_memory_env_def Let_def)
  from delete_prefix_takes_siblings[OF d, of "CHR ''2''" "[]"] show ?thesis using d live by simp
qed

end
