(* ===== verification/Std_Text.thy ===== *)
theory Std_Text
  imports Sim_Prelude
begin

text \<open>
  What the shell uses of the standard library's text functions, on UTF-8 byte strings:
  \<open>String::from_utf8\<close> with the text of its error, \<open>String::from_utf8_lossy\<close>, \<open>str::lines\<close>,
  \<open>str::split_whitespace\<close>, \<open>str::trim\<close>, \<open>str::split_once\<close> and \<open>usize::from_str\<close>.
\<close>

section \<open>UTF-8\<close>

definition byte_at :: "string \<Rightarrow> nat \<Rightarrow> nat option" where
  "byte_at s k = (if k < length s then Some (of_char (s ! k)) else None)"

definition is_cont :: "nat \<Rightarrow> bool" where
  "is_cont c \<longleftrightarrow> 0x80 \<le> c \<and> c \<le> 0xBF"

text \<open>The continuation bytes still to check, from index \<open>k\<close> to the end \<open>w\<close> of the sequence.\<close>

fun utf8_tail :: "string \<Rightarrow> nat \<Rightarrow> nat \<Rightarrow> nat option + nat" where
  "utf8_tail s k 0 = Ok k"
| "utf8_tail s k (Suc n) =
     (case byte_at s k of
        None \<Rightarrow> Err None
      | Some c \<Rightarrow> if is_cont c then utf8_tail s (Suc k) n else Err (Some k))"

definition second_ok :: "nat \<Rightarrow> nat \<Rightarrow> bool" where
  "second_ok b c \<longleftrightarrow>
     (if b = 0xE0 then 0xA0 \<le> c \<and> c \<le> 0xBF
      else if b = 0xED then 0x80 \<le> c \<and> c \<le> 0x9F
      else if b = 0xF0 then 0x90 \<le> c \<and> c \<le> 0xBF
      else if b = 0xF4 then 0x80 \<le> c \<and> c \<le> 0x8F
      else is_cont c)"

definition utf8_width :: "nat \<Rightarrow> nat" where
  "utf8_width b =
     (if b < 0x80 then 1 else if 0xC2 \<le> b \<and> b \<le> 0xDF then 2 else if 0xE0 \<le> b \<and> b \<le> 0xEF then 3
      else if 0xF0 \<le> b \<and> b \<le> 0xF4 then 4 else 0)"

text \<open>The first scalar: its width, or the length of the faulty sequence (nothing when it is cut off).\<close>

definition utf8_first :: "string \<Rightarrow> nat option + nat" where
  "utf8_first s =
     (let b = of_char (hd s); w = utf8_width b
      in if w = 0 then Err (Some 1)
         else if w = 1 then Ok 1
         else case byte_at s 1 of
           None \<Rightarrow> Err None
         | Some c \<Rightarrow> if second_ok b c then utf8_tail s 2 (w - 2) else Err (Some 1))"

lemma utf8_tail_pos: "0 < k \<Longrightarrow> utf8_tail s k n = Ok w \<Longrightarrow> 0 < w"
  by (induction s k n rule: utf8_tail.induct) (auto split: option.splits if_splits)

lemma utf8_tail_err_pos: "0 < k \<Longrightarrow> utf8_tail s k n = Err (Some e) \<Longrightarrow> 0 < e"
  by (induction s k n rule: utf8_tail.induct) (auto split: option.splits if_splits)

lemma utf8_first_pos: "utf8_first s = Ok w \<Longrightarrow> 0 < w"
  by (auto simp: utf8_first_def Let_def utf8_width_def split: option.splits if_splits dest: utf8_tail_pos[rotated])

lemma utf8_first_err_pos: "utf8_first s = Err (Some e) \<Longrightarrow> 0 < e"
  by (auto simp: utf8_first_def Let_def split: option.splits if_splits dest: utf8_tail_err_pos[rotated])

function utf8_error :: "nat \<Rightarrow> string \<Rightarrow> (nat \<times> nat option) option" where
  "utf8_error i s =
     (if s = [] then None
      else case utf8_first s of
        Inl e \<Rightarrow> Some (i, e)
      | Inr w \<Rightarrow> utf8_error (i + w) (drop w s))"
  by pat_completeness auto
termination
  by (relation "measure (\<lambda>(i, s). length s)") (auto dest: utf8_first_pos)

declare utf8_error.simps [simp del]

definition utf8_valid :: "string \<Rightarrow> bool" where
  "utf8_valid s \<longleftrightarrow> utf8_error 0 s = None"

definition show_utf8_error :: "nat \<times> nat option \<Rightarrow> string" where
  "show_utf8_error e =
     (case e of
        (i, Some n) \<Rightarrow> ''invalid utf-8 sequence of '' @ show_nat n @ '' bytes from index '' @ show_nat i
      | (i, None) \<Rightarrow> ''incomplete utf-8 byte sequence from index '' @ show_nat i)"

definition from_utf8 :: "bytes \<Rightarrow> string + string" where
  "from_utf8 s = (case utf8_error 0 s of None \<Rightarrow> Ok s | Some e \<Rightarrow> Err (show_utf8_error e))"

definition replacement_char :: string where
  "replacement_char = [CHR 0xEF, CHR 0xBF, CHR 0xBD]"

function from_utf8_lossy :: "bytes \<Rightarrow> string" where
  "from_utf8_lossy s =
     (if s = [] then []
      else case utf8_first s of
        Inr w \<Rightarrow> take w s @ from_utf8_lossy (drop w s)
      | Inl (Some n) \<Rightarrow> replacement_char @ from_utf8_lossy (drop n s)
      | Inl None \<Rightarrow> replacement_char)"
  by pat_completeness auto
termination
  by (relation "measure length") (auto dest: utf8_first_pos utf8_first_err_pos)

declare from_utf8_lossy.simps [simp del]

lemma utf8_error_Nil [simp]: "utf8_error i [] = None"
  by (simp add: utf8_error.simps)

lemma utf8_error_bad: "s \<noteq> [] \<Longrightarrow> utf8_first s = Err e \<Longrightarrow> utf8_error i s = Some (i, e)"
  by (subst utf8_error.simps) simp

lemma utf8_error_good: "s \<noteq> [] \<Longrightarrow> utf8_first s = Ok w \<Longrightarrow> utf8_error i s = utf8_error (i + w) (drop w s)"
  by (subst utf8_error.simps) simp

lemma utf8_error_shift: "utf8_error i s = None \<longleftrightarrow> utf8_error j s = None"
proof (induction i s arbitrary: j rule: utf8_error.induct)
  case (1 i s)
  show ?case
  proof (cases "s = []")
    case False
    show ?thesis
    proof (cases "utf8_first s")
      case (Inl e)
      then show ?thesis using False by (simp add: utf8_error_bad)
    next
      case (Inr w)
      then show ?thesis using 1[OF False Inr, of "j + w"] False by (simp add: utf8_error_good)
    qed
  qed simp
qed

lemma lossy_valid: "utf8_valid s \<Longrightarrow> from_utf8_lossy s = s"
proof (induction s rule: from_utf8_lossy.induct)
  case (1 s)
  show ?case
  proof (cases "s = []")
    case False
    then obtain w where w: "utf8_first s = Inr w" and v: "utf8_error w (drop w s) = None"
      using 1(3) by (cases "utf8_first s") (auto simp: utf8_valid_def utf8_error_bad utf8_error_good)
    then have "utf8_valid (drop w s)" using utf8_error_shift[of w "drop w s" 0] by (simp add: utf8_valid_def)
    then show ?thesis using 1(2)[OF False w] w False by (subst from_utf8_lossy.simps) simp
  qed (simp add: from_utf8_lossy.simps)
qed

section \<open>Lines, words and numbers\<close>

definition strip_cr :: "string \<Rightarrow> string" where
  "strip_cr l = unwrap_or (strip_suffix l [CHR 0x0D]) l"

fun lines_of :: "string \<Rightarrow> string \<Rightarrow> string list" where
  "lines_of cur [] = (if cur = [] then [] else [cur])"
| "lines_of cur (c # cs) = (if c = CHR 0x0A then strip_cr cur # lines_of [] cs else lines_of (cur @ [c]) cs)"

definition lines :: "string \<Rightarrow> string list" where
  "lines s = lines_of [] s"

definition split_once :: "char \<Rightarrow> string \<Rightarrow> (string \<times> string) option" where
  "split_once c s =
     (if c \<in> set s then Some (takeWhile (\<lambda>x. x \<noteq> c) s, drop 1 (dropWhile (\<lambda>x. x \<noteq> c) s)) else None)"

definition digit_value :: "char \<Rightarrow> nat option" where
  "digit_value c = (if CHR ''0'' \<le> c \<and> c \<le> CHR ''9'' then Some (of_char c - 48) else None)"

fun parse_digits :: "nat \<Rightarrow> string \<Rightarrow> nat option" where
  "parse_digits acc [] = Some acc"
| "parse_digits acc (c # cs) =
     (case digit_value c of
        None \<Rightarrow> None
      | Some d \<Rightarrow> (let n = acc * 10 + d in if n < 2 ^ 64 then parse_digits n cs else None))"

definition parse_usize :: "string \<Rightarrow> nat option" where
  "parse_usize s =
     (let t = (case s of c # cs \<Rightarrow> if c = CHR ''+'' then cs else s | [] \<Rightarrow> s)
      in if t = [] then None else parse_digits 0 t)"

definition join_str :: "string \<Rightarrow> string list \<Rightarrow> string" where
  "join_str sep xs = concat (case xs of [] \<Rightarrow> [] | y # ys \<Rightarrow> y # map (\<lambda>z. sep @ z) ys)"

section \<open>White space\<close>

text \<open>The UTF-8 encodings of the Unicode white space that \<open>str::trim\<close> strips.\<close>

definition whitespace_seqs :: "string list" where
  "whitespace_seqs =
     map (\<lambda>c. [c]) [CHR 0x09, CHR 0x0A, CHR 0x0B, CHR 0x0C, CHR 0x0D, CHR 0x20] @
     [[CHR 0xC2, CHR 0x85], [CHR 0xC2, CHR 0xA0], [CHR 0xE1, CHR 0x9A, CHR 0x80]] @
     map (\<lambda>c. [CHR 0xE2, CHR 0x80, c])
       [CHR 0x80, CHR 0x81, CHR 0x82, CHR 0x83, CHR 0x84, CHR 0x85, CHR 0x86, CHR 0x87, CHR 0x88,
        CHR 0x89, CHR 0x8A, CHR 0xA8, CHR 0xA9, CHR 0xAF] @
     [[CHR 0xE2, CHR 0x81, CHR 0x9F], [CHR 0xE3, CHR 0x80, CHR 0x80]]"

lemma whitespace_seqs_not_Nil: "w \<in> set whitespace_seqs \<Longrightarrow> w \<noteq> []"
  by (auto simp: whitespace_seqs_def)

definition strip_some :: "string list \<Rightarrow> string \<Rightarrow> string option" where
  "strip_some ws s = (case find (\<lambda>w. prefix w s) ws of None \<Rightarrow> None | Some w \<Rightarrow> Some (drop (length w) s))"

lemma strip_some_shorter:
  assumes "strip_some ws s = Some r" "[] \<notin> set ws"
  shows "length r < length s"
proof -
  obtain w where w: "find (\<lambda>w. prefix w s) ws = Some w" "r = drop (length w) s"
    using assms(1) by (auto simp: strip_some_def split: option.splits)
  then have "w \<in> set ws" "prefix w s" by (auto simp: find_Some_iff)
  then have "w \<noteq> []" "length w \<le> length s" using assms(2) by (auto dest: prefix_length_le)
  then show ?thesis using w(2) by (cases w) auto
qed

function trim_front :: "string list \<Rightarrow> string \<Rightarrow> string" where
  "trim_front ws s =
     (if [] \<in> set ws then s else case strip_some ws s of None \<Rightarrow> s | Some r \<Rightarrow> trim_front ws r)"
  by pat_completeness auto
termination
  by (relation "measure (\<lambda>(ws, s). length s)") (auto dest: strip_some_shorter)

declare trim_front.simps [simp del]

definition trim :: "string \<Rightarrow> string" where
  "trim s = rev (trim_front (map rev whitespace_seqs) (rev (trim_front whitespace_seqs s)))"

lemma trim_front_set: "set (trim_front ws s) \<subseteq> set s"
proof (induction ws s rule: trim_front.induct)
  case (1 ws s)
  have "set r \<subseteq> set s" if "strip_some ws s = Some r" for r
    using that by (auto simp: strip_some_def split: option.splits dest: in_set_dropD)
  then show ?case using 1 unfolding trim_front.simps[of ws s]
    by (cases "strip_some ws s"; cases "[] \<in> set ws") (force+)
qed

lemma trim_set: "set (trim s) \<subseteq> set s"
proof -
  have "set (trim_front (map rev whitespace_seqs) (rev (trim_front whitespace_seqs s))) \<subseteq> set s"
    using trim_front_set[of "map rev whitespace_seqs" "rev (trim_front whitespace_seqs s)"]
      trim_front_set[of whitespace_seqs s] by auto
  then show ?thesis unfolding trim_def set_rev .
qed

lemma trim_front_keep:
  assumes "\<forall>w \<in> set ws. \<not> prefix w s"
  shows "trim_front ws s = s"
proof -
  have "find (\<lambda>w. prefix w s) ws = None" using assms by (simp add: find_None_iff)
  then show ?thesis by (subst trim_front.simps) (simp add: strip_some_def)
qed

text \<open>Words separated by white space.\<close>

fun skip_word :: "string \<Rightarrow> string" where
  "skip_word [] = []"
| "skip_word (c # cs) = (if list_ex (\<lambda>w. prefix w (c # cs)) whitespace_seqs then c # cs else skip_word cs)"

lemma skip_word_length: "length (skip_word s) \<le> length s"
  by (induction s) auto

lemma trim_front_length: "length (trim_front ws s) \<le> length s"
proof (induction ws s rule: trim_front.induct)
  case (1 ws s)
  show ?case
  proof (cases "[] \<in> set ws \<or> strip_some ws s = None")
    case False
    then obtain r where r: "[] \<notin> set ws" "strip_some ws s = Some r" by auto
    then show ?thesis using 1[OF r] strip_some_shorter[OF r(2,1)] by (subst trim_front.simps) simp
  qed (subst trim_front.simps, auto)
qed

function count_words :: "string \<Rightarrow> nat" where
  "count_words s =
     (case trim_front whitespace_seqs s of
        [] \<Rightarrow> 0
      | c # cs \<Rightarrow> Suc (count_words (skip_word cs)))"
  by pat_completeness auto
termination
proof (relation "measure length")
  fix s c cs assume "trim_front whitespace_seqs s = c # cs"
  then show "(skip_word cs, s) \<in> measure length"
    using trim_front_length[of whitespace_seqs s] skip_word_length[of cs] by simp
qed simp

end
