(* ===== verification/Recent_Writes.thy ===== *)
theory Recent_Writes
  imports Memory_Path Std_Text
begin

text \<open>
  The per-run buffer of recent memory writes (\<^verbatim>\<open>simulacra-memory/src/rrwb.rs\<close>), which lets a search see
  the writes of the same run.  Lower-casing (the Unicode tables) and the \<open>f32\<close> score of a match count are
  parameters.
\<close>

section \<open>The buffer\<close>

definition RRWB_MAX_ENTRIES :: nat where
  "RRWB_MAX_ENTRIES = 64"

definition RRWB_MAX_BYTES_PER_ENTRY :: nat where
  "RRWB_MAX_BYTES_PER_ENTRY = 64 * 1024"

definition RRWB_MAX_TOTAL_BYTES :: nat where
  "RRWB_MAX_TOTAL_BYTES = 1024 * 1024"

record buffered_write =
  bw_path :: string
  bw_version :: nat
  bw_text :: string

record recent_writes =
  rw_entries :: "buffered_write list"
  rw_total :: nat

definition rrwb_new :: recent_writes where
  "rrwb_new = \<lparr>rw_entries = [], rw_total = 0\<rparr>"

definition drop_path :: "string \<Rightarrow> recent_writes \<Rightarrow> recent_writes" where
  "drop_path path b =
     (case find (\<lambda>e. bw_path e = path) (rw_entries b) of
        None \<Rightarrow> b
      | Some old \<Rightarrow> \<lparr>rw_entries = remove1 old (rw_entries b), rw_total = rw_total b - length (bw_text old)\<rparr>)"

fun evict :: "nat \<Rightarrow> buffered_write list \<Rightarrow> nat \<Rightarrow> recent_writes" where
  "evict entry_bytes [] tot = \<lparr>rw_entries = [], rw_total = tot\<rparr>"
| "evict entry_bytes (e # es) tot =
     (if length (e # es) \<ge> RRWB_MAX_ENTRIES \<or> tot + entry_bytes > RRWB_MAX_TOTAL_BYTES
      then evict entry_bytes es (tot - length (bw_text e))
      else \<lparr>rw_entries = e # es, rw_total = tot\<rparr>)"

definition rrwb_record :: "string \<Rightarrow> nat \<Rightarrow> bytes \<Rightarrow> recent_writes \<Rightarrow> recent_writes" where
  "rrwb_record path version data b =
     (if length data > RRWB_MAX_BYTES_PER_ENTRY then b
      else if \<not> utf8_valid data then b
      else if length data > RRWB_MAX_TOTAL_BYTES then b
      else
        (let b1 = drop_path path b;
             b2 = evict (length data) (rw_entries b1) (rw_total b1)
         in \<lparr>rw_entries = rw_entries b2 @ [\<lparr>bw_path = path, bw_version = version, bw_text = data\<rparr>],
             rw_total = rw_total b2 + length data\<rparr>))"

section \<open>Searching\<close>

fun find_str :: "string \<Rightarrow> string \<Rightarrow> nat option" where
  "find_str pat [] = (if pat = [] then Some 0 else None)"
| "find_str pat (c # cs) = (if starts_with (c # cs) pat then Some 0 else map_option Suc (find_str pat cs))"

function count_matches :: "string \<Rightarrow> string \<Rightarrow> nat" where
  "count_matches pat s =
     (if s = [] \<or> pat = [] then 0
      else if starts_with s pat then Suc (count_matches pat (drop (length pat) s))
      else count_matches pat (tl s))"
  by pat_completeness auto
termination
  by (relation "measure (\<lambda>(pat, s). length s)") (auto simp: length_greater_0_conv)

declare count_matches.simps [simp del]

definition is_char_boundary :: "string \<Rightarrow> nat \<Rightarrow> bool" where
  "is_char_boundary s i \<longleftrightarrow> i = 0 \<or> i = length s \<or> (i < length s \<and> \<not> is_cont (of_char (s ! i)))"

fun floor_boundary :: "string \<Rightarrow> nat \<Rightarrow> nat" where
  "floor_boundary s 0 = 0"
| "floor_boundary s (Suc i) = (if is_char_boundary s (Suc i) then Suc i else floor_boundary s i)"

fun take_chars :: "nat \<Rightarrow> string \<Rightarrow> string" where
  "take_chars 0 s = []"
| "take_chars (Suc n) s =
     (case s of [] \<Rightarrow> []
      | c # cs \<Rightarrow> c # takeWhile (\<lambda>x. is_cont (of_char x)) cs @ take_chars n (dropWhile (\<lambda>x. is_cont (of_char x)) cs))"

definition RRWB_SNIPPET_CHARS :: nat where
  "RRWB_SNIPPET_CHARS = 240"

definition build_snippet :: "string \<Rightarrow> string \<Rightarrow> string \<Rightarrow> string" where
  "build_snippet text text_lc query_lc =
     take_chars RRWB_SNIPPET_CHARS
       (if length text = length text_lc
        then (case find_str query_lc text_lc of
                Some offset \<Rightarrow> drop (floor_boundary text (min (offset - RRWB_SNIPPET_CHARS div 4) (length text))) text
              | None \<Rightarrow> text)
        else text)"

datatype locator =
    LocText nat nat
  | LocPdfPage nat nat
  | LocHtmlSelector string nat nat
  | LocJsonlLine nat
  | LocOpaque string string

record 'f search_hit =
  sh_path :: string
  sh_chunk_index :: nat
  sh_version :: nat
  sh_locator :: locator
  sh_snippet :: string
  sh_score :: 'f

definition hit_of ::
  "(string \<Rightarrow> string) \<Rightarrow> (nat \<Rightarrow> 'f) \<Rightarrow> string \<Rightarrow> buffered_write \<Rightarrow> 'f search_hit" where
  "hit_of lower score query_lc e =
     (let text_lc = lower (bw_text e)
      in \<lparr>sh_path = bw_path e, sh_chunk_index = 0, sh_version = bw_version e,
          sh_locator = LocText 0 (length (bw_text e)), sh_snippet = build_snippet (bw_text e) text_lc query_lc,
          sh_score = score (count_matches query_lc text_lc)\<rparr>)"

text \<open>A stable sort by falling score.\<close>

definition by_score :: "('f::linorder) search_hit list \<Rightarrow> 'f search_hit list" where
  "by_score hits = rev (sort_key sh_score (rev hits))"

definition rrwb_search ::
  "(string \<Rightarrow> string) \<Rightarrow> (nat \<Rightarrow> 'f::linorder) \<Rightarrow> string \<Rightarrow> string \<Rightarrow> recent_writes \<Rightarrow> 'f search_hit list" where
  "rrwb_search lower score query scope b =
     (let query_lc = lower query
      in if query_lc = [] then []
         else by_score
           (map (hit_of lower score query_lc)
             (filter (\<lambda>e. starts_with_prefix (bw_path e) scope \<and> find_str query_lc (lower (bw_text e)) \<noteq> None)
               (rw_entries b))))"

section \<open>Bounds\<close>

definition bytes_of :: "buffered_write list \<Rightarrow> nat" where
  "bytes_of es = sum_list (map (length \<circ> bw_text) es)"

definition rrwb_ok :: "recent_writes \<Rightarrow> bool" where
  "rrwb_ok b \<longleftrightarrow> rw_total b = bytes_of (rw_entries b) \<and> length (rw_entries b) \<le> RRWB_MAX_ENTRIES \<and>
     rw_total b \<le> RRWB_MAX_TOTAL_BYTES \<and> distinct (map bw_path (rw_entries b))"

lemma rrwb_ok_new [simp]: "rrwb_ok rrwb_new"
  by (simp add: rrwb_ok_def rrwb_new_def bytes_of_def)

lemma bytes_of_simps [simp]:
  "bytes_of [] = 0" "bytes_of (e # es) = length (bw_text e) + bytes_of es" "bytes_of (xs @ ys) = bytes_of xs + bytes_of ys"
  by (simp_all add: bytes_of_def)

lemma bytes_of_remove1: "e \<in> set es \<Longrightarrow> bytes_of (remove1 e es) = bytes_of es - length (bw_text e) \<and> length (bw_text e) \<le> bytes_of es"
  by (induction es) auto

lemma find_path_remove:
  assumes "distinct (map bw_path es)" "find (\<lambda>e. bw_path e = p) es = Some old"
  shows "remove1 old es = filter (\<lambda>e. bw_path e \<noteq> p) es \<and> old \<in> set es"
  using assms
proof (induction es)
  case (Cons e es)
  show ?case
  proof (cases "bw_path e = p")
    case True
    then have "\<forall>x \<in> set es. bw_path x \<noteq> p" using Cons.prems(1) by (auto simp: image_iff)
    then show ?thesis using Cons.prems(2) True by simp
  next
    case False
    then show ?thesis using Cons.IH Cons.prems by auto
  qed
qed simp

lemma drop_path_ok:
  assumes "rrwb_ok b"
  shows "rw_entries (drop_path p b) = filter (\<lambda>e. bw_path e \<noteq> p) (rw_entries b) \<and> rrwb_ok (drop_path p b)"
proof (cases "find (\<lambda>e. bw_path e = p) (rw_entries b)")
  case None
  then have "filter (\<lambda>e. bw_path e \<noteq> p) (rw_entries b) = rw_entries b"
    by (intro filter_True) (auto simp: find_None_iff)
  then show ?thesis using None assms by (simp add: drop_path_def)
next
  case (Some old)
  have d: "distinct (map bw_path (rw_entries b))" using assms by (simp add: rrwb_ok_def)
  note r = find_path_remove[OF d Some]
  have "bytes_of (filter (\<lambda>e. bw_path e \<noteq> p) (rw_entries b)) = bytes_of (rw_entries b) - length (bw_text old)"
    using bytes_of_remove1[of old "rw_entries b"] r by simp
  moreover have "length (filter (\<lambda>e. bw_path e \<noteq> p) (rw_entries b)) \<le> RRWB_MAX_ENTRIES"
    by (rule le_trans[OF length_filter_le]) (use assms in \<open>simp add: rrwb_ok_def\<close>)
  ultimately show ?thesis using Some r assms by (auto simp: rrwb_ok_def distinct_map_filter drop_path_def)
qed

lemma evict_ok:
  assumes "tot = bytes_of es" "n \<le> RRWB_MAX_TOTAL_BYTES"
  shows "suffix (rw_entries (evict n es tot)) es \<and> rw_total (evict n es tot) = bytes_of (rw_entries (evict n es tot)) \<and>
    length (rw_entries (evict n es tot)) < RRWB_MAX_ENTRIES \<and> rw_total (evict n es tot) + n \<le> RRWB_MAX_TOTAL_BYTES"
  using assms
proof (induction n es tot rule: evict.induct)
  case (2 n e es tot)
  show ?case
  proof (cases "length (e # es) \<ge> RRWB_MAX_ENTRIES \<or> tot + n > RRWB_MAX_TOTAL_BYTES")
    case True
    then show ?thesis using 2 by (simp add: suffix_ConsI)
  next
    case False
    then show ?thesis using 2(2) by simp
  qed
qed (simp add: RRWB_MAX_ENTRIES_def)

lemma evict_subset: "set (rw_entries (evict n es tot)) \<subseteq> set es"
  by (induction n es tot rule: evict.induct) auto

lemma rrwb_record_ok:
  assumes "rrwb_ok b"
  shows "rrwb_ok (rrwb_record p v d b)"
proof (cases "length d > RRWB_MAX_BYTES_PER_ENTRY \<or> \<not> utf8_valid d \<or> length d > RRWB_MAX_TOTAL_BYTES")
  case True
  then show ?thesis using assms by (auto simp: rrwb_record_def)
next
  case False
  let ?b1 = "drop_path p b"
  let ?b2 = "evict (length d) (rw_entries ?b1) (rw_total ?b1)"
  have b1: "rw_entries ?b1 = filter (\<lambda>e. bw_path e \<noteq> p) (rw_entries b)" "rrwb_ok ?b1" using drop_path_ok[OF assms] by auto
  have b2: "suffix (rw_entries ?b2) (rw_entries ?b1)" "rw_total ?b2 = bytes_of (rw_entries ?b2)"
    "length (rw_entries ?b2) < RRWB_MAX_ENTRIES" "rw_total ?b2 + length d \<le> RRWB_MAX_TOTAL_BYTES"
    using evict_ok[of "rw_total ?b1" "rw_entries ?b1" "length d"] b1(2) False by (auto simp: rrwb_ok_def)
  have "distinct (map bw_path (rw_entries ?b2))"
    using b1(2) b2(1) unfolding rrwb_ok_def suffix_def by (metis distinct_append map_append)
  moreover have "p \<notin> bw_path ` set (rw_entries ?b2)"
    using b1(1) set_mono_suffix[OF b2(1)] by auto
  ultimately show ?thesis using b2 False by (auto simp: rrwb_record_def Let_def rrwb_ok_def)
qed

lemma record_entries:
  assumes "rrwb_ok b" "length d \<le> RRWB_MAX_BYTES_PER_ENTRY" "utf8_valid d"
  shows "rw_entries (rrwb_record p v d b) =
    rw_entries (evict (length d) (rw_entries (drop_path p b)) (rw_total (drop_path p b))) @
      [\<lparr>bw_path = p, bw_version = v, bw_text = d\<rparr>]"
  using assms by (simp add: rrwb_record_def Let_def RRWB_MAX_BYTES_PER_ENTRY_def RRWB_MAX_TOTAL_BYTES_def)

lemma set_by_score [simp]: "set (by_score hits) = set hits"
  by (simp add: by_score_def)

lemma search_hits:
  "set (rrwb_search lower score q scope b) =
     (if lower q = [] then {}
      else hit_of lower score (lower q) ` {e \<in> set (rw_entries b). starts_with_prefix (bw_path e) scope \<and>
             find_str (lower q) (lower (bw_text e)) \<noteq> None})"
  by (auto simp: rrwb_search_def Let_def)

lemma by_score_sorted: "sorted_wrt (\<lambda>x y. sh_score x \<ge> sh_score y) (by_score hits)"
proof -
  have "sorted_wrt (\<lambda>x y. sh_score x \<le> sh_score y) (sort_key sh_score (rev hits))"
    using sorted_sort_key[of sh_score "rev hits"] by (simp add: sorted_map)
  then show ?thesis by (simp add: by_score_def sorted_wrt_rev)
qed

text \<open>The buffer after a list of writes.\<close>

definition rrwb_records :: "(string \<times> nat \<times> bytes) list \<Rightarrow> recent_writes \<Rightarrow> recent_writes" where
  "rrwb_records ws b = fold (\<lambda>(p, v, d). rrwb_record p v d) ws b"

lemma records_ok: "rrwb_ok b \<Longrightarrow> rrwb_ok (rrwb_records ws b)"
  unfolding rrwb_records_def by (induction ws arbitrary: b) (auto simp: rrwb_record_ok)

section \<open>Guarantees\<close>



end
