(* ===== verification/Memory_Store_Fs.thy ===== *)
theory Memory_Store_Fs
  imports Vfs_Layers Memory_Store Recent_Writes
begin

text \<open>
  The memory layer of the filesystem (\<^verbatim>\<open>simulacra-vfs/src/memory_store_fs.rs\<close> and its \<^verbatim>\<open>events.rs\<close>): paths
  below the two memory roots go to the durable store of the bound tenant under the scopes of the memory
  capability, everything else to the filesystem below.  The store is any that meets the contract of
  \<^verbatim>\<open>Memory_Store\<close>; the task that pumps store events to watchers is modelled by its translation of one
  event.
\<close>

section \<open>The layer\<close>

record memory_layer =
  ml_tenant :: string
  ml_capability :: memory_capability

record ('s, 'm) memory_fs_state =
  mf_inner :: 's
  mf_store :: 'm
  mf_rrwb :: "recent_writes option"

definition is_memory_path :: "string \<Rightarrow> bool" where
  "is_memory_path path = is_memory_path_str path"

definition takes_memory :: "touch \<Rightarrow> bool" where
  "takes_memory t \<longleftrightarrow> takes_subtree t \<and> list_ex (is_ancestor (t_path t)) [''/var/memory'', ''/mnt'']"

definition memory_gate :: "touch list \<Rightarrow> vfs_error + unit" where
  "memory_gate touches =
     (case find (\<lambda>t. is_memory_path (t_path t) \<or> takes_memory t) touches of
        Some t \<Rightarrow> Err (Unsupported (''atomic operation on memory path '' @ t_path t))
      | None \<Rightarrow> Ok ())"

definition memory_route :: "string \<Rightarrow> string" where
  "memory_route path = (if is_memory_path path then path else normalize_vfs path)"

definition parse_memory_path :: "string \<Rightarrow> vfs_error + string" where
  "parse_memory_path raw =
     (case memory_path_parse raw of
        Inl e \<Rightarrow> Err (PermissionDenied (''invalid memory path '' @ [CHR 0x27] @ raw @ [CHR 0x27] @ '': '' @ show_memory_path_error e))
      | Inr p \<Rightarrow> Ok p)"

fun read_error :: "memory_error \<Rightarrow> vfs_error" where
  "read_error (MemNotFound p) = NotFound p"
| "read_error e = Io (show_memory_error e)"

definition mf_read ::
  "('s, 'j) virtual_fs \<Rightarrow> 'm memory_store \<Rightarrow> memory_layer \<Rightarrow> ('s, 'm) memory_fs_state \<Rightarrow> string \<Rightarrow> vfs_error + bytes" where
  "mf_read I S L s path0 =
     (let path = memory_route path0
      in if \<not> is_memory_path path then vfs_read I (mf_inner s) path
         else case parse_memory_path path of
                Inl e \<Rightarrow> Err e
              | Inr mem_path \<Rightarrow>
                  if \<not> can_read (ml_capability L) mem_path
                  then Err (PermissionDenied (''read outside memory search_scopes: '' @ path))
                  else (case st_get S (mf_store s) (ml_tenant L) mem_path of
                          Inl e \<Rightarrow> Err (read_error e)
                        | Inr (data, _) \<Rightarrow> Ok data))"

definition on_mf_inner :: "('s \<Rightarrow> 's outcome) \<Rightarrow> ('s, 'm) memory_fs_state \<Rightarrow> ('s, 'm) memory_fs_state outcome" where
  "on_mf_inner f s = (case f (mf_inner s) of (r, i) \<Rightarrow> (r, s\<lparr>mf_inner := i\<rparr>))"

text \<open>The checks a mutation of a memory path passes: its syntax, the admin-only root, the write scopes.\<close>

definition writable_memory :: "memory_layer \<Rightarrow> string \<Rightarrow> string \<Rightarrow> vfs_error + string" where
  "writable_memory L what path =
     (case parse_memory_path path of
        Inl e \<Rightarrow> Err e
      | Inr mem_path \<Rightarrow>
          if is_mnt mem_path then Err (PermissionDenied (''/mnt is admin-ingested only: '' @ path))
          else if \<not> can_write (ml_capability L) mem_path
          then Err (PermissionDenied (what @ '' outside memory write_scopes: '' @ path))
          else Ok mem_path)"

definition mf_write ::
  "('s, 'j) virtual_fs \<Rightarrow> 'm memory_store \<Rightarrow> memory_layer \<Rightarrow> ('s, 'm) memory_fs_state \<Rightarrow> string \<Rightarrow> bytes \<Rightarrow>
   ('s, 'm) memory_fs_state outcome" where
  "mf_write I S L s path0 data =
     (let path = memory_route path0
      in if \<not> is_memory_path path then on_mf_inner (\<lambda>i. vfs_write I i path data) s
         else case writable_memory L ''write'' path of
                Inl e \<Rightarrow> (Err e, s)
              | Inr mem_path \<Rightarrow>
                  (case st_put S (mf_store s) (ml_tenant L) mem_path data of
                     (Inl e, m) \<Rightarrow> (Err (Io (show_memory_error e)), s\<lparr>mf_store := m\<rparr>)
                   | (Inr version, m) \<Rightarrow>
                       (Ok (), s\<lparr>mf_store := m, mf_rrwb := map_option (rrwb_record mem_path version data) (mf_rrwb s)\<rparr>)))"

definition mf_exists ::
  "('s, 'j) virtual_fs \<Rightarrow> 'm memory_store \<Rightarrow> memory_layer \<Rightarrow> ('s, 'm) memory_fs_state \<Rightarrow> string \<Rightarrow> bool" where
  "mf_exists I S L s path0 =
     (let path = memory_route path0
      in if \<not> is_memory_path path then vfs_exists I (mf_inner s) path
         else case parse_memory_path path of
                Inl _ \<Rightarrow> False
              | Inr mem_path \<Rightarrow>
                  can_read (ml_capability L) mem_path \<and>
                  (case st_exists S (mf_store s) (ml_tenant L) mem_path of Inl _ \<Rightarrow> False | Inr b \<Rightarrow> b))"

text \<open>The immediate children of a prefix, as an ordered set.\<close>

definition child_below :: "string \<Rightarrow> memory_entry \<Rightarrow> string option" where
  "child_below prefix_with_slash entry =
     (case strip_prefix (en_path entry) prefix_with_slash of
        None \<Rightarrow> None
      | Some rest \<Rightarrow> (let first = hd (split_on slash rest) in if first = [] then None else Some first))"

definition immediate_children :: "string \<Rightarrow> memory_entry list \<Rightarrow> string list" where
  "immediate_children pre entries =
     (let prefix_with_slash = (if ends_with pre ''/'' then pre else pre @ ''/'')
      in sort (remdups (List.map_filter (child_below prefix_with_slash) entries)))"

definition mf_list_dir ::
  "('s, 'j) virtual_fs \<Rightarrow> 'm memory_store \<Rightarrow> memory_layer \<Rightarrow> ('s, 'm) memory_fs_state \<Rightarrow> string \<Rightarrow>
   vfs_error + string list" where
  "mf_list_dir I S L s path0 =
     (let path = memory_route path0
      in if \<not> is_memory_path path then vfs_list_dir I (mf_inner s) path
         else case parse_memory_path path of
                Inl e \<Rightarrow> Err e
              | Inr mem_path \<Rightarrow>
                  if \<not> can_read (ml_capability L) mem_path
                  then Err (PermissionDenied (''list outside memory search_scopes: '' @ path))
                  else (case st_list_prefix S (mf_store s) (ml_tenant L) mem_path of
                          Inl e \<Rightarrow> Err (Io (show_memory_error e))
                        | Inr entries \<Rightarrow> Ok (immediate_children mem_path entries)))"

definition mf_mkdir ::
  "('s, 'j) virtual_fs \<Rightarrow> 'm memory_store \<Rightarrow> memory_layer \<Rightarrow> ('s, 'm) memory_fs_state \<Rightarrow> string \<Rightarrow>
   ('s, 'm) memory_fs_state outcome" where
  "mf_mkdir I S L s path0 =
     (let path = memory_route path0
      in if \<not> is_memory_path path then on_mf_inner (\<lambda>i. vfs_mkdir I i path) s
         else (map_sum id (\<lambda>_. ()) (writable_memory L ''mkdir'' path), s))"

definition mf_remove ::
  "('s, 'j) virtual_fs \<Rightarrow> 'm memory_store \<Rightarrow> memory_layer \<Rightarrow> ('s, 'm) memory_fs_state \<Rightarrow> string \<Rightarrow>
   ('s, 'm) memory_fs_state outcome" where
  "mf_remove I S L s path0 =
     (let path = memory_route path0
      in if \<not> is_memory_path path then on_mf_inner (\<lambda>i. vfs_remove I i path) s
         else case writable_memory L ''remove'' path of
                Inl e \<Rightarrow> (Err e, s)
              | Inr mem_path \<Rightarrow>
                  (case st_delete S (mf_store s) (ml_tenant L) mem_path of
                     (Inl e, m) \<Rightarrow> (Err (read_error e), s\<lparr>mf_store := m\<rparr>)
                   | (Inr _, m) \<Rightarrow> (Ok (), s\<lparr>mf_store := m\<rparr>)))"

definition mf_metadata ::
  "('s, 'j) virtual_fs \<Rightarrow> 'm memory_store \<Rightarrow> memory_layer \<Rightarrow> ('s, 'm) memory_fs_state \<Rightarrow> string \<Rightarrow>
   vfs_error + fs_metadata" where
  "mf_metadata I S L s path0 =
     (let path = memory_route path0
      in if \<not> is_memory_path path then vfs_metadata I (mf_inner s) path
         else case parse_memory_path path of
                Inl e \<Rightarrow> Err e
              | Inr mem_path \<Rightarrow>
                  if \<not> can_read (ml_capability L) mem_path
                  then Err (PermissionDenied (''metadata outside memory search_scopes: '' @ path))
                  else (case st_get S (mf_store s) (ml_tenant L) mem_path of
                          Inr (data, _) \<Rightarrow> Ok (metadata_file (of_nat (length data)))
                        | Inl (MemNotFound _) \<Rightarrow>
                            (case st_list_prefix S (mf_store s) (ml_tenant L) mem_path of
                               Inl e \<Rightarrow> Err (Io (show_memory_error e))
                             | Inr children \<Rightarrow> if children = [] then Err (NotFound path) else Ok metadata_dir)
                        | Inl e \<Rightarrow> Err (Io (show_memory_error e))))"

definition mf_list_dir_bounded ::
  "('s, 'j) virtual_fs \<Rightarrow> 'm memory_store \<Rightarrow> memory_layer \<Rightarrow> ('s, 'm) memory_fs_state \<Rightarrow> string \<Rightarrow>
   vfs_error + dir_listing" where
  "mf_list_dir_bounded I S L s path0 =
     (let path = memory_route path0
      in if is_memory_path path
         then (case mf_list_dir I S L s path of Inl e \<Rightarrow> Err e | Inr es \<Rightarrow> Ok (listing_complete es))
         else vfs_list_dir_bounded I (mf_inner s) path)"

definition memory_store_fs ::
  "('s, 'j) virtual_fs \<Rightarrow> 'm memory_store \<Rightarrow> memory_layer \<Rightarrow> (('s, 'm) memory_fs_state, 'j) virtual_fs" where
  "memory_store_fs I S L =
     \<lparr>vfs_read = mf_read I S L, vfs_write = mf_write I S L, vfs_exists = mf_exists I S L,
      vfs_list_dir = mf_list_dir I S L, vfs_mkdir = mf_mkdir I S L, vfs_remove = mf_remove I S L,
      vfs_metadata = mf_metadata I S L, vfs_snapshot = (\<lambda>s. vfs_snapshot I (mf_inner s)),
      vfs_restore = (\<lambda>s j. on_mf_inner (\<lambda>i. vfs_restore I i j) s),
      vfs_write_if = (\<lambda>s path data c. on_mf_inner (\<lambda>i. gated_write_if memory_gate I i path data c) s),
      vfs_rename = (\<lambda>s from to. on_mf_inner (\<lambda>i. gated_rename memory_gate I i from to) s),
      vfs_apply_batch = (\<lambda>s ms. on_mf_inner (\<lambda>i. gated_apply_batch memory_gate I i ms) s),
      vfs_list_dir_bounded = mf_list_dir_bounded I S L\<rparr>"

text \<open>One store event as the watchers of a layer see it.\<close>

datatype vfs_event = Written string string nat | Removed string string

fun forward_memory_event :: "string \<Rightarrow> memory_event \<Rightarrow> vfs_event option" where
  "forward_memory_event bound (EvPut tenant path _ _ len) = (if tenant \<noteq> bound then None else Some (Written tenant path len))"
| "forward_memory_event bound (EvDelete tenant path _) = (if tenant \<noteq> bound then None else Some (Removed tenant path))"

section \<open>What a call may change\<close>

definition memory_writable :: "memory_layer \<Rightarrow> string \<Rightarrow> string \<Rightarrow> bool" where
  "memory_writable L tenant path \<longleftrightarrow> tenant = ml_tenant L \<and> \<not> is_mnt path \<and> can_write (ml_capability L) path"

definition below_memory :: "string \<Rightarrow> bool" where
  "below_memory path \<longleftrightarrow> \<not> is_memory_path_str (normalize_vfs path)"

lemma route_below: "\<not> is_memory_path (memory_route p) \<Longrightarrow> below_memory (normalize_vfs p)"
  by (auto simp: memory_route_def is_memory_path_def below_memory_def split: if_splits)

lemma normalize_route [simp]: "normalize_vfs (memory_route p) = normalize_vfs p"
  by (simp add: memory_route_def)

lemma memory_gate_keeps: "gate_keeps memory_gate below_memory"
  by (auto simp: gate_keeps_def memory_gate_def find_None_iff is_memory_path_def below_memory_def is_normal_def
      split: option.splits)

lemma writable_memory_ok:
  "writable_memory L what path = Ok p \<Longrightarrow> memory_path_parse p = Ok p \<and> memory_writable L (ml_tenant L) p"
  using memory_path_parse_fixed[of path p]
  by (auto simp: writable_memory_def parse_memory_path_def memory_writable_def split: sum.splits if_splits)

lemma inner_on: "mf_inner (snd (on_mf_inner f s)) = snd (f (mf_inner s))"
  "mf_store (snd (on_mf_inner f s)) = mf_store s" "mf_rrwb (snd (on_mf_inner f s)) = mf_rrwb s"
  by (simp_all add: on_mf_inner_def split: prod.split)

lemma layer_sel [simp]:
  "vfs_read (memory_store_fs I S L) = mf_read I S L" "vfs_write (memory_store_fs I S L) = mf_write I S L"
  "vfs_exists (memory_store_fs I S L) = mf_exists I S L" "vfs_list_dir (memory_store_fs I S L) = mf_list_dir I S L"
  "vfs_mkdir (memory_store_fs I S L) = mf_mkdir I S L" "vfs_remove (memory_store_fs I S L) = mf_remove I S L"
  "vfs_metadata (memory_store_fs I S L) = mf_metadata I S L"
  "vfs_list_dir_bounded (memory_store_fs I S L) = mf_list_dir_bounded I S L"
  "vfs_write_if (memory_store_fs I S L) = (\<lambda>s path data c. on_mf_inner (\<lambda>i. gated_write_if memory_gate I i path data c) s)"
  "vfs_rename (memory_store_fs I S L) = (\<lambda>s from to. on_mf_inner (\<lambda>i. gated_rename memory_gate I i from to) s)"
  "vfs_apply_batch (memory_store_fs I S L) = (\<lambda>s ms. on_mf_inner (\<lambda>i. gated_apply_batch memory_gate I i ms) s)"
  by (simp_all add: memory_store_fs_def)

text \<open>The filesystem below a memory layer only ever hears of other paths.\<close>

lemma memory_layer_below:
  assumes "reaches R c"
  shows "calls_only I (reaches (\<lambda>p. below_memory p \<and> R p)) (mf_inner s) (mf_inner (snd (vfs_call (memory_store_fs I S L) s c)))"
proof (cases c)
  case (CWrite p d)
  then show ?thesis using assms route_below[of p]
      calls_only_one[of "reaches (\<lambda>p. below_memory p \<and> R p)" "CWrite (memory_route p) d" I]
    by (auto simp: mf_write_def Let_def inner_on reaches_def split: sum.split prod.split)
next
  case (CMkdir p)
  then show ?thesis using assms route_below[of p]
      calls_only_one[of "reaches (\<lambda>p. below_memory p \<and> R p)" "CMkdir (memory_route p)" I]
    by (auto simp: mf_mkdir_def Let_def inner_on reaches_def)
next
  case (CRemove p)
  then show ?thesis using assms route_below[of p]
      calls_only_one[of "reaches (\<lambda>p. below_memory p \<and> R p)" "CRemove (memory_route p)" I]
    by (auto simp: mf_remove_def Let_def inner_on reaches_def split: sum.split prod.split)
qed (use assms in \<open>simp_all add: inner_on gated_calls[OF memory_gate_keeps]\<close>)

section \<open>The store behind the layer\<close>

context memory_contract
begin

text \<open>One call changes at most a row the capability lets the tenant write.\<close>

lemma layer_step:
  assumes "inv (mf_store s)"
  shows "inv (mf_store (snd (vfs_call (memory_store_fs I S L) s c))) \<and>
    (\<forall>t q. \<not> memory_writable L t q \<longrightarrow> row (mf_store (snd (vfs_call (memory_store_fs I S L) s c))) t q = row (mf_store s) t q)"
proof (cases c)
  case (CWrite p d)
  show ?thesis
  proof (cases "is_memory_path (memory_route p)")
    case True
    show ?thesis
    proof (cases "writable_memory L ''write'' (memory_route p)")
      case (Inr mp)
      note ok = writable_memory_ok[OF Inr]
      obtain r m where m: "st_put S (mf_store s) (ml_tenant L) mp d = (r, m)" by fastforce
      have "inv m" using put_inv[OF assms conjunct1[OF ok], of "ml_tenant L" d] m by simp
      moreover have "\<not> memory_writable L t q \<Longrightarrow> row m t q = row (mf_store s) t q" for t q
        using put_frame[OF assms, of t "ml_tenant L" q mp d] m ok by auto
      ultimately show ?thesis using CWrite True Inr m by (auto simp: mf_write_def Let_def split: sum.split)
    qed (use CWrite True assms in \<open>simp add: mf_write_def Let_def\<close>)
  qed (use CWrite assms in \<open>simp add: mf_write_def Let_def inner_on\<close>)
next
  case (CMkdir p)
  then show ?thesis using assms by (simp add: mf_mkdir_def Let_def inner_on)
next
  case (CRemove p)
  show ?thesis
  proof (cases "is_memory_path (memory_route p)")
    case True
    show ?thesis
    proof (cases "writable_memory L ''remove'' (memory_route p)")
      case (Inr mp)
      note ok = writable_memory_ok[OF Inr]
      obtain r m where m: "st_delete S (mf_store s) (ml_tenant L) mp = (r, m)" by fastforce
      have "inv m" using delete_inv[OF assms, of "ml_tenant L" mp] m by simp
      moreover have "\<not> memory_writable L t q \<Longrightarrow> row m t q = row (mf_store s) t q" for t q
        using delete_frame[OF assms, of t "ml_tenant L" q mp] m ok by auto
      ultimately show ?thesis using CRemove True Inr m by (auto simp: mf_remove_def Let_def split: sum.split)
    qed (use CRemove True assms in \<open>simp add: mf_remove_def Let_def\<close>)
  qed (use CRemove assms in \<open>simp add: mf_remove_def Let_def inner_on\<close>)
qed (use assms in \<open>simp_all add: inner_on\<close>)

lemma layer_run:
  assumes "inv (mf_store s)"
  shows "inv (mf_store (vfs_run (memory_store_fs I S L) cs s)) \<and>
    (\<forall>t q. \<not> memory_writable L t q \<longrightarrow> row (mf_store (vfs_run (memory_store_fs I S L) cs s)) t q = row (mf_store s) t q)"
  using assms
proof (induction cs arbitrary: s)
  case (Cons c cs)
  from layer_step[OF Cons.prems, of I L c] show ?case
    using Cons.IH[of "snd (vfs_call (memory_store_fs I S L) s c)"] by simp
qed simp

text \<open>Answers depend on the readable rows of the tenant alone.\<close>

definition same_view :: "('s, 'j) virtual_fs \<Rightarrow> memory_layer \<Rightarrow> ('s, 'm) memory_fs_state \<Rightarrow> ('s, 'm) memory_fs_state \<Rightarrow> bool" where
  "same_view I L s s' \<longleftrightarrow> inv (mf_store s) \<and> inv (mf_store s') \<and> same_reads I (mf_inner s) (mf_inner s') \<and>
     fault (mf_store s') = fault (mf_store s) \<and>
     (\<forall>q. can_read (ml_capability L) q \<longrightarrow> row (mf_store s') (ml_tenant L) q = row (mf_store s) (ml_tenant L) q)"

lemma can_read_below: "can_read C p \<Longrightarrow> starts_with_prefix q p \<Longrightarrow> can_read C q"
  using starts_with_prefix_trans by (auto simp: can_read_def list_ex_iff)

lemma same_answers:
  assumes "same_view I L s s'"
  shows "mf_read I S L s' p = mf_read I S L s p" "mf_exists I S L s' p = mf_exists I S L s p"
    "mf_list_dir I S L s' p = mf_list_dir I S L s p" "mf_metadata I S L s' p = mf_metadata I S L s p"
    "mf_list_dir_bounded I S L s' p = mf_list_dir_bounded I S L s p"
proof -
  note v = assms[unfolded same_view_def same_reads_def]
  have get: "st_get S (mf_store s') (ml_tenant L) q = st_get S (mf_store s) (ml_tenant L) q" if "can_read (ml_capability L) q" for q
    using v that by (simp add: get_row cong: option.case_cong)
  have ex: "st_exists S (mf_store s') (ml_tenant L) q = st_exists S (mf_store s) (ml_tenant L) q" if "can_read (ml_capability L) q" for q
    using v that by (simp add: exists_row cong: option.case_cong)
  have ls: "st_list_prefix S (mf_store s') (ml_tenant L) q = st_list_prefix S (mf_store s) (ml_tenant L) q"
    if "can_read (ml_capability L) q" for q
    using v list_cong[of "mf_store s'" "mf_store s" q "ml_tenant L"] can_read_below[OF that] by blast
  have same: "mf_read I S L s' p = mf_read I S L s p \<and> mf_exists I S L s' p = mf_exists I S L s p \<and>
    mf_list_dir I S L s' p = mf_list_dir I S L s p \<and> mf_metadata I S L s' p = mf_metadata I S L s p" for p
  proof (cases "parse_memory_path (memory_route p)")
    case (Inl e)
    then show ?thesis using v by (simp add: mf_read_def mf_exists_def mf_list_dir_def mf_metadata_def Let_def)
  next
    case (Inr q)
    show ?thesis
    proof (cases "can_read (ml_capability L) q")
      case True
      show ?thesis using v
        unfolding mf_read_def mf_exists_def mf_list_dir_def mf_metadata_def Let_def Inr sum.case get[OF True] ex[OF True]
          ls[OF True] by simp
    qed (use v Inr in \<open>simp add: mf_read_def mf_exists_def mf_list_dir_def mf_metadata_def Let_def\<close>)
  qed
  then show "mf_read I S L s' p = mf_read I S L s p" "mf_exists I S L s' p = mf_exists I S L s p"
    "mf_list_dir I S L s' p = mf_list_dir I S L s p" "mf_metadata I S L s' p = mf_metadata I S L s p" by auto
  show "mf_list_dir_bounded I S L s' p = mf_list_dir_bounded I S L s p"
    using v same by (simp add: mf_list_dir_bounded_def Let_def)
qed

lemma same_view_reads: "same_view I L s s' \<Longrightarrow> same_reads (memory_store_fs I S L) s s'"
  by (simp add: same_reads_def fun_eq_iff same_answers)

end

end
