(* ===== verification/Mailbox_Fs.thy ===== *)
theory Mailbox_Fs
  imports Vfs_Layers Std_Text
begin

text \<open>
  The mailbox layer (\<^verbatim>\<open>simulacra-vfs/src/mailboxfs.rs\<close>) over the trait \<open>ArtifactStore\<close>
  (\<^verbatim>\<open>simulacra-types/src/artifact.rs\<close>): paths below \<^verbatim>\<open>/proc/mailbox\<close> are artifacts of one task of one
  tenant, written through to the filesystem below and read from the store.  The store is a record of its
  operations; \<open>mb_notified\<close> lists what the artifact sink was told.
\<close>

section \<open>Artifact stores\<close>

record artifact_entry =
  ae_path :: string
  ae_size :: nat

datatype artifact_error = ArtNotFound string | ArtInvalidPath string | ArtIo string

fun show_artifact_error :: "artifact_error \<Rightarrow> string" where
  "show_artifact_error (ArtNotFound p) = ''artifact not found: '' @ p"
| "show_artifact_error (ArtInvalidPath p) = ''invalid artifact path: '' @ p"
| "show_artifact_error (ArtIo m) = ''io error: '' @ m"

record 'a artifact_store =
  as_put :: "'a \<Rightarrow> string \<Rightarrow> string \<Rightarrow> string \<Rightarrow> bytes \<Rightarrow> (artifact_error + unit) \<times> 'a"
  as_get :: "'a \<Rightarrow> string \<Rightarrow> string \<Rightarrow> string \<Rightarrow> artifact_error + bytes"
  as_list :: "'a \<Rightarrow> string \<Rightarrow> string \<Rightarrow> artifact_error + artifact_entry list"
  as_delete_task :: "'a \<Rightarrow> string \<Rightarrow> string \<Rightarrow> (artifact_error + unit) \<times> 'a"

section \<open>The layer\<close>

record mailbox =
  mb_task :: string
  mb_tenant :: string
  mb_has_sink :: bool

record ('s, 'a) mailbox_state =
  mb_inner :: 's
  mb_store :: 'a
  mb_notified :: "(string \<times> string \<times> nat) list"

definition MAILBOX_PREFIX :: string where
  "MAILBOX_PREFIX = ''/proc/mailbox''"

definition is_mailbox_path :: "string \<Rightarrow> bool" where
  "is_mailbox_path path =
     (let normalized = trim_end_char slash path
      in normalized = MAILBOX_PREFIX \<or> starts_with normalized ''/proc/mailbox/'')"

definition mailbox_tail :: "string \<Rightarrow> string option" where
  "mailbox_tail path =
     (let normalized = trim_end_char slash path
      in if normalized = MAILBOX_PREFIX then None else strip_prefix normalized ''/proc/mailbox/'')"

definition mailbox_gate :: "touch list \<Rightarrow> vfs_error + unit" where
  "mailbox_gate touches =
     (case find (\<lambda>t. is_mailbox_path (t_path t) \<or> (takes_subtree t \<and> is_ancestor (t_path t) MAILBOX_PREFIX)) touches of
        Some t \<Rightarrow> Err (Unsupported (''atomic operation on mailbox path '' @ t_path t))
      | None \<Rightarrow> Ok ())"

definition mb_read ::
  "('s, 'j) virtual_fs \<Rightarrow> 'a artifact_store \<Rightarrow> mailbox \<Rightarrow> ('s, 'a) mailbox_state \<Rightarrow> string \<Rightarrow> vfs_error + bytes" where
  "mb_read I A B s path0 =
     (let path = normalize_vfs path0
      in if is_mailbox_path path
         then (case mailbox_tail path of
                 None \<Rightarrow> Err (NotAFile path)
               | Some t \<Rightarrow>
                   (case as_get A (mb_store s) (mb_tenant B) (mb_task B) t of
                      Inl _ \<Rightarrow> Err (NotFound path)
                    | Inr data \<Rightarrow> Ok data))
         else vfs_read I (mb_inner s) path)"

text \<open>The part before the last slash.\<close>

definition parent_dir :: "string \<Rightarrow> string option" where
  "parent_dir path =
     (if slash \<in> set path then Some (rev (tl (dropWhile (\<lambda>c. c \<noteq> slash) (rev path)))) else None)"

text \<open>The copy in the filesystem below: a failed write is repeated once the parent directory exists.\<close>

definition dual_write :: "('s, 'j) virtual_fs \<Rightarrow> 's \<Rightarrow> string \<Rightarrow> bytes \<Rightarrow> 's" where
  "dual_write I i path data =
     (case vfs_write I i path data of
        (Inr _, i1) \<Rightarrow> i1
      | (Inl _, i1) \<Rightarrow>
          (let i2 = (case parent_dir path of None \<Rightarrow> i1 | Some parent \<Rightarrow> snd (vfs_mkdir I i1 parent))
           in snd (vfs_write I i2 path data)))"

definition on_mb_inner :: "('s \<Rightarrow> 's outcome) \<Rightarrow> ('s, 'a) mailbox_state \<Rightarrow> ('s, 'a) mailbox_state outcome" where
  "on_mb_inner f s = (case f (mb_inner s) of (r, i) \<Rightarrow> (r, s\<lparr>mb_inner := i\<rparr>))"

definition mb_write ::
  "('s, 'j) virtual_fs \<Rightarrow> 'a artifact_store \<Rightarrow> mailbox \<Rightarrow> ('s, 'a) mailbox_state \<Rightarrow> string \<Rightarrow> bytes \<Rightarrow>
   ('s, 'a) mailbox_state outcome" where
  "mb_write I A B s path0 data =
     (let path = normalize_vfs path0
      in if is_mailbox_path path
         then (case mailbox_tail path of
                 None \<Rightarrow> (Err (NotAFile path), s)
               | Some t \<Rightarrow>
                   (case as_put A (mb_store s) (mb_task B) (mb_tenant B) t data of
                      (Inl e, a) \<Rightarrow> (Err (Io (show_artifact_error e)), s\<lparr>mb_store := a\<rparr>)
                    | (Inr _, a) \<Rightarrow>
                        (Ok (), s\<lparr>mb_store := a, mb_inner := dual_write I (mb_inner s) path data,
                                  mb_notified := mb_notified s @
                                    (if mb_has_sink B then [(path, mb_tenant B, length data)] else [])\<rparr>)))
         else on_mb_inner (\<lambda>i. vfs_write I i path data) s)"

text \<open>Whether some artifact lies below a tail.\<close>

definition virtual_dir :: "'a artifact_store \<Rightarrow> mailbox \<Rightarrow> 'a \<Rightarrow> string \<Rightarrow> bool" where
  "virtual_dir A B a t =
     (case as_list A a (mb_tenant B) (mb_task B) of
        Inl _ \<Rightarrow> False
      | Inr entries \<Rightarrow> list_ex (\<lambda>e. starts_with (ae_path e) (t @ ''/'')) entries)"

definition mb_exists ::
  "('s, 'j) virtual_fs \<Rightarrow> 'a artifact_store \<Rightarrow> mailbox \<Rightarrow> ('s, 'a) mailbox_state \<Rightarrow> string \<Rightarrow> bool" where
  "mb_exists I A B s path0 =
     (let path = normalize_vfs path0
      in if is_mailbox_path path
         then (case mailbox_tail path of
                 None \<Rightarrow> True
               | Some t \<Rightarrow>
                   is_ok (as_get A (mb_store s) (mb_tenant B) (mb_task B) t) \<or> virtual_dir A B (mb_store s) t)
         else vfs_exists I (mb_inner s) path)"

definition mailbox_child :: "string \<Rightarrow> artifact_entry \<Rightarrow> string option" where
  "mailbox_child pfx entry =
     (case (if pfx = [] then Some (ae_path entry) else strip_prefix (ae_path entry) pfx) of
        None \<Rightarrow> None
      | Some relative \<Rightarrow>
          (let top = (case split_once slash relative of Some (dir, _) \<Rightarrow> dir | None \<Rightarrow> relative)
           in if top = [] then None else Some top))"

definition mb_list_dir ::
  "('s, 'j) virtual_fs \<Rightarrow> 'a artifact_store \<Rightarrow> mailbox \<Rightarrow> ('s, 'a) mailbox_state \<Rightarrow> string \<Rightarrow> vfs_error + string list" where
  "mb_list_dir I A B s path0 =
     (let path = normalize_vfs path0
      in if is_mailbox_path path
         then (let pre = unwrap_or (mailbox_tail path) []
               in case as_list A (mb_store s) (mb_tenant B) (mb_task B) of
                    Inl e \<Rightarrow> Err (Io (show_artifact_error e))
                  | Inr entries \<Rightarrow>
                      (let pfx = (if pre = [] then [] else pre @ ''/'')
                       in Ok (sort (remdups (List.map_filter (mailbox_child pfx) entries)))))
         else vfs_list_dir I (mb_inner s) path)"

definition mb_mkdir ::
  "('s, 'j) virtual_fs \<Rightarrow> ('s, 'a) mailbox_state \<Rightarrow> string \<Rightarrow> ('s, 'a) mailbox_state outcome" where
  "mb_mkdir I s path0 =
     (let path = normalize_vfs path0
      in if is_mailbox_path path then (Ok (), s) else on_mb_inner (\<lambda>i. vfs_mkdir I i path) s)"

definition mb_remove ::
  "('s, 'j) virtual_fs \<Rightarrow> ('s, 'a) mailbox_state \<Rightarrow> string \<Rightarrow> ('s, 'a) mailbox_state outcome" where
  "mb_remove I s path0 =
     (let path = normalize_vfs path0
      in if is_mailbox_path path then (Err (PermissionDenied (path @ '': mailbox artifacts are immutable'')), s)
         else on_mb_inner (\<lambda>i. vfs_remove I i path) s)"

definition mb_metadata ::
  "('s, 'j) virtual_fs \<Rightarrow> 'a artifact_store \<Rightarrow> mailbox \<Rightarrow> ('s, 'a) mailbox_state \<Rightarrow> string \<Rightarrow>
   vfs_error + fs_metadata" where
  "mb_metadata I A B s path0 =
     (let path = normalize_vfs path0
      in if is_mailbox_path path
         then if trim_end_char slash path = MAILBOX_PREFIX then Ok metadata_dir
              else case mailbox_tail path of
                     None \<Rightarrow> Err (NotFound path)
                   | Some t \<Rightarrow>
                       (case as_get A (mb_store s) (mb_tenant B) (mb_task B) t of
                          Inr data \<Rightarrow> Ok (metadata_file (of_nat (length data)))
                        | Inl _ \<Rightarrow> if virtual_dir A B (mb_store s) t then Ok metadata_dir else Err (NotFound path))
         else vfs_metadata I (mb_inner s) path)"

definition mb_list_dir_bounded ::
  "('s, 'j) virtual_fs \<Rightarrow> 'a artifact_store \<Rightarrow> mailbox \<Rightarrow> ('s, 'a) mailbox_state \<Rightarrow> string \<Rightarrow> vfs_error + dir_listing" where
  "mb_list_dir_bounded I A B s path0 =
     (let path = normalize_vfs path0
      in if is_mailbox_path path
         then (case mb_list_dir I A B s path of Inl e \<Rightarrow> Err e | Inr es \<Rightarrow> Ok (listing_complete es))
         else vfs_list_dir_bounded I (mb_inner s) path)"

definition mailbox_fs ::
  "('s, 'j) virtual_fs \<Rightarrow> 'a artifact_store \<Rightarrow> mailbox \<Rightarrow> (('s, 'a) mailbox_state, 'j) virtual_fs" where
  "mailbox_fs I A B =
     \<lparr>vfs_read = mb_read I A B, vfs_write = mb_write I A B, vfs_exists = mb_exists I A B,
      vfs_list_dir = mb_list_dir I A B, vfs_mkdir = mb_mkdir I, vfs_remove = mb_remove I,
      vfs_metadata = mb_metadata I A B, vfs_snapshot = (\<lambda>s. vfs_snapshot I (mb_inner s)),
      vfs_restore = (\<lambda>s j. on_mb_inner (\<lambda>i. vfs_restore I i j) s),
      vfs_write_if = (\<lambda>s path data c. on_mb_inner (\<lambda>i. gated_write_if mailbox_gate I i path data c) s),
      vfs_rename = (\<lambda>s from to. on_mb_inner (\<lambda>i. gated_rename mailbox_gate I i from to) s),
      vfs_apply_batch = (\<lambda>s ms. on_mb_inner (\<lambda>i. gated_apply_batch mailbox_gate I i ms) s),
      vfs_list_dir_bounded = mb_list_dir_bounded I A B\<rparr>"

section \<open>What a call may change\<close>

text \<open>The artifacts of the bound task are only ever put.\<close>

definition puts_only :: "'a artifact_store \<Rightarrow> mailbox \<Rightarrow> 'a \<Rightarrow> 'a \<Rightarrow> bool" where
  "puts_only A B a a' \<longleftrightarrow> (\<exists>ws. a' = fold (\<lambda>(p, d) a. snd (as_put A a (mb_task B) (mb_tenant B) p d)) ws a)"

lemma puts_only_refl [simp]: "puts_only A B a a"
  unfolding puts_only_def by (rule exI[of _ "[]"]) simp

lemma puts_only_one: "puts_only A B a (snd (as_put A a (mb_task B) (mb_tenant B) p d))"
  unfolding puts_only_def by (rule exI[of _ "[(p, d)]"]) simp

lemma puts_only_trans: "puts_only A B a b \<Longrightarrow> puts_only A B b c \<Longrightarrow> puts_only A B a c"
  unfolding puts_only_def by (metis fold_append comp_apply)

lemma mb_inner_on: "mb_inner (snd (on_mb_inner f s)) = snd (f (mb_inner s))"
  "mb_store (snd (on_mb_inner f s)) = mb_store s"
  by (simp_all add: on_mb_inner_def split: prod.split)

lemma mailbox_sel [simp]:
  "vfs_read (mailbox_fs I A B) = mb_read I A B" "vfs_write (mailbox_fs I A B) = mb_write I A B"
  "vfs_exists (mailbox_fs I A B) = mb_exists I A B" "vfs_list_dir (mailbox_fs I A B) = mb_list_dir I A B"
  "vfs_mkdir (mailbox_fs I A B) = mb_mkdir I" "vfs_remove (mailbox_fs I A B) = mb_remove I"
  "vfs_metadata (mailbox_fs I A B) = mb_metadata I A B"
  "vfs_list_dir_bounded (mailbox_fs I A B) = mb_list_dir_bounded I A B"
  "vfs_write_if (mailbox_fs I A B) = (\<lambda>s path data c. on_mb_inner (\<lambda>i. gated_write_if mailbox_gate I i path data c) s)"
  "vfs_rename (mailbox_fs I A B) = (\<lambda>s from to. on_mb_inner (\<lambda>i. gated_rename mailbox_gate I i from to) s)"
  "vfs_apply_batch (mailbox_fs I A B) = (\<lambda>s ms. on_mb_inner (\<lambda>i. gated_apply_batch mailbox_gate I i ms) s)"
  by (simp_all add: mailbox_fs_def)

lemma mailbox_step_store: "puts_only A B (mb_store s) (mb_store (snd (vfs_call (mailbox_fs I A B) s c)))"
proof (cases c)
  case (CWrite p d)
  then show ?thesis using puts_only_one[of A B "mb_store s"]
    by (auto simp: mb_write_def Let_def mb_inner_on split: option.split prod.split sum.split) (metis snd_conv)+
qed (simp_all add: mb_mkdir_def mb_remove_def Let_def mb_inner_on)

lemma mailbox_run_store: "puts_only A B (mb_store s) (mb_store (vfs_run (mailbox_fs I A B) cs s))"
proof (induction cs arbitrary: s)
  case (Cons c cs)
  then show ?case using mailbox_step_store[of A B s I c] puts_only_trans by fastforce
qed simp

text \<open>What the layer asks of the filesystem below: the caller's own paths, and for an artifact its parent.\<close>

lemma calls_mkdir: "reaches R (CMkdir p) \<Longrightarrow> calls_only I (reaches R) i (snd (vfs_mkdir I i p))"
  and calls_write: "reaches R (CWrite p d) \<Longrightarrow> calls_only I (reaches R) i (snd (vfs_write I i p d))"
  and calls_remove: "reaches R (CRemove p) \<Longrightarrow> calls_only I (reaches R) i (snd (vfs_remove I i p))"
  using calls_only_one[of "reaches R" "CMkdir p" I i] calls_only_one[of "reaches R" "CWrite p d" I i]
    calls_only_one[of "reaches R" "CRemove p" I i] by simp_all

lemma dual_write_calls:
  assumes "reaches R (CWrite path d)" "\<And>q. parent_dir path = Some q \<Longrightarrow> R (normalize_vfs q)"
  shows "calls_only I (reaches R) i (dual_write I i path d)"
proof -
  obtain r i1 where w: "vfs_write I i path d = (r, i1)" by fastforce
  define i2 where "i2 = (case parent_dir path of None \<Rightarrow> i1 | Some q \<Rightarrow> snd (vfs_mkdir I i1 q))"
  have one: "calls_only I (reaches R) i i1" using calls_write[OF assms(1), of I i] w by simp
  have "calls_only I (reaches R) i1 i2"
    using assms(2) calls_mkdir[of R] by (auto simp: i2_def reaches_def split: option.split)
  from calls_only_trans[OF one this] have "calls_only I (reaches R) i (snd (vfs_write I i2 path d))"
    using calls_write[OF assms(1), of I i2] calls_only_trans by metis
  then show ?thesis using w one by (cases r) (simp_all add: dual_write_def i2_def)
qed

lemma trim_end_abs: "good_segs ps \<Longrightarrow> ps \<noteq> [] \<Longrightarrow> trim_end_char slash (abs_path ps) = abs_path ps"
  using last_abs_path[of ps] trim_end_char_other by blast

lemma mailbox_segs: "good_segs [''proc'', ''mailbox'']" "abs_path [''proc'', ''mailbox''] = MAILBOX_PREFIX"
  by (simp_all add: good_seg_def abs_path_def MAILBOX_PREFIX_def)

lemma is_mailbox_abs: "good_segs ps \<Longrightarrow> is_mailbox_path (abs_path ps) \<longleftrightarrow> prefix [''proc'', ''mailbox''] ps"
proof (cases "ps = []")
  case True
  then show ?thesis by (simp add: is_mailbox_path_def MAILBOX_PREFIX_def trim_end_char_def starts_with_def)
next
  case False
  assume ps: "good_segs ps"
  show ?thesis using at_or_below_iff[OF mailbox_segs(1) ps]
    by (simp add: is_mailbox_path_def Let_def trim_end_abs[OF ps False] at_or_below_def mailbox_segs(2))
      (simp add: MAILBOX_PREFIX_def)
qed

lemma parent_dir_snoc: "slash \<notin> set s \<Longrightarrow> parent_dir (p @ slash # s) = Some p"
proof -
  assume "slash \<notin> set s"
  then have "dropWhile (\<lambda>c. c \<noteq> slash) (rev s @ slash # rev p) = slash # rev p"
    by (subst dropWhile_append2) auto
  then show ?thesis by (simp add: parent_dir_def)
qed

lemma parent_dir_mailbox:
  assumes "is_normal path" "mailbox_tail path = Some t" "parent_dir path = Some q"
  obtains ps where "q = abs_path ps" "good_segs ps" "prefix [''proc'', ''mailbox''] ps"
proof -
  obtain qs where qs: "path = abs_path qs" "good_segs qs" using is_normalE[OF assms(1)] .
  have ne: "qs \<noteq> []"
    using assms(2) qs by (auto simp: mailbox_tail_def trim_end_char_def MAILBOX_PREFIX_def str_simps split: if_splits)
  have "strict_prefix [''proc'', ''mailbox''] qs"
    using assms(2) starts_below_iff[OF mailbox_segs(1) qs(2)]
    by (auto simp: mailbox_tail_def qs(1) trim_end_abs[OF qs(2) ne] mailbox_segs(2) starts_with_def str_simps
        Let_def MAILBOX_PREFIX_def split: if_splits)
  moreover obtain ps s where s: "qs = ps @ [s]" using ne rev_exhaust by blast
  ultimately have pre: "prefix [''proc'', ''mailbox''] ps" by (auto simp: strict_prefix_def)
  have good: "good_segs ps" "slash \<notin> set s" using qs(2) s by (auto simp: good_seg_def)
  have "path = abs_path ps @ slash # s" using pre s qs(1) by (auto simp: abs_path_snoc)
  with assms(3) have "q = abs_path ps" by (simp add: parent_dir_snoc[OF good(2)])
  from that[OF this good(1) pre] show ?thesis .
qed

lemma mailbox_gate_keeps: "gate_keeps mailbox_gate (\<lambda>p. \<not> is_mailbox_path p)"
  by (auto simp: gate_keeps_def mailbox_gate_def find_None_iff split: option.splits)

lemma mailbox_gated:
  "reaches R (CWriteIf p d c) \<Longrightarrow> calls_only I (reaches R) s (snd (gated_write_if mailbox_gate I s p d c))"
  "reaches R (CRename p q) \<Longrightarrow> calls_only I (reaches R) s (snd (gated_rename mailbox_gate I s p q))"
  "reaches R (CBatch ms) \<Longrightarrow> calls_only I (reaches R) s (snd (gated_apply_batch mailbox_gate I s ms))"
  by (rule calls_only_mono, erule gated_calls[OF mailbox_gate_keeps], erule reaches_mono, simp)+

lemma mailbox_layer_below:
  assumes "reaches R c" "\<And>ps. good_segs ps \<Longrightarrow> prefix [''proc'', ''mailbox''] ps \<Longrightarrow> R (abs_path ps)"
  shows "calls_only I (reaches R) (mb_inner s) (mb_inner (snd (vfs_call (mailbox_fs I A B) s c)))"
proof (cases c)
  case (CWrite p d)
  show ?thesis
  proof (cases "is_mailbox_path (normalize_vfs p)")
    case True
    have "reaches R (CWrite (normalize_vfs p) d)" using assms CWrite by (simp add: reaches_def)
    moreover have "R (normalize_vfs q)" if "mailbox_tail (normalize_vfs p) = Some t" "parent_dir (normalize_vfs p) = Some q" for t q
      using parent_dir_mailbox[OF is_normal_normalize that] assms(2) by (metis normalize_abs_path)
    ultimately have "calls_only I (reaches R) i (dual_write I i (normalize_vfs p) d)" if "mailbox_tail (normalize_vfs p) = Some t" for i t
      using dual_write_calls[of R "normalize_vfs p" d I i] that by blast
    then show ?thesis using CWrite True by (auto simp: mb_write_def Let_def split: option.split prod.split sum.split)
  qed (use CWrite assms calls_write[of R "normalize_vfs p" d I "mb_inner s"] in
      \<open>simp add: mb_write_def Let_def mb_inner_on reaches_def\<close>)
next
  case (CMkdir p)
  then show ?thesis using assms calls_mkdir[of R "normalize_vfs p" I "mb_inner s"]
    by (simp add: mb_mkdir_def Let_def mb_inner_on reaches_def)
next
  case (CRemove p)
  then show ?thesis using assms calls_remove[of R "normalize_vfs p" I "mb_inner s"]
    by (simp add: mb_remove_def Let_def mb_inner_on reaches_def)
qed (use assms mailbox_gated[of R] in \<open>simp_all add: mb_inner_on\<close>)

text \<open>Reads see the artifacts of the bound task alone.\<close>

definition same_artifacts :: "'a artifact_store \<Rightarrow> mailbox \<Rightarrow> 'a \<Rightarrow> 'a \<Rightarrow> bool" where
  "same_artifacts A B a a' \<longleftrightarrow>
     as_get A a' (mb_tenant B) (mb_task B) = as_get A a (mb_tenant B) (mb_task B) \<and>
     as_list A a' (mb_tenant B) (mb_task B) = as_list A a (mb_tenant B) (mb_task B)"

lemma mailbox_same_reads:
  assumes "same_reads I (mb_inner s) (mb_inner s')" "same_artifacts A B (mb_store s) (mb_store s')"
  shows "same_reads (mailbox_fs I A B) s s'"
proof -
  note v = assms[unfolded same_reads_def same_artifacts_def]
  have dir: "virtual_dir A B (mb_store s') = virtual_dir A B (mb_store s)" using v by (simp add: virtual_dir_def fun_eq_iff)
  have "mb_read I A B s' = mb_read I A B s" "mb_exists I A B s' = mb_exists I A B s"
    "mb_metadata I A B s' = mb_metadata I A B s"
    using v by (simp_all only: fun_eq_iff[of "mb_read I A B s'"] fun_eq_iff[of "mb_exists I A B s'"]
        fun_eq_iff[of "mb_metadata I A B s'"] mb_read_def mb_exists_def mb_metadata_def dir simp_thms)
  moreover have ls: "mb_list_dir I A B s' = mb_list_dir I A B s"
    using v by (simp only: fun_eq_iff[of "mb_list_dir I A B s'"] mb_list_dir_def simp_thms)
  moreover have "mb_list_dir_bounded I A B s' = mb_list_dir_bounded I A B s"
    using v by (simp only: fun_eq_iff[of "mb_list_dir_bounded I A B s'"] mb_list_dir_bounded_def ls simp_thms)
  ultimately show ?thesis by (simp add: same_reads_def)
qed

end
