(* ===== verification/Service_Fs.thy ===== *)
theory Service_Fs
  imports Vfs_Layers Std_Text
begin

text \<open>
  The service discovery layer (\<^verbatim>\<open>simulacra-vfs/src/servicefs.rs\<close>): \<^verbatim>\<open>/svc\<close> shows the integrations of a
  tenant, read-only, and everything else goes to the filesystem below.  The trait \<open>IntegrationLister\<close>
  is a record of its answers.
\<close>

section \<open>Integrations\<close>

record integration_lister =
  il_names :: "string list"
  il_metadata :: "string \<Rightarrow> string option"
  il_readme :: "string \<Rightarrow> string option"
  il_skill_names :: "string \<Rightarrow> string list"

definition is_svc :: "string \<Rightarrow> bool" where
  "is_svc path =
     (let normalized = trim_end_char slash path
      in normalized = ''/svc'' \<or> starts_with normalized ''/svc/'')"

definition svc_tail :: "string \<Rightarrow> string option" where
  "svc_tail path =
     (let normalized = trim_end_char slash path
      in if normalized = ''/svc'' then None else strip_prefix normalized ''/svc/'')"

definition svc_gate :: "touch list \<Rightarrow> vfs_error + unit" where
  "svc_gate touches =
     (case find (\<lambda>t. is_svc (t_path t) \<or> (takes_subtree t \<and> is_root (t_path t))) touches of
        None \<Rightarrow> Ok ()
      | Some t \<Rightarrow>
          if is_svc (t_path t) then Err (PermissionDenied (t_path t @ '' is read-only''))
          else Err (PermissionDenied (t_path t @ '': whole-tree removal through read-only /svc is refused'')))"

definition ok_or_not_found :: "string \<Rightarrow> 'a option \<Rightarrow> vfs_error + 'a" where
  "ok_or_not_found path v = (case v of None \<Rightarrow> Err (NotFound path) | Some x \<Rightarrow> Ok x)"

definition svc_read :: "integration_lister \<Rightarrow> string \<Rightarrow> vfs_error + bytes" where
  "svc_read IL path =
     (case svc_tail path of
        None \<Rightarrow> Err (NotAFile path)
      | Some t \<Rightarrow>
          (case split_once slash t of
             None \<Rightarrow> Err (NotAFile path)
           | Some (name, file) \<Rightarrow>
               if file = ''README.md'' then ok_or_not_found path (il_readme IL name)
               else if file = ''config.json'' then ok_or_not_found path (il_metadata IL name)
               else Err (NotFound path)))"

definition svc_list_dir :: "integration_lister \<Rightarrow> string \<Rightarrow> vfs_error + string list" where
  "svc_list_dir IL path =
     (case svc_tail path of
        None \<Rightarrow> Ok (sort (il_names IL))
      | Some t \<Rightarrow>
          (let (name, sub) = (case split_once slash t of Some (n, s) \<Rightarrow> (n, Some s) | None \<Rightarrow> (t, None))
           in if il_metadata IL name = None then Err (NotFound path)
              else case sub of
                     None \<Rightarrow> Ok [''README.md'', ''config.json'', ''skills'']
                   | Some s \<Rightarrow>
                       if s = ''skills'' \<or> s = ''skills/'' then Ok (il_skill_names IL name)
                       else Err (NotFound path)))"

definition svc_metadata :: "integration_lister \<Rightarrow> string \<Rightarrow> vfs_error + fs_metadata" where
  "svc_metadata IL path =
     (if trim_end_char slash path = ''/svc'' then Ok metadata_dir
      else let tail = unwrap_or (svc_tail path) []
           in case split_once slash tail of
                None \<Rightarrow> if il_metadata IL tail \<noteq> None then Ok metadata_dir else Err (NotFound path)
              | Some (name, file) \<Rightarrow>
                  if il_metadata IL name = None then Err (NotFound path)
                  else if file = ''skills'' then Ok metadata_dir
                  else if file = ''README.md'' \<or> file = ''config.json''
                  then (case svc_read IL path of
                          Inr bytes \<Rightarrow> Ok (metadata_file (of_nat (length bytes)))
                        | Inl e \<Rightarrow> Err e)
                  else Err (NotFound path))"

definition svc_exists :: "integration_lister \<Rightarrow> string \<Rightarrow> bool" where
  "svc_exists IL path = is_ok (svc_metadata IL path)"

section \<open>The layer\<close>

definition sf_read :: "('s, 'j) virtual_fs \<Rightarrow> integration_lister \<Rightarrow> 's \<Rightarrow> string \<Rightarrow> vfs_error + bytes" where
  "sf_read I IL s path0 =
     (let path = normalize_vfs path0 in if is_svc path then svc_read IL path else vfs_read I s path)"

definition sf_write :: "('s, 'j) virtual_fs \<Rightarrow> 's \<Rightarrow> string \<Rightarrow> bytes \<Rightarrow> 's outcome" where
  "sf_write I s path0 data =
     (let path = normalize_vfs path0
      in if is_svc path then (Err (PermissionDenied (path @ '' is read-only'')), s) else vfs_write I s path data)"

definition sf_exists :: "('s, 'j) virtual_fs \<Rightarrow> integration_lister \<Rightarrow> 's \<Rightarrow> string \<Rightarrow> bool" where
  "sf_exists I IL s path0 =
     (let path = normalize_vfs path0 in if is_svc path then svc_exists IL path else vfs_exists I s path)"

definition sf_list_dir :: "('s, 'j) virtual_fs \<Rightarrow> integration_lister \<Rightarrow> 's \<Rightarrow> string \<Rightarrow> vfs_error + string list" where
  "sf_list_dir I IL s path0 =
     (let path = normalize_vfs path0 in if is_svc path then svc_list_dir IL path else vfs_list_dir I s path)"

definition sf_mkdir :: "('s, 'j) virtual_fs \<Rightarrow> 's \<Rightarrow> string \<Rightarrow> 's outcome" where
  "sf_mkdir I s path0 =
     (let path = normalize_vfs path0
      in if is_svc path then (Err (PermissionDenied (path @ '' is read-only'')), s) else vfs_mkdir I s path)"

definition sf_remove :: "('s, 'j) virtual_fs \<Rightarrow> 's \<Rightarrow> string \<Rightarrow> 's outcome" where
  "sf_remove I s path0 =
     (let path = normalize_vfs path0
      in case svc_gate (removed path) of Inl e \<Rightarrow> (Err e, s) | Inr _ \<Rightarrow> vfs_remove I s path)"

definition sf_metadata :: "('s, 'j) virtual_fs \<Rightarrow> integration_lister \<Rightarrow> 's \<Rightarrow> string \<Rightarrow> vfs_error + fs_metadata" where
  "sf_metadata I IL s path0 =
     (let path = normalize_vfs path0 in if is_svc path then svc_metadata IL path else vfs_metadata I s path)"

definition sf_list_dir_bounded ::
  "('s, 'j) virtual_fs \<Rightarrow> integration_lister \<Rightarrow> 's \<Rightarrow> string \<Rightarrow> vfs_error + dir_listing" where
  "sf_list_dir_bounded I IL s path0 =
     (let path = normalize_vfs path0
      in if is_svc path
         then (case sf_list_dir I IL s path of Inl e \<Rightarrow> Err e | Inr es \<Rightarrow> Ok (listing_complete es))
         else vfs_list_dir_bounded I s path)"

definition service_fs :: "('s, 'j) virtual_fs \<Rightarrow> integration_lister \<Rightarrow> ('s, 'j) virtual_fs" where
  "service_fs I IL =
     \<lparr>vfs_read = sf_read I IL, vfs_write = sf_write I, vfs_exists = sf_exists I IL,
      vfs_list_dir = sf_list_dir I IL, vfs_mkdir = sf_mkdir I, vfs_remove = sf_remove I,
      vfs_metadata = sf_metadata I IL, vfs_snapshot = vfs_snapshot I, vfs_restore = vfs_restore I,
      vfs_write_if = gated_write_if svc_gate I, vfs_rename = gated_rename svc_gate I,
      vfs_apply_batch = gated_apply_batch svc_gate I, vfs_list_dir_bounded = sf_list_dir_bounded I IL\<rparr>"

lemma service_sel [simp]:
  "vfs_read (service_fs I IL) = sf_read I IL" "vfs_write (service_fs I IL) = sf_write I"
  "vfs_exists (service_fs I IL) = sf_exists I IL" "vfs_list_dir (service_fs I IL) = sf_list_dir I IL"
  "vfs_mkdir (service_fs I IL) = sf_mkdir I" "vfs_remove (service_fs I IL) = sf_remove I"
  "vfs_metadata (service_fs I IL) = sf_metadata I IL"
  "vfs_list_dir_bounded (service_fs I IL) = sf_list_dir_bounded I IL"
  "vfs_write_if (service_fs I IL) = gated_write_if svc_gate I" "vfs_rename (service_fs I IL) = gated_rename svc_gate I"
  "vfs_apply_batch (service_fs I IL) = gated_apply_batch svc_gate I"
  by (simp_all add: service_fs_def)

lemma svc_gate_ok: "svc_gate ts = Ok () \<Longrightarrow> t \<in> set ts \<Longrightarrow> \<not> is_svc (t_path t)"
  by (auto simp: svc_gate_def find_None_iff split: option.splits if_splits)

lemma svc_gate_keeps: "gate_keeps svc_gate (\<lambda>p. \<not> is_svc p)"
  by (simp add: gate_keeps_def svc_gate_ok)

lemma service_layer_below:
  assumes "reaches R c"
  shows "calls_only I (reaches (\<lambda>p. \<not> is_svc p \<and> R p)) s (snd (vfs_call (service_fs I IL) s c))"
proof (cases c)
  case (CWrite p d)
  then show ?thesis using assms calls_only_one[of "reaches (\<lambda>p. \<not> is_svc p \<and> R p)" "CWrite (normalize_vfs p) d" I s]
    by (simp add: sf_write_def Let_def reaches_def)
next
  case (CMkdir p)
  then show ?thesis using assms calls_only_one[of "reaches (\<lambda>p. \<not> is_svc p \<and> R p)" "CMkdir (normalize_vfs p)" I s]
    by (simp add: sf_mkdir_def Let_def reaches_def)
next
  case (CRemove p)
  then show ?thesis
    using assms calls_only_one[of "reaches (\<lambda>p. \<not> is_svc p \<and> R p)" "CRemove (normalize_vfs p)" I s]
      svc_gate_ok[of "removed (normalize_vfs p)" "touch_new p True"]
    by (auto simp: sf_remove_def Let_def reaches_def removed_def touch_new_def split: sum.split)
qed (use assms in \<open>simp_all add: gated_calls[OF svc_gate_keeps]\<close>)

lemma service_same_reads: "same_reads I s s' \<Longrightarrow> same_reads (service_fs I IL) s s'"
  by (simp add: same_reads_def fun_eq_iff sf_read_def sf_exists_def sf_list_dir_def sf_metadata_def sf_list_dir_bounded_def
      Let_def)

end
