(* ===== verification/Budget.thy ===== *)
theory Budget
  imports Sim_Prelude
begin

text \<open>
  Resource budgets (\<^verbatim>\<open>simulacra-types/src/budget.rs\<close>).  Costs are decimals of an external crate: the
  type \<open>'d\<close> of costs is a parameter (ordered, with a zero) and so is its rendering.
\<close>

record 'd resource_budget =
  max_tokens :: u64
  max_turns :: u32
  max_cost :: 'd
  max_sub_agents :: u32
  max_vfs_bytes :: u64
  used_tokens :: u64
  used_turns :: u32
  used_cost :: 'd
  used_sub_agents :: u32
  used_vfs_bytes :: u64
  max_fuel :: u64
  used_fuel :: u64

record budget_exhausted =
  be_resource :: string
  be_used :: string
  be_limit :: string

definition budget_new :: "u64 \<Rightarrow> u32 \<Rightarrow> 'd::zero \<Rightarrow> u32 \<Rightarrow> 'd resource_budget" where
  "budget_new tokens turns cost sub_agents =
     \<lparr>max_tokens = tokens, max_turns = turns, max_cost = cost, max_sub_agents = sub_agents,
      max_vfs_bytes = 0, used_tokens = 0, used_turns = 0, used_cost = 0, used_sub_agents = 0,
      used_vfs_bytes = 0, max_fuel = 0, used_fuel = 0\<rparr>"

definition exhausted :: "string \<Rightarrow> string \<Rightarrow> string \<Rightarrow> budget_exhausted" where
  "exhausted r u l = \<lparr>be_resource = r, be_used = u, be_limit = l\<rparr>"

definition check_budget ::
  "('d::{zero,linorder} \<Rightarrow> string) \<Rightarrow> 'd resource_budget \<Rightarrow> budget_exhausted + unit" where
  "check_budget show_cost b =
     (if max_tokens b > 0 \<and> used_tokens b \<ge> max_tokens b
      then Err (exhausted ''tokens'' (show_word (used_tokens b)) (show_word (max_tokens b)))
      else if max_turns b > 0 \<and> used_turns b \<ge> max_turns b
      then Err (exhausted ''turns'' (show_word (used_turns b)) (show_word (max_turns b)))
      else if max_cost b \<noteq> 0 \<and> used_cost b \<ge> max_cost b
      then Err (exhausted ''cost'' (show_cost (used_cost b)) (show_cost (max_cost b)))
      else if max_sub_agents b > 0 \<and> used_sub_agents b \<ge> max_sub_agents b
      then Err (exhausted ''sub_agents'' (show_word (used_sub_agents b)) (show_word (max_sub_agents b)))
      else if max_vfs_bytes b > 0 \<and> used_vfs_bytes b \<ge> max_vfs_bytes b
      then Err (exhausted ''vfs_bytes'' (show_word (used_vfs_bytes b)) (show_word (max_vfs_bytes b)))
      else if max_fuel b > 0 \<and> used_fuel b \<ge> max_fuel b
      then Err (exhausted ''fuel'' (show_word (used_fuel b)) (show_word (max_fuel b)))
      else Ok ())"

section \<open>What the check means\<close>

text \<open>The resources in the order they are checked, each with whether its limit (zero means none) is
  reached.\<close>

definition resource_states :: "'d::{zero,linorder} resource_budget \<Rightarrow> (string \<times> bool) list" where
  "resource_states b =
     [(''tokens'', max_tokens b \<noteq> 0 \<and> max_tokens b \<le> used_tokens b),
      (''turns'', max_turns b \<noteq> 0 \<and> max_turns b \<le> used_turns b),
      (''cost'', max_cost b \<noteq> 0 \<and> max_cost b \<le> used_cost b),
      (''sub_agents'', max_sub_agents b \<noteq> 0 \<and> max_sub_agents b \<le> used_sub_agents b),
      (''vfs_bytes'', max_vfs_bytes b \<noteq> 0 \<and> max_vfs_bytes b \<le> used_vfs_bytes b),
      (''fuel'', max_fuel b \<noteq> 0 \<and> max_fuel b \<le> used_fuel b)]"

lemma check_budget_find:
  "(case check_budget show_cost b of Inl e \<Rightarrow> Some (be_resource e) | Inr _ \<Rightarrow> None) =
     map_option fst (find snd (resource_states b))"
  by (simp add: check_budget_def resource_states_def exhausted_def word_gt_0)

lemma check_budget_ok_iff: "is_ok (check_budget show_cost b) \<longleftrightarrow> (\<forall>(r, full) \<in> set (resource_states b). \<not> full)"
  by (auto simp: check_budget_def resource_states_def word_gt_0)

text \<open>The budget check is exact: it passes precisely when every resource with a nonzero limit is
  strictly below it, and otherwise it reports the first exhausted resource in the fixed order tokens,
  turns, cost, sub-agents, filesystem bytes, fuel.\<close>

theorem check_budget_exact:
  "(is_ok (check_budget show_cost b) \<longleftrightarrow> (\<forall>(r, full) \<in> set (resource_states b). \<not> full)) \<and>
   (case check_budget show_cost b of Inl e \<Rightarrow> Some (be_resource e) | Inr _ \<Rightarrow> None) =
     map_option fst (find snd (resource_states b))"
  using check_budget_ok_iff check_budget_find by blast

definition sample_budget :: "int resource_budget" where
  "sample_budget = (budget_new 100 10 5 2)\<lparr>used_tokens := 99, used_turns := 10\<rparr>"

theorem check_budget_exact_witness:
  "\<not> is_ok (check_budget (\<lambda>_. []) sample_budget) \<and>
   (case check_budget (\<lambda>_. []) sample_budget of Inl e \<Rightarrow> Some (be_resource e) | Inr _ \<Rightarrow> None) = Some ''turns''"
proof -
  have f: "find snd (resource_states sample_budget) = Some (''turns'', True)"
    by code_simp
  have "(''turns'', True) \<in> set (resource_states sample_budget)" by code_simp
  then show ?thesis
    using check_budget_exact[of "\<lambda>_. []" sample_budget] f by auto
qed

end
