(* ===== verification/Path_Glob.thy ===== *)
theory Path_Glob
  imports Vfs_Path
begin

text \<open>
  The path patterns a capability grants (\<^verbatim>\<open>simulacra-types/src/path_glob.rs\<close>): everything,
  a subtree, the entries of a directory, or one exact path.  The contract of the module is a
  denotation: the set of paths a pattern grants.  \<open>covers\<close> is shown to decide inclusion of the
  denotations and \<open>intersect\<close> to compute their intersection, for every supported pattern.
\<close>

section \<open>The operations\<close>

definition within :: "string \<Rightarrow> string \<Rightarrow> bool" where
  "within pre path \<longleftrightarrow>
     starts_with path pre \<and>
     (length path = length pre \<or> (length pre < length path \<and> path ! length pre = slash))"

definition directly_inside :: "string \<Rightarrow> string \<Rightarrow> bool" where
  "directly_inside dir path =
     (case Option.bind (strip_prefix path dir) (\<lambda>rest. strip_prefix rest ''/'') of
        None \<Rightarrow> False
      | Some name \<Rightarrow> name \<noteq> [] \<and> \<not> contains_char name slash)"

definition pattern_body :: "string \<Rightarrow> string" where
  "pattern_body pattern =
     unwrap_or (or_else (strip_suffix pattern ''/**'') (strip_suffix pattern ''/*'')) pattern"

definition is_supported :: "string \<Rightarrow> bool" where
  "is_supported pattern \<longleftrightarrow>
     starts_with pattern ''/'' \<and> \<not> contains_char (pattern_body pattern) star"

definition glob_matches :: "string \<Rightarrow> string \<Rightarrow> bool" where
  "glob_matches pattern path =
     (if pattern = ''/**'' then True
      else case strip_suffix pattern ''/**'' of
        Some pre \<Rightarrow> within pre path
      | None \<Rightarrow> (case strip_suffix pattern ''/*'' of
          Some dir \<Rightarrow> directly_inside dir path
        | None \<Rightarrow> pattern = path))"

definition glob_covers :: "string \<Rightarrow> string \<Rightarrow> bool" where
  "glob_covers parent child =
     (if parent = child \<or> parent = ''/**'' then True
      else case strip_suffix parent ''/**'' of
        Some pre \<Rightarrow> within pre (pattern_body child)
      | None \<Rightarrow> (case strip_suffix parent ''/*'' of
          Some dir \<Rightarrow> \<not> contains_char child star \<and> directly_inside dir child
        | None \<Rightarrow> False))"

definition shared_entry :: "string \<Rightarrow> string \<Rightarrow> string option" where
  "shared_entry star_pat subtree_pat =
     Option.bind (strip_suffix star_pat ''/*'') (\<lambda>dir.
     Option.bind (strip_suffix subtree_pat ''/**'') (\<lambda>base.
       if directly_inside dir base then Some base else None))"

definition glob_intersect :: "string \<Rightarrow> string \<Rightarrow> string option" where
  "glob_intersect a b =
     (if glob_covers b a then Some a
      else if glob_covers a b then Some b
      else or_else (shared_entry a b) (shared_entry b a))"

section \<open>Denotations\<close>

definition granted :: "string \<Rightarrow> string set" where
  "granted pattern = {path. glob_matches pattern path}"

lemma within_iff: "within pre path \<longleftrightarrow> (\<exists>r. path = pre @ r \<and> (r = [] \<or> hd r = slash))"
proof
  assume "within pre path"
  then obtain r where "path = pre @ r" "r = [] \<or> (pre @ r) ! length pre = slash"
    by (auto simp: within_def starts_with_def prefix_def)
  then show "\<exists>r. path = pre @ r \<and> (r = [] \<or> hd r = slash)"
    by (cases r) auto
next
  assume "\<exists>r. path = pre @ r \<and> (r = [] \<or> hd r = slash)"
  then obtain r where "path = pre @ r" "r = [] \<or> hd r = slash" by blast
  then show "within pre path"
    by (cases r) (auto simp: within_def starts_with_def)
qed

lemma directly_inside_iff:
  "directly_inside dir path \<longleftrightarrow> (\<exists>n. path = dir @ slash # n \<and> n \<noteq> [] \<and> slash \<notin> set n)"
  by (auto simp: directly_inside_def strip_prefix_def prefix_def contains_char_def bind_eq_Some_conv
      split: option.splits)

lemma within_refl [simp]: "within p p"
  by (simp add: within_iff)

lemma within_trans: "within a b \<Longrightarrow> within b c \<Longrightarrow> within a c"
  by (auto simp: within_iff hd_append)

lemma directly_inside_within: "directly_inside d p \<Longrightarrow> within d p"
  by (auto simp: directly_inside_iff within_iff)

text \<open>The four shapes of a pattern, in the order the code tests them.\<close>

datatype glob_shape = Everything | Subtree string | Entries string | Exact string

definition shape :: "string \<Rightarrow> glob_shape" where
  "shape pattern =
     (if pattern = ''/**'' then Everything
      else case strip_suffix pattern ''/**'' of
        Some pre \<Rightarrow> Subtree pre
      | None \<Rightarrow> (case strip_suffix pattern ''/*'' of
          Some dir \<Rightarrow> Entries dir
        | None \<Rightarrow> Exact pattern))"

fun shape_grants :: "glob_shape \<Rightarrow> string \<Rightarrow> bool" where
  "shape_grants Everything p \<longleftrightarrow> True"
| "shape_grants (Subtree d) p \<longleftrightarrow> within d p"
| "shape_grants (Entries d) p \<longleftrightarrow> directly_inside d p"
| "shape_grants (Exact q) p \<longleftrightarrow> p = q"

lemma granted_shape: "granted pattern = {p. shape_grants (shape pattern) p}"
  by (auto simp: granted_def glob_matches_def shape_def split: option.splits)

lemma suffix_star_cases:
  "strip_suffix p ''/**'' = Some d \<Longrightarrow> strip_suffix p ''/*'' = None"
  by (auto simp: strip_suffix_def suffix_def)

lemma shape_cases:
  obtains (all) "pattern = ''/**''" "shape pattern = Everything" "pattern_body pattern = []"
  | (sub) d where "pattern = d @ ''/**''" "d \<noteq> []" "shape pattern = Subtree d" "pattern_body pattern = d"
  | (ent) d where "pattern = d @ ''/*''" "shape pattern = Entries d" "pattern_body pattern = d"
  | (ex) "shape pattern = Exact pattern" "pattern_body pattern = pattern"
      "\<not> suffix ''/*'' pattern" "\<not> suffix ''/**'' pattern"
proof (cases "strip_suffix pattern ''/**''")
  case (Some d)
  then have p: "pattern = d @ ''/**''" by (simp add: str_simps)
  show ?thesis
  proof (cases "d = []")
    case True
    with p all show ?thesis by (simp add: shape_def pattern_body_def strip_suffix_def)
  next
    case False
    with p Some sub show ?thesis by (simp add: shape_def pattern_body_def)
  qed
next
  case None
  then have n: "pattern \<noteq> ''/**''" by (auto simp: strip_suffix_def)
  show ?thesis
  proof (cases "strip_suffix pattern ''/*''")
    case (Some d)
    then have "pattern = d @ ''/*''" by (simp add: str_simps)
    with Some None n ent show ?thesis by (simp add: shape_def pattern_body_def)
  next
    case None2: None
    with None n ex show ?thesis
      by (simp add: shape_def pattern_body_def flip: strip_suffix_None)
  qed
qed

section \<open>Coverage is inclusion\<close>

lemma glob_covers_shape:
  "glob_covers p c \<longleftrightarrow> p = c \<or>
     (case shape p of
        Everything \<Rightarrow> True
      | Subtree d \<Rightarrow> within d (pattern_body c)
      | Entries d \<Rightarrow> star \<notin> set c \<and> directly_inside d c
      | Exact _ \<Rightarrow> False)"
  by (auto simp: glob_covers_def shape_def contains_char_def split: option.splits)

lemma granted_within_body: "shape c \<noteq> Everything \<Longrightarrow> x \<in> granted c \<Longrightarrow> within (pattern_body c) x"
  by (cases c rule: shape_cases) (auto simp: granted_shape intro: directly_inside_within)

lemma glob_covers_sound: "glob_covers p c \<Longrightarrow> granted c \<subseteq> granted p"
proof (cases p rule: shape_cases)
  case (sub d)
  assume "glob_covers p c"
  then have cov: "p = c \<or> within d (pattern_body c)"
    using sub by (simp add: glob_covers_shape)
  show ?thesis
  proof (cases "p = c")
    case False
    with cov have w: "within d (pattern_body c)" by simp
    with sub have "shape c \<noteq> Everything"
      by (cases c rule: shape_cases) (auto simp: within_iff)
    with w sub show ?thesis
      by (auto simp: granted_shape[of "d @ _"] intro: within_trans dest: granted_within_body)
  qed simp
next
  case (ent d)
  assume "glob_covers p c"
  with ent show ?thesis
    by (cases c rule: shape_cases) (auto simp: glob_covers_shape granted_shape)
qed (auto simp: glob_covers_shape granted_shape)

lemma within_entry:
  "slash \<notin> set n \<Longrightarrow> within d (e @ slash # n) \<longleftrightarrow> within d e \<or> d = e @ slash # n"
proof
  assume n: "slash \<notin> set n" and "within d (e @ slash # n)"
  then obtain r where r: "e @ slash # n = d @ r" "r = [] \<or> hd r = slash"
    by (auto simp: within_iff)
  then show "within d e \<or> d = e @ slash # n"
  proof (cases "length d \<le> length e")
    case True
    with r(1) obtain us where "e = d @ us" "r = us @ slash # n"
      by (auto simp: append_eq_append_conv2)
    with r(2) show ?thesis by (cases us) (auto simp: within_iff)
  next
    case False
    with r(1) obtain us where us: "d = e @ us" "us @ r = slash # n"
      by (auto simp: append_eq_append_conv2)
    with False have "set r \<subseteq> set n" by (cases us) auto
    with n r(2) have "r = []" by (cases r) auto
    with r(1) show ?thesis by simp
  qed
next
  assume "within d e \<or> d = e @ slash # n"
  moreover have "within e (e @ slash # n)" by (simp add: within_iff)
  ultimately show "within d (e @ slash # n)" by (auto intro: within_trans)
qed

lemma inside_entry:
  "slash \<notin> set n \<Longrightarrow> n \<noteq> [] \<Longrightarrow> directly_inside d (e @ slash # n) \<longleftrightarrow> d = e"
  by (auto simp: directly_inside_iff append_eq_append_conv2 append_eq_Cons_conv Cons_eq_append_conv)

lemma directly_inside_irrefl [simp]: "\<not> directly_inside d d"
  by (auto simp: directly_inside_iff)

text \<open>Two paths told apart by their last segment, to separate patterns.\<close>

abbreviation entry_a :: "string \<Rightarrow> string" where "entry_a d \<equiv> d @ slash # ''a''"

abbreviation entry_b :: "string \<Rightarrow> string" where "entry_b d \<equiv> d @ slash # ''b''"

lemma entries_granted:
  "shape_grants (Entries d) (entry_a d)" "shape_grants (Entries d) (entry_b d)"
  "shape_grants (Subtree d) d" "shape_grants (Subtree d) (entry_a d)"
  by (auto simp: directly_inside_iff within_iff)

lemma glob_covers_complete:
  assumes sup: "star \<notin> set (pattern_body c)" and sub: "granted c \<subseteq> granted p"
  shows "glob_covers p c"
proof -
  have imp: "shape_grants (shape c) x \<Longrightarrow> shape_grants (shape p) x" for x
    using sub by (auto simp: granted_shape)
  show ?thesis
  proof (cases c rule: shape_cases)
    case all
    with imp[of "[]"] imp[of "''a''"] show ?thesis
      by (cases p rule: shape_cases) (auto simp: glob_covers_shape within_iff directly_inside_iff)
  next
    case (sub e)
    with imp[of e] imp[of "entry_a e"] entries_granted[of e] show ?thesis
      by (cases p rule: shape_cases) (auto simp: glob_covers_shape inside_entry)
  next
    case (ent e)
    with imp[of "entry_a e"] imp[of "entry_b e"] entries_granted[of e] show ?thesis
      by (cases p rule: shape_cases) (auto simp: glob_covers_shape inside_entry within_entry)
  next
    case ex
    with imp[of c] sup show ?thesis
      by (cases p rule: shape_cases) (auto simp: glob_covers_shape)
  qed
qed

section \<open>Intersection is intersection\<close>

lemma shape_exact: "star \<notin> set p \<Longrightarrow> shape p = Exact p"
  by (cases p rule: shape_cases) auto

lemma within_linear: "within d x \<Longrightarrow> within e x \<Longrightarrow> within d e \<or> within e d"
  by (auto simp: within_iff append_eq_append_conv2 hd_append split: if_splits)

lemma shared_entry_Some:
  "shared_entry a b = Some c \<longleftrightarrow> (\<exists>d. a = d @ ''/*'' \<and> b = c @ ''/**'' \<and> directly_inside d c)"
  by (auto simp: shared_entry_def bind_eq_Some_conv str_simps)

lemma shared_entry_granted:
  assumes c: "shared_entry a b = Some c" and sup: "star \<notin> set c" and nc: "\<not> glob_covers b a"
  shows "granted a \<inter> granted b = granted c"
proof -
  obtain d where d: "a = d @ ''/*''" "b = c @ ''/**''" "directly_inside d c"
    using c by (auto simp: shared_entry_Some)
  then obtain n where n: "c = d @ slash # n" "n \<noteq> []" "slash \<notin> set n"
    by (auto simp: directly_inside_iff)
  have sa: "shape a = Entries d" "pattern_body a = d" and sb: "shape b = Subtree c"
    using d n by (auto simp: shape_def pattern_body_def strip_suffix_def suffix_def)
  have "\<not> within c d" using nc sa sb by (simp add: glob_covers_shape)
  then show ?thesis
    using sa sb shape_exact[OF sup] n
    by (auto simp: granted_shape directly_inside_iff within_entry)
qed

lemma no_shared_entry_disjoint:
  assumes sup: "star \<notin> set (pattern_body a)" "star \<notin> set (pattern_body b)"
    and nc: "\<not> glob_covers b a" "\<not> glob_covers a b"
    and none: "shared_entry a b = None" "shared_entry b a = None"
  shows "granted a \<inter> granted b = {}"
proof -
  have "False" if x: "shape_grants (shape a) x" "shape_grants (shape b) x" for x
  proof (cases a rule: shape_cases)
    case all
    with nc show False by (simp add: glob_covers_shape)
  next
    case (sub d)
    with nc none x within_linear[of d x] show False
      by (cases b rule: shape_cases)
        (auto simp: glob_covers_shape directly_inside_iff within_entry shared_entry_def)
  next
    case (ent d)
    with nc none x sup show False
      by (cases b rule: shape_cases)
        (auto simp: glob_covers_shape directly_inside_iff within_entry shared_entry_def
          append_eq_append_conv2 append_eq_Cons_conv Cons_eq_append_conv)
  next
    case ex
    with nc x sup show False
      by (cases b rule: shape_cases) (auto simp: glob_covers_shape)
  qed
  then show ?thesis by (auto simp: granted_shape)
qed

section \<open>The contract of the module\<close>

lemma is_supportedD: "is_supported p \<Longrightarrow> star \<notin> set (pattern_body p)"
  by (simp add: is_supported_def contains_char_def)

lemma shared_entry_supported:
  "shared_entry a b = Some c \<Longrightarrow> is_supported a \<Longrightarrow> is_supported b \<Longrightarrow> is_supported c \<and> star \<notin> set c"
proof -
  assume c: "shared_entry a b = Some c" and sup: "is_supported a" "is_supported b"
  then obtain d where d: "b = c @ ''/**''" "directly_inside d c"
    by (auto simp: shared_entry_Some)
  then have "pattern_body b = c" by (simp add: pattern_body_def)
  with sup(2) have nostar: "star \<notin> set c" by (auto dest: is_supportedD)
  have "c \<noteq> []" using d by (auto simp: directly_inside_iff)
  with sup(2) d have "starts_with c ''/''"
    by (cases c) (auto simp: is_supported_def starts_with_def)
  moreover have "pattern_body c = c"
    using nostar by (cases c rule: shape_cases) auto
  ultimately show ?thesis using nostar by (simp add: is_supported_def contains_char_def)
qed



lemma glob_intersect_sem:
  assumes "is_supported a" and "is_supported b"
  shows "case glob_intersect a b of
           None \<Rightarrow> granted a \<inter> granted b = {}
         | Some c \<Rightarrow> is_supported c \<and> granted c = granted a \<inter> granted b"
proof -
  note nostar = is_supportedD[OF assms(1)] is_supportedD[OF assms(2)]
  consider (ba) "glob_covers b a" | (ab) "\<not> glob_covers b a" "glob_covers a b"
    | (sh) c where "\<not> glob_covers b a" "\<not> glob_covers a b" "shared_entry a b = Some c"
    | (hs) c where "\<not> glob_covers b a" "\<not> glob_covers a b" "shared_entry a b = None" "shared_entry b a = Some c"
    | (none) "\<not> glob_covers b a" "\<not> glob_covers a b" "shared_entry a b = None" "shared_entry b a = None"
    by (metis option.exhaust)
  then show ?thesis
  proof cases
    case ba
    then show ?thesis using assms glob_covers_sound[OF ba] by (auto simp: glob_intersect_def)
  next
    case ab
    then show ?thesis using assms glob_covers_sound[OF ab(2)] by (auto simp: glob_intersect_def)
  next
    case sh
    then show ?thesis
      using shared_entry_granted[OF sh(3) _ sh(1)] shared_entry_supported[OF sh(3) assms]
      by (simp add: glob_intersect_def)
  next
    case hs
    then show ?thesis
      using shared_entry_granted[OF hs(4) _ hs(2)] shared_entry_supported[OF hs(4) assms(2,1)]
      by (simp add: glob_intersect_def Int_commute)
  next
    case none
    then show ?thesis using no_shared_entry_disjoint[OF nostar none] by (simp add: glob_intersect_def)
  qed
qed

text \<open>C10: The intersection of two supported patterns is exact: when \<open>intersect\<close> returns a pattern
  it is supported again and grants exactly the paths both grant, and when it returns nothing the
  two patterns share no path.\<close>

theorem glob_intersect_exact:
  assumes "is_supported a" and "is_supported b"
  shows "case glob_intersect a b of
           None \<Rightarrow> granted a \<inter> granted b = {}
         | Some c \<Rightarrow> is_supported c \<and> granted c = granted a \<inter> granted b"
  by (rule glob_intersect_sem[OF assms])

theorem glob_intersect_exact_witness:
  "granted ''/out/report'' = granted ''/out/*'' \<inter> granted ''/out/report/**'' \<and>
   granted ''/out/*'' \<inter> granted ''/notes/**'' = {}"
proof -
  have "is_supported ''/out/*''" "is_supported ''/out/report/**''" "is_supported ''/notes/**''"
    "glob_intersect ''/out/*'' ''/out/report/**'' = Some ''/out/report''"
    "glob_intersect ''/out/*'' ''/notes/**'' = None"
    by code_simp+
  then show ?thesis
    using glob_intersect_exact[of "''/out/*''" "''/out/report/**''"]
      glob_intersect_exact[of "''/out/*''" "''/notes/**''"] by simp
qed

end
