(* ===== verification/Mcp_Glob.thy ===== *)
theory Mcp_Glob
  imports Sim_Prelude
begin

text \<open>
  The pattern matcher of MCP tool capabilities (\<^verbatim>\<open>simulacra-mcp/src/domain/capability.rs\<close>).
  \<open>glob_match\<close> is the code's single left-to-right pass over the star-separated parts; \<open>glob_ref\<close>
  is the backtracking reference semantics in which a star stands for any byte sequence.
\<close>

section \<open>The matcher\<close>

text \<open>\<open>str::find\<close>: the first index at which the needle occurs.\<close>

fun find_sub :: "string \<Rightarrow> string \<Rightarrow> nat option" where
  "find_sub s p =
     (if prefix p s then Some 0
      else case s of [] \<Rightarrow> None | _ # s' \<Rightarrow> map_option Suc (find_sub s' p))"

declare find_sub.simps [simp del]

fun glob_loop :: "string \<Rightarrow> nat \<Rightarrow> nat \<Rightarrow> nat \<Rightarrow> string list \<Rightarrow> bool" where
  "glob_loop v n i pos [] = True"
| "glob_loop v n i pos (part # parts) =
     (if part = [] then glob_loop v n (Suc i) pos parts
      else if i = 0 then
        (if \<not> starts_with v part then False else glob_loop v n (Suc i) (length part) parts)
      else if i = n - 1 then
        (if \<not> ends_with (drop pos v) part then False else glob_loop v n (Suc i) (length v) parts)
      else (case find_sub (drop pos v) part of
              Some idx \<Rightarrow> glob_loop v n (Suc i) (pos + idx + length part) parts
            | None \<Rightarrow> False))"

definition glob_match :: "string \<Rightarrow> string \<Rightarrow> bool" where
  "glob_match pattern v =
     (let parts = split_on star pattern in
      if length parts = 1 then pattern = v
      else glob_loop v (length parts) 0 0 parts)"

section \<open>Reference semantics\<close>

fun glob_ref :: "string \<Rightarrow> string \<Rightarrow> bool" where
  "glob_ref [] v \<longleftrightarrow> v = []"
| "glob_ref (c # p) v \<longleftrightarrow>
     (if c = star then list_ex (glob_ref p) (suffixes v)
      else (case v of [] \<Rightarrow> False | x # v' \<Rightarrow> x = c \<and> glob_ref p v'))"

lemma find_sub_None: "find_sub s p = None \<Longrightarrow> s \<noteq> a @ p @ b"
proof (induction s p arbitrary: a rule: find_sub.induct)
  case (1 s p)
  show ?case
  proof
    assume s: "s = a @ p @ b"
    have np: "\<not> prefix p s" using 1(2) by (subst (asm) find_sub.simps) (auto split: if_splits)
    then obtain x s' where xs: "s = x # s'" "a \<noteq> []"
      using s by (cases s; cases a) auto
    with 1(2) np have "find_sub s' p = None"
      by (subst (asm) find_sub.simps) auto
    with 1(1)[OF np xs(1), of "tl a"] xs s show False by (cases a) auto
  qed
qed

lemma find_sub_Some:
  "find_sub s p = Some i \<Longrightarrow>
   (\<exists>a b. s = a @ p @ b \<and> length a = i) \<and> (\<forall>a b. s = a @ p @ b \<longrightarrow> i \<le> length a)"
proof (induction s p arbitrary: i rule: find_sub.induct)
  case (1 s p)
  show ?case
  proof (cases "prefix p s")
    case True
    with 1(2) have "i = 0" by (subst (asm) find_sub.simps) auto
    with True show ?thesis by (auto simp: prefix_def)
  next
    case False
    with 1(2) obtain x s' j where xs: "s = x # s'" "find_sub s' p = Some j" "i = Suc j"
      by (subst (asm) find_sub.simps) (auto split: list.splits)
    note IH = 1(1)[OF False xs(1,2)]
    have "i \<le> length a" if "s = a @ p @ b" for a b
      using that False IH xs by (cases a) (auto simp: prefix_def)
    moreover obtain a b where "s' = a @ p @ b" "length a = j" using IH by blast
    then have "s = (x # a) @ p @ b" "length (x # a) = i" using xs by auto
    ultimately show ?thesis by blast
  qed
qed

section \<open>Parts behind a star\<close>

fun star_match :: "string list \<Rightarrow> string \<Rightarrow> bool" where
  "star_match [] v \<longleftrightarrow> True"
| "star_match [p] v \<longleftrightarrow> suffix p v"
| "star_match (p # q # ps) v \<longleftrightarrow> (\<exists>a b. v = a @ p @ b \<and> star_match (q # ps) b)"

lemma star_match_mono: "star_match ps v \<Longrightarrow> star_match ps (u @ v)"
proof (induction ps v rule: star_match.induct)
  case (3 p q ps v)
  then obtain a b where "v = a @ p @ b" "star_match (q # ps) b" by auto
  then show ?case by simp (metis append.assoc)
qed (auto simp: suffix_def)

lemma star_match_Nil_part: "ps \<noteq> [] \<Longrightarrow> star_match ([] # ps) v \<longleftrightarrow> star_match ps v"
  by (cases ps) (auto intro: star_match_mono exI[of _ "[]"])

lemma glob_ref_lit:
  "star \<notin> set l \<Longrightarrow> glob_ref (l @ p) v \<longleftrightarrow> (\<exists>b. v = l @ b \<and> glob_ref p b)"
  by (induction l arbitrary: v) (auto split: list.splits)

lemma glob_ref_star_unfold: "glob_ref (star # p) v \<longleftrightarrow> (\<exists>a c. v = a @ c \<and> glob_ref p c)"
proof -
  have "glob_ref (star # p) v \<longleftrightarrow> (\<exists>c. suffix c v \<and> glob_ref p c)"
    by (auto simp: list_ex_iff)
  then show ?thesis unfolding suffix_def by metis
qed

lemma glob_ref_star:
  "ps \<noteq> [] \<Longrightarrow> \<forall>p \<in> set ps. star \<notin> set p \<Longrightarrow>
     glob_ref (star # join_with star ps) v \<longleftrightarrow> star_match ps v"
proof (induction ps v rule: star_match.induct)
  case (2 p v)
  then show ?case
    using glob_ref_lit[of p "[]"] by (auto simp: list_ex_iff suffix_def)
next
  case (3 p q ps v)
  have "glob_ref (star # join_with star (p # q # ps)) v \<longleftrightarrow>
      (\<exists>a c. v = a @ c \<and> glob_ref (p @ star # join_with star (q # ps)) c)"
    by (simp only: join_with.simps glob_ref_star_unfold[of "p @ _"])
  also have "\<dots> \<longleftrightarrow> (\<exists>a b. v = a @ p @ b \<and> glob_ref (star # join_with star (q # ps)) b)"
  proof -
    have "star \<notin> set p" using 3(3) by simp
    then show ?thesis using glob_ref_lit[of p "star # join_with star (q # ps)"] by metis
  qed
  also have "\<dots> \<longleftrightarrow> star_match (p # q # ps) v"
    using 3 by (simp only: star_match.simps list.set ball_simps) blast
  finally show ?case .
qed simp

text \<open>From the second part on, the loop decides the star-separated match of the rest: taking the
  leftmost occurrence loses nothing, because the star in front of the next part absorbs more.\<close>

lemma glob_loop_star:
  "0 < i \<Longrightarrow> i + length parts = n \<Longrightarrow> parts \<noteq> [] \<Longrightarrow> pos \<le> length v \<Longrightarrow>
     glob_loop v n i pos parts \<longleftrightarrow> star_match parts (drop pos v)"
proof (induction v n i pos parts rule: glob_loop.induct)
  case (2 v n i pos part parts)
  show ?case
  proof (cases "parts = []")
    case True
    with 2(5,6) show ?thesis by (auto simp: ends_with_def)
  next
    case False
    then have mid: "i \<noteq> n - 1" using 2(5,6) by (cases parts) auto
    show ?thesis
    proof (cases "part = []")
      case True
      with 2 False show ?thesis by (simp add: star_match_Nil_part)
    next
      case ne: False
      obtain q ps where q: "parts = q # ps" using False by (cases parts) auto
      show ?thesis
      proof (cases "find_sub (drop pos v) part")
        case None
        with find_sub_None[OF None] ne mid 2(5) q show ?thesis by auto
      next
        case (Some idx)
        obtain a0 b0 where f: "drop pos v = a0 @ part @ b0" "length a0 = idx"
          using find_sub_Some[OF Some] by blast
        have least: "idx \<le> length a" if "drop pos v = a @ part @ b" for a b
          using find_sub_Some[OF Some] that by blast
        have b0: "drop (pos + idx + length part) v = b0"
          using arg_cong[OF f(1), of "drop (idx + length part)"] f(2) by (simp add: ac_simps)
        have "pos + idx + length part \<le> length v"
          using arg_cong[OF f(1), of length] f(2) 2(8) by simp
        then have IH: "glob_loop v n (Suc i) (pos + idx + length part) parts \<longleftrightarrow> star_match parts b0"
          using 2(4)[OF ne _ mid Some] 2(5,6) False b0 by simp
        have "star_match parts b0" if ab: "drop pos v = a @ part @ b" "star_match parts b" for a b
        proof -
          have "length b \<le> length b0"
            using least[OF ab(1)] arg_cong[OF ab(1), of length] arg_cong[OF f(1), of length] f(2) by simp
          moreover have "suffix b (drop pos v)" "suffix b0 (drop pos v)"
            using ab(1) f(1) by (metis append.assoc suffixI)+
          ultimately have "suffix b b0"
            by (meson suffix_length_suffix)
          with ab(2) show ?thesis by (auto simp: suffix_def intro: star_match_mono)
        qed
        then have "star_match (part # parts) (drop pos v) \<longleftrightarrow> star_match parts b0"
          unfolding q star_match.simps using f(1) by blast
        with IH show ?thesis
          using ne mid Some 2(5) by simp
      qed
    qed
  qed
qed simp

lemma glob_loop_first:
  assumes "parts \<noteq> []"
  shows "glob_loop v (Suc (length parts)) 0 0 (p # parts) \<longleftrightarrow> (\<exists>b. v = p @ b \<and> star_match parts b)"
  using assms glob_loop_star[of "Suc 0" parts "Suc (length parts)" "length p" v]
    glob_loop_star[of "Suc 0" parts "Suc (length parts)" 0 v]
  by (auto simp: starts_with_def prefix_def)


end
