(* ===== verification/Capability.thy ===== *)
theory Capability
  imports Path_Glob Memory_Path Mcp_Glob
begin

text \<open>
  Capability tokens (\<^verbatim>\<open>simulacra-types/src/capability.rs\<close>): the call-site checks, the subset test
  used when a child agent is spawned, and the intersection that attenuates a token.  The abstract
  specification is the \<^emph>\<open>authority\<close> of a token: the set of requests its checks admit.  Attenuation
  is correct when it never enlarges that set.
\<close>

section \<open>Tokens and denials\<close>

record capability_token =
  network :: "string list"
  mcp_tools :: "string list"
  shell :: bool
  javascript :: bool
  python :: bool
  paths_write :: "string list"
  paths_read :: "string list"
  spawn_placements :: "string list"
  skill_patterns :: "string list"
  memory :: memory_capability

record capability_denied =
  denied_operation :: string
  denied_reason :: string

definition DENY_ALL_SKILLS_PATTERN :: string where
  "DENY_ALL_SKILLS_PATTERN = [CHR 0x00]"

section \<open>Checks\<close>

definition path_matches :: "string list \<Rightarrow> string \<Rightarrow> bool" where
  "path_matches patterns path = list_ex (\<lambda>p. glob_matches p path) patterns"

definition check_memory_path_read :: "memory_capability \<Rightarrow> string \<Rightarrow> capability_denied + unit" where
  "check_memory_path_read m path =
     (case memory_path_parse path of
        Inl e \<Rightarrow> Err \<lparr>denied_operation = ''read_file'',
                    denied_reason = ''invalid memory path '' @ [CHR 0x27] @ path @ [CHR 0x27] @ '': ''
                      @ show_memory_path_error e\<rparr>
      | Inr parsed \<Rightarrow>
          if can_read m parsed then Ok ()
          else Err \<lparr>denied_operation = ''read_file'',
                    denied_reason = ''memory read denied for '' @ path
                      @ '': not in any MemoryCapability.search_scopes''\<rparr>)"

definition check_memory_path_write :: "memory_capability \<Rightarrow> string \<Rightarrow> capability_denied + unit" where
  "check_memory_path_write m path =
     (case memory_path_parse path of
        Inl e \<Rightarrow> Err \<lparr>denied_operation = ''write_file'',
                    denied_reason = ''invalid memory path '' @ [CHR 0x27] @ path @ [CHR 0x27] @ '': ''
                      @ show_memory_path_error e\<rparr>
      | Inr parsed \<Rightarrow>
          if is_mnt parsed
          then Err \<lparr>denied_operation = ''write_file'',
                    denied_reason = ''memory write denied for '' @ path @ '': /mnt is admin-ingested only''\<rparr>
          else if can_write m parsed then Ok ()
          else Err \<lparr>denied_operation = ''write_file'',
                    denied_reason = ''memory write denied for '' @ path
                      @ '': not in any MemoryCapability.write_scopes''\<rparr>)"

definition check_shell :: "capability_token \<Rightarrow> capability_denied + unit" where
  "check_shell t = (if shell t then Ok ()
     else Err \<lparr>denied_operation = ''shell'', denied_reason = ''shell capability not granted''\<rparr>)"

definition check_javascript :: "capability_token \<Rightarrow> capability_denied + unit" where
  "check_javascript t = (if javascript t then Ok ()
     else Err \<lparr>denied_operation = ''javascript'', denied_reason = ''javascript capability not granted''\<rparr>)"

definition check_python :: "capability_token \<Rightarrow> capability_denied + unit" where
  "check_python t = (if python t then Ok ()
     else Err \<lparr>denied_operation = ''python'', denied_reason = ''python capability not granted''\<rparr>)"

definition check_path_read :: "capability_token \<Rightarrow> string \<Rightarrow> capability_denied + unit" where
  "check_path_read t path0 =
     (let path = normalize_path path0 in
      if is_memory_path_str path then check_memory_path_read (memory t) path
      else if path_matches (paths_read t) path then Ok ()
      else Err \<lparr>denied_operation = ''read_file'', denied_reason = ''read access denied for '' @ path\<rparr>)"

definition check_path_write :: "capability_token \<Rightarrow> string \<Rightarrow> capability_denied + unit" where
  "check_path_write t path0 =
     (let path = normalize_path path0 in
      if is_memory_path_str path then check_memory_path_write (memory t) path
      else if path_matches (paths_write t) path then Ok ()
      else Err \<lparr>denied_operation = ''write_file'', denied_reason = ''write access denied for '' @ path\<rparr>)"

text \<open>One iteration of the \<open>check_skill\<close> loop: does \<open>pattern\<close> admit \<open>target\<close>?\<close>

definition skill_pattern_admits :: "string \<Rightarrow> string \<Rightarrow> bool" where
  "skill_pattern_admits pattern target \<longleftrightarrow>
     pattern = ''*'' \<or> pattern = ''skill:*'' \<or> pattern = target \<or>
     (case strip_suffix pattern ''*'' of Some pre \<Rightarrow> starts_with target pre | None \<Rightarrow> False)"

definition check_skill :: "capability_token \<Rightarrow> string \<Rightarrow> capability_denied + unit" where
  "check_skill t skill_name =
     (if skill_patterns t = [] then Ok ()
      else let target = ''skill:'' @ skill_name in
        if list_ex (\<lambda>pattern. skill_pattern_admits pattern target) (skill_patterns t) then Ok ()
        else Err \<lparr>denied_operation = ''skill:'' @ skill_name,
                  denied_reason = ''skill '' @ debug_str skill_name @ '' not allowed by capability token''\<rparr>)"

definition net_pat :: "string \<Rightarrow> string" where
  "net_pat p = unwrap_or (strip_prefix p ''net:'') p"

text \<open>One iteration of the \<open>check_network\<close> loop.\<close>

definition net_admits :: "string \<Rightarrow> string \<Rightarrow> bool" where
  "net_admits pattern host \<longleftrightarrow>
     pattern = ''*'' \<or>
     (let pat = net_pat pattern in
        pat = host \<or>
        (case strip_prefix pat ''*.'' of
           None \<Rightarrow> False
         | Some dot_suffix \<Rightarrow> (case strip_suffix host (''.'' @ dot_suffix) of
             None \<Rightarrow> False
           | Some pre \<Rightarrow> \<not> contains_char pre (CHR ''.''))))"

definition check_network :: "capability_token \<Rightarrow> string \<Rightarrow> capability_denied + unit" where
  "check_network t host =
     (if list_ex (\<lambda>pattern. net_admits pattern host) (network t) then Ok ()
      else Err \<lparr>denied_operation = ''network:'' @ host,
                denied_reason = ''no network permission for '' @ host\<rparr>)"

section \<open>Subset test\<close>

definition path_pattern_covered_by :: "string \<Rightarrow> string list \<Rightarrow> bool" where
  "path_pattern_covered_by child parents = list_ex (\<lambda>p. glob_covers p child) parents"

definition skill_pattern_covers :: "string \<Rightarrow> string \<Rightarrow> bool" where
  "skill_pattern_covers parent child =
     (if child = DENY_ALL_SKILLS_PATTERN then True
      else if parent = DENY_ALL_SKILLS_PATTERN then False
      else if parent = ''*'' \<or> parent = ''skill:*'' \<or> parent = child then True
      else case strip_suffix parent ''*'' of
             Some pre \<Rightarrow> starts_with child pre
           | None \<Rightarrow> False)"

definition network_perm_covered_by :: "string \<Rightarrow> string \<Rightarrow> bool" where
  "network_perm_covered_by child parent =
     (let child_pat = net_pat child; parent_pat = net_pat parent in
      if parent_pat = ''*'' then True
      else if parent_pat = child_pat then True
      else if starts_with parent_pat ''*.''
      then (case strip_suffix child_pat (drop 1 parent_pat) of
              Some pre \<Rightarrow> \<not> contains_char pre (CHR ''.'') \<and> \<not> starts_with pre ''*''
            | None \<Rightarrow> False)
      else False)"

definition is_subset_of :: "capability_token \<Rightarrow> capability_token \<Rightarrow> bool" where
  "is_subset_of self parent =
     (if shell self \<and> \<not> shell parent then False
      else if javascript self \<and> \<not> javascript parent then False
      else if python self \<and> \<not> python parent then False
      else if \<not> list_all (\<lambda>c. list_ex (network_perm_covered_by c) (network parent)) (network self) then False
      else if \<not> list_all (\<lambda>c. c \<in> set (spawn_placements parent)) (spawn_placements self) then False
      else if \<not> list_all (\<lambda>c. c \<in> set (mcp_tools parent)) (mcp_tools self) then False
      else if \<not> list_all (\<lambda>c. path_pattern_covered_by c (paths_write parent)) (paths_write self) then False
      else if \<not> list_all (\<lambda>c. path_pattern_covered_by c (paths_read parent)) (paths_read self) then False
      else if skill_patterns self = [] \<and> skill_patterns parent \<noteq> [] then False
      else if \<not> list_all (\<lambda>c. c = DENY_ALL_SKILLS_PATTERN \<or>
                  list_ex (\<lambda>p. skill_pattern_covers p c) (skill_patterns parent)) (skill_patterns self) then False
      else if enabled (memory self) \<and> \<not> enabled (memory parent) then False
      else if \<not> list_all (\<lambda>c. list_ex (starts_with_prefix c) (search_scopes (memory parent)))
                  (search_scopes (memory self)) then False
      else if \<not> list_all (\<lambda>c. list_ex (starts_with_prefix c) (write_scopes (memory parent)))
                  (write_scopes (memory self)) then False
      else True)"

section \<open>Intersection\<close>

text \<open>\<open>Vec::push\<close> behind a \<open>contains\<close> test.\<close>

definition push_new :: "'a \<Rightarrow> 'a list \<Rightarrow> 'a list" where
  "push_new x out = (if x \<in> set out then out else out @ [x])"

definition push_new_opt :: "'a option \<Rightarrow> 'a list \<Rightarrow> 'a list" where
  "push_new_opt x out = (case x of None \<Rightarrow> out | Some y \<Rightarrow> push_new y out)"

definition intersect_path_patterns :: "string list \<Rightarrow> string list \<Rightarrow> string list" where
  "intersect_path_patterns a b =
     fold (\<lambda>ap. fold (\<lambda>bp. push_new_opt (glob_intersect ap bp)) b) a []"

definition narrower_skill :: "string \<Rightarrow> string \<Rightarrow> string option" where
  "narrower_skill left right =
     (if skill_pattern_covers left right then Some right
      else if skill_pattern_covers right left then Some left
      else None)"

definition intersect_skill_patterns :: "string list \<Rightarrow> string list \<Rightarrow> string list" where
  "intersect_skill_patterns a b =
     (if a = [] then b
      else if b = [] then a
      else if list_ex (\<lambda>p. p = DENY_ALL_SKILLS_PATTERN) a \<or> list_ex (\<lambda>p. p = DENY_ALL_SKILLS_PATTERN) b
      then [DENY_ALL_SKILLS_PATTERN]
      else let out = fold (\<lambda>left. fold (\<lambda>right. push_new_opt (narrower_skill left right)) b) a []
           in if out = [] then [DENY_ALL_SKILLS_PATTERN] else out)"

definition intersect_network_perms :: "string list \<Rightarrow> string list \<Rightarrow> string list" where
  "intersect_network_perms a b =
     (let out = fold (\<lambda>ap out. if list_ex (network_perm_covered_by ap) b then push_new ap out else out) a []
      in fold (\<lambda>bp out. if list_ex (network_perm_covered_by bp) a then push_new bp out else out) b out)"

definition intersect_memory_scopes :: "string list \<Rightarrow> string list \<Rightarrow> string list" where
  "intersect_memory_scopes a b =
     (let out = fold (\<lambda>ap out. if list_ex (starts_with_prefix ap) b then push_new ap out else out) a []
      in fold (\<lambda>bp out. if list_ex (starts_with_prefix bp) a then push_new bp out else out) b out)"

definition token_intersect :: "capability_token \<Rightarrow> capability_token \<Rightarrow> capability_token" where
  "token_intersect self other =
     \<lparr>network = intersect_network_perms (network self) (network other),
      mcp_tools = filter (\<lambda>t. t \<in> set (mcp_tools other)) (mcp_tools self),
      shell = (shell self \<and> shell other),
      javascript = (javascript self \<and> javascript other),
      python = (python self \<and> python other),
      paths_write = intersect_path_patterns (paths_write self) (paths_write other),
      paths_read = intersect_path_patterns (paths_read self) (paths_read other),
      spawn_placements = filter (\<lambda>s. s \<in> set (spawn_placements other)) (spawn_placements self),
      skill_patterns = intersect_skill_patterns (skill_patterns self) (skill_patterns other),
      memory = \<lparr>enabled = (enabled (memory self) \<and> enabled (memory other)),
                search_scopes = intersect_memory_scopes (search_scopes (memory self)) (search_scopes (memory other)),
                write_scopes = intersect_memory_scopes (write_scopes (memory self)) (write_scopes (memory other))\<rparr>\<rparr>"

section \<open>Authority\<close>

text \<open>The requests the runtime puts to a token.  MCP tools are looked up with the glob matcher of
  the MCP manager, placements by membership.\<close>

datatype request =
    ReqShell | ReqJavascript | ReqPython
  | ReqRead string | ReqWrite string | ReqSkill string | ReqNetwork string
  | ReqMcp string | ReqSpawn string

fun admits :: "capability_token \<Rightarrow> request \<Rightarrow> bool" where
  "admits t ReqShell \<longleftrightarrow> is_ok (check_shell t)"
| "admits t ReqJavascript \<longleftrightarrow> is_ok (check_javascript t)"
| "admits t ReqPython \<longleftrightarrow> is_ok (check_python t)"
| "admits t (ReqRead p) \<longleftrightarrow> is_ok (check_path_read t p)"
| "admits t (ReqWrite p) \<longleftrightarrow> is_ok (check_path_write t p)"
| "admits t (ReqSkill n) \<longleftrightarrow> is_ok (check_skill t n)"
| "admits t (ReqNetwork h) \<longleftrightarrow> is_ok (check_network t h)"
| "admits t (ReqMcp v) \<longleftrightarrow> list_ex (\<lambda>p. glob_match p v) (mcp_tools t)"
| "admits t (ReqSpawn p) \<longleftrightarrow> p \<in> set (spawn_placements t)"

definition authority :: "capability_token \<Rightarrow> request set" where
  "authority t = {r. admits t r}"

text \<open>The patterns for which coverage and admission agree: not the prefixed bare star, which the
  coverage test reads as every host and the check as a host named star, and no skill glob ending
  in two stars, whose first star the check reads literally.\<close>

definition plain_patterns :: "capability_token \<Rightarrow> bool" where
  "plain_patterns t \<longleftrightarrow>
     ''net:*'' \<notin> set (network t) \<and> (\<forall>p \<in> set (skill_patterns t). \<not> suffix ''**'' p)"

subsection \<open>Network patterns\<close>

lemma net_admits_iff:
  "net_admits p h \<longleftrightarrow> p = ''*'' \<or> net_pat p = h \<or>
     (\<exists>d pre. net_pat p = ''*.'' @ d \<and> h = pre @ ''.'' @ d \<and> CHR ''.'' \<notin> set pre)"
  by (auto simp: net_admits_def Let_def contains_char_def str_simps split: option.splits)
    (auto simp: strip_prefix_def strip_suffix_def prefix_def suffix_def split: if_splits)

lemma net_covered_iff:
  "network_perm_covered_by c p \<longleftrightarrow> net_pat p = ''*'' \<or> net_pat p = net_pat c \<or>
     (\<exists>d pre. net_pat p = ''*.'' @ d \<and> net_pat c = pre @ ''.'' @ d \<and>
        CHR ''.'' \<notin> set pre \<and> \<not> prefix ''*'' pre)"
  by (auto simp: network_perm_covered_by_def Let_def contains_char_def starts_with_def str_simps
      split: option.splits)
    (auto simp: strip_suffix_def prefix_def suffix_def split: if_splits)

lemma net_pat_star: "net_pat p = ''*'' \<longleftrightarrow> p = ''*'' \<or> p = ''net:*''"
  by (auto simp: net_pat_def strip_prefix_def prefix_def split: if_splits)

lemma net_covered_sound:
  assumes "network_perm_covered_by c p" "p \<noteq> ''net:*''" "net_admits c h"
  shows "net_admits p h"
proof (cases "net_pat p = ''*''")
  case True
  with assms(2) show ?thesis by (simp add: net_pat_star net_admits_def)
next
  case False
  show ?thesis
  proof (cases "net_pat p = net_pat c")
    case True
    with False assms(3) show ?thesis by (auto simp: net_admits_iff net_pat_star)
  next
    case ne: False
    with False assms(1) obtain d pre where d: "net_pat p = ''*.'' @ d" "net_pat c = pre @ ''.'' @ d"
        "CHR ''.'' \<notin> set pre" "\<not> prefix ''*'' pre"
      by (auto simp: net_covered_iff)
    then have "net_pat c \<noteq> ''*''" and "\<not> prefix ''*.'' (net_pat c)"
      by (cases pre; auto)+
    with assms(3) have "h = net_pat c"
      by (auto simp: net_admits_iff net_pat_star)
    with d show ?thesis by (auto simp: net_admits_iff)
  qed
qed

subsection \<open>Skill patterns\<close>

lemma skill_covers_iff:
  "skill_pattern_covers p c \<longleftrightarrow> c = DENY_ALL_SKILLS_PATTERN \<or>
     (p \<noteq> DENY_ALL_SKILLS_PATTERN \<and>
      (p = ''*'' \<or> p = ''skill:*'' \<or> p = c \<or> (\<exists>pre. p = pre @ ''*'' \<and> prefix pre c)))"
  by (auto simp: skill_pattern_covers_def starts_with_def str_simps split: option.splits)

lemma skill_admits_iff:
  "skill_pattern_admits p t \<longleftrightarrow> p = ''*'' \<or> p = ''skill:*'' \<or> p = t \<or>
     (\<exists>pre. p = pre @ ''*'' \<and> prefix pre t)"
  by (auto simp: skill_pattern_admits_def starts_with_def str_simps split: option.splits)

lemma deny_all_admits [simp]: "\<not> skill_pattern_admits DENY_ALL_SKILLS_PATTERN (''skill:'' @ n)"
  by (auto simp: skill_admits_iff DENY_ALL_SKILLS_PATTERN_def append_eq_Cons_conv)

lemma skill_covers_sound:
  assumes "skill_pattern_covers p c" "\<not> suffix ''**'' p" "skill_pattern_admits c (''skill:'' @ n)"
  shows "skill_pattern_admits p (''skill:'' @ n)"
proof -
  have "c \<noteq> DENY_ALL_SKILLS_PATTERN" using assms(3) deny_all_admits by metis
  with assms(1) consider "p = ''*'' \<or> p = ''skill:*'' \<or> p = c"
    | pre where "p = pre @ ''*''" "prefix pre c"
    by (auto simp: skill_covers_iff)
  then show ?thesis
  proof cases
    case 1
    with assms(3) show ?thesis by (auto simp: skill_admits_iff)
  next
    case 2
    then have "\<not> suffix ''*'' pre" using assms(2) by (auto simp: suffix_def)
    then have shrink: "prefix pre cpre" if "prefix pre (cpre @ ''*'')" for cpre
      using that by (auto simp: prefix_snoc suffix_def)
    have "prefix pre (''skill:'' @ n)"
    proof -
      consider "c = ''*''" | "c = ''skill:*''" | "c = ''skill:'' @ n"
        | cpre where "c = cpre @ ''*''" "prefix cpre (''skill:'' @ n)"
        using assms(3) by (auto simp: skill_admits_iff)
      then show ?thesis
      proof cases
        case 1
        with 2 shrink[of "[]"] show ?thesis by simp
      next
        case c: 2
        with 2 shrink[of "''skill:''"] have "prefix pre ''skill:''" by simp
        then show ?thesis by (rule prefix_prefix)
      next
        case 3
        with 2 show ?thesis by simp
      next
        case 4
        with 2 shrink[of cpre] show ?thesis by (auto intro: prefix_order.trans)
      qed
    qed
    with 2 show ?thesis by (auto simp: skill_admits_iff)
  qed
qed

subsection \<open>Path and memory grants\<close>

lemma path_matches_iff: "path_matches ps x \<longleftrightarrow> (\<exists>p \<in> set ps. x \<in> granted p)"
  by (auto simp: path_matches_def granted_def list_ex_iff)

lemma check_path_read_ok:
  "is_ok (check_path_read t p) \<longleftrightarrow>
     (let q = normalize_path p in
      if is_memory_path_str q then \<exists>m. memory_path_parse q = Ok m \<and> can_read (memory t) m
      else path_matches (paths_read t) q)"
  by (auto simp: check_path_read_def check_memory_path_read_def Let_def split: sum.splits)

lemma check_path_write_ok:
  "is_ok (check_path_write t p) \<longleftrightarrow>
     (let q = normalize_path p in
      if is_memory_path_str q
      then \<exists>m. memory_path_parse q = Ok m \<and> \<not> is_mnt m \<and> can_write (memory t) m
      else path_matches (paths_write t) q)"
  by (auto simp: check_path_write_def check_memory_path_write_def Let_def split: sum.splits)

lemma covered_paths_sound:
  "list_all (\<lambda>c. path_pattern_covered_by c ps) cs \<Longrightarrow> path_matches cs x \<Longrightarrow> path_matches ps x"
  by (force simp: path_matches_iff path_pattern_covered_by_def list_all_iff list_ex_iff
      dest: glob_covers_sound)

lemma covered_scopes_sound:
  "list_all (\<lambda>c. list_ex (starts_with_prefix c) ps) cs \<Longrightarrow>
     list_ex (starts_with_prefix x) cs \<Longrightarrow> list_ex (starts_with_prefix x) ps"
  by (auto simp: list_all_iff list_ex_iff intro: starts_with_prefix_trans)

lemma check_skill_ok:
  "is_ok (check_skill t n) \<longleftrightarrow>
     skill_patterns t = [] \<or> (\<exists>p \<in> set (skill_patterns t). skill_pattern_admits p (''skill:'' @ n))"
  by (auto simp: check_skill_def Let_def list_ex_iff)

lemma check_network_ok: "is_ok (check_network t h) \<longleftrightarrow> (\<exists>p \<in> set (network t). net_admits p h)"
  by (auto simp: check_network_def list_ex_iff)

subsection \<open>Attenuation by the subset test\<close>

lemma subset_fields:
  assumes "is_subset_of c p"
  shows "shell c \<longrightarrow> shell p" "javascript c \<longrightarrow> javascript p" "python c \<longrightarrow> python p"
    "\<forall>x \<in> set (network c). \<exists>y \<in> set (network p). network_perm_covered_by x y"
    "set (spawn_placements c) \<subseteq> set (spawn_placements p)" "set (mcp_tools c) \<subseteq> set (mcp_tools p)"
    "list_all (\<lambda>x. path_pattern_covered_by x (paths_write p)) (paths_write c)"
    "list_all (\<lambda>x. path_pattern_covered_by x (paths_read p)) (paths_read c)"
    "skill_patterns c = [] \<longrightarrow> skill_patterns p = []"
    "\<forall>x \<in> set (skill_patterns c). x = DENY_ALL_SKILLS_PATTERN \<or>
       (\<exists>y \<in> set (skill_patterns p). skill_pattern_covers y x)"
    "enabled (memory c) \<longrightarrow> enabled (memory p)"
    "list_all (\<lambda>x. list_ex (starts_with_prefix x) (search_scopes (memory p))) (search_scopes (memory c))"
    "list_all (\<lambda>x. list_ex (starts_with_prefix x) (write_scopes (memory p))) (write_scopes (memory c))"
  using assms by (auto simp: is_subset_of_def list_all_iff list_ex_iff split: if_splits)

lemma subset_admits:
  assumes sub: "is_subset_of c p" and plain: "plain_patterns p" and adm: "admits c r"
  shows "admits p r"
proof (cases r)
  case (ReqRead x)
  with adm subset_fields(11)[OF sub] covered_scopes_sound[OF subset_fields(12)[OF sub]]
    covered_paths_sound[OF subset_fields(8)[OF sub]] show ?thesis
    by (auto simp: check_path_read_ok can_read_def Let_def split: if_splits)
next
  case (ReqWrite x)
  with adm subset_fields(11)[OF sub] covered_scopes_sound[OF subset_fields(13)[OF sub]]
    covered_paths_sound[OF subset_fields(7)[OF sub]] show ?thesis
    by (auto simp: check_path_write_ok can_write_def Let_def split: if_splits)
next
  case (ReqSkill n)
  show ?thesis
  proof (cases "skill_patterns c = []")
    case True
    with ReqSkill subset_fields(9)[OF sub] show ?thesis by (simp add: check_skill_ok)
  next
    case False
    with adm ReqSkill obtain x where x: "x \<in> set (skill_patterns c)" "skill_pattern_admits x (''skill:'' @ n)"
      by (auto simp: check_skill_ok)
    then have "x \<noteq> DENY_ALL_SKILLS_PATTERN" using deny_all_admits by metis
    with x subset_fields(10)[OF sub] obtain y where "y \<in> set (skill_patterns p)" "skill_pattern_covers y x"
      by blast
    moreover from this have "\<not> suffix ''**'' y" using plain by (simp add: plain_patterns_def)
    ultimately have "skill_pattern_admits y (''skill:'' @ n)"
      using x by (blast intro: skill_covers_sound)
    with \<open>y \<in> _\<close> ReqSkill show ?thesis by (auto simp: check_skill_ok)
  qed
next
  case (ReqNetwork h)
  then obtain x y where "net_admits x h" "y \<in> set (network p)" "network_perm_covered_by x y"
    using adm subset_fields(4)[OF sub] by (auto simp: check_network_ok)
  with plain have "net_admits y h" by (auto simp: plain_patterns_def intro: net_covered_sound)
  with \<open>y \<in> _\<close> ReqNetwork show ?thesis by (auto simp: check_network_ok)
qed (use adm subset_fields[OF sub] in
    \<open>auto simp: check_shell_def check_javascript_def check_python_def list_ex_iff split: if_splits\<close>)


definition no_memory :: memory_capability where
  "no_memory = \<lparr>enabled = False, search_scopes = [], write_scopes = []\<rparr>"

definition empty_token :: capability_token where
  "empty_token = \<lparr>network = [], mcp_tools = [], shell = False, javascript = False, python = False,
     paths_write = [], paths_read = [], spawn_placements = [], skill_patterns = [], memory = no_memory\<rparr>"

definition sample_parent :: capability_token where
  "sample_parent = empty_token\<lparr>network := [''*.github.com''], paths_read := [''/work/**''],
     skill_patterns := [''skill:code-*''], shell := True\<rparr>"

definition sample_child :: capability_token where
  "sample_child = empty_token\<lparr>network := [''net:api.github.com''], paths_read := [''/work/src/*''],
     skill_patterns := [''skill:code-review'']\<rparr>"


text \<open>The prefixed bare star breaks attenuation: a parent whose only network grant is
  \<^verbatim>\<open>net:*\<close> admits no ordinary host, yet the subset test accepts a child holding the bare star, which
  admits every host; likewise a skill grant ending in two stars admits almost nothing but covers the
  single-star glob that admits everything.\<close>

theorem subset_escalation:
  "is_subset_of (empty_token\<lparr>network := [''*'']\<rparr>) (empty_token\<lparr>network := [''net:*'']\<rparr>) \<and>
   is_ok (check_network (empty_token\<lparr>network := [''*'']\<rparr>) ''evil.example'') \<and>
   \<not> is_ok (check_network (empty_token\<lparr>network := [''net:*'']\<rparr>) ''evil.example'') \<and>
   is_subset_of (empty_token\<lparr>skill_patterns := [''skill:*'']\<rparr>)
     (empty_token\<lparr>skill_patterns := [''skill:**'']\<rparr>) \<and>
   is_ok (check_skill (empty_token\<lparr>skill_patterns := [''skill:*'']\<rparr>) ''deploy'') \<and>
   \<not> is_ok (check_skill (empty_token\<lparr>skill_patterns := [''skill:**'']\<rparr>) ''deploy'')"
  by code_simp

subsection \<open>Attenuation by intersection\<close>

lemma set_push_new [simp]: "set (push_new x out) = insert x (set out)"
  by (auto simp: push_new_def)

lemma set_push_new_opt: "set (push_new_opt x out) = set_option x \<union> set out"
  by (auto simp: push_new_opt_def split: option.splits)

lemma set_fold_push_opt: "set (fold (\<lambda>y. push_new_opt (f y)) ys out) = (\<Union>y \<in> set ys. set_option (f y)) \<union> set out"
  by (induction ys arbitrary: out) (auto simp: set_push_new_opt)

lemma set_fold2_push_opt:
  "set (fold (\<lambda>x. fold (\<lambda>y. push_new_opt (f x y)) ys) xs out) =
     (\<Union>x \<in> set xs. \<Union>y \<in> set ys. set_option (f x y)) \<union> set out"
  by (induction xs arbitrary: out) (auto simp: set_fold_push_opt)

lemma set_fold_push_if:
  "set (fold (\<lambda>x out. if P x then push_new x out else out) xs out) = {x \<in> set xs. P x} \<union> set out"
  by (induction xs arbitrary: out) auto

lemma set_intersect_paths:
  "set (intersect_path_patterns a b) = {c. \<exists>x \<in> set a. \<exists>y \<in> set b. glob_intersect x y = Some c}"
  by (auto simp: intersect_path_patterns_def set_fold2_push_opt)

lemma set_intersect_network:
  "set (intersect_network_perms a b) =
     {x \<in> set a. \<exists>y \<in> set b. network_perm_covered_by x y} \<union> {y \<in> set b. \<exists>x \<in> set a. network_perm_covered_by y x}"
  by (auto simp: intersect_network_perms_def Let_def set_fold_push_if list_ex_iff)

lemma set_intersect_scopes:
  "set (intersect_memory_scopes a b) =
     {x \<in> set a. \<exists>y \<in> set b. starts_with_prefix x y} \<union> {y \<in> set b. \<exists>x \<in> set a. starts_with_prefix y x}"
  by (auto simp: intersect_memory_scopes_def Let_def set_fold_push_if list_ex_iff)

text \<open>Paths: the intersection grants exactly what both lists grant.\<close>

lemma path_matches_intersect:
  assumes "list_all is_supported a" "list_all is_supported b"
  shows "path_matches (intersect_path_patterns a b) x \<longleftrightarrow> path_matches a x \<and> path_matches b x"
proof
  assume "path_matches (intersect_path_patterns a b) x"
  then obtain p q c where "p \<in> set a" "q \<in> set b" "glob_intersect p q = Some c" "x \<in> granted c"
    by (auto simp: path_matches_iff set_intersect_paths)
  moreover from this assms have "granted c = granted p \<inter> granted q"
    using glob_intersect_sem[of p q] by (auto simp: list_all_iff)
  ultimately show "path_matches a x \<and> path_matches b x" by (auto simp: path_matches_iff)
next
  assume "path_matches a x \<and> path_matches b x"
  then obtain p q where pq: "p \<in> set a" "q \<in> set b" "x \<in> granted p \<inter> granted q"
    by (auto simp: path_matches_iff)
  with assms glob_intersect_sem[of p q] obtain c where "glob_intersect p q = Some c" "x \<in> granted c"
    by (cases "glob_intersect p q") (auto simp: list_all_iff)
  with pq show "path_matches (intersect_path_patterns a b) x"
    by (auto simp: path_matches_iff set_intersect_paths)
qed

text \<open>Scopes: two scopes above the same canonical path are comparable, so the narrower one of
  them survives the intersection.\<close>

definition canonical_scopes :: "string list \<Rightarrow> bool" where
  "canonical_scopes ss \<longleftrightarrow> (\<forall>s \<in> set ss. memory_path_parse s = Ok s)"

lemma canonical_scope_normal: "memory_path_parse s = Ok s \<Longrightarrow> is_normal s"
  using memory_path_parse_normal(1)[of s s] by (simp add: is_normal_def)

lemma scopes_intersect:
  assumes "canonical_scopes a" "canonical_scopes b" "is_normal x"
  shows "list_ex (starts_with_prefix x) (intersect_memory_scopes a b) \<longleftrightarrow>
     list_ex (starts_with_prefix x) a \<and> list_ex (starts_with_prefix x) b"
proof
  assume "list_ex (starts_with_prefix x) (intersect_memory_scopes a b)"
  then show "list_ex (starts_with_prefix x) a \<and> list_ex (starts_with_prefix x) b"
    by (auto simp: list_ex_iff set_intersect_scopes intro: starts_with_prefix_trans)
next
  assume "list_ex (starts_with_prefix x) a \<and> list_ex (starts_with_prefix x) b"
  then obtain s t where st: "s \<in> set a" "t \<in> set b" "starts_with_prefix x s" "starts_with_prefix x t"
    by (auto simp: list_ex_iff)
  have "is_normal s" "is_normal t"
    using assms st by (auto simp: canonical_scopes_def intro: canonical_scope_normal)
  with assms(3) st have "starts_with_prefix s t \<or> starts_with_prefix t s"
    by (auto elim!: is_normalE simp: starts_with_prefix_abs) (metis prefix_same_cases)
  with st show "list_ex (starts_with_prefix x) (intersect_memory_scopes a b)"
    by (auto simp: list_ex_iff set_intersect_scopes)
qed

text \<open>Skills: the empty list is everything, the sentinel is nothing.\<close>

definition skills_admit :: "string list \<Rightarrow> string \<Rightarrow> bool" where
  "skills_admit ps n \<longleftrightarrow> ps = [] \<or> (\<exists>p \<in> set ps. skill_pattern_admits p (''skill:'' @ n))"

lemma skill_patterns_comparable:
  assumes "skill_pattern_admits p t" "skill_pattern_admits q t"
    "p \<noteq> DENY_ALL_SKILLS_PATTERN" "q \<noteq> DENY_ALL_SKILLS_PATTERN"
  shows "skill_pattern_covers p q \<or> skill_pattern_covers q p"
proof -
  have ext: "prefix x y \<Longrightarrow> prefix x (y @ z)" for x y z :: string by (rule prefix_prefix)
  consider "p = ''*'' \<or> p = ''skill:*''" | "q = ''*'' \<or> q = ''skill:*''"
    | "p = t" "q = t" | pre where "p = t" "q = pre @ ''*''" "prefix pre t"
    | pre where "q = t" "p = pre @ ''*''" "prefix pre t"
    | a b where "p = a @ ''*''" "q = b @ ''*''" "prefix a t" "prefix b t"
    using assms(1,2) by (auto simp: skill_admits_iff)
  then show ?thesis
  proof cases
    case (6 a b)
    then have "prefix a b \<or> prefix b a" by (meson prefix_same_cases)
    with 6 assms(3,4) show ?thesis by (auto simp: skill_covers_iff intro: ext)
  qed (use assms(3,4) in \<open>auto simp: skill_covers_iff\<close>)
qed

text \<open>The sentinel is only ever written as a list of its own.\<close>

definition sentinel_alone :: "string list \<Rightarrow> bool" where
  "sentinel_alone ps \<longleftrightarrow> (DENY_ALL_SKILLS_PATTERN \<in> set ps \<longrightarrow> ps = [DENY_ALL_SKILLS_PATTERN])"

lemma narrower_out_admits:
  assumes plain: "\<forall>p \<in> set a. \<not> suffix ''**'' p" "\<forall>p \<in> set b. \<not> suffix ''**'' p"
    and nd: "DENY_ALL_SKILLS_PATTERN \<notin> set a" "DENY_ALL_SKILLS_PATTERN \<notin> set b"
  shows "(\<exists>l \<in> set a. \<exists>r \<in> set b. \<exists>x. narrower_skill l r = Some x \<and> skill_pattern_admits x (''skill:'' @ n)) \<longleftrightarrow>
     (\<exists>l \<in> set a. skill_pattern_admits l (''skill:'' @ n)) \<and> (\<exists>r \<in> set b. skill_pattern_admits r (''skill:'' @ n))"
    (is "?out \<longleftrightarrow> ?both")
proof
  assume ?out
  then obtain x l r where lr: "l \<in> set a" "r \<in> set b" "narrower_skill l r = Some x"
      "skill_pattern_admits x (''skill:'' @ n)"
    by blast
  then have "(x = r \<and> skill_pattern_covers l r) \<or> (x = l \<and> skill_pattern_covers r l)"
    by (auto simp: narrower_skill_def split: if_splits)
  with lr plain show ?both using skill_covers_sound by metis
next
  assume ?both
  then obtain l r where lr: "l \<in> set a" "r \<in> set b" "skill_pattern_admits l (''skill:'' @ n)"
      "skill_pattern_admits r (''skill:'' @ n)"
    by blast
  then have "skill_pattern_covers l r \<or> skill_pattern_covers r l"
    using nd by (metis skill_patterns_comparable)
  then obtain x where "narrower_skill l r = Some x" "x = l \<or> x = r"
    unfolding narrower_skill_def by metis
  with lr show ?out by metis
qed

lemma skills_intersect:
  assumes plain: "\<forall>p \<in> set a. \<not> suffix ''**'' p" "\<forall>p \<in> set b. \<not> suffix ''**'' p"
    and sentinel: "sentinel_alone a" "sentinel_alone b"
  shows "skills_admit (intersect_skill_patterns a b) n \<longleftrightarrow> skills_admit a n \<and> skills_admit b n"
proof -
  let ?out = "fold (\<lambda>left. fold (\<lambda>right. push_new_opt (narrower_skill left right)) b) a []"
  have deny: "list_ex (\<lambda>p. p = DENY_ALL_SKILLS_PATTERN) xs \<longleftrightarrow> DENY_ALL_SKILLS_PATTERN \<in> set xs" for xs
    by (auto simp: list_ex_iff)
  have out: "set ?out = {x. \<exists>l \<in> set a. \<exists>r \<in> set b. narrower_skill l r = Some x}"
    by (auto simp: set_fold2_push_opt)
  consider (empty) "a = [] \<or> b = []"
    | (deny) "a \<noteq> []" "b \<noteq> []" "DENY_ALL_SKILLS_PATTERN \<in> set a \<or> DENY_ALL_SKILLS_PATTERN \<in> set b"
    | (plain) "a \<noteq> []" "b \<noteq> []" "DENY_ALL_SKILLS_PATTERN \<notin> set a" "DENY_ALL_SKILLS_PATTERN \<notin> set b"
    by blast
  then show ?thesis
  proof cases
    case empty
    then show ?thesis by (auto simp: skills_admit_def intersect_skill_patterns_def)
  next
    case deny
    with sentinel[unfolded sentinel_alone_def] have "\<not> (skills_admit a n \<and> skills_admit b n)"
      using deny_all_admits unfolding skills_admit_def by force
    moreover have "intersect_skill_patterns a b = [DENY_ALL_SKILLS_PATTERN]"
      using deny by (auto simp: intersect_skill_patterns_def list_ex_iff)
    ultimately show ?thesis using deny_all_admits unfolding skills_admit_def by force
  next
    case plain
    then have eq: "intersect_skill_patterns a b = (if ?out = [] then [DENY_ALL_SKILLS_PATTERN] else ?out)"
      by (simp add: intersect_skill_patterns_def deny)
    have "skills_admit (intersect_skill_patterns a b) n \<longleftrightarrow>
        (\<exists>x \<in> set ?out. skill_pattern_admits x (''skill:'' @ n))"
      using deny_all_admits unfolding eq skills_admit_def by force
    also have "\<dots> \<longleftrightarrow> skills_admit a n \<and> skills_admit b n"
      using narrower_out_admits[OF assms(1,2) plain(3,4)] plain(1,2)
      unfolding out skills_admit_def by blast
    finally show ?thesis .
  qed
qed

text \<open>Hosts: two patterns that admit the same host are comparable.\<close>

lemma first_dot_unique:
  assumes "p @ CHR ''.'' # d = q @ CHR ''.'' # e" "CHR ''.'' \<notin> set p" "CHR ''.'' \<notin> set q"
  shows "d = e"
proof -
  have "dropWhile (\<lambda>c. c \<noteq> CHR ''.'') (r @ CHR ''.'' # x) = CHR ''.'' # x" if "CHR ''.'' \<notin> set r" for r x
    using that by (induction r) auto
  from this[OF assms(2), of d] this[OF assms(3), of e] assms(1) show ?thesis by simp
qed

lemma net_patterns_comparable:
  assumes p: "net_admits p h" and q: "net_admits q h" and h: "\<not> prefix ''*'' h"
  shows "network_perm_covered_by p q \<or> network_perm_covered_by q p"
proof -
  have wild: "network_perm_covered_by x y"
    if "net_pat x = h" "net_pat y = ''*.'' @ d" "h = pre @ ''.'' @ d" "CHR ''.'' \<notin> set pre" for x y d pre
  proof -
    have "\<not> prefix ''*'' pre" using h that by (auto simp: prefix_def)
    with that show ?thesis by (auto simp: net_covered_iff)
  qed
  consider "p = ''*''" | "q = ''*''" | "net_pat p = h" "net_pat q = h"
    | d pre where "net_pat p = h" "net_pat q = ''*.'' @ d" "h = pre @ ''.'' @ d" "CHR ''.'' \<notin> set pre"
    | d pre where "net_pat q = h" "net_pat p = ''*.'' @ d" "h = pre @ ''.'' @ d" "CHR ''.'' \<notin> set pre"
    | d pre e suf where "net_pat p = ''*.'' @ d" "h = pre @ ''.'' @ d" "CHR ''.'' \<notin> set pre"
        "net_pat q = ''*.'' @ e" "h = suf @ ''.'' @ e" "CHR ''.'' \<notin> set suf"
    using p q unfolding net_admits_iff by blast
  then show ?thesis
  proof cases
    case (6 d pre e suf)
    then have "d = e" using first_dot_unique[of pre d suf e] by simp
    with 6 show ?thesis by (simp add: net_covered_iff)
  next
    case (4 d pre)
    then show ?thesis using wild[OF 4] by simp
  next
    case (5 d pre)
    then show ?thesis using wild[OF 5] by simp
  qed (simp_all add: net_covered_iff net_pat_star)
qed

lemma network_intersect:
  assumes "''net:*'' \<notin> set a" "''net:*'' \<notin> set b" "\<not> prefix ''*'' h"
  shows "(\<exists>p \<in> set (intersect_network_perms a b). net_admits p h) \<longleftrightarrow>
     (\<exists>p \<in> set a. net_admits p h) \<and> (\<exists>p \<in> set b. net_admits p h)"
proof
  assume "\<exists>p \<in> set (intersect_network_perms a b). net_admits p h"
  with assms(1,2) show "(\<exists>p \<in> set a. net_admits p h) \<and> (\<exists>p \<in> set b. net_admits p h)"
    by (auto simp: set_intersect_network) (metis net_covered_sound)+
next
  assume "(\<exists>p \<in> set a. net_admits p h) \<and> (\<exists>p \<in> set b. net_admits p h)"
  then show "\<exists>p \<in> set (intersect_network_perms a b). net_admits p h"
    using net_patterns_comparable[OF _ _ assms(3)] unfolding set_intersect_network by blast
qed

definition well_formed_token :: "capability_token \<Rightarrow> bool" where
  "well_formed_token t \<longleftrightarrow>
     plain_patterns t \<and> sentinel_alone (skill_patterns t) \<and>
     list_all is_supported (paths_read t) \<and> list_all is_supported (paths_write t) \<and>
     canonical_scopes (search_scopes (memory t)) \<and> canonical_scopes (write_scopes (memory t))"

fun exactly_intersected :: "request \<Rightarrow> bool" where
  "exactly_intersected (ReqMcp _) = False"
| "exactly_intersected (ReqNetwork h) = (\<not> prefix ''*'' h)"
| "exactly_intersected _ = True"

lemma check_skill_skills: "is_ok (check_skill t n) \<longleftrightarrow> skills_admit (skill_patterns t) n"
  by (simp add: check_skill_ok skills_admit_def)

lemma parsed_is_normal: "memory_path_parse q = Ok m \<Longrightarrow> is_normal m"
  by (drule memory_path_parse_normal(1)) simp

lemma intersect_admits:
  assumes wf: "well_formed_token a" "well_formed_token b" and r: "exactly_intersected r"
  shows "admits (token_intersect a b) r \<longleftrightarrow> admits a r \<and> admits b r"
proof (cases r)
  case (ReqRead x)
  let ?q = "normalize_path x"
  have paths: "path_matches (paths_read (token_intersect a b)) ?q \<longleftrightarrow>
      path_matches (paths_read a) ?q \<and> path_matches (paths_read b) ?q"
    using path_matches_intersect wf by (simp add: token_intersect_def well_formed_token_def)
  have mem: "can_read (memory (token_intersect a b)) m \<longleftrightarrow> can_read (memory a) m \<and> can_read (memory b) m"
    if "memory_path_parse ?q = Ok m" for m
    using scopes_intersect[OF _ _ parsed_is_normal[OF that]] wf
    by (auto simp: can_read_def token_intersect_def well_formed_token_def)
  show ?thesis
    using ReqRead paths mem by (auto simp: check_path_read_ok Let_def)
next
  case (ReqWrite x)
  let ?q = "normalize_path x"
  have paths: "path_matches (paths_write (token_intersect a b)) ?q \<longleftrightarrow>
      path_matches (paths_write a) ?q \<and> path_matches (paths_write b) ?q"
    using path_matches_intersect wf by (simp add: token_intersect_def well_formed_token_def)
  have mem: "can_write (memory (token_intersect a b)) m \<longleftrightarrow> can_write (memory a) m \<and> can_write (memory b) m"
    if "memory_path_parse ?q = Ok m" for m
    using scopes_intersect[OF _ _ parsed_is_normal[OF that]] wf
    by (auto simp: can_write_def token_intersect_def well_formed_token_def)
  show ?thesis
    using ReqWrite paths mem by (auto simp: check_path_write_ok Let_def)
next
  case (ReqSkill n)
  with wf show ?thesis
    using skills_intersect[of "skill_patterns a" "skill_patterns b" n]
    by (simp add: check_skill_skills token_intersect_def well_formed_token_def plain_patterns_def)
next
  case (ReqNetwork h)
  with wf r show ?thesis
    using network_intersect[of "network a" "network b" h]
    by (simp add: check_network_ok token_intersect_def well_formed_token_def plain_patterns_def)
qed (use r in \<open>auto simp: token_intersect_def check_shell_def check_javascript_def check_python_def\<close>)



text \<open>The two attenuation mechanisms disagree about unrestricted skills: intersecting a
  skill-restricted token with a parent that allows every skill yields a token strictly inside the
  parent's authority, which the subset test nevertheless rejects.\<close>

theorem intersect_rejected_by_subset:
  "authority (token_intersect (sample_child\<lparr>network := []\<rparr>) (sample_parent\<lparr>skill_patterns := []\<rparr>))
     \<subseteq> authority (sample_parent\<lparr>skill_patterns := []\<rparr>) \<and>
   \<not> is_subset_of (token_intersect (sample_child\<lparr>network := []\<rparr>) (sample_parent\<lparr>skill_patterns := []\<rparr>))
       (sample_parent\<lparr>skill_patterns := []\<rparr>)"
proof -
  let ?c = "sample_child\<lparr>network := []\<rparr>" and ?p = "sample_parent\<lparr>skill_patterns := []\<rparr>"
  have wf: "well_formed_token ?c" "well_formed_token ?p" by code_simp+
  have "admits ?p r" if "admits (token_intersect ?c ?p) r" for r
  proof (cases "exactly_intersected r")
    case True
    with that show ?thesis using intersect_admits[OF wf] by blast
  next
    case False
    have "network (token_intersect ?c ?p) = []" "mcp_tools (token_intersect ?c ?p) = []"
      by code_simp+
    with False that show ?thesis by (cases r) (auto simp: check_network_def)
  qed
  moreover have "\<not> is_subset_of (token_intersect ?c ?p) ?p" by code_simp
  ultimately show ?thesis by (auto simp: authority_def)
qed

end
