(* ===== verification/Proc_Fs.thy ===== *)
theory Proc_Fs
  imports Vfs_Layers Std_Text Budget Capability
begin

text \<open>
  The process filesystem (\<^verbatim>\<open>simulacra-vfs/src/procfs.rs\<close>, \<^verbatim>\<open>procfs/atomic.rs\<close>, \<^verbatim>\<open>procfs/state.rs\<close>,
  \<^verbatim>\<open>procfs/values.rs\<close>): \<^verbatim>\<open>/proc\<close> shows the running agent, read-only, except \<^verbatim>\<open>/proc/mailbox\<close>, which is
  the business of the layers below.  \<open>ps_uptime_ms\<close> is the clock's answer and \<open>ps_cost_text\<close> the rendering
  of a decimal with two places.
\<close>

section \<open>What the files show\<close>

record 'd proc_state =
  ps_agent_id :: string
  ps_agent_name :: string
  ps_model :: string
  ps_parent_id :: "string option"
  ps_budget :: "'d resource_budget"
  ps_capabilities :: capability_token
  ps_tool_names :: "string list"
  ps_tool_json :: "string \<Rightarrow> string option"
  ps_session_id :: string
  ps_uptime_ms :: nat
  ps_journal_entries :: u64
  ps_hook_names :: "string \<Rightarrow> string list"
  ps_turn :: u64
  ps_cost_text :: "'d \<Rightarrow> string"

definition budget_value :: "'d proc_state \<Rightarrow> string \<Rightarrow> string option" where
  "budget_value P name =
     (let b = ps_budget P
      in if name = ''max_tokens'' then Some (show_word (max_tokens b))
         else if name = ''used_tokens'' then Some (show_word (used_tokens b))
         else if name = ''remaining_tokens''
         then (if max_tokens b = 0 then Some ''0''
               else Some (show_word (sat_sub (max_tokens b) (used_tokens b))))
         else if name = ''max_turns'' then Some (show_word (max_turns b))
         else if name = ''used_turns'' then Some (show_word (used_turns b))
         else if name = ''remaining_turns''
         then (if max_turns b = 0 then Some ''0''
               else Some (show_word (sat_sub (ucast (max_turns b) :: u64) (ucast (used_turns b)))))
         else if name = ''max_fuel'' then Some (show_word (max_fuel b))
         else if name = ''used_fuel'' then Some (show_word (used_fuel b))
         else if name = ''max_cost'' then Some (ps_cost_text P (max_cost b))
         else if name = ''used_cost'' then Some (ps_cost_text P (used_cost b))
         else None)"

definition newline :: string where
  "newline = [CHR 0x0A]"

definition capabilities_value :: "'d proc_state \<Rightarrow> string \<Rightarrow> string option" where
  "capabilities_value P name =
     (let c = ps_capabilities P
      in if name = ''shell'' then Some (if shell c then ''true'' else ''false'')
         else if name = ''javascript'' then Some (if javascript c then ''true'' else ''false'')
         else if name = ''python'' then Some (if python c then ''true'' else ''false'')
         else if name = ''network'' then Some (join_str newline (network c))
         else if name = ''mcp_tools'' then Some (join_str newline (mcp_tools c))
         else if name = ''paths_read'' then Some (join_str newline (paths_read c))
         else if name = ''paths_write'' then Some (join_str newline (paths_write c))
         else None)"

definition session_value :: "'d proc_state \<Rightarrow> string \<Rightarrow> string option" where
  "session_value P name =
     (if name = ''id'' then Some (ps_session_id P)
      else if name = ''uptime_ms'' then Some (show_nat (ps_uptime_ms P))
      else if name = ''journal_entries'' then Some (show_word (ps_journal_entries P))
      else None)"

definition agent_value :: "'d proc_state \<Rightarrow> string \<Rightarrow> string option" where
  "agent_value P name =
     (if name = ''id'' then Some (ps_agent_id P)
      else if name = ''name'' then Some (ps_agent_name P)
      else if name = ''model'' then Some (ps_model P)
      else if name = ''turn'' then Some (show_word (ps_turn P))
      else if name = ''parent_id'' then Some (unwrap_or (ps_parent_id P) [])
      else None)"

section \<open>Paths\<close>

definition is_proc :: "string \<Rightarrow> bool" where
  "is_proc path \<longleftrightarrow> path = ''/proc'' \<or> starts_with path ''/proc/''"

definition is_mailbox :: "string \<Rightarrow> bool" where
  "is_mailbox path \<longleftrightarrow> path = ''/proc/mailbox'' \<or> starts_with path ''/proc/mailbox/''"

definition proc_tail :: "string \<Rightarrow> string option" where
  "proc_tail path =
     (let normalized = trim_end_char slash path
      in if normalized = ''/proc'' then None else strip_prefix normalized ''/proc/'')"

definition proc_list_dir :: "'d proc_state \<Rightarrow> string \<Rightarrow> vfs_error + string list" where
  "proc_list_dir P path =
     (case proc_tail path of
        None \<Rightarrow> Ok [''agent'', ''budget'', ''capabilities'', ''hooks'', ''mailbox'', ''session'', ''tools'']
      | Some t \<Rightarrow>
          if t = ''agent'' then Ok [''id'', ''model'', ''name'', ''parent_id'', ''turn'']
          else if t = ''budget''
          then Ok [''max_cost'', ''max_fuel'', ''max_tokens'', ''max_turns'', ''remaining_tokens'', ''remaining_turns'',
                   ''used_cost'', ''used_fuel'', ''used_tokens'', ''used_turns'']
          else if t = ''capabilities''
          then Ok [''javascript'', ''mcp_tools'', ''network'', ''paths_read'', ''paths_write'', ''python'', ''shell'']
          else if t = ''tools'' then Ok (sort (ps_tool_names P))
          else if t = ''session'' then Ok [''id'', ''journal_entries'', ''uptime_ms'']
          else if t = ''hooks'' then Ok [''http_request'', ''llm'', ''spawn'', ''tool_call'']
          else Err (NotFound path))"

definition hooks_value :: "'d proc_state \<Rightarrow> string \<Rightarrow> string option" where
  "hooks_value P name =
     (if name \<in> {''tool_call'', ''llm'', ''spawn'', ''http_request''}
      then Some (join_str newline (ps_hook_names P name)) else None)"

definition proc_categories :: "string list" where
  "proc_categories = [''agent'', ''budget'', ''capabilities'', ''tools'', ''session'', ''hooks'']"

definition proc_value :: "'d proc_state \<Rightarrow> string \<Rightarrow> string \<Rightarrow> string option" where
  "proc_value P category name =
     (if category = ''agent'' then agent_value P name
      else if category = ''budget'' then budget_value P name
      else if category = ''capabilities'' then capabilities_value P name
      else if category = ''tools'' then ps_tool_json P name
      else if category = ''session'' then session_value P name
      else if category = ''hooks'' then hooks_value P name
      else None)"

definition proc_read :: "'d proc_state \<Rightarrow> string \<Rightarrow> vfs_error + bytes" where
  "proc_read P path =
     (case proc_tail path of
        None \<Rightarrow> Err (NotAFile path)
      | Some t \<Rightarrow>
          (case split_once slash t of
             None \<Rightarrow> if t \<in> set proc_categories then Err (NotAFile path) else Err (NotFound path)
           | Some (category, name) \<Rightarrow>
               (case proc_value P category name of None \<Rightarrow> Err (NotFound path) | Some v \<Rightarrow> Ok v)))"

definition proc_metadata :: "'d proc_state \<Rightarrow> string \<Rightarrow> vfs_error + fs_metadata" where
  "proc_metadata P path =
     (if trim_end_char slash path = ''/proc'' then Ok metadata_dir
      else if unwrap_or (proc_tail path) [] \<in> set (proc_categories @ [''mailbox'']) then Ok metadata_dir
      else case proc_read P path of
             Inr bytes \<Rightarrow> Ok (metadata_file (of_nat (length bytes)))
           | Inl (NotFound _) \<Rightarrow> Err (NotFound path)
           | Inl e \<Rightarrow> Err e)"

definition proc_exists :: "'d proc_state \<Rightarrow> string \<Rightarrow> bool" where
  "proc_exists P path = is_ok (proc_metadata P path)"

section \<open>The layer\<close>

definition read_only_proc :: "string \<Rightarrow> bool" where
  "read_only_proc path \<longleftrightarrow> is_proc path \<and> \<not> is_mailbox path"

definition proc_gate :: "touch list \<Rightarrow> vfs_error + unit" where
  "proc_gate touches =
     (case find (\<lambda>t. read_only_proc (t_path t) \<or> (takes_subtree t \<and> is_root (t_path t))) touches of
        None \<Rightarrow> Ok ()
      | Some t \<Rightarrow>
          if read_only_proc (t_path t) then Err (PermissionDenied (t_path t @ '' is read-only''))
          else Err (PermissionDenied (t_path t @ '': whole-tree removal through read-only /proc is refused'')))"

definition pf_read :: "('s, 'j) virtual_fs \<Rightarrow> 'd proc_state \<Rightarrow> 's \<Rightarrow> string \<Rightarrow> vfs_error + bytes" where
  "pf_read I P s path0 =
     (let path = normalize_vfs path0
      in if is_mailbox path then vfs_read I s path
         else if is_proc path then proc_read P path
         else vfs_read I s path)"

definition pf_write :: "('s, 'j) virtual_fs \<Rightarrow> 's \<Rightarrow> string \<Rightarrow> bytes \<Rightarrow> 's outcome" where
  "pf_write I s path0 data =
     (let path = normalize_vfs path0
      in if is_mailbox path then vfs_write I s path data
         else if is_proc path then (Err (PermissionDenied (path @ '' is read-only'')), s)
         else vfs_write I s path data)"

definition pf_exists :: "('s, 'j) virtual_fs \<Rightarrow> 'd proc_state \<Rightarrow> 's \<Rightarrow> string \<Rightarrow> bool" where
  "pf_exists I P s path0 =
     (let path = normalize_vfs path0
      in if is_mailbox path then vfs_exists I s path
         else if is_proc path then proc_exists P path
         else vfs_exists I s path)"

definition pf_list_dir :: "('s, 'j) virtual_fs \<Rightarrow> 'd proc_state \<Rightarrow> 's \<Rightarrow> string \<Rightarrow> vfs_error + string list" where
  "pf_list_dir I P s path0 =
     (let path = normalize_vfs path0
      in if is_mailbox path
         then (case vfs_list_dir I s path of
                 Inr entries \<Rightarrow> Ok entries
               | Inl (NotFound _) \<Rightarrow> Ok []
               | Inl e \<Rightarrow> Err e)
         else if is_proc path then proc_list_dir P path
         else vfs_list_dir I s path)"

definition pf_mkdir :: "('s, 'j) virtual_fs \<Rightarrow> 's \<Rightarrow> string \<Rightarrow> 's outcome" where
  "pf_mkdir I s path0 =
     (let path = normalize_vfs path0
      in if is_mailbox path then vfs_mkdir I s path
         else if is_proc path then (Err (PermissionDenied (path @ '' is read-only'')), s)
         else vfs_mkdir I s path)"

definition pf_remove :: "('s, 'j) virtual_fs \<Rightarrow> 's \<Rightarrow> string \<Rightarrow> 's outcome" where
  "pf_remove I s path0 =
     (let path = normalize_vfs path0
      in case proc_gate (removed path) of Inl e \<Rightarrow> (Err e, s) | Inr _ \<Rightarrow> vfs_remove I s path)"

definition pf_metadata :: "('s, 'j) virtual_fs \<Rightarrow> 'd proc_state \<Rightarrow> 's \<Rightarrow> string \<Rightarrow> vfs_error + fs_metadata" where
  "pf_metadata I P s path0 =
     (let path = normalize_vfs path0
      in if is_mailbox path then vfs_metadata I s path
         else if is_proc path then proc_metadata P path
         else vfs_metadata I s path)"

definition pf_list_dir_bounded ::
  "('s, 'j) virtual_fs \<Rightarrow> 'd proc_state \<Rightarrow> 's \<Rightarrow> string \<Rightarrow> vfs_error + dir_listing" where
  "pf_list_dir_bounded I P s path =
     (let normalized = normalize_vfs path
      in if is_proc normalized \<and> \<not> is_mailbox normalized
         then (case pf_list_dir I P s path of Inl e \<Rightarrow> Err e | Inr es \<Rightarrow> Ok (listing_complete es))
         else case vfs_list_dir_bounded I s normalized of
                Inl (NotFound x) \<Rightarrow> if is_mailbox normalized then Ok (listing_complete []) else Err (NotFound x)
              | r \<Rightarrow> r)"

definition proc_fs :: "('s, 'j) virtual_fs \<Rightarrow> 'd proc_state \<Rightarrow> ('s, 'j) virtual_fs" where
  "proc_fs I P =
     \<lparr>vfs_read = pf_read I P, vfs_write = pf_write I, vfs_exists = pf_exists I P,
      vfs_list_dir = pf_list_dir I P, vfs_mkdir = pf_mkdir I, vfs_remove = pf_remove I,
      vfs_metadata = pf_metadata I P, vfs_snapshot = vfs_snapshot I, vfs_restore = vfs_restore I,
      vfs_write_if = gated_write_if proc_gate I, vfs_rename = gated_rename proc_gate I,
      vfs_apply_batch = gated_apply_batch proc_gate I, vfs_list_dir_bounded = pf_list_dir_bounded I P\<rparr>"

lemma proc_sel [simp]:
  "vfs_read (proc_fs I P) = pf_read I P" "vfs_write (proc_fs I P) = pf_write I"
  "vfs_exists (proc_fs I P) = pf_exists I P" "vfs_list_dir (proc_fs I P) = pf_list_dir I P"
  "vfs_mkdir (proc_fs I P) = pf_mkdir I" "vfs_remove (proc_fs I P) = pf_remove I"
  "vfs_metadata (proc_fs I P) = pf_metadata I P" "vfs_list_dir_bounded (proc_fs I P) = pf_list_dir_bounded I P"
  "vfs_write_if (proc_fs I P) = gated_write_if proc_gate I" "vfs_rename (proc_fs I P) = gated_rename proc_gate I"
  "vfs_apply_batch (proc_fs I P) = gated_apply_batch proc_gate I"
  by (simp_all add: proc_fs_def)

lemma proc_gate_ok: "proc_gate ts = Ok () \<Longrightarrow> t \<in> set ts \<Longrightarrow> \<not> read_only_proc (t_path t)"
  by (auto simp: proc_gate_def find_None_iff split: option.splits if_splits)

lemma proc_gate_keeps: "gate_keeps proc_gate (\<lambda>p. \<not> read_only_proc p)"
  by (simp add: gate_keeps_def proc_gate_ok)

lemma proc_layer_below:
  assumes "reaches R c"
  shows "calls_only I (reaches (\<lambda>p. \<not> read_only_proc p \<and> R p)) s (snd (vfs_call (proc_fs I P) s c))"
proof (cases c)
  case (CWrite p d)
  then show ?thesis
    using assms calls_only_one[of "reaches (\<lambda>p. \<not> read_only_proc p \<and> R p)" "CWrite (normalize_vfs p) d" I s]
    by (simp add: pf_write_def Let_def reaches_def read_only_proc_def)
next
  case (CMkdir p)
  then show ?thesis
    using assms calls_only_one[of "reaches (\<lambda>p. \<not> read_only_proc p \<and> R p)" "CMkdir (normalize_vfs p)" I s]
    by (simp add: pf_mkdir_def Let_def reaches_def read_only_proc_def)
next
  case (CRemove p)
  then show ?thesis
    using assms calls_only_one[of "reaches (\<lambda>p. \<not> read_only_proc p \<and> R p)" "CRemove (normalize_vfs p)" I s]
      proc_gate_ok[of "removed (normalize_vfs p)" "touch_new p True"]
    by (auto simp: pf_remove_def Let_def reaches_def removed_def touch_new_def split: sum.split)
qed (use assms in \<open>simp_all add: gated_calls[OF proc_gate_keeps]\<close>)

lemma proc_same_reads: "same_reads I s s' \<Longrightarrow> same_reads (proc_fs I P) s s'"
  by (simp add: same_reads_def fun_eq_iff pf_read_def pf_exists_def pf_list_dir_def pf_metadata_def
      pf_list_dir_bounded_def Let_def)

section \<open>The files agree with the listings\<close>

text \<open>A category other than the tools lists exactly the files that can be read below it.\<close>

lemma split_once_seg: "slash \<notin> set c \<Longrightarrow> split_once slash (c @ slash # n) = Some (c, n)"
proof -
  assume "slash \<notin> set c"
  then have "\<And>x. x \<in> set c \<Longrightarrow> x \<noteq> slash" by blast
  then show ?thesis by (simp add: split_once_def takeWhile_append2 dropWhile_append2)
qed

lemma category_good: "c \<in> set proc_categories \<Longrightarrow> good_seg c \<and> c \<noteq> ''mailbox'' \<and> c \<noteq> []"
  by (auto simp: proc_categories_def good_seg_def)

lemma proc_path_facts:
  assumes "good_segs (c # cs)" "c \<noteq> ''mailbox''"
  shows "normalize_vfs (''/proc/'' @ join_with slash (c # cs)) = ''/proc/'' @ join_with slash (c # cs)"
    "is_proc (''/proc/'' @ join_with slash (c # cs))" "\<not> is_mailbox (''/proc/'' @ join_with slash (c # cs))"
    "proc_tail (''/proc/'' @ join_with slash (c # cs)) = Some (join_with slash (c # cs))"
proof -
  have good: "good_segs (''proc'' # c # cs)" using assms(1) by (auto simp: good_seg_def)
  have p: "''/proc/'' @ join_with slash (c # cs) = abs_path (''proc'' # c # cs)"
    by (simp add: abs_path_def join_with_Cons)
  show "normalize_vfs (''/proc/'' @ join_with slash (c # cs)) = ''/proc/'' @ join_with slash (c # cs)"
    unfolding p using good by simp
  show "is_proc (''/proc/'' @ join_with slash (c # cs))" by (simp add: is_proc_def starts_with_def)
  have box: "good_segs [''proc'', ''mailbox'']" "abs_path [''proc'', ''mailbox''] = ''/proc/mailbox''"
    by (simp_all add: good_seg_def abs_path_def)
  show "\<not> is_mailbox (''/proc/'' @ join_with slash (c # cs))"
    using at_or_below_iff[OF box(1) good] assms(2) unfolding p is_mailbox_def at_or_below_def box(2) by auto
  have "trim_end_char slash (abs_path (''proc'' # c # cs)) = abs_path (''proc'' # c # cs)"
    using last_abs_path[OF good] trim_end_char_other by blast
  moreover have "c \<noteq> []" using assms(1) by (simp add: good_seg_def)
  ultimately show "proc_tail (''/proc/'' @ join_with slash (c # cs)) = Some (join_with slash (c # cs))"
    unfolding proc_tail_def p Let_def by (simp flip: p add: str_simps)
qed

lemma some_else: "((if b then Some x else y) = None) = (\<not> b \<and> y = None)" "((if b then if d then Some x else Some z else y) = None) = (\<not> b \<and> y = None)"
  by simp_all

lemma value_names:
  "agent_value P n \<noteq> None \<longleftrightarrow> n \<in> set [''id'', ''model'', ''name'', ''parent_id'', ''turn'']"
  "budget_value P n \<noteq> None \<longleftrightarrow>
     n \<in> set [''max_cost'', ''max_fuel'', ''max_tokens'', ''max_turns'', ''remaining_tokens'', ''remaining_turns'',
                ''used_cost'', ''used_fuel'', ''used_tokens'', ''used_turns'']"
  "capabilities_value P n \<noteq> None \<longleftrightarrow>
     n \<in> set [''javascript'', ''mcp_tools'', ''network'', ''paths_read'', ''paths_write'', ''python'', ''shell'']"
  "session_value P n \<noteq> None \<longleftrightarrow> n \<in> set [''id'', ''journal_entries'', ''uptime_ms'']"
  "hooks_value P n \<noteq> None \<longleftrightarrow> n \<in> set [''http_request'', ''llm'', ''spawn'', ''tool_call'']"
  unfolding agent_value_def budget_value_def capabilities_value_def session_value_def hooks_value_def Let_def some_else
  by (simp_all only: list.set insert_iff empty_iff option.distinct simp_thms de_Morgan_conj not_not disj_ac)

text \<open>
  The process filesystem lists what it serves: below each category except the tools, a name is
  in the listing exactly when the file of that name can be read.
\<close>

lemma proc_listed_iff_readable:
  assumes "c \<in> set proc_categories" "c \<noteq> ''tools''" "good_seg n"
  shows "\<exists>names. pf_list_dir I P s (''/proc/'' @ c) = Ok names \<and>
    (n \<in> set names \<longleftrightarrow> is_ok (pf_read I P s (''/proc/'' @ c @ ''/'' @ n)))"
proof -
  note c = category_good[OF assms(1)]
  have dir: "pf_list_dir I P s (''/proc/'' @ c) = proc_list_dir P (''/proc/'' @ c)"
    using proc_path_facts[of c "[]"] c by (simp add: pf_list_dir_def Let_def)
  have tail: "proc_tail (''/proc/'' @ c) = Some c" using proc_path_facts(4)[of c "[]"] c by simp
  have "good_segs [c, n]" using c assms(3) by simp
  note below = proc_path_facts[OF this]
  have "pf_read I P s (''/proc/'' @ c @ ''/'' @ n) = (case proc_value P c n of
      None \<Rightarrow> Err (NotFound (''/proc/'' @ c @ ''/'' @ n)) | Some v \<Rightarrow> Ok v)"
    using below c good_seg_noslash[of c] by (simp add: pf_read_def Let_def proc_read_def split_once_seg cong: option.case_cong)
  moreover have "\<exists>names. proc_list_dir P (''/proc/'' @ c) = Ok names \<and> (n \<in> set names \<longleftrightarrow> proc_value P c n \<noteq> None)"
    using assms(1,2) unfolding proc_list_dir_def tail
    by (auto simp only: proc_categories_def list.set insert_iff empty_iff proc_value_def value_names if_True if_False
        option.case list.inject char.inject simp_thms sum.inject)
  ultimately show ?thesis using dir by (auto split: option.split)
qed

end
