(* ===== verification/Memory_Fs.thy ===== *)
theory Memory_Fs
  imports Vfs_Types
begin

text \<open>
  \<open>MemoryFs\<close> (\<^verbatim>\<open>simulacra-vfs/src/memory.rs\<close> and \<^verbatim>\<open>memory_atomic.rs\<close>): an ordered map from normal
  paths to entries under one lock, with a revision counter.  The abstract specification is a tree:
  a partial function from segment lists to a file's bytes or the mark of a directory.  Every
  operation is shown to refine its tree operation, and the whole filesystem to meet the
  \<open>file_store\<close> and \<open>atomic_store\<close> contracts.
\<close>

section \<open>State\<close>

datatype entry = File bytes u64 | Dir

record mem_state =
  mem_map :: "(string, entry) btree"
  next_revision :: u64

definition take_revision :: "mem_state \<Rightarrow> u64 \<times> mem_state" where
  "take_revision s = (let r = next_revision s + 1 in (r, s\<lparr>next_revision := r\<rparr>))"

definition ensure_parents :: "(string, entry) btree \<Rightarrow> string \<Rightarrow> (string, entry) btree" where
  "ensure_parents m path = fold (\<lambda>cur m. bt_or_insert cur Dir m) (path_ancestors path) m"

definition mem_new :: mem_state where
  "mem_new = \<lparr>mem_map = bt_insert ''/'' Dir [], next_revision = 0\<rparr>"

section \<open>Plain operations\<close>

definition mem_read :: "mem_state \<Rightarrow> string \<Rightarrow> vfs_error + bytes" where
  "mem_read s path0 =
     (let path = normalize_vfs path0 in
      case bt_get (mem_map s) path of
        Some (File data _) \<Rightarrow> Ok data
      | Some Dir \<Rightarrow> Err (NotAFile path)
      | None \<Rightarrow> Err (NotFound path))"

definition insert_file :: "mem_state \<Rightarrow> string \<Rightarrow> bytes \<Rightarrow> mem_state" where
  "insert_file s path data =
     (let s1 = s\<lparr>mem_map := ensure_parents (mem_map s) path\<rparr>;
          (revision, s2) = take_revision s1
      in s2\<lparr>mem_map := bt_insert path (File data revision) (mem_map s2)\<rparr>)"

definition mem_write :: "mem_state \<Rightarrow> string \<Rightarrow> bytes \<Rightarrow> mem_state outcome" where
  "mem_write s path0 data =
     (let path = normalize_vfs path0 in
      if path = ''/'' then (Err (NotAFile path), s)
      else (Ok (), insert_file s path data))"

definition mem_exists :: "mem_state \<Rightarrow> string \<Rightarrow> bool" where
  "mem_exists s path = bt_contains (mem_map s) (normalize_vfs path)"

definition child_name :: "string \<Rightarrow> string \<Rightarrow> string \<Rightarrow> string option" where
  "child_name path pre key =
     (if key = path then None
      else case strip_prefix key pre of
        None \<Rightarrow> None
      | Some rest \<Rightarrow> if \<not> contains_char rest slash \<and> rest \<noteq> [] then Some rest else None)"

definition mem_list_dir :: "mem_state \<Rightarrow> string \<Rightarrow> vfs_error + string list" where
  "mem_list_dir s path0 =
     (let path = normalize_vfs path0 in
      case bt_get (mem_map s) path of
        None \<Rightarrow> Err (NotFound path)
      | Some (File _ _) \<Rightarrow> Err (NotADirectory path)
      | Some Dir \<Rightarrow>
          let pre = (if path = ''/'' then ''/'' else path @ ''/'')
          in Ok (List.map_filter (child_name path pre) (bt_keys (mem_map s))))"

definition mem_mkdir :: "mem_state \<Rightarrow> string \<Rightarrow> mem_state outcome" where
  "mem_mkdir s path0 =
     (let path = normalize_vfs path0 in
      case bt_get (mem_map s) path of
        Some Dir \<Rightarrow> (Ok (), s)
      | Some (File _ _) \<Rightarrow> (Err (NotAFile path), s)
      | None \<Rightarrow> (Ok (), s\<lparr>mem_map := bt_insert path Dir (ensure_parents (mem_map s) path)\<rparr>))"

definition subtree_keys :: "(string, entry) btree \<Rightarrow> string \<Rightarrow> string list" where
  "subtree_keys m path = filter (\<lambda>k. k = path \<or> starts_with k (path @ ''/'')) (bt_keys m)"

definition remove_keys :: "string list \<Rightarrow> (string, entry) btree \<Rightarrow> (string, entry) btree" where
  "remove_keys ks m = fold bt_remove ks m"

definition mem_remove :: "mem_state \<Rightarrow> string \<Rightarrow> mem_state outcome" where
  "mem_remove s path0 =
     (let path = normalize_vfs path0 in
      if path = ''/'' then (Err (Io ''cannot remove root''), s)
      else if \<not> bt_contains (mem_map s) path then (Err (NotFound path), s)
      else (Ok (), s\<lparr>mem_map := remove_keys (subtree_keys (mem_map s) path) (mem_map s)\<rparr>))"

definition mem_metadata :: "mem_state \<Rightarrow> string \<Rightarrow> vfs_error + fs_metadata" where
  "mem_metadata s path0 =
     (let path = normalize_vfs path0 in
      case bt_get (mem_map s) path of
        Some (File data revision) \<Rightarrow> Ok (with_revision revision (metadata_file (of_nat (length data))))
      | Some Dir \<Rightarrow> Ok metadata_dir
      | None \<Rightarrow> Err (NotFound path))"

text \<open>Snapshots go through a JSON codec that is not part of this code base: \<open>to_vec\<close> and
  \<open>from_slice\<close> are parameters.\<close>

type_synonym snapshot_items = "(string \<times> bool \<times> bytes) list"

definition snapshot_item :: "string \<times> entry \<Rightarrow> string \<times> bool \<times> bytes" where
  "snapshot_item kv = (case kv of (k, File data _) \<Rightarrow> (k, True, data) | (k, Dir) \<Rightarrow> (k, False, []))"

definition mem_snapshot :: "(snapshot_items \<Rightarrow> string + 'j) \<Rightarrow> mem_state \<Rightarrow> vfs_error + 'j" where
  "mem_snapshot to_vec s =
     (case to_vec (map snapshot_item (mem_map s)) of Inl e \<Rightarrow> Err (Io e) | Inr j \<Rightarrow> Ok j)"

definition restore_item :: "string \<times> bool \<times> bytes \<Rightarrow> mem_state \<Rightarrow> mem_state" where
  "restore_item item s =
     (case item of (p, is_file, data) \<Rightarrow>
        if is_file then
          (let (revision, s1) = take_revision s
           in s1\<lparr>mem_map := bt_insert p (File data revision) (mem_map s1)\<rparr>)
        else s\<lparr>mem_map := bt_insert p Dir (mem_map s)\<rparr>)"

definition mem_restore :: "('j \<Rightarrow> string + snapshot_items) \<Rightarrow> mem_state \<Rightarrow> 'j \<Rightarrow> mem_state outcome" where
  "mem_restore from_slice s j =
     (case from_slice j of
        Inl e \<Rightarrow> (Err (Io e), s)
      | Inr items \<Rightarrow> (Ok (), fold restore_item items (s\<lparr>mem_map := []\<rparr>)))"

section \<open>Atomic operations\<close>

definition check_precondition :: "(string, entry) btree \<Rightarrow> string \<Rightarrow> precondition \<Rightarrow> vfs_error + unit" where
  "check_precondition m path c =
     (case (c, bt_get m path) of
        (Unconditional, _) \<Rightarrow> Ok ()
      | (MustBeAbsent, None) \<Rightarrow> Ok ()
      | (MustBeAbsent, Some _) \<Rightarrow> Err (Conflict (path @ '' exists''))
      | (MustMatch want, Some (File _ revision)) \<Rightarrow>
          if revision = want then Ok ()
          else Err (Conflict (path @ '' is not at revision '' @ show_word want))
      | (MustMatch want, _) \<Rightarrow> Err (Conflict (path @ '' is not at revision '' @ show_word want)))"

fun first_file_ancestor :: "(string, entry) btree \<Rightarrow> string list \<Rightarrow> vfs_error + unit" where
  "first_file_ancestor m [] = Ok ()"
| "first_file_ancestor m (cur # rest) =
     (case bt_get m cur of
        Some (File _ _) \<Rightarrow> Err (NotADirectory cur)
      | _ \<Rightarrow> first_file_ancestor m rest)"

definition reject_file_ancestor :: "(string, entry) btree \<Rightarrow> string \<Rightarrow> vfs_error + unit" where
  "reject_file_ancestor m path = first_file_ancestor m (path_ancestors path)"

definition mem_write_if :: "mem_state \<Rightarrow> string \<Rightarrow> bytes \<Rightarrow> precondition \<Rightarrow> mem_state outcome" where
  "mem_write_if s path0 data c =
     (let path = normalize_vfs path0 in
      if path = ''/'' then (Err (NotAFile path), s)
      else case check_precondition (mem_map s) path c of
        Inl e \<Rightarrow> (Err e, s)
      | Inr _ \<Rightarrow>
          if bt_get (mem_map s) path = Some Dir then (Err (NotAFile path), s)
          else case reject_file_ancestor (mem_map s) path of
            Inl e \<Rightarrow> (Err e, s)
          | Inr _ \<Rightarrow> (Ok (), insert_file s path data))"

text \<open>One turn of the rename loop: the entry moves to its new key, a file under a fresh revision.
  A key that is not in the map is the \<open>expect\<close> of the source, which cannot fail: the keys come from
  the map.\<close>

definition move_key :: "string \<Rightarrow> string \<Rightarrow> string \<Rightarrow> mem_state \<Rightarrow> mem_state" where
  "move_key from to key s =
     (case bt_get (mem_map s) key of
        None \<Rightarrow> s
      | Some entry \<Rightarrow>
          let s1 = s\<lparr>mem_map := bt_remove key (mem_map s)\<rparr>;
              moved = to @ drop (length from) key
          in case entry of
               File data _ \<Rightarrow>
                 (let (revision, s2) = take_revision s1
                  in s2\<lparr>mem_map := bt_insert moved (File data revision) (mem_map s2)\<rparr>)
             | Dir \<Rightarrow> s1\<lparr>mem_map := bt_insert moved Dir (mem_map s1)\<rparr>)"

definition apply_rename :: "mem_state \<Rightarrow> string \<Rightarrow> string \<Rightarrow> precondition \<Rightarrow> mem_state outcome" where
  "apply_rename s from0 to0 c =
     (let from = normalize_vfs from0; to = normalize_vfs to0 in
      if \<not> bt_contains (mem_map s) from then (Err (NotFound from), s)
      else case check_precondition (mem_map s) from c of
        Inl e \<Rightarrow> (Err e, s)
      | Inr _ \<Rightarrow>
          if bt_contains (mem_map s) to then (Err (Conflict (to @ '' exists'')), s)
          else if from = ''/'' \<or> starts_with to (from @ ''/'')
          then (Err (Io (''cannot move '' @ from @ '' into itself'')), s)
          else case reject_file_ancestor (mem_map s) to of
            Inl e \<Rightarrow> (Err e, s)
          | Inr _ \<Rightarrow>
              let s1 = s\<lparr>mem_map := ensure_parents (mem_map s) to\<rparr>
              in (Ok (), fold (move_key from to) (subtree_keys (mem_map s1) from) s1))"

fun apply_one :: "mem_state \<Rightarrow> fs_mutation \<Rightarrow> mem_state outcome" where
  "apply_one s (MWrite path data c) = mem_write_if s path data c"
| "apply_one s (MMkdir path0) =
     (let path = normalize_vfs path0 in
      case bt_get (mem_map s) path of
        Some Dir \<Rightarrow> (Ok (), s)
      | Some (File _ _) \<Rightarrow> (Err (NotAFile path), s)
      | None \<Rightarrow> (case reject_file_ancestor (mem_map s) path of
            Inl e \<Rightarrow> (Err e, s)
          | Inr _ \<Rightarrow> (Ok (), s\<lparr>mem_map := bt_insert path Dir (ensure_parents (mem_map s) path)\<rparr>)))"
| "apply_one s (MRemove path0 c) =
     (let path = normalize_vfs path0 in
      if path = ''/'' then (Err (Io ''cannot remove root''), s)
      else if \<not> bt_contains (mem_map s) path then (Err (NotFound path), s)
      else case check_precondition (mem_map s) path c of
        Inl e \<Rightarrow> (Err e, s)
      | Inr _ \<Rightarrow> (Ok (), s\<lparr>mem_map := remove_keys (subtree_keys (mem_map s) path) (mem_map s)\<rparr>))"
| "apply_one s (MRename from to c) = apply_rename s from to c"

fun apply_each :: "mem_state \<Rightarrow> fs_mutation list \<Rightarrow> mem_state outcome" where
  "apply_each scratch [] = (Ok (), scratch)"
| "apply_each scratch (m # ms) =
     (case apply_one scratch m of
        (Inl e, scratch') \<Rightarrow> (Err e, scratch')
      | (Inr _, scratch') \<Rightarrow> apply_each scratch' ms)"

text \<open>A batch of two or more runs on a scratch copy that replaces the state only if every item
  succeeded.\<close>

definition mem_apply_batch :: "mem_state \<Rightarrow> fs_mutation list \<Rightarrow> mem_state outcome" where
  "mem_apply_batch s ms =
     (case ms of
        [] \<Rightarrow> (Ok (), s)
      | [one] \<Rightarrow> apply_one s one
      | _ \<Rightarrow> (case apply_each s ms of
                (Inl e, _) \<Rightarrow> (Err e, s)
              | (Inr _, scratch) \<Rightarrow> (Ok (), scratch)))"

definition mem_rename :: "mem_state \<Rightarrow> string \<Rightarrow> string \<Rightarrow> mem_state outcome" where
  "mem_rename s from to = mem_apply_batch s [MRename from to Unconditional]"

definition memory_fs ::
  "(snapshot_items \<Rightarrow> string + 'j) \<Rightarrow> ('j \<Rightarrow> string + snapshot_items) \<Rightarrow> (mem_state, 'j) virtual_fs" where
  "memory_fs to_vec from_slice =
     \<lparr>vfs_read = mem_read, vfs_write = mem_write, vfs_exists = mem_exists, vfs_list_dir = mem_list_dir,
      vfs_mkdir = mem_mkdir, vfs_remove = mem_remove, vfs_metadata = mem_metadata,
      vfs_snapshot = mem_snapshot to_vec, vfs_restore = mem_restore from_slice,
      vfs_write_if = mem_write_if, vfs_rename = mem_rename, vfs_apply_batch = mem_apply_batch,
      vfs_list_dir_bounded = default_list_dir_bounded mem_list_dir\<rparr>"

section \<open>Lookups by segments\<close>

text \<open>The map as a function on segment lists, and the invariant of the state: ordered keys, every
  key a normal path, the root a directory, and every stored path has its ancestors stored.\<close>

definition look :: "(string, entry) btree \<Rightarrow> string list \<Rightarrow> entry option" where
  "look m ps = (if good_segs ps then bt_get m (abs_path ps) else None)"

definition normal_keys :: "(string, entry) btree \<Rightarrow> bool" where
  "normal_keys m \<longleftrightarrow> (\<forall>k \<in> set (bt_keys m). is_normal k)"

definition map_inv :: "(string, entry) btree \<Rightarrow> bool" where
  "map_inv m \<longleftrightarrow> bt_ok m \<and> normal_keys m \<and> look m [] = Some Dir \<and>
     (\<forall>ps qs. prefix qs ps \<longrightarrow> look m ps \<noteq> None \<longrightarrow> look m qs \<noteq> None)"

abbreviation mem_inv :: "mem_state \<Rightarrow> bool" where
  "mem_inv s \<equiv> map_inv (mem_map s)"

lemma bt_get_normalize: "bt_get m (normalize_vfs p) = look m (norm_parts p)"
  by (simp add: look_def normalize_abs)

lemma bt_get_abs: "good_segs ps \<Longrightarrow> bt_get m (abs_path ps) = look m ps"
  by (simp add: look_def)

lemma look_good: "look m ps \<noteq> None \<Longrightarrow> good_segs ps"
  by (auto simp: look_def split: if_splits)

lemma look_insert [fs_simps]:
  "good_segs ps \<Longrightarrow> look (bt_insert (abs_path ps) e m) = (look m)(ps \<mapsto> e)"
  by (auto simp: look_def fun_eq_iff bt_simps abs_path_inject)

lemma look_remove [fs_simps]:
  "good_segs ps \<Longrightarrow> look (bt_remove (abs_path ps) m) = (look m)(ps := None)"
  by (auto simp: look_def fun_eq_iff bt_simps abs_path_inject)

lemma normal_keys_insert: "normal_keys m \<Longrightarrow> good_segs ps \<Longrightarrow> normal_keys (bt_insert (abs_path ps) e m)"
  by (auto simp: normal_keys_def bt_keys_dom bt_simps)

lemma normal_keys_remove: "normal_keys m \<Longrightarrow> normal_keys (bt_remove k m)"
  by (auto simp: normal_keys_def bt_keys_dom bt_simps)

lemma map_invD:
  assumes "map_inv m"
  shows "bt_ok m" "normal_keys m" "look m [] = Some Dir"
    "prefix qs ps \<Longrightarrow> look m ps \<noteq> None \<Longrightarrow> look m qs \<noteq> None"
  using assms by (auto simp: map_inv_def)

section \<open>Parents\<close>

definition or_dirs :: "'e \<Rightarrow> 'k set \<Rightarrow> ('k \<Rightarrow> 'e option) \<Rightarrow> 'k \<Rightarrow> 'e option" where
  "or_dirs d A f q = (if q \<in> A \<and> f q = None then Some d else f q)"

definition proper_ancestors :: "string list \<Rightarrow> string list set" where
  "proper_ancestors ps = {as. as \<noteq> [] \<and> strict_prefix as ps}"

lemma fold_or_insert:
  "\<forall>k \<in> set ks. good_segs k \<Longrightarrow>
   look (fold (\<lambda>cur m. bt_or_insert cur Dir m) (map abs_path ks) m) = or_dirs Dir (set ks) (look m)"
proof (induction ks arbitrary: m)
  case (Cons k ks)
  have "look (bt_or_insert (abs_path k) Dir m) = or_dirs Dir {k} (look m)"
    using Cons.prems
    by (auto simp: fun_eq_iff or_dirs_def look_def bt_simps abs_path_inject split: option.splits)
  with Cons show ?case by (auto simp: fun_eq_iff or_dirs_def)
qed (simp add: fun_eq_iff or_dirs_def)

lemma fold_or_insert_ok:
  "bt_ok m \<Longrightarrow> bt_ok (fold (\<lambda>cur m. bt_or_insert cur Dir m) ks m)"
  by (induction ks arbitrary: m) auto

lemma fold_or_insert_normal:
  "normal_keys m \<Longrightarrow> \<forall>k \<in> set ks. good_segs k \<Longrightarrow>
   normal_keys (fold (\<lambda>cur m. bt_or_insert cur Dir m) (map abs_path ks) m)"
  by (induction ks arbitrary: m) (auto simp: bt_or_insert_def normal_keys_insert)

lemma path_ancestors_segs:
  assumes "good_segs ps"
  shows "path_ancestors (abs_path ps) = map abs_path (map (\<lambda>n. take n ps) [1..<length ps])"
    "\<forall>k \<in> set (map (\<lambda>n. take n ps) [1..<length ps]). good_segs k"
    "set (map (\<lambda>n. take n ps) [1..<length ps]) = proper_ancestors ps"
  using assms
  by (auto simp: path_ancestors_abs proper_ancestors_def strict_prefix_take_iff image_iff Bex_def
      Suc_le_eq intro: good_segs_prefix[OF _ take_is_prefix])

lemma look_ensure_parents [fs_simps]:
  "good_segs ps \<Longrightarrow> look (ensure_parents m (abs_path ps)) = or_dirs Dir (proper_ancestors ps) (look m)"
  unfolding ensure_parents_def
  using fold_or_insert[OF path_ancestors_segs(2), of ps m]
  by (metis path_ancestors_segs(1,3))

lemma ensure_parents_ok [intro]: "bt_ok m \<Longrightarrow> bt_ok (ensure_parents m p)"
  by (simp add: ensure_parents_def fold_or_insert_ok)

lemma ensure_parents_normal [intro]:
  "normal_keys m \<Longrightarrow> good_segs ps \<Longrightarrow> normal_keys (ensure_parents m (abs_path ps))"
  unfolding ensure_parents_def
  using fold_or_insert_normal[OF _ path_ancestors_segs(2), of m ps]
  by (metis path_ancestors_segs(1))

lemma proper_ancestors_prefix: "as \<in> proper_ancestors ps \<Longrightarrow> prefix qs as \<Longrightarrow> qs \<noteq> [] \<Longrightarrow> qs \<in> proper_ancestors ps"
  by (auto simp: proper_ancestors_def dest: prefix_order.le_less_trans)

text \<open>Inserting an entry after its parents keeps the invariant.\<close>

lemma map_inv_put:
  assumes inv: "map_inv m" and ps: "good_segs ps" "ps \<noteq> []"
  shows "map_inv (bt_insert (abs_path ps) e (ensure_parents m (abs_path ps)))"
proof -
  let ?m = "bt_insert (abs_path ps) e (ensure_parents m (abs_path ps))"
  have lk: "look ?m = (or_dirs Dir (proper_ancestors ps) (look m))(ps \<mapsto> e)"
    using ps by (simp add: fs_simps)
  have root: "look ?m [] = Some Dir"
    using map_invD(3)[OF inv] ps unfolding lk by (simp add: or_dirs_def)
  have closed: "look ?m qs \<noteq> None" if "prefix qs rs" "look ?m rs \<noteq> None" for qs rs
  proof (cases "qs = [] \<or> qs = ps")
    case True then show ?thesis using root lk by auto
  next
    case False
    have "rs = ps \<or> rs \<in> proper_ancestors ps \<or> look m rs \<noteq> None"
      using that(2) unfolding lk by (simp add: or_dirs_def split: if_splits)
    then consider "rs = ps" | "rs \<in> proper_ancestors ps" | "look m rs \<noteq> None"
      by blast
    then show ?thesis
    proof cases
      case 1
      then have "qs \<in> proper_ancestors ps"
        using that(1) False by (simp add: proper_ancestors_def strict_prefix_def)
      then show ?thesis unfolding lk by (auto simp: or_dirs_def)
    next
      case 2
      then have "qs \<in> proper_ancestors ps" using that(1) False proper_ancestors_prefix by blast
      then show ?thesis unfolding lk by (auto simp: or_dirs_def)
    next
      case 3
      then show ?thesis using map_invD(4)[OF inv that(1)] unfolding lk by (auto simp: or_dirs_def)
    qed
  qed
  show ?thesis
    unfolding map_inv_def
    using map_invD(1,2)[OF inv] ps root closed by (auto intro: normal_keys_insert)
qed

section \<open>Removal\<close>

lemma bt_get_remove_keys: "bt_get (remove_keys ks m) k = (if k \<in> set ks then None else bt_get m k)"
  unfolding remove_keys_def by (induction ks arbitrary: m) (auto simp: bt_simps)

lemma remove_keys_ok: "bt_ok m \<Longrightarrow> bt_ok (remove_keys ks m)"
  unfolding remove_keys_def by (induction ks arbitrary: m) auto

lemma remove_keys_normal: "normal_keys m \<Longrightarrow> normal_keys (remove_keys ks m)"
  by (auto simp: normal_keys_def bt_keys_dom bt_get_remove_keys split: if_splits)

lemma in_subtree_keys:
  assumes "good_segs ps" "ps \<noteq> []" "good_segs qs"
  shows "abs_path qs \<in> set (subtree_keys m (abs_path ps)) \<longleftrightarrow> prefix ps qs \<and> look m qs \<noteq> None"
  using at_or_below_iff[OF assms(1,3,2)] assms
  by (auto simp: subtree_keys_def at_or_below_def bt_keys_dom look_def)

lemma look_remove_subtree [fs_simps]:
  assumes "good_segs ps" "ps \<noteq> []"
  shows "look (remove_keys (subtree_keys m (abs_path ps)) m) = (\<lambda>q. if prefix ps q then None else look m q)"
  using assms
  by (auto simp: fun_eq_iff look_def bt_get_remove_keys in_subtree_keys)

lemma map_inv_remove_subtree:
  assumes inv: "map_inv m" and ps: "good_segs ps" "ps \<noteq> []"
  shows "map_inv (remove_keys (subtree_keys m (abs_path ps)) m)"
  using map_invD[OF inv] ps
  unfolding map_inv_def look_remove_subtree[OF ps]
  by (auto intro: remove_keys_ok remove_keys_normal dest: prefix_order.trans)

section \<open>The tree a state stands for\<close>

datatype node = NFile bytes | NDir

fun node_of :: "entry \<Rightarrow> node" where
  "node_of (File d _) = NFile d"
| "node_of Dir = NDir"

type_synonym tree = "string list \<Rightarrow> node option"

definition tree_of :: "(string, entry) btree \<Rightarrow> tree" where
  "tree_of m q = map_option node_of (look m q)"

abbreviation tree :: "mem_state \<Rightarrow> tree" where
  "tree s \<equiv> tree_of (mem_map s)"

definition t_parents :: "string list \<Rightarrow> tree \<Rightarrow> tree" where
  "t_parents ps t = or_dirs NDir (proper_ancestors ps) t"

definition t_put :: "string list \<Rightarrow> node \<Rightarrow> tree \<Rightarrow> tree" where
  "t_put ps n t = (t_parents ps t)(ps \<mapsto> n)"

definition t_remove :: "string list \<Rightarrow> tree \<Rightarrow> tree" where
  "t_remove ps t q = (if prefix ps q then None else t q)"

definition t_rename :: "string list \<Rightarrow> string list \<Rightarrow> tree \<Rightarrow> tree" where
  "t_rename fs ts t q =
     (if prefix ts q then t (fs @ drop (length ts) q)
      else if prefix fs q then None
      else t_parents ts t q)"

lemma tree_None [simp]: "tree_of m q = None \<longleftrightarrow> look m q = None" "None = tree_of m q \<longleftrightarrow> look m q = None"
  by (auto simp: tree_of_def)

lemma tree_put [fs_simps]:
  "good_segs ps \<Longrightarrow>
   tree_of (bt_insert (abs_path ps) e (ensure_parents m (abs_path ps))) = t_put ps (node_of e) (tree_of m)"
  by (auto simp: fun_eq_iff tree_of_def fs_simps t_put_def t_parents_def or_dirs_def)

lemma tree_remove [fs_simps]:
  "good_segs ps \<Longrightarrow> ps \<noteq> [] \<Longrightarrow>
   tree_of (remove_keys (subtree_keys m (abs_path ps)) m) = t_remove ps (tree_of m)"
  by (auto simp: fun_eq_iff tree_of_def fs_simps t_remove_def)

section \<open>Renaming\<close>

lemma moved_abs:
  "fs \<noteq> [] \<Longrightarrow> ts \<noteq> [] \<Longrightarrow>
   abs_path ts @ drop (length (abs_path fs)) (abs_path (fs @ r)) = abs_path (ts @ r)"
  by (cases "r = []") (simp_all add: abs_path_append)

lemma tree_move_key:
  assumes "good_segs fs" "good_segs ts" "good_segs r" "fs \<noteq> []" "ts \<noteq> []"
    and "look (mem_map s) (fs @ r) \<noteq> None"
  shows "tree (move_key (abs_path fs) (abs_path ts) (abs_path (fs @ r)) s) =
    ((tree s)(fs @ r := None))(ts @ r := tree s (fs @ r))"
  using assms moved_abs[of fs ts r]
  by (auto simp: move_key_def bt_get_abs fs_simps tree_of_def take_revision_def Let_def fun_eq_iff
      split: entry.splits)

lemma move_key_ok: "bt_ok (mem_map s) \<Longrightarrow> bt_ok (mem_map (move_key from to k s))"
  by (auto simp: move_key_def take_revision_def Let_def split: option.splits entry.splits)

lemma move_key_normal:
  assumes "good_segs fs" "good_segs ts" "good_segs r" "fs \<noteq> []" "ts \<noteq> []" "normal_keys (mem_map s)"
  shows "normal_keys (mem_map (move_key (abs_path fs) (abs_path ts) (abs_path (fs @ r)) s))"
  using assms moved_abs[of fs ts r]
  by (auto simp: move_key_def take_revision_def Let_def
      intro!: normal_keys_insert normal_keys_remove split: option.splits entry.splits)

lemma incomparable_append: "\<not> prefix fs ts \<Longrightarrow> \<not> prefix ts fs \<Longrightarrow> fs @ r \<noteq> ts @ r'"
  by (metis prefix_def prefix_same_cases)

lemma fold_move_key:
  assumes "good_segs fs" "good_segs ts" "fs \<noteq> []" "ts \<noteq> []" "\<not> prefix fs ts" "\<not> prefix ts fs"
  shows "distinct rs \<Longrightarrow> \<forall>r \<in> set rs. good_segs r \<and> look (mem_map s) (fs @ r) \<noteq> None \<Longrightarrow>
    tree (fold (move_key (abs_path fs) (abs_path ts)) (map (\<lambda>r. abs_path (fs @ r)) rs) s) q =
      (if \<exists>r \<in> set rs. q = ts @ r then tree s (fs @ drop (length ts) q)
       else if \<exists>r \<in> set rs. q = fs @ r then None else tree s q)"
proof (induction rs arbitrary: s)
  case (Cons r rs)
  let ?s = "move_key (abs_path fs) (abs_path ts) (abs_path (fs @ r)) s"
  have t: "tree ?s = ((tree s)(fs @ r := None))(ts @ r := tree s (fs @ r))"
    using Cons.prems assms by (intro tree_move_key) auto
  have "look (mem_map ?s) (fs @ r') \<noteq> None" if "r' \<in> set rs" for r'
    using that Cons.prems incomparable_append[OF assms(5,6)] t
    by (auto simp flip: tree_None(1))
  with Cons.IH[of ?s] Cons.prems
  have IH: "tree (fold (move_key (abs_path fs) (abs_path ts)) (map (\<lambda>r. abs_path (fs @ r)) rs) ?s) q =
      (if \<exists>r \<in> set rs. q = ts @ r then tree ?s (fs @ drop (length ts) q)
       else if \<exists>r \<in> set rs. q = fs @ r then None else tree ?s q)"
    by auto
  have ne: "fs @ a \<noteq> ts @ b" "ts @ b \<noteq> fs @ a" for a b
    using incomparable_append[OF assms(5,6)] by metis+
  show ?case
    using Cons.prems(1) by (auto simp: IH t ne)
qed simp

lemma fold_move_key_keeps:
  assumes "good_segs fs" "good_segs ts" "fs \<noteq> []" "ts \<noteq> []"
  shows "\<forall>r \<in> set rs. good_segs r \<Longrightarrow> bt_ok (mem_map s) \<Longrightarrow> normal_keys (mem_map s) \<Longrightarrow>
    s' = fold (move_key (abs_path fs) (abs_path ts)) (map (\<lambda>r. abs_path (fs @ r)) rs) s \<Longrightarrow>
    bt_ok (mem_map s') \<and> normal_keys (mem_map s')"
  using assms by (induction rs arbitrary: s) (auto simp: move_key_ok move_key_normal)

text \<open>The keys of a subtree, by their segments below its top.\<close>

lemma subtree_keys_segs:
  assumes "bt_ok m" "normal_keys m" "good_segs fs" "fs \<noteq> []"
  obtains rs where "subtree_keys m (abs_path fs) = map (\<lambda>r. abs_path (fs @ r)) rs" "distinct rs"
    "\<And>r. r \<in> set rs \<longleftrightarrow> good_segs r \<and> look m (fs @ r) \<noteq> None"
proof -
  let ?ks = "subtree_keys m (abs_path fs)"
  let ?rs = "map (\<lambda>k. drop (length fs) (norm_parts k)) ?ks"
  have k: "\<exists>r. k = abs_path (fs @ r) \<and> good_segs r \<and> drop (length fs) (norm_parts k) = r \<and> look m (fs @ r) \<noteq> None"
    if "k \<in> set ?ks" for k
  proof -
    have "is_normal k" using that assms(2) by (auto simp: subtree_keys_def normal_keys_def)
    then obtain ks where ks: "k = abs_path ks" "good_segs ks" "norm_parts k = ks" by (elim is_normalE)
    then have "prefix fs ks" "look m ks \<noteq> None" using that in_subtree_keys[OF assms(3,4) ks(2)] by auto
    with ks show ?thesis by (auto simp: prefix_def)
  qed
  have eq: "?ks = map (\<lambda>r. abs_path (fs @ r)) ?rs"
    using k by (auto simp: map_idI[symmetric] intro!: map_idI[symmetric])
  have d: "distinct ?ks" using bt_ok_distinct[OF assms(1)] by (simp add: subtree_keys_def bt_keys_def)
  have "distinct ?rs"
    using d eq by (metis distinct_map)
  moreover have "r \<in> set ?rs \<longleftrightarrow> good_segs r \<and> look m (fs @ r) \<noteq> None" for r
  proof
    assume "r \<in> set ?rs" then show "good_segs r \<and> look m (fs @ r) \<noteq> None" using k by fastforce
  next
    assume r: "good_segs r \<and> look m (fs @ r) \<noteq> None"
    then have "abs_path (fs @ r) \<in> set ?ks" using in_subtree_keys[OF assms(3,4), of "fs @ r"] assms(3) by auto
    then show "r \<in> set ?rs" using r assms(3) by force
  qed
  ultimately show thesis using that[of ?rs] eq by blast
qed

lemma tree_ensure_parents [fs_simps]:
  "good_segs ps \<Longrightarrow> tree_of (ensure_parents m (abs_path ps)) = t_parents ps (tree_of m)"
  by (auto simp: fun_eq_iff tree_of_def fs_simps t_parents_def or_dirs_def)

lemma t_parents_other: "q \<notin> proper_ancestors ts \<Longrightarrow> t_parents ts t q = t q"
  by (simp add: t_parents_def or_dirs_def)

lemma t_parents_Some: "t q \<noteq> None \<or> q \<in> proper_ancestors ts \<Longrightarrow> t_parents ts t q \<noteq> None"
  by (auto simp: t_parents_def or_dirs_def)

lemma t_parents_ne_None: "t_parents ts t q \<noteq> None \<longleftrightarrow> t q \<noteq> None \<or> q \<in> proper_ancestors ts"
  by (auto simp: t_parents_def or_dirs_def)

lemma below_from_not_ancestor: "\<not> prefix fs ts \<Longrightarrow> fs @ r \<notin> proper_ancestors ts"
  by (auto simp: proper_ancestors_def strict_prefix_def dest: append_prefixD)

text \<open>The whole rename: the moved state refines the tree rename and keeps the invariant.\<close>

lemma rename_state:
  fixes s :: mem_state
  assumes inv: "mem_inv s" and g: "good_segs fs" "good_segs ts" and ne: "fs \<noteq> []" "ts \<noteq> []"
    and inc: "\<not> prefix fs ts" "\<not> prefix ts fs" and to: "look (mem_map s) ts = None"
  defines "s1 \<equiv> s\<lparr>mem_map := ensure_parents (mem_map s) (abs_path ts)\<rparr>"
  defines "s' \<equiv> fold (move_key (abs_path fs) (abs_path ts)) (subtree_keys (mem_map s1) (abs_path fs)) s1"
  shows "tree s' = t_rename fs ts (tree s)" "bt_ok (mem_map s')" "normal_keys (mem_map s')"
proof -
  have ok: "bt_ok (mem_map s1)" "normal_keys (mem_map s1)"
    using map_invD(1,2)[OF inv] g by (auto simp: s1_def)
  obtain rs where rs: "subtree_keys (mem_map s1) (abs_path fs) = map (\<lambda>r. abs_path (fs @ r)) rs"
      "distinct rs" "\<And>r. r \<in> set rs \<longleftrightarrow> good_segs r \<and> look (mem_map s1) (fs @ r) \<noteq> None"
    using subtree_keys_segs[OF ok g(1) ne(1)] by metis
  have s': "s' = fold (move_key (abs_path fs) (abs_path ts)) (map (\<lambda>r. abs_path (fs @ r)) rs) s1"
    by (simp add: s'_def rs(1))
  show "bt_ok (mem_map s')" "normal_keys (mem_map s')"
    using fold_move_key_keeps[OF g ne _ ok s'] rs(3) by auto
  have t1: "tree s1 = t_parents ts (tree s)" using g by (simp add: s1_def fs_simps)
  have t': "tree s' q = (if \<exists>r \<in> set rs. q = ts @ r then tree s1 (fs @ drop (length ts) q)
       else if \<exists>r \<in> set rs. q = fs @ r then None else tree s1 q)" for q
    unfolding s' using rs(2,3) by (intro fold_move_key[OF g ne inc]) auto
  have below: "tree s (ts @ r) = None" for r
    using map_invD(4)[OF inv, of ts "ts @ r"] to by (cases "look (mem_map s) (ts @ r)") auto
  have in_rs: "r \<in> set rs \<longleftrightarrow> tree s1 (fs @ r) \<noteq> None" for r
    using rs(3)[of r] look_good[of "mem_map s1" "fs @ r"] by auto
  have "tree s' q = t_rename fs ts (tree s) q" for q
  proof (cases "prefix ts q")
    case True
    then obtain r where q: "q = ts @ r" by (auto simp: prefix_def)
    have "ts @ r \<notin> proper_ancestors ts" by (auto simp: proper_ancestors_def strict_prefix_def)
    then have "tree s1 (ts @ r) = None" using below t1 by (simp add: t_parents_other)
    moreover have "ts @ r \<noteq> fs @ x" for x using incomparable_append[OF inc] by metis
    ultimately show ?thesis
      using t'[of q] in_rs[of r] below_from_not_ancestor[OF inc(1)] t1
      by (auto simp: q t_rename_def t_parents_other)
  next
    case False
    then have "\<not> (\<exists>r \<in> set rs. q = ts @ r)" by auto
    then have "tree s' q = (if \<exists>r \<in> set rs. q = fs @ r then None else tree s1 q)"
      using t'[of q] by simp
    then show ?thesis
      using False in_rs t1 by (auto simp: t_rename_def prefix_def)
  qed
  then show "tree s' = t_rename fs ts (tree s)" by blast
qed

lemma t_rename_closed:
  assumes cl: "\<And>ps qs. prefix qs ps \<Longrightarrow> t ps \<noteq> None \<Longrightarrow> t qs \<noteq> None"
    and root: "t [] \<noteq> None" and inc: "\<not> prefix fs ts" "\<not> prefix ts fs"
    and x: "prefix x q" and q: "t_rename fs ts t q \<noteq> None"
  shows "t_rename fs ts t x \<noteq> None"
proof (cases "prefix ts q")
  case True
  then obtain r where r: "q = ts @ r" by (auto simp: prefix_def)
  show ?thesis
  proof (cases "prefix ts x")
    case xt: True
    then obtain y where y: "x = ts @ y" by (auto simp: prefix_def)
    have "prefix (fs @ y) (fs @ r)" using x r y by simp
    then have "t (fs @ y) \<noteq> None" using q r by (intro cl[of "fs @ y" "fs @ r"]) (simp_all add: t_rename_def)
    then show ?thesis by (simp add: t_rename_def y)
  next
    case xt: False
    then have "strict_prefix x ts" using x r by (metis prefix_append prefix_order.le_imp_less_or_eq xt prefix_order.refl prefix_def)
    moreover from this have "\<not> prefix fs x" using inc(1) by (meson prefix_order.less_imp_le prefix_order.trans)
    ultimately show ?thesis
      using xt root by (cases "x = []") (simp_all add: t_rename_def t_parents_ne_None proper_ancestors_def del: not_None_eq)
  qed
next
  case False
  then have "\<not> prefix fs q" "t_parents ts t q \<noteq> None" using q by (auto simp: t_rename_def split: if_splits)
  moreover have "\<not> prefix ts x" using False x prefix_order.trans by blast
  moreover have "\<not> prefix fs x" using calculation(1) x prefix_order.trans by blast
  ultimately show ?thesis
    using cl[OF x] root proper_ancestors_prefix[OF _ x, of ts]
    by (cases "x = []") (auto simp: t_rename_def t_parents_ne_None simp del: not_None_eq)
qed

lemma map_inv_rename:
  fixes s :: mem_state
  assumes inv: "mem_inv s" and g: "good_segs fs" "good_segs ts" and ne: "fs \<noteq> []" "ts \<noteq> []"
    and inc: "\<not> prefix fs ts" "\<not> prefix ts fs" and to: "look (mem_map s) ts = None"
  defines "s1 \<equiv> s\<lparr>mem_map := ensure_parents (mem_map s) (abs_path ts)\<rparr>"
  defines "s' \<equiv> fold (move_key (abs_path fs) (abs_path ts)) (subtree_keys (mem_map s1) (abs_path fs)) s1"
  shows "mem_inv s'"
proof -
  note st = rename_state[OF inv g ne inc to, folded s1_def, folded s'_def]
  have cl: "tree s qs \<noteq> None" if "prefix qs ps" "tree s ps \<noteq> None" for ps qs
    using map_invD(4)[OF inv that(1)] that(2) by simp
  have root: "tree s [] = Some NDir" using map_invD(3)[OF inv] by (simp add: tree_of_def)
  have "tree s' qs \<noteq> None" if "prefix qs ps" "tree s' ps \<noteq> None" for ps qs
    using t_rename_closed[where t = "tree s", OF cl _ inc that(1)] root that(2) st(1) by simp
  moreover have "tree s' [] = Some NDir"
    using root ne st(1) by (auto simp: t_rename_def t_parents_def or_dirs_def)
  then have "look (mem_map s') [] = Some Dir"
    by (auto simp: tree_of_def elim: node_of.elims)
  ultimately show ?thesis using st(2,3) by (auto simp: map_inv_def)
qed

section \<open>Refinement\<close>

text \<open>What a mutation does to the tree.\<close>

fun t_apply :: "fs_mutation \<Rightarrow> tree \<Rightarrow> tree" where
  "t_apply (MWrite p d _) t = t_put (norm_parts p) (NFile d) t"
| "t_apply (MMkdir p) t = (if t (norm_parts p) = Some NDir then t else t_put (norm_parts p) NDir t)"
| "t_apply (MRemove p _) t = t_remove (norm_parts p) t"
| "t_apply (MRename f g _) t = t_rename (norm_parts f) (norm_parts g) t"

text \<open>When an unconditional mutation is accepted: stated on the tree alone.\<close>

definition no_file_above :: "string list \<Rightarrow> tree \<Rightarrow> bool" where
  "no_file_above ps t \<longleftrightarrow>
     (\<forall>n \<in> {1..<length ps}. case t (take n ps) of Some (NFile _) \<Rightarrow> False | _ \<Rightarrow> True)"

lemma no_file_above_iff:
  "no_file_above ps t \<longleftrightarrow> (\<forall>as d. as \<noteq> [] \<longrightarrow> strict_prefix as ps \<longrightarrow> t as \<noteq> Some (NFile d))"
proof -
  have c: "(case x of Some (NFile _) \<Rightarrow> False | _ \<Rightarrow> True) \<longleftrightarrow> (\<forall>d. x \<noteq> Some (NFile d))" for x
    by (auto split: option.splits node.splits)
  have "(\<forall>n \<in> {1..<length ps}. P (take n ps)) \<longleftrightarrow> (\<forall>as. as \<noteq> [] \<longrightarrow> strict_prefix as ps \<longrightarrow> P as)" for P
    unfolding strict_prefix_take_iff
    by (auto simp: Suc_le_eq) (metis gr_implies_not0 less_nat_zero_code list.size(3) take_eq_Nil2)
  then show ?thesis unfolding no_file_above_def c by simp
qed

fun t_enabled :: "fs_mutation \<Rightarrow> tree \<Rightarrow> bool" where
  "t_enabled (MWrite p _ _) t \<longleftrightarrow>
     (let ps = norm_parts p in ps \<noteq> [] \<and> t ps \<noteq> Some NDir \<and> no_file_above ps t)"
| "t_enabled (MMkdir p) t \<longleftrightarrow>
     (let ps = norm_parts p in t ps = Some NDir \<or> (t ps = None \<and> no_file_above ps t))"
| "t_enabled (MRemove p _) t \<longleftrightarrow> (let ps = norm_parts p in ps \<noteq> [] \<and> t ps \<noteq> None)"
| "t_enabled (MRename f g _) t \<longleftrightarrow>
     (let fs = norm_parts f; ts = norm_parts g in
      fs \<noteq> [] \<and> t fs \<noteq> None \<and> t ts = None \<and> \<not> prefix fs ts \<and> no_file_above ts t)"

fun mutation_precondition :: "fs_mutation \<Rightarrow> (string \<times> precondition) option" where
  "mutation_precondition (MWrite p _ c) = Some (normalize_vfs p, c)"
| "mutation_precondition (MMkdir _) = None"
| "mutation_precondition (MRemove p c) = Some (normalize_vfs p, c)"
| "mutation_precondition (MRename f _ c) = Some (normalize_vfs f, c)"

definition precondition_holds :: "mem_state \<Rightarrow> fs_mutation \<Rightarrow> bool" where
  "precondition_holds s m =
     (case mutation_precondition m of None \<Rightarrow> True | Some (p, c) \<Rightarrow> is_ok (check_precondition (mem_map s) p c))"

lemma first_file_ancestor_ok:
  "is_ok (first_file_ancestor m ks) \<longleftrightarrow> (\<forall>k \<in> set ks. \<forall>d r. bt_get m k \<noteq> Some (File d r))"
  by (induction m ks rule: first_file_ancestor.induct) (auto split: option.splits entry.splits)

lemma node_of_NFile: "node_of e = NFile d \<longleftrightarrow> (\<exists>r. e = File d r)"
  by (cases e) auto

lemma node_of_NDir: "node_of e = NDir \<longleftrightarrow> e = Dir"
  by (cases e) auto

lemma tree_NFile: "tree_of m q = Some (NFile d) \<longleftrightarrow> (\<exists>r. look m q = Some (File d r))"
  by (auto simp: tree_of_def node_of_NFile)

lemma tree_NDir: "tree_of m q = Some NDir \<longleftrightarrow> look m q = Some Dir"
  by (auto simp: tree_of_def node_of_NDir)

lemma reject_file_ancestor_ok:
  assumes "good_segs ps"
  shows "is_ok (reject_file_ancestor m (abs_path ps)) \<longleftrightarrow> no_file_above ps (tree_of m)"
proof -
  have "good_segs as" if "strict_prefix as ps" for as
    using assms that by (meson good_segs_prefix prefix_order.less_imp_le)
  then show ?thesis
    by (auto simp: reject_file_ancestor_def first_file_ancestor_ok set_path_ancestors[OF assms]
        no_file_above_iff tree_NFile bt_get_abs)
qed

lemma reject_file_ancestor_cases:
  assumes "good_segs ps"
  shows "reject_file_ancestor m (abs_path ps) = Ok () \<and> no_file_above ps (tree_of m) \<or>
    (\<exists>e. reject_file_ancestor m (abs_path ps) = Err e \<and> \<not> no_file_above ps (tree_of m))"
  using reject_file_ancestor_ok[OF assms, of m]
  by (cases "reject_file_ancestor m (abs_path ps)") auto

lemma insert_file_sel:
  "mem_map (insert_file s p d) = bt_insert p (File d (next_revision s + 1)) (ensure_parents (mem_map s) p)"
  "next_revision (insert_file s p d) = next_revision s + 1"
  by (simp_all add: insert_file_def take_revision_def Let_def)

lemma tree_insert_file [fs_simps]:
  "good_segs ps \<Longrightarrow> tree (insert_file s (abs_path ps) d) = t_put ps (NFile d) (tree s)"
  by (simp add: insert_file_sel fs_simps)

lemma mem_inv_insert_file:
  "mem_inv s \<Longrightarrow> good_segs ps \<Longrightarrow> ps \<noteq> [] \<Longrightarrow> mem_inv (insert_file s (abs_path ps) d)"
  by (simp add: insert_file_sel map_inv_put)

text \<open>Every item validates before it mutates.\<close>

lemma apply_one_err: "apply_one s m = (Err e, s') \<Longrightarrow> s' = s"
  by (cases m) (auto simp: mem_write_if_def apply_rename_def Let_def
      split: if_splits sum.splits option.splits entry.splits)

lemma map_inv_root: "map_inv m \<Longrightarrow> tree_of m [] = Some NDir"
  by (simp add: map_invD tree_NDir)

lemma map_inv_ancestor: "map_inv m \<Longrightarrow> look m fs \<noteq> None \<Longrightarrow> look m ts = None \<Longrightarrow> \<not> prefix ts fs"
  using map_invD(4) by blast

lemma bt_contains_normalize: "bt_contains m (normalize_vfs p) \<longleftrightarrow> tree_of m (norm_parts p) \<noteq> None"
  by (simp add: bt_contains_def bt_get_normalize)

text \<open>The four kinds of items, each against the tree.\<close>

definition refines_item :: "mem_state \<Rightarrow> fs_mutation \<Rightarrow> bool" where
  "refines_item s m \<longleftrightarrow>
     (case apply_one s m of
        (Inl _, _) \<Rightarrow> \<not> (t_enabled m (tree s) \<and> precondition_holds s m)
      | (Inr _, s') \<Rightarrow> t_enabled m (tree s) \<and> precondition_holds s m \<and>
          tree s' = t_apply m (tree s) \<and> mem_inv s')"

lemma refines_write: "mem_inv s \<Longrightarrow> refines_item s (MWrite p d c)"
  using reject_file_ancestor_cases[of "norm_parts p" "mem_map s"]
  by (auto simp: refines_item_def mem_write_if_def Let_def precondition_holds_def normalize_root_iff
      bt_get_normalize tree_NDir normalize_abs[of p] bt_get_abs fs_simps mem_inv_insert_file split: sum.splits)

lemma refines_mkdir:
  assumes "mem_inv s"
  shows "refines_item s (MMkdir p)"
proof -
  have "norm_parts p \<noteq> []" if "look (mem_map s) (norm_parts p) = None"
    using that map_invD(3)[OF assms] by auto
  then show ?thesis
    using assms reject_file_ancestor_cases[of "norm_parts p" "mem_map s"]
    by (auto simp: refines_item_def Let_def precondition_holds_def bt_get_normalize tree_NDir
        normalize_abs[of p] bt_get_abs fs_simps map_inv_put node_of.simps
        split: option.splits entry.splits)
qed

lemma refines_remove: "mem_inv s \<Longrightarrow> refines_item s (MRemove p c)"
  by (auto simp: refines_item_def Let_def precondition_holds_def normalize_root_iff
      bt_contains_def bt_get_abs normalize_abs[of p] fs_simps map_inv_remove_subtree
      split: sum.splits)

lemma refines_rename:
  assumes inv: "mem_inv s"
  shows "refines_item s (MRename f g c)"
proof -
  let ?fs = "norm_parts f" and ?ts = "norm_parts g"
  have below: "starts_with (abs_path ?ts) (abs_path ?fs @ ''/'') \<longleftrightarrow> strict_prefix ?fs ?ts" if "?fs \<noteq> []"
    using that by (intro starts_below_iff) auto
  have ts: "?ts \<noteq> []" if "look (mem_map s) ?ts = None" using that map_invD(3)[OF inv] by auto
  note up = map_inv_ancestor[OF inv]
  show ?thesis
  proof (cases "look (mem_map s) ?fs = None \<or> look (mem_map s) ?ts \<noteq> None \<or> ?fs = [] \<or> prefix ?fs ?ts")
    case True
    then show ?thesis
      using below
      by (auto simp: refines_item_def apply_rename_def Let_def bt_contains_normalize normalize_root_iff
          normalize_abs strict_prefix_def bt_contains_def bt_get_abs split: sum.splits)
  next
    case False
    then have "\<not> prefix ?ts ?fs" using up by blast
    with False show ?thesis
      using below ts rename_state(1)[OF inv, of ?fs ?ts] map_inv_rename[OF inv, of ?fs ?ts]
        reject_file_ancestor_cases[of "?ts" "mem_map s"]
      by (auto simp: refines_item_def apply_rename_def Let_def bt_contains_normalize normalize_root_iff
          normalize_abs strict_prefix_def bt_contains_def bt_get_abs precondition_holds_def
          split: sum.splits)
  qed
qed

lemma refines_any: "mem_inv s \<Longrightarrow> refines_item s m"
  by (cases m) (simp_all add: refines_write refines_mkdir refines_remove refines_rename)

lemma apply_one_ok:
  assumes "mem_inv s" "apply_one s m = (Ok u, s')"
  shows "tree s' = t_apply m (tree s)" "mem_inv s'" "t_enabled m (tree s)" "precondition_holds s m"
  using refines_any[OF assms(1), of m] assms(2) by (auto simp: refines_item_def)

lemma apply_each_ok:
  "mem_inv s \<Longrightarrow> apply_each s ms = (Ok u, s') \<Longrightarrow> tree s' = fold t_apply ms (tree s) \<and> mem_inv s'"
proof (induction ms arbitrary: s)
  case (Cons m ms)
  then obtain v s1 where "apply_one s m = (Ok v, s1)" "apply_each s1 ms = (Ok u, s')"
    by (auto split: prod.splits sum.splits)
  with Cons apply_one_ok[of s m v s1] show ?case by auto
qed simp

lemma mem_apply_batch_each:
  "mem_apply_batch s ms =
     (case apply_each s ms of (Inl e, _) \<Rightarrow> (Err e, s) | (Inr _, s') \<Rightarrow> (Ok (), s'))"
  by (cases ms rule: remdups_adj.cases)
    (auto simp: mem_apply_batch_def split: sum.splits prod.splits dest: apply_one_err)

text \<open>C15: A batch of filesystem mutations is atomic and does what it says: if the batch returns an
  error nothing changed, and if it succeeds the resulting tree is the one obtained by applying every
  mutation in order to the initial tree (writes create missing parent directories, a removal takes
  the whole subtree, a rename moves the whole subtree), with the state invariant (ordered normal
  keys, a root directory, every stored path below stored ancestors) kept.\<close>

theorem mem_batch_atomic_refines:
  assumes "mem_inv s" "mem_apply_batch s ms = (r, s')"
  shows "mem_inv s' \<and> (if is_ok r then tree s' = fold t_apply ms (tree s) else s' = s)"
  using assms apply_each_ok[OF assms(1), of ms]
  by (auto simp: mem_apply_batch_each split: prod.splits sum.splits)

lemma map_inv_new: "mem_inv mem_new"
  by (auto simp: mem_new_def map_inv_def bt_ok_def normal_keys_def bt_keys_def look_def bt_get_def
      is_normal_def normalize_vfs_def norm_parts_def norm_seg_def abs_path_eq_root
      dest: good_segs_prefix split: if_splits)

definition sample_batch :: "fs_mutation list" where
  "sample_batch = [MWrite ''/a/x'' ''one'' MustBeAbsent, MWrite ''/a/y'' ''two'' Unconditional,
     MRename ''/a'' ''/b/c'' Unconditional, MRemove ''/b/c/y'' Unconditional]"

definition sample_after :: mem_state where
  "sample_after = snd (mem_apply_batch mem_new sample_batch)"

theorem mem_batch_atomic_refines_witness:
  "mem_inv sample_after \<and> tree sample_after = fold t_apply sample_batch (tree mem_new) \<and>
   mem_read sample_after ''/b/c/x'' = Ok ''one''"
proof -
  have "mem_apply_batch mem_new sample_batch = (Ok (), sample_after)"
    unfolding sample_after_def by code_simp
  moreover have "mem_read sample_after ''/b/c/x'' = Ok ''one''"
    by code_simp
  ultimately show ?thesis
    using mem_batch_atomic_refines[OF map_inv_new, of sample_batch "Ok ()" sample_after] by simp
qed

section \<open>The filesystem contract\<close>

definition file_at :: "tree \<Rightarrow> string list \<Rightarrow> bytes option" where
  "file_at t q = (case t q of Some (NFile d) \<Rightarrow> Some d | _ \<Rightarrow> None)"

lemma memory_fs_sel [simp]:
  "vfs_read (memory_fs a b) = mem_read" "vfs_write (memory_fs a b) = mem_write"
  "vfs_exists (memory_fs a b) = mem_exists" "vfs_list_dir (memory_fs a b) = mem_list_dir"
  "vfs_mkdir (memory_fs a b) = mem_mkdir" "vfs_remove (memory_fs a b) = mem_remove"
  "vfs_metadata (memory_fs a b) = mem_metadata" "vfs_snapshot (memory_fs a b) = mem_snapshot a"
  "vfs_restore (memory_fs a b) = mem_restore b" "vfs_write_if (memory_fs a b) = mem_write_if"
  "vfs_rename (memory_fs a b) = mem_rename" "vfs_apply_batch (memory_fs a b) = mem_apply_batch"
  "vfs_list_dir_bounded (memory_fs a b) = default_list_dir_bounded mem_list_dir"
  by (simp_all add: memory_fs_def)

lemma mem_read_tree:
  "mem_read s p = (case tree s (norm_parts p) of
     Some (NFile d) \<Rightarrow> Ok d | Some NDir \<Rightarrow> Err (NotAFile (normalize_vfs p))
   | None \<Rightarrow> Err (NotFound (normalize_vfs p)))"
  by (auto simp: mem_read_def Let_def bt_get_normalize tree_of_def split: option.splits entry.splits)

lemma mem_exists_tree: "mem_exists s p \<longleftrightarrow> tree s (norm_parts p) \<noteq> None"
  by (simp add: mem_exists_def bt_contains_normalize)

lemma content_tree: "content (memory_fs a b) s p = file_at (tree s) (norm_parts p)"
  by (auto simp: content_def mem_read_tree file_at_def simp del: tree_None split: option.splits node.splits)

lemma file_at_put [fs_simps]: "file_at (t_put ps (NFile d) t) q = (if q = ps then Some d else file_at t q)"
  by (auto simp: file_at_def t_put_def t_parents_def or_dirs_def split: option.splits)

lemma file_at_mkdir [fs_simps]: "t ps = None \<Longrightarrow> file_at (t_put ps NDir t) q = file_at t q"
  by (auto simp: file_at_def t_put_def t_parents_def or_dirs_def split: option.splits)

lemma file_at_remove [fs_simps]: "file_at (t_remove ps t) q = (if prefix ps q then None else file_at t q)"
  by (simp add: file_at_def t_remove_def)

lemma mem_write_cases:
  "mem_write s p d = (if norm_parts p = [] then (Err (NotAFile ''/''), s)
     else (Ok (), insert_file s (abs_path (norm_parts p)) d))"
  by (simp add: mem_write_def Let_def normalize_abs)

lemma mem_mkdir_cases:
  "mem_mkdir s p = (case tree s (norm_parts p) of
      Some NDir \<Rightarrow> (Ok (), s)
    | Some (NFile _) \<Rightarrow> (Err (NotAFile (normalize_vfs p)), s)
    | None \<Rightarrow> (Ok (), s\<lparr>mem_map := bt_insert (abs_path (norm_parts p)) Dir
                       (ensure_parents (mem_map s) (abs_path (norm_parts p)))\<rparr>))"
  by (auto simp: mem_mkdir_def Let_def bt_get_normalize tree_of_def normalize_abs bt_get_abs
      split: option.split entry.split)

lemma mem_remove_cases:
  "mem_remove s p =
     (if norm_parts p = [] then (Err (Io ''cannot remove root''), s)
      else if tree s (norm_parts p) = None then (Err (NotFound (normalize_vfs p)), s)
      else (Ok (), s\<lparr>mem_map := remove_keys (subtree_keys (mem_map s) (abs_path (norm_parts p))) (mem_map s)\<rparr>))"
  by (simp add: mem_remove_def Let_def bt_contains_normalize normalize_abs bt_contains_def bt_get_abs)

lemma mem_write_if_err: "mem_write_if s p d c = (Err e, s') \<Longrightarrow> s' = s"
  using apply_one_err[of s "MWrite p d c" e s'] by simp

lemma tree_root_none: "mem_inv s \<Longrightarrow> tree s (norm_parts p) = None \<Longrightarrow> norm_parts p \<noteq> []"
  using map_inv_root by fastforce

interpretation mem: file_store "memory_fs to_vec from_slice" mem_inv for to_vec from_slice
proof (unfold_locales, goal_cases)
  case (1 s p) show ?case by (simp add: mem_read_tree cong: option.case_cong node.case_cong)
next
  case (2 s p) show ?case by (simp add: mem_exists_tree)
next
  case (3 s p) then show ?case
    by (auto simp: mem_exists_tree missing_def mem_read_tree simp del: tree_None split: option.splits node.splits)
next
  case (4 s p d) then show ?case by (simp add: mem_write_cases mem_inv_insert_file)
next
  case (5 s p d e s') then show ?case by (simp add: mem_write_cases split: if_splits)
next
  case (6 s p d u s' q) then show ?case
    by (auto simp: mem_write_cases content_tree fs_simps split: if_splits)
next
  case (7 s p) then show ?case
    by (auto simp: mem_mkdir_cases map_inv_put tree_root_none simp del: tree_None split: option.splits node.splits)
next
  case (8 s p e s') then show ?case
    by (auto simp: mem_mkdir_cases split: option.splits node.splits)
next
  case (9 s p u s' q) then show ?case
    by (auto simp: mem_mkdir_cases content_tree fs_simps simp del: tree_None split: option.splits node.splits)
next
  case (10 s p) then show ?case by (simp add: mem_remove_cases map_inv_remove_subtree)
next
  case (11 s p e s') then show ?case by (simp add: mem_remove_cases split: if_splits)
next
  case (12 s p u s' q) then show ?case
    by (auto simp: mem_remove_cases content_tree fs_simps split: if_splits)
next
  case (13 s p) then show ?case by (simp add: mem_remove_cases)
qed

lemma mem_batch_inv: "mem_inv s \<Longrightarrow> mem_inv (snd (mem_apply_batch s ms))"
  using apply_each_ok by (auto simp: mem_apply_batch_each split: prod.splits sum.splits)

interpretation mem_atomic: atomic_store "memory_fs to_vec from_slice" mem_inv for to_vec from_slice
proof (unfold_locales, goal_cases)
  case (1 s p d c)
  then show ?case using mem_batch_inv[of s "[MWrite p d c]"] by (simp add: mem_apply_batch_def)
next
  case (2 s p d c e s') then show ?case by (auto dest: mem_write_if_err)
next
  case (3 s p d c u s' q)
  then show ?case using apply_one_ok(1)[of s "MWrite p d c" u s'] by (simp add: content_tree fs_simps)
next
  case (4 s ms) then show ?case by (simp add: mem_batch_inv)
next
  case (5 s ms e s') then show ?case by (auto simp: mem_apply_batch_each split: prod.splits sum.splits)
next
  case (6 s f t u s') show ?case by (simp add: mem_rename_def)
next
  case (7 s f t) then show ?case by (simp add: mem_rename_def mem_batch_inv)
next
  case (8 s f t e s') then show ?case by (auto simp: mem_rename_def mem_apply_batch_each split: prod.splits sum.splits)
qed

section \<open>Acceptance and listings\<close>

text \<open>One mutation of the in-memory filesystem succeeds exactly when its precondition on the
  stored revision holds and the tree admits it: a write needs a target that is neither the root nor a
  directory and no file on the way, a removal an existing target other than the root, a rename an
  existing source other than the root, a free target outside the source and no file above it.  In
  particular the guard against moving a directory into itself is exact.\<close>

theorem mem_item_accepted_iff:
  assumes "mem_inv s"
  shows "is_ok (fst (apply_one s m)) \<longleftrightarrow> t_enabled m (tree s) \<and> precondition_holds s m"
  using refines_any[OF assms, of m] by (auto simp: refines_item_def split: prod.splits sum.splits)

theorem mem_item_accepted_iff_witness:
  "\<not> is_ok (fst (apply_one sample_after (MRename ''/b'' ''/b/c/d'' Unconditional))) \<and>
   is_ok (fst (apply_one sample_after (MRename ''/b/c'' ''/d'' Unconditional)))"
proof -
  have inv: "mem_inv sample_after"
    unfolding sample_after_def by (rule mem_batch_inv[OF map_inv_new])
  have "is_ok (fst (apply_one sample_after (MRename ''/b/c'' ''/d'' Unconditional)))" by code_simp
  moreover have "\<not> t_enabled (MRename ''/b'' ''/b/c/d'' Unconditional) (tree sample_after)"
    by code_simp
  ultimately show ?thesis
    using mem_item_accepted_iff[OF inv] by blast
qed

lemma join_no_slash: "r \<noteq> [] \<Longrightarrow> c \<notin> set (join_with c r) \<Longrightarrow> r = [join_with c r]"
  by (cases "(c, r)" rule: join_with.cases) auto

lemma child_name_iff:
  assumes ps: "good_segs ps" and ks: "good_segs ks"
  shows "child_name (abs_path ps) (raw_path ps @ ''/'') (abs_path ks) = Some n \<longleftrightarrow> ks = ps @ [n]"
proof
  assume "child_name (abs_path ps) (raw_path ps @ ''/'') (abs_path ks) = Some n"
  then have n: "abs_path ks = raw_path ps @ slash # n" "slash \<notin> set n" "n \<noteq> []"
    by (auto simp: child_name_def contains_char_def strip_prefix_Some split: if_splits option.splits)
  show "ks = ps @ [n]"
  proof (cases "ps = []")
    case True
    then have "join_with slash ks = n" using n by (simp add: raw_path_def abs_path_def)
    with n True show ?thesis using join_no_slash[of ks slash] by (cases ks) auto
  next
    case False
    then have "prefix (abs_path ps @ ''/'') (abs_path ks)" using n by (auto simp: raw_path_def)
    then obtain r where r: "r \<noteq> []" "ks = ps @ r" using prefix_abs_slash[OF ps False ks] by auto
    with n False have "join_with slash r = n" by (simp add: abs_path_append raw_path_def)
    with n r show ?thesis using join_no_slash[of r slash] by simp
  qed
next
  assume k: "ks = ps @ [n]"
  then have "abs_path ks = (raw_path ps @ ''/'') @ n" by (simp add: abs_path_snoc raw_path_def)
  moreover have "good_seg n" "abs_path ks \<noteq> abs_path ps" using k ks ps abs_path_inject by auto
  ultimately show "child_name (abs_path ps) (raw_path ps @ ''/'') (abs_path ks) = Some n"
    using strip_prefix_append[of "raw_path ps @ ''/''" n]
    by (simp add: child_name_def contains_char_def good_seg_def)
qed

lemma append_less_append: "(p @ x :: 'a::order list) < p @ y \<longleftrightarrow> x < y"
  by (induction p) auto

lemma sorted_map_filter:
  assumes "sorted_wrt (<) (ks :: string list)" "\<And>k n. f k = Some n \<Longrightarrow> k = p @ n"
  shows "sorted_wrt (<) (List.map_filter f ks)"
  using assms(1)
proof (induction ks)
  case (Cons k ks)
  have "n < n'" if "f k = Some n" "n' \<in> set (List.map_filter f ks)" for n n'
  proof -
    from that obtain k' where "k' \<in> set ks" "f k' = Some n'" by (auto simp: List.map_filter_def)
    then have "p @ n < p @ n'" using Cons.prems assms(2)[OF that(1)] assms(2)[of k' n'] by auto
    then show ?thesis by (simp add: append_less_append)
  qed
  with Cons show ?case by (auto simp: List.map_filter_def split: option.splits)
qed (simp add: List.map_filter_def)

text \<open>Listing a directory returns exactly the names directly below it, each once and in strictly
  increasing byte order; listing anything else is the corresponding error.\<close>

theorem mem_list_dir_children:
  assumes "mem_inv s"
  shows "case mem_list_dir s p of
      Inr ns \<Rightarrow> tree s (norm_parts p) = Some NDir \<and> sorted_wrt (<) ns \<and>
        set ns = {n. tree s (norm_parts p @ [n]) \<noteq> None}
    | Inl e \<Rightarrow> e = NotFound (normalize_vfs p) \<and> tree s (norm_parts p) = None \<or>
        e = NotADirectory (normalize_vfs p) \<and> (\<exists>d. tree s (norm_parts p) = Some (NFile d))"
proof (cases "look (mem_map s) (norm_parts p) = Some Dir")
  case False
  then show ?thesis
    by (auto simp: mem_list_dir_def Let_def bt_get_normalize tree_of_def split: option.splits entry.splits)
next
  case True
  let ?ps = "norm_parts p" and ?keys = "bt_keys (mem_map s)"
  let ?f = "child_name (abs_path ?ps) (raw_path ?ps @ ''/'')"
  have eq: "mem_list_dir s p = Ok (List.map_filter ?f ?keys)"
    using True by (auto simp: mem_list_dir_def Let_def bt_get_normalize normalize_abs bt_get_abs raw_path_def)
  have "n \<in> set (List.map_filter ?f ?keys) \<longleftrightarrow> look (mem_map s) (?ps @ [n]) \<noteq> None" for n
  proof
    assume "n \<in> set (List.map_filter ?f ?keys)"
    then obtain k where k: "k \<in> set ?keys" "?f k = Some n" by (auto simp: List.map_filter_def)
    then obtain ks where "k = abs_path ks" "good_segs ks"
      using map_invD(2)[OF assms] by (metis normal_keys_def is_normalE)
    with k show "look (mem_map s) (?ps @ [n]) \<noteq> None"
      using child_name_iff[of ?ps ks n] by (auto simp: look_def bt_keys_dom)
  next
    assume l: "look (mem_map s) (?ps @ [n]) \<noteq> None"
    then have g: "good_segs (?ps @ [n])" by (rule look_good)
    then have "abs_path (?ps @ [n]) \<in> set ?keys" using l by (auto simp: look_def bt_keys_dom)
    then show "n \<in> set (List.map_filter ?f ?keys)"
      using child_name_iff[OF _ g, of ?ps n] by (force simp: List.map_filter_def)
  qed
  moreover have "sorted_wrt (<) (List.map_filter ?f ?keys)"
    using map_invD(1)[OF assms]
    by (intro sorted_map_filter[where p = "raw_path ?ps @ ''/''"])
      (auto simp: bt_ok_def bt_keys_def child_name_def strip_prefix_Some split: if_splits option.splits)
  ultimately show ?thesis using True by (auto simp: eq tree_NDir)
qed

theorem mem_list_dir_children_witness:
  "mem_list_dir sample_after ''/b/'' = Ok [''c''] \<and> {n. tree sample_after ([''b''] @ [n]) \<noteq> None} = {''c''}"
proof -
  have inv: "mem_inv sample_after"
    unfolding sample_after_def by (rule mem_batch_inv[OF map_inv_new])
  have l: "mem_list_dir sample_after ''/b/'' = Ok [''c'']" and b: "norm_parts ''/b/'' = [''b'']"
    by code_simp+
  show ?thesis using mem_list_dir_children[OF inv, of "''/b/''"] unfolding l b by simp
qed

section \<open>Snapshots\<close>

lemma restore_item_get:
  "map_option node_of (bt_get (mem_map (restore_item (p, f, d) s)) k) =
     (if k = p then Some (if f then NFile d else NDir) else map_option node_of (bt_get (mem_map s) k))"
  by (simp add: restore_item_def take_revision_def Let_def bt_simps)

lemma fold_restore_get:
  "distinct (map fst items) \<Longrightarrow>
   map_option node_of (bt_get (mem_map (fold restore_item items s)) k) =
     (case map_of items k of
        Some (f, d) \<Rightarrow> Some (if f then NFile d else NDir)
      | None \<Rightarrow> map_option node_of (bt_get (mem_map s) k))"
proof (induction items arbitrary: s)
  case (Cons item items)
  obtain p f d where "item = (p, f, d)" by (cases item) auto
  moreover have "map_of items p = None" using Cons.prems calculation by (simp add: map_of_eq_None_iff)
  ultimately show ?case
    using Cons by (auto simp: restore_item_get split: option.splits)
qed simp

lemma fold_restore_ok: "bt_ok (mem_map s) \<Longrightarrow> bt_ok (mem_map (fold restore_item items s))"
proof (induction items arbitrary: s)
  case (Cons item items)
  have "bt_ok (mem_map (restore_item item s))"
    using Cons.prems by (cases item) (auto simp: restore_item_def take_revision_def Let_def)
  with Cons.IH show ?case by simp
qed simp

lemma map_of_snapshot:
  "map_of (map snapshot_item m) k =
     (case map_of m k of None \<Rightarrow> None | Some (File d _) \<Rightarrow> Some (True, d) | Some Dir \<Rightarrow> Some (False, []))"
  by (induction m) (auto simp: snapshot_item_def split: entry.splits)

lemma map_inv_cong:
  assumes "map_inv m" "bt_ok m'" "\<And>k. map_option node_of (bt_get m' k) = map_option node_of (bt_get m k)"
  shows "map_inv m'" "tree_of m' = tree_of m"
proof -
  show t: "tree_of m' = tree_of m" using assms(3) by (auto simp: fun_eq_iff tree_of_def look_def)
  have "bt_get m' k = None \<longleftrightarrow> bt_get m k = None" for k
    using assms(3)[of k] by (metis map_option_is_None)
  then have "set (bt_keys m') = set (bt_keys m)" by (auto simp: bt_keys_dom dom_def)
  moreover have "look m' q = None \<longleftrightarrow> look m q = None" for q using t by (metis tree_None(1))
  moreover have "look m' [] = Some Dir" using t map_inv_root[OF assms(1)] by (simp flip: tree_NDir)
  ultimately show "map_inv m'"
    using assms(1,2) by (simp add: map_inv_def normal_keys_def)
qed

lemma map_fst_snapshot: "map fst (map snapshot_item m) = map fst m"
  by (auto simp: snapshot_item_def split: prod.splits entry.splits)

lemma mem_restore_items:
  assumes inv: "mem_inv s" and j: "from_slice j = Ok (map snapshot_item (mem_map s))"
  obtains s' where "mem_restore from_slice s2 j = (Ok (), s')" "tree s' = tree s" "mem_inv s'"
proof -
  let ?items = "map snapshot_item (mem_map s)"
  let ?s' = "fold restore_item ?items (s2\<lparr>mem_map := []\<rparr>)"
  have d: "distinct (map fst ?items)"
    using bt_ok_distinct[OF map_invD(1)[OF inv]] by (simp add: map_fst_snapshot del: map_map)
  have g: "map_option node_of (bt_get (mem_map ?s') k) = map_option node_of (bt_get (mem_map s) k)" for k
    unfolding fold_restore_get[OF d] map_of_snapshot
    by (auto simp: bt_get_def split: option.splits entry.splits)
  show thesis
    using that[of ?s'] j map_inv_cong[OF inv _ g] by (simp add: mem_restore_def fold_restore_ok)
qed

text \<open>C16: Restoring a snapshot brings back the whole tree into any filesystem, whatever it held:
  provided the serialiser's decoder reads back what its encoder wrote, restoring what \<open>snapshot\<close>
  returned succeeds, and the restored state satisfies the invariant and holds exactly the files and
  directories that were saved.\<close>

theorem mem_snapshot_roundtrip:
  assumes inv: "mem_inv s" and snap: "mem_snapshot to_vec s = Ok j"
    and codec: "\<And>items j. to_vec items = Ok j \<Longrightarrow> from_slice j = Ok items"
  shows "\<exists>s'. mem_restore from_slice s2 j = (Ok (), s') \<and> tree s' = tree s \<and> mem_inv s'"
proof -
  have "to_vec (map snapshot_item (mem_map s)) = Ok j"
    using snap by (simp add: mem_snapshot_def split: sum.splits)
  then show ?thesis using codec mem_restore_items[OF inv] by metis
qed

definition plain_codec :: "snapshot_items \<Rightarrow> string + snapshot_items" where
  "plain_codec items = Ok items"

theorem mem_snapshot_roundtrip_witness:
  "\<exists>j s'. mem_snapshot plain_codec sample_after = Ok j \<and> mem_restore plain_codec mem_new j = (Ok (), s') \<and>
     tree s' = tree sample_after"
proof -
  have inv: "mem_inv sample_after"
    unfolding sample_after_def by (rule mem_batch_inv[OF map_inv_new])
  have "mem_snapshot plain_codec sample_after = Ok (map snapshot_item (mem_map sample_after))"
    by (simp add: mem_snapshot_def plain_codec_def)
  then show ?thesis
    using mem_snapshot_roundtrip[OF inv, of plain_codec _ plain_codec mem_new]
    by (fastforce simp: plain_codec_def)
qed

end
