(* ===== verification/Vfs_Stack.thy ===== *)
theory Vfs_Stack
  imports Memory_Store_Fs Mailbox_Fs Service_Fs Proc_Fs Memory_Fs
begin

text \<open>
  The filesystem of an agent as the server builds it (\<^verbatim>\<open>simulacra-server/src/engine.rs\<close>): the process layer
  over the service layer over the memory layer over the mailbox layer over the filesystem of the run.
  The layers are in \<^verbatim>\<open>Proc_Fs\<close>, \<^verbatim>\<open>Service_Fs\<close>, \<^verbatim>\<open>Memory_Store_Fs\<close> and \<^verbatim>\<open>Mailbox_Fs\<close>; what one call does below
  each of them composes to what a run of calls can do to the durable state, and to what it can see.
\<close>

section \<open>The stack\<close>

text \<open>The memory layer is installed when the token enables memory, a store is configured and the
  namespace is a tenant; without it the calls go through.\<close>

definition memory_layer_for :: "memory_capability \<Rightarrow> string \<Rightarrow> bool \<Rightarrow> memory_layer option" where
  "memory_layer_for C namespace has_store =
     (if enabled C \<and> has_store
      then (case tenant_id_parse namespace of
              Inr tenant \<Rightarrow> Some \<lparr>ml_tenant = tenant, ml_capability = C\<rparr>
            | Inl _ \<Rightarrow> None)
      else None)"

definition without_memory :: "('s, 'j) virtual_fs \<Rightarrow> (('s, 'm) memory_fs_state, 'j) virtual_fs" where
  "without_memory I =
     \<lparr>vfs_read = (\<lambda>s. vfs_read I (mf_inner s)), vfs_write = (\<lambda>s p d. on_mf_inner (\<lambda>i. vfs_write I i p d) s),
      vfs_exists = (\<lambda>s. vfs_exists I (mf_inner s)), vfs_list_dir = (\<lambda>s. vfs_list_dir I (mf_inner s)),
      vfs_mkdir = (\<lambda>s p. on_mf_inner (\<lambda>i. vfs_mkdir I i p) s), vfs_remove = (\<lambda>s p. on_mf_inner (\<lambda>i. vfs_remove I i p) s),
      vfs_metadata = (\<lambda>s. vfs_metadata I (mf_inner s)), vfs_snapshot = (\<lambda>s. vfs_snapshot I (mf_inner s)),
      vfs_restore = (\<lambda>s j. on_mf_inner (\<lambda>i. vfs_restore I i j) s),
      vfs_write_if = (\<lambda>s p d c. on_mf_inner (\<lambda>i. vfs_write_if I i p d c) s),
      vfs_rename = (\<lambda>s f t. on_mf_inner (\<lambda>i. vfs_rename I i f t) s),
      vfs_apply_batch = (\<lambda>s ms. on_mf_inner (\<lambda>i. vfs_apply_batch I i ms) s),
      vfs_list_dir_bounded = (\<lambda>s. vfs_list_dir_bounded I (mf_inner s))\<rparr>"

definition with_memory ::
  "('s, 'j) virtual_fs \<Rightarrow> 'm memory_store \<Rightarrow> memory_layer option \<Rightarrow> (('s, 'm) memory_fs_state, 'j) virtual_fs" where
  "with_memory I S lay = (case lay of Some L \<Rightarrow> memory_store_fs I S L | None \<Rightarrow> without_memory I)"

definition agent_fs ::
  "('s, 'j) virtual_fs \<Rightarrow> 'a artifact_store \<Rightarrow> 'm memory_store \<Rightarrow> string \<Rightarrow> string \<Rightarrow> bool \<Rightarrow>
   integration_lister \<Rightarrow> 'd proc_state \<Rightarrow> ((('s, 'a) mailbox_state, 'm) memory_fs_state, 'j) virtual_fs" where
  "agent_fs I A S task namespace has_store IL P =
     (let with_mailbox = mailbox_fs I A \<lparr>mb_task = task, mb_tenant = namespace, mb_has_sink = True\<rparr>;
          layer = memory_layer_for (memory (ps_capabilities P)) namespace has_store
      in proc_fs (service_fs (with_memory with_mailbox S layer) IL) P)"

abbreviation task_mailbox :: "string \<Rightarrow> string \<Rightarrow> mailbox" where
  "task_mailbox task namespace \<equiv> \<lparr>mb_task = task, mb_tenant = namespace, mb_has_sink = True\<rparr>"

section \<open>What reaches the layers\<close>

lemma calls_only_through:
  assumes "calls_only F P s s'" "\<And>c s. P c \<Longrightarrow> calls_only I Q (below s) (below (snd (vfs_call F s c)))"
  shows "calls_only I Q (below s) (below s')"
proof -
  obtain cs where cs: "\<forall>c \<in> set cs. P c" "s' = vfs_run F cs s" using assms(1) unfolding calls_only_def by blast
  show ?thesis unfolding cs(2) by (rule calls_only_run[OF assms(2) cs(1)])
qed

lemma without_sel [simp]:
  "vfs_call (without_memory I) s c = on_mf_inner (\<lambda>i. vfs_call I i c) s"
  "vfs_read (without_memory I) = (\<lambda>s. vfs_read I (mf_inner s))" "vfs_exists (without_memory I) = (\<lambda>s. vfs_exists I (mf_inner s))"
  "vfs_list_dir (without_memory I) = (\<lambda>s. vfs_list_dir I (mf_inner s))"
  "vfs_metadata (without_memory I) = (\<lambda>s. vfs_metadata I (mf_inner s))"
  "vfs_list_dir_bounded (without_memory I) = (\<lambda>s. vfs_list_dir_bounded I (mf_inner s))"
  by (cases c) (simp_all add: without_memory_def)

lemma with_memory_below:
  assumes "reaches R c"
  shows "calls_only I (reaches (\<lambda>p. (lay \<noteq> None \<longrightarrow> below_memory p) \<and> R p)) (mf_inner s)
    (mf_inner (snd (vfs_call (with_memory I S lay) s c)))"
proof (cases lay)
  case None
  then show ?thesis using calls_only_one[of "reaches R" c I "mf_inner s"] assms
    by (simp add: with_memory_def inner_on)
next
  case (Some L)
  then show ?thesis using memory_layer_below[OF assms, of I s S L] by (simp add: with_memory_def)
qed

text \<open>A run of calls at the top, seen from the memory layer: only the service and process paths are gone.\<close>

definition outside_virtual :: "string \<Rightarrow> bool" where
  "outside_virtual p \<longleftrightarrow> \<not> is_svc p \<and> \<not> read_only_proc p"

lemma stack_calls_memory:
  "calls_only M (reaches outside_virtual) s (vfs_run (proc_fs (service_fs M IL) P) cs s)"
proof -
  have "calls_only (service_fs M IL) (reaches (\<lambda>p. \<not> read_only_proc p \<and> True)) s (vfs_run (proc_fs (service_fs M IL) P) cs s)"
    by (rule calls_only_run[where below = "\<lambda>s. s" and Q = "reaches (\<lambda>_. True)"]) (rule proc_layer_below, simp_all)
  then have "calls_only M (reaches (\<lambda>p. \<not> is_svc p \<and> \<not> read_only_proc p \<and> True)) s (vfs_run (proc_fs (service_fs M IL) P) cs s)"
    by (rule calls_only_through[where below = "\<lambda>s. s"]) (rule service_layer_below)
  then show ?thesis by (simp add: outside_virtual_def[abs_def])
qed

lemma stack_calls_inner:
  assumes "\<And>ps. good_segs ps \<Longrightarrow> prefix [''proc'', ''mailbox''] ps \<Longrightarrow> lay \<noteq> None \<longrightarrow> below_memory (abs_path ps)"
    "\<And>ps. good_segs ps \<Longrightarrow> prefix [''proc'', ''mailbox''] ps \<Longrightarrow> outside_virtual (abs_path ps)"
  shows "calls_only I (reaches (\<lambda>p. (lay \<noteq> None \<longrightarrow> below_memory p) \<and> outside_virtual p)) (mb_inner (mf_inner s))
    (mb_inner (mf_inner (vfs_run (proc_fs (service_fs (with_memory (mailbox_fs I A B) S lay) IL) P) cs s)))"
proof -
  let ?R = "\<lambda>p. (lay \<noteq> None \<longrightarrow> below_memory p) \<and> outside_virtual p"
  have "calls_only (mailbox_fs I A B) (reaches ?R) (mf_inner s)
    (mf_inner (vfs_run (proc_fs (service_fs (with_memory (mailbox_fs I A B) S lay) IL) P) cs s))"
    by (rule calls_only_through[OF stack_calls_memory]) (rule with_memory_below)
  then show ?thesis
    by (rule calls_only_through[where below = mb_inner]) (rule mailbox_layer_below, use assms in auto)
qed

text \<open>The mailbox is outside the other virtual trees.\<close>

lemma mailbox_outside:
  assumes "good_segs ps" "prefix [''proc'', ''mailbox''] ps"
  shows "below_memory (abs_path ps)" "outside_virtual (abs_path ps)"
proof -
  have ne: "ps \<noteq> []" using assms(2) by auto
  have segs: "good_segs [''svc'']" "abs_path [''svc''] = ''/svc''" "good_segs [''proc'', ''mailbox'']"
    "abs_path [''proc'', ''mailbox''] = ''/proc/mailbox''"
    by (simp_all add: good_seg_def abs_path_def)
  show "below_memory (abs_path ps)" using assms by (auto simp: below_memory_def is_memory_path_abs prefix_def)
  have "is_mailbox (abs_path ps)"
    using at_or_below_iff[OF segs(3) assms(1)] assms(2) by (auto simp: is_mailbox_def at_or_below_def segs(4))
  moreover have "\<not> is_svc (abs_path ps)"
    using at_or_below_iff[OF segs(1) assms(1)] assms(2)
    by (auto simp: is_svc_def Let_def trim_end_abs[OF assms(1) ne] at_or_below_def segs(2) prefix_def)
  ultimately show "outside_virtual (abs_path ps)" by (simp add: outside_virtual_def read_only_proc_def)
qed

section \<open>Integrity\<close>

lemma run_keeps_rows:
  assumes "db_ok (mf_store s)" "\<not> (\<exists>L. lay = Some L \<and> memory_writable L t q)"
  shows "live_row (mf_store (vfs_run (with_memory I (sqlite_store E) lay) cs s)) t q = live_row (mf_store s) t q"
proof (cases lay)
  case None
  then show ?thesis
    by (induction cs arbitrary: s) (simp_all add: with_memory_def inner_on)
next
  case (Some L)
  have "\<not> memory_writable L t q" using assms(2) Some by simp
  then show ?thesis unfolding with_memory_def Some option.case
    by (rule sqlite.layer_run[OF assms(1), THEN conjunct2, rule_format])
qed

lemma run_keeps_artifacts:
  assumes "calls_only (with_memory (mailbox_fs I A B) S lay) Q s s'"
  shows "puts_only A B (mb_store (mf_inner s)) (mb_store (mf_inner s'))"
proof -
  have "calls_only (mailbox_fs I A B) (reaches (\<lambda>p. (lay \<noteq> None \<longrightarrow> below_memory p) \<and> True)) (mf_inner s) (mf_inner s')"
    by (rule calls_only_through[OF assms]) (rule with_memory_below, simp)
  then show ?thesis unfolding calls_only_def using mailbox_run_store by metis
qed

lemma tenant_id_parse_same: "tenant_id_parse s = Ok t \<Longrightarrow> t = s"
  by (auto simp: tenant_id_parse_def split: list.splits if_splits option.splits)

lemma memory_layer_for_some:
  "memory_layer_for C namespace has_store = Some L \<Longrightarrow>
     has_store \<and> enabled C \<and> L = \<lparr>ml_tenant = namespace, ml_capability = C\<rparr>"
  by (auto simp: memory_layer_for_def split: if_splits sum.splits dest: tenant_id_parse_same)


text \<open>A run of the tenant \<^verbatim>\<open>acme\<close> over an empty world.\<close>

definition demo_artifacts :: "((string \<times> string \<times> string) \<times> bytes) list artifact_store" where
  "demo_artifacts =
     \<lparr>as_put = (\<lambda>a task tenant p d. (Ok (), ((tenant, task, p), d) # a)),
      as_get = (\<lambda>a tenant task p. case map_of a (tenant, task, p) of None \<Rightarrow> Err (ArtNotFound p) | Some d \<Rightarrow> Ok d),
      as_list = (\<lambda>a tenant task. Ok []), as_delete_task = (\<lambda>a tenant task. (Ok (), a))\<rparr>"

definition demo_memory_scopes :: memory_capability where
  "demo_memory_scopes = \<lparr>enabled = True, search_scopes = [''/var/memory''], write_scopes = [''/var/memory/self'']\<rparr>"

definition demo_proc_state :: "nat proc_state" where
  "demo_proc_state =
     \<lparr>ps_agent_id = ''task-1'', ps_agent_name = ''demo'', ps_model = ''m'', ps_parent_id = None,
      ps_budget = budget_new 0 0 0 0,
      ps_capabilities = \<lparr>network = [], mcp_tools = [], shell = False, javascript = False, python = False,
        paths_write = [''/**''], paths_read = [''/**''], spawn_placements = [], skill_patterns = [],
        memory = demo_memory_scopes\<rparr>,
      ps_tool_names = [], ps_tool_json = (\<lambda>_. None), ps_session_id = ''task-1'', ps_uptime_ms = 0,
      ps_journal_entries = 0, ps_hook_names = (\<lambda>_. []), ps_turn = 0, ps_cost_text = show_nat\<rparr>"

definition no_integrations :: integration_lister where
  "no_integrations = \<lparr>il_names = [], il_metadata = (\<lambda>_. None), il_readme = (\<lambda>_. None), il_skill_names = (\<lambda>_. [])\<rparr>"

type_synonym demo_state =
  "((mem_state, ((string \<times> string \<times> string) \<times> bytes) list) mailbox_state, memory_db) memory_fs_state"

definition demo_agent_fs :: "(demo_state, unit) virtual_fs" where
  "demo_agent_fs = agent_fs (memory_fs (\<lambda>_. Err []) (\<lambda>_. Err [])) demo_artifacts (sqlite_store demo_memory_env)
     ''task-1'' ''acme'' True no_integrations demo_proc_state"

definition demo_world :: "memory_db \<Rightarrow> demo_state" where
  "demo_world m = \<lparr>mf_inner = \<lparr>mb_inner = mem_new, mb_store = [], mb_notified = []\<rparr>, mf_store = m, mf_rrwb = None\<rparr>"


section \<open>Confidentiality\<close>

lemma with_memory_same_reads:
  assumes "\<And>L. lay = Some L \<Longrightarrow> sqlite.same_view E I L s s'" "same_reads I (mf_inner s) (mf_inner s')"
  shows "same_reads (with_memory I (sqlite_store E) lay) s s'"
proof (cases lay)
  case None
  then show ?thesis using assms(2) by (simp add: with_memory_def same_reads_def)
next
  case (Some L)
  then show ?thesis using sqlite.same_view_reads[OF assms(1)] by (simp add: with_memory_def)
qed

text \<open>
  C38: What an agent can see of durable state through its filesystem: two worlds that agree on the
  filesystem below, on the artifacts of its task and on the live rows of its tenant in the search scopes
  answer every read, existence test, listing and metadata call alike, whatever other tenants, other
  tasks or rows outside its scopes hold.
\<close>

theorem agent_fs_confidentiality:
  assumes "db_ok (mf_store s)" "db_ok (mf_store s')"
    and "db_fault E (mf_store s') = db_fault E (mf_store s)"
    and "\<And>q. can_read (memory (ps_capabilities P)) q \<Longrightarrow> live_row (mf_store s') namespace q = live_row (mf_store s) namespace q"
    and "same_artifacts A (task_mailbox task namespace) (mb_store (mf_inner s)) (mb_store (mf_inner s'))"
    and "same_reads I (mb_inner (mf_inner s)) (mb_inner (mf_inner s'))"
  shows "same_reads (agent_fs I A (sqlite_store E) task namespace has_store IL P) s s'"
proof -
  let ?B = "mailbox_fs I A (task_mailbox task namespace)"
  have box: "same_reads ?B (mf_inner s) (mf_inner s')" by (rule mailbox_same_reads[OF assms(6,5)])
  have "sqlite.same_view E ?B L s s'" if "memory_layer_for (memory (ps_capabilities P)) namespace has_store = Some L" for L
    using memory_layer_for_some[OF that] box assms(1-4) by (simp add: sqlite.same_view_def)
  then have "same_reads (with_memory ?B (sqlite_store E) (memory_layer_for (memory (ps_capabilities P)) namespace has_store)) s s'"
    by (rule with_memory_same_reads[OF _ box])
  then show ?thesis by (simp add: agent_fs_def Let_def proc_same_reads service_same_reads)
qed

theorem agent_fs_confidentiality_witness:
  "same_reads demo_agent_fs (demo_world memory_db_new)
     (demo_world (memory_step demo_memory_env (OpPut ''other'' ''/var/memory/a'' ''secret'') memory_db_new))"
proof -
  let ?m = "memory_step demo_memory_env (OpPut ''other'' ''/var/memory/a'' ''secret'') memory_db_new"
  have "memory_path_parse ''/var/memory/a'' = Ok ''/var/memory/a''" by code_simp
  then have "db_ok ?m" by (simp add: put_ok)
  moreover have "live_row ?m ''acme'' q = live_row memory_db_new ''acme'' q" for q
    using put_rows[OF surjective_pairing, of demo_memory_env memory_db_new "''other''" "''/var/memory/a''" "''secret''" "''acme''" q]
    by (auto simp: live_row_def)
  ultimately show ?thesis unfolding demo_agent_fs_def
    by (intro agent_fs_confidentiality)
      (simp_all add: demo_world_def same_artifacts_def same_reads_def db_fault_def demo_memory_env_def)
qed

end
