(* ===== verification/Readonly_Guard.thy ===== *)
theory Readonly_Guard
  imports Atomic_Paths Memory_Fs
begin

text \<open>
  \<open>ReadOnlyPathGuard\<close> (\<^verbatim>\<open>simulacra-vfs/src/readonly_path_guard.rs\<close>): a decorator that refuses
  changes below a locked prefix.  The guarded filesystem is again a \<open>file_store\<close> (an
  \<open>atomic_store\<close>), and over \<open>MemoryFs\<close> no sequence of guarded calls changes an existing locked
  subtree.
\<close>

section \<open>The decorator\<close>

definition guard_new :: "string \<Rightarrow> string" where
  "guard_new p = (if ends_with p ''/'' then p else p @ ''/'')"

definition is_locked :: "string \<Rightarrow> string \<Rightarrow> bool" where
  "is_locked locked_prefix path0 =
     (let path = normalize_vfs path0; trimmed = trim_end_char slash locked_prefix
      in path = trimmed \<or> starts_with path locked_prefix)"

definition is_ancestor_of_locked :: "string \<Rightarrow> string \<Rightarrow> bool" where
  "is_ancestor_of_locked locked_prefix path = is_ancestor path locked_prefix"

definition rofs :: "string \<Rightarrow> string \<Rightarrow> vfs_error" where
  "rofs locked_prefix path =
     PermissionDenied (''path is read-only ('' @ trim_end_char slash locked_prefix @ ''): '' @ path)"

definition gate :: "string \<Rightarrow> touch list \<Rightarrow> vfs_error + unit" where
  "gate lp touches =
     (case find (\<lambda>t. is_locked lp (t_path t) \<or> (takes_subtree t \<and> is_ancestor_of_locked lp (t_path t))) touches of
        Some t \<Rightarrow> Err (rofs lp (t_path t))
      | None \<Rightarrow> Ok ())"

definition guard_write :: "('s, 'j) virtual_fs \<Rightarrow> string \<Rightarrow> 's \<Rightarrow> string \<Rightarrow> bytes \<Rightarrow> 's outcome" where
  "guard_write F lp s path data =
     (if is_locked lp path then (Err (rofs lp path), s) else vfs_write F s path data)"

definition guard_mkdir :: "('s, 'j) virtual_fs \<Rightarrow> string \<Rightarrow> 's \<Rightarrow> string \<Rightarrow> 's outcome" where
  "guard_mkdir F lp s path =
     (if is_locked lp path then (Err (rofs lp path), s) else vfs_mkdir F s path)"

definition guard_remove :: "('s, 'j) virtual_fs \<Rightarrow> string \<Rightarrow> 's \<Rightarrow> string \<Rightarrow> 's outcome" where
  "guard_remove F lp s path =
     (case gate lp (removed path) of Inl e \<Rightarrow> (Err e, s) | Inr _ \<Rightarrow> vfs_remove F s path)"

definition guard_write_if ::
  "('s, 'j) virtual_fs \<Rightarrow> string \<Rightarrow> 's \<Rightarrow> string \<Rightarrow> bytes \<Rightarrow> precondition \<Rightarrow> 's outcome" where
  "guard_write_if F lp s path data c =
     (case gate lp (written path) of Inl e \<Rightarrow> (Err e, s) | Inr _ \<Rightarrow> vfs_write_if F s (normalize_vfs path) data c)"

definition guard_rename :: "('s, 'j) virtual_fs \<Rightarrow> string \<Rightarrow> 's \<Rightarrow> string \<Rightarrow> string \<Rightarrow> 's outcome" where
  "guard_rename F lp s from to =
     (case gate lp (renamed from to) of
        Inl e \<Rightarrow> (Err e, s)
      | Inr _ \<Rightarrow> vfs_rename F s (normalize_vfs from) (normalize_vfs to))"

definition guard_apply_batch :: "('s, 'j) virtual_fs \<Rightarrow> string \<Rightarrow> 's \<Rightarrow> fs_mutation list \<Rightarrow> 's outcome" where
  "guard_apply_batch F lp s ms =
     (case gate lp (batched ms) of
        Inl e \<Rightarrow> (Err e, s)
      | Inr _ \<Rightarrow> vfs_apply_batch F s (normalize_mutations ms))"

definition readonly_guard :: "('s, 'j) virtual_fs \<Rightarrow> string \<Rightarrow> ('s, 'j) virtual_fs" where
  "readonly_guard F lp = F\<lparr>vfs_write := guard_write F lp, vfs_mkdir := guard_mkdir F lp,
     vfs_remove := guard_remove F lp, vfs_write_if := guard_write_if F lp,
     vfs_rename := guard_rename F lp, vfs_apply_batch := guard_apply_batch F lp\<rparr>"

lemma readonly_guard_sel [simp]:
  "vfs_read (readonly_guard F lp) = vfs_read F" "vfs_write (readonly_guard F lp) = guard_write F lp"
  "vfs_exists (readonly_guard F lp) = vfs_exists F" "vfs_list_dir (readonly_guard F lp) = vfs_list_dir F"
  "vfs_mkdir (readonly_guard F lp) = guard_mkdir F lp" "vfs_remove (readonly_guard F lp) = guard_remove F lp"
  "vfs_metadata (readonly_guard F lp) = vfs_metadata F" "vfs_write_if (readonly_guard F lp) = guard_write_if F lp"
  "vfs_rename (readonly_guard F lp) = guard_rename F lp"
  "vfs_apply_batch (readonly_guard F lp) = guard_apply_batch F lp"
  by (simp_all add: readonly_guard_def)

lemma content_guard [simp]: "content (readonly_guard F lp) = content F"
  by (simp add: fun_eq_iff content_def)

lemma missing_guard [simp]: "missing (readonly_guard F lp) = missing F"
  by (simp add: fun_eq_iff missing_def)

section \<open>The gate on segments\<close>

definition lock_path :: "string list \<Rightarrow> string" where
  "lock_path ls = guard_new (abs_path ls)"

lemma lock_path_abs: "good_segs ls \<Longrightarrow> ls \<noteq> [] \<Longrightarrow> lock_path ls = abs_path ls @ ''/''"
  using last_abs_path[of ls]
  by (auto simp: lock_path_def guard_new_def ends_with_def suffix_def)

lemma is_locked_iff:
  assumes "good_segs ls" "ls \<noteq> []"
  shows "is_locked (lock_path ls) p \<longleftrightarrow> prefix ls (norm_parts p)"
proof -
  have t: "trim_end_char slash (abs_path ls) = abs_path ls"
    using last_abs_path[OF assms] by (intro trim_end_char_other) auto
  show ?thesis
    using at_or_below_iff[OF assms(1) norm_parts_good assms(2), of p]
    by (simp add: is_locked_def lock_path_abs[OF assms] Let_def normalize_abs at_or_below_def t)
qed

lemma norm_parts_trailing: "good_segs ls \<Longrightarrow> norm_parts (abs_path ls @ ''/'') = ls"
  by (cases "ls = []")
    (auto simp: norm_parts_def abs_path_def split_join_slash foldl_norm_seg_id norm_seg_def)

lemma is_ancestor_of_locked_iff:
  assumes "good_segs ls" "ls \<noteq> []"
  shows "is_ancestor_of_locked (lock_path ls) p \<longleftrightarrow> strict_prefix (norm_parts p) ls"
  using assms
  by (auto simp: is_ancestor_of_locked_def is_ancestor_iff lock_path_abs norm_parts_trailing strict_prefix_def)

definition touch_clear :: "string list \<Rightarrow> touch \<Rightarrow> bool" where
  "touch_clear ls t \<longleftrightarrow> \<not> prefix ls (norm_parts (t_path t)) \<and>
     (takes_subtree t \<longrightarrow> \<not> prefix (norm_parts (t_path t)) ls)"

lemma gate_ok:
  assumes "good_segs ls" "ls \<noteq> []"
  shows "is_ok (gate (lock_path ls) ts) \<longleftrightarrow> (\<forall>t \<in> set ts. touch_clear ls t)"
proof -
  let ?P = "\<lambda>t. is_locked (lock_path ls) (t_path t) \<or> (takes_subtree t \<and> is_ancestor_of_locked (lock_path ls) (t_path t))"
  have "is_ok (gate (lock_path ls) ts) \<longleftrightarrow> find ?P ts = None"
    by (simp add: gate_def split: option.splits)
  also have "\<dots> \<longleftrightarrow> (\<forall>t \<in> set ts. \<not> ?P t)" by (auto simp: find_None_iff)
  also have "\<dots> \<longleftrightarrow> (\<forall>t \<in> set ts. touch_clear ls t)"
    by (auto simp: touch_clear_def is_locked_iff[OF assms] is_ancestor_of_locked_iff[OF assms] strict_prefix_def)
  finally show ?thesis .
qed

lemma gate_cases:
  assumes "good_segs ls" "ls \<noteq> []"
  obtains (refused) e where "gate (lock_path ls) ts = Err e"
  | (admitted) "gate (lock_path ls) ts = Ok ()" "\<forall>t \<in> set ts. touch_clear ls t"
  using gate_ok[OF assms, of ts] by (cases "gate (lock_path ls) ts") auto

section \<open>The guarded filesystem keeps the contract\<close>

locale guarded_store = atomic_store +
  fixes ls :: "string list"
  assumes lock_good: "good_segs ls" "ls \<noteq> []"
begin

abbreviation lp :: string where "lp \<equiv> lock_path ls"

lemma guard_write_frame:
  "inv s \<Longrightarrow> prefix ls (norm_parts q) \<Longrightarrow> content F (snd (guard_write F lp s p d)) q = content F s q"
  using write_err[of s p d] write_content[of s p d _ _ q]
  by (cases "vfs_write F s p d"; cases "fst (vfs_write F s p d)")
    (auto simp: guard_write_def is_locked_iff[OF lock_good])

lemma guard_mkdir_frame:
  "inv s \<Longrightarrow> content F (snd (guard_mkdir F lp s p)) q = content F s q"
  using mkdir_err[of s p] mkdir_content[of s p _ _ q]
  by (cases "vfs_mkdir F s p"; cases "fst (vfs_mkdir F s p)") (auto simp: guard_mkdir_def)

lemma guard_remove_frame:
  assumes "inv s" "prefix ls (norm_parts q)"
  shows "content F (snd (guard_remove F lp s p)) q = content F s q"
proof (cases rule: gate_cases[OF lock_good, of "removed p"])
  case (1 e) then show ?thesis by (simp add: guard_remove_def)
next
  case admitted: 2
  then have "\<not> prefix ls (norm_parts p)" "\<not> prefix (norm_parts p) ls"
    by (auto simp: removed_def touch_clear_def)
  then have "\<not> prefix (norm_parts p) (norm_parts q)" using assms(2) prefix_same_cases by blast
  then show ?thesis
    using admitted assms remove_err[of s p] remove_content[of s p _ _ q]
    by (cases "vfs_remove F s p"; cases "fst (vfs_remove F s p)") (auto simp: guard_remove_def)
qed

lemma guard_write_if_frame:
  assumes "inv s" "prefix ls (norm_parts q)"
  shows "content F (snd (guard_write_if F lp s p d c)) q = content F s q"
proof (cases rule: gate_cases[OF lock_good, of "written p"])
  case (1 e) then show ?thesis by (simp add: guard_write_if_def)
next
  case admitted: 2
  then have "norm_parts q \<noteq> norm_parts p"
    using assms(2) by (auto simp: written_def touch_clear_def)
  then show ?thesis
    using admitted assms write_if_err[of s "normalize_vfs p" d c] write_if_content[of s "normalize_vfs p" d c _ _ q]
    by (cases "vfs_write_if F s (normalize_vfs p) d c"; cases "fst (vfs_write_if F s (normalize_vfs p) d c)")
      (auto simp: guard_write_if_def)
qed

end

sublocale guarded_store \<subseteq> guarded: atomic_store "readonly_guard F (lock_path ls)" inv
proof (unfold_locales, goal_cases)
  case (13 s p)
  then have "gate (lock_path ls) (removed p) \<noteq> Ok ()"
    using gate_ok[OF lock_good, of "removed p"] by (auto simp: removed_def touch_clear_def)
  then show ?case by (auto simp: guard_remove_def not_is_ok_iff split: sum.splits)
next
  case (19 s f t u s') then show ?case
    by (auto simp: guard_rename_def guard_apply_batch_def renamed_def rename_iff_batch split: sum.splits)
qed (auto simp: read_normal exists_normal not_exists guard_write_def guard_mkdir_def guard_remove_def
    guard_write_if_def guard_rename_def guard_apply_batch_def write_inv write_content mkdir_inv
    mkdir_content remove_inv remove_content write_if_inv write_if_content batch_inv rename_inv
    dest: write_err mkdir_err remove_err write_if_err batch_err rename_err
    split: if_splits sum.splits)

interpretation mem_guarded:
  guarded_store "memory_fs to_vec from_slice" mem_inv "[''skills'']" for to_vec from_slice
  by unfold_locales (simp_all add: good_seg_def)

section \<open>Nothing changes below an existing locked directory\<close>

lemma put_clear: "\<not> prefix ls ps \<Longrightarrow> prefix ls q \<Longrightarrow> t_put ps n t q = t q"
  using prefix_order.trans
  by (auto simp: t_put_def t_parents_def or_dirs_def proper_ancestors_def strict_prefix_def)

lemma remove_clear: "\<not> prefix ls ps \<Longrightarrow> \<not> prefix ps ls \<Longrightarrow> prefix ls q \<Longrightarrow> t_remove ps t q = t q"
  using prefix_same_cases by (auto simp: t_remove_def)

lemma rename_clear:
  assumes "\<not> prefix ls fs" "\<not> prefix fs ls" "\<not> prefix ls ts" "\<not> prefix ts ls" "prefix ls q"
  shows "t_rename fs ts t q = t q"
proof -
  have "\<not> prefix ts q" "\<not> prefix fs q" using assms prefix_same_cases by blast+
  moreover have "q \<notin> proper_ancestors ts"
    using assms(3,5) prefix_order.trans by (auto simp: proper_ancestors_def strict_prefix_def)
  ultimately show ?thesis by (simp add: t_rename_def t_parents_other)
qed

definition lock_kept :: "string list \<Rightarrow> mem_state \<Rightarrow> mem_state \<Rightarrow> bool" where
  "lock_kept ls s s' \<longleftrightarrow> mem_inv s' \<and> (\<forall>q. prefix ls q \<longrightarrow> tree s' q = tree s q)"

lemma lock_kept_refl: "mem_inv s \<Longrightarrow> lock_kept ls s s"
  by (simp add: lock_kept_def)

lemma lock_kept_trans: "lock_kept ls s s1 \<Longrightarrow> lock_kept ls s1 s2 \<Longrightarrow> lock_kept ls s s2"
  by (simp add: lock_kept_def)

lemma lock_kept_exists: "lock_kept ls s s1 \<Longrightarrow> tree s ls \<noteq> None \<Longrightarrow> tree s1 ls \<noteq> None"
  unfolding lock_kept_def by (metis prefix_order.refl)

lemma apply_one_lock_kept:
  assumes inv: "mem_inv s" and ok: "apply_one s m = (Ok u, s')"
    and cl: "\<forall>t \<in> set (mutation_touches m). touch_clear ls t" and ex: "tree s ls \<noteq> None"
  shows "lock_kept ls s s'"
proof -
  note a = apply_one_ok[OF inv ok]
  have up: "\<not> prefix ts ls" if "tree s ts = None" for ts
    using that ex map_inv_ancestor[OF inv, of ls ts] by simp
  have "t_apply m (tree s) q = tree s q" if q: "prefix ls q" for q
  proof (cases m)
    case (MWrite p d c) then show ?thesis using cl q by (simp add: touch_clear_def put_clear[of ls])
  next
    case (MMkdir p) then show ?thesis using cl q by (simp add: touch_clear_def put_clear[of ls])
  next
    case (MRemove p c) then show ?thesis using cl q by (simp add: touch_clear_def remove_clear[of ls])
  next
    case (MRename f t c)
    then have "tree s (norm_parts t) = None" using a(3) by (simp add: Let_def)
    then show ?thesis using MRename cl q up by (simp add: touch_clear_def rename_clear[of ls] del: tree_None)
  qed
  with a(1,2) show ?thesis by (simp add: lock_kept_def)
qed

lemma apply_each_lock_kept:
  "mem_inv s \<Longrightarrow> apply_each s ms = (Ok u, s') \<Longrightarrow> \<forall>t \<in> set (batched ms). touch_clear ls t \<Longrightarrow>
   tree s ls \<noteq> None \<Longrightarrow> lock_kept ls s s'"
proof (induction ms arbitrary: s)
  case Nil then show ?case by (simp add: lock_kept_refl)
next
  case (Cons m ms)
  then obtain v s1 where s1: "apply_one s m = (Ok v, s1)" "apply_each s1 ms = (Ok u, s')"
    by (auto split: prod.splits sum.splits)
  then have k: "lock_kept ls s s1" using Cons.prems by (intro apply_one_lock_kept) auto
  then have "lock_kept ls s1 s'"
    using Cons.IH[OF _ s1(2)] Cons.prems lock_kept_exists by (simp add: lock_kept_def del: tree_None)
  with k show ?case by (rule lock_kept_trans)
qed

lemma batch_lock_kept:
  assumes "mem_inv s" "\<forall>t \<in> set (batched ms). touch_clear ls t" "tree s ls \<noteq> None"
  shows "lock_kept ls s (snd (mem_apply_batch s ms))"
  using assms apply_each_lock_kept[of s ms _ _ ls] lock_kept_refl[of s]
  by (auto simp: mem_apply_batch_each simp del: tree_None split: prod.splits sum.splits)

lemma write_if_batch: "mem_write_if s p d c = mem_apply_batch s [MWrite p d c]"
  by (simp add: mem_apply_batch_def)

lemma guarded_call_kept:
  assumes inv: "mem_inv s" and ls: "good_segs ls" "ls \<noteq> []" and ex: "tree s ls \<noteq> None"
  shows "lock_kept ls s (snd (vfs_call (readonly_guard (memory_fs a b) (lock_path ls)) s c))"
proof (cases c)
  case (CWrite p d)
  then show ?thesis using inv
    by (auto simp: guard_write_def is_locked_iff[OF ls] mem_write_cases lock_kept_refl lock_kept_def
        mem_inv_insert_file fs_simps put_clear)
next
  case (CMkdir p)
  then show ?thesis using inv tree_root_none[OF inv, of p]
    by (auto simp: guard_mkdir_def is_locked_iff[OF ls] mem_mkdir_cases lock_kept_def map_inv_put
        fs_simps put_clear simp del: tree_None split: option.splits node.splits)
next
  case (CRemove p)
  show ?thesis
  proof (cases rule: gate_cases[OF ls, of "removed p"])
    case 2
    then show ?thesis using inv CRemove
      by (auto simp: guard_remove_def removed_def touch_clear_def mem_remove_cases lock_kept_def
          map_inv_remove_subtree fs_simps remove_clear[of ls])
  qed (simp add: CRemove guard_remove_def lock_kept_refl inv)
next
  case (CWriteIf p d k)
  show ?thesis
  proof (cases rule: gate_cases[OF ls, of "written p"])
    case 2
    then show ?thesis
      using batch_lock_kept[OF inv _ ex, of "[MWrite (normalize_vfs p) d k]"] CWriteIf
      by (simp add: guard_write_if_def written_def write_if_batch touch_new_def)
  qed (simp add: CWriteIf guard_write_if_def lock_kept_refl inv)
next
  case (CRename f t)
  show ?thesis
  proof (cases rule: gate_cases[OF ls, of "renamed f t"])
    case 2
    then show ?thesis
      using batch_lock_kept[OF inv _ ex, of "[MRename (normalize_vfs f) (normalize_vfs t) Unconditional]"] CRename
      by (simp add: guard_rename_def renamed_def mem_rename_def touch_new_def)
  qed (simp add: CRename guard_rename_def lock_kept_refl inv)
next
  case (CBatch ms)
  show ?thesis
  proof (cases rule: gate_cases[OF ls, of "batched ms"])
    case 2
    then show ?thesis
      using batch_lock_kept[OF inv _ ex, of "normalize_mutations ms"] CBatch
      by (simp add: guard_apply_batch_def touches_normalize)
  qed (simp add: CBatch guard_apply_batch_def lock_kept_refl inv)
qed

lemma guarded_run_kept:
  assumes "mem_inv s" "good_segs ls" "ls \<noteq> []" "tree s ls \<noteq> None" "prefix ls q"
  shows "tree (vfs_run (readonly_guard (memory_fs a b) (lock_path ls)) calls s) q = tree s q"
proof -
  have "lock_kept ls s (vfs_run (readonly_guard (memory_fs a b) (lock_path ls)) calls s)"
    using assms(1,4)
  proof (induction calls arbitrary: s)
    case (Cons c cs)
    have k: "lock_kept ls s (snd (vfs_call (readonly_guard (memory_fs a b) (lock_path ls)) s c))"
      using guarded_call_kept[OF Cons.prems(1) assms(2,3) Cons.prems(2)] .
    then show ?case
      using Cons.IH lock_kept_exists[OF k Cons.prems(2)] lock_kept_trans[OF k]
      by (simp add: lock_kept_def del: tree_None)
  qed (simp add: lock_kept_refl)
  with assms(5) show ?thesis by (simp add: lock_kept_def)
qed


definition locked_sample :: mem_state where
  "locked_sample = vfs_run (memory_fs plain_codec plain_codec)
     [CWrite ''/skills/a'' ''ok'', CWrite ''/tmp/x'' ''t''] mem_new"

definition attack_calls :: "fs_call list" where
  "attack_calls = [CRemove ''/tmp/../skills'', CRename ''/skills'' ''/old'', CRemove ''/'',
     CBatch [MWrite ''/w'' ''1'' Unconditional, MWrite ''/tmp/../skills/a'' ''bad'' Unconditional],
     CWrite ''/w'' ''fine'']"

lemma locked_sample_inv: "mem_inv locked_sample"
  unfolding locked_sample_def vfs_run.simps vfs_call.simps memory_fs_sel
  using mem.write_inv[of _ plain_codec plain_codec] map_inv_new by simp


text \<open>The guard does not reserve a locked directory that does not exist yet: with
  \<open>/var/agent_files\<close> locked and no \<open>/var\<close>, renaming a prepared directory onto \<open>/var\<close> is admitted
  (the target of a rename is only checked for lying inside the lock) and plants a file below the
  locked prefix, which a direct write there is refused.\<close>

theorem guard_rename_plants_below_lock:
  "let F = readonly_guard (memory_fs plain_codec plain_codec) (guard_new ''/var/agent_files'');
       s = vfs_run F [CWrite ''/tmp/v/agent_files/f'' ''planted''] mem_new
   in vfs_read F s ''/var/agent_files/f'' = Err (NotFound ''/var/agent_files/f'') \<and>
      \<not> is_ok (fst (vfs_write F s ''/var/agent_files/f'' ''planted'')) \<and>
      fst (vfs_rename F s ''/tmp/v'' ''/var'') = Ok () \<and>
      vfs_read F (snd (vfs_rename F s ''/tmp/v'' ''/var'')) ''/var/agent_files/f'' = Ok ''planted''"
  by code_simp

end
