(* ===== verification/Prefix_Mount.thy ===== *)
theory Prefix_Mount
  imports Atomic_Paths Memory_Fs
begin

text \<open>
  \<open>PrefixMountFs\<close> (\<^verbatim>\<open>simulacra-vfs/src/prefix_mount.rs\<close>): one filesystem answers for a top-level
  prefix, another for the rest.  The state is the pair of the two states.  Mounting two stores gives
  a store again, an atomic call never reaches both sides, and the root listing shows the mount once
  within the listing limit.
\<close>

section \<open>Configuration\<close>

record mount_cfg =
  pm_prefix :: string
  pm_name :: string
  listing_limit :: "nat option"

text \<open>The constructors; \<open>None\<close> is a failed \<open>assert!\<close>.\<close>

definition mount_new :: "string \<Rightarrow> mount_cfg option" where
  "mount_new prefix0 =
     (let p = normalize_vfs prefix0; name = trim_start_char slash p
      in if name \<noteq> [] \<and> \<not> contains_char name slash
         then Some \<lparr>pm_prefix = p, pm_name = name, listing_limit = None\<rparr>
         else None)"

definition with_listing_limit :: "mount_cfg \<Rightarrow> nat \<Rightarrow> mount_cfg option" where
  "with_listing_limit cfg limit = (if limit \<ge> 1 then Some (cfg\<lparr>listing_limit := Some limit\<rparr>) else None)"

definition in_mount :: "mount_cfg \<Rightarrow> string \<Rightarrow> bool" where
  "in_mount cfg normalized \<longleftrightarrow>
     normalized = pm_prefix cfg \<or> starts_with normalized (pm_prefix cfg @ ''/'')"

definition mount_denied :: "mount_cfg \<Rightarrow> string \<Rightarrow> vfs_error" where
  "mount_denied cfg what = PermissionDenied (what @ '' crosses the '' @ pm_prefix cfg @ '' mount'')"

text \<open>The side every touched path falls on: \<open>True\<close> is the mounted filesystem.\<close>

definition one_side :: "mount_cfg \<Rightarrow> string \<Rightarrow> touch list \<Rightarrow> vfs_error + bool" where
  "one_side cfg what touches =
     (if \<exists>t \<in> set touches. takes_subtree t \<and> is_ancestor (t_path t) (pm_prefix cfg)
      then Err (mount_denied cfg what)
      else case map (\<lambda>t. in_mount cfg (t_path t)) touches of
        [] \<Rightarrow> Ok False
      | first # sides \<Rightarrow>
          if \<forall>side \<in> set sides. side = first then Ok first else Err (mount_denied cfg what))"

definition empty_if_absent :: "vfs_error + 'a \<Rightarrow> 'a \<Rightarrow> vfs_error + 'a" where
  "empty_if_absent listing nothing =
     (case listing of Inl (NotFound _) \<Rightarrow> Ok nothing | other \<Rightarrow> other)"

definition with_mount_entry :: "mount_cfg \<Rightarrow> string list \<Rightarrow> string list \<times> bool" where
  "with_mount_entry cfg names0 =
     (let names = filter (\<lambda>n. n \<noteq> pm_name cfg) names0
      in case listing_limit cfg of
           None \<Rightarrow> (names @ [pm_name cfg], False)
         | Some limit \<Rightarrow>
             (let room = limit - 1
              in if length names > room then (take room names @ [pm_name cfg], True)
                 else (names @ [pm_name cfg], False)))"

section \<open>Operations\<close>

definition pm_read ::
  "('s, 'j) virtual_fs \<Rightarrow> ('t, 'k) virtual_fs \<Rightarrow> mount_cfg \<Rightarrow> 's \<times> 't \<Rightarrow> string \<Rightarrow> vfs_error + bytes" where
  "pm_read B M cfg s path0 =
     (let path = normalize_vfs path0
      in if in_mount cfg path then vfs_read M (snd s) path else vfs_read B (fst s) path)"

text \<open>Running an operation on one side of the pair.\<close>

definition on_base :: "('s \<Rightarrow> 's outcome) \<Rightarrow> 's \<times> 't \<Rightarrow> ('s \<times> 't) outcome" where
  "on_base f s = (let (r, b) = f (fst s) in (r, (b, snd s)))"

definition on_mounted :: "('t \<Rightarrow> 't outcome) \<Rightarrow> 's \<times> 't \<Rightarrow> ('s \<times> 't) outcome" where
  "on_mounted f s = (let (r, m) = f (snd s) in (r, (fst s, m)))"

definition pm_write ::
  "('s, 'j) virtual_fs \<Rightarrow> ('t, 'k) virtual_fs \<Rightarrow> mount_cfg \<Rightarrow> 's \<times> 't \<Rightarrow> string \<Rightarrow> bytes \<Rightarrow> ('s \<times> 't) outcome" where
  "pm_write B M cfg s path0 data =
     (let path = normalize_vfs path0
      in if in_mount cfg path then on_mounted (\<lambda>m. vfs_write M m path data) s
         else on_base (\<lambda>b. vfs_write B b path data) s)"

definition pm_exists ::
  "('s, 'j) virtual_fs \<Rightarrow> ('t, 'k) virtual_fs \<Rightarrow> mount_cfg \<Rightarrow> 's \<times> 't \<Rightarrow> string \<Rightarrow> bool" where
  "pm_exists B M cfg s path0 =
     (let path = normalize_vfs path0
      in path = pm_prefix cfg \<or>
         (if in_mount cfg path then vfs_exists M (snd s) path else vfs_exists B (fst s) path))"

definition pm_list_dir ::
  "('s, 'j) virtual_fs \<Rightarrow> ('t, 'k) virtual_fs \<Rightarrow> mount_cfg \<Rightarrow> 's \<times> 't \<Rightarrow> string \<Rightarrow> vfs_error + string list" where
  "pm_list_dir B M cfg s path0 =
     (let path = normalize_vfs path0
      in if is_root path
         then (case vfs_list_dir B (fst s) path of
                 Inl e \<Rightarrow> Err e
               | Inr names \<Rightarrow> Ok (fst (with_mount_entry cfg names)))
         else
           (let listing = (if in_mount cfg path then vfs_list_dir M (snd s) path else vfs_list_dir B (fst s) path)
            in if path = pm_prefix cfg then empty_if_absent listing [] else listing))"

definition pm_list_dir_bounded ::
  "('s, 'j) virtual_fs \<Rightarrow> ('t, 'k) virtual_fs \<Rightarrow> mount_cfg \<Rightarrow> 's \<times> 't \<Rightarrow> string \<Rightarrow> vfs_error + dir_listing" where
  "pm_list_dir_bounded B M cfg s path0 =
     (let path = normalize_vfs path0
      in if is_root path
         then (case vfs_list_dir_bounded B (fst s) path of
                 Inl e \<Rightarrow> Err e
               | Inr listing \<Rightarrow>
                   (let (entries, displaced) = with_mount_entry cfg (dl_entries listing)
                    in Ok \<lparr>dl_entries = entries, dl_truncated = dl_truncated listing \<or> displaced\<rparr>))
         else
           (let listing = (if in_mount cfg path then vfs_list_dir_bounded M (snd s) path
                           else vfs_list_dir_bounded B (fst s) path)
            in if path = pm_prefix cfg
               then empty_if_absent listing \<lparr>dl_entries = [], dl_truncated = False\<rparr>
               else listing))"

definition pm_mkdir ::
  "('s, 'j) virtual_fs \<Rightarrow> ('t, 'k) virtual_fs \<Rightarrow> mount_cfg \<Rightarrow> 's \<times> 't \<Rightarrow> string \<Rightarrow> ('s \<times> 't) outcome" where
  "pm_mkdir B M cfg s path0 =
     (let path = normalize_vfs path0
      in if in_mount cfg path then on_mounted (\<lambda>m. vfs_mkdir M m path) s
         else on_base (\<lambda>b. vfs_mkdir B b path) s)"

definition pm_on_side ::
  "mount_cfg \<Rightarrow> string \<Rightarrow> touch list \<Rightarrow> ('s \<Rightarrow> 's outcome) \<Rightarrow> ('t \<Rightarrow> 't outcome) \<Rightarrow> 's \<times> 't \<Rightarrow> ('s \<times> 't) outcome" where
  "pm_on_side cfg what touches f g s =
     (case one_side cfg what touches of
        Inl e \<Rightarrow> (Err e, s)
      | Inr mounted \<Rightarrow> if mounted then on_mounted g s else on_base f s)"

definition pm_remove ::
  "('s, 'j) virtual_fs \<Rightarrow> ('t, 'k) virtual_fs \<Rightarrow> mount_cfg \<Rightarrow> 's \<times> 't \<Rightarrow> string \<Rightarrow> ('s \<times> 't) outcome" where
  "pm_remove B M cfg s path0 =
     (let path = normalize_vfs path0
      in pm_on_side cfg ''remove'' (removed path) (\<lambda>b. vfs_remove B b path) (\<lambda>m. vfs_remove M m path) s)"

definition pm_metadata ::
  "('s, 'j) virtual_fs \<Rightarrow> ('t, 'k) virtual_fs \<Rightarrow> mount_cfg \<Rightarrow> 's \<times> 't \<Rightarrow> string \<Rightarrow> vfs_error + fs_metadata" where
  "pm_metadata B M cfg s path0 =
     (let path = normalize_vfs path0
      in if path = pm_prefix cfg
         then (case vfs_metadata M (snd s) path of Inl (NotFound _) \<Rightarrow> Ok metadata_dir | other \<Rightarrow> other)
         else if in_mount cfg path then vfs_metadata M (snd s) path else vfs_metadata B (fst s) path)"

definition pm_write_if ::
  "('s, 'j) virtual_fs \<Rightarrow> ('t, 'k) virtual_fs \<Rightarrow> mount_cfg \<Rightarrow> 's \<times> 't \<Rightarrow> string \<Rightarrow> bytes \<Rightarrow> precondition \<Rightarrow> ('s \<times> 't) outcome" where
  "pm_write_if B M cfg s path0 data c =
     (let path = normalize_vfs path0
      in if in_mount cfg path then on_mounted (\<lambda>m. vfs_write_if M m path data c) s
         else on_base (\<lambda>b. vfs_write_if B b path data c) s)"

definition pm_rename ::
  "('s, 'j) virtual_fs \<Rightarrow> ('t, 'k) virtual_fs \<Rightarrow> mount_cfg \<Rightarrow> 's \<times> 't \<Rightarrow> string \<Rightarrow> string \<Rightarrow> ('s \<times> 't) outcome" where
  "pm_rename B M cfg s from0 to0 =
     (let from = normalize_vfs from0; to = normalize_vfs to0
      in pm_on_side cfg ''rename'' (renamed from to) (\<lambda>b. vfs_rename B b from to) (\<lambda>m. vfs_rename M m from to) s)"

definition pm_apply_batch ::
  "('s, 'j) virtual_fs \<Rightarrow> ('t, 'k) virtual_fs \<Rightarrow> mount_cfg \<Rightarrow> 's \<times> 't \<Rightarrow> fs_mutation list \<Rightarrow> ('s \<times> 't) outcome" where
  "pm_apply_batch B M cfg s ms0 =
     (let ms = normalize_mutations ms0
      in pm_on_side cfg ''batch'' (batched ms) (\<lambda>b. vfs_apply_batch B b ms) (\<lambda>m. vfs_apply_batch M m ms) s)"

definition prefix_mount ::
  "('s, 'j) virtual_fs \<Rightarrow> ('t, 'k) virtual_fs \<Rightarrow> mount_cfg \<Rightarrow> ('s \<times> 't, 'j) virtual_fs" where
  "prefix_mount B M cfg =
     \<lparr>vfs_read = pm_read B M cfg, vfs_write = pm_write B M cfg, vfs_exists = pm_exists B M cfg,
      vfs_list_dir = pm_list_dir B M cfg, vfs_mkdir = pm_mkdir B M cfg, vfs_remove = pm_remove B M cfg,
      vfs_metadata = pm_metadata B M cfg, vfs_snapshot = (\<lambda>s. vfs_snapshot B (fst s)),
      vfs_restore = (\<lambda>s j. on_base (\<lambda>b. vfs_restore B b j) s), vfs_write_if = pm_write_if B M cfg,
      vfs_rename = pm_rename B M cfg, vfs_apply_batch = pm_apply_batch B M cfg,
      vfs_list_dir_bounded = pm_list_dir_bounded B M cfg\<rparr>"

lemma prefix_mount_sel [simp]:
  "vfs_read (prefix_mount B M cfg) = pm_read B M cfg" "vfs_write (prefix_mount B M cfg) = pm_write B M cfg"
  "vfs_exists (prefix_mount B M cfg) = pm_exists B M cfg" "vfs_mkdir (prefix_mount B M cfg) = pm_mkdir B M cfg"
  "vfs_remove (prefix_mount B M cfg) = pm_remove B M cfg" "vfs_write_if (prefix_mount B M cfg) = pm_write_if B M cfg"
  "vfs_rename (prefix_mount B M cfg) = pm_rename B M cfg"
  "vfs_apply_batch (prefix_mount B M cfg) = pm_apply_batch B M cfg"
  "vfs_list_dir (prefix_mount B M cfg) = pm_list_dir B M cfg"
  by (simp_all add: prefix_mount_def)

section \<open>Sides on segments\<close>

definition mount_at :: "mount_cfg \<Rightarrow> string \<Rightarrow> bool" where
  "mount_at cfg n \<longleftrightarrow> good_seg n \<and> pm_prefix cfg = abs_path [n] \<and> pm_name cfg = n"

lemma mount_new_at:
  assumes "mount_new p = Some cfg"
  shows "mount_at cfg (pm_name cfg)" "norm_parts p = [pm_name cfg]"
proof -
  define ps where "ps = norm_parts p"
  have g: "good_segs ps" by (simp add: ps_def)
  have c: "trim_start_char slash (abs_path ps) = join_with slash ps"
  proof (cases ps)
    case (Cons a as)
    then have "a \<noteq> []" "hd a \<noteq> slash" using g by (auto simp: good_seg_def) (metis hd_in_set)
    then show ?thesis using Cons by (cases a; cases as) (auto simp: trim_start_char_def abs_path_def)
  qed (simp add: trim_start_char_def)
  have "join_with slash ps \<noteq> []" "slash \<notin> set (join_with slash ps)"
    using assms c by (auto simp: mount_new_def Let_def normalize_abs ps_def contains_char_def split: if_splits)
  then have "ps = [join_with slash ps]" using join_no_slash[of ps slash] by (cases ps) auto
  then obtain n where "ps = [n]" by metis
  then show "mount_at cfg (pm_name cfg)" "norm_parts p = [pm_name cfg]"
    using assms c g by (auto simp: mount_new_def Let_def normalize_abs ps_def mount_at_def split: if_splits)
qed

lemma in_mount_iff: "mount_at cfg n \<Longrightarrow> in_mount cfg (normalize_vfs p) \<longleftrightarrow> prefix [n] (norm_parts p)"
  using at_or_below_iff[of "[n]" "norm_parts p"]
  by (simp add: in_mount_def mount_at_def at_or_below_def normalize_abs)

lemma ancestor_mount_iff: "mount_at cfg n \<Longrightarrow> is_ancestor p (pm_prefix cfg) \<longleftrightarrow> norm_parts p = []"
  by (auto simp: is_ancestor_iff mount_at_def strict_prefix_def prefix_Cons)

lemma one_side_ok:
  assumes "mount_at cfg n" "one_side cfg what ts = Ok side" "\<forall>t \<in> set ts. is_normal (t_path t)"
  shows "\<forall>t \<in> set ts. (prefix [n] (norm_parts (t_path t)) \<longleftrightarrow> side) \<and> (takes_subtree t \<longrightarrow> norm_parts (t_path t) \<noteq> [])"
proof -
  have m: "in_mount cfg (t_path t) \<longleftrightarrow> prefix [n] (norm_parts (t_path t))" if "t \<in> set ts" for t
    using in_mount_iff[OF assms(1), of "t_path t"] assms(3) that by (simp add: is_normal_def)
  have "\<forall>t \<in> set ts. in_mount cfg (t_path t) = side"
    using assms(2) by (auto simp: one_side_def split: if_splits list.splits)
  then show ?thesis
    using m assms(1,2) by (auto simp: one_side_def ancestor_mount_iff split: if_splits)
qed

lemma on_mounted_iff: "on_mounted f s = (r, s') \<longleftrightarrow> (\<exists>m. f (snd s) = (r, m) \<and> s' = (fst s, m))"
  by (cases "f (snd s)") (auto simp: on_mounted_def)

lemma on_base_iff: "on_base f s = (r, s') \<longleftrightarrow> (\<exists>b. f (fst s) = (r, b) \<and> s' = (b, snd s))"
  by (cases "f (fst s)") (auto simp: on_base_def)

lemmas side_defs = Let_def on_base_def on_mounted_def pm_on_side_def

section \<open>A mount of two stores is a store\<close>

locale mounted_stores =
  B: atomic_store B invB + M: atomic_store M invM
  for B :: "('s, 'j) virtual_fs" and invB and M :: "('t, 'k) virtual_fs" and invM +
  fixes cfg :: mount_cfg and n :: string
  assumes at: "mount_at cfg n"
begin

abbreviation pm_inv :: "'s \<times> 't \<Rightarrow> bool" where
  "pm_inv s \<equiv> invB (fst s) \<and> invM (snd s)"

lemma content_mount:
  "pm_inv s \<Longrightarrow> content (prefix_mount B M cfg) s p =
     (if prefix [n] (norm_parts p) then content M (snd s) p else content B (fst s) p)"
  by (simp add: content_def pm_read_def Let_def in_mount_iff[OF at] B.read_normal M.read_normal)

lemma remove_side:
  assumes "one_side cfg ''remove'' (removed (normalize_vfs p)) = Ok side"
  shows "(prefix [n] (norm_parts p) \<longleftrightarrow> side)" "norm_parts p \<noteq> []"
  using one_side_ok[OF at assms] by (auto simp: removed_def)

end

lemma one_side_root:
  "mount_at cfg n \<Longrightarrow> norm_parts p = [] \<Longrightarrow> \<exists>e. one_side cfg what (removed p) = Err e"
  by (simp add: one_side_def removed_def ancestor_mount_iff)

lemma one_side_what:
  "(\<exists>e e'. one_side cfg w ts = Err e \<and> one_side cfg w' ts = Err e') \<or>
   (\<exists>side. one_side cfg w ts = Ok side \<and> one_side cfg w' ts = Ok side)"
proof -
  let ?in = "\<lambda>t. in_mount cfg (t_path t)"
  have "\<exists>b side. \<forall>w. one_side cfg w ts = (if b then Ok side else Err (mount_denied cfg w))"
  proof (cases ts)
    case Nil
    then show ?thesis by (intro exI[of _ True] exI[of _ False]) (simp add: one_side_def)
  next
    case (Cons t ts')
    let ?b = "\<not> (\<exists>t \<in> set ts. takes_subtree t \<and> is_ancestor (t_path t) (pm_prefix cfg)) \<and>
      (\<forall>side \<in> set (map ?in ts'). side = ?in t)"
    show ?thesis
      using Cons by (intro exI[of _ ?b] exI[of _ "?in t"]) (simp add: one_side_def)
  qed
  then obtain b side where "one_side cfg w ts = (if b then Ok side else Err (mount_denied cfg w))" for w
    by blast
  then show ?thesis by simp
qed

lemma not_below_prefix:
  "\<not> prefix [n] q \<Longrightarrow> prefix q r \<Longrightarrow> q \<noteq> [] \<Longrightarrow> \<not> prefix [n] r"
  by (cases q; cases r) auto

sublocale mounted_stores \<subseteq> mounted: file_store "prefix_mount B M cfg" pm_inv
proof (unfold_locales, goal_cases)
  case (1 s p) show ?case by (simp add: pm_read_def Let_def)
next
  case (2 s p) show ?case by (simp add: pm_exists_def Let_def)
next
  case (3 s p)
  then show ?case
    using B.not_exists[of "fst s" "normalize_vfs p"] M.not_exists[of "snd s" "normalize_vfs p"]
    by (auto simp: pm_exists_def missing_def pm_read_def Let_def split: if_splits)
next
  case (4 s p d)
  then show ?case
    using B.write_inv[of "fst s" "normalize_vfs p" d] M.write_inv[of "snd s" "normalize_vfs p" d]
    by (auto simp: pm_write_def side_defs split: prod.splits)
next
  case (5 s p d e s')
  then show ?case
    by (auto simp: pm_write_def side_defs split: prod.splits if_splits
        dest: B.write_err M.write_err)
next
  case (6 s p d u s' q)
  then show ?case
    using B.write_inv[of "fst s" "normalize_vfs p" d] M.write_inv[of "snd s" "normalize_vfs p" d]
      B.write_content[of "fst s" "normalize_vfs p" d u _ q] M.write_content[of "snd s" "normalize_vfs p" d u _ q]
    by (cases "prefix [n] (norm_parts p)")
      (auto simp: pm_write_def Let_def on_mounted_iff on_base_iff content_mount in_mount_iff[OF at])
next
  case (7 s p)
  then show ?case
    using B.mkdir_inv[of "fst s" "normalize_vfs p"] M.mkdir_inv[of "snd s" "normalize_vfs p"]
    by (auto simp: pm_mkdir_def side_defs split: prod.splits)
next
  case (8 s p e s')
  then show ?case
    by (auto simp: pm_mkdir_def side_defs split: prod.splits if_splits
        dest: B.mkdir_err M.mkdir_err)
next
  case (9 s p u s' q)
  then show ?case
    using B.mkdir_inv[of "fst s" "normalize_vfs p"] M.mkdir_inv[of "snd s" "normalize_vfs p"]
    by (auto simp: pm_mkdir_def side_defs content_mount
        B.mkdir_content M.mkdir_content split: prod.splits if_splits)
next
  case (10 s p)
  then show ?case
    using B.remove_inv[of "fst s" "normalize_vfs p"] M.remove_inv[of "snd s" "normalize_vfs p"]
    by (auto simp: pm_remove_def side_defs split: prod.splits sum.splits)
next
  case (11 s p e s')
  then show ?case
    by (auto simp: pm_remove_def side_defs
        split: prod.splits if_splits sum.splits dest: B.remove_err M.remove_err)
next
  case (12 s p u s' q)
  from 12(2) obtain side where side: "one_side cfg ''remove'' (removed (normalize_vfs p)) = Ok side"
    by (auto simp: pm_remove_def pm_on_side_def Let_def split: sum.splits)
  note ps = remove_side[OF side]
  show ?case
  proof (cases side)
    case True
    then obtain m where m: "vfs_remove M (snd s) (normalize_vfs p) = (Ok u, m)" "s' = (fst s, m)"
      using 12(2) side by (auto simp: pm_remove_def pm_on_side_def Let_def on_mounted_iff)
    have "prefix [n] (norm_parts q)" if "prefix (norm_parts p) (norm_parts q)"
      using that ps True prefix_order.trans by blast
    then show ?thesis
      using 12(1) m M.remove_inv[of "snd s" "normalize_vfs p"] M.remove_content[OF _ m(1), of q]
      by (simp add: content_mount)
  next
    case False
    then obtain b where b: "vfs_remove B (fst s) (normalize_vfs p) = (Ok u, b)" "s' = (b, snd s)"
      using 12(2) side by (auto simp: pm_remove_def pm_on_side_def Let_def on_base_iff)
    have below: "\<not> (prefix (norm_parts p) (norm_parts q) \<and> prefix [n] (norm_parts q))"
      using ps False not_below_prefix[of n "norm_parts p" "norm_parts q"] by blast
    have inv': "pm_inv s'" using 12(1) b B.remove_inv[of "fst s" "normalize_vfs p"] by simp
    have "content B b q = (if prefix (norm_parts p) (norm_parts q) then None else content B (fst s) q)"
      using 12(1) B.remove_content[OF _ b(1), of q] by simp
    then show ?thesis
      unfolding b(2) content_mount[OF inv'[unfolded b(2)]] content_mount[OF 12(1)] using below by simp
  qed
next
  case (13 s p)
  then show ?case using one_side_root[OF at, of "normalize_vfs p" "''remove''"]
    by (auto simp: pm_remove_def pm_on_side_def Let_def)
qed

sublocale mounted_stores \<subseteq> mounted: atomic_store "prefix_mount B M cfg" pm_inv
proof (unfold_locales, goal_cases)
  case (1 s p d c)
  then show ?case
    using B.write_if_inv[of "fst s" "normalize_vfs p" d c] M.write_if_inv[of "snd s" "normalize_vfs p" d c]
    by (auto simp: pm_write_if_def side_defs split: prod.splits)
next
  case (2 s p d c e s')
  then show ?case
    by (auto simp: pm_write_if_def side_defs split: prod.splits if_splits
        dest: B.write_if_err M.write_if_err)
next
  case (3 s p d c u s' q)
  then show ?case
    using B.write_if_inv[of "fst s" "normalize_vfs p" d c] M.write_if_inv[of "snd s" "normalize_vfs p" d c]
      B.write_if_content[of "fst s" "normalize_vfs p" d c u _ q] M.write_if_content[of "snd s" "normalize_vfs p" d c u _ q]
    by (cases "prefix [n] (norm_parts p)")
      (auto simp: pm_write_if_def Let_def on_mounted_iff on_base_iff content_mount in_mount_iff[OF at])
next
  case (4 s ms)
  then show ?case
    using B.batch_inv[of "fst s" "normalize_mutations ms"] M.batch_inv[of "snd s" "normalize_mutations ms"]
    by (auto simp: pm_apply_batch_def side_defs split: prod.splits sum.splits)
next
  case (5 s ms e s')
  then show ?case
    by (auto simp: pm_apply_batch_def side_defs
        split: prod.splits if_splits sum.splits dest: B.batch_err M.batch_err)
next
  case (6 s f t u s')
  let ?ts = "[touch_new (normalize_vfs f) True, touch_new (normalize_vfs t) False]"
  show ?case
    using 6 one_side_what[of cfg "''rename''" ?ts "''batch''"]
    by (auto simp: pm_rename_def pm_apply_batch_def Let_def renamed_def pm_on_side_def on_mounted_iff
        on_base_iff B.rename_iff_batch M.rename_iff_batch)
next
  case (7 s f t)
  then show ?case
    using B.rename_inv[of "fst s" "normalize_vfs f" "normalize_vfs t"] M.rename_inv[of "snd s" "normalize_vfs f" "normalize_vfs t"]
    by (auto simp: pm_rename_def side_defs split: prod.splits sum.splits)
next
  case (8 s f t e s')
  then show ?case
    by (auto simp: pm_rename_def side_defs
        split: prod.splits if_splits sum.splits dest: B.rename_err M.rename_err)
qed

context mounted_stores
begin

lemma mount_atomic: "atomic_store (prefix_mount B M cfg) pm_inv"
  by (rule mounted.atomic_store_axioms)

end

interpretation mem_mount:
  mounted_stores "memory_fs a b" mem_inv "memory_fs c d" mem_inv
    "\<lparr>pm_prefix = ''/skills'', pm_name = ''skills'', listing_limit = None\<rparr>" "''skills''" for a b c d
  by unfold_locales (simp add: mount_at_def good_seg_def abs_path_def)

text \<open>C18: Mounting is a store again: when both the base and the mounted filesystem meet the
  filesystem contract (reads see the last write, removals take exactly the subtree, any error leaves
  the state as it was, conditional writes, renames and batches are all-or-nothing) and the mount
  point is accepted by the constructor, the combined filesystem meets the same contract over pairs
  of states.\<close>

theorem prefix_mount_is_store:
  assumes "atomic_store B invB" "atomic_store M invM" "mount_new p = Some cfg"
  shows "atomic_store (prefix_mount B M cfg) (\<lambda>s. invB (fst s) \<and> invM (snd s))"
  using assms mount_new_at(1)[OF assms(3)]
  by (intro mounted_stores.mount_atomic mounted_stores.intro mounted_stores_axioms.intro)

theorem prefix_mount_is_store_witness:
  "\<exists>cfg. mount_new ''/skills/'' = Some cfg \<and>
     atomic_store (prefix_mount (memory_fs plain_codec plain_codec) (memory_fs plain_codec plain_codec) cfg)
       (\<lambda>s. mem_inv (fst s) \<and> mem_inv (snd s))"
proof -
  obtain cfg where "mount_new ''/skills/'' = Some cfg"
    by (cases "mount_new ''/skills/''") (code_simp, blast)
  then show ?thesis
    using prefix_mount_is_store[OF mem_atomic.atomic_store_axioms mem_atomic.atomic_store_axioms] by blast
qed

section \<open>Atomic calls stay on one side\<close>

definition touch_in :: "mount_cfg \<Rightarrow> touch \<Rightarrow> bool" where
  "touch_in cfg t \<longleftrightarrow> prefix (norm_parts (pm_prefix cfg)) (norm_parts (t_path t))"

definition takes_root :: "touch \<Rightarrow> bool" where
  "takes_root t \<longleftrightarrow> takes_subtree t \<and> norm_parts (t_path t) = []"

lemma touch_paths_normal: "t \<in> set (batched ms) \<Longrightarrow> is_normal (t_path t)"
proof (induction ms)
  case (Cons m ms) then show ?case by (cases m) auto
qed simp

lemma one_side_Some:
  assumes "mount_at cfg n" "\<forall>t \<in> set ts. is_normal (t_path t)" "\<forall>t \<in> set ts. \<not> takes_root t"
    and "\<forall>t \<in> set ts. touch_in cfg t = side" "ts = [] \<Longrightarrow> \<not> side"
  shows "one_side cfg what ts = Ok side"
proof -
  have i: "in_mount cfg (t_path t) = side" if "t \<in> set ts" for t
    using in_mount_iff[OF assms(1), of "t_path t"] assms(1,2,4) that
    by (auto simp: is_normal_def touch_in_def mount_at_def)
  have a: "\<not> (\<exists>t \<in> set ts. takes_subtree t \<and> is_ancestor (t_path t) (pm_prefix cfg))"
    using assms(1,3) by (auto simp: ancestor_mount_iff takes_root_def)
  show ?thesis
    using i assms(5) unfolding one_side_def if_not_P[OF a] by (cases ts) auto
qed

lemma one_side_Err:
  assumes "mount_at cfg n" "\<forall>t \<in> set ts. is_normal (t_path t)"
    and "(\<exists>t \<in> set ts. takes_root t) \<or> (\<exists>t \<in> set ts. touch_in cfg t) \<and> (\<exists>t \<in> set ts. \<not> touch_in cfg t)"
  shows "one_side cfg what ts = Err (mount_denied cfg what)"
proof (cases "one_side cfg what ts")
  case (Inr side)
  have "norm_parts (pm_prefix cfg) = [n]" using assms(1) by (simp add: mount_at_def)
  then show ?thesis
    using one_side_ok[OF assms(1) Inr assms(2)] assms(3) by (auto simp: touch_in_def takes_root_def)
next
  case (Inl e)
  then show ?thesis
    by (auto simp: one_side_def split: if_splits list.splits)
qed

text \<open>A batch through the mount runs on one side or not at all.  If it touches paths on both
  sides, or removes or moves away the root (and with it the mount), it is refused as permission
  denied and neither side changes; otherwise the whole normalised batch is handed to the one side
  its paths lie on and the other side's state is untouched.\<close>

theorem mount_batch_one_side:
  fixes ms :: "fs_mutation list"
  assumes "mount_new p = Some cfg"
  defines "touches \<equiv> batched ms"
  shows "pm_apply_batch B M cfg (b, m) ms =
    (if (\<exists>t \<in> set touches. takes_root t) \<or> (\<exists>t \<in> set touches. touch_in cfg t) \<and> (\<exists>t \<in> set touches. \<not> touch_in cfg t)
     then (Err (mount_denied cfg ''batch''), (b, m))
     else if \<exists>t \<in> set touches. touch_in cfg t
     then (let (r, m') = vfs_apply_batch M m (normalize_mutations ms) in (r, (b, m')))
     else (let (r, b') = vfs_apply_batch B b (normalize_mutations ms) in (r, (b', m))))"
proof -
  note at = mount_new_at(1)[OF assms(1)]
  have n: "\<forall>t \<in> set touches. is_normal (t_path t)" by (simp add: touches_def touch_paths_normal)
  let ?bad = "(\<exists>t \<in> set touches. takes_root t) \<or> (\<exists>t \<in> set touches. touch_in cfg t) \<and> (\<exists>t \<in> set touches. \<not> touch_in cfg t)"
  have eq: "pm_apply_batch B M cfg (b, m) ms =
      (case one_side cfg ''batch'' touches of
         Inl e \<Rightarrow> (Err e, (b, m))
       | Inr side \<Rightarrow> if side then on_mounted (\<lambda>m. vfs_apply_batch M m (normalize_mutations ms)) (b, m)
                     else on_base (\<lambda>b. vfs_apply_batch B b (normalize_mutations ms)) (b, m))"
    by (simp add: pm_apply_batch_def pm_on_side_def Let_def touches_normalize touches_def)
  show ?thesis
  proof (cases ?bad)
    case True
    then show ?thesis unfolding eq one_side_Err[OF at n True] if_P[OF True] by simp
  next
    case False
    let ?side = "\<exists>t \<in> set touches. touch_in cfg t"
    have "one_side cfg ''batch'' touches = Ok ?side"
      using False by (intro one_side_Some[OF at n]) auto
    then show ?thesis unfolding eq if_not_P[OF False] by (simp add: on_mounted_def on_base_def)
  qed
qed

definition skills_cfg :: mount_cfg where
  "skills_cfg = the (mount_new ''/skills'')"

theorem mount_batch_one_side_witness:
  "fst (pm_apply_batch (memory_fs plain_codec plain_codec) (memory_fs plain_codec plain_codec) skills_cfg
     (mem_new, mem_new) [MWrite ''/skills/a'' ''1'' Unconditional, MWrite ''/b'' ''2'' Unconditional]) =
   Err (PermissionDenied ''batch crosses the /skills mount'')"
proof -
  have c: "mount_new ''/skills'' = Some skills_cfg" by code_simp
  have d: "mount_denied skills_cfg ''batch'' = PermissionDenied ''batch crosses the /skills mount''" by code_simp
  have "\<exists>t \<in> set (batched [MWrite ''/skills/a'' ''1'' Unconditional, MWrite ''/b'' ''2'' Unconditional]). touch_in skills_cfg t"
    "\<exists>t \<in> set (batched [MWrite ''/skills/a'' ''1'' Unconditional, MWrite ''/b'' ''2'' Unconditional]). \<not> touch_in skills_cfg t"
    by code_simp+
  then show ?thesis
    unfolding mount_batch_one_side[OF c] d by simp
qed

section \<open>The root listing\<close>

text \<open>The root listing of a mounted filesystem shows the mount point exactly once and otherwise
  only base entries, and with a listing limit it never exceeds the limit: base entries are dropped,
  and reported as dropped, exactly when they would not leave room for the mount point.\<close>

theorem mount_root_listing:
  assumes "with_listing_limit cfg limit = Some cfg'" "distinct names"
    and "with_mount_entry cfg' names = (entries, displaced)"
  shows "length entries \<le> limit \<and> distinct entries \<and> count_list entries (pm_name cfg') = 1 \<and>
    set entries \<subseteq> insert (pm_name cfg') (set names) \<and>
    (displaced \<longleftrightarrow> \<not> set names \<subseteq> set entries)"
proof -
  define ns where "ns = filter (\<lambda>x. x \<noteq> pm_name cfg') names"
  have l: "listing_limit cfg' = Some limit" "1 \<le> limit"
    using assms(1) by (auto simp: with_listing_limit_def split: if_splits)
  have ns: "distinct ns" "pm_name cfg' \<notin> set ns" "set names - {pm_name cfg'} = set ns"
    using assms(2) by (auto simp: ns_def)
  have e: "entries = take (limit - 1) ns @ [pm_name cfg']" "displaced \<longleftrightarrow> limit - 1 < length ns"
    using assms(3) l by (auto simp: with_mount_entry_def Let_def ns_def[symmetric] split: if_splits)
  have "set ns \<subseteq> set (take (limit - 1) ns) \<longleftrightarrow> length ns \<le> limit - 1"
  proof
    assume "set ns \<subseteq> set (take (limit - 1) ns)"
    then have "card (set ns) \<le> card (set (take (limit - 1) ns))" by (intro card_mono) auto
    then show "length ns \<le> limit - 1"
      using ns(1) by (simp add: distinct_card distinct_take)
  qed simp
  moreover have "set names \<subseteq> set entries \<longleftrightarrow> set ns \<subseteq> set (take (limit - 1) ns)"
    using ns e by auto
  moreover have "count_list (take (limit - 1) ns) (pm_name cfg') = 0"
    using ns(2) by (auto simp: count_list_0_iff dest: in_set_takeD)
  moreover have "set (take (limit - 1) ns) \<subseteq> set ns" by (rule set_take_subset)
  ultimately have "length entries \<le> limit" "distinct entries" "count_list entries (pm_name cfg') = 1"
    "set entries \<subseteq> insert (pm_name cfg') (set names)" "displaced \<longleftrightarrow> \<not> set names \<subseteq> set entries"
    using ns l unfolding e by (auto simp: distinct_take subset_iff)
  then show ?thesis by blast
qed

theorem mount_root_listing_witness:
  "with_mount_entry (skills_cfg\<lparr>listing_limit := Some 2\<rparr>) [''a'', ''b''] = ([''a'', ''skills''], True) \<and>
     length [''a'', ''skills''] \<le> 2"
proof -
  have c: "with_listing_limit skills_cfg 2 = Some (skills_cfg\<lparr>listing_limit := Some 2\<rparr>)"
    by code_simp
  have e: "with_mount_entry (skills_cfg\<lparr>listing_limit := Some 2\<rparr>) [''a'', ''b''] = ([''a'', ''skills''], True)"
    by code_simp
  show ?thesis
    using mount_root_listing[OF c _ e] e by simp
qed

end
