(* ===== verification/Overlay_Fs.thy ===== *)
theory Overlay_Fs
  imports Memory_Fs
begin

text \<open>
  \<open>OverlayFs\<close> (\<^verbatim>\<open>simulacra-vfs/src/overlay.rs\<close>): a copy-on-write combination of a lower and an
  upper filesystem with a set of whiteouts.  The state keeps the two layers' states and the set; the
  order in which a snapshot lists the set (a hash set) is a parameter.
\<close>

section \<open>State and whiteouts\<close>

record ('l, 'u) overlay =
  ov_lower :: 'l
  ov_upper :: 'u
  whiteouts :: "string set"

definition overlay_new :: "'l \<Rightarrow> 'u \<Rightarrow> ('l, 'u) overlay" where
  "overlay_new l u = \<lparr>ov_lower = l, ov_upper = u, whiteouts = {}\<rparr>"

definition rfind :: "char \<Rightarrow> string \<Rightarrow> nat option" where
  "rfind c s = (if c \<in> set s then Some (length s - 1 - length (takeWhile (\<lambda>x. x \<noteq> c) (rev s))) else None)"

lemma rfind_less: "rfind c s = Some n \<Longrightarrow> n < length s"
  by (auto simp: rfind_def split: if_splits dest: length_pos_if_in_set)

function whited_ancestor :: "string set \<Rightarrow> string \<Rightarrow> bool" where
  "whited_ancestor W current =
     (case rfind slash current of
        None \<Rightarrow> False
      | Some pos \<Rightarrow>
          if pos = 0 then ''/'' \<in> W
          else take pos current \<in> W \<or> whited_ancestor W (take pos current))"
  by auto
termination
  by (relation "measure (\<lambda>(W, current). length current)") (auto dest: rfind_less)

declare whited_ancestor.simps [simp del]

definition is_whited_out :: "string set \<Rightarrow> string \<Rightarrow> bool" where
  "is_whited_out W path \<longleftrightarrow> path \<in> W \<or> whited_ancestor W path"

function clear_ancestors :: "string \<Rightarrow> string set \<Rightarrow> string set" where
  "clear_ancestors current W =
     (case rfind slash current of
        None \<Rightarrow> W
      | Some pos \<Rightarrow>
          if pos = 0 then W - {''/''}
          else clear_ancestors (take pos current) (W - {take pos current}))"
  by auto
termination
  by (relation "measure (\<lambda>(current, W). length current)") (auto dest: rfind_less)

declare clear_ancestors.simps [simp del]

definition clear_whiteouts_recursive :: "string set \<Rightarrow> string \<Rightarrow> string set" where
  "clear_whiteouts_recursive W path = clear_ancestors path (W - {path})"

section \<open>Operations\<close>

definition ov_read ::
  "('l, 'a) virtual_fs \<Rightarrow> ('u, 'b) virtual_fs \<Rightarrow> ('l, 'u) overlay \<Rightarrow> string \<Rightarrow> vfs_error + bytes" where
  "ov_read L U s path0 =
     (let path = normalize_vfs path0
      in if is_whited_out (whiteouts s) path then Err (NotFound path)
         else case vfs_read U (ov_upper s) path of
           Inr data \<Rightarrow> Ok data
         | Inl (NotFound _) \<Rightarrow> vfs_read L (ov_lower s) path
         | Inl e \<Rightarrow> Err e)"

definition ov_write ::
  "('u, 'b) virtual_fs \<Rightarrow> ('l, 'u) overlay \<Rightarrow> string \<Rightarrow> bytes \<Rightarrow> ('l, 'u) overlay outcome" where
  "ov_write U s path0 data =
     (let path = normalize_vfs path0;
          s1 = s\<lparr>whiteouts := clear_whiteouts_recursive (whiteouts s) path\<rparr>;
          (r, u) = vfs_write U (ov_upper s1) path data
      in (r, s1\<lparr>ov_upper := u\<rparr>))"

definition ov_exists ::
  "('l, 'a) virtual_fs \<Rightarrow> ('u, 'b) virtual_fs \<Rightarrow> ('l, 'u) overlay \<Rightarrow> string \<Rightarrow> bool" where
  "ov_exists L U s path0 =
     (let path = normalize_vfs path0
      in if is_whited_out (whiteouts s) path then False
         else vfs_exists U (ov_upper s) path \<or> vfs_exists L (ov_lower s) path)"

definition ov_list_dir ::
  "('l, 'a) virtual_fs \<Rightarrow> ('u, 'b) virtual_fs \<Rightarrow> ('l, 'u) overlay \<Rightarrow> string \<Rightarrow> vfs_error + string list" where
  "ov_list_dir L U s path0 =
     (let path = normalize_vfs path0
      in if is_whited_out (whiteouts s) path then Err (NotFound path)
         else
           (let upper_exists = vfs_exists U (ov_upper s) path;
                lower_exists = vfs_exists L (ov_lower s) path
            in if \<not> upper_exists \<and> \<not> lower_exists then Err (NotFound path)
               else
                 (let pre = (if path = ''/'' then ''/'' else path @ ''/'');
                      lower_names =
                        (case (lower_exists, vfs_list_dir L (ov_lower s) path) of
                           (True, Inr entries) \<Rightarrow> filter (\<lambda>e. \<not> is_whited_out (whiteouts s) (pre @ e)) entries
                         | _ \<Rightarrow> []);
                      upper_names =
                        (case (upper_exists, vfs_list_dir U (ov_upper s) path) of
                           (True, Inr entries) \<Rightarrow> entries
                         | _ \<Rightarrow> [])
                  in Ok (sort (remdups (lower_names @ upper_names))))))"

definition ov_mkdir ::
  "('u, 'b) virtual_fs \<Rightarrow> ('l, 'u) overlay \<Rightarrow> string \<Rightarrow> ('l, 'u) overlay outcome" where
  "ov_mkdir U s path0 =
     (let path = normalize_vfs path0;
          s1 = s\<lparr>whiteouts := clear_whiteouts_recursive (whiteouts s) path\<rparr>;
          (r, u) = vfs_mkdir U (ov_upper s1) path
      in (r, s1\<lparr>ov_upper := u\<rparr>))"

definition ov_remove ::
  "('l, 'a) virtual_fs \<Rightarrow> ('u, 'b) virtual_fs \<Rightarrow> ('l, 'u) overlay \<Rightarrow> string \<Rightarrow> ('l, 'u) overlay outcome" where
  "ov_remove L U s path0 =
     (let path = normalize_vfs path0
      in if \<not> ov_exists L U s path then (Err (NotFound path), s)
         else
           (let s1 = s\<lparr>ov_upper := snd (vfs_remove U (ov_upper s) path)\<rparr>
            in (Ok (), s1\<lparr>whiteouts := insert path (whiteouts s1)\<rparr>)))"

definition ov_write_if ::
  "('l, 'u) overlay \<Rightarrow> string \<Rightarrow> bytes \<Rightarrow> precondition \<Rightarrow> ('l, 'u) overlay outcome" where
  "ov_write_if s path data c = (Err (Unsupported (''OverlayFs write_if '' @ path)), s)"

definition ov_rename :: "('l, 'u) overlay \<Rightarrow> string \<Rightarrow> string \<Rightarrow> ('l, 'u) overlay outcome" where
  "ov_rename s from to = (Err (Unsupported (''OverlayFs rename '' @ from @ '' -> '' @ to)), s)"

definition ov_apply_batch :: "('l, 'u) overlay \<Rightarrow> fs_mutation list \<Rightarrow> ('l, 'u) overlay outcome" where
  "ov_apply_batch s ms = (Err (Unsupported ''OverlayFs apply_batch''), s)"

definition ov_metadata ::
  "('l, 'a) virtual_fs \<Rightarrow> ('u, 'b) virtual_fs \<Rightarrow> ('l, 'u) overlay \<Rightarrow> string \<Rightarrow> vfs_error + fs_metadata" where
  "ov_metadata L U s path0 =
     (let path = normalize_vfs path0
      in if is_whited_out (whiteouts s) path then Err (NotFound path)
         else
           (let metadata =
                  (case vfs_metadata U (ov_upper s) path of
                     Inr m \<Rightarrow> Ok m
                   | Inl (NotFound _) \<Rightarrow> vfs_metadata L (ov_lower s) path
                   | Inl e \<Rightarrow> Err e)
            in case metadata of Inl e \<Rightarrow> Err e | Inr m \<Rightarrow> Ok (m\<lparr>md_revision := None\<rparr>)))"

text \<open>A snapshot pairs the upper layer's with the whiteouts; \<open>to_vec\<close> and \<open>from_slice\<close> are the JSON
  codec, \<open>order\<close> the iteration order of the set.\<close>

definition ov_snapshot ::
  "('u, 'b) virtual_fs \<Rightarrow> (string set \<Rightarrow> string list) \<Rightarrow> ('b \<times> string list \<Rightarrow> string + 'j) \<Rightarrow>
   ('l, 'u) overlay \<Rightarrow> vfs_error + 'j" where
  "ov_snapshot U order to_vec s =
     (case vfs_snapshot U (ov_upper s) of
        Inl e \<Rightarrow> Err e
      | Inr upper_snap \<Rightarrow>
          (case to_vec (upper_snap, order (whiteouts s)) of Inl e \<Rightarrow> Err (Io e) | Inr json \<Rightarrow> Ok json))"

definition ov_restore ::
  "('u, 'b) virtual_fs \<Rightarrow> ('j \<Rightarrow> string + 'b \<times> string list) \<Rightarrow> ('l, 'u) overlay \<Rightarrow> 'j \<Rightarrow> ('l, 'u) overlay outcome" where
  "ov_restore U from_slice s snapshot =
     (case from_slice snapshot of
        Inl e \<Rightarrow> (Err (Io e), s)
      | Inr (upper, wo) \<Rightarrow>
          (case vfs_restore U (ov_upper s) upper of
             (Inl e, u) \<Rightarrow> (Err e, s\<lparr>ov_upper := u\<rparr>)
           | (Inr _, u) \<Rightarrow> (Ok (), s\<lparr>ov_upper := u, whiteouts := set wo\<rparr>)))"

definition overlay_fs ::
  "('l, 'a) virtual_fs \<Rightarrow> ('u, 'b) virtual_fs \<Rightarrow> (string set \<Rightarrow> string list) \<Rightarrow> ('b \<times> string list \<Rightarrow> string + 'j) \<Rightarrow>
   ('j \<Rightarrow> string + 'b \<times> string list) \<Rightarrow> (('l, 'u) overlay, 'j) virtual_fs" where
  "overlay_fs L U order to_vec from_slice =
     \<lparr>vfs_read = ov_read L U, vfs_write = ov_write U, vfs_exists = ov_exists L U,
      vfs_list_dir = ov_list_dir L U, vfs_mkdir = ov_mkdir U, vfs_remove = ov_remove L U,
      vfs_metadata = ov_metadata L U, vfs_snapshot = ov_snapshot U order to_vec,
      vfs_restore = ov_restore U from_slice, vfs_write_if = ov_write_if, vfs_rename = ov_rename,
      vfs_apply_batch = ov_apply_batch, vfs_list_dir_bounded = default_list_dir_bounded (ov_list_dir L U)\<rparr>"

section \<open>Whiteouts on segments\<close>

lemma rfind_snoc: "c \<notin> set t \<Longrightarrow> rfind c (s @ c # t) = Some (length s)"
  by (auto simp: rfind_def takeWhile_append)

lemma rfind_abs_snoc:
  assumes "good_seg q"
  shows "rfind slash (abs_path (qs @ [q])) = Some (length (raw_path qs))"
proof -
  have "abs_path (qs @ [q]) = raw_path qs @ slash # q" by (simp add: abs_path_snoc raw_path_def)
  then show ?thesis using rfind_snoc[OF good_seg_noslash[OF assms]] by simp
qed

lemma take_abs_snoc: "qs \<noteq> [] \<Longrightarrow> take (length (raw_path qs)) (abs_path (qs @ [q])) = abs_path qs"
  by (simp add: abs_path_snoc raw_path_def)

lemma raw_path_empty: "length (raw_path qs) = 0 \<longleftrightarrow> qs = []"
  by (simp add: raw_path_def abs_path_def)

definition covered :: "string set \<Rightarrow> string list \<Rightarrow> bool" where
  "covered W ps \<longleftrightarrow> (\<exists>as. prefix as ps \<and> abs_path as \<in> W)"

definition above :: "string list \<Rightarrow> string list set" where
  "above ps = {as. strict_prefix as ps \<or> as = []}"

lemma above_Nil: "above [] = {[]}"
  by (auto simp: above_def)

lemma above_snoc: "above (qs @ [q]) = insert qs (above qs)"
  by (auto simp: above_def strict_prefix_def)

lemma prefixes_above: "{as. prefix as ps} = insert ps (above ps)"
  by (auto simp: above_def strict_prefix_def)

lemma covered_above: "covered W ps \<longleftrightarrow> abs_path ps \<in> W \<or> (\<exists>as \<in> above ps. abs_path as \<in> W)"
proof -
  have "covered W ps \<longleftrightarrow> (\<exists>as \<in> {as. prefix as ps}. abs_path as \<in> W)" by (simp add: covered_def)
  then show ?thesis by (simp only: prefixes_above bex_simps)
qed

lemma rfind_root: "rfind slash ''/'' = Some 0"
  by (simp add: rfind_def)

lemma whited_ancestor_abs:
  "good_segs ps \<Longrightarrow> whited_ancestor W (abs_path ps) \<longleftrightarrow> (\<exists>as \<in> above ps. abs_path as \<in> W)"
proof (induction ps rule: rev_induct)
  case Nil
  show ?case by (simp add: whited_ancestor.simps[of W "''/''"] rfind_root above_Nil)
next
  case (snoc q qs)
  then have r: "rfind slash (abs_path (qs @ [q])) = Some (length (raw_path qs))" by (simp add: rfind_abs_snoc)
  show ?case
  proof (cases "qs = []")
    case True
    then show ?thesis
      using r above_snoc[of "[]" q] by (subst whited_ancestor.simps) (simp add: raw_path_def above_Nil)
  next
    case False
    then have "whited_ancestor W (abs_path (qs @ [q])) \<longleftrightarrow> abs_path qs \<in> W \<or> whited_ancestor W (abs_path qs)"
      using r take_abs_snoc[OF False] raw_path_empty[of qs] by (subst whited_ancestor.simps) simp
    then show ?thesis using snoc by (simp add: above_snoc)
  qed
qed

lemma is_whited_out_abs: "good_segs ps \<Longrightarrow> is_whited_out W (abs_path ps) \<longleftrightarrow> covered W ps"
  by (simp add: is_whited_out_def whited_ancestor_abs covered_above)

lemma clear_ancestors_abs:
  "good_segs ps \<Longrightarrow> clear_ancestors (abs_path ps) W = W - abs_path ` above ps"
proof (induction ps arbitrary: W rule: rev_induct)
  case Nil
  show ?case by (simp add: clear_ancestors.simps[of "''/''" W] rfind_root above_Nil)
next
  case (snoc q qs)
  then have r: "rfind slash (abs_path (qs @ [q])) = Some (length (raw_path qs))" by (simp add: rfind_abs_snoc)
  show ?case
  proof (cases "qs = []")
    case True
    then show ?thesis
      using r above_snoc[of "[]" q] by (subst clear_ancestors.simps) (simp add: raw_path_def above_Nil)
  next
    case False
    then have "clear_ancestors (abs_path (qs @ [q])) W = clear_ancestors (abs_path qs) (W - {abs_path qs})"
      using r take_abs_snoc[OF False] raw_path_empty[of qs] by (subst clear_ancestors.simps) simp
    then show ?thesis using snoc by (auto simp: above_snoc)
  qed
qed

lemma clear_whiteouts_abs:
  "good_segs ps \<Longrightarrow> clear_whiteouts_recursive W (abs_path ps) = W - abs_path ` {as. prefix as ps}"
  unfolding clear_whiteouts_recursive_def by (auto simp: clear_ancestors_abs prefixes_above)

lemma covered_cleared:
  assumes "good_segs ps" "prefix qs ps"
  shows "\<not> covered (clear_whiteouts_recursive W (abs_path ps)) qs"
proof -
  have "prefix as ps" if "prefix as qs" for as using that assms(2) prefix_order.trans by blast
  then show ?thesis using assms by (auto simp: clear_whiteouts_abs covered_def)
qed

lemma cleared_uncovered:
  assumes "good_segs ps" "\<not> covered W ps"
  shows "clear_whiteouts_recursive W (abs_path ps) = W"
  using assms by (auto simp: clear_whiteouts_abs covered_def)

lemma covered_below: "covered W ps \<Longrightarrow> prefix ps qs \<Longrightarrow> covered W qs"
  unfolding covered_def using prefix_order.trans by blast

lemma covered_insert: "good_segs ps \<Longrightarrow> prefix ps qs \<Longrightarrow> covered (insert (abs_path ps) W) qs"
  by (auto simp: covered_def)

section \<open>What the overlay shows\<close>

lemma whited_normalize: "is_whited_out W (normalize_vfs p) \<longleftrightarrow> covered W (norm_parts p)"
  by (simp add: normalize_abs is_whited_out_abs)

lemma ov_read_cases:
  "ov_read L U s p =
     (if covered (whiteouts s) (norm_parts p) then Err (NotFound (normalize_vfs p))
      else case vfs_read U (ov_upper s) (normalize_vfs p) of
        Inr data \<Rightarrow> Ok data
      | Inl (NotFound _) \<Rightarrow> vfs_read L (ov_lower s) (normalize_vfs p)
      | Inl e \<Rightarrow> Err e)"
  by (simp add: ov_read_def Let_def whited_normalize)

lemma ov_write_ok:
  assumes "ov_write U s p d = (Ok u, s')"
  obtains v where "vfs_write U (ov_upper s) (normalize_vfs p) d = (Ok u, v)"
    "s' = s\<lparr>whiteouts := clear_whiteouts_recursive (whiteouts s) (normalize_vfs p), ov_upper := v\<rparr>"
  using assms by (auto simp: ov_write_def Let_def split: prod.splits)

locale overlay_layers =
  U: file_store U invU for U :: "('u, 'b) virtual_fs" and invU +
  fixes L :: "('l, 'a) virtual_fs"
begin

lemma overlay_read_after_write:
  assumes "invU (ov_upper s)" "ov_write U s p d = (Ok u, s')"
  shows "ov_read L U s' p = Ok d"
proof -
  from assms(2) obtain v where v: "vfs_write U (ov_upper s) (normalize_vfs p) d = (Ok u, v)"
    "s' = s\<lparr>whiteouts := clear_whiteouts_recursive (whiteouts s) (normalize_vfs p), ov_upper := v\<rparr>"
    by (rule ov_write_ok)
  have "\<not> covered (whiteouts s') (norm_parts p)"
    using covered_cleared[of "norm_parts p" "norm_parts p" "whiteouts s"] v(2) by (simp add: normalize_abs)
  then show ?thesis
    using U.read_after_write[OF assms(1) v(1)] v(2) by (simp add: ov_read_cases)
qed

lemma overlay_removed_gone:
  assumes "ov_remove L U s p = (Ok u, s')" "prefix (norm_parts p) (norm_parts q)"
  shows "ov_read L U s' q = Err (NotFound (normalize_vfs q))" "\<not> ov_exists L U s' q"
proof -
  have "whiteouts s' = insert (abs_path (norm_parts p)) (whiteouts s)"
    using assms(1) by (auto simp: ov_remove_def Let_def normalize_abs split: if_splits)
  then have "covered (whiteouts s') (norm_parts q)" using covered_insert[OF norm_parts_good assms(2)] by simp
  then show "ov_read L U s' q = Err (NotFound (normalize_vfs q))" "\<not> ov_exists L U s' q"
    by (simp_all add: ov_read_cases ov_exists_def Let_def whited_normalize)
qed

end

interpretation mem_overlay:
  overlay_layers "memory_fs to_vec from_slice" mem_inv "memory_fs a b" for to_vec from_slice a b
  by unfold_locales

text \<open>Over an upper layer that meets the filesystem contract and any lower layer: after a
  successful write the path reads back the written bytes, whatever was removed before (the whiteouts
  on the way are cleared), and after a successful removal the path and everything below it read as
  not found and do not exist, whatever the lower layer holds.\<close>

theorem overlay_write_remove_visible:
  assumes "file_store U invU" "invU (ov_upper s)"
  shows "(ov_write U s p d = (Ok u, s') \<longrightarrow> ov_read L U s' p = Ok d) \<and>
    (ov_remove L U s p = (Ok u, s') \<longrightarrow> prefix (norm_parts p) (norm_parts q) \<longrightarrow>
       ov_read L U s' q = Err (NotFound (normalize_vfs q)) \<and> \<not> ov_exists L U s' q)"
proof -
  have l: "overlay_layers U invU" using assms(1) by (rule overlay_layers.intro)
  show ?thesis
    using overlay_layers.overlay_read_after_write[OF l assms(2)]
      overlay_layers.overlay_removed_gone[OF l] by blast
qed

abbreviation plain_mem :: "(mem_state, snapshot_items) virtual_fs" where
  "plain_mem \<equiv> memory_fs plain_codec plain_codec"

definition lower_sample :: mem_state where
  "lower_sample = vfs_run plain_mem [CWrite ''/d/a'' ''A'', CWrite ''/d/b'' ''B''] mem_new"

definition overlay_sample :: "(mem_state, mem_state) overlay" where
  "overlay_sample = overlay_new lower_sample mem_new"

theorem overlay_write_remove_visible_witness:
  "ov_read plain_mem plain_mem (snd (ov_write plain_mem overlay_sample ''/d/a'' ''X'')) ''/d/a'' = Ok ''X'' \<and>
   ov_read plain_mem plain_mem (snd (ov_remove plain_mem plain_mem overlay_sample ''/d'')) ''/d/b'' = Err (NotFound ''/d/b'')"
proof -
  have i: "mem_inv (ov_upper overlay_sample)" by (simp add: overlay_sample_def overlay_new_def map_inv_new)
  have w: "fst (ov_write plain_mem overlay_sample ''/d/a'' ''X'') = Ok ()"
    and r: "fst (ov_remove plain_mem plain_mem overlay_sample ''/d'') = Ok ()"
    and n: "normalize_vfs ''/d/b'' = ''/d/b''" "prefix (norm_parts ''/d'') (norm_parts ''/d/b'')"
    by code_simp+
  show ?thesis
    using overlay_write_remove_visible[OF mem.file_store_axioms i] w r n by (metis prod.collapse)
qed

text \<open>The frame of an overlay write: when nothing on the way to the path is removed, a successful
  write over an in-memory upper layer changes no other path's contents, except that a lower-layer file
  standing where the write needs a parent directory is shadowed by the created directory.\<close>

theorem overlay_write_frame:
  assumes inv: "mem_inv (ov_upper s)" and w: "ov_write (memory_fs a b) s p d = (Ok u, s')"
    and nc: "\<not> covered (whiteouts s) (norm_parts p)" and q: "norm_parts q \<noteq> norm_parts p"
    and anc: "norm_parts q \<in> proper_ancestors (norm_parts p) \<Longrightarrow> \<not> is_ok (vfs_read L (ov_lower s) (normalize_vfs q))"
  shows "ov_read L (memory_fs a b) s' q = Ok c \<longleftrightarrow> ov_read L (memory_fs a b) s q = Ok c"
proof -
  let ?ps = "norm_parts p" and ?qs = "norm_parts q"
  from w obtain v where v: "mem_write (ov_upper s) (normalize_vfs p) d = (Ok u, v)"
    "s' = s\<lparr>whiteouts := clear_whiteouts_recursive (whiteouts s) (normalize_vfs p), ov_upper := v\<rparr>"
    by (elim ov_write_ok) simp
  have W: "whiteouts s' = whiteouts s" "ov_lower s' = ov_lower s" "ov_upper s' = v"
    using v(2) cleared_uncovered[OF norm_parts_good nc] by (simp_all add: normalize_abs)
  have "tree v = t_put ?ps (NFile d) (tree (ov_upper s))"
    using v(1) by (auto simp: mem_write_cases fs_simps split: if_splits)
  then have t: "tree v ?qs = t_parents ?ps (tree (ov_upper s)) ?qs" using q by (simp add: t_put_def)
  show ?thesis
    using anc unfolding ov_read_cases W
    by (auto simp: mem_read_tree t t_parents_def or_dirs_def simp del: tree_None split: option.splits node.splits if_splits)
qed

theorem overlay_write_frame_witness:
  "ov_read plain_mem plain_mem (snd (ov_write plain_mem overlay_sample ''/d/c'' ''C'')) ''/d/a'' = Ok ''A''"
proof -
  have i: "mem_inv (ov_upper overlay_sample)" by (simp add: overlay_sample_def overlay_new_def map_inv_new)
  have w: "ov_write plain_mem overlay_sample ''/d/c'' ''C'' = (Ok (), snd (ov_write plain_mem overlay_sample ''/d/c'' ''C''))"
    and c: "whiteouts overlay_sample = {}" and r: "ov_read plain_mem plain_mem overlay_sample ''/d/a'' = Ok ''A''"
    and n: "norm_parts ''/d/a'' = [''d'', ''a'']" "norm_parts ''/d/c'' = [''d'', ''c'']"
    by code_simp+
  show ?thesis
    using overlay_write_frame[OF i w, of "''/d/a''" plain_mem "''A''"] r
    by (simp add: c n covered_def proper_ancestors_def strict_prefix_def)
qed

text \<open>A write below a removed directory brings back the lower layer's siblings: after removing
  \<open>/d\<close> (which holds \<open>a\<close> and \<open>b\<close> in the lower layer) and writing \<open>/d/c\<close>, the removed files \<open>/d/a\<close> and
  \<open>/d/b\<close> are readable and listed again, because the write clears the whiteouts of its ancestors
  without replacing them by whiteouts of their other children.\<close>

theorem overlay_write_resurrects_siblings:
  "let s1 = snd (ov_remove plain_mem plain_mem overlay_sample ''/d'');
       s2 = snd (ov_write plain_mem s1 ''/d/c'' ''C'')
   in ov_read plain_mem plain_mem s1 ''/d/a'' = Err (NotFound ''/d/a'') \<and>
      ov_read plain_mem plain_mem s2 ''/d/a'' = Ok ''A'' \<and>
      ov_list_dir plain_mem plain_mem s2 ''/d'' = Ok [''a'', ''b'', ''c'']"
  by code_simp

lemma overlay_root_whited:
  assumes "ov_exists L U s ''/''"
  shows "fst (ov_remove L U s ''/'') = Ok ()" "\<not> ov_exists L U (snd (ov_remove L U s ''/'')) q"
proof -
  have n: "normalize_vfs ''/'' = ''/''" by code_simp
  show "fst (ov_remove L U s ''/'') = Ok ()" using assms by (simp add: ov_remove_def Let_def n)
  have w: "whiteouts (snd (ov_remove L U s ''/'')) = insert ''/'' (whiteouts s)"
    using assms by (simp add: ov_remove_def Let_def n)
  have "covered (insert ''/'' (whiteouts s)) (norm_parts q)"
    using covered_insert[of "[]" "norm_parts q" "whiteouts s"] by simp
  then show "\<not> ov_exists L U (snd (ov_remove L U s ''/'')) q"
    unfolding ov_exists_def[of L U _ q] by (simp add: Let_def w whited_normalize)
qed

text \<open>Removing the root of an overlay succeeds and hides the whole filesystem, although every
  other filesystem refuses it: the upper layer's error is dropped and the root becomes a whiteout,
  after which no path exists, the root included.\<close>

theorem overlay_remove_root_hides_all:
  assumes "mem_inv (ov_upper s)" "\<not> is_whited_out (whiteouts s) ''/''"
  shows "fst (ov_remove L (memory_fs a b) s ''/'') = Ok () \<and>
    \<not> ov_exists L (memory_fs a b) (snd (ov_remove L (memory_fs a b) s ''/'')) q"
proof -
  have n: "normalize_vfs ''/'' = ''/''" "norm_parts ''/'' = []" by code_simp+
  have "mem_exists (ov_upper s) ''/''"
    using map_inv_root[OF assms(1)] by (simp add: mem_exists_tree n del: tree_None)
  then have "ov_exists L (memory_fs a b) s ''/''" using assms(2) by (simp add: ov_exists_def Let_def n)
  then show ?thesis using overlay_root_whited by blast
qed

theorem overlay_remove_root_hides_all_witness:
  "\<not> ov_exists plain_mem plain_mem (snd (ov_remove plain_mem plain_mem overlay_sample ''/'')) ''/d/a''"
proof -
  have "mem_inv (ov_upper overlay_sample)" by (simp add: overlay_sample_def overlay_new_def map_inv_new)
  moreover have "\<not> is_whited_out (whiteouts overlay_sample) ''/''" by code_simp
  ultimately show ?thesis using overlay_remove_root_hides_all by blast
qed

section \<open>Snapshots\<close>

text \<open>Restoring an overlay snapshot brings back the upper tree and the whiteouts: given codecs whose
  decoders read back what their encoders wrote, and any order of listing the whiteout set, restoring
  what \<open>snapshot\<close> returned into any overlay over the same kind of layers succeeds and yields the saved
  upper tree, the saved whiteouts and that overlay's own lower layer.\<close>

theorem overlay_snapshot_roundtrip:
  assumes inv: "mem_inv (ov_upper s)"
    and snap: "ov_snapshot (memory_fs enc dec) order to_vec s = Ok j"
    and codec: "\<And>items i. enc items = Ok i \<Longrightarrow> dec i = Ok items"
    and codec2: "\<And>x i. to_vec x = Ok i \<Longrightarrow> from_slice i = Ok x"
    and order: "set (order (whiteouts s)) = whiteouts s"
  shows "\<exists>s'. ov_restore (memory_fs enc dec) from_slice s2 j = (Ok (), s') \<and>
    tree (ov_upper s') = tree (ov_upper s) \<and> whiteouts s' = whiteouts s \<and> ov_lower s' = ov_lower s2"
proof -
  obtain i where i: "enc (map snapshot_item (mem_map (ov_upper s))) = Ok i" "to_vec (i, order (whiteouts s)) = Ok j"
    using snap by (auto simp: ov_snapshot_def mem_snapshot_def split: sum.splits)
  obtain v where v: "mem_restore dec (ov_upper s2) i = (Ok (), v)" "tree v = tree (ov_upper s)"
    using mem_restore_items[of "ov_upper s" dec i "ov_upper s2"] inv codec[OF i(1)]
    by metis
  show ?thesis
    using codec2[OF i(2)] v order by (simp add: ov_restore_def)
qed

definition plain_pair_codec :: "snapshot_items \<times> string list \<Rightarrow> string + snapshot_items \<times> string list" where
  "plain_pair_codec x = Ok x"

theorem overlay_snapshot_roundtrip_witness:
  "\<exists>j s'. ov_snapshot plain_mem sorted_list_of_set plain_pair_codec overlay_sample = Ok j \<and>
     ov_restore plain_mem plain_pair_codec overlay_sample j = (Ok (), s') \<and>
     tree (ov_upper s') = tree mem_new"
proof -
  have i: "mem_inv (ov_upper overlay_sample)" and u: "ov_upper overlay_sample = mem_new" "whiteouts overlay_sample = {}"
    by (simp_all add: overlay_sample_def overlay_new_def map_inv_new)
  obtain j where j: "ov_snapshot plain_mem sorted_list_of_set plain_pair_codec overlay_sample = Ok j"
    by (simp add: ov_snapshot_def mem_snapshot_def plain_codec_def plain_pair_codec_def)
  then show ?thesis
    using overlay_snapshot_roundtrip[OF i j, of plain_pair_codec overlay_sample] u
    by (auto simp: plain_codec_def plain_pair_codec_def)
qed

end
