(* ===== verification/Hooks.thy ===== *)
theory Hooks
  imports Sim_Prelude
begin

text \<open>
  Governance hooks (\<^verbatim>\<open>simulacra-hooks/src/verdict.rs\<close>, \<^verbatim>\<open>error.rs\<close>, \<^verbatim>\<open>pipeline.rs\<close>, \<^verbatim>\<open>js.rs\<close>).  A hook
  is its name and its \<open>invoke\<close>, which may read and change the outside world \<open>'w\<close>; the pipeline threads
  that world, so the theorems also say which hooks ran.  The OpenTelemetry counters are not modelled.
\<close>

section \<open>Verdicts\<close>

datatype phase = Before | After

datatype operation = OpToolCall | OpLlm | OpSpawn | OpHttpRequest | OpVfsWrite

fun show_phase :: "phase \<Rightarrow> string" where
  "show_phase Before = ''before''"
| "show_phase After = ''after''"

fun show_operation :: "operation \<Rightarrow> string" where
  "show_operation OpToolCall = ''tool_call''"
| "show_operation OpLlm = ''llm''"
| "show_operation OpSpawn = ''spawn''"
| "show_operation OpHttpRequest = ''http_request''"
| "show_operation OpVfsWrite = ''vfs_write''"

datatype verdict = Continue "string option" | Deny string | Kill string

definition continue_unchanged :: verdict where
  "continue_unchanged = Continue None"

fun show_verdict :: "verdict \<Rightarrow> string" where
  "show_verdict (Continue None) = ''continue''"
| "show_verdict (Continue (Some _)) = ''continue(modified)''"
| "show_verdict (Deny reason) = ''deny: '' @ reason"
| "show_verdict (Kill reason) = ''kill: '' @ reason"

datatype hook_error =
    Denied string string
  | Killed string string
  | Timeout string u64
  | ExecutionError string string

record 'w hook =
  hk_name :: string
  hk_invoke :: "phase \<Rightarrow> operation \<Rightarrow> string \<Rightarrow> 'w \<Rightarrow> (hook_error + verdict) \<times> 'w"

section \<open>The pipeline\<close>

record 'w pipeline =
  chains :: "operation \<rightharpoonup> 'w hook list"

definition pipeline_new :: "'w pipeline" where
  "pipeline_new = \<lparr>chains = Map.empty\<rparr>"

definition pipeline_add :: "'w pipeline \<Rightarrow> operation \<Rightarrow> 'w hook \<Rightarrow> 'w pipeline" where
  "pipeline_add p op h =
     (let hooks = unwrap_or (chains p op) [] in p\<lparr>chains := (chains p)(op \<mapsto> hooks @ [h])\<rparr>)"

definition hook_names :: "'w pipeline \<Rightarrow> operation \<Rightarrow> string list" where
  "hook_names p op = unwrap_or (map_option (map hk_name) (chains p op)) []"

type_synonym attributed = "hook_error + (verdict \<times> string \<times> string option)"

fun before_loop :: "operation \<Rightarrow> 'w hook list \<Rightarrow> string \<Rightarrow> 'w \<Rightarrow> attributed \<times> 'w" where
  "before_loop op [] current w = (Ok (continue_unchanged, current, None), w)"
| "before_loop op (h # hs) current w =
     (case hk_invoke h Before op current w of
        (Inr (Continue None), w') \<Rightarrow> before_loop op hs current w'
      | (Inr (Continue (Some modified)), w') \<Rightarrow> before_loop op hs modified w'
      | (Inr (Deny reason), w') \<Rightarrow> (Ok (Deny reason, current, Some (hk_name h)), w')
      | (Inr (Kill reason), w') \<Rightarrow> (Err (Killed (hk_name h) reason), w')
      | (Inl (Timeout _ timeout_ms), w') \<Rightarrow>
          (Ok (Deny (''hook timeout after '' @ show_word timeout_ms @ ''ms (fail closed)''), current,
               Some (hk_name h)), w')
      | (Inl e, w') \<Rightarrow> (Err e, w'))"

definition run_before_attributed :: "'w pipeline \<Rightarrow> operation \<Rightarrow> string \<Rightarrow> 'w \<Rightarrow> attributed \<times> 'w" where
  "run_before_attributed p op ctx w =
     (case chains p op of
        None \<Rightarrow> (Ok (continue_unchanged, ctx, None), w)
      | Some hooks \<Rightarrow> before_loop op hooks ctx w)"

definition run_before :: "'w pipeline \<Rightarrow> operation \<Rightarrow> string \<Rightarrow> 'w \<Rightarrow> (hook_error + verdict \<times> string) \<times> 'w" where
  "run_before p op ctx w =
     (case run_before_attributed p op ctx w of
        (Inl e, w') \<Rightarrow> (Err e, w')
      | (Inr (v, c, _), w') \<Rightarrow> (Ok (v, c), w'))"

fun after_loop :: "operation \<Rightarrow> 'w hook list \<Rightarrow> string \<Rightarrow> 'w \<Rightarrow> (hook_error + verdict \<times> string) \<times> 'w" where
  "after_loop op [] current w = (Ok (continue_unchanged, current), w)"
| "after_loop op (h # hs) current w =
     (case hk_invoke h After op current w of
        (Inr (Continue None), w') \<Rightarrow> after_loop op hs current w'
      | (Inr (Continue (Some modified)), w') \<Rightarrow> after_loop op hs modified w'
      | (Inr (Deny _), w') \<Rightarrow> after_loop op hs current w'
      | (Inr (Kill reason), w') \<Rightarrow> (Err (Killed (hk_name h) reason), w')
      | (Inl (Timeout _ _), w') \<Rightarrow> after_loop op hs current w'
      | (Inl e, w') \<Rightarrow> (Err e, w'))"

definition run_after :: "'w pipeline \<Rightarrow> operation \<Rightarrow> string \<Rightarrow> 'w \<Rightarrow> (hook_error + verdict \<times> string) \<times> 'w" where
  "run_after p op ctx w =
     (case chains p op of
        None \<Rightarrow> (Ok (continue_unchanged, ctx), w)
      | Some hooks \<Rightarrow> after_loop op (rev hooks) ctx w)"

section \<open>Hooks written in JavaScript\<close>

text \<open>A JavaScript value as far as the verdict parser looks at it.  An object answers whether it has a
  key and what the key holds; both may throw.\<close>

datatype js_value =
    JNull | JUndefined
  | JString "string + string"
  | JObject "(string \<Rightarrow> string + bool) \<times> (string \<Rightarrow> string + js_value)"
  | JOther

definition js_reason :: "string \<Rightarrow> js_value \<Rightarrow> string + string" where
  "js_reason key v =
     (case v of
        JString (Inr s) \<Rightarrow> Ok s
      | JString (Inl e) \<Rightarrow> Err (''failed to read '' @ key @ '' value: '' @ e)
      | _ \<Rightarrow> Err (key @ '' value must be a string''))"

definition js_has :: "(string \<Rightarrow> string + bool) \<Rightarrow> string \<Rightarrow> string + bool" where
  "js_has has key =
     (case has key of Inl e \<Rightarrow> Err (''failed to check '' @ key @ '' key: '' @ e) | Inr b \<Rightarrow> Ok b)"

definition js_get :: "(string \<Rightarrow> string + js_value) \<Rightarrow> string \<Rightarrow> string + js_value" where
  "js_get get key =
     (case get key of Inl e \<Rightarrow> Err (''failed to read '' @ key @ '' value: '' @ e) | Inr v \<Rightarrow> Ok v)"

definition parse_verdict :: "js_value \<Rightarrow> string + verdict" where
  "parse_verdict value =
     (case value of
        JObject (has, get) \<Rightarrow>
          (case js_has has ''continue'' of Inl e \<Rightarrow> Err e | Inr has_continue \<Rightarrow>
          (case js_has has ''deny'' of Inl e \<Rightarrow> Err e | Inr has_deny \<Rightarrow>
          (case js_has has ''kill'' of Inl e \<Rightarrow> Err e | Inr has_kill \<Rightarrow>
           if has_kill then
             (case js_get get ''kill'' of Inl e \<Rightarrow> Err e | Inr v \<Rightarrow>
                (case js_reason ''kill'' v of Inl e \<Rightarrow> Err e | Inr reason \<Rightarrow> Ok (Kill reason)))
           else if has_deny then
             (case js_get get ''deny'' of Inl e \<Rightarrow> Err e | Inr v \<Rightarrow>
                (case js_reason ''deny'' v of Inl e \<Rightarrow> Err e | Inr reason \<Rightarrow> Ok (Deny reason)))
           else if has_continue then
             (case js_get get ''continue'' of Inl e \<Rightarrow> Err e | Inr v \<Rightarrow>
                (case v of
                   JNull \<Rightarrow> Ok continue_unchanged
                 | JUndefined \<Rightarrow> Ok continue_unchanged
                 | JString (Inr s) \<Rightarrow> Ok (Continue (Some s))
                 | JString (Inl e) \<Rightarrow> Err (''failed to read continue value: '' @ e)
                 | _ \<Rightarrow> Err ''continue value must be null or a string''))
           else Err (''hook return value must have a '' @ [CHR 39] @ ''continue'' @ [CHR 39] @ '', '' @
                     [CHR 39] @ ''deny'' @ [CHR 39] @ '', or '' @ [CHR 39] @ ''kill'' @ [CHR 39] @ '' key''))))
      | _ \<Rightarrow> Err ''hook must return an object'')"

record js_hook_module =
  js_name :: string
  js_script :: string
  js_timeout_ms :: u64

text \<open>The engine (an external crate) as a parameter: each set-up step may fail with a message, the
  evaluation sees the globals and the wrapped script, and the clock says afterwards whether the
  deadline has passed.\<close>

record 'w js_engine =
  eng_setup :: "string \<Rightarrow> 'w \<Rightarrow> string option"
  eng_eval :: "(string \<times> string) list \<Rightarrow> string \<Rightarrow> 'w \<Rightarrow> (string + js_value) \<times> 'w"
  eng_past_deadline :: "u64 \<Rightarrow> 'w \<Rightarrow> bool"

definition setup_steps :: "string list" where
  "setup_steps =
     [''create JS runtime'', ''create JS context'', ''create phase string'', ''set phase global'',
      ''create operation string'', ''set operation global'', ''create context string'',
      ''set context global'']"

fun run_setup :: "(string \<Rightarrow> 'w \<Rightarrow> string option) \<Rightarrow> string list \<Rightarrow> 'w \<Rightarrow> string option" where
  "run_setup f [] w = None"
| "run_setup f (st # sts) w =
     (case f st w of Some e \<Rightarrow> Some (''failed to '' @ st @ '': '' @ e) | None \<Rightarrow> run_setup f sts w)"

definition nl :: string where
  "nl = [CHR 10]"

definition wrapped_script :: "string \<Rightarrow> string" where
  "wrapped_script script =
     ''var __module = (function() {'' @ nl @ ''    '' @ script @ nl @ ''    return { invoke: invoke };'' @ nl @
     ''})();'' @ nl @ ''__module.invoke(__hook_phase, __hook_operation, __hook_context);'' @ nl"

definition js_invoke ::
  "'w js_engine \<Rightarrow> js_hook_module \<Rightarrow> phase \<Rightarrow> operation \<Rightarrow> string \<Rightarrow> 'w \<Rightarrow> (hook_error + verdict) \<times> 'w" where
  "js_invoke eng m ph op ctx w =
     (case run_setup (eng_setup eng) setup_steps w of
        Some msg \<Rightarrow> (Err (ExecutionError (js_name m) msg), w)
      | None \<Rightarrow>
          (let globals = [(''__hook_phase'', show_phase ph), (''__hook_operation'', show_operation op),
                          (''__hook_context'', ctx)];
               (res, w') = eng_eval eng globals (wrapped_script (js_script m)) w
           in case res of
                Inr value \<Rightarrow>
                  ((case parse_verdict value of
                      Inl msg \<Rightarrow> Err (ExecutionError (js_name m) msg)
                    | Inr v \<Rightarrow> Ok v), w')
              | Inl e \<Rightarrow>
                  (if eng_past_deadline eng (js_timeout_ms m) w'
                   then (Err (Timeout (js_name m) (js_timeout_ms m)), w')
                   else (Err (ExecutionError (js_name m) e), w'))))"

definition js_hook :: "'w js_engine \<Rightarrow> js_hook_module \<Rightarrow> 'w hook" where
  "js_hook eng m = \<lparr>hk_name = js_name m, hk_invoke = js_invoke eng m\<rparr>"

section \<open>First denial wins\<close>

text \<open>Threading context and world through hooks that all continue; \<open>None\<close> as soon as one does not.\<close>

definition continues :: "hook_error + verdict \<Rightarrow> string \<Rightarrow> string option" where
  "continues r current =
     (case r of Inr (Continue None) \<Rightarrow> Some current | Inr (Continue (Some c)) \<Rightarrow> Some c | _ \<Rightarrow> None)"

fun thread_before :: "operation \<Rightarrow> 'w hook list \<Rightarrow> string \<Rightarrow> 'w \<Rightarrow> (string \<times> 'w) option" where
  "thread_before op [] c w = Some (c, w)"
| "thread_before op (h # hs) c w =
     (case hk_invoke h Before op c w of
        (r, w') \<Rightarrow> (case continues r c of None \<Rightarrow> None | Some c' \<Rightarrow> thread_before op hs c' w'))"

text \<open>The outcome a stopping verdict is turned into.\<close>

fun stopped_by :: "string \<Rightarrow> string \<Rightarrow> hook_error + verdict \<Rightarrow> attributed" where
  "stopped_by n c (Inr (Deny reason)) = Ok (Deny reason, c, Some n)"
| "stopped_by n c (Inr (Kill reason)) = Err (Killed n reason)"
| "stopped_by n c (Inl (Timeout h t)) =
     Ok (Deny (''hook timeout after '' @ show_word t @ ''ms (fail closed)''), c, Some n)"
| "stopped_by n c (Inl e) = Err e"
| "stopped_by n c (Inr (Continue m)) = Ok (continue_unchanged, c, None)"

lemma before_loop_step:
  "before_loop op (h # hs) c w =
     (case hk_invoke h Before op c w of
        (r, w') \<Rightarrow> (case continues r c of
            Some c' \<Rightarrow> before_loop op hs c' w'
          | None \<Rightarrow> (stopped_by (hk_name h) c r, w')))"
  by (auto simp: continues_def split: prod.splits sum.splits verdict.splits option.splits hook_error.splits)

definition stops_at :: "operation \<Rightarrow> 'w hook list \<Rightarrow> string \<Rightarrow> 'w \<Rightarrow> attributed \<Rightarrow> 'w \<Rightarrow> bool" where
  "stops_at op hs c w res w' \<longleftrightarrow>
     (\<exists>hs1 h hs2 c1 w1 r. hs = hs1 @ h # hs2 \<and> thread_before op hs1 c w = Some (c1, w1) \<and>
        hk_invoke h Before op c1 w1 = (r, w') \<and> continues r c1 = None \<and> res = stopped_by (hk_name h) c1 r)"

lemma stops_at_here:
  "hk_invoke h Before op c w = (r, w') \<Longrightarrow> continues r c = None \<Longrightarrow>
   stops_at op (h # hs) c w (stopped_by (hk_name h) c r) w'"
  unfolding stops_at_def by (intro exI[of _ "[]"]) auto

lemma stops_at_later:
  assumes "hk_invoke h Before op c w = (r, w1)" "continues r c = Some c1" "stops_at op hs c1 w1 res w'"
  shows "stops_at op (h # hs) c w res w'"
proof -
  from assms(3) obtain hs1 k hs2 c2 w2 r2 where
    "hs = hs1 @ k # hs2" "thread_before op hs1 c1 w1 = Some (c2, w2)"
    "hk_invoke k Before op c2 w2 = (r2, w')" "continues r2 c2 = None" "res = stopped_by (hk_name k) c2 r2"
    unfolding stops_at_def by blast
  then show ?thesis
    unfolding stops_at_def using assms(1,2)
    by (intro exI[of _ "h # hs1"] exI[of _ k] exI[of _ hs2] exI[of _ c2] exI[of _ w2] exI[of _ r2]) simp
qed

lemma before_loop_cases:
  "(\<exists>c' w'. thread_before op hs c w = Some (c', w') \<and> before_loop op hs c w = (Ok (continue_unchanged, c', None), w')) \<or>
   (\<exists>res w'. before_loop op hs c w = (res, w') \<and> thread_before op hs c w = None \<and> stops_at op hs c w res w')"
proof (induction hs arbitrary: c w)
  case (Cons h hs)
  obtain r w1 where r: "hk_invoke h Before op c w = (r, w1)" by (cases "hk_invoke h Before op c w")
  show ?case
  proof (cases "continues r c")
    case None
    then show ?thesis using r stops_at_here[OF r] by (simp add: before_loop_step del: before_loop.simps)
  next
    case (Some c1)
    then show ?thesis
      using Cons.IH[of c1 w1] r stops_at_later[OF r Some] by (auto simp: before_loop_step simp del: before_loop.simps)
  qed
qed simp

text \<open>C22: Before-hooks run in order and the first that does not continue decides.  Either every hook
  continues, each seeing its predecessor's context, and the pipeline continues with the last context;
  or some first hook denies, kills, times out or fails: then a denial or a timeout is a denial
  attributed to that hook, a kill or any other failure is the error, and no later hook has run.\<close>

theorem run_before_first_stop_wins:
  assumes "chains p op = Some hs"
  shows "(\<exists>c' w'. thread_before op hs ctx w = Some (c', w') \<and>
            run_before_attributed p op ctx w = (Ok (continue_unchanged, c', None), w')) \<or>
         (\<exists>res w'. run_before_attributed p op ctx w = (res, w') \<and> stops_at op hs ctx w res w')"
  using before_loop_cases[of op hs ctx w] assms unfolding run_before_attributed_def by auto

definition const_hook :: "string \<Rightarrow> (hook_error + verdict) \<Rightarrow> string list hook" where
  "const_hook n r = \<lparr>hk_name = n, hk_invoke = (\<lambda>_ _ _ w. (r, w @ [n]))\<rparr>"

definition sample_pipeline :: "string list pipeline" where
  "sample_pipeline =
     pipeline_add (pipeline_add (pipeline_add pipeline_new OpToolCall (const_hook ''a'' (Ok (Continue (Some ''x'')))))
       OpToolCall (const_hook ''b'' (Err (Timeout ''b'' 50)))) OpToolCall (const_hook ''c'' (Ok (Continue None)))"

theorem run_before_first_stop_wins_witness:
  "\<exists>res w'. run_before_attributed sample_pipeline OpToolCall ''ctx'' [] = (res, w') \<and>
     stops_at OpToolCall (the (chains sample_pipeline OpToolCall)) ''ctx'' [] res w' \<and> w' = [''a'', ''b'']"
proof -
  have c: "chains sample_pipeline OpToolCall = Some (the (chains sample_pipeline OpToolCall))"
    by (simp add: sample_pipeline_def pipeline_add_def)
  have t: "thread_before OpToolCall (the (chains sample_pipeline OpToolCall)) ''ctx'' [] = None"
    by (simp add: sample_pipeline_def pipeline_add_def pipeline_new_def const_hook_def continues_def)
  have w: "snd (run_before_attributed sample_pipeline OpToolCall ''ctx'' []) = [''a'', ''b'']"
    by (simp add: sample_pipeline_def pipeline_add_def pipeline_new_def const_hook_def run_before_attributed_def)
  show ?thesis
    using run_before_first_stop_wins[OF c, of "''ctx''" "[]"] t w by auto
qed

section \<open>Script hooks fail closed\<close>

lemma js_reason_cases: "(case js_reason k v of Inl e \<Rightarrow> Err e | Inr r \<Rightarrow> Ok (F r)) = Ok (Continue m) \<Longrightarrow> \<exists>r. F r = Continue m"
  by (auto split: sum.splits)

lemma parse_verdict_continue:
  assumes "parse_verdict v = Ok (Continue m)"
  obtains has get where "v = JObject (has, get)" "has ''kill'' = Ok False" "has ''deny'' = Ok False" "has ''continue'' = Ok True"
proof -
  obtain has get where v: "v = JObject (has, get)"
    using assms by (cases v) (auto simp: parse_verdict_def)
  obtain hc where hc: "has ''continue'' = Ok hc"
    using assms by (cases "has ''continue''") (simp_all add: v parse_verdict_def js_has_def)
  obtain hd where hd: "has ''deny'' = Ok hd"
    using assms by (cases "has ''deny''") (simp_all add: v parse_verdict_def js_has_def hc)
  obtain hk where hk: "has ''kill'' = Ok hk"
    using assms by (cases "has ''kill''") (simp_all add: v parse_verdict_def js_has_def hc hd)
  note e = assms[unfolded v parse_verdict_def js_has_def js_value.case prod.case hc hd hk sum.case]
  have "\<not> hk"
  proof
    assume hk
    then show False using e js_reason_cases[where F = Kill] by (simp split: sum.splits)
  qed
  moreover have "\<not> hd"
  proof
    assume hd
    then show False using e \<open>\<not> hk\<close> js_reason_cases[where F = Deny] by (simp split: sum.splits)
  qed
  moreover have hc
  proof (rule ccontr)
    assume "\<not> hc"
    then show False using e \<open>\<not> hk\<close> \<open>\<not> hd\<close> by simp
  qed
  ultimately show thesis using that v hc hd hk by simp
qed

lemma js_invoke_continue:
  assumes "js_invoke eng m ph op c w = (r, w')" "continues r c = Some c'"
  obtains has get where
    "eng_eval eng [(''__hook_phase'', show_phase ph), (''__hook_operation'', show_operation op), (''__hook_context'', c)]
       (wrapped_script (js_script m)) w = (Ok (JObject (has, get)), w')"
    "has ''kill'' = Ok False" "has ''deny'' = Ok False" "has ''continue'' = Ok True"
proof -
  let ?g = "[(''__hook_phase'', show_phase ph), (''__hook_operation'', show_operation op), (''__hook_context'', c)]"
  obtain mo where r: "r = Ok (Continue mo)"
    using assms(2) by (auto simp: continues_def split: sum.splits verdict.splits)
  obtain v where v: "eng_eval eng ?g (wrapped_script (js_script m)) w = (Ok v, w')" "parse_verdict v = Ok (Continue mo)"
    using assms(1) unfolding r js_invoke_def
    by (auto simp: Let_def split: option.splits prod.splits sum.splits if_splits)
  from v(2) obtain has get where h: "v = JObject (has, get)" "has ''kill'' = Ok False" "has ''deny'' = Ok False" "has ''continue'' = Ok True"
    by (rule parse_verdict_continue)
  show thesis by (rule that[OF v(1)[unfolded h(1)] h(2,3,4)])
qed

lemma thread_before_append:
  "thread_before op (hs1 @ hs2) c w =
     (case thread_before op hs1 c w of None \<Rightarrow> None | Some (c', w') \<Rightarrow> thread_before op hs2 c' w')"
  by (induction hs1 arbitrary: c w) (auto split: prod.splits option.splits)

lemma stops_at_not_through:
  assumes "stops_at op hs c w res w'"
  shows "\<forall>v c'. res \<noteq> Ok (v, c', None)"
proof -
  from assms obtain n c1 r where "res = stopped_by n c1 r" "continues r c1 = None"
    unfolding stops_at_def by blast
  then show ?thesis
    by (cases "(n, c1, r)" rule: stopped_by.cases) (auto simp: continues_def split: option.splits)
qed


definition sample_engine :: "unit js_engine" where
  "sample_engine = \<lparr>eng_setup = (\<lambda>_ _. None),
     eng_eval = (\<lambda>_ _ w. (Ok (JObject (\<lambda>k. Ok (k = ''continue''), \<lambda>_. Ok JNull)), w)),
     eng_past_deadline = (\<lambda>_ _. False)\<rparr>"

definition sample_module :: js_hook_module where
  "sample_module = \<lparr>js_name = ''j'', js_script = ''s'', js_timeout_ms = 5\<rparr>"


text \<open>The after-phase: a denial or a timeout is not enforced, so a completed phase always continues.\<close>

lemma run_after_never_denies: "run_after p op ctx w = (Ok (v, c), w') \<Longrightarrow> v = continue_unchanged"
proof -
  have "after_loop op hs c0 w0 = (Ok (v, c), w') \<Longrightarrow> v = continue_unchanged" for hs c0 w0
    by (induction hs arbitrary: c0 w0)
      (auto split: prod.splits sum.splits verdict.splits option.splits hook_error.splits)
  then show "run_after p op ctx w = (Ok (v, c), w') \<Longrightarrow> v = continue_unchanged"
    by (auto simp: run_after_def split: option.splits)
qed

end
