(* ===== verification/Journal.thy ===== *)
theory Journal
  imports Budget
begin

text \<open>
  The journal: entry types (\<^verbatim>\<open>simulacra-types/src/journal.rs\<close>, \<^verbatim>\<open>message.rs\<close>), the in-memory storage and
  the counting wrapper (\<^verbatim>\<open>simulacra-runtime/src/journal.rs\<close>).  JSON values of the external serialiser
  are the type parameter \<open>'v\<close>.  A poisoned lock (a panic while the vector is being pushed to) is not
  modelled.
\<close>

section \<open>Messages and entries\<close>

datatype role = System | User | Assistant | Tool

record 'v tool_call_message =
  tc_id :: string
  tc_name :: string
  tc_arguments :: 'v

record 'v provider_content_block =
  pc_provider :: string
  pc_value :: 'v

record 'v message =
  msg_role :: role
  msg_content :: string
  msg_tool_calls :: "'v tool_call_message list"
  msg_tool_call_id :: "string option"
  msg_provider_content :: "'v provider_content_block list"

record token_usage =
  input_tokens :: u64
  output_tokens :: u64
  cache_read_input_tokens :: u64
  cache_write_input_tokens :: u64

definition usage_zero :: token_usage where
  "usage_zero = \<lparr>input_tokens = 0, output_tokens = 0, cache_read_input_tokens = 0, cache_write_input_tokens = 0\<rparr>"

definition usage_total :: "token_usage \<Rightarrow> u64" where
  "usage_total u = sat_add (input_tokens u) (output_tokens u)"

type_synonym agent_id = string

datatype 'v journal_entry_kind =
    TurnStart
  | LlmRequest string nat
  | LlmResponse string token_usage string "'v message option"
  | ToolCall "string option" string 'v
  | ToolResult "string option" string string bool "'v provider_content_block list"
  | ShellCommand string "32 word"
  | CodeExecution string
  | SubAgentSpawned agent_id string string string "string option" "string option"
  | SubAgentCompleted agent_id bool
  | FileWrite string u64
  | FileDelete string
  | FileMove string string
  | HttpRequest string string "16 word"
  | Checkpoint bytes
  | HookDenial string string string
  | HookKill string string string

record 'v journal_entry =
  je_schema_version :: u32
  je_agent_id :: agent_id
  je_timestamp_ms :: u64
  je_entry :: "'v journal_entry_kind"

definition JOURNAL_SCHEMA_VERSION :: u32 where
  "JOURNAL_SCHEMA_VERSION = 3"

record ('v, 'd) checkpoint_data =
  cp_messages :: "'v message list"
  cp_budget_snapshot :: "'d resource_budget"
  cp_vfs_snapshot :: "bytes option"

datatype journal_error =
    SchemaVersionMismatch u32 u32
  | Storage string
  | EntryNotFound string
  | InvalidCheckpointIndex nat

text \<open>The storage trait as a record of operations; the checkpoint serialiser is part of an instance.\<close>

record ('s, 'v, 'd) journal_storage =
  js_append :: "'s \<Rightarrow> 'v journal_entry \<Rightarrow> (journal_error + unit) \<times> 's"
  js_read_all :: "'s \<Rightarrow> agent_id \<Rightarrow> journal_error + 'v journal_entry list"
  js_query_token_usage :: "'s \<Rightarrow> agent_id \<Rightarrow> journal_error + token_usage"
  js_save_checkpoint :: "'s \<Rightarrow> agent_id \<Rightarrow> nat \<Rightarrow> ('v, 'd) checkpoint_data \<Rightarrow> (journal_error + unit) \<times> 's"
  js_fork_from :: "'s \<Rightarrow> agent_id \<Rightarrow> nat \<Rightarrow> journal_error + 'v journal_entry list"
  js_read_from :: "'s \<Rightarrow> agent_id \<Rightarrow> nat \<Rightarrow> journal_error + 'v journal_entry list"

section \<open>In-memory storage\<close>

definition validate_schema_version :: "'v journal_entry \<Rightarrow> journal_error + unit" where
  "validate_schema_version e =
     (if je_schema_version e \<noteq> JOURNAL_SCHEMA_VERSION
      then Err (SchemaVersionMismatch JOURNAL_SCHEMA_VERSION (je_schema_version e)) else Ok ())"

definition mem_append :: "'v journal_entry list \<Rightarrow> 'v journal_entry \<Rightarrow> (journal_error + unit) \<times> 'v journal_entry list" where
  "mem_append entries e =
     (case validate_schema_version e of Inl err \<Rightarrow> (Err err, entries) | Inr _ \<Rightarrow> (Ok (), entries @ [e]))"

definition of_agent :: "agent_id \<Rightarrow> 'v journal_entry list \<Rightarrow> 'v journal_entry list" where
  "of_agent a entries = filter (\<lambda>e. je_agent_id e = a) entries"

text \<open>The loop of \<open>read_all\<close>, and the collected iterator of \<open>fork_from\<close> and \<open>read_from\<close>: both stop at the
  first entry of another schema version.\<close>

fun collect_valid :: "'v journal_entry list \<Rightarrow> journal_error + 'v journal_entry list" where
  "collect_valid [] = Ok []"
| "collect_valid (e # es) =
     (case validate_schema_version e of
        Inl err \<Rightarrow> Err err
      | Inr _ \<Rightarrow> (case collect_valid es of Inl err \<Rightarrow> Err err | Inr rest \<Rightarrow> Ok (e # rest)))"

definition mem_read_all :: "'v journal_entry list \<Rightarrow> agent_id \<Rightarrow> journal_error + 'v journal_entry list" where
  "mem_read_all entries a = collect_valid (of_agent a entries)"

definition add_usage :: "token_usage \<Rightarrow> token_usage \<Rightarrow> token_usage" where
  "add_usage t u =
     \<lparr>input_tokens = sat_add (input_tokens t) (input_tokens u),
      output_tokens = sat_add (output_tokens t) (output_tokens u),
      cache_read_input_tokens = sat_add (cache_read_input_tokens t) (cache_read_input_tokens u),
      cache_write_input_tokens = sat_add (cache_write_input_tokens t) (cache_write_input_tokens u)\<rparr>"

fun usage_loop :: "token_usage \<Rightarrow> 'v journal_entry list \<Rightarrow> journal_error + token_usage" where
  "usage_loop tot [] = Ok tot"
| "usage_loop tot (e # es) =
     (case validate_schema_version e of
        Inl err \<Rightarrow> Err err
      | Inr _ \<Rightarrow>
          (case je_entry e of
             LlmResponse _ u _ _ \<Rightarrow> usage_loop (add_usage tot u) es
           | _ \<Rightarrow> usage_loop tot es))"

definition mem_query_token_usage :: "'v journal_entry list \<Rightarrow> agent_id \<Rightarrow> journal_error + token_usage" where
  "mem_query_token_usage entries a = usage_loop usage_zero (of_agent a entries)"

fun validate_all :: "'v journal_entry list \<Rightarrow> journal_error + unit" where
  "validate_all [] = Ok ()"
| "validate_all (e # es) =
     (case validate_schema_version e of Inl err \<Rightarrow> Err err | Inr _ \<Rightarrow> validate_all es)"

definition mem_save_checkpoint ::
  "(('v, 'd) checkpoint_data \<Rightarrow> string + bytes) \<Rightarrow> 'v journal_entry list \<Rightarrow> agent_id \<Rightarrow> nat \<Rightarrow>
   ('v, 'd) checkpoint_data \<Rightarrow> (journal_error + unit) \<times> 'v journal_entry list" where
  "mem_save_checkpoint to_vec entries a after_entry data =
     (case to_vec data of
        Inl e \<Rightarrow> (Err (Storage e), entries)
      | Inr serialized \<Rightarrow>
          (let entry = \<lparr>je_schema_version = JOURNAL_SCHEMA_VERSION, je_agent_id = a, je_timestamp_ms = 0,
                        je_entry = Checkpoint serialized\<rparr>
           in case validate_all (of_agent a entries) of
                Inl err \<Rightarrow> (Err err, entries)
              | Inr _ \<Rightarrow>
                  if after_entry > length (of_agent a entries)
                  then (Err (InvalidCheckpointIndex after_entry), entries)
                  else (Ok (), entries @ [entry])))"

fun is_checkpoint :: "'v journal_entry_kind \<Rightarrow> bool" where
  "is_checkpoint (Checkpoint _) = True"
| "is_checkpoint _ = False"

definition mem_fork_from :: "'v journal_entry list \<Rightarrow> agent_id \<Rightarrow> nat \<Rightarrow> journal_error + 'v journal_entry list" where
  "mem_fork_from entries a idx =
     (case collect_valid (of_agent a entries) of
        Inl err \<Rightarrow> Err err
      | Inr agent_entries \<Rightarrow>
          if idx \<ge> length agent_entries then Err (InvalidCheckpointIndex idx)
          else if \<not> is_checkpoint (je_entry (agent_entries ! idx))
          then Err (EntryNotFound (''entry at index '' @ show_nat idx @ '' is not a checkpoint''))
          else Ok (take (idx + 1) agent_entries))"

definition mem_read_from :: "'v journal_entry list \<Rightarrow> agent_id \<Rightarrow> nat \<Rightarrow> journal_error + 'v journal_entry list" where
  "mem_read_from entries a start_index =
     (case collect_valid (of_agent a entries) of
        Inl err \<Rightarrow> Err err
      | Inr agent_entries \<Rightarrow>
          if start_index > length agent_entries then Err (InvalidCheckpointIndex start_index)
          else Ok (drop start_index agent_entries))"

definition in_memory_journal ::
  "(('v, 'd) checkpoint_data \<Rightarrow> string + bytes) \<Rightarrow> ('v journal_entry list, 'v, 'd) journal_storage" where
  "in_memory_journal to_vec =
     \<lparr>js_append = mem_append, js_read_all = mem_read_all, js_query_token_usage = mem_query_token_usage,
      js_save_checkpoint = mem_save_checkpoint to_vec, js_fork_from = mem_fork_from, js_read_from = mem_read_from\<rparr>"

section \<open>The counting wrapper\<close>

definition count_append ::
  "('s, 'v, 'd) journal_storage \<Rightarrow> 's \<times> u64 \<Rightarrow> 'v journal_entry \<Rightarrow> (journal_error + unit) \<times> 's \<times> u64" where
  "count_append J s e =
     (case js_append J (fst s) e of
        (Inl err, inner) \<Rightarrow> (Err err, (inner, snd s))
      | (Inr _, inner) \<Rightarrow> (Ok (), (inner, snd s + 1)))"

definition count_save_checkpoint ::
  "('s, 'v, 'd) journal_storage \<Rightarrow> 's \<times> u64 \<Rightarrow> agent_id \<Rightarrow> nat \<Rightarrow> ('v, 'd) checkpoint_data \<Rightarrow>
   (journal_error + unit) \<times> 's \<times> u64" where
  "count_save_checkpoint J s a n data =
     (case js_save_checkpoint J (fst s) a n data of
        (Inl err, inner) \<Rightarrow> (Err err, (inner, snd s))
      | (Inr _, inner) \<Rightarrow> (Ok (), (inner, snd s + 1)))"

definition counting_journal :: "('s, 'v, 'd) journal_storage \<Rightarrow> ('s \<times> u64, 'v, 'd) journal_storage" where
  "counting_journal J =
     \<lparr>js_append = count_append J, js_read_all = (\<lambda>s. js_read_all J (fst s)),
      js_query_token_usage = (\<lambda>s. js_query_token_usage J (fst s)),
      js_save_checkpoint = count_save_checkpoint J, js_fork_from = (\<lambda>s. js_fork_from J (fst s)),
      js_read_from = (\<lambda>s. js_read_from J (fst s))\<rparr>"

section \<open>The contract\<close>

locale journal_log =
  fixes J :: "('s, 'v, 'd) journal_storage" and inv :: "'s \<Rightarrow> bool"
    and log :: "'s \<Rightarrow> agent_id \<Rightarrow> 'v journal_entry list"
  assumes read: "inv s \<Longrightarrow> js_read_all J s a = Ok (log s a)"
    and append_iff: "inv s \<Longrightarrow> is_ok (fst (js_append J s e)) \<longleftrightarrow> je_schema_version e = JOURNAL_SCHEMA_VERSION"
    and append_inv: "inv s \<Longrightarrow> inv (snd (js_append J s e))"
    and append_ok: "inv s \<Longrightarrow> js_append J s e = (Ok u, s') \<Longrightarrow>
      log s' a = log s a @ (if je_agent_id e = a then [e] else [])"
    and append_err: "inv s \<Longrightarrow> js_append J s e = (Err x, s') \<Longrightarrow> s' = s"
    and checkpoint_inv: "inv s \<Longrightarrow> inv (snd (js_save_checkpoint J s b n c))"
    and checkpoint_ok: "inv s \<Longrightarrow> js_save_checkpoint J s b n c = (Ok u, s') \<Longrightarrow>
      \<exists>e. is_checkpoint (je_entry e) \<and> (\<forall>a. log s' a = log s a @ (if a = b then [e] else []))"
    and checkpoint_err: "inv s \<Longrightarrow> js_save_checkpoint J s b n c = (Err x, s') \<Longrightarrow> s' = s"
    and fork_iff: "inv s \<Longrightarrow> js_fork_from J s a i = Ok es \<longleftrightarrow>
      i < length (log s a) \<and> is_checkpoint (je_entry (log s a ! i)) \<and> es = take (i + 1) (log s a)"
    and read_from_iff: "inv s \<Longrightarrow> js_read_from J s a i = Ok es \<longleftrightarrow> i \<le> length (log s a) \<and> es = drop i (log s a)"
begin

lemma fork_then_rest:
  assumes "inv s" "js_fork_from J s a i = Ok es"
  obtains rest where "js_read_from J s a (i + 1) = Ok rest" "js_read_all J s a = Ok (es @ rest)"
proof -
  have "i < length (log s a)" "es = take (i + 1) (log s a)" using assms by (simp_all add: fork_iff)
  then have "js_read_from J s a (i + 1) = Ok (drop (i + 1) (log s a))" "js_read_all J s a = Ok (es @ drop (i + 1) (log s a))"
    using assms(1) by (simp_all add: read_from_iff read)
  then show thesis by (rule that)
qed

lemma checkpoint_forks:
  assumes "inv s" "js_save_checkpoint J s a n c = (Ok u, s')"
  shows "js_fork_from J s' a (length (log s a)) = js_read_all J s' a"
proof -
  have inv': "inv s'" using checkpoint_inv[OF assms(1), of a n c] assms(2) by simp
  obtain e where "is_checkpoint (je_entry e)" "log s' a = log s a @ [e]"
    using checkpoint_ok[OF assms] by auto
  then have "js_fork_from J s' a (length (log s a)) = Ok (log s' a)"
    using fork_iff[OF inv', of a "length (log s a)" "log s' a"] by simp
  then show ?thesis by (simp add: read[OF inv'])
qed

end

locale counted_log = journal_log

sublocale counted_log \<subseteq> counted: journal_log "counting_journal J" "\<lambda>s. inv (fst s)" "\<lambda>s. log (fst s)"
proof (unfold_locales, goal_cases)
  case (2 s e) then show ?case
    using append_iff[OF 2, of e] by (auto simp: counting_journal_def count_append_def split: prod.splits sum.splits)
next
  case (3 s e) then show ?case
    using append_inv[OF 3, of e] by (auto simp: counting_journal_def count_append_def split: prod.splits sum.splits)
next
  case (5 s e x s') then show ?case
    using append_err[OF 5(1), of e] by (auto simp: counting_journal_def count_append_def split: prod.splits sum.splits)
next
  case (6 s b n c) then show ?case
    using checkpoint_inv[OF 6, of b n c] by (auto simp: counting_journal_def count_save_checkpoint_def split: prod.splits sum.splits)
next
  case (8 s b n c x s') then show ?case
    using checkpoint_err[OF 8(1), of b n c] by (auto simp: counting_journal_def count_save_checkpoint_def split: prod.splits sum.splits)
qed (auto simp: counting_journal_def count_append_def count_save_checkpoint_def read fork_iff read_from_iff append_ok
    dest: checkpoint_ok split: prod.splits sum.splits)

section \<open>The in-memory journal meets the contract\<close>

definition valid_entries :: "'v journal_entry list \<Rightarrow> bool" where
  "valid_entries es \<longleftrightarrow> (\<forall>e \<in> set es. je_schema_version e = JOURNAL_SCHEMA_VERSION)"

lemma validate_ok: "validate_schema_version e = Ok () \<longleftrightarrow> je_schema_version e = JOURNAL_SCHEMA_VERSION"
  by (simp add: validate_schema_version_def)

lemma collect_valid_all: "valid_entries es \<Longrightarrow> collect_valid es = Ok es"
  by (induction es) (auto simp: valid_entries_def validate_schema_version_def)

lemma validate_all_valid: "valid_entries es \<Longrightarrow> validate_all es = Ok ()"
  by (induction es) (auto simp: valid_entries_def validate_schema_version_def)

lemma valid_of_agent: "valid_entries es \<Longrightarrow> valid_entries (of_agent a es)"
  by (simp add: valid_entries_def of_agent_def)

lemma collect_of_agent: "valid_entries es \<Longrightarrow> collect_valid (of_agent a es) = Ok (of_agent a es)"
  by (simp add: collect_valid_all valid_of_agent)

lemma of_agent_append: "of_agent a (es @ fs) = of_agent a es @ of_agent a fs"
  by (simp add: of_agent_def)

lemma mem_append_cases:
  "mem_append s e = (if je_schema_version e = JOURNAL_SCHEMA_VERSION then (Ok (), s @ [e])
     else (Err (SchemaVersionMismatch JOURNAL_SCHEMA_VERSION (je_schema_version e)), s))"
  by (simp add: mem_append_def validate_schema_version_def)

lemma mem_save_checkpoint_ok:
  assumes "valid_entries s" "mem_save_checkpoint f s a n c = (Ok u, s')"
  obtains e where "s' = s @ [e]" "is_checkpoint (je_entry e)" "je_agent_id e = a" "je_schema_version e = JOURNAL_SCHEMA_VERSION"
  using assms
  by (auto simp: mem_save_checkpoint_def Let_def validate_all_valid valid_of_agent split: sum.splits if_splits)

lemma mem_save_checkpoint_err: "mem_save_checkpoint f s a n c = (Err x, s') \<Longrightarrow> s' = s"
  by (auto simp: mem_save_checkpoint_def Let_def split: sum.splits if_splits)

lemma mem_save_checkpoint_valid:
  "valid_entries s \<Longrightarrow> valid_entries (snd (mem_save_checkpoint f s a n c))"
  by (auto simp: mem_save_checkpoint_def Let_def valid_entries_def split: sum.splits)

interpretation mem_log: journal_log "in_memory_journal f" valid_entries "\<lambda>s a. of_agent a s" for f
proof (unfold_locales, goal_cases)
  case (1 s a) then show ?case by (simp add: in_memory_journal_def mem_read_all_def collect_of_agent)
next
  case (2 s e) then show ?case by (simp add: in_memory_journal_def mem_append_cases)
next
  case (3 s e) then show ?case by (simp add: in_memory_journal_def mem_append_cases valid_entries_def)
next
  case (4 s e u s' a) then show ?case
    by (auto simp: in_memory_journal_def mem_append_cases of_agent_def split: if_splits)
next
  case (5 s e x s') then show ?case by (auto simp: in_memory_journal_def mem_append_cases split: if_splits)
next
  case (6 s b n c) then show ?case by (simp add: in_memory_journal_def mem_save_checkpoint_valid)
next
  case (7 s b n c u s') then show ?case
    by (auto simp: in_memory_journal_def of_agent_append elim!: mem_save_checkpoint_ok) (auto simp: of_agent_def)
next
  case (8 s b n c x s') then show ?case by (auto simp: in_memory_journal_def dest: mem_save_checkpoint_err)
next
  case (9 s a i es) then show ?case
    by (auto simp: in_memory_journal_def mem_fork_from_def collect_of_agent)
next
  case (10 s a i es) then show ?case
    by (auto simp: in_memory_journal_def mem_read_from_def collect_of_agent)
qed

interpretation counted_mem_log: counted_log "in_memory_journal f" valid_entries "\<lambda>s a. of_agent a s" for f
  by unfold_locales

section \<open>Runs\<close>

datatype ('v, 'd) journal_op =
    JAppend "'v journal_entry"
  | JCheckpoint agent_id nat "('v, 'd) checkpoint_data"

fun journal_step :: "('s, 'v, 'd) journal_storage \<Rightarrow> 's \<Rightarrow> ('v, 'd) journal_op \<Rightarrow> 's" where
  "journal_step J s (JAppend e) = snd (js_append J s e)"
| "journal_step J s (JCheckpoint a n c) = snd (js_save_checkpoint J s a n c)"

fun journal_run :: "('s, 'v, 'd) journal_storage \<Rightarrow> ('v, 'd) journal_op list \<Rightarrow> 's \<Rightarrow> 's" where
  "journal_run J [] s = s"
| "journal_run J (op # ops) s = journal_run J ops (journal_step J s op)"

lemma counted_step:
  assumes "valid_entries s"
  obtains new where "journal_step (counting_journal (in_memory_journal f)) (s, c) op = (s @ new, c + of_nat (length new))"
    "valid_entries (s @ new)" "length new \<le> 1"
proof (cases op)
  case (JAppend e)
  show thesis
  proof (cases "je_schema_version e = JOURNAL_SCHEMA_VERSION")
    case True
    then show thesis using that[of "[e]"] assms JAppend
      by (simp add: counting_journal_def count_append_def in_memory_journal_def mem_append_cases valid_entries_def)
  next
    case False
    then show thesis using that[of "[]"] assms JAppend
      by (simp add: counting_journal_def count_append_def in_memory_journal_def mem_append_cases)
  qed
next
  case (JCheckpoint a n d)
  obtain r s' where r: "mem_save_checkpoint f s a n d = (r, s')" by (cases "mem_save_checkpoint f s a n d")
  show thesis
  proof (cases r)
    case (Inl x)
    then show thesis using that[of "[]"] assms JCheckpoint r mem_save_checkpoint_err[of f s a n d x s']
      by (simp add: counting_journal_def count_save_checkpoint_def in_memory_journal_def)
  next
    case (Inr u)
    obtain e where e: "s' = s @ [e]" using mem_save_checkpoint_ok[OF assms r[unfolded Inr]] by blast
    have "valid_entries s'" using mem_save_checkpoint_valid[OF assms, of f a n d] r by simp
    then show thesis using that[of "[e]"] JCheckpoint r Inr e
      by (simp add: counting_journal_def count_save_checkpoint_def in_memory_journal_def)
  qed
qed

lemma counted_run:
  "valid_entries s \<Longrightarrow>
   \<exists>new. journal_run (counting_journal (in_memory_journal f)) ops (s, c) = (s @ new, c + of_nat (length new)) \<and>
     valid_entries (s @ new) \<and> length new \<le> length ops"
proof (induction ops arbitrary: s c)
  case Nil then show ?case by (intro exI[of _ "[]"]) simp
next
  case (Cons op ops)
  obtain new1 where n1: "journal_step (counting_journal (in_memory_journal f)) (s, c) op = (s @ new1, c + of_nat (length new1))"
    "valid_entries (s @ new1)" "length new1 \<le> 1"
    using counted_step[OF Cons.prems] by metis
  obtain new2 where "journal_run (counting_journal (in_memory_journal f)) ops (s @ new1, c + of_nat (length new1)) =
      ((s @ new1) @ new2, c + of_nat (length new1) + of_nat (length new2))"
      "valid_entries ((s @ new1) @ new2)" "length new2 \<le> length ops"
    using Cons.IH[OF n1(2)] by blast
  with n1 show ?case by (intro exI[of _ "new1 @ new2"]) (simp add: add.assoc)
qed

text \<open>C24: The journal is append-only and its counter is right: whatever sequence of appends (of any
  schema version) and checkpoints is attempted through the counting wrapper, the stored log only
  grows at the end, every agent's log can be read in full and is its old log followed by its new
  entries (no agent sees another's), and the counter has advanced by exactly the number of entries
  added, modulo the width of the counter.\<close>

theorem journal_append_only_counted:
  assumes "valid_entries s"
  shows "\<exists>new. journal_run (counting_journal (in_memory_journal f)) ops (s, c) = (s @ new, c + of_nat (length new)) \<and>
    (\<forall>a. js_read_all (counting_journal (in_memory_journal f)) (s @ new, c + of_nat (length new)) a =
       Ok (of_agent a s @ of_agent a new))"
proof -
  obtain new where new: "journal_run (counting_journal (in_memory_journal f)) ops (s, c) = (s @ new, c + of_nat (length new))"
    "valid_entries (s @ new)"
    using counted_run[OF assms] by blast
  then show ?thesis
    by (intro exI[of _ new]) (simp add: counted_mem_log.counted.read of_agent_append)
qed

definition sample_entry :: "agent_id \<Rightarrow> u32 \<Rightarrow> unit journal_entry" where
  "sample_entry a v = \<lparr>je_schema_version = v, je_agent_id = a, je_timestamp_ms = 7, je_entry = TurnStart\<rparr>"

definition sample_ops :: "(unit, int) journal_op list" where
  "sample_ops = [JAppend (sample_entry ''a'' 3), JAppend (sample_entry ''a'' 2), JAppend (sample_entry ''b'' 3),
     JCheckpoint ''a'' 1 \<lparr>cp_messages = [], cp_budget_snapshot = sample_budget, cp_vfs_snapshot = None\<rparr>]"

abbreviation sample_journal :: "(unit journal_entry list \<times> u64, unit, int) journal_storage" where
  "sample_journal \<equiv> counting_journal (in_memory_journal (\<lambda>_. Ok ''cp''))"

theorem journal_append_only_counted_witness:
  "\<exists>new. journal_run sample_journal sample_ops ([], 5) = (new, 8) \<and> length new = 3 \<and>
     js_read_all sample_journal (new, 8) ''b'' = Ok (of_agent ''b'' new)"
proof -
  have v: "valid_entries ([] :: unit journal_entry list)" by (simp add: valid_entries_def)
  have l: "length (fst (journal_run sample_journal sample_ops ([], 5))) = 3" by code_simp
  obtain new where n: "journal_run sample_journal sample_ops ([], 5) = (new, 5 + of_nat (length new))"
    "\<forall>a. js_read_all sample_journal (new, 5 + of_nat (length new)) a = Ok (of_agent a new)"
    using journal_append_only_counted[OF v, of "\<lambda>_. Ok ''cp''" sample_ops 5] by (auto simp: of_agent_def)
  then have "length new = 3" using l by simp
  then have "(5 :: u64) + of_nat (length new) = 8" by simp
  then show ?thesis using n \<open>length new = 3\<close> by (intro exI[of _ new]) simp
qed

text \<open>Forking at a checkpoint and reading the rest gives the whole log: for any valid journal,
  \<open>fork_from\<close> at an index succeeds exactly when that entry is a checkpoint, it returns the entries up to
  and including the checkpoint, and \<open>read_from\<close> the next index returns exactly the remainder, so
  nothing is lost or read twice.\<close>

theorem journal_fork_partitions_log:
  assumes "valid_entries s"
  shows "(is_ok (mem_fork_from s a i) \<longleftrightarrow> i < length (of_agent a s) \<and> is_checkpoint (je_entry (of_agent a s ! i))) \<and>
    (\<forall>es. mem_fork_from s a i = Ok es \<longrightarrow>
       last es = of_agent a s ! i \<and>
       (\<exists>rest. mem_read_from s a (i + 1) = Ok rest \<and> mem_read_all s a = Ok (es @ rest)))"
proof -
  let ?J = "in_memory_journal (\<lambda>_. Ok [])"
  have sel: "js_fork_from ?J = mem_fork_from" "js_read_from ?J = mem_read_from" "js_read_all ?J = mem_read_all"
    by (simp_all add: in_memory_journal_def)
  note fk = mem_log.fork_iff[OF assms, of "\<lambda>_. Ok []" a i, unfolded sel]
  have "is_ok (mem_fork_from s a i) \<longleftrightarrow> i < length (of_agent a s) \<and> is_checkpoint (je_entry (of_agent a s ! i))"
    using fk by (auto simp: is_ok_iff)
  moreover have "last es = of_agent a s ! i \<and>
      (\<exists>rest. mem_read_from s a (i + 1) = Ok rest \<and> mem_read_all s a = Ok (es @ rest))" if "mem_fork_from s a i = Ok es" for es
  proof -
    have "i < length (of_agent a s)" "es = take (i + 1) (of_agent a s)" using that fk by blast+
    then have "last es = of_agent a s ! i" by (simp add: take_Suc_conv_app_nth)
    then show ?thesis using mem_log.fork_then_rest[OF assms, of "\<lambda>_. Ok []", unfolded sel, OF that] by blast
  qed
  ultimately show ?thesis by blast
qed

theorem journal_fork_partitions_log_witness:
  "\<exists>es rest. mem_fork_from (fst (journal_run sample_journal sample_ops ([], 5))) ''a'' 1 = Ok es \<and>
     mem_read_all (fst (journal_run sample_journal sample_ops ([], 5))) ''a'' = Ok (es @ rest)"
proof -
  let ?s = "fst (journal_run sample_journal sample_ops ([], 5))"
  have v: "valid_entries ?s" by code_simp
  have ok: "is_ok (mem_fork_from ?s ''a'' 1)" by code_simp
  then obtain es where "mem_fork_from ?s ''a'' 1 = Ok es" by (auto simp: is_ok_iff)
  then show ?thesis using journal_fork_partitions_log[OF v, of "''a''" 1] by blast
qed

section \<open>Token accounting\<close>

fun entry_usage :: "'v journal_entry_kind \<Rightarrow> token_usage" where
  "entry_usage (LlmResponse _ u _ _) = u"
| "entry_usage _ = usage_zero"

definition sum_field :: "(token_usage \<Rightarrow> u64) \<Rightarrow> 'v journal_entry list \<Rightarrow> nat" where
  "sum_field f es = sum_list (map (\<lambda>e. unat (f (entry_usage (je_entry e)))) es)"

lemma sat_add_zero: "sat_add a 0 = a"
  by (simp add: sat_add_def unsigned_less)

lemma add_usage_zero: "add_usage t usage_zero = t"
  by (simp add: add_usage_def usage_zero_def sat_add_zero)

lemma usage_loop_step:
  "je_schema_version e = JOURNAL_SCHEMA_VERSION \<Longrightarrow>
   usage_loop t (e # es) = usage_loop (add_usage t (entry_usage (je_entry e))) es"
  by (cases "je_entry e") (simp_all add: validate_schema_version_def add_usage_zero)

lemma usage_loop_sum:
  assumes "valid_entries es" "usage_loop t es = Ok u"
    and f: "\<And>x y. f (add_usage x y) = sat_add (f x) (f y)"
  shows "unat (f u) = min (unat (f t) + sum_field f es) (2 ^ 64 - 1)"
  using assms(1,2)
proof (induction es arbitrary: t)
  case Nil
  have "unat (f t) < 2 ^ 64" using unsigned_less[of "f t"] by simp
  then have "unat (f t) \<le> 2 ^ 64 - 1" by linarith
  with Nil show ?case by (simp add: sum_field_def)
next
  case (Cons e es)
  then have "unat (f u) = min (unat (f (add_usage t (entry_usage (je_entry e)))) + sum_field f es) (2 ^ 64 - 1)"
    by (intro Cons.IH) (auto simp: valid_entries_def usage_loop_step simp del: usage_loop.simps)
  then show ?case by (simp add: f unat_sat_add sum_field_def min_def)
qed

lemma usage_loop_total: "valid_entries es \<Longrightarrow> \<exists>u. usage_loop t es = Ok u"
  by (induction es arbitrary: t)
    (auto simp: valid_entries_def usage_loop_step simp del: usage_loop.simps(2))

text \<open>Token accounting saturates instead of wrapping: on a valid journal the usage query always
  answers, and each of its four counters is the exact sum over the agent's recorded model responses,
  capped at the largest 64-bit value.\<close>

theorem journal_token_usage_saturates:
  assumes "valid_entries s"
  shows "\<exists>u. mem_query_token_usage s a = Ok u \<and>
    (\<forall>f \<in> {input_tokens, output_tokens, cache_read_input_tokens, cache_write_input_tokens}.
       unat (f u) = min (sum_field f (of_agent a s)) (2 ^ 64 - 1))"
proof -
  have v: "valid_entries (of_agent a s)" using assms by (rule valid_of_agent)
  obtain u where u: "usage_loop usage_zero (of_agent a s) = Ok u" using usage_loop_total[OF v] by blast
  have "unat (f u) = min (unat (f usage_zero) + sum_field f (of_agent a s)) (2 ^ 64 - 1)"
    if "\<And>x y. f (add_usage x y) = sat_add (f x) (f y)" for f
    using usage_loop_sum[OF v u that] .
  then show ?thesis
    unfolding mem_query_token_usage_def u
    by (intro exI[of _ u]) (simp add: add_usage_def usage_zero_def)
qed

definition usage_entry :: "u64 \<Rightarrow> unit journal_entry" where
  "usage_entry n = \<lparr>je_schema_version = 3, je_agent_id = ''a'', je_timestamp_ms = 0,
     je_entry = LlmResponse ''m'' (usage_zero\<lparr>input_tokens := n\<rparr>) ''EndTurn'' None\<rparr>"

theorem journal_token_usage_saturates_witness:
  "\<exists>u. mem_query_token_usage [usage_entry 10, usage_entry (- 1)] ''a'' = Ok u \<and> unat (input_tokens u) = 2 ^ 64 - 1"
proof -
  have v: "valid_entries [usage_entry 10, usage_entry (- 1)]"
    by (simp add: valid_entries_def usage_entry_def JOURNAL_SCHEMA_VERSION_def)
  have "of_agent ''a'' [usage_entry 10, usage_entry (- 1)] = [usage_entry 10, usage_entry (- 1)]"
    by (simp add: of_agent_def usage_entry_def)
  then have "2 ^ 64 - 1 \<le> sum_field input_tokens (of_agent ''a'' [usage_entry 10, usage_entry (- 1)])"
    by (simp add: sum_field_def usage_entry_def unsigned_minus_1_eq_mask mask_eq_exp_minus_1)
  then show ?thesis
    using journal_token_usage_saturates[OF v, of "''a''"] by (auto simp: min_def)
qed

end
