(* ===== verification/Replay.thy ===== *)
theory Replay
  imports Journal
begin

text \<open>
  Replaying a journal: the iterator (\<^verbatim>\<open>simulacra-runtime/src/replay.rs\<close>) and the helpers that match and
  decode recorded entries (\<^verbatim>\<open>agent_loop/replay_helpers.rs\<close>).  A finish reason is journaled in its
  \<open>Debug\<close> form and read back by an unescaper; the round trip is proved for ASCII reasons (for other
  characters \<open>Debug\<close> consults Unicode tables that are not modelled).
\<close>

section \<open>The iterator\<close>

record 'v replay_iterator =
  ri_entries :: "'v journal_entry list"
  ri_cursor :: nat
  schema_mismatch :: "(u32 \<times> u32) option"

definition replay_new :: "'v journal_entry list \<Rightarrow> 'v replay_iterator" where
  "replay_new entries =
     \<lparr>ri_entries = entries, ri_cursor = 0,
      schema_mismatch =
        map_option (\<lambda>e. (JOURNAL_SCHEMA_VERSION, je_schema_version e))
          (find (\<lambda>e. je_schema_version e \<noteq> JOURNAL_SCHEMA_VERSION) entries)\<rparr>"

definition replay_validate :: "'v replay_iterator \<Rightarrow> journal_error + unit" where
  "replay_validate it =
     (case schema_mismatch it of
        Some (expected, got) \<Rightarrow> Err (SchemaVersionMismatch expected got)
      | None \<Rightarrow> Ok ())"

definition next_recorded :: "'v replay_iterator \<Rightarrow> 'v journal_entry_kind option \<times> 'v replay_iterator" where
  "next_recorded it =
     (if schema_mismatch it = None \<and> ri_cursor it < length (ri_entries it)
      then (Some (je_entry (ri_entries it ! ri_cursor it)), it\<lparr>ri_cursor := ri_cursor it + 1\<rparr>)
      else (None, it))"

definition replay_peek :: "'v replay_iterator \<Rightarrow> 'v journal_entry_kind option" where
  "replay_peek it =
     (if schema_mismatch it = None \<and> ri_cursor it < length (ri_entries it)
      then Some (je_entry (ri_entries it ! ri_cursor it)) else None)"

definition at_frontier :: "'v replay_iterator \<Rightarrow> bool" where
  "at_frontier it \<longleftrightarrow> schema_mismatch it \<noteq> None \<or> ri_cursor it \<ge> length (ri_entries it)"

definition remaining :: "'v replay_iterator \<Rightarrow> nat" where
  "remaining it = (if schema_mismatch it \<noteq> None then 0 else length (ri_entries it) - ri_cursor it)"

definition replay_position :: "'v replay_iterator \<Rightarrow> nat" where
  "replay_position it = ri_cursor it"

definition replay_entries :: "'v replay_iterator \<Rightarrow> 'v journal_entry list" where
  "replay_entries it = (if schema_mismatch it \<noteq> None then [] else ri_entries it)"

section \<open>Matching recorded entries\<close>

fun entry_kind_name :: "'v journal_entry_kind \<Rightarrow> string" where
  "entry_kind_name TurnStart = ''TurnStart''"
| "entry_kind_name (LlmRequest _ _) = ''LlmRequest''"
| "entry_kind_name (LlmResponse _ _ _ _) = ''LlmResponse''"
| "entry_kind_name (ToolCall _ _ _) = ''ToolCall''"
| "entry_kind_name (ToolResult _ _ _ _ _) = ''ToolResult''"
| "entry_kind_name (ShellCommand _ _) = ''ShellCommand''"
| "entry_kind_name (CodeExecution _) = ''CodeExecution''"
| "entry_kind_name (SubAgentSpawned _ _ _ _ _ _) = ''SubAgentSpawned''"
| "entry_kind_name (SubAgentCompleted _ _) = ''SubAgentCompleted''"
| "entry_kind_name (FileWrite _ _) = ''FileWrite''"
| "entry_kind_name (FileDelete _) = ''FileDelete''"
| "entry_kind_name (FileMove _ _) = ''FileMove''"
| "entry_kind_name (HttpRequest _ _ _) = ''HttpRequest''"
| "entry_kind_name (Checkpoint _) = ''Checkpoint''"
| "entry_kind_name (HookDenial _ _ _) = ''HookDenial''"
| "entry_kind_name (HookKill _ _ _) = ''HookKill''"

definition replay_entries_match :: "'v journal_entry_kind \<Rightarrow> 'v journal_entry_kind \<Rightarrow> bool" where
  "replay_entries_match expected actual =
     (case expected of
        TurnStart \<Rightarrow> (case actual of TurnStart \<Rightarrow> True | _ \<Rightarrow> False)
      | LlmRequest em ec \<Rightarrow> (case actual of LlmRequest am ac \<Rightarrow> em = am \<and> ec = ac | _ \<Rightarrow> False)
      | ToolCall eid et ea \<Rightarrow>
          (case actual of
             ToolCall aid at aa \<Rightarrow>
               (case (eid, aid) of (Some e, Some a) \<Rightarrow> e = a | _ \<Rightarrow> False) \<and> et = at \<and> ea = aa
           | _ \<Rightarrow> False)
      | _ \<Rightarrow> False)"

definition describe_replay_entry :: "('v \<Rightarrow> string) \<Rightarrow> 'v journal_entry_kind \<Rightarrow> string" where
  "describe_replay_entry show_json kind =
     (case kind of
        LlmRequest model message_count \<Rightarrow>
          ''LlmRequest(model='' @ model @ '', message_count='' @ show_nat message_count @ '')''
      | ToolCall tool_call_id tool_name arguments \<Rightarrow>
          ''ToolCall(tool_call_id='' @ unwrap_or tool_call_id ''<missing>'' @ '', tool_name='' @ tool_name @
          '', arguments='' @ show_json arguments @ '')''
      | other \<Rightarrow> entry_kind_name other)"

section \<open>Unescaping\<close>

definition hex_value :: "char \<Rightarrow> nat option" where
  "hex_value c =
     (let v = of_char c :: nat in
      if 48 \<le> v \<and> v \<le> 57 then Some (v - 48)
      else if 97 \<le> v \<and> v \<le> 102 then Some (v - 87)
      else if 65 \<le> v \<and> v \<le> 70 then Some (v - 55)
      else None)"

fun hex_digits :: "nat \<Rightarrow> string \<Rightarrow> nat option" where
  "hex_digits acc [] = Some acc"
| "hex_digits acc (c # cs) = (case hex_value c of None \<Rightarrow> None | Some d \<Rightarrow> hex_digits (acc * 16 + d) cs)"

text \<open>\<open>u32::from_str_radix(_, 16)\<close>: an optional plus sign, at least one digit, no overflow.\<close>

definition from_str_radix16 :: "string \<Rightarrow> nat option" where
  "from_str_radix16 s =
     (let digits = (case s of c # cs \<Rightarrow> if c = CHR ''+'' then cs else s | [] \<Rightarrow> [])
      in if digits = [] then None
         else case hex_digits 0 digits of
           None \<Rightarrow> None
         | Some v \<Rightarrow> if v < 2 ^ 32 then Some v else None)"

text \<open>\<open>char::from_u32\<close>, giving the character's UTF-8 bytes.\<close>

definition char_from_u32 :: "nat \<Rightarrow> string option" where
  "char_from_u32 v =
     (if v > 0x10FFFF \<or> (0xD800 \<le> v \<and> v \<le> 0xDFFF) then None
      else if v < 0x80 then Some [char_of v]
      else if v < 0x800 then Some [char_of (0xC0 + v div 64), char_of (0x80 + v mod 64)]
      else if v < 0x10000
      then Some [char_of (0xE0 + v div 4096), char_of (0x80 + v div 64 mod 64), char_of (0x80 + v mod 64)]
      else Some [char_of (0xF0 + v div 262144), char_of (0x80 + v div 4096 mod 64),
                 char_of (0x80 + v div 64 mod 64), char_of (0x80 + v mod 64)])"

definition decode_unicode :: "string \<Rightarrow> (string \<times> string) option" where
  "decode_unicode after_u =
     (case strip_prefix after_u ''{'' of
        None \<Rightarrow> None
      | Some rest \<Rightarrow>
          if CHR ''}'' \<notin> set rest then None
          else
            (let hex = takeWhile (\<lambda>c. c \<noteq> CHR ''}'') rest
             in case from_str_radix16 hex of
                  None \<Rightarrow> None
                | Some v \<Rightarrow>
                    (case char_from_u32 v of
                       None \<Rightarrow> None
                     | Some ch \<Rightarrow> Some (ch, drop (length hex + 1) rest))))"

lemma decode_unicode_shorter: "decode_unicode s = Some (ch, r) \<Longrightarrow> length r < length s"
  by (auto simp: decode_unicode_def Let_def strip_prefix_Some split: option.splits if_splits)

function unescape_debug_str :: "string \<Rightarrow> string" where
  "unescape_debug_str [] = []"
| "unescape_debug_str (c # chars) =
     (if c \<noteq> CHR 0x5C then c # unescape_debug_str chars
      else case chars of
        [] \<Rightarrow> [CHR 0x5C]
      | d # lookahead \<Rightarrow>
          if d = CHR 0x5C then CHR 0x5C # unescape_debug_str lookahead
          else if d = CHR 0x22 then CHR 0x22 # unescape_debug_str lookahead
          else if d = CHR 0x27 then CHR 0x27 # unescape_debug_str lookahead
          else if d = CHR ''n'' then CHR 0x0A # unescape_debug_str lookahead
          else if d = CHR ''r'' then CHR 0x0D # unescape_debug_str lookahead
          else if d = CHR ''t'' then CHR 0x09 # unescape_debug_str lookahead
          else if d = CHR ''0'' then CHR 0x00 # unescape_debug_str lookahead
          else if d = CHR ''u''
          then (case decode_unicode lookahead of
                  Some (ch, remainder) \<Rightarrow> ch @ unescape_debug_str remainder
                | None \<Rightarrow> CHR 0x5C # CHR ''u'' # unescape_debug_str lookahead)
          else CHR 0x5C # d # unescape_debug_str lookahead)"
  by pat_completeness auto
termination
  by (relation "measure length") (auto dest: decode_unicode_shorter)

declare unescape_debug_str.simps(2) [simp del]

section \<open>Decoding recorded responses\<close>

datatype finish_reason = EndTurn | ToolUse | MaxTokens | StopSequence | Refusal | Other string

fun as_raw :: "finish_reason \<Rightarrow> string" where
  "as_raw EndTurn = ''end_turn''"
| "as_raw ToolUse = ''tool_use''"
| "as_raw MaxTokens = ''max_tokens''"
| "as_raw StopSequence = ''stop_sequence''"
| "as_raw Refusal = ''refusal''"
| "as_raw (Other raw) = raw"

text \<open>The derived \<open>Debug\<close> rendering the turn loop writes to the journal.\<close>

fun debug_finish_reason :: "finish_reason \<Rightarrow> string" where
  "debug_finish_reason EndTurn = ''EndTurn''"
| "debug_finish_reason ToolUse = ''ToolUse''"
| "debug_finish_reason MaxTokens = ''MaxTokens''"
| "debug_finish_reason StopSequence = ''StopSequence''"
| "debug_finish_reason Refusal = ''Refusal''"
| "debug_finish_reason (Other raw) = ''Other('' @ debug_str raw @ '')''"

definition parse_finish_reason :: "string \<Rightarrow> finish_reason" where
  "parse_finish_reason s =
     (if s = ''EndTurn'' then EndTurn
      else if s = ''ToolUse'' then ToolUse
      else if s = ''MaxTokens'' then MaxTokens
      else if s = ''StopSequence'' then StopSequence
      else if s = ''Refusal'' then Refusal
      else Other
        (case strip_prefix s (''Other('' @ [CHR 0x22]) of
           None \<Rightarrow> s
         | Some rest \<Rightarrow>
             (case strip_suffix rest ([CHR 0x22] @ '')'') of
                None \<Rightarrow> s
              | Some raw \<Rightarrow> unescape_debug_str raw)))"

record 'v provider_response =
  pr_message :: "'v message"
  pr_token_usage :: token_usage
  pr_finish_reason :: finish_reason
  pr_response_id :: "string option"
  pr_model :: string

definition empty_assistant :: "'v message" where
  "empty_assistant = \<lparr>msg_role = Assistant, msg_content = [], msg_tool_calls = [],
     msg_tool_call_id = None, msg_provider_content = []\<rparr>"

definition replay_llm_response ::
  "('v journal_entry_kind \<Rightarrow> string) \<Rightarrow> 'v journal_entry_kind \<Rightarrow> journal_error + 'v provider_response" where
  "replay_llm_response debug_kind kind =
     (case kind of
        LlmResponse model usage finish assistant_message \<Rightarrow>
          Ok \<lparr>pr_message = unwrap_or assistant_message empty_assistant, pr_token_usage = usage,
              pr_finish_reason = parse_finish_reason finish, pr_response_id = None, pr_model = model\<rparr>
      | _ \<Rightarrow> Err (Storage (''expected LlmResponse during replay, got '' @ debug_kind kind)))"

definition replay_tool_result ::
  "('v journal_entry_kind \<Rightarrow> string) \<Rightarrow> 'v journal_entry_kind \<Rightarrow>
   journal_error + (string \<times> bool \<times> 'v provider_content_block list)" where
  "replay_tool_result debug_kind kind =
     (case kind of
        ToolResult _ _ content is_error provider_content \<Rightarrow> Ok (content, is_error, provider_content)
      | _ \<Rightarrow> Err (Storage (''expected ToolResult during replay, got '' @ debug_kind kind)))"

section \<open>Round trip of finish reasons\<close>

lemma hex_value_lower: "d < 16 \<Longrightarrow> hex_value (lower_hex_digit d) = Some d"
  by (auto simp: hex_value_def lower_hex_digit_def Let_def)

lemma lower_hex_not_brace: "d < 16 \<Longrightarrow> lower_hex_digit d \<noteq> CHR ''}'' \<and> lower_hex_digit d \<noteq> CHR ''+''"
proof -
  assume "d < 16"
  then have "d \<in> set [0..<16]" by simp
  moreover have "\<forall>d \<in> set [0..<16]. lower_hex_digit d \<noteq> CHR ''}'' \<and> lower_hex_digit d \<noteq> CHR ''+''" by code_simp
  ultimately show ?thesis by blast
qed

lemma from_str_radix16_one: "d < 16 \<Longrightarrow> from_str_radix16 [lower_hex_digit d] = Some d"
  by (simp add: from_str_radix16_def Let_def hex_value_lower lower_hex_not_brace)

lemma from_str_radix16_two:
  "d < 16 \<Longrightarrow> e < 16 \<Longrightarrow> from_str_radix16 [lower_hex_digit d, lower_hex_digit e] = Some (d * 16 + e)"
  by (simp add: from_str_radix16_def Let_def hex_value_lower lower_hex_not_brace)

lemma decode_unicode_hex:
  assumes "v < 128" "h = (if v < 16 then [] else [lower_hex_digit (v div 16)]) @ [lower_hex_digit (v mod 16)]"
  shows "decode_unicode (''{'' @ h @ ''}'' @ rest) = Some ([char_of v], rest)"
proof -
  have d: "v div 16 < 16" "v mod 16 < 16" using assms(1) by auto
  have n: "CHR ''}'' \<noteq> lower_hex_digit (v div 16)" "CHR ''}'' \<noteq> lower_hex_digit (v mod 16)"
    using lower_hex_not_brace[OF d(1)] lower_hex_not_brace[OF d(2)] by metis+
  have "CHR ''}'' \<notin> set h" using n by (simp add: assms(2))
  then have t: "takeWhile (\<lambda>c. c \<noteq> CHR ''}'') (h @ CHR ''}'' # rest) = h" by (auto simp: takeWhile_append)
  have "from_str_radix16 h = Some v"
    using assms d by (auto simp: from_str_radix16_one from_str_radix16_two)
  then show ?thesis
    using assms(1) t by (simp add: decode_unicode_def str_simps strip_prefix_def Let_def char_from_u32_def)
qed

lemma char_of_char: "(char_of (of_char c :: nat) :: char) = c"
  by simp

lemma unescape_debug_char: "unescape_debug_str (debug_char c @ rest) = c # unescape_debug_str rest"
proof (cases "c \<in> {CHR 0x22, CHR 0x5C, CHR 0x0A, CHR 0x0D, CHR 0x09, CHR 0x00}")
  case True
  then show ?thesis by (auto simp: debug_char_def unescape_debug_str.simps(2))
next
  case False
  let ?v = "of_char c :: nat"
  show ?thesis
  proof (cases "?v < 32 \<or> ?v = 127")
    case True
    let ?h = "(if ?v < 16 then [] else [lower_hex_digit (?v div 16)]) @ [lower_hex_digit (?v mod 16)]"
    have "debug_char c = CHR 0x5C # CHR ''u'' # (''{'' @ ?h @ ''}'')"
      using False True by (simp add: debug_char_def Let_def)
    moreover have "decode_unicode (''{'' @ ?h @ ''}'' @ rest) = Some ([c], rest)"
      using True decode_unicode_hex[of ?v ?h rest] by auto
    ultimately show ?thesis by (simp add: unescape_debug_str.simps(2))
  next
    case f: False
    then show ?thesis using False by (simp add: debug_char_def Let_def unescape_debug_str.simps(2))
  qed
qed

lemma unescape_debug_chars: "unescape_debug_str (concat (map debug_char s)) = s"
  by (induction s) (simp_all add: unescape_debug_char)

lemma parse_debug_finish_reason: "parse_finish_reason (debug_finish_reason fr) = fr"
proof (cases fr)
  case (Other raw)
  let ?s = "(''Other('' @ [CHR 0x22]) @ concat (map debug_char raw) @ [CHR 0x22] @ '')''"
  have s: "debug_finish_reason fr = ?s" using Other by (simp add: debug_str_def)
  have p: "strip_prefix ?s (''Other('' @ [CHR 0x22]) = Some (concat (map debug_char raw) @ [CHR 0x22] @ '')'')"
    by (rule strip_prefix_append)
  have q: "strip_suffix (concat (map debug_char raw) @ ([CHR 0x22] @ '')'')) ([CHR 0x22] @ '')'') = Some (concat (map debug_char raw))"
    by (rule strip_suffix_append)
  have "?s \<noteq> ''EndTurn'' \<and> ?s \<noteq> ''ToolUse'' \<and> ?s \<noteq> ''MaxTokens'' \<and> ?s \<noteq> ''StopSequence'' \<and> ?s \<noteq> ''Refusal''"
    by simp
  then show ?thesis
    unfolding parse_finish_reason_def s p using q Other by (simp add: unescape_debug_chars)
qed (simp_all add: parse_finish_reason_def)

text \<open>A recorded model response replays as it was: journaling a response with its finish reason in
  \<open>Debug\<close> form and replaying the entry returns the same message, usage, model and finish reason, for
  every finish reason, including an \<open>Other\<close> carrying an arbitrary ASCII string with quotes, backslashes
  and control characters.\<close>

theorem replay_finish_reason_roundtrip:
  assumes "\<forall>raw. fr = Other raw \<longrightarrow> (\<forall>c \<in> set raw. (of_char c :: nat) < 128)"
  shows "replay_llm_response debug_kind (LlmResponse model usage (debug_finish_reason fr) (Some msg)) =
    Ok \<lparr>pr_message = msg, pr_token_usage = usage, pr_finish_reason = fr, pr_response_id = None, pr_model = model\<rparr>"
  by (simp add: replay_llm_response_def parse_debug_finish_reason)

definition odd_reason :: string where
  "odd_reason = [CHR 0x22, CHR 0x5C, CHR 0x07] @ '')x''"

theorem replay_finish_reason_roundtrip_witness:
  "debug_finish_reason (Other odd_reason) \<noteq> odd_reason \<and>
   replay_llm_response (\<lambda>_. []) (LlmResponse ''m'' usage_zero (debug_finish_reason (Other odd_reason)) (Some (empty_assistant :: unit message))) =
    Ok \<lparr>pr_message = empty_assistant, pr_token_usage = usage_zero, pr_finish_reason = Other odd_reason,
        pr_response_id = None, pr_model = ''m''\<rparr>"
proof -
  have "debug_finish_reason (Other odd_reason) \<noteq> odd_reason" by code_simp
  moreover have "\<forall>c \<in> set odd_reason. (of_char c :: nat) < 128" by code_simp
  ultimately show ?thesis
    using replay_finish_reason_roundtrip[of "Other odd_reason" "\<lambda>_. []" "''m''" usage_zero "empty_assistant :: unit message"]
    by simp
qed

section \<open>The iterator walks the journal once\<close>

fun replay_take :: "nat \<Rightarrow> 'v replay_iterator \<Rightarrow> 'v journal_entry_kind option list \<times> 'v replay_iterator" where
  "replay_take 0 it = ([], it)"
| "replay_take (Suc n) it =
     (case next_recorded it of (k, it') \<Rightarrow> (case replay_take n it' of (ks, it'') \<Rightarrow> (k # ks, it'')))"

lemma next_recorded_drop:
  assumes "schema_mismatch it = None"
  shows "next_recorded it =
    (case drop (ri_cursor it) (ri_entries it) of
       [] \<Rightarrow> (None, it)
     | e # _ \<Rightarrow> (Some (je_entry e), it\<lparr>ri_cursor := ri_cursor it + 1\<rparr>))"
  using assms
  by (cases "ri_cursor it < length (ri_entries it)")
    (auto simp: next_recorded_def Cons_nth_drop_Suc[symmetric])

lemma replay_take_valid:
  assumes "schema_mismatch it = None" "ri_cursor it \<le> length (ri_entries it)"
  shows "fst (replay_take n it) =
      map (Some \<circ> je_entry) (take n (drop (ri_cursor it) (ri_entries it))) @ replicate (n - remaining it) None"
    "remaining (snd (replay_take n it)) = remaining it - n"
  using assms
proof (induction n arbitrary: it)
  case (Suc n)
  case 1
  show ?case
  proof (cases "drop (ri_cursor it) (ri_entries it)")
    case Nil
    then have r: "remaining it = 0" using 1 by (simp add: remaining_def)
    have "fst (replay_take n it) = replicate n None" using Suc.IH(1)[OF 1] Nil r by simp
    then show ?thesis using Nil r 1 by (auto simp: next_recorded_drop split: prod.splits)
  next
    case (Cons e es)
    let ?it = "it\<lparr>ri_cursor := ri_cursor it + 1\<rparr>"
    have l: "ri_cursor it < length (ri_entries it)" using Cons by (metis drop_all linorder_not_less list.discI)
    have es: "drop (Suc (ri_cursor it)) (ri_entries it) = es" using Cons by (metis drop_Suc drop_tl list.sel(3) tl_drop)
    have r: "remaining it = Suc (remaining ?it)" using l 1 by (simp add: remaining_def)
    show ?thesis
      using Suc.IH(1)[of ?it] Cons es r l 1 by (auto simp: next_recorded_drop split: prod.splits)
  qed
next
  case (Suc n)
  case 2
  show ?case
  proof (cases "drop (ri_cursor it) (ri_entries it)")
    case Nil
    then have r: "remaining it = 0" using 2 by (simp add: remaining_def)
    then show ?thesis using Nil 2 Suc.IH(2)[OF 2] by (auto simp: next_recorded_drop split: prod.splits)
  next
    case (Cons e es)
    let ?it = "it\<lparr>ri_cursor := ri_cursor it + 1\<rparr>"
    have l: "ri_cursor it < length (ri_entries it)" using Cons by (metis drop_all linorder_not_less list.discI)
    have r: "remaining it = Suc (remaining ?it)" using l 2 by (simp add: remaining_def)
    show ?thesis using Suc.IH(2)[of ?it] Cons r l 2 by (auto simp: next_recorded_drop split: prod.splits)
  qed
qed (simp_all add: remaining_def)

text \<open>Replay yields every recorded entry exactly once and in order, then the frontier: on a journal
  of the supported schema the first calls return the recorded entries in order and every later call
  returns nothing; on a journal with any entry of another schema not a single entry is exposed, and
  the validation reports the mismatch.\<close>

theorem replay_exposes_each_entry_once:
  "fst (replay_take n (replay_new es)) =
     (if valid_entries es
      then map (Some \<circ> je_entry) (take n es) @ replicate (n - length es) None
      else replicate n None) \<and>
   (is_ok (replay_validate (replay_new es)) \<longleftrightarrow> valid_entries es)"
proof (cases "valid_entries es")
  case True
  then have "schema_mismatch (replay_new es) = None"
    by (auto simp: replay_new_def find_None_iff valid_entries_def)
  with True show ?thesis
    using replay_take_valid(1)[of "replay_new es" n]
    by (simp add: replay_new_def remaining_def replay_validate_def)
next
  case False
  then obtain x where x: "schema_mismatch (replay_new es) = Some x"
    by (cases "schema_mismatch (replay_new es)") (auto simp: replay_new_def find_None_iff valid_entries_def)
  then have "next_recorded (replay_new es) = (None, replay_new es)" by (simp add: next_recorded_def)
  then have "fst (replay_take n (replay_new es)) = replicate n None"
    by (induction n) (auto split: prod.splits)
  with False x show ?thesis by (simp add: replay_validate_def split: prod.splits)
qed

end
