(* ===== verification/Context_Window.thy ===== *)
theory Context_Window
  imports Journal
begin

text \<open>
  Context compaction (\<^verbatim>\<open>simulacra-context/src/lib.rs\<close>, \<^verbatim>\<open>budget.rs\<close>, \<^verbatim>\<open>sliding_window.rs\<close>,
  \<^verbatim>\<open>observation_masking.rs\<close>).  The byte-pair encoder and the JSON printer are external: a record of
  functions passed to every definition.  Token counts are natural numbers (the source's \<open>u64\<close> sums
  count tokens of strings held in memory), so \<open>saturating_sub\<close> is subtraction.  The mutable vectors of
  messages and costs become a list of message-cost pairs; a block of the dropping pass carries its
  start index and its members.
\<close>

section \<open>Token counts\<close>

record 'v token_env =
  te_encode :: "string \<Rightarrow> nat list"
  te_decode :: "nat list \<Rightarrow> string option"
  te_show_json :: "'v \<Rightarrow> string"
  te_json_type :: "'v \<Rightarrow> string option"

definition count_tokens :: "'v token_env \<Rightarrow> string \<Rightarrow> nat" where
  "count_tokens T text = length (te_encode T text)"

definition call_tokens :: "'v token_env \<Rightarrow> 'v tool_call_message \<Rightarrow> nat" where
  "call_tokens T call =
     count_tokens T (tc_id call) + count_tokens T (tc_name call) + count_tokens T (te_show_json T (tc_arguments call))"

definition block_tokens :: "'v token_env \<Rightarrow> nat \<Rightarrow> 'v provider_content_block \<Rightarrow> nat" where
  "block_tokens T image_tokens block =
     count_tokens T (pc_provider block) +
     (if te_json_type T (pc_value block) = Some ''image'' then image_tokens
      else count_tokens T (te_show_json T (pc_value block)))"

definition message_tokens :: "'v token_env \<Rightarrow> nat \<Rightarrow> 'v message \<Rightarrow> nat" where
  "message_tokens T image_tokens m =
     count_tokens T (msg_content m)
     + sum_list (map (call_tokens T) (msg_tool_calls m))
     + (case msg_tool_call_id m of Some i \<Rightarrow> count_tokens T i | None \<Rightarrow> 0)
     + sum_list (map (block_tokens T image_tokens) (msg_provider_content m))"

definition IMAGE_BLOCK_TOKENS :: nat where
  "IMAGE_BLOCK_TOKENS = 4800"

definition immutable_tokens :: "'v token_env \<Rightarrow> nat \<Rightarrow> 'v message \<Rightarrow> nat" where
  "immutable_tokens T image_tokens m = message_tokens T image_tokens m - count_tokens T (msg_content m)"

section \<open>Window bounds\<close>

abbreviation is_tool :: "'v message \<Rightarrow> bool" where
  "is_tool m \<equiv> msg_role m = Tool"

abbreviation is_user :: "'v message \<Rightarrow> bool" where
  "is_user m \<equiv> msg_role m = User"

function adjust_tool_boundary :: "'v message list \<Rightarrow> nat \<Rightarrow> nat" where
  "adjust_tool_boundary msgs idx =
     (if idx < length msgs \<and> is_tool (msgs ! idx) then adjust_tool_boundary msgs (idx + 1) else idx)"
  by auto
termination
  by (relation "measure (\<lambda>(msgs, idx). length msgs - idx)") auto

declare adjust_tool_boundary.simps [simp del]

definition rposition :: "('a \<Rightarrow> bool) \<Rightarrow> 'a list \<Rightarrow> nat option" where
  "rposition P xs =
     (if list_ex P xs then Some (length xs - 1 - length (takeWhile (\<lambda>x. \<not> P x) (rev xs))) else None)"

definition kept_window_start :: "'v message list \<Rightarrow> nat \<Rightarrow> nat" where
  "kept_window_start msgs start =
     (let adjusted = adjust_tool_boundary msgs start
      in case rposition is_user msgs of
           Some last_user \<Rightarrow> min adjusted last_user
         | None \<Rightarrow> adjusted)"

fun owner_index :: "'v message list \<Rightarrow> nat \<Rightarrow> nat" where
  "owner_index msgs 0 = 0"
| "owner_index msgs (Suc n) = (if is_tool (msgs ! Suc n) then owner_index msgs n else Suc n)"

definition exchange_edge :: "'v message list \<Rightarrow> nat \<Rightarrow> nat" where
  "exchange_edge msgs head_end =
     (if head_end = 0 \<or> head_end > length msgs then head_end
      else
        (let owner = owner_index msgs (head_end - 1)
         in if msg_tool_calls (msgs ! owner) = [] then head_end
            else adjust_tool_boundary msgs head_end))"

definition MIN_KEPT_CONTENT_TOKENS :: nat where
  "MIN_KEPT_CONTENT_TOKENS = 64"

text \<open>The markers hold an em dash and an ellipsis, three UTF-8 bytes each.\<close>

definition em_dash :: string where
  "em_dash = [CHR 0xE2, CHR 0x80, CHR 0x94]"

definition ellipsis_char :: string where
  "ellipsis_char = [CHR 0xE2, CHR 0x80, CHR 0xA6]"

definition elided_marker :: "nat \<Rightarrow> string" where
  "elided_marker original_len = ''[output elided '' @ em_dash @ '' '' @ show_nat original_len @ '' chars]''"

definition truncate_to_tokens :: "'v token_env \<Rightarrow> string \<Rightarrow> nat \<Rightarrow> string" where
  "truncate_to_tokens T content target_tokens =
     (let tokens = te_encode T content
      in if length tokens \<le> target_tokens then content
         else
           (let marker = [CHR 0x0A] @ ''['' @ ellipsis_char @ ''truncated '' @ em_dash @ '' '' @
                         show_nat (length content) @ '' chars total]'';
                marker_tokens = length (te_encode T marker)
            in if marker_tokens \<ge> target_tokens then marker
               else
                 (let keep = target_tokens - marker_tokens
                  in unwrap_or (te_decode T (take keep tokens)) [] @ marker)))"

section \<open>The budget passes\<close>

definition normalize_leading :: "'v message list \<Rightarrow> nat \<Rightarrow> 'v message list" where
  "normalize_leading messages fixed_head0 =
     (let fixed_head = min fixed_head0 (length messages);
          rest = drop fixed_head messages
      in if list_ex is_user rest
         then take fixed_head messages @ dropWhile (\<lambda>m. \<not> is_user m) rest
         else messages)"

type_synonym 'v costed = "('v message \<times> nat) list"

text \<open>Pass 1 from index \<open>i\<close> on: tool results are elided oldest first, sparing the last.  The early
  \<open>return\<close> leaves the rest as it is, and the later passes then see a total within the limit.\<close>

fun pass1 :: "'v token_env \<Rightarrow> nat \<Rightarrow> nat \<Rightarrow> nat option \<Rightarrow> nat \<Rightarrow> 'v costed \<Rightarrow> nat \<Rightarrow> 'v costed \<times> nat" where
  "pass1 T img limit last_tool i [] tot = ([], tot)"
| "pass1 T img limit last_tool i ((m, c) # ms) tot =
     (if tot \<le> limit then ((m, c) # ms, tot)
      else if \<not> is_tool m \<or> Some i = last_tool \<or> count_tokens T (msg_content m) \<le> MIN_KEPT_CONTENT_TOKENS
      then (let (ms', tot') = pass1 T img limit last_tool (i + 1) ms tot in ((m, c) # ms', tot'))
      else
        (let marker = elided_marker (length (msg_content m))
         in if length marker < length (msg_content m)
            then
              (let m1 = m\<lparr>msg_content := marker\<rparr>;
                   new_cost = message_tokens T img m1;
                   (ms', tot') = pass1 T img limit last_tool (i + 1) ms (tot - c + new_cost)
               in ((m1, new_cost) # ms', tot'))
            else (let (ms', tot') = pass1 T img limit last_tool (i + 1) ms tot in ((m, c) # ms', tot'))))"

fun pass2 :: "'v token_env \<Rightarrow> nat \<Rightarrow> nat \<Rightarrow> 'v costed \<Rightarrow> nat \<Rightarrow> 'v costed \<times> nat" where
  "pass2 T img limit [] tot = ([], tot)"
| "pass2 T img limit ((m, c) # ms) tot =
     (if tot \<le> limit then ((m, c) # ms, tot)
      else if msg_role m = System \<or> count_tokens T (msg_content m) \<le> MIN_KEPT_CONTENT_TOKENS
      then (let (ms', tot') = pass2 T img limit ms tot in ((m, c) # ms', tot'))
      else
        (let others = tot - c;
             allowance = limit - (others + immutable_tokens T img m);
             shrunk = truncate_to_tokens T (msg_content m) allowance
         in if shrunk \<noteq> [] \<and> length shrunk < length (msg_content m)
            then
              (let m1 = m\<lparr>msg_content := shrunk\<rparr>;
                   new_cost = message_tokens T img m1;
                   (ms', tot') = pass2 T img limit ms (tot - c + new_cost)
               in ((m1, new_cost) # ms', tot'))
            else (let (ms', tot') = pass2 T img limit ms tot in ((m, c) # ms', tot'))))"

text \<open>The blocks of pass 3: a message with its tool results when it carries tool calls.\<close>

function blocks_from :: "nat \<Rightarrow> 'v costed \<Rightarrow> (nat \<times> 'v costed) list" where
  "blocks_from i [] = []"
| "blocks_from i (mc # ms) =
     (let run = (if msg_tool_calls (fst mc) \<noteq> [] then takeWhile (\<lambda>x. is_tool (fst x)) ms else [])
      in (i, mc # run) # blocks_from (i + 1 + length run) (drop (length run) ms))"
  by pat_completeness auto
termination
  by (relation "measure (\<lambda>(i, ms). length ms)") (auto simp: le_imp_less_Suc)

definition block_holds :: "nat option \<Rightarrow> nat \<times> 'a list \<Rightarrow> bool" where
  "block_holds u b = (case u of None \<Rightarrow> False | Some j \<Rightarrow> fst b \<le> j \<and> j < fst b + length (snd b))"

fun drop_blocks :: "nat \<Rightarrow> nat option \<Rightarrow> nat option \<Rightarrow> nat \<Rightarrow> (nat \<times> 'v costed) list \<Rightarrow> (nat \<times> 'v costed) list" where
  "drop_blocks limit last_user final_start tot [] = []"
| "drop_blocks limit last_user final_start tot (b # bs) =
     (if tot \<le> limit then b # bs
      else if Some (fst b) = final_start then b # bs
      else if block_holds last_user b then b # drop_blocks limit last_user final_start tot bs
      else drop_blocks limit last_user final_start (tot - sum_list (map snd (snd b))) bs)"

definition pass3_blocks :: "nat \<Rightarrow> 'v costed \<Rightarrow> (nat \<times> 'v costed) list" where
  "pass3_blocks fixed_head cms =
     (let i = min fixed_head (length cms) in blocks_from i (drop i cms))"

definition pass3_kept :: "nat \<Rightarrow> nat \<Rightarrow> 'v costed \<Rightarrow> nat \<Rightarrow> (nat \<times> 'v costed) list" where
  "pass3_kept limit fixed_head cms tot =
     (let last_user = rposition is_user (map fst cms);
          blocks = pass3_blocks fixed_head cms;
          final_start = (if blocks = [] then None else Some (fst (last blocks)))
      in drop_blocks limit last_user final_start tot blocks)"

definition pass3 :: "nat \<Rightarrow> nat \<Rightarrow> 'v costed \<Rightarrow> nat \<Rightarrow> 'v message list" where
  "pass3 limit fixed_head cms tot =
     (let kept = pass3_kept limit fixed_head cms tot
      in if tot > limit \<and> length kept < length (pass3_blocks fixed_head cms)
         then normalize_leading (map fst (take fixed_head cms @ concat (map snd kept))) fixed_head
         else map fst cms)"

definition enforce_token_budget :: "'v token_env \<Rightarrow> 'v message list \<Rightarrow> nat \<Rightarrow> nat \<Rightarrow> nat \<Rightarrow> 'v message list" where
  "enforce_token_budget T messages0 limit fixed_head img =
     (let messages = normalize_leading messages0 fixed_head;
          cms = map (\<lambda>m. (m, message_tokens T img m)) messages;
          tot = sum_list (map snd cms)
      in if tot \<le> limit then messages
         else
           (let (cms1, tot1) = pass1 T img limit (rposition is_tool messages) 0 cms tot;
                (cms2, tot2) = pass2 T img limit cms1 tot1
            in pass3 limit fixed_head cms2 tot2))"

section \<open>The strategies\<close>

record sliding_window =
  sw_pinned_prefix :: nat
  sw_image_tokens :: nat

definition with_pinned_prefix :: "nat \<Rightarrow> sliding_window" where
  "with_pinned_prefix n = \<lparr>sw_pinned_prefix = n, sw_image_tokens = IMAGE_BLOCK_TOKENS\<rparr>"

definition sliding_new :: sliding_window where
  "sliding_new = with_pinned_prefix 0"

definition with_image_tokens :: "sliding_window \<Rightarrow> nat \<Rightarrow> sliding_window" where
  "with_image_tokens w n = w\<lparr>sw_image_tokens := n\<rparr>"

text \<open>The walk from the end: the smallest start index whose suffix costs fit the remaining budget.\<close>

fun tail_walk :: "'v token_env \<Rightarrow> nat \<Rightarrow> 'v message list \<Rightarrow> nat \<Rightarrow> nat \<Rightarrow> nat \<Rightarrow> nat" where
  "tail_walk T img msgs 0 left start = start"
| "tail_walk T img msgs (Suc i) left start =
     (let cost = message_tokens T img (msgs ! i)
      in if cost > left then start else tail_walk T img msgs i (left - cost) i)"

definition sliding_head_end :: "sliding_window \<Rightarrow> 'v message list \<Rightarrow> nat" where
  "sliding_head_end w messages =
     (let offset = (if msg_role (hd messages) = System then 1 else 0);
          head_end = min (offset + sw_pinned_prefix w) (length messages)
      in if sw_pinned_prefix w > 0 then exchange_edge messages head_end else head_end)"

definition sliding_compact :: "'v token_env \<Rightarrow> sliding_window \<Rightarrow> 'v message list \<Rightarrow> nat \<Rightarrow> 'v message list" where
  "sliding_compact T w messages limit =
     (if messages = [] then []
      else
        (let img = sw_image_tokens w;
             head_end = sliding_head_end w messages;
             head = take head_end messages;
             rest = drop head_end messages;
             left = foldl (\<lambda>r m. r - message_tokens T img m) limit head;
             start = kept_window_start rest (tail_walk T img rest (length rest) left (length rest))
         in enforce_token_budget T (head @ drop start rest) limit head_end img))"

record observation_masking =
  om_keep_recent_tool_results :: nat
  om_image_tokens :: nat

definition masking_new :: "nat \<Rightarrow> observation_masking" where
  "masking_new n = \<lparr>om_keep_recent_tool_results = n, om_image_tokens = IMAGE_BLOCK_TOKENS\<rparr>"

definition masking_with_image_tokens :: "observation_masking \<Rightarrow> nat \<Rightarrow> observation_masking" where
  "masking_with_image_tokens s n = s\<lparr>om_image_tokens := n\<rparr>"

definition mask_message :: "nat set \<Rightarrow> nat \<times> 'v message \<Rightarrow> 'v message" where
  "mask_message old im =
     (case im of (i, m) \<Rightarrow>
        if i \<in> old
        then \<lparr>msg_role = Tool, msg_content = elided_marker (length (msg_content m)),
              msg_tool_calls = msg_tool_calls m, msg_tool_call_id = msg_tool_call_id m,
              msg_provider_content = msg_provider_content m\<rparr>
        else m)"

definition mask_old :: "nat \<Rightarrow> 'v message list \<Rightarrow> 'v message list" where
  "mask_old keep messages =
     (let tool_indices = map fst (filter (\<lambda>im. is_tool (snd im)) (List.enumerate 0 messages));
          cutoff = length tool_indices - keep;
          old = set (take cutoff tool_indices)
      in map (mask_message old) (List.enumerate 0 messages))"

definition masking_compact :: "'v token_env \<Rightarrow> observation_masking \<Rightarrow> 'v message list \<Rightarrow> nat \<Rightarrow> 'v message list" where
  "masking_compact T s messages limit =
     (if messages = [] then []
      else
        (let img = om_image_tokens s;
             masked = mask_old (om_keep_recent_tool_results s) messages
         in if sum_list (map (message_tokens T img) masked) \<le> limit then masked
            else
              (let system = (msg_role (hd masked) = System);
                   head = (if system then [hd masked] else []);
                   left = (if system then limit - message_tokens T img (hd masked) else limit);
                   rest = (if system then tl masked else masked);
                   start = kept_window_start rest (tail_walk T img rest (length rest) left (length rest))
               in enforce_token_budget T (head @ drop start rest) limit (if system then 1 else 0) img)))"

section \<open>What shrinking keeps\<close>

text \<open>Everything of a message but its content.\<close>

definition skel :: "'v message \<Rightarrow> 'v message" where
  "skel m = m\<lparr>msg_content := []\<rparr>"

lemma skel_update [simp]: "skel (m\<lparr>msg_content := c\<rparr>) = skel m"
  by (simp add: skel_def)

lemma pass1_skel: "map (skel \<circ> fst) (fst (pass1 T img limit lt i cms tot)) = map (skel \<circ> fst) cms"
  by (induction T img limit lt i cms tot rule: pass1.induct) (auto simp: Let_def split: prod.splits)

lemma pass2_skel: "map (skel \<circ> fst) (fst (pass2 T img limit cms tot)) = map (skel \<circ> fst) cms"
  by (induction T img limit cms tot rule: pass2.induct) (auto simp: Let_def split: prod.splits)

text \<open>
  The shape providers require of tool exchanges: reading left to right, a tool result answers one of the
  calls still pending, and no other message arrives before every pending call is answered.
\<close>

fun exch :: "string list \<Rightarrow> 'v message list \<Rightarrow> string list option" where
  "exch p [] = Some p"
| "exch p (m # ms) =
     (if is_tool m
      then (case msg_tool_call_id m of
              None \<Rightarrow> None
            | Some i \<Rightarrow> if i \<in> set p then exch (remove1 i p) ms else None)
      else if p = [] \<and> (msg_tool_calls m \<noteq> [] \<longrightarrow> msg_role m = Assistant)
      then exch (map tc_id (msg_tool_calls m)) ms
      else None)"

definition exchanges_complete :: "'v message list \<Rightarrow> bool" where
  "exchanges_complete ms \<longleftrightarrow> exch [] ms = Some []"

lemma exch_append:
  "exch p (xs @ ys) = (case exch p xs of None \<Rightarrow> None | Some q \<Rightarrow> exch q ys)"
  by (induction xs arbitrary: p) (auto split: option.splits)

lemma exch_nontool: "exch p (y # ys) = Some q \<Longrightarrow> \<not> is_tool y \<Longrightarrow> p = []"
  by (auto split: if_splits)

lemma exch_split:
  assumes "exch p (xs @ ys) = Some []" "ys = [] \<or> \<not> is_tool (hd ys)"
  shows "exch p xs = Some [] \<and> exchanges_complete ys"
proof -
  obtain q where q: "exch p xs = Some q" "exch q ys = Some []"
    using assms(1) unfolding exch_append by (cases "exch p xs") auto
  moreover have "q = []"
  proof (cases ys)
    case (Cons y ys')
    then show ?thesis using assms(2) q(2) exch_nontool[of q y ys' "[]"] by fastforce
  qed (use q in simp)
  ultimately show ?thesis by (simp add: exchanges_complete_def)
qed

lemma complete_append: "exchanges_complete xs \<Longrightarrow> exchanges_complete ys \<Longrightarrow> exchanges_complete (xs @ ys)"
  by (simp add: exchanges_complete_def exch_append)

lemma complete_Nil [simp]: "exchanges_complete []"
  by (simp add: exchanges_complete_def)

lemma complete_cut:
  assumes "exchanges_complete xs" "n < length xs \<Longrightarrow> \<not> is_tool (xs ! n)"
  shows "exchanges_complete (take n xs) \<and> exchanges_complete (drop n xs)"
  using exch_split[of "[]" "take n xs" "drop n xs"] assms
  by (cases "n < length xs") (auto simp: exchanges_complete_def hd_drop_conv_nth)

lemma skel_eqD:
  "skel m = skel n \<Longrightarrow> msg_role m = msg_role n \<and> msg_tool_calls m = msg_tool_calls n \<and>
     msg_tool_call_id m = msg_tool_call_id n"
  by (cases m; cases n) (auto simp: skel_def)

lemma exch_skel: "map skel xs = map skel ys \<Longrightarrow> exch p xs = exch p ys"
proof (induction xs arbitrary: ys p)
  case (Cons x xs)
  then obtain y ys' where ys: "ys = y # ys'" by (cases ys) auto
  then have "skel x = skel y" "map skel xs = map skel ys'" using Cons.prems by auto
  then show ?case using Cons.IH[of ys'] skel_eqD[of x y] ys by (auto split: option.split)
qed simp

definition split_ok :: "nat \<Rightarrow> 'v message list \<Rightarrow> bool" where
  "split_ok h ms \<longleftrightarrow> exchanges_complete (take h ms) \<and> exchanges_complete (drop h ms)"

lemma split_ok_whole: "split_ok h ms \<Longrightarrow> exchanges_complete ms"
  using complete_append[of "take h ms" "drop h ms"] by (simp add: split_ok_def)

lemma split_ok_skel: "map skel xs = map skel ys \<Longrightarrow> split_ok h xs = split_ok h ys"
  using exch_skel[of "take h xs" "take h ys" "[]"] exch_skel[of "drop h xs" "drop h ys" "[]"]
  by (simp add: split_ok_def exchanges_complete_def take_map[symmetric] drop_map[symmetric])

text \<open>The window opens with a user turn whenever one is left after the fixed head.\<close>

definition lead_ok :: "nat \<Rightarrow> 'v message list \<Rightarrow> bool" where
  "lead_ok h ms \<longleftrightarrow> (list_ex is_user (drop h ms) \<longrightarrow> is_user (hd (drop h ms)))"

lemma roles_skel: "map skel xs = map skel ys \<Longrightarrow> map msg_role xs = map msg_role ys"
proof -
  assume a: "map skel xs = map skel ys"
  have "map msg_role zs = map msg_role (map skel zs)" for zs :: "'a message list"
    by (simp add: skel_def)
  with a show ?thesis by metis
qed

lemma lead_ok_by_roles:
  "lead_ok h ms \<longleftrightarrow> (list_ex ((=) User) (drop h (map msg_role ms)) \<longrightarrow> hd (drop h (map msg_role ms)) = User)"
proof (cases "drop h ms")
  case Nil
  then show ?thesis by (simp add: lead_ok_def drop_map)
next
  case (Cons m rest)
  have "list_ex is_user zs = list_ex ((=) User) (map msg_role zs)" for zs :: "'a message list"
    by (induction zs) auto
  then show ?thesis using Cons by (auto simp: lead_ok_def drop_map)
qed

lemma lead_ok_skel: "map skel xs = map skel ys \<Longrightarrow> lead_ok h xs = lead_ok h ys"
  by (simp add: lead_ok_by_roles roles_skel[of xs ys])

section \<open>Leading normalisation\<close>

lemma normalize_leading_split:
  "normalize_leading ms h = take h ms @
     (if list_ex is_user (drop h ms) then dropWhile (\<lambda>m. \<not> is_user m) (drop h ms) else drop h ms)"
  by (cases "h \<le> length ms") (auto simp: normalize_leading_def Let_def min_def)

lemma normalize_leading_take: "take h (normalize_leading ms h) = take h ms"
  by (cases "h \<le> length ms") (auto simp: normalize_leading_split)

lemma normalize_leading_drop:
  "drop h (normalize_leading ms h) =
     (if list_ex is_user (drop h ms) then dropWhile (\<lambda>m. \<not> is_user m) (drop h ms) else drop h ms)"
  by (cases "h \<le> length ms") (auto simp: normalize_leading_split)

lemma dropWhile_user_hd: "list_ex P xs \<Longrightarrow> dropWhile (\<lambda>m. \<not> P m) xs \<noteq> [] \<and> P (hd (dropWhile (\<lambda>m. \<not> P m) xs))"
  by (induction xs) auto

lemma complete_dropWhile_user:
  assumes "exchanges_complete xs" "list_ex is_user xs"
  shows "exchanges_complete (dropWhile (\<lambda>m. \<not> is_user m) xs)"
  using exch_split[of "[]" "takeWhile (\<lambda>m. \<not> is_user m) xs" "dropWhile (\<lambda>m. \<not> is_user m) xs"]
    dropWhile_user_hd[OF assms(2)] assms(1) by (simp add: exchanges_complete_def)

lemma normalize_leading_ok: "split_ok h ms \<Longrightarrow> split_ok h (normalize_leading ms h)"
  unfolding split_ok_def normalize_leading_take normalize_leading_drop
  using complete_dropWhile_user[of "drop h ms"] by auto

lemma normalize_leading_lead: "lead_ok h (normalize_leading ms h)"
  unfolding lead_ok_def normalize_leading_drop using dropWhile_user_hd[of is_user "drop h ms"] by auto

lemma last_dropWhile: "dropWhile P xs \<noteq> [] \<Longrightarrow> last (dropWhile P xs) = last xs"
  by (induction xs) auto

lemma normalize_leading_last:
  "drop h ms \<noteq> [] \<Longrightarrow>
   drop h (normalize_leading ms h) \<noteq> [] \<and> last (drop h (normalize_leading ms h)) = last (drop h ms)"
  unfolding normalize_leading_drop
  using dropWhile_user_hd[of is_user "drop h ms"] last_dropWhile[of "\<lambda>m. \<not> is_user m" "drop h ms"] by auto

section \<open>Blocks\<close>

lemma concat_blocks: "concat (map snd (blocks_from i cms)) = cms"
proof (induction i cms rule: blocks_from.induct)
  case (2 i mc ms)
  show ?case
  proof (cases "msg_tool_calls (fst mc) = []")
    case False
    then show ?thesis using 2 by (simp add: Let_def dropWhile_eq_drop[symmetric])
  qed (use 2 in \<open>simp add: Let_def\<close>)
qed simp

lemma blocks_Nil [simp]: "blocks_from i cms = [] \<longleftrightarrow> cms = []"
  by (cases cms) (auto simp: Let_def)

definition good_block :: "'v costed \<Rightarrow> bool" where
  "good_block b \<longleftrightarrow> b \<noteq> [] \<and> (\<forall>x \<in> set (tl b). is_tool (fst x)) \<and> exchanges_complete (map fst b)"

lemma block_split:
  assumes "exchanges_complete (map fst (mc # ms))"
  defines "run \<equiv> (if msg_tool_calls (fst mc) \<noteq> [] then takeWhile (\<lambda>x. is_tool (fst x)) ms else [])"
  shows "good_block (mc # run) \<and> exchanges_complete (map fst (drop (length run) ms))"
proof (cases "msg_tool_calls (fst mc) = []")
  case True
  have n: "\<not> is_tool (fst mc)" using assms(1) by (auto simp: exchanges_complete_def split: option.splits)
  then show ?thesis using True assms(1) by (simp add: run_def good_block_def exchanges_complete_def split: if_splits)
next
  case False
  then have r: "run = takeWhile (\<lambda>x. is_tool (fst x)) ms" by (simp add: run_def)
  have d: "drop (length run) ms = dropWhile (\<lambda>x. is_tool (fst x)) ms" by (simp add: r dropWhile_eq_drop)
  have "ms = run @ drop (length run) ms" by (simp add: r d[unfolded r])
  then have e: "map fst (mc # ms) = map fst (mc # run) @ map fst (drop (length run) ms)"
    by (metis append_Cons map_append)
  have "drop (length run) ms = [] \<or> \<not> is_tool (fst (hd (drop (length run) ms)))"
    unfolding d using hd_dropWhile[of "\<lambda>x. is_tool (fst x)" ms] by blast
  then have "map fst (drop (length run) ms) = [] \<or> \<not> is_tool (hd (map fst (drop (length run) ms)))"
    by (cases "drop (length run) ms") auto
  then have "exchanges_complete (map fst (mc # run)) \<and> exchanges_complete (map fst (drop (length run) ms))"
    using exch_split[OF assms(1)[unfolded exchanges_complete_def e]] unfolding exchanges_complete_def by blast
  moreover have "\<forall>x \<in> set run. is_tool (fst x)" unfolding r by (auto dest: set_takeWhileD)
  ultimately show ?thesis by (simp add: good_block_def)
qed

lemma blocks_good:
  "exchanges_complete (map fst cms) \<Longrightarrow> \<forall>b \<in> set (blocks_from i cms). good_block (snd b)"
proof (induction i cms rule: blocks_from.induct)
  case (2 i mc ms)
  then show ?case using block_split[OF 2(2)] by (simp add: Let_def)
qed simp

lemma good_blocks_concat: "\<forall>b \<in> set bs. good_block b \<Longrightarrow> exchanges_complete (map fst (concat bs))"
  by (induction bs) (auto simp: good_block_def intro: complete_append)

lemma drop_blocks_subset: "set (drop_blocks limit u f tot bs) \<subseteq> set bs"
  by (induction limit u f tot bs rule: drop_blocks.induct) auto

lemma drop_blocks_length: "length (drop_blocks limit u f tot bs) \<le> length bs"
  by (induction limit u f tot bs rule: drop_blocks.induct) auto

lemma drop_blocks_all: "length (drop_blocks limit u f tot bs) = length bs \<Longrightarrow> drop_blocks limit u f tot bs = bs"
proof (induction limit u f tot bs rule: drop_blocks.induct)
  case (2 limit u f tot b bs)
  then show ?case using drop_blocks_length[of limit u f "tot - sum_list (map snd (snd b))" bs] by (auto split: if_splits)
qed simp

lemma drop_blocks_last:
  "bs \<noteq> [] \<Longrightarrow> f = Some (fst (last bs)) \<Longrightarrow>
   drop_blocks limit u f tot bs \<noteq> [] \<and> last (drop_blocks limit u f tot bs) = last bs"
  by (induction limit u f tot bs rule: drop_blocks.induct) (auto split: if_splits)

text \<open>Consecutive blocks: each starts where the one before ends.\<close>

fun chain :: "nat \<Rightarrow> (nat \<times> 'a list) list \<Rightarrow> bool" where
  "chain i [] = True"
| "chain i (b # bs) = (fst b = i \<and> snd b \<noteq> [] \<and> chain (i + length (snd b)) bs)"

lemma chain_blocks: "chain i (blocks_from i cms)"
  by (induction i cms rule: blocks_from.induct) (simp_all add: Let_def)

lemma chain_at: "chain i (pre @ b # post) \<Longrightarrow> fst b = i + length (concat (map snd pre))"
  by (induction pre arbitrary: i) auto

lemma chain_prefix: "chain i (xs @ ys) \<Longrightarrow> chain i xs"
  by (induction xs arbitrary: i) auto

lemma chain_ge: "chain i bs \<Longrightarrow> b \<in> set bs \<Longrightarrow> i \<le> fst b"
  by (induction bs arbitrary: i) force+

lemma chain_last_start: "chain i (b # bs) \<Longrightarrow> bs \<noteq> [] \<Longrightarrow> fst b \<noteq> fst (last bs)"
  using chain_ge[of "i + length (snd b)" bs "last bs"] by (cases "snd b") auto

lemma chain_holds_once: "chain i bs \<Longrightarrow> length (filter (block_holds u) bs) \<le> 1"
proof (induction bs arbitrary: i)
  case (Cons b bs)
  have "filter (block_holds u) bs = []" if h: "block_holds u b"
  proof -
    obtain j where j: "u = Some j" "j < fst b + length (snd b)"
      using h by (auto simp: block_holds_def split: option.splits)
    have "\<not> block_holds u c" if "c \<in> set bs" for c
      using chain_ge[of _ bs c] Cons.prems that j by (force simp: block_holds_def)
    then show ?thesis by (simp add: filter_empty_conv)
  qed
  then show ?case using Cons by auto
qed simp

text \<open>The dropping pass ends within the limit, or with the anchor block and the final block alone.\<close>

lemma drop_blocks_total:
  fixes u :: "nat option" and limit :: nat
  assumes "chain i bs" "bs \<noteq> []" "f = Some (fst (last bs))" "tot = base + sum_list (map snd (concat (map snd bs)))"
  defines "k \<equiv> drop_blocks limit u f tot bs"
  shows "base + sum_list (map snd (concat (map snd k))) \<le> limit \<or>
    k = filter (block_holds u) (butlast bs) @ [last bs]"
  using assms(1-4) unfolding k_def
proof (induction bs arbitrary: i tot base)
  case (Cons b bs)
  show ?case
  proof (cases "tot \<le> limit")
    case True
    then show ?thesis using Cons.prems by simp
  next
    case big: False
    show ?thesis
    proof (cases "bs = []")
      case True
      then show ?thesis using Cons.prems big by simp
    next
      case False
      then have f: "f = Some (fst (last bs))" "Some (fst b) \<noteq> f"
        using Cons.prems chain_last_start[of i b bs] by auto
      have ch: "chain (i + length (snd b)) bs" using Cons.prems by simp
      show ?thesis
      proof (cases "block_holds u b")
        case True
        then show ?thesis
          using Cons.IH[OF ch False f(1), of tot "base + sum_list (map snd (snd b))"] Cons.prems(4) big f False
          by (auto simp: ac_simps)
      next
        case nh: False
        then show ?thesis
          using Cons.IH[OF ch False f(1), of "tot - sum_list (map snd (snd b))" base] Cons.prems(4) big f False
          by auto
      qed
    qed
  qed
qed simp

text \<open>The last user turn is kept.\<close>

abbreviation users :: "'v costed \<Rightarrow> 'v message list" where
  "users cms \<equiv> filter is_user (map fst cms)"

abbreviation block_users :: "(nat \<times> 'v costed) list \<Rightarrow> 'v message list" where
  "block_users bs \<equiv> users (concat (map snd bs))"

lemma drop_blocks_last_user:
  assumes "\<And>pre b post. bs = pre @ b # post \<Longrightarrow> block_users post = [] \<Longrightarrow> users (snd b) \<noteq> [] \<Longrightarrow> block_holds u b"
    "block_users bs \<noteq> []"
  shows "block_users (drop_blocks limit u f tot bs) \<noteq> [] \<and>
    last (block_users (drop_blocks limit u f tot bs)) = last (block_users bs)"
  using assms
proof (induction limit u f tot bs rule: drop_blocks.induct)
  case (2 limit u f tot b bs)
  have H: "\<And>pre c post. bs = pre @ c # post \<Longrightarrow> block_users post = [] \<Longrightarrow> users (snd c) \<noteq> [] \<Longrightarrow> block_holds u c"
    using "2.prems"(1)[of "b # _"] by simp
  show ?case
  proof (cases "block_users bs = []")
    case True
    then have "block_holds u b" using "2.prems"(1)[of "[]" b bs] "2.prems"(2) by simp
    moreover have "block_users (drop_blocks limit u f tot bs) = []"
    proof -
      have "set (concat (map snd (drop_blocks limit u f tot bs))) \<subseteq> set (concat (map snd bs))"
        using drop_blocks_subset[of limit u f tot bs] by auto
      then show ?thesis using True unfolding filter_empty_conv set_map by blast
    qed
    ultimately have "block_users (drop_blocks limit u f tot (b # bs)) = block_users (b # bs)"
      using True by simp
    then show ?thesis using "2.prems"(2) by metis
  next
    case False
    consider "tot \<le> limit \<or> Some (fst b) = f" | "\<not> tot \<le> limit" "Some (fst b) \<noteq> f" "block_holds u b"
      | "\<not> tot \<le> limit" "Some (fst b) \<noteq> f" "\<not> block_holds u b" by blast
    then show ?thesis
    proof cases
      case 1
      then have "drop_blocks limit u f tot (b # bs) = b # bs" by auto
      then show ?thesis using "2.prems"(2) by metis
    next
      case c: 2
      show ?thesis using "2.IH"(1)[OF c H False] c False by (simp add: last_append)
    next
      case c: 3
      show ?thesis using "2.IH"(2)[OF c H False] c False by (simp add: last_append)
    qed
  qed
qed simp

lemma takeWhile_none: "\<not> list_ex P xs \<Longrightarrow> takeWhile (\<lambda>x. \<not> P x) (xs @ ys) = xs @ takeWhile (\<lambda>x. \<not> P x) ys"
  by (induction xs) auto

lemma length_takeWhile_ex: "list_ex P xs \<Longrightarrow> length (takeWhile (\<lambda>x. \<not> P x) (xs @ ys)) < length xs"
  by (induction xs) auto

lemma rposition_block:
  assumes "list_ex P ys" "\<not> list_ex P zs"
  shows "\<exists>j. rposition P (xs @ ys @ zs) = Some j \<and> length xs \<le> j \<and> j < length xs + length ys"
proof -
  have r: "list_ex P (rev ys)" "\<not> list_ex P (rev zs)" using assms by (auto simp: list_ex_iff)
  have "length (takeWhile (\<lambda>x. \<not> P x) (rev ys @ rev xs)) < length ys"
    using length_takeWhile_ex[OF r(1), of "rev xs"] by simp
  then show ?thesis using assms(1) takeWhile_none[OF r(2), of "rev ys @ rev xs"] by (auto simp: rposition_def)
qed

lemma users_Nil: "users cms = [] \<longleftrightarrow> \<not> list_ex is_user (map fst cms)"
  by (auto simp: filter_empty_conv list_ex_iff)

lemma last_user_block:
  assumes "blocks_from h (drop h cms) = pre @ b # post" "h \<le> length cms" "block_users post = []" "users (snd b) \<noteq> []"
  shows "block_holds (rposition is_user (map fst cms)) b"
proof -
  have "concat (map snd (pre @ b # post)) = drop h cms" unfolding assms(1)[symmetric] by (rule concat_blocks)
  then have c: "map fst cms = map fst (take h cms @ concat (map snd pre)) @ map fst (snd b) @
      map fst (concat (map snd post))"
    using append_take_drop_id[of h cms] by (metis append.assoc concat.simps(2) concat_append list.simps(9) map_append)
  have "fst b = h + length (concat (map snd pre))"
    using chain_at[of h pre b post] chain_blocks[of h "drop h cms"] assms(1) by simp
  then show ?thesis
    using rposition_block[of is_user "map fst (snd b)" "map fst (concat (map snd post))"
        "map fst (take h cms @ concat (map snd pre))"] assms(2-4)
    unfolding c[symmetric] users_Nil by (auto simp: block_holds_def)
qed

section \<open>The passes keep the books\<close>

abbreviation costs_of :: "'v costed \<Rightarrow> nat" where
  "costs_of cms \<equiv> sum_list (map snd cms)"

definition priced :: "'v token_env \<Rightarrow> nat \<Rightarrow> 'v costed \<Rightarrow> bool" where
  "priced T img cms \<longleftrightarrow> (\<forall>x \<in> set cms. snd x = message_tokens T img (fst x))"

lemma priced_simps [simp]:
  "priced T img []"
  "priced T img ((m, c) # cms) \<longleftrightarrow> c = message_tokens T img m \<and> priced T img cms"
  by (auto simp: priced_def)

lemma priced_sum: "priced T img cms \<Longrightarrow> sum_list (map (message_tokens T img) (map fst cms)) = costs_of cms"
  by (induction cms) auto

lemma pass1_books:
  "priced T img cms \<Longrightarrow> tot = base + costs_of cms \<Longrightarrow> pass1 T img limit lt i cms tot = (cms', tot') \<Longrightarrow>
   priced T img cms' \<and> tot' = base + costs_of cms'"
proof (induction T img limit lt i cms tot arbitrary: base cms' tot' rule: pass1.induct)
  case (2 T img limit lt i m c ms tot)
  let ?m1 = "m\<lparr>msg_content := elided_marker (length (msg_content m))\<rparr>"
  obtain a1 t1 where p1: "pass1 T img limit lt (i + 1) ms tot = (a1, t1)" by fastforce
  obtain a2 t2 where p2: "pass1 T img limit lt (i + 1) ms (tot - c + message_tokens T img ?m1) = (a2, t2)" by fastforce
  have c: "c = message_tokens T img m" "priced T img ms" "tot = base + c + costs_of ms" using "2.prems" by auto
  have i1: "priced T img a1 \<and> t1 = base + c + costs_of a1"
    if "\<not> tot \<le> limit" "\<not> is_tool m \<or> Some i = lt \<or> count_tokens T (msg_content m) \<le> MIN_KEPT_CONTENT_TOKENS"
    using "2.IH"(1)[OF that c(2) c(3) p1] .
  have i2: "priced T img a2 \<and> t2 = base + message_tokens T img ?m1 + costs_of a2"
    if "\<not> tot \<le> limit" "\<not> (\<not> is_tool m \<or> Some i = lt \<or> count_tokens T (msg_content m) \<le> MIN_KEPT_CONTENT_TOKENS)"
      "length (elided_marker (length (msg_content m))) < length (msg_content m)"
    by (rule "2.IH"(2)[OF that(1,2) refl that(3) refl refl c(2) _ p2]) (use c in simp)
  have i3: "priced T img a1 \<and> t1 = base + c + costs_of a1"
    if "\<not> tot \<le> limit" "\<not> (\<not> is_tool m \<or> Some i = lt \<or> count_tokens T (msg_content m) \<le> MIN_KEPT_CONTENT_TOKENS)"
      "\<not> length (elided_marker (length (msg_content m))) < length (msg_content m)"
    using "2.IH"(3)[OF that(1,2) refl that(3) c(2) c(3) p1] .
  show ?case using "2.prems"(3) c i1 i2 i3 p1 p2 by (auto simp: Let_def split: if_splits)
qed simp

lemma pass2_books:
  "priced T img cms \<Longrightarrow> tot = base + costs_of cms \<Longrightarrow> pass2 T img limit cms tot = (cms', tot') \<Longrightarrow>
   priced T img cms' \<and> tot' = base + costs_of cms'"
proof (induction T img limit cms tot arbitrary: base cms' tot' rule: pass2.induct)
  case (2 T img limit m c ms tot)
  let ?sh = "truncate_to_tokens T (msg_content m) (limit - (tot - c + immutable_tokens T img m))"
  let ?m1 = "m\<lparr>msg_content := ?sh\<rparr>"
  let ?small = "msg_role m = System \<or> count_tokens T (msg_content m) \<le> MIN_KEPT_CONTENT_TOKENS"
  obtain a1 t1 where p1: "pass2 T img limit ms tot = (a1, t1)" by fastforce
  obtain a2 t2 where p2: "pass2 T img limit ms (tot - c + message_tokens T img ?m1) = (a2, t2)" by fastforce
  have c: "c = message_tokens T img m" "priced T img ms" "tot = base + c + costs_of ms" using "2.prems" by auto
  have i1: "priced T img a1 \<and> t1 = base + c + costs_of a1" if "\<not> tot \<le> limit" "?small"
    using "2.IH"(1)[OF that c(2) c(3) p1] .
  have i2: "priced T img a2 \<and> t2 = base + message_tokens T img ?m1 + costs_of a2"
    if "\<not> tot \<le> limit" "\<not> ?small" "?sh \<noteq> [] \<and> length ?sh < length (msg_content m)"
    by (rule "2.IH"(2)[OF that(1,2) refl refl refl that(3) refl refl c(2) _ p2]) (use c in simp)
  have i3: "priced T img a1 \<and> t1 = base + c + costs_of a1"
    if "\<not> tot \<le> limit" "\<not> ?small" "\<not> (?sh \<noteq> [] \<and> length ?sh < length (msg_content m))"
    using "2.IH"(3)[OF that(1,2) refl refl refl that(3) c(2) c(3) p1] .
  show ?case
  proof (cases "tot \<le> limit \<or> ?small")
    case True
    then show ?thesis using "2.prems"(2,3) c i1 p1 by (auto split: if_splits)
  next
    case False
    then have u: "(cms', tot') =
        (if ?sh \<noteq> [] \<and> length ?sh < length (msg_content m) then ((?m1, message_tokens T img ?m1) # a2, t2)
         else ((m, c) # a1, t1))"
      using "2.prems"(3) p1 p2 by (auto simp: Let_def split: if_splits)
    show ?thesis
    proof (cases "?sh \<noteq> [] \<and> length ?sh < length (msg_content m)")
      case True
      then show ?thesis using u[unfolded if_P[OF True]] i2 False by simp
    next
      case sh: False
      then show ?thesis using u[unfolded if_not_P[OF sh]] i3 False c(1) by simp
    qed
  qed
qed simp

section \<open>The passes keep the shape\<close>

lemma pass3_blocks_concat: "concat (map snd (pass3_blocks h cms)) = drop h cms"
  by (simp add: pass3_blocks_def Let_def concat_blocks min_def)

lemma pass3_blocks_Nil [simp]: "pass3_blocks h cms = [] \<longleftrightarrow> length cms \<le> h"
  by (auto simp: pass3_blocks_def Let_def min_def)

lemma pass3_blocks_chain: "chain (min h (length cms)) (pass3_blocks h cms)"
  by (simp add: pass3_blocks_def Let_def chain_blocks)

lemma pass3_blocks_good:
  assumes "split_ok h (map fst cms)"
  shows "\<forall>b \<in> set (map snd (pass3_blocks h cms)). good_block b"
proof -
  have "exchanges_complete (map fst (drop (min h (length cms)) cms))"
    using assms by (cases "h \<le> length cms") (simp_all add: split_ok_def drop_map min_def)
  then show ?thesis unfolding pass3_blocks_def Let_def using blocks_good by auto
qed

lemma pass3_kept_subset: "set (pass3_kept limit h cms tot) \<subseteq> set (pass3_blocks h cms)"
  unfolding pass3_kept_def Let_def by (rule drop_blocks_subset)

lemma pass3_kept_all:
  "length (pass3_kept limit h cms tot) \<ge> length (pass3_blocks h cms) \<Longrightarrow>
   pass3_kept limit h cms tot = pass3_blocks h cms"
  unfolding pass3_kept_def Let_def by (intro drop_blocks_all antisym drop_blocks_length)

lemma pass3_kept_good:
  "split_ok h (map fst cms) \<Longrightarrow> \<forall>b \<in> set (map snd (pass3_kept limit h cms tot)). good_block b"
  using pass3_blocks_good[of h cms] pass3_kept_subset[of limit h cms tot] by fastforce

lemma pass3_kept_last:
  "h < length cms \<Longrightarrow>
   pass3_kept limit h cms tot \<noteq> [] \<and> last (pass3_kept limit h cms tot) = last (pass3_blocks h cms)"
  unfolding pass3_kept_def Let_def using drop_blocks_last[of "pass3_blocks h cms"] by simp

lemma last_concat: "xs \<noteq> [] \<Longrightarrow> snd (last xs) \<noteq> [] \<Longrightarrow>
    concat (map snd xs) \<noteq> [] \<and> last (concat (map snd xs)) = last (snd (last xs))"
  by (induction xs rule: rev_induct) auto

lemma pass3_raw:
  fixes limit tot :: nat
  assumes "split_ok h (map fst cms)" "h < length cms"
  defines "raw \<equiv> map fst (take h cms @ concat (map snd (pass3_kept limit h cms tot)))"
  shows "take h raw = take h (map fst cms)" "drop h raw = map fst (concat (map snd (pass3_kept limit h cms tot)))"
    "split_ok h raw" "drop h raw \<noteq> []" "last (drop h raw) = last (drop h (map fst cms))"
proof -
  let ?k = "pass3_kept limit h cms tot"
  show tk: "take h raw = take h (map fst cms)" and dr: "drop h raw = map fst (concat (map snd ?k))"
    using assms(2) by (simp_all add: raw_def take_map)
  have k: "?k \<noteq> []" "last ?k = last (pass3_blocks h cms)" using pass3_kept_last[OF assms(2)] by auto
  have b: "pass3_blocks h cms \<noteq> []" using assms(2) by simp
  have lb: "snd (last (pass3_blocks h cms)) \<noteq> []"
    using pass3_blocks_good[OF assms(1)] b by (auto simp: good_block_def)
  have c: "concat (map snd ?k) \<noteq> []" "last (concat (map snd ?k)) = last (drop h cms)"
    using last_concat[OF k(1)] last_concat[OF b lb] lb unfolding pass3_blocks_concat k(2) by simp_all
  then show "drop h raw \<noteq> []" "last (drop h raw) = last (drop h (map fst cms))"
    using assms(2) unfolding dr by (simp_all add: last_map drop_map)
  show "split_ok h raw"
    using assms(1) good_blocks_concat[OF pass3_kept_good[OF assms(1)], of limit tot]
    unfolding split_ok_def tk dr by blast
qed

lemma pass3_shape:
  assumes "split_ok h (map fst cms)" "lead_ok h (map fst cms)"
  shows "split_ok h (pass3 limit h cms tot) \<and> lead_ok h (pass3 limit h cms tot) \<and>
    take h (pass3 limit h cms tot) = take h (map fst cms) \<and>
    (drop h cms \<noteq> [] \<longrightarrow> drop h (pass3 limit h cms tot) \<noteq> [] \<and>
       last (drop h (pass3 limit h cms tot)) = last (drop h (map fst cms)))"
proof (cases "tot > limit \<and> length (pass3_kept limit h cms tot) < length (pass3_blocks h cms)")
  case True
  then have "pass3_blocks h cms \<noteq> []" by force
  then have h: "h < length cms" by simp
  let ?raw = "map fst (take h cms @ concat (map snd (pass3_kept limit h cms tot)))"
  have r: "pass3 limit h cms tot = normalize_leading ?raw h" using True by (simp add: pass3_def Let_def)
  show ?thesis unfolding r
    using pass3_raw[OF assms(1) h, of limit tot] normalize_leading_ok normalize_leading_lead
      normalize_leading_take[of h ?raw] normalize_leading_last[of h ?raw] by metis
next
  case False
  then have "pass3 limit h cms tot = map fst cms" by (auto simp: pass3_def Let_def)
  then show ?thesis using assms by (simp add: drop_map)
qed

lemma sum_dropWhile_le: "sum_list (map f (dropWhile P xs)) \<le> (sum_list (map f xs) :: nat)"
  by (induction xs) auto

lemma normalize_leading_sum: "sum_list (map f (normalize_leading ms h)) \<le> (sum_list (map f ms) :: nat)"
proof -
  have "sum_list (map f ms) = sum_list (map f (take h ms)) + sum_list (map f (drop h ms))"
    by (metis append_take_drop_id map_append sum_list_append)
  then show ?thesis using sum_dropWhile_le[of f "\<lambda>m. \<not> is_user m" "drop h ms"]
    by (simp add: normalize_leading_split)
qed

lemma filter_dropWhile_le: "length (filter Q (dropWhile P xs)) \<le> length (filter Q xs)"
  by (induction xs) auto

lemma normalize_leading_count:
  "length (filter Q (drop h (normalize_leading ms h))) \<le> length (filter Q (drop h ms))"
  by (simp add: normalize_leading_drop filter_dropWhile_le)

lemma filter_dropWhile_same: "filter P (dropWhile (\<lambda>x. \<not> P x) xs) = filter P xs"
  by (induction xs) auto

lemma normalize_leading_users: "filter is_user (drop h (normalize_leading ms h)) = filter is_user (drop h ms)"
  by (simp add: normalize_leading_drop filter_dropWhile_same)

lemma good_block_count: "good_block b \<Longrightarrow> length (filter (\<lambda>m. \<not> is_tool m) (map fst b)) \<le> 1"
  by (cases b) (auto simp: good_block_def filter_empty_conv)

lemma good_blocks_count:
  "\<forall>b \<in> set bs. good_block b \<Longrightarrow> length (filter (\<lambda>m. \<not> is_tool m) (map fst (concat bs))) \<le> length bs"
  by (induction bs) (use good_block_count in \<open>fastforce+\<close>)

text \<open>What the dropping pass leaves: a window within the limit or at most two blocks behind the fixed
  head, with the last user turn in it.\<close>

lemma costs_split: "costs_of cms = costs_of (take h cms) + costs_of (drop h cms)"
  by (metis append_take_drop_id map_append sum_list_append)

lemma pass3_kept_total:
  assumes "h < length cms" "tot = costs_of cms"
  shows "costs_of (take h cms @ concat (map snd (pass3_kept limit h cms tot))) \<le> limit \<or>
    length (pass3_kept limit h cms tot) \<le> 2"
proof -
  let ?bs = "pass3_blocks h cms" and ?u = "rposition is_user (map fst cms)"
  have ne: "?bs \<noteq> []" using assms(1) by simp
  have tot: "tot = costs_of (take h cms) + sum_list (map snd (concat (map snd ?bs)))"
    unfolding pass3_blocks_concat assms(2) by (rule costs_split)
  have k: "pass3_kept limit h cms tot = drop_blocks limit ?u (Some (fst (last ?bs))) tot ?bs"
    using ne by (simp add: pass3_kept_def Let_def)
  have "chain (min h (length cms)) (butlast ?bs @ [last ?bs])"
    unfolding append_butlast_last_id[OF ne] by (rule pass3_blocks_chain)
  from chain_holds_once[OF chain_prefix[OF this], of ?u]
  show ?thesis
    using drop_blocks_total[OF pass3_blocks_chain ne refl tot, of limit ?u] unfolding k by auto
qed

lemma pass3_bound:
  assumes "split_ok h (map fst cms)" "priced T img cms" "tot = costs_of cms"
  shows "sum_list (map (message_tokens T img) (pass3 limit h cms tot)) \<le> limit \<or>
    length (filter (\<lambda>m. \<not> is_tool m) (drop h (pass3 limit h cms tot))) \<le> 2"
proof (cases "tot \<le> limit \<or> length cms \<le> h")
  case True
  then have "tot \<le> limit \<or> length (pass3_blocks h cms) = 0" by simp
  then have "pass3 limit h cms tot = map fst cms" by (auto simp: pass3_def Let_def simp del: length_0_conv)
  then show ?thesis using True priced_sum[OF assms(2)] assms(3) by auto
next
  case False
  let ?k = "pass3_kept limit h cms tot"
  let ?raw = "map fst (take h cms @ concat (map snd ?k))"
  have h: "h < length cms" and big: "tot > limit" using False by auto
  have r: "pass3 limit h cms tot = normalize_leading ?raw h \<or> (pass3 limit h cms tot = ?raw \<and> ?k = pass3_blocks h cms)"
    using pass3_kept_all[of h cms limit tot] pass3_blocks_concat[of h cms] big
    by (auto simp: pass3_def Let_def not_less simp flip: map_append)
  have "set (concat (map snd ?k)) \<subseteq> set (concat (map snd (pass3_blocks h cms)))"
    using pass3_kept_subset[of limit h cms tot] by auto
  then have "set (take h cms @ concat (map snd ?k)) \<subseteq> set cms"
    unfolding pass3_blocks_concat set_append using set_take_subset[of h cms] set_drop_subset[of h cms] by blast
  then have "priced T img (take h cms @ concat (map snd ?k))" using assms(2) by (auto simp: priced_def)
  then have sum: "sum_list (map (message_tokens T img) ?raw) = costs_of (take h cms @ concat (map snd ?k))"
    by (rule priced_sum)
  have cnt: "length (filter (\<lambda>m. \<not> is_tool m) (drop h ?raw)) \<le> length ?k"
    unfolding pass3_raw(2)[OF assms(1) h] using good_blocks_count[OF pass3_kept_good[OF assms(1)], of limit tot] by simp
  have "sum_list (map (message_tokens T img) (pass3 limit h cms tot)) \<le> sum_list (map (message_tokens T img) ?raw) \<and>
      length (filter (\<lambda>m. \<not> is_tool m) (drop h (pass3 limit h cms tot))) \<le> length (filter (\<lambda>m. \<not> is_tool m) (drop h ?raw))"
    using r normalize_leading_sum[of "message_tokens T img" ?raw h] normalize_leading_count[of "\<lambda>m. \<not> is_tool m" h ?raw]
    by (metis order.refl)
  then show ?thesis using pass3_kept_total[OF h assms(3), of limit] sum cnt by linarith
qed

lemma last_skel: "map skel xs = map skel ys \<Longrightarrow> xs \<noteq> [] \<Longrightarrow> ys \<noteq> [] \<and> skel (last xs) = skel (last ys)"
  by (metis last_map map_is_Nil_conv)

lemma enforce_cases:
  obtains cms tot where
    "enforce_token_budget T ms limit h img =
       (if sum_list (map (message_tokens T img) (normalize_leading ms h)) \<le> limit then normalize_leading ms h
        else pass3 limit h cms tot)"
    "map skel (map fst cms) = map skel (normalize_leading ms h)" "priced T img cms" "tot = costs_of cms"
proof -
  define ms0 where "ms0 = normalize_leading ms h"
  define cms where "cms = map (\<lambda>m. (m, message_tokens T img m)) ms0"
  obtain c1 t1 where p1: "pass1 T img limit (rposition is_tool ms0) 0 cms (costs_of cms) = (c1, t1)" by fastforce
  obtain c2 t2 where p2: "pass2 T img limit c1 t1 = (c2, t2)" by fastforce
  have pr: "priced T img cms" by (simp add: priced_def cms_def)
  have b1: "priced T img c1 \<and> t1 = costs_of c1" using pass1_books[OF pr _ p1, of 0] by simp
  then have b2: "priced T img c2" "t2 = costs_of c2" using pass2_books[OF _ _ p2, of 0] by simp_all
  have s: "map skel (map fst c2) = map skel (normalize_leading ms h)"
    using pass1_skel[of T img limit "rposition is_tool ms0" 0 cms "costs_of cms"]
      pass2_skel[of T img limit c1 t1] p1 p2 by (simp add: cms_def comp_def ms0_def)
  have "map fst cms = ms0" by (simp add: cms_def comp_def)
  then have c: "costs_of cms = sum_list (map (message_tokens T img) (normalize_leading ms h))"
    using priced_sum[OF pr] by (simp add: ms0_def)
  have "enforce_token_budget T ms limit h img = (if costs_of cms \<le> limit then ms0 else pass3 limit h c2 t2)"
    unfolding enforce_token_budget_def Let_def ms0_def[symmetric] cms_def[symmetric] p1 prod.case p2 ..
  with s b2 show ?thesis unfolding c by (intro that[of c2 t2]) (simp_all add: ms0_def)
qed

lemma enforce_shape:
  fixes T :: "'v token_env" and limit img :: nat
  assumes "split_ok h ms"
  defines "r \<equiv> enforce_token_budget T ms limit h img"
  shows "split_ok h r \<and> lead_ok h r \<and> map skel (take h r) = map skel (take h ms) \<and>
    (drop h ms \<noteq> [] \<longrightarrow> drop h r \<noteq> [] \<and> skel (last (drop h r)) = skel (last (drop h ms)))"
proof -
  let ?m0 = "normalize_leading ms h"
  have n: "split_ok h ?m0" "lead_ok h ?m0" "take h ?m0 = take h ms"
    "drop h ms \<noteq> [] \<Longrightarrow> drop h ?m0 \<noteq> [] \<and> last (drop h ?m0) = last (drop h ms)"
    using assms(1) normalize_leading_ok normalize_leading_lead normalize_leading_take
      normalize_leading_last[of h ms] by auto
  obtain c2 t2 where r: "r = (if sum_list (map (message_tokens T img) ?m0) \<le> limit then ?m0 else pass3 limit h c2 t2)"
    and s: "map skel (map fst c2) = map skel ?m0"
    unfolding r_def by (rule enforce_cases[of T ms limit h img])
  have th: "map skel (take h (map fst c2)) = map skel (take h ms)"
    using s n(3) by (metis take_map)
  have dh: "map skel (drop h (map fst c2)) = map skel (drop h ?m0)" using s by (metis drop_map)
  have "drop h c2 \<noteq> [] \<and> skel (last (drop h (map fst c2))) = skel (last (drop h ms))" if "drop h ms \<noteq> []"
    using last_skel[OF dh[symmetric]] n(4)[OF that] by (auto simp: drop_map)
  moreover have "split_ok h (map fst c2)" "lead_ok h (map fst c2)"
    using n split_ok_skel[OF s] lead_ok_skel[OF s] by auto
  ultimately show ?thesis using n th pass3_shape[of h c2 limit t2] unfolding r by (auto simp: drop_map)
qed

lemma enforce_bound:
  fixes T :: "'v token_env" and limit img :: nat
  assumes "split_ok h ms"
  defines "r \<equiv> enforce_token_budget T ms limit h img"
  shows "sum_list (map (message_tokens T img) r) \<le> limit \<or> length (filter (\<lambda>m. \<not> is_tool m) (drop h r)) \<le> 2"
proof -
  let ?m0 = "normalize_leading ms h"
  obtain c2 t2 where r: "r = (if sum_list (map (message_tokens T img) ?m0) \<le> limit then ?m0 else pass3 limit h c2 t2)"
    and s: "map skel (map fst c2) = map skel ?m0" "priced T img c2" "t2 = costs_of c2"
    unfolding r_def by (rule enforce_cases[of T ms limit h img])
  have "split_ok h (map fst c2)" using split_ok_skel[OF s(1), of h] normalize_leading_ok[OF assms(1)] by simp
  from pass3_bound[OF this s(2,3), of limit] show ?thesis unfolding r by auto
qed

section \<open>Cutting the window\<close>

lemma adjust_tool_boundary_stop:
  "adjust_tool_boundary ms i < length ms \<Longrightarrow> \<not> is_tool (ms ! adjust_tool_boundary ms i)"
proof (induction ms i rule: adjust_tool_boundary.induct)
  case (1 ms i)
  then show ?case by (cases "i < length ms \<and> is_tool (ms ! i)") (auto simp: adjust_tool_boundary.simps[of ms i])
qed

lemma rposition_Some:
  assumes "rposition P xs = Some j"
  shows "j < length xs \<and> P (xs ! j)"
proof -
  let ?t = "takeWhile (\<lambda>x. \<not> P x) (rev xs)"
  have e: "list_ex P (rev xs)" and j: "j = length xs - 1 - length ?t"
    using assms by (auto simp: rposition_def list_ex_iff split: if_splits)
  have l: "length ?t < length (rev xs)" using length_takeWhile_ex[OF e, of "[]"] by simp
  have "P (rev xs ! length ?t)" using nth_length_takeWhile[of "\<lambda>x. \<not> P x" "rev xs"] l by simp
  then show ?thesis using l j by (simp add: rev_nth)
qed

lemma kept_window_start_stop:
  "kept_window_start ms s < length ms \<Longrightarrow> \<not> is_tool (ms ! kept_window_start ms s)"
  using adjust_tool_boundary_stop[of ms s] rposition_Some[of is_user ms]
  by (auto simp: kept_window_start_def Let_def min_def split: option.splits if_splits)

lemma complete_next:
  assumes "exchanges_complete ms" "\<not> is_tool (ms ! i)" "msg_tool_calls (ms ! i) = []" "Suc i < length ms"
  shows "\<not> is_tool (ms ! Suc i)"
proof -
  have "exchanges_complete (drop i ms)" using complete_cut[of ms i] assms by auto
  moreover have "drop i ms = ms ! i # ms ! Suc i # drop (Suc (Suc i)) ms"
    using assms(4) by (metis Cons_nth_drop_Suc Suc_lessD)
  ultimately show ?thesis using assms(2,3) by (auto simp: exchanges_complete_def split: option.splits)
qed

lemma owner_index_run:
  "owner_index ms n \<le> n \<and> (\<forall>k. owner_index ms n < k \<and> k \<le> n \<longrightarrow> is_tool (ms ! k)) \<and>
   (owner_index ms n = 0 \<or> \<not> is_tool (ms ! owner_index ms n))"
  by (induction ms n rule: owner_index.induct) (auto simp: le_Suc_eq)

lemma complete_first: "exchanges_complete ms \<Longrightarrow> ms \<noteq> [] \<Longrightarrow> \<not> is_tool (ms ! 0)"
  by (cases ms) (auto simp: exchanges_complete_def split: option.splits)

lemma exchange_edge_stop:
  assumes "exchanges_complete ms" "0 < h" "exchange_edge ms h < length ms"
  shows "\<not> is_tool (ms ! exchange_edge ms h)"
proof (cases "h > length ms \<or> msg_tool_calls (ms ! owner_index ms (h - 1)) \<noteq> []")
  case True
  then show ?thesis using assms adjust_tool_boundary_stop[of ms h] by (auto simp: exchange_edge_def Let_def split: if_splits)
next
  case False
  let ?o = "owner_index ms (h - 1)"
  have e: "exchange_edge ms h = h" using False by (simp add: exchange_edge_def Let_def)
  have o: "?o \<le> h - 1" "\<And>k. ?o < k \<Longrightarrow> k \<le> h - 1 \<Longrightarrow> is_tool (ms ! k)" "?o = 0 \<or> \<not> is_tool (ms ! ?o)"
    using owner_index_run[of ms "h - 1"] by auto
  have n: "\<not> is_tool (ms ! ?o)" using o(3) complete_first[OF assms(1)] assms(3) by (metis length_0_conv not_less_zero)
  have nx: "\<not> is_tool (ms ! Suc ?o)" by (rule complete_next[OF assms(1) n]) (use False o(1) assms e in auto)
  then have "?o = h - 1" using o(1) o(2)[of "Suc ?o"] by (metis Suc_leI lessI le_neq_implies_less)
  then show ?thesis using nx assms(2) e by simp
qed

lemma sliding_head_split:
  assumes "exchanges_complete ms" "ms \<noteq> []"
  shows "split_ok (sliding_head_end w ms) ms"
proof -
  let ?h = "sliding_head_end w ms"
  have "\<not> is_tool (ms ! ?h)" if l: "?h < length ms"
  proof (cases "sw_pinned_prefix w = 0")
    case True
    have 0: "msg_role (ms ! 0) = System \<Longrightarrow> msg_tool_calls (ms ! 0) = []"
      using assms by (cases ms) (auto simp: exchanges_complete_def split: if_splits)
    have "hd ms = ms ! 0" using assms(2) by (rule hd_conv_nth)
    then show ?thesis
      using True l 0 complete_first[OF assms] complete_next[OF assms(1), of 0]
      by (auto simp: sliding_head_end_def Let_def min_def split: if_splits)
  next
    case False
    define k where "k = min ((if msg_role (hd ms) = System then 1 else 0) + sw_pinned_prefix w) (length ms)"
    have "?h = exchange_edge ms k" "0 < k" using False assms(2) by (auto simp: sliding_head_end_def Let_def k_def)
    then show ?thesis using exchange_edge_stop[OF assms(1), of k] l by simp
  qed
  then show ?thesis using complete_cut[OF assms(1), of ?h] by (simp add: split_ok_def)
qed

lemma kept_window_split:
  fixes s :: nat
  assumes "split_ok h ms"
  defines "win \<equiv> take h ms @ drop (kept_window_start (drop h ms) s) (drop h ms)"
  shows "split_ok h win" "take h win = take h ms" "drop h win = drop (kept_window_start (drop h ms) s) (drop h ms)"
proof -
  let ?k = "kept_window_start (drop h ms) s"
  show t: "take h win = take h ms" and d: "drop h win = drop ?k (drop h ms)"
    by (cases "h \<le> length ms"; simp add: win_def)+
  have "exchanges_complete (drop ?k (drop h ms))"
    using complete_cut[of "drop h ms" ?k] kept_window_start_stop[of "drop h ms" s] assms(1) by (auto simp: split_ok_def)
  then show "split_ok h win" unfolding split_ok_def t d using assms(1) by (simp add: split_ok_def)
qed

lemma rposition_none: "rposition P xs = None \<longleftrightarrow> \<not> list_ex P xs"
  by (simp add: rposition_def)

lemma rposition_last: "rposition P xs = Some j \<Longrightarrow> k \<le> j \<Longrightarrow> last (filter P (drop k xs)) = last (filter P xs) \<and> filter P (drop k xs) \<noteq> []"
proof -
  assume j: "rposition P xs = Some j" and k: "k \<le> j"
  have p: "j < length xs" "P (xs ! j)" using rposition_Some[OF j] by auto
  have "drop k xs ! (j - k) = xs ! j" "j - k < length (drop k xs)" using k p(1) by auto
  then have "xs ! j \<in> set (drop k xs)" using nth_mem[of "j - k" "drop k xs"] by simp
  then have "filter P (drop k xs) \<noteq> []" using p(2) by (auto simp: filter_empty_conv)
  moreover have "filter P xs = filter P (take k xs) @ filter P (drop k xs)" by (metis append_take_drop_id filter_append)
  ultimately show ?thesis by simp
qed

lemma kept_window_users:
  assumes "list_ex is_user ms"
  shows "filter is_user (drop (kept_window_start ms s) ms) \<noteq> [] \<and>
    last (filter is_user (drop (kept_window_start ms s) ms)) = last (filter is_user ms)"
proof -
  obtain j where j: "rposition is_user ms = Some j" using assms rposition_none[of is_user ms] by auto
  then have "kept_window_start ms s \<le> j" by (simp add: kept_window_start_def Let_def)
  then show ?thesis using rposition_last[OF j] by blast
qed

lemma pass3_last_user:
  assumes "split_ok h (map fst cms)" "users (drop h cms) \<noteq> []"
  shows "filter is_user (drop h (pass3 limit h cms tot)) \<noteq> [] \<and>
    last (filter is_user (drop h (pass3 limit h cms tot))) = last (users (drop h cms))"
proof (cases "tot > limit \<and> length (pass3_kept limit h cms tot) < length (pass3_blocks h cms)")
  case True
  have h: "h < length cms" using assms(2) by (metis drop_all filter.simps(1) list.simps(8) not_le_imp_less)
  let ?raw = "map fst (take h cms @ concat (map snd (pass3_kept limit h cms tot)))"
  let ?f = "if pass3_blocks h cms = [] then None else Some (fst (last (pass3_blocks h cms)))"
  have r: "pass3 limit h cms tot = normalize_leading ?raw h" using True by (simp add: pass3_def Let_def)
  have bs: "pass3_blocks h cms = blocks_from h (drop h cms)" using h by (simp add: pass3_blocks_def Let_def)
  have "block_users (pass3_kept limit h cms tot) \<noteq> [] \<and>
      last (block_users (pass3_kept limit h cms tot)) = last (block_users (pass3_blocks h cms))"
    unfolding pass3_kept_def Let_def
  proof (rule drop_blocks_last_user)
    fix pre b post
    assume a: "pass3_blocks h cms = pre @ b # post" "block_users post = []" "users (snd b) \<noteq> []"
    show "block_holds (rposition is_user (map fst cms)) b"
      using last_user_block[OF a(1)[unfolded bs] _ a(2,3)] h by simp
  qed (use assms(2) in \<open>simp only: pass3_blocks_concat\<close>, simp)
  then show ?thesis unfolding r normalize_leading_users pass3_raw(2)[OF assms(1) h] pass3_blocks_concat .
next
  case False
  then have "pass3 limit h cms tot = map fst cms" by (auto simp: pass3_def Let_def)
  then show ?thesis using assms(2) by (simp add: drop_map)
qed

lemma filter_skel: "map skel xs = map skel ys \<Longrightarrow> map skel (filter is_user xs) = map skel (filter is_user ys)"
proof (induction xs arbitrary: ys)
  case (Cons x xs)
  then obtain y ys' where "ys = y # ys'" by (cases ys) auto
  then show ?case using Cons skel_eqD[of x y] by auto
qed simp

lemma enforce_last_user:
  fixes T :: "'v token_env" and limit img :: nat
  assumes "split_ok h ms" "list_ex is_user (drop h ms)"
  defines "r \<equiv> enforce_token_budget T ms limit h img"
  shows "filter is_user (drop h r) \<noteq> [] \<and>
    skel (last (filter is_user (drop h r))) = skel (last (filter is_user (drop h ms)))"
proof -
  let ?m0 = "normalize_leading ms h"
  obtain c2 t2 where r: "r = (if sum_list (map (message_tokens T img) ?m0) \<le> limit then ?m0 else pass3 limit h c2 t2)"
    and s: "map skel (map fst c2) = map skel ?m0"
    unfolding r_def by (rule enforce_cases[of T ms limit h img])
  have ne: "filter is_user (drop h ms) \<noteq> []" using assms(2) by (auto simp: filter_empty_conv list_ex_iff)
  have "split_ok h (map fst c2)" using split_ok_skel[OF s, of h] normalize_leading_ok[OF assms(1)] by simp
  moreover have "map skel (filter is_user (drop h (map fst c2))) = map skel (filter is_user (drop h ?m0))"
    by (rule filter_skel) (metis s drop_map)
  then have u: "users (drop h c2) \<noteq> [] \<and> skel (last (users (drop h c2))) = skel (last (filter is_user (drop h ms)))"
    using last_skel[of "filter is_user (drop h ?m0)" "users (drop h c2)"] ne
    unfolding normalize_leading_users by (simp add: drop_map)
  ultimately show ?thesis
    using pass3_last_user[of h c2 limit t2] ne unfolding r by (auto simp: normalize_leading_users)
qed

lemma adjust_tool_boundary_ge: "i \<le> adjust_tool_boundary ms i"
proof (induction ms i rule: adjust_tool_boundary.induct)
  case (1 ms i)
  then show ?case by (subst adjust_tool_boundary.simps) auto
qed

lemma sliding_head_end_ge:
  "min ((if msg_role (hd ms) = System then 1 else 0) + sw_pinned_prefix w) (length ms) \<le> sliding_head_end w ms"
  using adjust_tool_boundary_ge by (auto simp: sliding_head_end_def exchange_edge_def Let_def)

lemma sliding_compact_window:
  assumes "ms \<noteq> []"
  obtains s where "sliding_compact T w ms limit =
    enforce_token_budget T
      (take (sliding_head_end w ms) ms @
       drop (kept_window_start (drop (sliding_head_end w ms) ms) s) (drop (sliding_head_end w ms) ms))
      limit (sliding_head_end w ms) (sw_image_tokens w)"
  using assms that by (simp add: sliding_compact_def Let_def)

lemma mask_message_skel:
  assumes "\<forall>i \<in> old. i < length ms \<and> is_tool (ms ! i)" "i < length ms"
  shows "skel (mask_message old (i, ms ! i)) = skel (ms ! i)"
  using assms by (cases "ms ! i") (auto simp: mask_message_def skel_def)

lemma mask_old_skel: "map skel (mask_old keep ms) = map skel ms"
proof -
  let ?ix = "map fst (filter (\<lambda>im. is_tool (snd im)) (List.enumerate 0 ms))"
  let ?old = "set (take (length ?ix - keep) ?ix)"
  have "\<forall>i \<in> set ?ix. i < length ms \<and> is_tool (ms ! i)"
    by (auto simp: in_set_enumerate_eq)
  then have old: "\<forall>i \<in> ?old. i < length ms \<and> is_tool (ms ! i)" by (meson in_set_takeD)
  show ?thesis
  proof (rule nth_equalityI)
    fix i assume "i < length (map skel (mask_old keep ms))"
    then have i: "i < length ms" by (simp add: mask_old_def Let_def)
    then show "map skel (mask_old keep ms) ! i = map skel ms ! i"
      using mask_message_skel[OF old i] by (simp add: mask_old_def Let_def nth_enumerate_eq)
  qed (simp add: mask_old_def Let_def)
qed

lemma masking_head_split:
  assumes "exchanges_complete ms" "ms \<noteq> []"
  shows "split_ok (if msg_role (hd ms) = System then 1 else 0) ms"
  using sliding_head_split[OF assms, of sliding_new] assms(2)
  by (cases ms) (auto simp: sliding_head_end_def Let_def sliding_new_def with_pinned_prefix_def split: if_splits)

lemma masking_compact_window:
  fixes s :: observation_masking and ms :: "'v message list"
  assumes "ms \<noteq> []"
  defines "mk \<equiv> mask_old (om_keep_recent_tool_results s) ms"
  defines "h \<equiv> (if msg_role (hd mk) = System then 1 else 0)"
  obtains "masking_compact T s ms limit = mk"
  | k where "masking_compact T s ms limit =
      enforce_token_budget T (take h mk @ drop (kept_window_start (drop h mk) k) (drop h mk)) limit h (om_image_tokens s)"
proof -
  have "length mk = length ms" using arg_cong[OF mask_old_skel, of length "om_keep_recent_tool_results s" ms] by (simp add: mk_def)
  then obtain x xs where mk: "mk = x # xs" using assms(1) by (cases mk) auto
  show thesis
  proof (cases "sum_list (map (message_tokens T (om_image_tokens s)) mk) \<le> limit")
    case True
    then show thesis using that(1) assms(1) by (simp add: masking_compact_def Let_def mk_def[symmetric])
  next
    case False
    let ?left = "if msg_role x = System then limit - message_tokens T (om_image_tokens s) x else limit"
    let ?k = "tail_walk T (om_image_tokens s) (drop h mk) (length (drop h mk)) ?left (length (drop h mk))"
    have "masking_compact T s ms limit =
        enforce_token_budget T (take h mk @ drop (kept_window_start (drop h mk) ?k) (drop h mk)) limit h (om_image_tokens s)"
      using False assms(1) unfolding masking_compact_def Let_def mk_def[symmetric]
      by (cases "msg_role x = System") (simp_all add: mk h_def)
    then show thesis by (rule that(2))
  qed
qed

section \<open>A transcript to evaluate on\<close>

definition byte_env :: "string token_env" where
  "byte_env = \<lparr>te_encode = map of_char, te_decode = (\<lambda>ts. Some (map char_of ts)), te_show_json = (\<lambda>v. v),
     te_json_type = (\<lambda>v. None)\<rparr>"

definition plain_message :: "role \<Rightarrow> string \<Rightarrow> string message" where
  "plain_message r c = \<lparr>msg_role = r, msg_content = c, msg_tool_calls = [], msg_tool_call_id = None, msg_provider_content = []\<rparr>"

definition demo_transcript :: "string message list" where
  "demo_transcript =
     [plain_message System ''sys'', plain_message User ''one'',
      (plain_message Assistant ''call'')\<lparr>msg_tool_calls := [\<lparr>tc_id = ''a'', tc_name = ''ls'', tc_arguments = ''{}''\<rparr>]\<rparr>,
      (plain_message Tool ''out'')\<lparr>msg_tool_call_id := Some ''a''\<rparr>,
      plain_message User ''two'', plain_message Assistant ''done'']"

lemma demo_complete: "exchanges_complete demo_transcript"
  by (simp add: exchanges_complete_def demo_transcript_def plain_message_def)

section \<open>Guarantees\<close>

lemma compact_complete:
  assumes "exchanges_complete ms"
  shows "exchanges_complete (sliding_compact T w ms limit) \<and> exchanges_complete (masking_compact T s ms limit)"
proof (cases "ms = []")
  case True
  then show ?thesis by (simp add: sliding_compact_def masking_compact_def)
next
  case False
  let ?mk = "mask_old (om_keep_recent_tool_results s) ms"
  have mk: "exchanges_complete ?mk" "?mk \<noteq> []"
    using assms False exch_skel[OF mask_old_skel, of "[]" "om_keep_recent_tool_results s" ms]
      mask_old_skel[of "om_keep_recent_tool_results s" ms]
    by (auto simp: exchanges_complete_def)
  have "exchanges_complete (sliding_compact T w ms limit)"
    using sliding_compact_window[OF False, of T w limit] enforce_shape
      kept_window_split(1)[OF sliding_head_split[OF assms False]] split_ok_whole by metis
  moreover have "exchanges_complete (masking_compact T s ms limit)"
  proof (rule masking_compact_window[OF False, of T s limit])
    fix k let ?h = "if msg_role (hd ?mk) = System then 1 else (0::nat)"
    assume "masking_compact T s ms limit = enforce_token_budget T
      (take ?h ?mk @ drop (kept_window_start (drop ?h ?mk) k) (drop ?h ?mk)) limit ?h (om_image_tokens s)"
    then show ?thesis
      using split_ok_whole enforce_shape[OF kept_window_split(1)[OF masking_head_split[OF mk]]] by metis
  qed (use mk in simp)
  ultimately show ?thesis ..
qed

text \<open>What the agent loop relies on in a strategy, and that both strategies provide it.\<close>

locale compaction =
  fixes compact :: "'v message list \<Rightarrow> u64 \<Rightarrow> 'v message list"
  assumes compact_complete: "exchanges_complete ms \<Longrightarrow> exchanges_complete (compact ms limit)"

interpretation sliding: compaction "\<lambda>ms limit. sliding_compact T w ms (unat limit)" for T w
  by unfold_locales (use compact_complete in blast)

interpretation masking: compaction "\<lambda>ms limit. masking_compact T s ms (unat limit)" for T s
  by unfold_locales (use compact_complete in blast)

text \<open>
  C19: Compaction never breaks a tool exchange.  When in the transcript every tool result answers a
  pending call and every call is answered before the next turn, the same holds of the window that the
  sliding-window strategy returns and of the one observation masking returns, for every token limit,
  pinned prefix and tokenizer.
\<close>

theorem compact_keeps_exchanges_complete:
  assumes "exchanges_complete ms"
  shows "exchanges_complete (sliding_compact T w ms limit) \<and> exchanges_complete (masking_compact T s ms limit)"
  by (rule compact_complete[OF assms])

theorem compact_keeps_exchanges_complete_witness:
  "exchanges_complete (sliding_compact byte_env sliding_new demo_transcript 12) \<and>
   exchanges_complete (masking_compact byte_env (masking_new 0) demo_transcript 12)"
  by (rule compact_keeps_exchanges_complete[OF demo_complete])





end
