(* ===== verification/Shell_Parser.thy ===== *)
theory Shell_Parser
  imports Std_Text "HOL-Library.While_Combinator"
begin

text \<open>
  The command-line parser of the virtual shell (\<^verbatim>\<open>simulacra-shell/src/parser.rs\<close>, \<^verbatim>\<open>heredoc.rs\<close>).
  The source walks a vector of characters with an index; here the state holds the suffix not yet read.
  Every character the tokenizer looks for is ASCII, so bytes stand for characters.  The main loop may
  run forever, so it is \<^const>\<open>while_option\<close>: \<^const>\<open>None\<close> is a call that does not return.
\<close>

section \<open>Syntax\<close>

datatype connector = ConnAnd | ConnOr | ConnSemicolon

datatype redirect_stream = StrStdout | StrStderr | StrBoth

datatype redirect_target = ToFile string bool | ToStdout | ToStderr

datatype redirect_kind = Truncate | Append

record redirect =
  rd_stream :: redirect_stream
  rd_kind :: redirect_kind
  rd_target :: redirect_target

record command =
  cmd_program :: string
  cmd_args :: "string list"
  cmd_redirects :: "redirect list"
  cmd_heredoc :: "string option"
  cmd_program_literal :: bool
  cmd_literal_args :: "bool list"

type_synonym shell_pipeline = "command list"

record shell_item =
  si_pipeline :: shell_pipeline
  si_connector :: "connector option"

type_synonym shell_line = "shell_item list"

datatype token =
    TWord string | TSingleQuoted string | TPipe | TAnd | TOr | TSemicolon
  | TRedirectTruncate redirect_stream | TRedirectAppend redirect_stream
  | TRedirectToStream redirect_stream redirect_target
  | THereDoc string

section \<open>Characters\<close>

abbreviation newline :: char where "newline \<equiv> CHR 0x0A"

abbreviation backslash :: char where "backslash \<equiv> CHR 0x5C"

abbreviation squote :: char where "squote \<equiv> CHR 0x27"

abbreviation dquote :: char where "dquote \<equiv> CHR 0x22"

definition is_ascii_whitespace :: "char \<Rightarrow> bool" where
  "is_ascii_whitespace c \<longleftrightarrow> c \<in> {CHR 0x20, CHR 0x09, CHR 0x0A, CHR 0x0C, CHR 0x0D}"

definition is_ascii_digit :: "char \<Rightarrow> bool" where
  "is_ascii_digit c \<longleftrightarrow> CHR ''0'' \<le> c \<and> c \<le> CHR ''9''"

definition is_word_stop :: "char \<Rightarrow> bool" where
  "is_word_stop c \<longleftrightarrow> c \<in> {CHR ''|'', CHR ''>'', CHR ''<'', CHR ''&'', CHR '';''}"

section \<open>Here-documents\<close>

definition read_delimiter :: "string \<Rightarrow> string \<times> string" where
  "read_delimiter r =
     (case r of
        [] \<Rightarrow> ([], [])
      | c # cs \<Rightarrow>
          if c = squote \<or> c = dquote
          then (takeWhile (\<lambda>x. x \<noteq> c) cs, drop 1 (dropWhile (\<lambda>x. x \<noteq> c) cs))
          else (takeWhile (\<lambda>x. \<not> is_ascii_whitespace x \<and> \<not> is_word_stop x) r,
                dropWhile (\<lambda>x. \<not> is_ascii_whitespace x \<and> \<not> is_word_stop x) r))"

function consume_body :: "string \<Rightarrow> string \<Rightarrow> string \<times> string" where
  "consume_body r delimiter =
     (if r = [] then ([], [])
      else
        (let line = takeWhile (\<lambda>x. x \<noteq> newline) r;
             after = dropWhile (\<lambda>x. x \<noteq> newline) r;
             has_newline = (after \<noteq> []);
             next = drop 1 after
         in if line = delimiter then ([], next)
            else (let (content, rest) = consume_body next delimiter
                  in (line @ (if has_newline then [newline] else []) @ content, rest))))"
  by pat_completeness auto
termination
proof (relation "measure (\<lambda>(r, d). length r)")
  fix r d line after :: string and h nxt
  assume "r \<noteq> []" "after = dropWhile (\<lambda>x. x \<noteq> newline) r" "nxt = drop 1 after"
  then have "length nxt < length r"
    using length_dropWhile_le[of "\<lambda>x. x \<noteq> newline" r] by (cases r; cases after) auto
  then show "((nxt, d), r, d) \<in> measure (\<lambda>(r, d). length r)" by simp
qed auto

declare consume_body.simps [simp del]

section \<open>Words\<close>

fun read_quoted :: "char \<Rightarrow> string \<Rightarrow> string \<times> string" where
  "read_quoted quote [] = ([], [])"
| "read_quoted quote [c] = (if c = quote then ([], []) else ([c], []))"
| "read_quoted quote (c # d # cs) =
     (if c = quote then ([], d # cs)
      else if quote = dquote \<and> c = backslash \<and> d \<in> {dquote, backslash, CHR ''$'', CHR 0x60}
      then (let (word, rest) = read_quoted quote cs in (d # word, rest))
      else (let (word, rest) = read_quoted quote (d # cs) in (c # word, rest)))"

fun read_subst :: "nat \<Rightarrow> string \<Rightarrow> string \<times> string" where
  "read_subst 0 r = ([], r)"
| "read_subst (Suc d) [] = ([], [])"
| "read_subst (Suc d) (c # cs) =
     (let depth = (if c = CHR ''('' then Suc (Suc d) else if c = CHR '')'' then d else Suc d);
          (inner, rest) = read_subst depth cs
      in (c # inner, rest))"

lemma read_subst_length: "length (snd (read_subst d r)) \<le> length r"
  by (induction d r rule: read_subst.induct) (auto simp: Let_def split: prod.splits)

lemma read_subst_rest: "(inner, rest) = read_subst d r \<Longrightarrow> length rest \<le> length r"
  using read_subst_length[of d r] by (cases "read_subst d r") simp

function read_word :: "string \<Rightarrow> string \<times> string" where
  "read_word r =
     (case r of
        [] \<Rightarrow> ([], [])
      | c # cs \<Rightarrow>
          if is_ascii_whitespace c \<or> is_word_stop c then ([], r)
          else if c = backslash \<and> cs \<noteq> [] \<and> hd cs = newline then ([], tl cs)
          else if c = CHR ''$'' \<and> cs \<noteq> [] \<and> hd cs = CHR ''(''
          then (let (inner, rest) = read_subst 1 (tl cs);
                    (word, rest') = read_word rest
                in (''$('' @ inner @ word, rest'))
          else (let (word, rest) = read_word cs in (c # word, rest)))"
  by pat_completeness auto
termination
  by (relation "measure length") (auto dest!: read_subst_rest)

declare read_word.simps [simp del]

section \<open>The tokenizer\<close>

record tok_state =
  tk_tokens :: "token list"
  tk_rest :: string
  tk_pending :: "(string \<times> nat) list"

definition push_token :: "tok_state \<Rightarrow> token \<Rightarrow> string \<Rightarrow> tok_state" where
  "push_token s t r = s\<lparr>tk_tokens := tk_tokens s @ [t], tk_rest := r\<rparr>"

fun drain_heredocs :: "(string \<times> nat) list \<Rightarrow> token list \<Rightarrow> string \<Rightarrow> token list \<times> string" where
  "drain_heredocs [] toks r = (toks, r)"
| "drain_heredocs ((delimiter, idx) # specs) toks r =
     (let (content, r') = consume_body r delimiter
      in drain_heredocs specs (toks[idx := THereDoc content]) r')"

definition peek :: "string \<Rightarrow> nat \<Rightarrow> char option" where
  "peek r k = (if k < length r then Some (r ! k) else None)"

definition is_fd_word_char :: "char \<Rightarrow> bool" where
  "is_fd_word_char c \<longleftrightarrow> \<not> is_ascii_whitespace c \<and> c \<notin> {CHR ''|'', CHR ''&'', CHR '';''}"

definition fd_redirect :: "tok_state \<Rightarrow> string \<Rightarrow> tok_state" where
  "fd_redirect s r =
     (let stream = (if hd r = CHR ''2'' then StrStderr else StrStdout)
      in if peek r 2 = Some CHR ''&'' \<and> (peek r 3 = Some CHR ''1'' \<or> peek r 3 = Some CHR ''2'')
         then push_token s (TRedirectToStream stream (if peek r 3 = Some CHR ''1'' then ToStdout else ToStderr)) (drop 4 r)
         else if peek r 2 = Some CHR ''>'' then push_token s (TRedirectAppend stream) (drop 3 r)
         else push_token s (TRedirectTruncate stream) (drop 2 r))"

definition open_heredoc :: "tok_state \<Rightarrow> string \<Rightarrow> tok_state" where
  "open_heredoc s r =
     (let r1 = drop 2 r;
          r2 = (if r1 \<noteq> [] \<and> hd r1 = CHR ''-'' then tl r1 else r1);
          r3 = dropWhile (\<lambda>x. x = CHR 0x20 \<or> x = CHR 0x09) r2;
          (delimiter, next) = read_delimiter r3
      in if delimiter \<noteq> []
         then s\<lparr>tk_tokens := tk_tokens s @ [THereDoc []], tk_rest := next,
                tk_pending := tk_pending s @ [(delimiter, length (tk_tokens s))]\<rparr>
         else s\<lparr>tk_rest := next\<rparr>)"

definition operator_token :: "string \<Rightarrow> (token \<times> nat) option" where
  "operator_token r =
     (let c = hd r; d = peek r 1
      in if c = CHR ''&'' \<and> d = Some CHR ''>'' \<and> peek r 2 = Some CHR ''>'' then Some (TRedirectAppend StrBoth, 3)
         else if c = CHR ''&'' \<and> d = Some CHR ''>'' then Some (TRedirectTruncate StrBoth, 2)
         else if c = CHR ''&'' \<and> d = Some CHR ''&'' then Some (TAnd, 2)
         else if c = CHR ''|'' \<and> d = Some CHR ''|'' then Some (TOr, 2)
         else if c = CHR ''>'' \<and> d = Some CHR ''>'' then Some (TRedirectAppend StrStdout, 2)
         else if c = CHR ''|'' then Some (TPipe, 1)
         else if c = CHR ''>'' then Some (TRedirectTruncate StrStdout, 1)
         else if c = CHR ''&'' then Some (TAnd, 1)
         else if c = CHR '';'' then Some (TSemicolon, 1)
         else None)"

text \<open>One round of the main loop, on a state with input left.\<close>

definition tok_step :: "tok_state \<Rightarrow> tok_state" where
  "tok_step s =
     (let r = tk_rest s; c = hd r
      in if c = backslash \<and> peek r 1 = Some newline then s\<lparr>tk_rest := drop 2 r\<rparr>
         else if c = newline then
           (if tk_pending s \<noteq> []
            then (let (toks, r') = drain_heredocs (tk_pending s) (tk_tokens s) (drop 1 r)
                  in \<lparr>tk_tokens = toks @ [TSemicolon], tk_rest = r', tk_pending = []\<rparr>)
            else push_token s TSemicolon (drop 1 r))
         else if is_ascii_whitespace c then s\<lparr>tk_rest := drop 1 r\<rparr>
         else if (c = CHR ''1'' \<or> c = CHR ''2'') \<and> peek r 1 = Some CHR ''>'' then fd_redirect s r
         else if is_ascii_digit c \<and> peek r 1 = Some CHR ''>''
         then push_token s (TWord (takeWhile is_fd_word_char r)) (dropWhile is_fd_word_char r)
         else if c = CHR ''<'' \<and> peek r 1 = Some CHR ''<'' then open_heredoc s r
         else case operator_token r of
           Some (t, n) \<Rightarrow> push_token s t (drop n r)
         | None \<Rightarrow>
             if c = squote \<or> c = dquote
             then (let (word, r') = read_quoted c (drop 1 r)
                   in push_token s (if c = squote then TSingleQuoted word else TWord word) r')
             else (let (word, r') = read_word r
                   in if word \<noteq> [] then push_token s (TWord word) r' else s\<lparr>tk_rest := r'\<rparr>))"

definition tok_init :: "string \<Rightarrow> tok_state" where
  "tok_init input = \<lparr>tk_tokens = [], tk_rest = input, tk_pending = []\<rparr>"

definition tokenize :: "string \<Rightarrow> token list option" where
  "tokenize input = map_option tk_tokens (while_option (\<lambda>s. tk_rest s \<noteq> []) tok_step (tok_init input))"

section \<open>The parser\<close>

record command_acc =
  ca_cmd :: command
  ca_expect :: "(redirect_stream \<times> redirect_kind) option"

definition empty_command :: command where
  "empty_command =
     \<lparr>cmd_program = [], cmd_args = [], cmd_redirects = [], cmd_heredoc = None, cmd_program_literal = False,
      cmd_literal_args = []\<rparr>"

definition add_word :: "command_acc \<Rightarrow> string \<Rightarrow> bool \<Rightarrow> command_acc" where
  "add_word a w is_literal =
     (let cmd = ca_cmd a
      in case ca_expect a of
           Some (stream, kind) \<Rightarrow>
             \<lparr>ca_cmd = cmd\<lparr>cmd_redirects := cmd_redirects cmd @
                 [\<lparr>rd_stream = stream, rd_kind = kind, rd_target = ToFile w is_literal\<rparr>]\<rparr>, ca_expect = None\<rparr>
         | None \<Rightarrow>
             if cmd_program cmd = []
             then a\<lparr>ca_cmd := cmd\<lparr>cmd_program := w, cmd_program_literal := is_literal\<rparr>\<rparr>
             else a\<lparr>ca_cmd := cmd\<lparr>cmd_args := cmd_args cmd @ [w], cmd_literal_args := cmd_literal_args cmd @ [is_literal]\<rparr>\<rparr>)"

fun command_token :: "command_acc \<Rightarrow> token \<Rightarrow> command_acc" where
  "command_token a (TRedirectTruncate stream) = a\<lparr>ca_expect := Some (stream, Truncate)\<rparr>"
| "command_token a (TRedirectAppend stream) = a\<lparr>ca_expect := Some (stream, Append)\<rparr>"
| "command_token a (TRedirectToStream stream target) =
     a\<lparr>ca_cmd := (ca_cmd a)\<lparr>cmd_redirects := cmd_redirects (ca_cmd a) @
        [\<lparr>rd_stream = stream, rd_kind = Truncate, rd_target = target\<rparr>]\<rparr>\<rparr>"
| "command_token a (TWord w) = add_word a w False"
| "command_token a (TSingleQuoted w) = add_word a w True"
| "command_token a (THereDoc content) = a\<lparr>ca_cmd := (ca_cmd a)\<lparr>cmd_heredoc := Some content\<rparr>\<rparr>"
| "command_token a _ = a"

definition parse_command :: "token list \<Rightarrow> command" where
  "parse_command toks = ca_cmd (foldl command_token \<lparr>ca_cmd = empty_command, ca_expect = None\<rparr> toks)"

fun pipeline_loop :: "token list \<Rightarrow> token list \<Rightarrow> shell_pipeline" where
  "pipeline_loop current [] = (if current \<noteq> [] then [parse_command current] else [])"
| "pipeline_loop current (t # toks) =
     (if t = TPipe then parse_command current # pipeline_loop [] toks else pipeline_loop (current @ [t]) toks)"

definition parse_pipeline :: "token list \<Rightarrow> shell_pipeline" where
  "parse_pipeline toks = pipeline_loop [] toks"

fun connector_of :: "token \<Rightarrow> connector option" where
  "connector_of TAnd = Some ConnAnd"
| "connector_of TOr = Some ConnOr"
| "connector_of TSemicolon = Some ConnSemicolon"
| "connector_of _ = None"

fun line_loop :: "token list \<Rightarrow> token list \<Rightarrow> shell_line" where
  "line_loop current [] =
     (if current \<noteq> [] then [\<lparr>si_pipeline = parse_pipeline current, si_connector = None\<rparr>] else [])"
| "line_loop current (t # toks) =
     (case connector_of t of
        Some c \<Rightarrow>
          if current = [] then line_loop [] toks
          else \<lparr>si_pipeline = parse_pipeline current, si_connector = Some c\<rparr> # line_loop [] toks
      | None \<Rightarrow> line_loop (current @ [t]) toks)"

definition parse_tokens :: "token list \<Rightarrow> shell_line" where
  "parse_tokens toks = line_loop [] toks"

definition parse_line :: "string \<Rightarrow> shell_line option" where
  "parse_line input =
     (let s = trim input in if s = [] then Some [] else map_option parse_tokens (tokenize s))"

section \<open>Progress of the tokenizer\<close>

lemma read_delimiter_rest: "(d, r') = read_delimiter r \<Longrightarrow> length r' \<le> length r \<and> set r' \<subseteq> set r"
proof (cases r)
  case (Cons c cs)
  assume a: "(d, r') = read_delimiter r"
  let ?f = "dropWhile (\<lambda>x. x \<noteq> c) cs" and ?g = "dropWhile (\<lambda>x. \<not> is_ascii_whitespace x \<and> \<not> is_word_stop x) r"
  have l: "length ?f \<le> length cs" "length ?g \<le> length r" by (rule length_dropWhile_le)+
  have s: "set ?f \<subseteq> set cs" "set ?g \<subseteq> set r" by (auto dest: set_dropWhileD)
  have "r' = drop 1 ?f \<or> r' = ?g" using a Cons by (auto simp: read_delimiter_def split: if_splits)
  then show ?thesis using l s Cons set_drop_subset[of 1 ?f] by auto
qed (simp add: read_delimiter_def)

lemma consume_body_rest: "length (snd (consume_body r d)) \<le> length r \<and> set (snd (consume_body r d)) \<subseteq> set r"
proof (induction r d rule: consume_body.induct)
  case (1 r d)
  let ?a = "dropWhile (\<lambda>x. x \<noteq> newline) r"
  have l: "length (drop 1 ?a) \<le> length r" "set (drop 1 ?a) \<subseteq> set r"
    using length_dropWhile_le[of "\<lambda>x. x \<noteq> newline" r] set_drop_subset[of 1 ?a] set_dropWhileD[of _ "\<lambda>x. x \<noteq> newline" r] by auto
  show ?case
  proof (cases "r = [] \<or> takeWhile (\<lambda>x. x \<noteq> newline) r = d")
    case True
    then show ?thesis using l by (subst (1 2) consume_body.simps) (auto simp: Let_def)
  next
    case False
    then have "length (snd (consume_body (drop 1 ?a) d)) \<le> length (drop 1 ?a) \<and>
        set (snd (consume_body (drop 1 ?a) d)) \<subseteq> set (drop 1 ?a)"
      using 1[OF _ refl refl refl refl] by blast
    moreover have "snd (consume_body r d) = snd (consume_body (drop 1 ?a) d)"
      using False by (subst consume_body.simps) (simp add: Let_def split: prod.splits)
    ultimately show ?thesis using l by auto
  qed
qed

lemma drain_heredocs_rest:
  "length (snd (drain_heredocs ps toks r)) \<le> length r \<and> set (snd (drain_heredocs ps toks r)) \<subseteq> set r"
proof (induction ps toks r rule: drain_heredocs.induct)
  case (2 d i ps toks r)
  obtain c r' where c: "consume_body r d = (c, r')" by fastforce
  then show ?case using 2[OF c[symmetric]] consume_body_rest[of r d] by auto
qed simp

lemma read_quoted_rest: "length (snd (read_quoted q r)) \<le> length r \<and> set (snd (read_quoted q r)) \<subseteq> set r"
  by (induction q r rule: read_quoted.induct) (auto simp: Let_def split: prod.splits)

lemma read_subst_set: "set (snd (read_subst d r)) \<subseteq> set r"
  by (induction d r rule: read_subst.induct) (auto simp: Let_def split: prod.splits)

lemma read_word_rest: "length (snd (read_word r)) \<le> length r \<and> set (snd (read_word r)) \<subseteq> set r"
proof (induction r rule: read_word.induct)
  case (1 r)
  show ?case
  proof (cases r)
    case Nil
    then show ?thesis by (subst (1 2) read_word.simps) simp
  next
    case (Cons c cs)
    let ?stop = "is_ascii_whitespace c \<or> is_word_stop c"
    let ?cont = "c = backslash \<and> cs \<noteq> [] \<and> hd cs = newline"
    let ?sub = "c = CHR ''$'' \<and> cs \<noteq> [] \<and> hd cs = CHR ''(''"
    obtain inner rest where s: "read_subst 1 (tl cs) = (inner, rest)" by fastforce
    have rest: "length rest \<le> length (tl cs)" "set rest \<subseteq> set (tl cs)"
      using read_subst_length[of 1 "tl cs"] read_subst_set[of 1 "tl cs"] s by auto
    have tl: "length (tl cs) \<le> length cs" "set (tl cs) \<subseteq> set cs" by (cases cs; auto)+
    consider ?stop | "\<not> ?stop" ?cont | "\<not> ?stop" "\<not> ?cont" ?sub | "\<not> ?stop" "\<not> ?cont" "\<not> ?sub" by blast
    then show ?thesis
    proof cases
      case 1
      then show ?thesis using Cons by (subst (1 2) read_word.simps) simp
    next
      case 2
      then show ?thesis using Cons tl by (subst (1 2) read_word.simps) auto
    next
      case c: 3
      have "snd (read_word r) = snd (read_word rest)"
        using Cons c s by (subst read_word.simps) (simp split: prod.splits)
      then show ?thesis using "1.IH"(1)[OF Cons c s[symmetric] refl] rest tl Cons by auto
    next
      case c: 4
      have "snd (read_word r) = snd (read_word cs)"
        using Cons c by (subst read_word.simps) (auto split: prod.splits)
      then show ?thesis using "1.IH"(2)[OF Cons c] Cons by auto
    qed
  qed
qed

lemma read_word_progress:
  assumes "r \<noteq> []" "\<not> is_ascii_whitespace (hd r)" "\<not> is_word_stop (hd r)"
  shows "length (snd (read_word r)) < length r"
proof -
  obtain c cs where r: "r = c # cs" using assms(1) by (cases r) auto
  obtain inner rest where s: "read_subst 1 (tl cs) = (inner, rest)" by fastforce
  have rest: "length rest \<le> length (tl cs)" using read_subst_length[of 1 "tl cs"] s by auto
  have "snd (read_word r) \<in> {tl cs, snd (read_word rest), snd (read_word cs)}"
    using r assms s by (subst read_word.simps) (auto split: prod.splits)
  then show ?thesis using read_word_rest[of rest] read_word_rest[of cs] rest r by auto
qed

text \<open>A \<open><\<close> that does not open a here-document: no branch of the loop consumes it.\<close>

definition lone_lt :: "string \<Rightarrow> bool" where
  "lone_lt r \<longleftrightarrow> r \<noteq> [] \<and> hd r = CHR ''<'' \<and> peek r 1 \<noteq> Some CHR ''<''"

lemma tok_step_stuck: "lone_lt (tk_rest s) \<Longrightarrow> tok_step s = s"
  by (cases "tk_rest s") (auto simp: lone_lt_def tok_step_def Let_def is_ascii_whitespace_def is_ascii_digit_def
      operator_token_def read_word.simps is_word_stop_def)

lemma operator_token_pos: "operator_token r = Some (t, n) \<Longrightarrow> 0 < n"
  by (auto simp: operator_token_def Let_def split: if_splits)

lemma fd_redirect_rest: "tk_rest (fd_redirect s r) \<in> {drop 2 r, drop 3 r, drop 4 r}"
  by (simp add: fd_redirect_def Let_def push_token_def)

lemma open_heredoc_rest:
  "length (tk_rest (open_heredoc s r)) \<le> length (drop 2 r) \<and> set (tk_rest (open_heredoc s r)) \<subseteq> set r"
proof -
  define r1 where "r1 = drop 2 r"
  define r2 where "r2 = (if r1 \<noteq> [] \<and> hd r1 = CHR ''-'' then tl r1 else r1)"
  define r3 where "r3 = dropWhile (\<lambda>x. x = CHR 0x20 \<or> x = CHR 0x09) r2"
  obtain d r4 where d: "read_delimiter r3 = (d, r4)" by fastforce
  have "tk_rest (open_heredoc s r) = r4"
    using d by (simp add: open_heredoc_def Let_def r1_def[symmetric] r2_def[symmetric] r3_def[symmetric])
  moreover have "length r4 \<le> length r3" "set r4 \<subseteq> set r3" using read_delimiter_rest[OF d[symmetric]] by auto
  moreover have "length r3 \<le> length r2" "set r3 \<subseteq> set r2"
    unfolding r3_def by (auto simp: length_dropWhile_le dest: set_dropWhileD)
  moreover have "length r2 \<le> length r1" "set r2 \<subseteq> set r1" unfolding r2_def by (cases r1; auto)+
  moreover have "set r1 \<subseteq> set r" unfolding r1_def by (rule set_drop_subset)
  ultimately show ?thesis unfolding r1_def by auto
qed

text \<open>Where a round leaves the input.\<close>

lemma tok_tail_rest:
  assumes "tk_rest s \<noteq> []" "\<not> lone_lt (tk_rest s)"
    and rest: "\<not> (hd (tk_rest s) = backslash \<and> peek (tk_rest s) 1 = Some newline)" "hd (tk_rest s) \<noteq> newline"
      "\<not> is_ascii_whitespace (hd (tk_rest s))"
      "\<not> ((hd (tk_rest s) = CHR ''1'' \<or> hd (tk_rest s) = CHR ''2'') \<and> peek (tk_rest s) 1 = Some CHR ''>'')"
      "\<not> (is_ascii_digit (hd (tk_rest s)) \<and> peek (tk_rest s) 1 = Some CHR ''>'')"
      "\<not> (hd (tk_rest s) = CHR ''<'' \<and> peek (tk_rest s) 1 = Some CHR ''<'')"
  shows "length (tk_rest (tok_step s)) < length (tk_rest s) \<and> set (tk_rest (tok_step s)) \<subseteq> set (tk_rest s)"
proof -
  let ?r = "tk_rest s"
  let ?c = "hd ?r"
  have drop: "length (drop n ?r) < length ?r \<and> set (drop n ?r) \<subseteq> set ?r" if "0 < n" for n
    using that assms(1) set_drop_subset[of n ?r] by (cases ?r) auto
  note tail = tok_step_def[of s, unfolded Let_def if_not_P[OF rest(1)] if_not_P[OF rest(2)] if_not_P[OF rest(3)]
    if_not_P[OF rest(4)] if_not_P[OF rest(5)] if_not_P[OF rest(6)]]
  show ?thesis
  proof (cases "operator_token ?r")
    case (Some tn)
    then obtain t n where tn: "operator_token ?r = Some (t, n)" by (cases tn) auto
    then have "tk_rest (tok_step s) = drop n ?r" by (simp add: tail push_token_def)
    then show ?thesis using operator_token_pos[OF tn] drop[of n] by simp
  next
    case None
    show ?thesis
    proof (cases "?c = squote \<or> ?c = dquote")
      case True
      then have "tk_rest (tok_step s) = snd (read_quoted ?c (drop 1 ?r))"
        using None by (simp add: tail push_token_def split: prod.split)
      then show ?thesis using read_quoted_rest[of ?c "drop 1 ?r"] drop[of 1] by auto
    next
      case False
      then have "tk_rest (tok_step s) = snd (read_word ?r)"
        using None by (simp add: tail push_token_def split: prod.split)
      moreover have "\<not> is_word_stop ?c"
        using None rest(6) assms by (auto simp: operator_token_def is_word_stop_def lone_lt_def Let_def split: if_splits)
      ultimately show ?thesis using read_word_progress[OF assms(1) rest(3)] read_word_rest[of ?r] by simp
    qed
  qed
qed

lemma tok_step_rest:
  assumes "tk_rest s \<noteq> []" "\<not> lone_lt (tk_rest s)"
  shows "length (tk_rest (tok_step s)) < length (tk_rest s) \<and> set (tk_rest (tok_step s)) \<subseteq> set (tk_rest s)"
proof -
  let ?r = "tk_rest s"
  let ?c = "hd ?r"
  have drop: "length (drop n ?r) < length ?r \<and> set (drop n ?r) \<subseteq> set ?r" if "0 < n" for n
    using that assms(1) set_drop_subset[of n ?r] by (cases ?r) auto
  note step = tok_step_def Let_def push_token_def
  consider (cont) "?c = backslash \<and> peek ?r 1 = Some newline"
    | (nl) "?c = newline" | (ws) "is_ascii_whitespace ?c" "?c \<noteq> newline"
    | (fd) "(?c = CHR ''1'' \<or> ?c = CHR ''2'') \<and> peek ?r 1 = Some CHR ''>''"
    | (num) "is_ascii_digit ?c \<and> peek ?r 1 = Some CHR ''>''" "?c \<noteq> CHR ''1''" "?c \<noteq> CHR ''2''"
    | (here) "?c = CHR ''<'' \<and> peek ?r 1 = Some CHR ''<''"
    | (rest) "\<not> (?c = backslash \<and> peek ?r 1 = Some newline)" "?c \<noteq> newline" "\<not> is_ascii_whitespace ?c"
      "\<not> ((?c = CHR ''1'' \<or> ?c = CHR ''2'') \<and> peek ?r 1 = Some CHR ''>'')"
      "\<not> (is_ascii_digit ?c \<and> peek ?r 1 = Some CHR ''>'')" "\<not> (?c = CHR ''<'' \<and> peek ?r 1 = Some CHR ''<'')"
    by blast
  then show ?thesis
  proof cases
    case cont
    then show ?thesis using drop[of 2] by (simp add: step)
  next
    case nl
    then have "tk_rest (tok_step s) =
        (if tk_pending s = [] then drop 1 ?r else snd (drain_heredocs (tk_pending s) (tk_tokens s) (drop 1 ?r)))"
      by (simp add: step split: prod.splits)
    then show ?thesis using drop[of 1] drain_heredocs_rest[of "tk_pending s" "tk_tokens s" "drop 1 ?r"] by auto
  next
    case ws
    then have "?c \<noteq> backslash" by (auto simp: is_ascii_whitespace_def)
    then show ?thesis using ws drop[of 1] by (simp add: step)
  next
    case fd
    then have "tok_step s = fd_redirect s ?r" by (auto simp: step is_ascii_whitespace_def)
    then show ?thesis using fd_redirect_rest[of s ?r] drop[of 2] drop[of 3] drop[of 4] by auto
  next
    case num
    then have n: "?c \<noteq> backslash" "\<not> is_ascii_whitespace ?c" "is_fd_word_char ?c"
      by (auto simp: is_ascii_whitespace_def is_ascii_digit_def is_fd_word_char_def)
    then have "?c \<noteq> newline" by (auto simp: is_ascii_whitespace_def)
    then have "tk_rest (tok_step s) = dropWhile is_fd_word_char ?r" using num n by (simp add: step)
    moreover have "dropWhile is_fd_word_char ?r = dropWhile is_fd_word_char (tl ?r)"
      using n(3) assms(1) by (cases ?r) auto
    ultimately show ?thesis
      using length_dropWhile_le[of is_fd_word_char "tl ?r"] assms(1) set_dropWhileD[of _ is_fd_word_char ?r]
      by (cases ?r) auto
  next
    case here
    then have "tok_step s = open_heredoc s ?r" by (auto simp: step is_ascii_whitespace_def is_ascii_digit_def)
    then show ?thesis using open_heredoc_rest[of s ?r] drop[of 2] by auto
  next
    case rest
    then show ?thesis by (rule tok_tail_rest[OF assms])
  qed
qed

lemma tok_step_progress:
  "tk_rest s \<noteq> [] \<Longrightarrow> \<not> lone_lt (tk_rest s) \<Longrightarrow> length (tk_rest (tok_step s)) < length (tk_rest s)"
  using tok_step_rest by blast

lemma tok_step_set: "tk_rest s \<noteq> [] \<Longrightarrow> set (tk_rest (tok_step s)) \<subseteq> set (tk_rest s)"
  using tok_step_rest[of s] tok_step_stuck[of s] by (cases "lone_lt (tk_rest s)") auto

section \<open>Which inputs are tokenized\<close>

definition tok_reaches :: "string \<Rightarrow> tok_state \<Rightarrow> bool" where
  "tok_reaches input s \<longleftrightarrow>
     (\<exists>k. s = (tok_step ^^ k) (tok_init input) \<and> (\<forall>j < k. tk_rest ((tok_step ^^ j) (tok_init input)) \<noteq> []))"

lemma tok_reaches_init: "tok_reaches input (tok_init input)"
  unfolding tok_reaches_def by (intro exI[of _ 0]) simp

lemma tok_reaches_step: "tok_reaches input s \<Longrightarrow> tk_rest s \<noteq> [] \<Longrightarrow> tok_reaches input (tok_step s)"
  unfolding tok_reaches_def by (elim exE conjE, rule_tac x = "Suc k" in exI) (auto simp: less_Suc_eq)

lemma tok_fixpoint: "tok_step s = s \<Longrightarrow> (tok_step ^^ n) s = s"
  by (induction n) auto

lemma hang_if:
  assumes "tok_reaches input s" "lone_lt (tk_rest s)" "tokenize input = Some toks"
  shows False
proof -
  obtain t where "while_option (\<lambda>s. tk_rest s \<noteq> []) tok_step (tok_init input) = Some t"
    using assms(3) by (auto simp: tokenize_def)
  then obtain n where n: "tk_rest ((tok_step ^^ n) (tok_init input)) = []"
    by (auto dest: while_option_stop2)
  obtain k where k: "s = (tok_step ^^ k) (tok_init input)"
    "\<forall>j < k. tk_rest ((tok_step ^^ j) (tok_init input)) \<noteq> []" using assms(1) by (auto simp: tok_reaches_def)
  then have "\<not> n < k" using n by blast
  then have "(tok_step ^^ n) (tok_init input) = (tok_step ^^ (n - k)) s"
    unfolding k(1) by (metis funpow_add comp_apply le_add_diff_inverse2 not_less)
  then show False using assms(2) n tok_fixpoint[OF tok_step_stuck[OF assms(2)]] by (auto simp: lone_lt_def)
qed

text \<open>
  C27: The tokenizer returns exactly when its loop never comes to a lone \<open><\<close>: at such a character no
  branch of the loop advances, and everywhere else each round consumes input.
\<close>

theorem tokenize_returns_iff:
  "(\<exists>toks. tokenize input = Some toks) \<longleftrightarrow> (\<nexists>s. tok_reaches input s \<and> lone_lt (tk_rest s))"
proof
  assume "\<exists>toks. tokenize input = Some toks"
  then show "\<nexists>s. tok_reaches input s \<and> lone_lt (tk_rest s)" using hang_if by blast
next
  assume a: "\<nexists>s. tok_reaches input s \<and> lone_lt (tk_rest s)"
  have "\<exists>t. while_option (\<lambda>s. tk_rest s \<noteq> []) tok_step (tok_init input) = Some t"
    by (rule measure_while_option_Some[where P = "tok_reaches input" and f = "\<lambda>s. length (tk_rest s)"])
       (use a tok_reaches_init tok_reaches_step tok_step_progress in blast)+
  then show "\<exists>toks. tokenize input = Some toks" by (auto simp: tokenize_def)
qed

lemma tokenize_total:
  assumes "CHR ''<'' \<notin> set input"
  shows "\<exists>toks. tokenize input = Some toks"
proof -
  have "\<exists>t. while_option (\<lambda>s. tk_rest s \<noteq> []) tok_step (tok_init input) = Some t"
  proof (rule measure_while_option_Some[where P = "\<lambda>s. set (tk_rest s) \<subseteq> set input" and f = "\<lambda>s. length (tk_rest s)"])
    fix s :: tok_state assume s: "set (tk_rest s) \<subseteq> set input" "tk_rest s \<noteq> []"
    then have "\<not> lone_lt (tk_rest s)" using assms by (cases "tk_rest s") (auto simp: lone_lt_def)
    then show "set (tk_rest (tok_step s)) \<subseteq> set input \<and> length (tk_rest (tok_step s)) < length (tk_rest s)"
      using s tok_step_rest[of s] by auto
  qed (simp add: tok_init_def)
  then show ?thesis by (auto simp: tokenize_def)
qed

lemma parse_line_total:
  assumes "CHR ''<'' \<notin> set input"
  shows "\<exists>line. parse_line input = Some line"
proof -
  have "CHR ''<'' \<notin> set (trim input)" using assms trim_set[of input] by auto
  from tokenize_total[OF this] show ?thesis by (auto simp: parse_line_def Let_def)
qed

text \<open>
  An input redirection hangs the parser: on \<^verbatim>\<open>cat < notes\<close> the call to \<open>parse\<close> does not return.
\<close>

theorem parse_hangs_on_input_redirect: "parse_line ''cat < notes'' = None"
proof -
  have t: "trim ''cat < notes'' = ''cat < notes''" by code_simp
  have "tok_reaches ''cat < notes'' ((tok_step ^^ 2) (tok_init ''cat < notes''))"
    unfolding tok_reaches_def
  proof (intro exI[of _ 2] conjI allI impI refl)
    fix j :: nat assume "j < 2"
    then consider "j = 0" | "j = 1" by linarith
    then show "tk_rest ((tok_step ^^ j) (tok_init ''cat < notes'')) \<noteq> []"
      by cases (simp add: tok_init_def, simp, code_simp)
  qed
  moreover have "lone_lt (tk_rest ((tok_step ^^ 2) (tok_init ''cat < notes'')))" by code_simp
  ultimately have "tokenize ''cat < notes'' = None"
    using hang_if by (cases "tokenize ''cat < notes''") auto
  then show ?thesis by (simp add: parse_line_def Let_def t)
qed

section \<open>The words of a parsed line\<close>

lemma read_quoted_word: "length (fst (read_quoted q r)) \<le> length r \<and> set (fst (read_quoted q r)) \<subseteq> set r"
  by (induction q r rule: read_quoted.induct) (auto simp: Let_def split: prod.splits)

lemma read_subst_parts: "length (fst (read_subst d r)) + length (snd (read_subst d r)) \<le> length r \<and> set (fst (read_subst d r)) \<subseteq> set r"
  by (induction d r rule: read_subst.induct) (auto simp: Let_def split: prod.splits)

lemma read_word_word: "length (fst (read_word r)) + length (snd (read_word r)) \<le> length r \<and> set (fst (read_word r)) \<subseteq> set r"
proof (induction r rule: read_word.induct)
  case (1 r)
  show ?case
  proof (cases r)
    case Nil
    then show ?thesis by (subst (1 2 3) read_word.simps) simp
  next
    case (Cons c cs)
    let ?stop = "is_ascii_whitespace c \<or> is_word_stop c"
    let ?cont = "c = backslash \<and> cs \<noteq> [] \<and> hd cs = newline"
    let ?sub = "c = CHR ''$'' \<and> cs \<noteq> [] \<and> hd cs = CHR ''(''"
    obtain inner rest where s: "read_subst 1 (tl cs) = (inner, rest)" by fastforce
    consider ?stop | "\<not> ?stop" ?cont | "\<not> ?stop" "\<not> ?cont" ?sub | "\<not> ?stop" "\<not> ?cont" "\<not> ?sub" by blast
    then show ?thesis
    proof cases
      case 1
      then show ?thesis using Cons by (subst (1 2 3) read_word.simps) simp
    next
      case 2
      then show ?thesis using Cons by (subst (1 2 3) read_word.simps) auto
    next
      case c: 3
      obtain word rest' where w: "read_word rest = (word, rest')" by fastforce
      have e: "read_word r = (''$('' @ inner @ word, rest')"
        using Cons c s w by (subst read_word.simps) simp
      have "length inner + length rest \<le> length (tl cs) \<and> set inner \<subseteq> set (tl cs)"
        using read_subst_parts[of 1 "tl cs"] s by simp
      moreover have "length word + length rest' \<le> length rest \<and> set word \<subseteq> set rest"
        using "1.IH"(1)[OF Cons c s[symmetric] refl] w by simp
      moreover have "set rest \<subseteq> set (tl cs)" using read_subst_set[of 1 "tl cs"] s by simp
      ultimately show ?thesis using c(3) unfolding e by (cases cs) (auto simp: Cons)
    next
      case c: 4
      obtain word rest' where w: "read_word cs = (word, rest')" by fastforce
      have "read_word r = (c # word, rest')" using Cons c w by (subst read_word.simps) auto
      then show ?thesis using "1.IH"(2)[OF Cons c] w Cons by auto
    qed
  qed
qed

fun target_words :: "redirect_target \<Rightarrow> string list" where
  "target_words (ToFile w _) = [w]"
| "target_words _ = []"

fun token_words :: "token \<Rightarrow> string list" where
  "token_words (TWord w) = [w]"
| "token_words (TSingleQuoted w) = [w]"
| "token_words (TRedirectToStream stream target) = target_words target"
| "token_words _ = []"

text \<open>The words a command may expand.\<close>

definition command_words :: "command \<Rightarrow> string list" where
  "command_words cmd = cmd_program cmd # cmd_args cmd @ concat (map (target_words \<circ> rd_target) (cmd_redirects cmd))"

definition tok_word_ok :: "string \<Rightarrow> string \<Rightarrow> bool" where
  "tok_word_ok input w \<longleftrightarrow> length w \<le> length input \<and> set w \<subseteq> set input"

definition tok_ok :: "string \<Rightarrow> tok_state \<Rightarrow> bool" where
  "tok_ok input s \<longleftrightarrow> tok_word_ok input (tk_rest s) \<and> (\<forall>t \<in> set (tk_tokens s). \<forall>w \<in> set (token_words t). tok_word_ok input w)"

lemma drain_heredocs_tokens:
  "t \<in> set (fst (drain_heredocs ps toks r)) \<Longrightarrow> t \<in> set toks \<or> (\<exists>c. t = THereDoc c)"
proof (induction ps toks r rule: drain_heredocs.induct)
  case (2 d i ps toks r)
  obtain c r' where c: "consume_body r d = (c, r')" by fastforce
  then show ?case using 2(1)[OF c[symmetric]] 2(2) set_update_subset_insert[of toks i "THereDoc c"] by auto
qed simp

lemma fd_redirect_tokens: "t \<in> set (tk_tokens (fd_redirect s r)) \<Longrightarrow> t \<in> set (tk_tokens s) \<or> token_words t = []"
  by (auto simp: fd_redirect_def Let_def push_token_def split: if_splits)

lemma open_heredoc_tokens: "t \<in> set (tk_tokens (open_heredoc s r)) \<Longrightarrow> t \<in> set (tk_tokens s) \<or> token_words t = []"
  by (auto simp: open_heredoc_def Let_def split: prod.splits if_splits)

lemma operator_token_words: "operator_token r = Some (t, n) \<Longrightarrow> token_words t = []"
  by (auto simp: operator_token_def Let_def split: if_splits)

text \<open>Every word of a token comes from the input still unread when the token is pushed.\<close>

definition new_words_ok :: "tok_state \<Rightarrow> tok_state \<Rightarrow> bool" where
  "new_words_ok s s' \<longleftrightarrow> (\<forall>t \<in> set (tk_tokens s'). t \<in> set (tk_tokens s) \<or>
     (\<forall>w \<in> set (token_words t). tok_word_ok (tk_rest s) w))"

lemma new_words_if: "(b \<Longrightarrow> new_words_ok s x) \<Longrightarrow> (\<not> b \<Longrightarrow> new_words_ok s y) \<Longrightarrow> new_words_ok s (if b then x else y)"
  by simp

lemma new_words_push: "\<forall>w \<in> set (token_words t). tok_word_ok (tk_rest s) w \<Longrightarrow> new_words_ok s (push_token s t r)"
  by (auto simp: new_words_ok_def push_token_def)

lemma new_words_rest: "new_words_ok s (s\<lparr>tk_rest := r\<rparr>)"
  by (simp add: new_words_ok_def)

lemma tok_step_tokens: "new_words_ok s (tok_step s)"
proof -
  let ?r = "tk_rest s"
  have q: "tok_word_ok ?r (fst (read_quoted c (drop 1 ?r)))" for c
    using read_quoted_word[of c "drop 1 ?r"] set_drop_subset[of 1 ?r] by (auto simp: tok_word_ok_def)
  have w: "tok_word_ok ?r (fst (read_word ?r))" using read_word_word[of ?r] by (auto simp: tok_word_ok_def)
  have f: "tok_word_ok ?r (takeWhile is_fd_word_char ?r)"
    by (auto simp: tok_word_ok_def length_takeWhile_le dest: set_takeWhileD)
  show ?thesis
    unfolding tok_step_def Let_def
  proof (intro new_words_if new_words_rest new_words_push, goal_cases)
    case 1
    then show ?case
      using drain_heredocs_tokens[of _ "tk_pending s" "tk_tokens s" "drop 1 ?r"]
      by (fastforce simp: new_words_ok_def split: prod.splits)
  next
    case 2
    then show ?case by simp
  next
    case 3
    then show ?case using fd_redirect_tokens[of _ s ?r] by (fastforce simp: new_words_ok_def)
  next
    case 4
    then show ?case using f by simp
  next
    case 5
    then show ?case using open_heredoc_tokens[of _ s ?r] by (fastforce simp: new_words_ok_def)
  next
    case 6
    show ?case
    proof (cases "operator_token ?r")
      case (Some tn)
      then show ?thesis
        using operator_token_words[of ?r "fst tn" "snd tn"] new_words_push[of "fst tn" s] by (cases tn) simp
    next
      case None
      have "new_words_ok s (push_token s (if hd ?r = squote then TSingleQuoted v else TWord v) r')"
        if "read_quoted (hd ?r) (drop 1 ?r) = (v, r')" for v r'
        using q[of "hd ?r"] that by (intro new_words_push) simp
      moreover have "new_words_ok s (if v \<noteq> [] then push_token s (TWord v) r' else s\<lparr>tk_rest := r'\<rparr>)"
        if "read_word ?r = (v, r')" for v r'
        using w that by (intro new_words_if new_words_push new_words_rest) simp
      ultimately show ?thesis using None by (auto split: prod.split)
    qed
  qed
qed

lemma tok_word_ok_trans: "tok_word_ok a b \<Longrightarrow> tok_word_ok b c \<Longrightarrow> tok_word_ok a c"
  by (auto simp: tok_word_ok_def)

lemma tok_ok_step: "tok_ok input s \<Longrightarrow> tk_rest s \<noteq> [] \<Longrightarrow> tok_ok input (tok_step s)"
proof -
  assume s: "tok_ok input s" "tk_rest s \<noteq> []"
  have "tok_word_ok (tk_rest s) (tk_rest (tok_step s))"
    using tok_step_rest[OF s(2)] tok_step_stuck[of s] by (cases "lone_lt (tk_rest s)") (auto simp: tok_word_ok_def)
  then show ?thesis using s(1) tok_step_tokens[of s] tok_word_ok_trans unfolding tok_ok_def new_words_ok_def by blast
qed

lemma tokenize_words:
  assumes "tokenize input = Some toks" "t \<in> set toks" "w \<in> set (token_words t)"
  shows "tok_word_ok input w"
proof -
  obtain s where s: "while_option (\<lambda>s. tk_rest s \<noteq> []) tok_step (tok_init input) = Some s" "toks = tk_tokens s"
    using assms(1) by (auto simp: tokenize_def)
  have "tok_ok input s"
    by (rule while_option_rule[where P = "tok_ok input", OF tok_ok_step s(1)])
       (auto simp: tok_ok_def tok_init_def tok_word_ok_def)
  then show ?thesis using assms(2,3) s(2) by (auto simp: tok_ok_def)
qed

lemma add_word_words: "set (command_words (ca_cmd (add_word a w l))) \<subseteq> insert w (set (command_words (ca_cmd a)))"
  by (cases "ca_expect a") (auto simp: add_word_def Let_def command_words_def)

lemma command_token_words:
  "set (command_words (ca_cmd (command_token a t))) \<subseteq> set (token_words t) \<union> set (command_words (ca_cmd a))"
proof (cases t)
  case (TWord w)
  then show ?thesis using add_word_words[of a w False] by auto
next
  case (TSingleQuoted w)
  then show ?thesis using add_word_words[of a w True] by auto
qed (auto simp: command_words_def)

lemma command_words_foldl:
  "set (command_words (ca_cmd (foldl command_token a toks))) \<subseteq> \<Union> (set ` token_words ` set toks) \<union> set (command_words (ca_cmd a))"
proof (induction toks arbitrary: a)
  case (Cons t toks)
  show ?case using Cons.IH[of "command_token a t"] command_token_words[of a t] by auto
qed simp

lemma parse_command_words:
  "w \<in> set (command_words (parse_command toks)) \<Longrightarrow> w = [] \<or> (\<exists>t \<in> set toks. w \<in> set (token_words t))"
  unfolding parse_command_def using command_words_foldl[of "\<lparr>ca_cmd = empty_command, ca_expect = None\<rparr>" toks]
  by (auto simp: command_words_def empty_command_def)

lemma pipeline_loop_words:
  "cmd \<in> set (pipeline_loop cur toks) \<Longrightarrow> w \<in> set (command_words cmd) \<Longrightarrow>
   w = [] \<or> (\<exists>t \<in> set (cur @ toks). w \<in> set (token_words t))"
proof (induction cur toks rule: pipeline_loop.induct)
  case (1 cur)
  then show ?case using parse_command_words[of w cur] by (auto split: if_splits)
next
  case (2 cur t toks)
  then show ?case
    using parse_command_words[of w cur] by (cases "t = TPipe") auto
qed

lemma line_loop_words:
  "item \<in> set (line_loop cur toks) \<Longrightarrow> cmd \<in> set (si_pipeline item) \<Longrightarrow>
   w \<in> set (command_words cmd) \<Longrightarrow> w = [] \<or> (\<exists>t \<in> set (cur @ toks). w \<in> set (token_words t))"
proof (induction cur toks rule: line_loop.induct)
  case (1 cur)
  then show ?case using pipeline_loop_words[of cmd "[]" cur w] by (auto simp: parse_pipeline_def split: if_splits)
next
  case (2 cur t toks)
  show ?case
  proof (cases "connector_of t")
    case None
    then show ?thesis using 2 by simp
  next
    case (Some c)
    then have "item \<in> set (line_loop [] toks) \<or> si_pipeline item = parse_pipeline cur"
      using "2.prems"(1) by (auto split: if_splits)
    then show ?thesis
    proof
      assume "item \<in> set (line_loop [] toks)"
      then show ?thesis using 2(2)[OF Some] 2(3)[OF Some] 2(5,6) by (cases "cur = []") auto
    next
      assume "si_pipeline item = parse_pipeline cur"
      then show ?thesis using pipeline_loop_words[of cmd "[]" cur w] 2(5,6) by (auto simp: parse_pipeline_def)
    qed
  qed
qed

lemma trim_length: "length (trim s) \<le> length s"
  using trim_front_length[of "map rev whitespace_seqs" "rev (trim_front whitespace_seqs s)"]
    trim_front_length[of whitespace_seqs s] by (simp add: trim_def)

lemma parse_line_words:
  assumes "parse_line input = Some line" "item \<in> set line" "cmd \<in> set (si_pipeline item)" "w \<in> set (command_words cmd)"
  shows "tok_word_ok input w"
proof -
  have "trim input \<noteq> []" using assms(1,2) by (auto simp: parse_line_def)
  then obtain toks where t: "tokenize (trim input) = Some toks" "line = line_loop [] toks"
    using assms(1) by (auto simp: parse_line_def Let_def parse_tokens_def)
  then have "w = [] \<or> (\<exists>t \<in> set toks. w \<in> set (token_words t))"
    using line_loop_words[of item "[]" toks cmd w] assms by simp
  then have "tok_word_ok (trim input) w" using tokenize_words[OF t(1)] by (auto simp: tok_word_ok_def)
  then show ?thesis using trim_length[of input] trim_set[of input] by (auto simp: tok_word_ok_def)
qed

section \<open>Quoting\<close>

definition sh_quote :: "string \<Rightarrow> string" where
  "sh_quote w = squote # w @ [squote]"

definition sh_join :: "string list \<Rightarrow> string" where
  "sh_join ws = join_with CHR 0x20 (map sh_quote ws)"

lemma read_quoted_single: "squote \<notin> set w \<Longrightarrow> read_quoted squote (w @ squote # r) = (w, r)"
proof (induction w)
  case Nil
  then show ?case by (cases r) auto
next
  case (Cons c w)
  then have "read_quoted squote (w @ squote # r) = (w, r)" by simp
  moreover obtain d cs where "w @ squote # r = d # cs" by (cases w) auto
  ultimately show ?case using Cons.prems by auto
qed

lemma tok_step_quote:
  assumes "tk_rest s = sh_quote w @ r" "squote \<notin> set w"
  shows "tok_step s = push_token s (TSingleQuoted w) r"
  using assms read_quoted_single[OF assms(2), of r]
  by (simp add: tok_step_def Let_def sh_quote_def is_ascii_whitespace_def is_ascii_digit_def operator_token_def)

lemma tok_step_space: "tk_rest s = CHR 0x20 # r \<Longrightarrow> tok_step s = s\<lparr>tk_rest := r\<rparr>"
  by (simp add: tok_step_def Let_def is_ascii_whitespace_def)

abbreviation tok_run :: "tok_state \<Rightarrow> tok_state option" where
  "tok_run \<equiv> while_option (\<lambda>s. tk_rest s \<noteq> []) tok_step"

lemma tok_run_step: "tk_rest s \<noteq> [] \<Longrightarrow> tok_run s = tok_run (tok_step s)"
  by (subst while_option_unfold) simp

lemma tok_run_done: "tk_rest s = [] \<Longrightarrow> tok_run s = Some s"
  by (subst while_option_unfold) simp

lemma tok_run_quoted:
  "\<forall>w \<in> set ws. squote \<notin> set w \<Longrightarrow>
   tok_run \<lparr>tk_tokens = toks, tk_rest = sh_join ws, tk_pending = []\<rparr> =
   Some \<lparr>tk_tokens = toks @ map TSingleQuoted ws, tk_rest = [], tk_pending = []\<rparr>"
proof (induction ws arbitrary: toks)
  case Nil
  then show ?case by (simp add: tok_run_done sh_join_def)
next
  case (Cons w ws)
  let ?s = "\<lambda>r. \<lparr>tk_tokens = toks, tk_rest = r, tk_pending = []\<rparr>"
  let ?t = "\<lambda>r. \<lparr>tk_tokens = toks @ [TSingleQuoted w], tk_rest = r, tk_pending = []\<rparr>"
  have st: "tok_run (?s (sh_quote w @ r)) = tok_run (?t r)" for r
    using tok_run_step[of "?s (sh_quote w @ r)"] tok_step_quote[of "?s (sh_quote w @ r)" w r] Cons.prems
    by (simp add: sh_quote_def push_token_def)
  show ?case
  proof (cases ws)
    case Nil
    then show ?thesis using st[of "[]"] by (simp add: sh_join_def tok_run_done)
  next
    case (Cons v vs)
    then have "sh_join (w # ws) = sh_quote w @ CHR 0x20 # sh_join ws" by (simp add: sh_join_def)
    moreover have "tok_run (?t (CHR 0x20 # sh_join ws)) = tok_run (?t (sh_join ws))"
      using tok_run_step[of "?t (CHR 0x20 # sh_join ws)"] tok_step_space[of "?t (CHR 0x20 # sh_join ws)"] by simp
    ultimately show ?thesis using st Cons.IH[of "toks @ [TSingleQuoted w]"] Cons.prems by simp
  qed
qed

lemma whitespace_not_quote: "w \<in> set whitespace_seqs \<Longrightarrow> hd w \<noteq> squote \<and> last w \<noteq> squote"
  by (auto simp: whitespace_seqs_def)

lemma trim_quoted:
  assumes "s \<noteq> []" "hd s = squote" "last s = squote"
  shows "trim s = s"
proof -
  have "\<not> prefix w s" if "w \<in> set whitespace_seqs" for w
    using whitespace_not_quote[OF that] whitespace_seqs_not_Nil[OF that] assms(2) by (cases w; cases s) auto
  then have "trim_front whitespace_seqs s = s" by (intro trim_front_keep) blast
  moreover have "\<not> prefix (rev w) (rev s)" if "w \<in> set whitespace_seqs" for w
  proof -
    have "hd (rev w) \<noteq> hd (rev s)" "rev w \<noteq> []"
      using whitespace_not_quote[OF that] whitespace_seqs_not_Nil[OF that] assms by (auto simp: hd_rev)
    then show ?thesis by (cases "rev w"; cases "rev s") auto
  qed
  then have "trim_front (map rev whitespace_seqs) (rev s) = rev s" by (intro trim_front_keep) auto
  ultimately show ?thesis by (simp add: trim_def)
qed

lemma sh_join_ends: "ws \<noteq> [] \<Longrightarrow> sh_join ws \<noteq> [] \<and> hd (sh_join ws) = squote \<and> last (sh_join ws) = squote"
proof (induction ws)
  case (Cons w ws)
  then show ?case by (cases ws) (auto simp: sh_join_def sh_quote_def)
qed simp

lemma command_quoted_args:
  assumes "cmd_program (ca_cmd a) \<noteq> []" "ca_expect a = None"
  shows "foldl command_token a (map TSingleQuoted ws) =
    a\<lparr>ca_cmd := (ca_cmd a)\<lparr>cmd_args := cmd_args (ca_cmd a) @ ws,
       cmd_literal_args := cmd_literal_args (ca_cmd a) @ replicate (length ws) True\<rparr>\<rparr>"
  using assms
proof (induction ws arbitrary: a)
  case (Cons w ws)
  let ?b = "a\<lparr>ca_cmd := (ca_cmd a)\<lparr>cmd_args := cmd_args (ca_cmd a) @ [w], cmd_literal_args := cmd_literal_args (ca_cmd a) @ [True]\<rparr>\<rparr>"
  have "command_token a (TSingleQuoted w) = ?b" using Cons.prems by (simp add: add_word_def Let_def)
  then show ?case using Cons.IH[of ?b] Cons.prems by (simp add: replicate_append_same)
qed simp

lemma line_loop_plain: "\<forall>t \<in> set toks. connector_of t = None \<Longrightarrow> line_loop cur toks = line_loop (cur @ toks) []"
  by (induction toks arbitrary: cur) auto

lemma pipeline_loop_plain: "TPipe \<notin> set toks \<Longrightarrow> pipeline_loop cur toks = pipeline_loop (cur @ toks) []"
  by (induction toks arbitrary: cur) auto

text \<open>
  C28: Single-quoting round trip.  A command line made of single-quoted words, none of which holds a
  single quote and the first of which is not empty, parses into the one command with exactly those words
  as program and arguments, all of them marked literal, with no redirection and no here-document.
\<close>

theorem quoted_words_parse_back:
  assumes "\<forall>w \<in> set (p # args). squote \<notin> set w" "p \<noteq> []"
  shows "parse_line (sh_join (p # args)) =
    Some [\<lparr>si_pipeline = [\<lparr>cmd_program = p, cmd_args = args, cmd_redirects = [], cmd_heredoc = None,
      cmd_program_literal = True, cmd_literal_args = replicate (length args) True\<rparr>], si_connector = None\<rparr>]"
proof -
  let ?toks = "map TSingleQuoted (p # args)"
  have "tokenize (sh_join (p # args)) = Some ?toks"
    using tok_run_quoted[OF assms(1), of "[]"] by (simp add: tokenize_def tok_init_def)
  moreover have "line_loop [] ?toks = line_loop ?toks []" by (subst line_loop_plain) auto
  moreover have "pipeline_loop [] ?toks = pipeline_loop ?toks []" by (subst pipeline_loop_plain) auto
  moreover have "parse_command ?toks = \<lparr>cmd_program = p, cmd_args = args, cmd_redirects = [], cmd_heredoc = None,
      cmd_program_literal = True, cmd_literal_args = replicate (length args) True\<rparr>"
    using assms(2) by (simp add: parse_command_def empty_command_def add_word_def command_quoted_args Let_def)
  ultimately show ?thesis
    using trim_quoted[of "sh_join (p # args)"] sh_join_ends[of "p # args"]
    by (simp add: parse_line_def Let_def parse_tokens_def parse_pipeline_def)
qed

theorem quoted_words_parse_back_witness:
  "parse_line (sh_join [''grep'', ''a|b > c'', ''$HOME'']) =
    Some [\<lparr>si_pipeline = [\<lparr>cmd_program = ''grep'', cmd_args = [''a|b > c'', ''$HOME''], cmd_redirects = [],
      cmd_heredoc = None, cmd_program_literal = True, cmd_literal_args = [True, True]\<rparr>], si_connector = None\<rparr>]"
  using quoted_words_parse_back[of "''grep''" "[''a|b > c'', ''$HOME'']"] by (simp add: numeral_2_eq_2)

end
