(* ===== verification/Shell_Builtins.thy ===== *)
theory Shell_Builtins
  imports Std_Text Readonly_Guard
begin

text \<open>
  The file commands of the virtual shell (\<^verbatim>\<open>simulacra-shell/src/builtins.rs\<close>, parts of \<^verbatim>\<open>text.rs\<close>,
  \<^verbatim>\<open>lib.rs\<close> and the path helper of \<^verbatim>\<open>executor.rs\<close>).  A command takes the filesystem dictionary and
  its state and returns its result with the new state.  The commands of the other files (grep, sed,
  find, awk, jq, curl and the rest) are the parameter \<open>others\<close> of the dispatch table.
\<close>

section \<open>Results and paths\<close>

record command_result =
  cr_stdout :: string
  cr_stderr :: string
  cr_exit_code :: int

definition cr_success :: "string \<Rightarrow> command_result" where
  "cr_success out = \<lparr>cr_stdout = out, cr_stderr = [], cr_exit_code = 0\<rparr>"

definition cr_error :: "int \<Rightarrow> string \<Rightarrow> command_result" where
  "cr_error code err = \<lparr>cr_stdout = [], cr_stderr = err, cr_exit_code = code\<rparr>"

fun show_vfs_error :: "vfs_error \<Rightarrow> string" where
  "show_vfs_error (NotFound s) = ''not found: '' @ s"
| "show_vfs_error (AlreadyExists s) = ''already exists: '' @ s"
| "show_vfs_error (NotADirectory s) = ''not a directory: '' @ s"
| "show_vfs_error (NotAFile s) = ''not a file: '' @ s"
| "show_vfs_error (Io s) = ''io error: '' @ s"
| "show_vfs_error (PermissionDenied s) = ''permission denied: '' @ s"
| "show_vfs_error (HookDenied s) = ''hook denied: '' @ s"
| "show_vfs_error (HookKilled s) = ''hook killed: '' @ s"
| "show_vfs_error HookContractViolation = ''hook contract violation''"
| "show_vfs_error (Unsupported s) = ''unsupported: '' @ s"
| "show_vfs_error (Conflict s) = ''conflict: '' @ s"
| "show_vfs_error (QuotaExceeded s) = ''quota exceeded: '' @ s"
| "show_vfs_error (DeadlineExceeded s) = ''deadline exceeded: '' @ s"
| "show_vfs_error (OutcomeUnknown s) = ''outcome unknown: '' @ s"
| "show_vfs_error (FilesystemRestored s) = ''filesystem restored: '' @ s"

definition DEV_NULL :: string where
  "DEV_NULL = ''/dev/null''"

definition line_end :: string where
  "line_end = [CHR 0x0A]"

definition shell_path :: "string \<Rightarrow> string \<Rightarrow> string" where
  "shell_path path base =
     (let combined = (if starts_with path ''/'' then path
                      else if base = ''/'' then ''/'' @ path
                      else base @ ''/'' @ path);
          parts = norm_parts combined
      in if parts = [] then ''/'' else ''/'' @ join_with slash parts)"

definition shell_read_file :: "('s, 'j) virtual_fs \<Rightarrow> 's \<Rightarrow> string \<Rightarrow> vfs_error + bytes" where
  "shell_read_file F s path = (if path = DEV_NULL then Ok [] else vfs_read F s path)"

definition shell_write_file :: "('s, 'j) virtual_fs \<Rightarrow> 's \<Rightarrow> string \<Rightarrow> bytes \<Rightarrow> 's outcome" where
  "shell_write_file F s path data = (if path = DEV_NULL then (Ok (), s) else vfs_write F s path data)"

definition shell_exists :: "('s, 'j) virtual_fs \<Rightarrow> 's \<Rightarrow> string \<Rightarrow> bool" where
  "shell_exists F s path \<longleftrightarrow> path = DEV_NULL \<or> vfs_exists F s path"

definition shell_metadata :: "('s, 'j) virtual_fs \<Rightarrow> 's \<Rightarrow> string \<Rightarrow> vfs_error + fs_metadata" where
  "shell_metadata F s path = (if path = DEV_NULL then Ok (metadata_file 0) else vfs_metadata F s path)"

section \<open>Commands that read\<close>

definition is_flag :: "string \<Rightarrow> bool" where
  "is_flag a \<longleftrightarrow> starts_with a ''-''"

definition builtin_echo :: "string list \<Rightarrow> command_result" where
  "builtin_echo args = cr_success (join_str '' '' args @ line_end)"

definition file_error :: "string \<Rightarrow> string \<Rightarrow> string \<Rightarrow> command_result" where
  "file_error cmd path e = cr_error 1 (cmd @ '': '' @ path @ '': '' @ e @ line_end)"

definition read_text :: "('s, 'j) virtual_fs \<Rightarrow> 's \<Rightarrow> string \<Rightarrow> string \<Rightarrow> string \<Rightarrow> command_result + string" where
  "read_text F s cwd cmd path =
     (case shell_read_file F s (shell_path path cwd) of
        Inl e \<Rightarrow> Err (file_error cmd path (show_vfs_error e))
      | Inr data \<Rightarrow>
          (case from_utf8 data of
             Inl e \<Rightarrow> Err (file_error cmd path e)
           | Inr t \<Rightarrow> Ok t))"

fun read_all_text :: "('s, 'j) virtual_fs \<Rightarrow> 's \<Rightarrow> string \<Rightarrow> string \<Rightarrow> string \<Rightarrow> string list \<Rightarrow> command_result + string" where
  "read_all_text F s cwd cmd out [] = Ok out"
| "read_all_text F s cwd cmd out (path # paths) =
     (case read_text F s cwd cmd path of
        Inl r \<Rightarrow> Err r
      | Inr t \<Rightarrow> read_all_text F s cwd cmd (out @ t) paths)"

definition builtin_cat :: "string list \<Rightarrow> string \<Rightarrow> ('s, 'j) virtual_fs \<Rightarrow> 's \<Rightarrow> string \<Rightarrow> command_result" where
  "builtin_cat args stdin F s cwd =
     (if args = [] then cr_success stdin
      else case read_all_text F s cwd ''cat'' [] args of Inl r \<Rightarrow> r | Inr out \<Rightarrow> cr_success out)"

definition builtin_ls :: "string list \<Rightarrow> ('s, 'j) virtual_fs \<Rightarrow> 's \<Rightarrow> string \<Rightarrow> command_result" where
  "builtin_ls args F s cwd =
     (let path = (case find (\<lambda>a. \<not> is_flag a) args of Some p \<Rightarrow> shell_path p cwd | None \<Rightarrow> cwd)
      in case vfs_list_dir F s path of
           Inl e \<Rightarrow> cr_error 1 (''ls: '' @ show_vfs_error e @ line_end)
         | Inr entries \<Rightarrow> cr_success (if entries = [] then [] else join_str line_end (sort entries) @ line_end))"

fun parse_n_and_file :: "nat \<Rightarrow> nat \<times> string option \<Rightarrow> string list \<Rightarrow> nat \<times> string option" where
  "parse_n_and_file default_n (n, file) [] = (n, file)"
| "parse_n_and_file default_n (n, file) [a] =
     (if a \<noteq> ''-n'' \<and> \<not> is_flag a then (n, Some a) else (n, file))"
| "parse_n_and_file default_n (n, file) (a # b # args) =
     (if a = ''-n'' then parse_n_and_file default_n (unwrap_or (parse_usize b) default_n, file) args
      else if \<not> is_flag a then parse_n_and_file default_n (n, Some a) (b # args)
      else parse_n_and_file default_n (n, file) (b # args))"

definition get_input :: "string option \<Rightarrow> string \<Rightarrow> ('s, 'j) virtual_fs \<Rightarrow> 's \<Rightarrow> string \<Rightarrow> string \<Rightarrow> command_result + string" where
  "get_input file stdin F s cwd cmd =
     (case file of Some path \<Rightarrow> read_text F s cwd cmd path | None \<Rightarrow> Ok stdin)"

definition show_lines :: "string list \<Rightarrow> command_result" where
  "show_lines ls = cr_success (if ls = [] then [] else join_str line_end ls @ line_end)"

definition builtin_head :: "string list \<Rightarrow> string \<Rightarrow> ('s, 'j) virtual_fs \<Rightarrow> 's \<Rightarrow> string \<Rightarrow> command_result" where
  "builtin_head args stdin F s cwd =
     (let (n, file) = parse_n_and_file 10 (10, None) args
      in case get_input file stdin F s cwd ''head'' of
           Inl r \<Rightarrow> r
         | Inr input \<Rightarrow> show_lines (take n (lines input)))"

definition builtin_tail :: "string list \<Rightarrow> string \<Rightarrow> ('s, 'j) virtual_fs \<Rightarrow> 's \<Rightarrow> string \<Rightarrow> command_result" where
  "builtin_tail args stdin F s cwd =
     (let (n, file) = parse_n_and_file 10 (10, None) args
      in case get_input file stdin F s cwd ''tail'' of
           Inl r \<Rightarrow> r
         | Inr input \<Rightarrow> (let all_lines = lines input in show_lines (drop (length all_lines - n) all_lines)))"

definition builtin_wc :: "string list \<Rightarrow> string \<Rightarrow> ('s, 'j) virtual_fs \<Rightarrow> 's \<Rightarrow> string \<Rightarrow> command_result" where
  "builtin_wc args stdin F s cwd =
     (let flag_l = ''-l'' \<in> set args; flag_w = ''-w'' \<in> set args; flag_c = ''-c'' \<in> set args;
          files = filter (\<lambda>a. \<not> is_flag a) args
      in case (if files = [] then Ok stdin else read_all_text F s cwd ''wc'' [] files) of
           Inl r \<Rightarrow> r
         | Inr input \<Rightarrow>
             (let ls = show_nat (length (lines input)); ws = show_nat (count_words input);
                  cs = show_nat (length input)
              in if \<not> (flag_l \<or> flag_w \<or> flag_c)
                 then cr_success (ls @ '' '' @ ws @ '' '' @ cs @ line_end)
                 else cr_success (join_str '' '' ((if flag_l then [ls] else []) @ (if flag_w then [ws] else []) @
                        (if flag_c then [cs] else [])) @ line_end)))"

definition test_holds :: "string list \<Rightarrow> ('s, 'j) virtual_fs \<Rightarrow> 's \<Rightarrow> string \<Rightarrow> bool" where
  "test_holds args F s cwd =
     (case args of
        [] \<Rightarrow> False
      | [value] \<Rightarrow> value \<noteq> []
      | [flag, path] \<Rightarrow>
          (if flag = ''-e'' \<or> flag = ''-f'' \<or> flag = ''-d''
           then (case shell_metadata F s (shell_path path cwd) of
                   Inl _ \<Rightarrow> False
                 | Inr m \<Rightarrow> if flag = ''-e'' then True else if flag = ''-f'' then \<not> md_is_dir m else md_is_dir m)
           else False)
      | [left, op, right] \<Rightarrow>
          (if op = ''='' \<or> op = ''=='' then left = right else if op = ''!='' then left \<noteq> right else False)
      | _ \<Rightarrow> False)"

definition builtin_test :: "string list \<Rightarrow> ('s, 'j) virtual_fs \<Rightarrow> 's \<Rightarrow> string \<Rightarrow> command_result" where
  "builtin_test args F s cwd =
     (let negated = (args \<noteq> [] \<and> hd args = ''!'');
          ok = test_holds (if negated then tl args else args) F s cwd
      in if ok \<noteq> negated then cr_success [] else cr_error 1 [])"

definition builtin_bracket_test :: "string list \<Rightarrow> ('s, 'j) virtual_fs \<Rightarrow> 's \<Rightarrow> string \<Rightarrow> command_result" where
  "builtin_bracket_test args F s cwd =
     (if args = [] \<or> last args \<noteq> '']'' then cr_error 2 (''[: missing closing '' @ [CHR 0x27] @ '']'' @ [CHR 0x27] @ line_end)
      else builtin_test (butlast args) F s cwd)"

section \<open>Text commands\<close>

definition flag_contains :: "string \<Rightarrow> char \<Rightarrow> bool" where
  "flag_contains arg flag =
     (case strip_prefix arg ''-'' of
        Some short \<Rightarrow>
          if \<not> starts_with short ''-'' then flag \<in> set short
          else (flag = CHR ''n'' \<and> arg = ''--numeric-sort'') \<or> (flag = CHR ''r'' \<and> arg = ''--reverse'') \<or>
               (flag = CHR ''c'' \<and> arg = ''--count'')
      | None \<Rightarrow> False)"

definition push_uniq_line :: "string \<Rightarrow> nat \<Rightarrow> bool \<Rightarrow> string" where
  "push_uniq_line line count show_count =
     (if show_count
      then (let d = show_nat count in replicate (7 - length d) CHR 0x20 @ d @ '' '') else []) @ line @ line_end"

fun uniq_loop :: "bool \<Rightarrow> (string \<times> nat) option \<Rightarrow> string list \<Rightarrow> string" where
  "uniq_loop count prev [] = (case prev of None \<Rightarrow> [] | Some (v, n) \<Rightarrow> push_uniq_line v n count)"
| "uniq_loop count prev (line # ls) =
     (case prev of
        None \<Rightarrow> uniq_loop count (Some (line, 1)) ls
      | Some (v, n) \<Rightarrow>
          if v = line then uniq_loop count (Some (v, n + 1)) ls
          else push_uniq_line v n count @ uniq_loop count (Some (line, 1)) ls)"

definition builtin_uniq :: "string list \<Rightarrow> string \<Rightarrow> command_result" where
  "builtin_uniq args stdin = cr_success (uniq_loop (list_ex (\<lambda>a. flag_contains a CHR ''c'') args) None (lines stdin))"

definition rsplit_slash :: "string \<Rightarrow> (string \<times> string) option" where
  "rsplit_slash s =
     (if slash \<in> set s
      then Some (rev (drop 1 (dropWhile (\<lambda>c. c \<noteq> slash) (rev s))), rev (takeWhile (\<lambda>c. c \<noteq> slash) (rev s)))
      else None)"

definition builtin_basename :: "string list \<Rightarrow> command_result" where
  "builtin_basename args =
     (case args of
        [] \<Rightarrow> cr_error 1 (''basename: missing operand'' @ line_end)
      | path # _ \<Rightarrow>
          (let trimmed = trim_end_char slash path
           in cr_success ((case rsplit_slash trimmed of Some (_, base) \<Rightarrow> base | None \<Rightarrow> trimmed) @ line_end)))"

definition builtin_dirname :: "string list \<Rightarrow> command_result" where
  "builtin_dirname args =
     (case args of
        [] \<Rightarrow> cr_error 1 (''dirname: missing operand'' @ line_end)
      | path # _ \<Rightarrow>
          (let dir = (case rsplit_slash (trim_end_char slash path) of
                        Some (d, _) \<Rightarrow> if d = [] then ''/'' else d
                      | None \<Rightarrow> ''.'')
           in cr_success (dir @ line_end)))"

section \<open>Commands that write\<close>

fun mkdir_recursive_loop :: "('s, 'j) virtual_fs \<Rightarrow> string \<Rightarrow> string list \<Rightarrow> 's \<Rightarrow> (string + unit) \<times> 's" where
  "mkdir_recursive_loop F current [] s = (Ok (), s)"
| "mkdir_recursive_loop F current0 (part # parts) s =
     (let current = current0 @ ''/'' @ part
      in if shell_exists F s current
         then (case shell_metadata F s current of
                 Inl e \<Rightarrow> (Err (show_vfs_error e), s)
               | Inr m \<Rightarrow>
                   if md_is_dir m then mkdir_recursive_loop F current parts s
                   else (Err (''not a directory: '' @ current), s))
         else (case vfs_mkdir F s current of
                 (Inl e, s') \<Rightarrow> (Err (show_vfs_error e), s')
               | (Inr _, s') \<Rightarrow> mkdir_recursive_loop F current parts s'))"

definition mkdir_recursive :: "('s, 'j) virtual_fs \<Rightarrow> string \<Rightarrow> 's \<Rightarrow> (string + unit) \<times> 's" where
  "mkdir_recursive F path s = mkdir_recursive_loop F [] (filter (\<lambda>p. p \<noteq> []) (split_on slash path)) s"

fun mkdir_loop :: "('s, 'j) virtual_fs \<Rightarrow> bool \<Rightarrow> string \<Rightarrow> string list \<Rightarrow> 's \<Rightarrow> command_result \<times> 's" where
  "mkdir_loop F recursive cwd [] s = (cr_success [], s)"
| "mkdir_loop F recursive cwd (path # paths) s =
     (case (if recursive then mkdir_recursive F (shell_path path cwd) s
            else (case vfs_mkdir F s (shell_path path cwd) of
                    (Inl e, s') \<Rightarrow> (Err (show_vfs_error e), s')
                  | (Inr _, s') \<Rightarrow> (Ok (), s'))) of
        (Inl e, s') \<Rightarrow> (cr_error 1 (''mkdir: '' @ e @ line_end), s')
      | (Inr _, s') \<Rightarrow> mkdir_loop F recursive cwd paths s')"

definition builtin_mkdir :: "string list \<Rightarrow> ('s, 'j) virtual_fs \<Rightarrow> string \<Rightarrow> 's \<Rightarrow> command_result \<times> 's" where
  "builtin_mkdir args F cwd s =
     (let recursive = ''-p'' \<in> set args; paths = filter (\<lambda>a. a \<noteq> ''-p'') args
      in if paths = [] then (cr_error 1 (''mkdir: missing operand'' @ line_end), s)
         else mkdir_loop F recursive cwd paths s)"

definition builtin_cp :: "string list \<Rightarrow> ('s, 'j) virtual_fs \<Rightarrow> string \<Rightarrow> 's \<Rightarrow> command_result \<times> 's" where
  "builtin_cp args F cwd s =
     (if length args < 2 then (cr_error 1 (''cp: missing operand'' @ line_end), s)
      else
        (let src = shell_path (args ! 0) cwd; dst = shell_path (args ! 1) cwd
         in case shell_read_file F s src of
              Inl e \<Rightarrow> (file_error ''cp'' src (show_vfs_error e), s)
            | Inr data \<Rightarrow>
                (case shell_write_file F s dst data of
                   (Inr _, s') \<Rightarrow> (cr_success [], s')
                 | (Inl e, s') \<Rightarrow> (file_error ''cp'' dst (show_vfs_error e), s'))))"

definition builtin_mv :: "string list \<Rightarrow> ('s, 'j) virtual_fs \<Rightarrow> string \<Rightarrow> 's \<Rightarrow> command_result \<times> 's" where
  "builtin_mv args F cwd s =
     (if length args < 2 then (cr_error 1 (''mv: missing operand'' @ line_end), s)
      else
        (let src = shell_path (args ! 0) cwd; dst = shell_path (args ! 1) cwd
         in case shell_read_file F s src of
              Inl e \<Rightarrow> (file_error ''mv'' src (show_vfs_error e), s)
            | Inr data \<Rightarrow>
                (case shell_write_file F s dst data of
                   (Inl e, s') \<Rightarrow> (file_error ''mv'' dst (show_vfs_error e), s')
                 | (Inr _, s') \<Rightarrow>
                     (case vfs_remove F s' src of
                        (Inl e, s'') \<Rightarrow> (file_error ''mv'' src (show_vfs_error e), s'')
                      | (Inr _, s'') \<Rightarrow> (cr_success [], s'')))))"

fun rm_loop :: "('s, 'j) virtual_fs \<Rightarrow> bool \<Rightarrow> string \<Rightarrow> string list \<Rightarrow> 's \<Rightarrow> command_result \<times> 's" where
  "rm_loop F recursive cwd [] s = (cr_success [], s)"
| "rm_loop F recursive cwd (path0 # paths) s =
     (let path = shell_path path0 cwd
      in if \<not> recursive \<and> (case shell_metadata F s path of Inr m \<Rightarrow> md_is_dir m | Inl _ \<Rightarrow> False)
         then (cr_error 1 (''rm: '' @ path @ '': is a directory'' @ line_end), s)
         else (case vfs_remove F s path of
                 (Inl e, s') \<Rightarrow> (file_error ''rm'' path (show_vfs_error e), s')
               | (Inr _, s') \<Rightarrow> rm_loop F recursive cwd paths s'))"

definition builtin_rm :: "string list \<Rightarrow> ('s, 'j) virtual_fs \<Rightarrow> string \<Rightarrow> 's \<Rightarrow> command_result \<times> 's" where
  "builtin_rm args F cwd s =
     (let recursive = list_ex (\<lambda>a. a = ''-r'' \<or> a = ''-rf'' \<or> a = ''-fr'') args;
          paths = filter (\<lambda>a. \<not> is_flag a) args
      in if paths = [] then (cr_error 1 (''rm: missing operand'' @ line_end), s)
         else rm_loop F recursive cwd paths s)"

fun tee_loop :: "('s, 'j) virtual_fs \<Rightarrow> string \<Rightarrow> string \<Rightarrow> string list \<Rightarrow> 's \<Rightarrow> command_result \<times> 's" where
  "tee_loop F stdin cwd [] s = (cr_success stdin, s)"
| "tee_loop F stdin cwd (path # paths) s =
     (case shell_write_file F s (shell_path path cwd) stdin of
        (Inl e, s') \<Rightarrow> (file_error ''tee'' path (show_vfs_error e), s')
      | (Inr _, s') \<Rightarrow> tee_loop F stdin cwd paths s')"

fun touch_loop :: "('s, 'j) virtual_fs \<Rightarrow> string \<Rightarrow> string list \<Rightarrow> 's \<Rightarrow> command_result \<times> 's" where
  "touch_loop F cwd [] s = (cr_success [], s)"
| "touch_loop F cwd (path # paths) s =
     (if is_ok (shell_metadata F s (shell_path path cwd)) then touch_loop F cwd paths s
      else case shell_write_file F s (shell_path path cwd) [] of
        (Inl e, s') \<Rightarrow> (file_error ''touch'' path (show_vfs_error e), s')
      | (Inr _, s') \<Rightarrow> touch_loop F cwd paths s')"

definition builtin_touch :: "string list \<Rightarrow> ('s, 'j) virtual_fs \<Rightarrow> string \<Rightarrow> 's \<Rightarrow> command_result \<times> 's" where
  "builtin_touch args F cwd s =
     (let paths = filter (\<lambda>a. \<not> is_flag a) args
      in if paths = [] then (cr_error 1 (''touch: missing file operand'' @ line_end), s)
         else touch_loop F cwd paths s)"

section \<open>The dispatch table\<close>

type_synonym 's other_commands = "string \<Rightarrow> string list \<Rightarrow> string \<Rightarrow> string \<Rightarrow> 's \<Rightarrow> (command_result \<times> 's) option"

definition try_builtin ::
  "'s other_commands \<Rightarrow> string \<Rightarrow> string list \<Rightarrow> string \<Rightarrow> ('s, 'j) virtual_fs \<Rightarrow> string \<Rightarrow> 's \<Rightarrow> (command_result \<times> 's) option" where
  "try_builtin others program args stdin F cwd s =
     (let pure = (\<lambda>r. Some (r, s))
      in if program = ''echo'' then pure (builtin_echo args)
         else if program = ''cat'' then pure (builtin_cat args stdin F s cwd)
         else if program = ''ls'' then pure (builtin_ls args F s cwd)
         else if program = ''mkdir'' then Some (builtin_mkdir args F cwd s)
         else if program = ''true'' then pure (cr_success [])
         else if program = ''false'' then pure (cr_error 1 [])
         else if program = ''cp'' then Some (builtin_cp args F cwd s)
         else if program = ''mv'' then Some (builtin_mv args F cwd s)
         else if program = ''rm'' then Some (builtin_rm args F cwd s)
         else if program = ''head'' then pure (builtin_head args stdin F s cwd)
         else if program = ''tail'' then pure (builtin_tail args stdin F s cwd)
         else if program = ''wc'' then pure (builtin_wc args stdin F s cwd)
         else if program = ''uniq'' then pure (builtin_uniq args stdin)
         else if program = ''tee'' then Some (tee_loop F stdin cwd args s)
         else if program = ''touch'' then Some (builtin_touch args F cwd s)
         else if program = ''test'' then pure (builtin_test args F s cwd)
         else if program = ''['' then pure (builtin_bracket_test args F s cwd)
         else if program = ''basename'' then pure (builtin_basename args)
         else if program = ''dirname'' then pure (builtin_dirname args)
         else others program args stdin cwd s)"

section \<open>Commands act through the filesystem interface\<close>

text \<open>A state reached by some sequence of filesystem calls.\<close>

definition fs_reach :: "('s, 'j) virtual_fs \<Rightarrow> 's \<Rightarrow> 's \<Rightarrow> bool" where
  "fs_reach F s s' \<longleftrightarrow> (\<exists>calls. s' = vfs_run F calls s)"

named_theorems reach_intros \<open>states reached through filesystem calls\<close>

lemma reach_refl [simp, reach_intros]: "fs_reach F s s"
  unfolding fs_reach_def by (intro exI[of _ "[]"]) simp

lemma reach_trans [trans]: "fs_reach F s t \<Longrightarrow> fs_reach F t u \<Longrightarrow> fs_reach F s u"
  unfolding fs_reach_def using vfs_run_append by metis

lemma reach_call: "fs_reach F s (snd (vfs_call F s c))"
  unfolding fs_reach_def by (intro exI[of _ "[c]"]) simp

lemma reach_write: "vfs_write F s p d = (r, s') \<Longrightarrow> fs_reach F s s'"
  using reach_call[of F s "CWrite p d"] by simp

lemma reach_mkdir: "vfs_mkdir F s p = (r, s') \<Longrightarrow> fs_reach F s s'"
  using reach_call[of F s "CMkdir p"] by simp

lemma reach_remove: "vfs_remove F s p = (r, s') \<Longrightarrow> fs_reach F s s'"
  using reach_call[of F s "CRemove p"] by simp

lemma reach_shell_write: "shell_write_file F s p d = (r, s') \<Longrightarrow> fs_reach F s s'"
  using reach_write[of F s p d r s'] by (auto simp: shell_write_file_def split: if_splits)

lemma reach_mkdir_recursive_loop: "fs_reach F s (snd (mkdir_recursive_loop F c ps s))"
proof (induction F c ps s rule: mkdir_recursive_loop.induct)
  case (2 F c part ps s)
  let ?p = "c @ ''/'' @ part"
  obtain r s' where m: "vfs_mkdir F s ?p = (r, s')" by fastforce
  show ?case
  proof (cases "shell_exists F s ?p")
    case True
    then show ?thesis using "2.IH"(1)[OF refl True] by (auto simp: Let_def split: sum.splits)
  next
    case False
    then show ?thesis using "2.IH"(2)[OF refl False m[symmetric]] m reach_mkdir[OF m]
      by (auto simp: Let_def split: sum.splits intro: reach_trans)
  qed
qed simp

lemma reach_mkdir_loop: "fs_reach F s (snd (mkdir_loop F rec cwd ps s))"
proof (induction F rec cwd ps s rule: mkdir_loop.induct)
  case (2 F rec cwd p ps s)
  let ?m = "if rec then mkdir_recursive F (shell_path p cwd) s
            else (case vfs_mkdir F s (shell_path p cwd) of
                    (Inl e, s') \<Rightarrow> (Err (show_vfs_error e), s') | (Inr _, s') \<Rightarrow> (Ok (), s'))"
  obtain r s' where m: "?m = (r, s')" by fastforce
  have "fs_reach F s s'"
    using m reach_mkdir_recursive_loop[of F s "[]"] reach_mkdir[of F s]
    by (auto simp: mkdir_recursive_def split: if_splits prod.splits sum.splits dest!: arg_cong[where f = snd])
  then show ?case
  proof (cases r)
    case (Inr u)
    then have "fs_reach F s' (snd (mkdir_loop F rec cwd ps s'))" using "2.IH"[OF m[symmetric] Inr] by blast
    then show ?thesis using \<open>fs_reach F s s'\<close> m Inr by (auto intro: reach_trans)
  qed (use m in auto)
qed simp

lemma reach_rm_loop: "fs_reach F s (snd (rm_loop F rec cwd ps s))"
proof (induction F rec cwd ps s rule: rm_loop.induct)
  case (2 F rec cwd p ps s)
  obtain r s' where m: "vfs_remove F s (shell_path p cwd) = (r, s')" by fastforce
  show ?case
    using "2.IH"[OF refl _ m[symmetric]] m reach_remove[OF m]
    by (cases r) (auto simp: Let_def intro: reach_trans)
qed simp

lemma reach_tee_loop: "fs_reach F s (snd (tee_loop F stdin cwd ps s))"
proof (induction F stdin cwd ps s rule: tee_loop.induct)
  case (2 F stdin cwd p ps s)
  obtain r s' where m: "shell_write_file F s (shell_path p cwd) stdin = (r, s')" by fastforce
  show ?case using "2.IH"[OF m[symmetric]] m reach_shell_write[OF m] by (cases r) (auto intro: reach_trans)
qed simp

lemma reach_touch_loop: "fs_reach F s (snd (touch_loop F cwd ps s))"
proof (induction F cwd ps s rule: touch_loop.induct)
  case (2 F cwd p ps s)
  obtain r s' where m: "shell_write_file F s (shell_path p cwd) [] = (r, s')" by fastforce
  show ?case
  proof (cases "is_ok (shell_metadata F s (shell_path p cwd))")
    case True
    then show ?thesis using "2.IH"(1) by simp
  next
    case False
    then show ?thesis using "2.IH"(2)[OF False m[symmetric]] m reach_shell_write[OF m] by (cases r) (auto intro: reach_trans)
  qed
qed simp

lemma reach_cp: "fs_reach F s (snd (builtin_cp args F cwd s))"
  by (auto simp: builtin_cp_def Let_def split: sum.splits prod.splits dest: reach_shell_write)

lemma reach_mv: "fs_reach F s (snd (builtin_mv args F cwd s))"
  by (auto simp: builtin_mv_def Let_def split: sum.splits prod.splits dest: reach_shell_write reach_remove intro: reach_trans)

definition others_confined :: "('s, 'j) virtual_fs \<Rightarrow> 's other_commands \<Rightarrow> bool" where
  "others_confined F others \<longleftrightarrow>
     (\<forall>program args stdin cwd s r s'. others program args stdin cwd s = Some (r, s') \<longrightarrow> fs_reach F s s')"

lemma try_builtin_confined:
  assumes "others_confined F others" "try_builtin others program args stdin F cwd s = Some (r, s')"
  shows "fs_reach F s s'"
proof -
  have "s' = s \<or> s' \<in> snd ` {builtin_mkdir args F cwd s, builtin_cp args F cwd s, builtin_mv args F cwd s,
      builtin_rm args F cwd s, tee_loop F stdin cwd args s, builtin_touch args F cwd s} \<or>
      others program args stdin cwd s = Some (r, s')"
    using assms(2) unfolding try_builtin_def Let_def by (auto split: if_splits simp: image_iff)
  moreover have "fs_reach F s (snd (builtin_mkdir args F cwd s))"
    by (simp add: builtin_mkdir_def Let_def reach_mkdir_loop)
  moreover have "fs_reach F s (snd (builtin_rm args F cwd s))"
    by (simp add: builtin_rm_def Let_def reach_rm_loop)
  moreover have "fs_reach F s (snd (builtin_touch args F cwd s))"
    by (simp add: builtin_touch_def Let_def reach_touch_loop)
  ultimately show ?thesis
    using assms(1) reach_cp reach_mv reach_tee_loop unfolding others_confined_def by auto
qed

section \<open>Moving a file\<close>

context file_store
begin

lemma mv_content:
  assumes "inv s" "builtin_mv args F cwd s = (r, s')" "cr_exit_code r = 0"
  defines "src \<equiv> shell_path (args ! 0) cwd" and "dst \<equiv> shell_path (args ! 1) cwd"
  assumes "src \<noteq> DEV_NULL" "dst \<noteq> DEV_NULL"
  shows "content F s' q = (if prefix (norm_parts src) (norm_parts q) then None
    else if norm_parts q = norm_parts dst then content F s src else content F s q)"
proof -
  obtain d where d: "vfs_read F s src = Ok d"
    using assms by (cases "vfs_read F s src")
      (auto simp: builtin_mv_def Let_def shell_read_file_def cr_error_def file_error_def split: if_splits)
  obtain u s1 where w: "vfs_write F s dst d = (Ok u, s1)"
    using assms d by (cases "vfs_write F s dst d"; cases "fst (vfs_write F s dst d)")
      (auto simp: builtin_mv_def Let_def shell_read_file_def shell_write_file_def cr_error_def file_error_def split: if_splits)
  obtain v s2 where m: "vfs_remove F s1 src = (Ok v, s2)"
    using assms d w by (cases "vfs_remove F s1 src"; cases "fst (vfs_remove F s1 src)")
      (auto simp: builtin_mv_def Let_def shell_read_file_def shell_write_file_def cr_error_def file_error_def split: if_splits)
  have "s' = s2"
    using assms d w m
    by (auto simp: builtin_mv_def Let_def shell_read_file_def shell_write_file_def cr_error_def split: if_splits)
  moreover have "inv s1" using write_inv[OF assms(1), of dst d] w by simp
  moreover have "content F s src = Some d" by (simp add: content_def d)
  ultimately show ?thesis using remove_content[OF _ m] write_content[OF assms(1) w] by simp
qed

end

text \<open>
  A successful \<^verbatim>\<open>mv\<close> over the in-memory filesystem: afterwards nothing is stored at or below the
  normalised source, the normalised destination holds the bytes the source had, and every other path is as
  before.  The destination rule only applies when it is not at or below the source: moving a file onto
  itself, under any spelling, exits 0 and leaves neither file.
\<close>

theorem mv_moves_exactly:
  assumes "mem_inv s" "builtin_mv args (memory_fs a b) cwd s = (r, s')" "cr_exit_code r = 0"
    and "shell_path (args ! 0) cwd \<noteq> DEV_NULL" "shell_path (args ! 1) cwd \<noteq> DEV_NULL"
  shows "content (memory_fs a b) s' q =
    (if prefix (norm_parts (shell_path (args ! 0) cwd)) (norm_parts q) then None
     else if norm_parts q = norm_parts (shell_path (args ! 1) cwd)
       then content (memory_fs a b) s (shell_path (args ! 0) cwd)
     else content (memory_fs a b) s q)"
  by (rule mem.mv_content[OF assms])

theorem mv_moves_exactly_witness:
  "\<exists>r s'. builtin_mv [''/tmp/x'', ''x''] (memory_fs plain_codec plain_codec) ''/tmp'' locked_sample = (r, s') \<and>
     cr_exit_code r = 0 \<and> content (memory_fs plain_codec plain_codec) locked_sample ''/tmp/x'' = Some ''t'' \<and>
     content (memory_fs plain_codec plain_codec) s' ''/tmp/x'' = None"
proof -
  obtain r s' where m: "builtin_mv [''/tmp/x'', ''x''] (memory_fs plain_codec plain_codec) ''/tmp'' locked_sample = (r, s')"
    by fastforce
  have e: "cr_exit_code (fst (builtin_mv [''/tmp/x'', ''x''] (memory_fs plain_codec plain_codec) ''/tmp'' locked_sample)) = 0"
    by code_simp
  have c: "content (memory_fs plain_codec plain_codec) locked_sample ''/tmp/x'' = Some ''t''" by code_simp
  have d: "shell_path ([''/tmp/x'', ''x''] ! 0) ''/tmp'' \<noteq> DEV_NULL" "shell_path ([''/tmp/x'', ''x''] ! 1) ''/tmp'' \<noteq> DEV_NULL"
    by code_simp+
  have p: "prefix (norm_parts (shell_path ([''/tmp/x'', ''x''] ! 0) ''/tmp'')) (norm_parts ''/tmp/x'')" by code_simp
  show ?thesis
    using mv_moves_exactly[OF locked_sample_inv m _ d, of "''/tmp/x''"] e m c p by (intro exI[of _ r] exI[of _ s']) simp
qed

end
