(* ===== verification/Shell_Exec.thy ===== *)
theory Shell_Exec
  imports Shell_Parser Shell_Builtins "HOL-Library.Monad_Syntax"
begin

text \<open>
  The shell executor (\<^verbatim>\<open>simulacra-shell/src/executor.rs\<close>, \<^verbatim>\<open>expansion.rs\<close>, \<^verbatim>\<open>redirects.rs\<close>).
  Expansion, redirection and execution call each other through command substitution, so each takes the
  run function \<open>R\<close> it uses for \<^verbatim>\<open>$(...)\<close>; \<open>shell_run\<close> ties the knot with fuel.  \<^const>\<open>None\<close> stands for a
  call that has not returned within the fuel or whose parse loops.
\<close>

section \<open>State and context\<close>

record 's shell =
  sh_fs :: 's
  sh_env :: "(string, string) btree"
  sh_last_status :: int
  sh_cwd :: string

text \<open>The filesystem dictionary, the commands of the files not modelled, the optional runner of external
  programs and the Unicode letter-or-digit test of a non-ASCII scalar.\<close>

record ('s, 'j) shell_ctx =
  sc_fs :: "('s, 'j) virtual_fs"
  sc_others :: "'s other_commands"
  sc_external :: "'s other_commands option"
  sc_alnum :: "string \<Rightarrow> bool"

type_synonym 's runner = "string \<Rightarrow> 's shell \<Rightarrow> (command_result \<times> 's shell) option"

definition show_int :: "int \<Rightarrow> string" where
  "show_int i = (if i < 0 then ''-'' @ show_nat (nat (- i)) else show_nat (nat i))"

section \<open>Expansion\<close>

fun read_cmd :: "nat \<Rightarrow> string \<Rightarrow> string \<times> string" where
  "read_cmd depth [] = ([], [])"
| "read_cmd depth (c # cs) =
     (if c = CHR ''('' then (let (cmd, rest) = read_cmd (depth + 1) cs in (c # cmd, rest))
      else if c = CHR '')''
      then (if depth - 1 = 0 then ([], cs)
            else (let (cmd, rest) = read_cmd (depth - 1) cs in (c # cmd, rest)))
      else (let (cmd, rest) = read_cmd depth cs in (c # cmd, rest)))"

definition is_ascii_alnum :: "char \<Rightarrow> bool" where
  "is_ascii_alnum c \<longleftrightarrow>
     (CHR ''0'' \<le> c \<and> c \<le> CHR ''9'') \<or> (CHR ''A'' \<le> c \<and> c \<le> CHR ''Z'') \<or> (CHR ''a'' \<le> c \<and> c \<le> CHR ''z'')"

text \<open>The bytes of the next character of a variable name, none when the name ends here.\<close>

definition name_char_len :: "(string \<Rightarrow> bool) \<Rightarrow> string \<Rightarrow> nat" where
  "name_char_len alnum r =
     (if r = [] then 0
      else if is_ascii_alnum (hd r) \<or> hd r = CHR ''_'' then 1
      else if hd r < CHR 0x80 then 0
      else case utf8_first r of Inr w \<Rightarrow> if alnum (take w r) then w else 0 | Inl _ \<Rightarrow> 0)"

function read_name :: "(string \<Rightarrow> bool) \<Rightarrow> string \<Rightarrow> string \<times> string" where
  "read_name alnum r =
     (let n = name_char_len alnum r
      in if n = 0 \<or> r = [] then ([], r)
         else (let (name, rest) = read_name alnum (drop n r) in (take n r @ name, rest)))"
  by pat_completeness auto
termination
  by (relation "measure (\<lambda>(a, r). length r)") auto

declare read_name.simps [simp del]

lemma read_name_length: "length (snd (read_name alnum r)) \<le> length r"
proof (induction alnum r rule: read_name.induct)
  case (1 alnum r)
  then show ?case by (subst read_name.simps) (auto simp: Let_def split: prod.splits)
qed

lemma read_cmd_length: "length (snd (read_cmd d r)) \<le> length r \<and> length (fst (read_cmd d r)) \<le> length r"
  by (induction d r rule: read_cmd.induct) (auto simp: Let_def split: prod.splits)

lemma read_name_set: "set (snd (read_name alnum r)) \<subseteq> set r"
proof (induction alnum r rule: read_name.induct)
  case (1 alnum r)
  show ?case
  proof (cases "name_char_len alnum r = 0 \<or> r = []")
    case True
    then show ?thesis by (subst read_name.simps) (simp only: Let_def if_True snd_conv order_refl)
  next
    case False
    let ?p = "read_name alnum (drop (name_char_len alnum r) r)"
    have "snd (read_name alnum r) = snd ?p"
      using False by (subst read_name.simps) (cases ?p, simp add: Let_def)
    then show ?thesis using 1[OF refl False] set_drop_subset[of "name_char_len alnum r" r] by simp
  qed
qed

lemma read_cmd_set: "set (fst (read_cmd d r)) \<subseteq> set r \<and> set (snd (read_cmd d r)) \<subseteq> set r"
  by (induction d r rule: read_cmd.induct) (auto simp: Let_def split: prod.splits)

lemma read_name_rest: "(name, rest) = read_name alnum r \<Longrightarrow> length rest \<le> length r"
  using read_name_length[of alnum r] by (metis snd_conv)

lemma read_cmd_rest: "(cmd, rest) = read_cmd d r \<Longrightarrow> length rest \<le> length r"
  using read_cmd_length[of d r] by (metis snd_conv)

definition env_value :: "(string, string) btree \<Rightarrow> string \<Rightarrow> string" where
  "env_value env name = unwrap_or (bt_get env name) []"

lemma brace_rest_length: "length (drop 1 (dropWhile P (tl cs))) \<le> length cs"
  using length_dropWhile_le[of P "tl cs"] by simp

function expand_loop ::
  "(string \<Rightarrow> bool) \<Rightarrow> 's runner \<Rightarrow> (string, string) btree \<Rightarrow> int \<Rightarrow> string \<Rightarrow> 's shell \<Rightarrow> (string \<times> 's shell) option" where
  "expand_loop alnum R env status r st =
     (case r of
        [] \<Rightarrow> Some ([], st)
      | c # cs \<Rightarrow>
          if c = CHR ''$'' \<and> cs \<noteq> [] then
            (if hd cs = CHR ''('' then
               (let (cmd, rest) = read_cmd 1 (tl cs)
                in case R cmd st of
                     None \<Rightarrow> None
                   | Some (res, st1) \<Rightarrow>
                       (case expand_loop alnum R env (cr_exit_code res) rest st1 of
                          None \<Rightarrow> None
                        | Some (out, st2) \<Rightarrow> Some (trim_end_char newline (cr_stdout res) @ out, st2)))
             else if hd cs = CHR ''?'' then
               map_option (\<lambda>(out, st1). (show_int status @ out, st1)) (expand_loop alnum R env status (tl cs) st)
             else if hd cs = CHR ''{'' then
               (let name = takeWhile (\<lambda>x. x \<noteq> CHR ''}'') (tl cs);
                    rest = drop 1 (dropWhile (\<lambda>x. x \<noteq> CHR ''}'') (tl cs));
                    val = (if name = ''?'' then show_int status else env_value env name)
                in map_option (\<lambda>(out, st1). (val @ out, st1)) (expand_loop alnum R env status rest st))
             else
               (let (name, rest) = read_name alnum cs
                in map_option (\<lambda>(out, st1). (env_value env name @ out, st1)) (expand_loop alnum R env status rest st)))
          else map_option (\<lambda>(out, st1). (c # out, st1)) (expand_loop alnum R env status cs st))"
  by pat_completeness auto

termination
proof (relation "measure (\<lambda>(al, R, env, status, r, st). length r)", goal_cases)
  case (2 al R env status r st c cs x cmd rest a res st1)
  then show ?case using read_cmd_rest[of cmd rest 1 "tl cs"] by (cases cs) auto
next
  case (4 al R env status r st c cs name rest val)
  then show ?case using brace_rest_length[of "\<lambda>x. x \<noteq> CHR ''}''" cs] by auto
next
  case (5 al R env status r st c cs x name rest)
  then show ?case using read_name_rest[of name rest al cs] by auto
qed auto

declare expand_loop.simps [simp del]

text \<open>The branches of the loop as equations.\<close>

lemma expand_nil: "expand_loop alnum R env status [] st = Some ([], st)"
  by (simp add: expand_loop.simps)

lemma expand_sub: "read_cmd 1 cs = (cmd, rest) \<Longrightarrow>
  expand_loop alnum R env status (CHR ''$'' # CHR ''('' # cs) st =
    (case R cmd st of
       None \<Rightarrow> None
     | Some (res, st1) \<Rightarrow>
         map_option (\<lambda>(out, st2). (trim_end_char newline (cr_stdout res) @ out, st2))
           (expand_loop alnum R env (cr_exit_code res) rest st1))"
  by (subst expand_loop.simps) (auto split: option.splits)

lemma expand_status: "expand_loop alnum R env status (CHR ''$'' # CHR ''?'' # cs) st =
    map_option (\<lambda>(out, st1). (show_int status @ out, st1)) (expand_loop alnum R env status cs st)"
  by (subst expand_loop.simps) simp

lemma expand_brace: "name = takeWhile (\<lambda>x. x \<noteq> CHR ''}'') cs \<Longrightarrow> rest = drop 1 (dropWhile (\<lambda>x. x \<noteq> CHR ''}'') cs) \<Longrightarrow>
  expand_loop alnum R env status (CHR ''$'' # CHR ''{'' # cs) st =
    map_option (\<lambda>(out, st1). ((if name = ''?'' then show_int status else env_value env name) @ out, st1))
      (expand_loop alnum R env status rest st)"
  by (subst expand_loop.simps) (simp add: Let_def)

lemma expand_name: "c \<notin> {CHR ''('', CHR ''?'', CHR ''{''} \<Longrightarrow> read_name alnum (c # cs) = (name, rest) \<Longrightarrow>
  expand_loop alnum R env status (CHR ''$'' # c # cs) st =
    map_option (\<lambda>(out, st1). (env_value env name @ out, st1)) (expand_loop alnum R env status rest st)"
  by (subst expand_loop.simps) simp

lemma expand_lit: "c \<noteq> CHR ''$'' \<or> cs = [] \<Longrightarrow>
  expand_loop alnum R env status (c # cs) st =
    map_option (\<lambda>(out, st1). (c # out, st1)) (expand_loop alnum R env status cs st)"
  by (subst expand_loop.simps) auto

lemma expand_cases [case_names nil sub status brace name lit]:
  obtains "r = []"
  | cs cmd rest where "r = CHR ''$'' # CHR ''('' # cs" "read_cmd 1 cs = (cmd, rest)"
      "length rest < length r" "Suc (length cmd) < length r" "set rest \<union> set cmd \<subseteq> set r"
  | cs where "r = CHR ''$'' # CHR ''?'' # cs"
  | cs name rest where "r = CHR ''$'' # CHR ''{'' # cs" "name = takeWhile (\<lambda>x. x \<noteq> CHR ''}'') cs"
      "rest = drop 1 (dropWhile (\<lambda>x. x \<noteq> CHR ''}'') cs)" "length rest < length r" "set rest \<subseteq> set r"
  | c cs name rest where "r = CHR ''$'' # c # cs" "c \<notin> {CHR ''('', CHR ''?'', CHR ''{''}"
      "read_name alnum (c # cs) = (name, rest)" "length rest < length r" "set rest \<subseteq> set r"
  | c cs where "r = c # cs" "c \<noteq> CHR ''$'' \<or> cs = []"
proof (cases r)
  case (Cons d ds)
  show thesis
  proof (cases "d \<noteq> CHR ''$'' \<or> ds = []")
    case False
    then obtain c cs where r: "r = CHR ''$'' # c # cs" using Cons by (cases ds) auto
    obtain cmd rest where s: "read_cmd 1 cs = (cmd, rest)" by fastforce
    obtain name rest' where n: "read_name alnum (c # cs) = (name, rest')" by fastforce
    have b: "length (drop 1 (dropWhile (\<lambda>x. x \<noteq> CHR ''}'') cs)) < length r"
      using length_dropWhile_le[of "\<lambda>x. x \<noteq> CHR ''}''" cs] r by simp
    have b': "set (drop 1 (dropWhile (\<lambda>x. x \<noteq> CHR ''}'') cs)) \<subseteq> set r"
      using set_drop_subset[of 1 "dropWhile (\<lambda>x. x \<noteq> CHR ''}'') cs"] set_dropWhileD[of _ "\<lambda>x. x \<noteq> CHR ''}''" cs] r
      by auto
    consider "c = CHR ''(''" | "c = CHR ''?''" | "c = CHR ''{''" | "c \<notin> {CHR ''('', CHR ''?'', CHR ''{''}" by blast
    then show thesis
      using r s n b read_cmd_length[of 1 cs] read_name_length[of alnum "c # cs"] read_cmd_set[of 1 cs]
        read_name_set[of alnum "c # cs"] that(2)[OF _ s] that(3) that(4)[OF _ refl refl b b'] that(5)[OF r _ n]
      by cases auto
  qed (use Cons that(6) in blast)
qed (use that(1) in blast)

definition expand_vars :: "('s, 'j) shell_ctx \<Rightarrow> 's runner \<Rightarrow> string \<Rightarrow> 's shell \<Rightarrow> (string \<times> 's shell) option" where
  "expand_vars C R input st = expand_loop (sc_alnum C) R (sh_env st) (sh_last_status st) input st"

section \<open>Redirections\<close>

datatype destination = DStdout | DStderr | DNull | DFile string redirect_kind

fun resolve_targets ::
  "(string \<Rightarrow> 's shell \<Rightarrow> (string \<times> 's shell) option) \<Rightarrow> string \<Rightarrow> redirect list \<Rightarrow> destination \<Rightarrow> destination \<Rightarrow>
   's shell \<Rightarrow> (destination \<times> destination \<times> 's shell) option" where
  "resolve_targets expand cwd [] out err st = Some (out, err, st)"
| "resolve_targets expand cwd (rd # rds) out err st =
     do {
       (target, st1) \<leftarrow>
         (case rd_target rd of
            ToStdout \<Rightarrow> Some (out, st)
          | ToStderr \<Rightarrow> Some (err, st)
          | ToFile w literal \<Rightarrow>
              do {
                (w1, st1) \<leftarrow> (if literal then Some (w, st) else expand w st);
                let path = shell_path w1 cwd;
                Some (if path = DEV_NULL then DNull else DFile path (rd_kind rd), st1)
              });
       (case rd_stream rd of
          StrStdout \<Rightarrow> resolve_targets expand cwd rds target err st1
        | StrStderr \<Rightarrow> resolve_targets expand cwd rds out target st1
        | StrBoth \<Rightarrow> resolve_targets expand cwd rds target target st1)
     }"

record file_write =
  fw_target :: string
  fw_kind :: redirect_kind
  fw_content :: string

fun emit_output ::
  "destination \<Rightarrow> string \<Rightarrow> command_result \<times> file_write list \<Rightarrow> command_result \<times> file_write list" where
  "emit_output DStdout text (r, ws) = (r\<lparr>cr_stdout := cr_stdout r @ text\<rparr>, ws)"
| "emit_output DStderr text (r, ws) = (r\<lparr>cr_stderr := cr_stderr r @ text\<rparr>, ws)"
| "emit_output DNull text (r, ws) = (r, ws)"
| "emit_output (DFile p k) text (r, ws) = (r, ws @ [\<lparr>fw_target = p, fw_kind = k, fw_content = text\<rparr>])"

fun merge_write :: "file_write list \<Rightarrow> file_write \<Rightarrow> file_write list" where
  "merge_write [] w = [w]"
| "merge_write (e # es) w =
     (if fw_target e = fw_target w \<and> fw_kind e = fw_kind w
      then e\<lparr>fw_content := fw_content e @ fw_content w\<rparr> # es
      else e # merge_write es w)"

definition redirect_error :: "string \<Rightarrow> vfs_error \<Rightarrow> string" where
  "redirect_error target e = ''redirect: '' @ target @ '': '' @ show_vfs_error e @ line_end"

definition write_one :: "('s, 'j) virtual_fs \<Rightarrow> string \<Rightarrow> bytes \<Rightarrow> 's \<Rightarrow> (string + unit) \<times> 's" where
  "write_one F target data s =
     (case vfs_write F s target data of
        (Inl e, s') \<Rightarrow> (Err (redirect_error target e), s')
      | (Inr _, s') \<Rightarrow> (Ok (), s'))"

fun write_merged :: "('s, 'j) virtual_fs \<Rightarrow> file_write list \<Rightarrow> 's \<Rightarrow> (string + unit) \<times> 's" where
  "write_merged F [] s = (Ok (), s)"
| "write_merged F (w # ws) s =
     (case (case fw_kind w of
              Truncate \<Rightarrow> write_one F (fw_target w) (fw_content w) s
            | Append \<Rightarrow>
                (case vfs_read F s (fw_target w) of
                   Inr d \<Rightarrow> write_one F (fw_target w) (from_utf8_lossy d @ fw_content w) s
                 | Inl (NotFound _) \<Rightarrow> write_one F (fw_target w) (fw_content w) s
                 | Inl e \<Rightarrow> (Err (redirect_error (fw_target w) e), s))) of
        (Inl m, s') \<Rightarrow> (Err m, s')
      | (Inr _, s') \<Rightarrow> write_merged F ws s')"

definition write_redirect_files :: "('s, 'j) virtual_fs \<Rightarrow> file_write list \<Rightarrow> 's \<Rightarrow> (string + unit) \<times> 's" where
  "write_redirect_files F ws s = write_merged F (foldl merge_write [] ws) s"

definition apply_redirects ::
  "('s, 'j) shell_ctx \<Rightarrow> (string \<Rightarrow> 's shell \<Rightarrow> (string \<times> 's shell) option) \<Rightarrow> command_result \<Rightarrow> redirect list \<Rightarrow>
   string \<Rightarrow> 's shell \<Rightarrow> ((string + unit) \<times> command_result \<times> 's shell) option" where
  "apply_redirects C expand result redirects cwd st =
     (if redirects = [] then Some (Ok (), result, st)
      else do {
        (out, err, st1) \<leftarrow> resolve_targets expand cwd redirects DStdout DStderr st;
        let original_stdout = cr_stdout result;
        let original_stderr = cr_stderr result;
        let (r, ws) = emit_output err original_stderr
              (emit_output out original_stdout (result\<lparr>cr_stdout := [], cr_stderr := []\<rparr>, []));
        let (res, s') = write_redirect_files (sc_fs C) ws (sh_fs st1);
        let st2 = st1\<lparr>sh_fs := s'\<rparr>;
        Some (case res of
                Inl message \<Rightarrow> (Err message, r\<lparr>cr_stdout := original_stdout, cr_stderr := original_stderr\<rparr>, st2)
              | Inr _ \<Rightarrow> (Ok (), r, st2))
      })"

section \<open>Commands\<close>

definition known_commands :: "string list" where
  "known_commands =
     [''echo'', ''cat'', ''ls'', ''mkdir'', ''grep'', ''rg'', ''true'', ''false'', ''cp'', ''mv'', ''rm'',
      ''head'', ''tail'', ''sed'', ''wc'', ''find'', ''sort'', ''uniq'', ''cut'', ''tr'', ''tee'', ''awk'', ''jq'',
      ''curl'', ''wget'', ''touch'', ''test'', ''['', ''printf'', ''basename'', ''dirname'', ''node'', ''nodejs'',
      ''python'', ''python3'', ''cd'', ''pwd'', ''env'', ''which'', ''export'']"

definition is_known_command :: "string \<Rightarrow> bool" where
  "is_known_command name \<longleftrightarrow> name \<in> set known_commands"

definition builtin_which :: "string list \<Rightarrow> command_result" where
  "builtin_which args =
     (if args = [] then cr_error 1 (''which: missing operand'' @ line_end)
      else \<lparr>cr_stdout = concat (map (\<lambda>n. n @ '': shell builtin'' @ line_end) (filter is_known_command args)),
            cr_stderr = [], cr_exit_code = (if list_all is_known_command args then 0 else 1)\<rparr>)"

definition builtin_cd :: "('s, 'j) shell_ctx \<Rightarrow> string list \<Rightarrow> 's shell \<Rightarrow> command_result \<times> 's shell" where
  "builtin_cd C args st =
     (let target = (if args = [] then ''/'' else shell_path (hd args) (sh_cwd st))
      in case vfs_metadata (sc_fs C) (sh_fs st) target of
           Inr m \<Rightarrow>
             if md_is_dir m then (cr_success [], st\<lparr>sh_cwd := target\<rparr>)
             else (cr_error 1 (''cd: not a directory: '' @ target @ line_end), st)
         | Inl _ \<Rightarrow> (cr_error 1 (''cd: no such file or directory: '' @ target @ line_end), st))"

fun export_loop :: "string list \<Rightarrow> (string, string) btree \<Rightarrow> (string, string) btree" where
  "export_loop [] env = env"
| "export_loop (arg # args) env =
     export_loop args (case split_once CHR ''='' arg of Some (k, v) \<Rightarrow> bt_insert k v env | None \<Rightarrow> env)"

definition show_env :: "(string, string) btree \<Rightarrow> string" where
  "show_env env = concat (map (\<lambda>(k, v). k @ ''='' @ v @ line_end) env)"

definition with_fs :: "'s shell \<Rightarrow> command_result \<times> 's \<Rightarrow> command_result \<times> 's shell" where
  "with_fs st rs = (fst rs, st\<lparr>sh_fs := snd rs\<rparr>)"

text \<open>The dispatch once program and arguments are expanded.\<close>

definition dispatch ::
  "('s, 'j) shell_ctx \<Rightarrow> string \<Rightarrow> string list \<Rightarrow> string \<Rightarrow> 's shell \<Rightarrow> command_result \<times> 's shell" where
  "dispatch C program args stdin st =
     (if program = [] then (cr_success [], st)
      else if program = ''export'' then (cr_success [], st\<lparr>sh_env := export_loop args (sh_env st)\<rparr>)
      else if program = ''cd'' then builtin_cd C args st
      else if program = ''pwd'' then (cr_success (sh_cwd st @ line_end), st)
      else if program = ''env'' then (cr_success (show_env (sh_env st)), st)
      else if program = ''which'' then (builtin_which args, st)
      else case try_builtin (sc_others C) program args stdin (sc_fs C) (sh_cwd st) (sh_fs st) of
             Some rs \<Rightarrow> with_fs st rs
           | None \<Rightarrow>
               (case (case sc_external C of Some ext \<Rightarrow> ext program args stdin (sh_cwd st) (sh_fs st) | None \<Rightarrow> None) of
                  Some rs \<Rightarrow> with_fs st rs
                | None \<Rightarrow> (cr_error 127 (''command not found: '' @ program @ line_end), st)))"

fun expand_args ::
  "(string \<Rightarrow> 's shell \<Rightarrow> (string \<times> 's shell) option) \<Rightarrow> string list \<Rightarrow> bool list \<Rightarrow> 's shell \<Rightarrow> (string list \<times> 's shell) option" where
  "expand_args expand [] lits st = Some ([], st)"
| "expand_args expand (a # as) lits st =
     do {
       (x, st1) \<leftarrow> (if lits \<noteq> [] \<and> hd lits then Some (a, st) else expand a st);
       (xs, st2) \<leftarrow> expand_args expand as (drop 1 lits) st1;
       Some (x # xs, st2)
     }"

definition execute_command ::
  "('s, 'j) shell_ctx \<Rightarrow> 's runner \<Rightarrow> command \<Rightarrow> string \<Rightarrow> 's shell \<Rightarrow> (command_result \<times> 's shell) option" where
  "execute_command C R cmd stdin st =
     do {
       (program, st1) \<leftarrow> (if cmd_program_literal cmd then Some (cmd_program cmd, st) else expand_vars C R (cmd_program cmd) st);
       (args, st2) \<leftarrow> expand_args (expand_vars C R) (cmd_args cmd) (cmd_literal_args cmd) st1;
       Some (dispatch C program args stdin st2)
     }"

fun pipeline_run ::
  "('s, 'j) shell_ctx \<Rightarrow> 's runner \<Rightarrow> command list \<Rightarrow> string \<Rightarrow> string \<Rightarrow> command_result \<Rightarrow> 's shell \<Rightarrow>
   (command_result \<times> 's shell) option" where
  "pipeline_run C R [] stdin acc_err prev st = Some (prev\<lparr>cr_stderr := acc_err\<rparr>, st)"
| "pipeline_run C R (cmd # cmds) stdin acc_err prev st =
     do {
       (result, st1) \<leftarrow> execute_command C R cmd (unwrap_or (cmd_heredoc cmd) stdin) st;
       (res, result1, st2) \<leftarrow> apply_redirects C (expand_vars C R) result (cmd_redirects cmd) (sh_cwd st1) st1;
       let result2 = (case res of
                        Inl message \<Rightarrow> result1\<lparr>cr_exit_code := 1, cr_stderr := cr_stderr result1 @ message\<rparr>
                      | Inr _ \<Rightarrow> result1);
       pipeline_run C R cmds (cr_stdout result2) (acc_err @ cr_stderr result2) result2 st2
     }"

definition execute_pipeline ::
  "('s, 'j) shell_ctx \<Rightarrow> 's runner \<Rightarrow> shell_pipeline \<Rightarrow> 's shell \<Rightarrow> (command_result \<times> 's shell) option" where
  "execute_pipeline C R pl st =
     (if pl = [] then Some (cr_success [], st) else pipeline_run C R pl [] [] (cr_success []) st)"

definition should_execute :: "connector option \<Rightarrow> int \<Rightarrow> bool" where
  "should_execute previous last_exit_code =
     (case previous of
        None \<Rightarrow> True
      | Some ConnSemicolon \<Rightarrow> True
      | Some ConnAnd \<Rightarrow> last_exit_code = 0
      | Some ConnOr \<Rightarrow> last_exit_code \<noteq> 0)"

fun line_run ::
  "('s, 'j) shell_ctx \<Rightarrow> 's runner \<Rightarrow> shell_line \<Rightarrow> connector option \<Rightarrow> command_result \<Rightarrow> 's shell \<Rightarrow>
   (command_result \<times> 's shell) option" where
  "line_run C R [] previous acc st = Some (acc, st)"
| "line_run C R (item # items) previous acc st =
     (if should_execute previous (cr_exit_code acc)
      then do {
        (result, st1) \<leftarrow> execute_pipeline C R (si_pipeline item) st;
        line_run C R items (si_connector item)
          \<lparr>cr_stdout = cr_stdout acc @ cr_stdout result, cr_stderr = cr_stderr acc @ cr_stderr result,
           cr_exit_code = cr_exit_code result\<rparr>
          (st1\<lparr>sh_last_status := cr_exit_code result\<rparr>)
      }
      else line_run C R items (si_connector item) acc st)"

definition execute_line ::
  "('s, 'j) shell_ctx \<Rightarrow> 's runner \<Rightarrow> shell_line \<Rightarrow> 's shell \<Rightarrow> (command_result \<times> 's shell) option" where
  "execute_line C R line st = line_run C R line None (cr_success []) st"

fun shell_run :: "('s, 'j) shell_ctx \<Rightarrow> nat \<Rightarrow> 's runner" where
  "shell_run C 0 input st = None"
| "shell_run C (Suc fuel) input st =
     (case parse_line input of None \<Rightarrow> None | Some line \<Rightarrow> execute_line C (shell_run C fuel) line st)"

definition shell_new :: "'s \<Rightarrow> (string, string) btree \<Rightarrow> 's shell" where
  "shell_new s env = \<lparr>sh_fs = s, sh_env = env, sh_last_status = 0, sh_cwd = ''/''\<rparr>"

definition dir_exists :: "('s, 'j) virtual_fs \<Rightarrow> 's \<Rightarrow> string \<Rightarrow> bool" where
  "dir_exists F s path = (case vfs_metadata F s path of Inr m \<Rightarrow> md_is_dir m | Inl _ \<Rightarrow> False)"

definition with_cwd :: "('s, 'j) virtual_fs \<Rightarrow> string \<Rightarrow> 's shell \<Rightarrow> 's shell" where
  "with_cwd F cwd st =
     (let candidate = shell_path cwd ''/''
      in st\<lparr>sh_cwd := (if dir_exists F (sh_fs st) candidate then candidate else ''/'')\<rparr>)"

definition try_with_cwd :: "('s, 'j) virtual_fs \<Rightarrow> string \<Rightarrow> 's shell \<Rightarrow> vfs_error + 's shell" where
  "try_with_cwd F cwd st =
     (let candidate = shell_path cwd ''/''
      in case vfs_metadata F (sh_fs st) candidate of
           Inl e \<Rightarrow> Err e
         | Inr m \<Rightarrow> if md_is_dir m then Ok (st\<lparr>sh_cwd := candidate\<rparr>) else Err (NotADirectory candidate))"

section \<open>Effects of a run\<close>

text \<open>A relation kept by every change the executor makes to its own state is kept by every run.\<close>

definition ctx_confined :: "('s, 'j) shell_ctx \<Rightarrow> bool" where
  "ctx_confined C \<longleftrightarrow> others_confined (sc_fs C) (sc_others C) \<and>
     (\<forall>ext. sc_external C = Some ext \<longrightarrow> others_confined (sc_fs C) ext)"

lemma shell_path_root: "shell_path ''/'' ''/'' = ''/''"
  by code_simp

locale shell_effect =
  fixes F :: "('s, 'j) virtual_fs" and Q :: "'s shell \<Rightarrow> 's shell \<Rightarrow> bool"
  assumes eff_refl: "Q st st"
    and eff_trans: "Q st1 st2 \<Longrightarrow> Q st2 st3 \<Longrightarrow> Q st1 st3"
    and eff_fs: "fs_reach F (sh_fs st) s' \<Longrightarrow> Q st (st\<lparr>sh_fs := s'\<rparr>)"
    and eff_env: "Q st (st\<lparr>sh_env := env\<rparr>)"
    and eff_status: "Q st (st\<lparr>sh_last_status := n\<rparr>)"
    and eff_cwd: "Q st (st\<lparr>sh_cwd := shell_path p base\<rparr>)"
begin

definition keeps :: "('a \<Rightarrow> 's shell \<Rightarrow> ('b \<times> 's shell) option) \<Rightarrow> bool" where
  "keeps f \<longleftrightarrow> (\<forall>x st y st'. f x st = Some (y, st') \<longrightarrow> Q st st')"

lemma keepsD: "keeps f \<Longrightarrow> f x st = Some (y, st') \<Longrightarrow> Q st st'"
  by (auto simp: keeps_def)

lemma expand_loop_keeps:
  assumes "keeps R"
  shows "expand_loop alnum R env status r st = Some (out, st') \<Longrightarrow> Q st st'"
proof (induction r arbitrary: status st out rule: length_induct)
  case (1 r)
  have IH: "Q st1 st'" if "length rest < length r" "expand_loop alnum R env k rest st1 = Some (o1, st')" for rest k st1 o1
    using 1(1) that by blast
  show ?case
  proof (cases r rule: expand_cases[where alnum = alnum])
    case nil
    then show ?thesis using 1(2) eff_refl by (simp add: expand_nil)
  next
    case (sub cs cmd rest)
    then obtain res st1 o1 where R: "R cmd st = Some (res, st1)"
      and e: "expand_loop alnum R env (cr_exit_code res) rest st1 = Some (o1, st')"
      using 1(2) by (auto simp: expand_sub split: option.splits)
    show ?thesis using eff_trans[OF keepsD[OF assms R] IH[OF _ e]] sub read_cmd_rest[of cmd rest 1 cs] by auto
  next
    case (status cs)
    then show ?thesis using 1(2) IH[of cs] by (auto simp: expand_status)
  next
    case (brace cs name rest)
    then show ?thesis using 1(2) IH[of rest] by (auto simp: expand_brace)
  next
    case (name c cs name rest)
    then show ?thesis using 1(2) IH[of rest] read_name_rest[of name rest alnum "c # cs"] by (auto simp: expand_name)
  next
    case (lit c cs)
    then show ?thesis using 1(2) IH[of cs] by (auto simp: expand_lit)
  qed
qed

lemma expand_vars_keeps: "keeps R \<Longrightarrow> keeps (expand_vars C R)"
  unfolding keeps_def[of "expand_vars C R"] expand_vars_def using expand_loop_keeps by blast

lemma resolve_targets_keeps:
  "keeps ex \<Longrightarrow> resolve_targets ex cwd rds out err st = Some (out', err', st') \<Longrightarrow> Q st st'"
proof (induction ex cwd rds out err st rule: resolve_targets.induct)
  case (2 ex cwd rd rds out err st)
  obtain target st1 where t: "(case rd_target rd of
            ToStdout \<Rightarrow> Some (out, st)
          | ToStderr \<Rightarrow> Some (err, st)
          | ToFile w literal \<Rightarrow>
              do {
                (w1, st1) \<leftarrow> (if literal then Some (w, st) else ex w st);
                let path = shell_path w1 cwd;
                Some (if path = DEV_NULL then DNull else DFile path (rd_kind rd), st1)
              }) = Some (target, st1)"
    using "2.prems"(2) by (auto simp: bind_eq_Some_conv)
  have "Q st st1"
    using t keepsD[OF "2.prems"(1)] eff_refl
    by (auto simp: bind_eq_Some_conv Let_def split: redirect_target.splits if_splits)
  moreover have "Q st1 st'"
    using "2.IH"(1)[of "(target, st1)" target st1] "2.IH"(2)[of "(target, st1)" target st1]
      "2.IH"(3)[of "(target, st1)" target st1] "2.prems" t
    by (cases "rd_stream rd") auto
  ultimately show ?case by (rule eff_trans)
qed (auto intro: eff_refl)

lemma write_merged_reach: "fs_reach F s (snd (write_merged F ws s))"
proof (induction ws arbitrary: s)
  case (Cons w ws)
  have one: "fs_reach F s (snd (write_one F p d s))" for p d
    using reach_write[of F s p d] by (auto simp: write_one_def split: prod.splits sum.splits)
  let ?r = "case fw_kind w of
              Truncate \<Rightarrow> write_one F (fw_target w) (fw_content w) s
            | Append \<Rightarrow>
                (case vfs_read F s (fw_target w) of
                   Inr d \<Rightarrow> write_one F (fw_target w) (from_utf8_lossy d @ fw_content w) s
                 | Inl (NotFound _) \<Rightarrow> write_one F (fw_target w) (fw_content w) s
                 | Inl e \<Rightarrow> (Err (redirect_error (fw_target w) e), s))"
  have "fs_reach F s (snd ?r)" by (auto simp: one split: redirect_kind.splits sum.splits vfs_error.splits)
  then show ?case using Cons.IH[of "snd ?r"] by (cases ?r) (auto split: sum.splits intro: reach_trans)
qed simp

lemma apply_redirects_keeps:
  assumes "keeps ex" "sc_fs C = F" "apply_redirects C ex result rds cwd st = Some (res, result', st')"
  shows "Q st st'"
proof (cases "rds = []")
  case True
  then show ?thesis using assms(3) eff_refl by (simp add: apply_redirects_def)
next
  case False
  then obtain out err st1 where t: "resolve_targets ex cwd rds DStdout DStderr st = Some (out, err, st1)"
    using assms(3) by (auto simp: apply_redirects_def bind_eq_Some_conv)
  obtain r ws where e: "emit_output err (cr_stderr result) (emit_output out (cr_stdout result)
      (result\<lparr>cr_stdout := [], cr_stderr := []\<rparr>, [])) = (r, ws)" by fastforce
  obtain res1 s' where w: "write_redirect_files F ws (sh_fs st1) = (res1, s')" by fastforce
  have "st' = st1\<lparr>sh_fs := s'\<rparr>"
    using assms(2,3) False t e w by (simp add: apply_redirects_def Let_def split: sum.splits)
  moreover have "fs_reach F (sh_fs st1) s'"
    using write_merged_reach[of "sh_fs st1" "foldl merge_write [] ws"] w by (simp add: write_redirect_files_def)
  ultimately show ?thesis using resolve_targets_keeps[OF assms(1) t] eff_fs eff_trans by metis
qed

lemma dispatch_keeps:
  assumes "ctx_confined C" "sc_fs C = F"
  shows "Q st (snd (dispatch C program args stdin st))"
proof -
  let ?b = "try_builtin (sc_others C) program args stdin F (sh_cwd st) (sh_fs st)"
  let ?e = "case sc_external C of Some ext \<Rightarrow> ext program args stdin (sh_cwd st) (sh_fs st) | None \<Rightarrow> None"
  have b: "Q st (snd (with_fs st rs))" if "?b = Some rs" for rs
    using try_builtin_confined[of F "sc_others C" program args stdin "sh_cwd st" "sh_fs st" "fst rs" "snd rs"]
      assms that eff_fs by (simp add: ctx_confined_def with_fs_def)
  have e: "Q st (snd (with_fs st rs))" if "?e = Some rs" for rs
    using assms that eff_fs by (cases rs) (auto simp: ctx_confined_def with_fs_def others_confined_def split: option.splits)
  have cd: "Q st (snd (builtin_cd C args st))"
    using eff_refl eff_cwd[of st "''/''" "''/''", unfolded shell_path_root] eff_cwd
    by (auto simp: builtin_cd_def Let_def split: sum.splits)
  show ?thesis using b e cd eff_refl eff_env assms(2) by (auto simp: dispatch_def split: option.splits)
qed

lemma expand_args_keeps: "keeps ex \<Longrightarrow> expand_args ex as lits st = Some (xs, st') \<Longrightarrow> Q st st'"
proof (induction as arbitrary: lits st xs)
  case (Cons a as)
  then obtain x st1 xs1 where 1: "(if lits \<noteq> [] \<and> hd lits then Some (a, st) else ex a st) = Some (x, st1)"
    and 2: "expand_args ex as (drop 1 lits) st1 = Some (xs1, st')" by (auto simp: bind_eq_Some_conv)
  have "Q st st1" using 1 keepsD[OF Cons.prems(1)] eff_refl by (auto split: if_splits)
  then show ?case using Cons.IH[OF Cons.prems(1) 2] eff_trans by blast
qed (auto intro: eff_refl)

lemma execute_command_keeps:
  assumes "keeps R" "ctx_confined C" "sc_fs C = F" "execute_command C R cmd stdin st = Some (r, st')"
  shows "Q st st'"
proof -
  note ex = expand_vars_keeps[OF assms(1), of C]
  obtain p st1 args st2 where p: "(if cmd_program_literal cmd then Some (cmd_program cmd, st) else expand_vars C R (cmd_program cmd) st) = Some (p, st1)"
    and a: "expand_args (expand_vars C R) (cmd_args cmd) (cmd_literal_args cmd) st1 = Some (args, st2)"
    and d: "dispatch C p args stdin st2 = (r, st')"
    using assms(4) by (auto simp: execute_command_def bind_eq_Some_conv)
  have "Q st st1" using p keepsD[OF ex] eff_refl by (auto split: if_splits)
  moreover have "Q st1 st2" by (rule expand_args_keeps[OF ex a])
  moreover have "Q st2 st'" using dispatch_keeps[OF assms(2,3), of st2 p args stdin] d by simp
  ultimately show ?thesis using eff_trans by blast
qed

lemma pipeline_run_keeps:
  "keeps R \<Longrightarrow> ctx_confined C \<Longrightarrow> sc_fs C = F \<Longrightarrow> pipeline_run C R cmds stdin acc prev st = Some (r, st') \<Longrightarrow> Q st st'"
proof (induction cmds arbitrary: stdin acc prev st)
  case (Cons cmd cmds)
  obtain r1 st1 where 1: "execute_command C R cmd (unwrap_or (cmd_heredoc cmd) stdin) st = Some (r1, st1)"
    using Cons.prems(4) by (auto simp: bind_eq_Some_conv)
  obtain res r2 st2 where 2: "apply_redirects C (expand_vars C R) r1 (cmd_redirects cmd) (sh_cwd st1) st1 = Some (res, r2, st2)"
    using Cons.prems(4) 1 by (auto simp: bind_eq_Some_conv)
  have "\<exists>i a p. pipeline_run C R cmds i a p st2 = Some (r, st')"
    using Cons.prems(4) 1 2 by (auto simp: Let_def)
  then have "Q st2 st'" using Cons.IH[OF Cons.prems(1-3)] by blast
  then show ?case
    using execute_command_keeps[OF Cons.prems(1-3) 1]
      apply_redirects_keeps[OF expand_vars_keeps[OF Cons.prems(1)] Cons.prems(3) 2] eff_trans by blast
qed (auto intro: eff_refl)

lemma line_run_keeps:
  "keeps R \<Longrightarrow> ctx_confined C \<Longrightarrow> sc_fs C = F \<Longrightarrow> line_run C R items prev acc st = Some (r, st') \<Longrightarrow> Q st st'"
proof (induction items arbitrary: prev acc st)
  case (Cons item items)
  show ?case
  proof (cases "should_execute prev (cr_exit_code acc)")
    case True
    then obtain r1 st1 where 1: "execute_pipeline C R (si_pipeline item) st = Some (r1, st1)"
      and 2: "\<exists>c a. line_run C R items c a (st1\<lparr>sh_last_status := cr_exit_code r1\<rparr>) = Some (r, st')"
      using Cons.prems(4) by (auto simp: bind_eq_Some_conv)
    have "Q st st1"
      using 1 pipeline_run_keeps[OF Cons.prems(1-3)] eff_refl by (auto simp: execute_pipeline_def split: if_splits)
    then show ?thesis using 2 Cons.IH[OF Cons.prems(1-3)] eff_status eff_trans by blast
  next
    case False
    then show ?thesis using Cons by simp
  qed
qed (auto intro: eff_refl)

lemma shell_run_keeps:
  assumes "ctx_confined C" "sc_fs C = F"
  shows "keeps (shell_run C n)"
proof (induction n)
  case (Suc n)
  then show ?case
    using line_run_keeps[OF Suc assms] by (auto simp: keeps_def execute_line_def split: option.splits)
qed (simp add: keeps_def)

end

interpretation reach_effect: shell_effect F "\<lambda>st st'. fs_reach F (sh_fs st) (sh_fs st')" for F :: "('s, 'j) virtual_fs"
  by unfold_locales (auto intro: reach_trans)

interpretation cwd_effect: shell_effect F "\<lambda>st st'. is_normal (sh_cwd st) \<longrightarrow> is_normal (sh_cwd st')"
  for F :: "('s, 'j) virtual_fs"
  by unfold_locales (auto simp: shell_path_def Let_def normalize_vfs_def[symmetric, unfolded Let_def])

section \<open>Every command line returns\<close>

text \<open>Two runners that both return, and alike, on the commands of a set.\<close>

definition agree :: "string set \<Rightarrow> (string \<Rightarrow> 'st \<Rightarrow> 'r option) \<Rightarrow> (string \<Rightarrow> 'st \<Rightarrow> 'r option) \<Rightarrow> bool" where
  "agree D R R' \<longleftrightarrow> (\<forall>c \<in> D. \<forall>st. \<exists>r. R c st = Some r \<and> R' c st = Some r)"

definition small :: "nat \<Rightarrow> string set" where
  "small n = {c. length c < n \<and> CHR ''<'' \<notin> set c}"

lemma expand_loop_agree:
  assumes "agree (small n) R R'"
  shows "r \<in> small (Suc n) \<Longrightarrow>
    \<exists>y. expand_loop alnum R env status r st = Some y \<and> expand_loop alnum R' env status r st = Some y"
proof (induction r arbitrary: status st rule: length_induct)
  case (1 r)
  have IH: "\<exists>y. expand_loop alnum R env k rest st1 = Some y \<and> expand_loop alnum R' env k rest st1 = Some y"
    if "length rest < length r" "set rest \<subseteq> set r" for rest k st1
    using 1 that by (auto simp: small_def)
  show ?case
  proof (cases r rule: expand_cases[where alnum = alnum])
    case nil
    then show ?thesis by (simp add: expand_nil)
  next
    case (sub cs cmd rest)
    then have "cmd \<in> small n" using 1(2) by (auto simp: small_def)
    then obtain res st1 where R: "R cmd st = Some (res, st1)" "R' cmd st = Some (res, st1)"
      using assms unfolding agree_def by (metis surj_pair)
    then show ?thesis using sub IH[of rest "cr_exit_code res" st1] by (auto simp: expand_sub)
  next
    case (status cs)
    then show ?thesis using IH[of cs status st] by (auto simp: expand_status)
  next
    case (brace cs name rest)
    then show ?thesis using IH[of rest status st] by (auto simp: expand_brace)
  next
    case (name c cs name rest)
    then show ?thesis using IH[of rest status st] by (auto simp: expand_name)
  next
    case (lit c cs)
    then show ?thesis using IH[of cs status st] by (auto simp: expand_lit)
  qed
qed

lemma expand_vars_agree:
  assumes "agree (small n) R R'"
  shows "agree (small (Suc n)) (expand_vars C R) (expand_vars C R')"
  using expand_loop_agree[OF assms] by (auto simp: agree_def expand_vars_def)

lemma agreeD: "agree D f g \<Longrightarrow> c \<in> D \<Longrightarrow> \<exists>y st'. f c st = Some (y, st') \<and> g c st = Some (y, st')"
  unfolding agree_def by (metis surj_pair)

lemma resolve_targets_agree:
  assumes "agree D f g"
  shows "\<forall>rd \<in> set rds. set (target_words (rd_target rd)) \<subseteq> D \<Longrightarrow>
    \<exists>y. resolve_targets f cwd rds out err st = Some y \<and> resolve_targets g cwd rds out err st = Some y"
proof (induction rds arbitrary: out err st)
  case (Cons rd rds)
  let ?t = "\<lambda>h. case rd_target rd of
            ToStdout \<Rightarrow> Some (out, st)
          | ToStderr \<Rightarrow> Some (err, st)
          | ToFile w literal \<Rightarrow>
              do {
                (w1, st1) \<leftarrow> (if literal then Some (w, st) else h w st);
                let path = shell_path w1 cwd;
                Some (if path = DEV_NULL then DNull else DFile path (rd_kind rd), st1)
              }"
  have "\<exists>target st1. ?t f = Some (target, st1) \<and> ?t g = Some (target, st1)"
  proof (cases "rd_target rd")
    case (ToFile w literal)
    then have "w \<in> D" using Cons.prems by auto
    then show ?thesis using ToFile agreeD[OF assms, of w st] by (cases literal) (auto simp: Let_def)
  qed auto
  then obtain target st1 where t: "?t f = Some (target, st1)" "?t g = Some (target, st1)" by blast
  have "\<exists>y. resolve_targets f cwd rds o2 e2 st1 = Some y \<and> resolve_targets g cwd rds o2 e2 st1 = Some y" for o2 e2
    using Cons by simp
  then show ?case unfolding resolve_targets.simps t by (cases "rd_stream rd") auto
qed simp

lemma apply_redirects_agree:
  assumes "agree D f g" "\<forall>rd \<in> set rds. set (target_words (rd_target rd)) \<subseteq> D"
  shows "\<exists>res r st'. apply_redirects C f result rds cwd st = Some (res, r, st') \<and>
    apply_redirects C g result rds cwd st = Some (res, r, st')"
proof -
  obtain out err st1 where "resolve_targets f cwd rds DStdout DStderr st = Some (out, err, st1)"
    "resolve_targets g cwd rds DStdout DStderr st = Some (out, err, st1)"
    using resolve_targets_agree[OF assms, of cwd DStdout DStderr st] by (metis surj_pair)
  then show ?thesis by (simp add: apply_redirects_def Let_def split: prod.split sum.split)
qed

lemma expand_args_agree:
  assumes "agree D f g"
  shows "set as \<subseteq> D \<Longrightarrow> \<exists>xs st'. expand_args f as lits st = Some (xs, st') \<and> expand_args g as lits st = Some (xs, st')"
proof (induction as arbitrary: lits st)
  case (Cons a as)
  obtain x st1 where x: "f a st = Some (x, st1)" "g a st = Some (x, st1)" using agreeD[OF assms, of a st] Cons.prems by auto
  have rest: "\<exists>xs st'. expand_args f as l s = Some (xs, st') \<and> expand_args g as l s = Some (xs, st')" for l s
    using Cons.IH[of l s] Cons.prems by simp
  show ?case
  proof (cases "lits \<noteq> [] \<and> hd lits")
    case True
    then show ?thesis using rest[of "drop 1 lits" st] by fastforce
  next
    case False
    then show ?thesis using rest[of "drop 1 lits" st1] x by fastforce
  qed
qed simp

lemma execute_command_agree:
  assumes "agree D (expand_vars C R) (expand_vars C R')" "set (command_words cmd) \<subseteq> D"
  shows "\<exists>r st'. execute_command C R cmd stdin st = Some (r, st') \<and> execute_command C R' cmd stdin st = Some (r, st')"
proof -
  have w: "cmd_program cmd \<in> D" "set (cmd_args cmd) \<subseteq> D" using assms(2) by (auto simp: command_words_def)
  obtain p st1 where p: "(if cmd_program_literal cmd then Some (cmd_program cmd, st) else expand_vars C R (cmd_program cmd) st) = Some (p, st1)"
    "(if cmd_program_literal cmd then Some (cmd_program cmd, st) else expand_vars C R' (cmd_program cmd) st) = Some (p, st1)"
    using agreeD[OF assms(1) w(1), of st] by (cases "cmd_program_literal cmd") auto
  obtain args st2 where "expand_args (expand_vars C R) (cmd_args cmd) (cmd_literal_args cmd) st1 = Some (args, st2)"
    "expand_args (expand_vars C R') (cmd_args cmd) (cmd_literal_args cmd) st1 = Some (args, st2)"
    using expand_args_agree[OF assms(1) w(2)] by blast
  then show ?thesis unfolding execute_command_def p by (cases "dispatch C p args stdin st2") simp
qed

lemma pipeline_run_agree:
  assumes "agree D (expand_vars C R) (expand_vars C R')"
  shows "\<forall>cmd \<in> set cmds. set (command_words cmd) \<subseteq> D \<Longrightarrow>
    \<exists>r st'. pipeline_run C R cmds stdin acc prev st = Some (r, st') \<and> pipeline_run C R' cmds stdin acc prev st = Some (r, st')"
proof (induction cmds arbitrary: stdin acc prev st)
  case (Cons cmd cmds)
  obtain r1 st1 where 1: "execute_command C R cmd (unwrap_or (cmd_heredoc cmd) stdin) st = Some (r1, st1)"
    "execute_command C R' cmd (unwrap_or (cmd_heredoc cmd) stdin) st = Some (r1, st1)"
    using execute_command_agree[OF assms, of cmd] Cons.prems by (meson list.set_intros(1))
  have "\<forall>rd \<in> set (cmd_redirects cmd). set (target_words (rd_target rd)) \<subseteq> D"
    using Cons.prems by (auto simp: command_words_def)
  then obtain res r2 st2 where 2:
    "apply_redirects C (expand_vars C R) r1 (cmd_redirects cmd) (sh_cwd st1) st1 = Some (res, r2, st2)"
    "apply_redirects C (expand_vars C R') r1 (cmd_redirects cmd) (sh_cwd st1) st1 = Some (res, r2, st2)"
    using apply_redirects_agree[OF assms] by blast
  show ?case using 1 2 Cons.IH Cons.prems by (simp add: Let_def)
qed simp

lemma line_run_agree:
  assumes "agree D (expand_vars C R) (expand_vars C R')"
  shows "\<forall>item \<in> set items. \<forall>cmd \<in> set (si_pipeline item). set (command_words cmd) \<subseteq> D \<Longrightarrow>
    \<exists>r st'. line_run C R items prev acc st = Some (r, st') \<and> line_run C R' items prev acc st = Some (r, st')"
proof (induction items arbitrary: prev acc st)
  case (Cons item items)
  obtain r1 st1 where "execute_pipeline C R (si_pipeline item) st = Some (r1, st1)"
    "execute_pipeline C R' (si_pipeline item) st = Some (r1, st1)"
    using pipeline_run_agree[OF assms, of "si_pipeline item" "[]" "[]" "cr_success []" st] Cons.prems
    by (cases "si_pipeline item = []") (auto simp: execute_pipeline_def)
  then show ?case using Cons.IH Cons.prems by (cases "should_execute prev (cr_exit_code acc)") simp_all
qed simp

lemma shell_run_agree: "n \<le> m \<Longrightarrow> agree (small n) (shell_run C n) (shell_run C m)"
proof (induction n arbitrary: m)
  case (Suc n)
  then obtain k where m: "m = Suc k" "n \<le> k" by (cases m) auto
  note ag = expand_vars_agree[OF Suc.IH[OF m(2)], of C]
  show ?case
    unfolding agree_def
  proof (intro ballI allI)
    fix c st assume c: "c \<in> small (Suc n)"
    then obtain line where l: "parse_line c = Some line" using parse_line_total[of c] by (auto simp: small_def)
    have "set (command_words cmd) \<subseteq> small (Suc n)" if "item \<in> set line" "cmd \<in> set (si_pipeline item)" for item cmd
      using parse_line_words[OF l that] c by (force simp: tok_word_ok_def small_def)
    then have "\<forall>item \<in> set line. \<forall>cmd \<in> set (si_pipeline item). set (command_words cmd) \<subseteq> small (Suc n)" by blast
    then show "\<exists>r. shell_run C (Suc n) c st = Some r \<and> shell_run C m c st = Some r"
      using line_run_agree[OF ag, of line None "cr_success []" st] l by (auto simp: m(1) execute_line_def)
  qed
qed (simp add: agree_def small_def)

section \<open>Guarantees\<close>



definition sample_ctx :: "(mem_state, snapshot_items) shell_ctx" where
  "sample_ctx = \<lparr>sc_fs = readonly_guard (memory_fs plain_codec plain_codec) (lock_path [''skills'']),
     sc_others = \<lambda>_ _ _ _ _. None, sc_external = None, sc_alnum = \<lambda>_. False\<rparr>"

definition attack_line :: string where
  "attack_line = ''cd /tmp && echo bad > ../skills/$(echo a); rm -r /skills || mkdir -p ok''"

definition attack_run :: "(command_result \<times> mem_state shell) option" where
  "attack_run = shell_run sample_ctx 90 attack_line (shell_new locked_sample [])"

text \<open>The line fails twice on the locked tree and then makes its own directory.\<close>

lemma attack_run_value:
  "map_option (\<lambda>(r, st). (cr_exit_code r, sh_cwd st, vfs_exists (sc_fs sample_ctx) (sh_fs st) ''/tmp/ok'')) attack_run =
    Some (0, ''/tmp'', True)"
  by code_simp



end
