(* ===== verification/Runtime_Types.thy ===== *)
theory Runtime_Types
  imports Capability Journal
begin

text \<open>
  The values the runtime passes around: provider, tool and runtime errors with their messages
  (\<^verbatim>\<open>simulacra-types/src/provider.rs\<close>, \<^verbatim>\<open>tool.rs\<close>, \<^verbatim>\<open>simulacra-runtime/src/error.rs\<close>), exit reasons
  (\<^verbatim>\<open>exit_reason.rs\<close>), the output of an agent loop and the arithmetic of the external decimal crate,
  whose operations are a parameter.
\<close>

section \<open>Errors\<close>

definition em_dash :: string where
  "em_dash = [CHR 0xE2, CHR 0x80, CHR 0x94]"

definition show_budget_exhausted :: "budget_exhausted \<Rightarrow> string" where
  "show_budget_exhausted b =
     ''budget exhausted: '' @ be_resource b @ '' '' @ em_dash @ '' used '' @ be_used b @ '', limit '' @ be_limit b"

definition show_capability_denied :: "capability_denied \<Rightarrow> string" where
  "show_capability_denied d = ''capability denied: '' @ denied_operation d @ '' '' @ em_dash @ '' '' @ denied_reason d"

fun show_journal_error :: "journal_error \<Rightarrow> string" where
  "show_journal_error (SchemaVersionMismatch expected got) =
     ''schema version mismatch: expected '' @ show_word expected @ '', got '' @ show_word got"
| "show_journal_error (Storage m) = ''storage error: '' @ m"
| "show_journal_error (EntryNotFound m) = ''not found: '' @ m"
| "show_journal_error (InvalidCheckpointIndex i) = ''invalid checkpoint index: '' @ show_nat i"

datatype provider_error =
    RateLimit "u64 option"
  | AuthError string
  | BadRequest string
  | ServerError string
  | Overloaded string
  | Transport string
  | ProviderBudget budget_exhausted
  | MalformedToolInput string nat
  | OtherProvider string

fun show_provider_error :: "provider_error \<Rightarrow> string" where
  "show_provider_error (RateLimit r) =
     ''rate limited: retry after '' @ (case r of None \<Rightarrow> ''None'' | Some n \<Rightarrow> ''Some('' @ show_word n @ '')'') @ ''ms''"
| "show_provider_error (AuthError m) = ''authentication error: '' @ m"
| "show_provider_error (BadRequest m) = ''bad request: '' @ m"
| "show_provider_error (ServerError m) = ''server error: '' @ m"
| "show_provider_error (Overloaded m) = ''overloaded: '' @ m"
| "show_provider_error (Transport m) = ''transport failure: '' @ m"
| "show_provider_error (ProviderBudget b) = ''budget exhausted: '' @ show_budget_exhausted b"
| "show_provider_error (MalformedToolInput name n) =
     ''tool '' @ [CHR 0x27] @ name @ [CHR 0x27] @ '' sent unparseable input ('' @ show_nat n @ '' bytes)''"
| "show_provider_error (OtherProvider m) = ''other: '' @ m"

definition classify :: "nat \<Rightarrow> string \<Rightarrow> provider_error" where
  "classify status msg =
     (if status = 401 \<or> status = 403 then AuthError msg
      else if status = 400 then BadRequest msg
      else if status = 429 then RateLimit None
      else if status = 529 then Overloaded msg
      else if 500 \<le> status \<and> status \<le> 599 then ServerError msg
      else OtherProvider (''HTTP '' @ show_nat status @ '': '' @ msg))"

fun is_retryable :: "provider_error \<Rightarrow> bool" where
  "is_retryable (RateLimit _) = True"
| "is_retryable (ServerError _) = True"
| "is_retryable (Overloaded _) = True"
| "is_retryable (Transport _) = True"
| "is_retryable _ = False"

datatype tool_error = ToolDenied capability_denied | InvalidArguments string | ExecutionFailed string

fun show_tool_error :: "tool_error \<Rightarrow> string" where
  "show_tool_error (ToolDenied d) = ''capability denied: '' @ show_capability_denied d"
| "show_tool_error (InvalidArguments m) = ''invalid arguments: '' @ m"
| "show_tool_error (ExecutionFailed m) = ''execution failed: '' @ m"

datatype workspace_lost_cause = CauseGone | CauseClosed | CauseReaped

fun show_lost_cause :: "workspace_lost_cause \<Rightarrow> string" where
  "show_lost_cause CauseGone = ''workspace disappeared without a clean shutdown; work in progress there was not saved''"
| "show_lost_cause CauseClosed = ''workspace shut down cleanly on its own side; work in progress there was not saved''"
| "show_lost_cause CauseReaped = ''runtime tore the workspace down; work in progress there was not saved''"

datatype runtime_error =
    SessionErr string
  | JournalErr journal_error
  | SandboxErr string
  | ProviderErr provider_error
  | AcpChildRuntime runtime_error
  | ToolErr tool_error
  | BudgetErr budget_exhausted
  | CapabilityViolation string
  | HookDenied string
  | HookFailed string
  | HookKilled string string
  | JournalAppendFailed string journal_error
  | SpawnMissingTask
  | SpawnMissingJournal
  | AcpChildRuntimeMissing string string
  | WorkspaceLost workspace_lost_cause

fun show_runtime_error :: "runtime_error \<Rightarrow> string" where
  "show_runtime_error (SessionErr m) = ''session error: '' @ m"
| "show_runtime_error (JournalErr e) = ''journal error: '' @ show_journal_error e"
| "show_runtime_error (SandboxErr m) = ''sandbox error: '' @ m"
| "show_runtime_error (ProviderErr e) = ''provider error: '' @ show_provider_error e"
| "show_runtime_error (AcpChildRuntime e) = ''ACP child runtime error: '' @ show_runtime_error e"
| "show_runtime_error (ToolErr e) = ''tool error: '' @ show_tool_error e"
| "show_runtime_error (BudgetErr b) = ''budget exhausted: '' @ show_budget_exhausted b"
| "show_runtime_error (CapabilityViolation m) = ''capability violation: '' @ m"
| "show_runtime_error (HookDenied m) = ''hook denied operation: '' @ m"
| "show_runtime_error (HookFailed m) = ''hook error: '' @ m"
| "show_runtime_error (HookKilled h r) = ''hook killed execution: '' @ h @ '': '' @ r"
| "show_runtime_error (JournalAppendFailed k e) = ''journal append failed for '' @ k @ '': '' @ show_journal_error e"
| "show_runtime_error SpawnMissingTask = ''spawn_agent called on a supervisor with no task factory configured''"
| "show_runtime_error SpawnMissingJournal =
     ''spawn_agent called on a supervisor with no journal storage configured; call set_journal_storage before spawning''"
| "show_runtime_error (AcpChildRuntimeMissing p f) =
     ''child placement '' @ debug_str p @ '' requires an injected ACP runtime for profile '' @ debug_str f"
| "show_runtime_error (WorkspaceLost c) = ''workspace lost: '' @ show_lost_cause c"

section \<open>Exit reasons and outputs\<close>

datatype exit_reason =
    ExComplete
  | ExMaxTurns
  | ExBudgetExhausted
  | ExGuardrailTripped string
  | ExAwaitingApproval
  | ExCancelled
  | ExPolicyKill string string
  | ExRefusal
  | ExError string

fun exit_reason_to_snake_case :: "exit_reason \<Rightarrow> string" where
  "exit_reason_to_snake_case ExComplete = ''completed''"
| "exit_reason_to_snake_case ExMaxTurns = ''max_turns''"
| "exit_reason_to_snake_case ExBudgetExhausted = ''budget_exhausted''"
| "exit_reason_to_snake_case (ExGuardrailTripped s) = ''guardrail_tripped:'' @ s"
| "exit_reason_to_snake_case ExAwaitingApproval = ''awaiting_approval''"
| "exit_reason_to_snake_case ExCancelled = ''cancelled''"
| "exit_reason_to_snake_case (ExPolicyKill _ _) = ''policy_kill''"
| "exit_reason_to_snake_case ExRefusal = ''failed''"
| "exit_reason_to_snake_case (ExError _) = ''error''"

record ('v, 'd) agent_loop_output =
  lo_exit_reason :: exit_reason
  lo_messages :: "'v message list"
  lo_token_usage :: token_usage
  lo_reported_tool_uses :: "u64 option"
  lo_used_turns :: u32
  lo_used_cost :: 'd

type_synonym ('v, 'd) spawn_result = "runtime_error + ('v, 'd) agent_loop_output"

section \<open>Decimals\<close>

text \<open>\<open>dec_add\<close> and \<open>dec_sub\<close> are \<open>+\<close> and \<open>-\<close>, which panic on overflow; a panic is not modelled.\<close>

record 'd decimal_ops =
  dec_add :: "'d \<Rightarrow> 'd \<Rightarrow> 'd"
  dec_sub :: "'d \<Rightarrow> 'd \<Rightarrow> 'd"
  dec_checked_add :: "'d \<Rightarrow> 'd \<Rightarrow> 'd option"
  dec_checked_sub :: "'d \<Rightarrow> 'd \<Rightarrow> 'd option"
  dec_MAX :: 'd
  dec_show :: "'d \<Rightarrow> string"

section \<open>Chained checks\<close>

text \<open>The \<open>?\<close> operator on results.\<close>

fun and_then :: "'e + 'a \<Rightarrow> ('a \<Rightarrow> 'e + 'b) \<Rightarrow> 'e + 'b" where
  "and_then (Inl e) f = Inl e"
| "and_then (Inr x) f = f x"

lemma and_then_Ok_iff: "and_then r f = Inr y \<longleftrightarrow> (\<exists>x. r = Inr x \<and> f x = Inr y)"
  by (cases r) auto

fun map_err :: "('e \<Rightarrow> 'f) \<Rightarrow> 'e + 'a \<Rightarrow> 'f + 'a" where
  "map_err f (Inl e) = Inl (f e)"
| "map_err f (Inr x) = Inr x"

lemma map_err_Ok_iff [simp]: "map_err f r = Inr x \<longleftrightarrow> r = Inr x"
  by (cases r) auto

text \<open>The question mark operator on a stateful call.\<close>

definition seq :: "('c \<Rightarrow> ('e + 'a) \<times> 'c) \<Rightarrow> ('a \<Rightarrow> 'c \<Rightarrow> ('e + 'b) \<times> 'c) \<Rightarrow> 'c \<Rightarrow> ('e + 'b) \<times> 'c" where
  "seq m f c = (case m c of (Inl e, c1) \<Rightarrow> (Inl e, c1) | (Inr x, c1) \<Rightarrow> f x c1)"

definition convert_err :: "('e \<Rightarrow> 'f) \<Rightarrow> ('e + 'a) \<times> 'c \<Rightarrow> ('f + 'a) \<times> 'c" where
  "convert_err f rc = (map_err f (fst rc), snd rc)"

lemma seq_Ok: "seq m f c = (Ok x, c2) \<longleftrightarrow> (\<exists>y c1. m c = (Ok y, c1) \<and> f y c1 = (Ok x, c2))"
  by (auto simp: seq_def split: prod.splits sum.splits)

lemma prod_case_eq: "(case p of (a, b) \<Rightarrow> g a b) = y \<longleftrightarrow> (\<exists>a b. p = (a, b) \<and> g a b = y)"
  by (cases p) auto

lemma convert_err_Ok: "convert_err g rc = (Ok x, c1) \<longleftrightarrow> rc = (Ok x, c1)"
  by (cases rc; cases "fst rc") (auto simp: convert_err_def)

end
