(* ===== verification/Supervisor.thy ===== *)
theory Supervisor
  imports Runtime_Types
begin

text \<open>
  The agent supervisor (\<^verbatim>\<open>simulacra-runtime/src/supervisor/\<close>): an actor that accepts child agents below
  the authority and the budget of their parent, runs each child as a task with retries, settles its
  budget, journals and caches its terminal result and answers the callers that wait for it.

  What the code shares through \<^verbatim>\<open>Arc<Mutex<..>>\<close> is a heap here: budget accounts, cancellation flags and
  input queues have addresses, so that the record of a child, its task and its reservation refer to the
  same cell.  A reply channel is a number; sending on it succeeds while its receiver is alive and is
  logged.  A dispatched message is one step; the end of a task is one step per lock it takes.  The task
  factory, the clock and the results of the tasks are parameters of the steps.  Tracing is left out.
\<close>

section \<open>Types\<close>

datatype restart_strategy = RetryOnce | RetryTwiceThenFail | SnapshotAndFail | LetCrash

datatype message_priority = PrioSignal | PrioSupervision | PrioCommand | PrioWork

fun priority_value :: "message_priority \<Rightarrow> nat" where
  "priority_value PrioSignal = 3"
| "priority_value PrioSupervision = 2"
| "priority_value PrioCommand = 1"
| "priority_value PrioWork = 0"

lemma priority_value_inject [simp]: "priority_value p = priority_value q \<longleftrightarrow> p = q"
  by (cases p; cases q) simp_all

instantiation message_priority :: linorder
begin

definition less_eq_message_priority :: "message_priority \<Rightarrow> message_priority \<Rightarrow> bool" where
  "less_eq_message_priority p q \<longleftrightarrow> priority_value p \<le> priority_value q"

definition less_message_priority :: "message_priority \<Rightarrow> message_priority \<Rightarrow> bool" where
  "less_message_priority p q \<longleftrightarrow> priority_value p < priority_value q"

instance
proof (intro_classes, goal_cases)
  case (4 x y)
  then show ?case by (metis less_eq_message_priority_def le_antisym priority_value_inject)
qed (auto simp: less_eq_message_priority_def less_message_priority_def)

end

datatype agent_backend = Native | Acp

record 'd spawn_config =
  cf_agent_id :: agent_id
  cf_parent_id :: agent_id
  cf_capability :: "capability_token option"
  cf_budget :: "'d resource_budget"
  cf_restart_strategy :: restart_strategy
  cf_placement :: string
  cf_task :: string
  cf_instructions :: "string option"
  cf_placement_target :: "string option"

record spawn_ack =
  sa_child_id :: agent_id
  sa_placement :: string
  sa_backend :: agent_backend

record ('v, 'd) child_terminal =
  ct_child_id :: agent_id
  ct_placement :: string
  ct_status :: string
  ct_elapsed_ms :: u64
  ct_tool_uses :: u64
  ct_result :: "string + ('v, 'd) agent_loop_output"

record child_metadata =
  md_child_id :: agent_id
  md_placement :: string
  md_task :: string
  md_parent_id :: agent_id
  md_capability :: capability_token
  md_started_at_ms :: u64
  md_finished_at_ms :: "u64 option"

datatype child_agent_status =
    ChildRunning
  | ChildCompleted "string option"
  | ChildFailed "string option"
  | ChildCancelled "string option"

record child_status =
  cs_child_id :: agent_id
  cs_placement :: string
  cs_status :: child_agent_status
  cs_ready :: bool
  cs_elapsed_ms :: u64

record roster_entry =
  re_child_id :: string
  re_placement :: string
  re_task :: string
  re_status :: child_agent_status
  re_ready :: bool
  re_elapsed_ms :: u64

record ('v, 'd) wait_child_result =
  wr_child_id :: agent_id
  wr_placement :: "string option"
  wr_status :: string
  wr_ready :: bool
  wr_terminal :: "('v, 'd) child_terminal option"

record ('v, 'd) wait_children_result =
  wa_child_ids :: "agent_id list"
  wa_status :: string
  wa_ready :: bool
  wa_terminal :: "('v, 'd) child_terminal option"

type_synonym chan = nat

datatype ('v, 'd) reply =
    RSpawn "runtime_error + spawn_ack"
  | RJoin "string + ('v, 'd) child_terminal"
  | RInspect "string + ('v, 'd) child_terminal \<times> bool"
  | RDone "string + unit"
  | RStatus "string + child_status"
  | RRoster "string + roster_entry list"
  | RWait "string + ('v, 'd) wait_child_result"
  | RWaitAny "string + ('v, 'd) wait_children_result"

datatype 'd payload =
    PCompleted
  | PFailed string
  | PSpawn "'d spawn_config" chan
  | PJoinChild agent_id chan
  | PInspectChildResult agent_id chan
  | PCancelChild agent_id chan
  | PSteerChild agent_id string chan
  | PChildStatus agent_id chan
  | PListChildren chan
  | PInspectChildren chan
  | PWaitChild agent_id nat chan
  | PWaitChildren "agent_id list" nat chan
  | PCloseChild agent_id chan
  | PCancel

record 'd sup_message =
  sm_priority :: message_priority
  sm_agent_id :: agent_id
  sm_payload :: "'d payload"

text \<open>The task factory: the placement check, the policy shaping of a configuration and the backend of a
  placement.  Its completion hook has no effect on the supervisor.\<close>

record 'd task_factory =
  tf_validate :: "'d spawn_config \<Rightarrow> runtime_error + unit"
  tf_prepare :: "'d spawn_config \<Rightarrow> capability_token \<Rightarrow> runtime_error + 'd spawn_config"
  tf_backend :: "'d spawn_config \<Rightarrow> agent_backend"

section \<open>State\<close>

record 'd account =
  ac_budget :: "'d resource_budget"
  ac_reserved_tokens :: u64
  ac_reserved_turns :: u32
  ac_reserved_cost :: 'd

record 'd reservation =
  rv_parent :: nat
  rv_tokens :: u64
  rv_turns :: u32
  rv_cost :: 'd

datatype wait_sender = SenderSingle chan | SenderAny chan

datatype wait_timer = TimerSingle nat agent_id | TimerAny nat "agent_id list"

record child_waiter =
  cw_id :: nat
  cw_child_ids :: "agent_id list"

record ('v, 'd) child_run_state =
  rs_metadata :: child_metadata
  rs_result :: "('v, 'd) child_terminal option"
  rs_delivered :: bool
  rs_join_waiters :: "chan list"
  rs_wait_waiters :: "child_waiter list"

datatype ('v, 'd) task_phase =
    PhRunning
  | PhAwaiting "('v, 'd) agent_loop_output"
  | PhSettle "('v, 'd) spawn_result"
  | PhProcess "('v, 'd) spawn_result"
  | PhRecord "('v, 'd) spawn_result"
  | PhDropToken
  | PhDropInput

record ('v, 'd) child_task =
  ts_config :: "'d spawn_config"
  ts_phase :: "('v, 'd) task_phase"
  ts_token :: nat
  ts_run_token :: nat
  ts_queue :: nat
  ts_parent_account :: nat
  ts_attempts :: nat

datatype activity = ActSpawned agent_id string string | ActFinished agent_id string string u64 u32 u64

text \<open>The fields of \<^verbatim>\<open>AgentSupervisor\<close>, the heaps of the shared cells, the lifecycles in flight and the logs
  of what went out: replies and activity events (each with the agent whose sink routes it).\<close>

record ('j, 'v, 'd) supervisor =
  sv_parent_capability :: capability_token
  sv_root_id :: "agent_id option"
  sv_account_heap :: "'d account list"
  sv_accepted :: "agent_id list"
  sv_child_accounts :: "(agent_id, nat) btree"
  sv_reservations :: "(agent_id, 'd reservation) btree"
  sv_retry_counts :: "(agent_id, nat) btree"
  sv_retry_shared :: "(agent_id, nat) btree"
  sv_tokens :: "(agent_id, nat) btree"
  sv_token_heap :: "bool list"
  sv_inputs :: "(agent_id, nat) btree"
  sv_queue_heap :: "(string list \<times> bool) list"
  sv_results :: "(agent_id, ('v, 'd) child_run_state) btree"
  sv_wait_counter :: nat
  sv_wait_cells :: "(nat, wait_sender) btree"
  sv_timers :: "wait_timer list"
  sv_journal :: "'j option"
  sv_activity :: "(agent_id \<times> activity) list"
  sv_tasks :: "(agent_id, ('v, 'd) child_task) btree"
  sv_replies :: "(chan \<times> ('v, 'd) reply) list"
  sv_dropped :: "chan list"

text \<open>What a supervisor is built with: the decimal operations, the journal operations and the factory.\<close>

record ('j, 'v, 'd) sup_ctx =
  sx_dec :: "'d decimal_ops"
  sx_journal :: "('j, 'v, 'd) journal_storage"
  sx_factory :: "'d task_factory option"

section \<open>Identity and authorization\<close>

definition dbg_strings :: "string list \<Rightarrow> string" where
  "dbg_strings xs =
     ''['' @ concat (case xs of [] \<Rightarrow> [] | y # ys \<Rightarrow> debug_str y # map (\<lambda>z. '', '' @ debug_str z) ys) @ '']''"

definition require_bound_root :: "('j, 'v, 'd) supervisor \<Rightarrow> runtime_error + agent_id" where
  "require_bound_root s =
     (case sv_root_id s of
        Some r \<Rightarrow> Ok r
      | None \<Rightarrow> Err (CapabilityViolation (''supervisor root identity is unbound; bind the configured root agent id''
          @ '' before exposing spawn or child-control operations'')))"

definition ensure_child_id_is_new :: "('j, 'v, 'd) supervisor \<Rightarrow> agent_id \<Rightarrow> runtime_error + unit" where
  "ensure_child_id_is_new s c =
     (if c \<in> set (sv_accepted s)
      then Err (CapabilityViolation (''child_id '' @ debug_str c @
             '' was already accepted by this supervisor and cannot be reused''))
      else Ok ())"

definition record_accepted_child_id :: "agent_id \<Rightarrow> ('j, 'v, 'd) supervisor \<Rightarrow> ('j, 'v, 'd) supervisor" where
  "record_accepted_child_id c s =
     s\<lparr>sv_accepted := (if c \<in> set (sv_accepted s) then sv_accepted s else sv_accepted s @ [c])\<rparr>"

text \<open>The address of the account of a caller; the root account is at 0.\<close>

definition budget_account_for_caller :: "('j, 'v, 'd) supervisor \<Rightarrow> agent_id \<Rightarrow> runtime_error + nat" where
  "budget_account_for_caller s caller =
     and_then (require_bound_root s) (\<lambda>root.
       if root = caller then Ok 0
       else case bt_get (sv_child_accounts s) caller of
              Some a \<Rightarrow> Ok a
            | None \<Rightarrow> Err (CapabilityViolation (''unknown or unauthenticated budget owner '' @ debug_str caller)))"

definition require_spawn_journal :: "('j, 'v, 'd) supervisor \<Rightarrow> runtime_error + unit" where
  "require_spawn_journal s = (if sv_journal s = None then Err SpawnMissingJournal else Ok ())"

definition capability_for_caller :: "('j, 'v, 'd) supervisor \<Rightarrow> agent_id \<Rightarrow> runtime_error + capability_token" where
  "capability_for_caller s caller =
     and_then (require_bound_root s) (\<lambda>root.
       if root = caller then Ok (sv_parent_capability s)
       else case bt_get (sv_results s) caller of
              Some st \<Rightarrow> Ok (md_capability (rs_metadata st))
            | None \<Rightarrow> Err (CapabilityViolation (''unknown or unauthenticated caller '' @ debug_str caller
                @ ''; supervisor root is '' @ debug_str root)))"

definition validate_caller_identity :: "('j, 'v, 'd) supervisor \<Rightarrow> agent_id \<Rightarrow> string + unit" where
  "validate_caller_identity s caller =
     map_err show_runtime_error (and_then (capability_for_caller s caller) (\<lambda>_. Ok ()))"

definition validate_spawn_authorization :: "('j, 'v, 'd) supervisor \<Rightarrow> 'd spawn_config \<Rightarrow> runtime_error + unit" where
  "validate_spawn_authorization s config =
     and_then (capability_for_caller s (cf_parent_id config)) (\<lambda>cap.
       if cf_placement config \<notin> set (spawn_placements cap)
       then Err (CapabilityViolation (''placement '' @ debug_str (cf_placement config)
              @ '' is not authorized for caller '' @ debug_str (cf_parent_id config)
              @ ''; available spawn_placements: '' @ dbg_strings (sorted_list_of_set (set (spawn_placements cap)))))
       else case cf_capability config of
              Some c \<Rightarrow> if is_subset_of c cap then Ok ()
                        else Err (CapabilityViolation (''child capability is not a subset of caller ''
                               @ debug_str (cf_parent_id config) @ '' capability''))
            | None \<Rightarrow> Ok ())"

section \<open>Budgets\<close>

definition validate_supervisor_limit ::
  "('t::{zero,linorder} \<Rightarrow> string) \<Rightarrow> string \<Rightarrow> 't \<Rightarrow> 't \<Rightarrow> 't \<Rightarrow> runtime_error + unit" where
  "validate_supervisor_limit show field requested parent_maximum parent_remaining =
     (if requested = 0 \<and> parent_maximum \<noteq> 0
      then Err (BudgetErr \<lparr>be_resource = field @ '' requested '' @ show requested
             @ '' (unlimited), but immediate parent limit '' @ show parent_maximum @ '' is finite'',
             be_used = show requested, be_limit = show parent_maximum\<rparr>)
      else if requested \<noteq> 0 \<and> parent_maximum \<noteq> 0 \<and> requested > parent_remaining
      then Err (BudgetErr \<lparr>be_resource = field @ '' requested '' @ show requested
             @ '' exceeds immediate parent remaining '' @ show parent_remaining
             @ '' (limit '' @ show parent_maximum @ '')'',
             be_used = show requested, be_limit = show parent_remaining\<rparr>)
      else Ok ())"

definition validate_budget_against_account ::
  "'d::{zero,linorder} decimal_ops \<Rightarrow> 'd resource_budget \<Rightarrow> 'd account \<Rightarrow> runtime_error + unit" where
  "validate_budget_against_account D requested acc =
     (let b = ac_budget acc;
          committed_cost = min (unwrap_or (dec_checked_add D (used_cost b) (ac_reserved_cost acc)) (dec_MAX D)) (max_cost b)
      in and_then (validate_supervisor_limit show_word ''max_tokens'' (max_tokens requested) (max_tokens b)
                     (sat_sub (max_tokens b) (sat_add (used_tokens b) (ac_reserved_tokens acc)))) (\<lambda>_.
         and_then (validate_supervisor_limit show_word ''max_turns'' (max_turns requested) (max_turns b)
                     (sat_sub (max_turns b) (sat_add (used_turns b) (ac_reserved_turns acc)))) (\<lambda>_.
         and_then (validate_supervisor_limit (dec_show D) ''max_cost'' (max_cost requested) (max_cost b)
                     (dec_sub D (max_cost b) committed_cost)) (\<lambda>_.
         validate_supervisor_limit show_word ''max_sub_agents'' (max_sub_agents requested) (max_sub_agents b)
           (sat_sub (max_sub_agents b) (used_sub_agents b))))))"

definition validate_spawn_budget ::
  "'d::{zero,linorder} decimal_ops \<Rightarrow> ('j, 'v, 'd) supervisor \<Rightarrow> 'd spawn_config \<Rightarrow> runtime_error + unit" where
  "validate_spawn_budget D s config =
     and_then (budget_account_for_caller s (cf_parent_id config)) (\<lambda>a.
     and_then (validate_budget_against_account D (cf_budget config) (sv_account_heap s ! a)) (\<lambda>_.
     map_err BudgetErr (check_budget (dec_show D) (cf_budget config))))"

definition account_new :: "'d::zero resource_budget \<Rightarrow> 'd account" where
  "account_new b = \<lparr>ac_budget = b, ac_reserved_tokens = 0, ac_reserved_turns = 0, ac_reserved_cost = 0\<rparr>"

definition reserve_in :: "'d decimal_ops \<Rightarrow> 'd resource_budget \<Rightarrow> 'd account \<Rightarrow> 'd account" where
  "reserve_in D r acc =
     \<lparr>ac_budget = (ac_budget acc)\<lparr>used_sub_agents := sat_add (used_sub_agents (ac_budget acc)) 1\<rparr>,
      ac_reserved_tokens = sat_add (ac_reserved_tokens acc) (max_tokens r),
      ac_reserved_turns = sat_add (ac_reserved_turns acc) (max_turns r),
      ac_reserved_cost = unwrap_or (dec_checked_add D (ac_reserved_cost acc) (max_cost r)) (dec_MAX D)\<rparr>"

text \<open>The result is the address of the child's account, which is the next free one, and of its parent's.\<close>

definition reserve_spawn_budget ::
  "'d::{zero,linorder} decimal_ops \<Rightarrow> 'd spawn_config \<Rightarrow> ('j, 'v, 'd) supervisor \<Rightarrow>
   runtime_error + (nat \<times> nat \<times> ('j, 'v, 'd) supervisor)" where
  "reserve_spawn_budget D config s =
     and_then (budget_account_for_caller s (cf_parent_id config)) (\<lambda>parent.
     and_then (validate_budget_against_account D (cf_budget config) (sv_account_heap s ! parent)) (\<lambda>_.
       (let b = cf_budget config;
            heap = (sv_account_heap s)[parent := reserve_in D b (sv_account_heap s ! parent)];
            child = length heap
        in Ok (child, parent,
             s\<lparr>sv_account_heap := heap @ [account_new b],
               sv_child_accounts := bt_insert (cf_agent_id config) child (sv_child_accounts s),
               sv_reservations := bt_insert (cf_agent_id config)
                 \<lparr>rv_parent = parent, rv_tokens = max_tokens b, rv_turns = max_turns b, rv_cost = max_cost b\<rparr>
                 (sv_reservations s)\<rparr>))))"

definition release_in :: "'d::zero decimal_ops \<Rightarrow> 'd reservation \<Rightarrow> 'd account \<Rightarrow> 'd account" where
  "release_in D r acc =
     acc\<lparr>ac_reserved_tokens := sat_sub (ac_reserved_tokens acc) (rv_tokens r),
         ac_reserved_turns := sat_sub (ac_reserved_turns acc) (rv_turns r),
         ac_reserved_cost := unwrap_or (dec_checked_sub D (ac_reserved_cost acc) (rv_cost r)) 0\<rparr>"

definition charge_budget_usage ::
  "'d decimal_ops \<Rightarrow> ('v, 'd) agent_loop_output \<Rightarrow> 'd resource_budget \<Rightarrow> 'd resource_budget" where
  "charge_budget_usage D output b =
     b\<lparr>used_tokens := sat_add (used_tokens b) (usage_total (lo_token_usage output)),
       used_turns := sat_add (used_turns b) (lo_used_turns output),
       used_cost := dec_add D (used_cost b) (lo_used_cost output)\<rparr>"

definition settle_budget_reservation ::
  "'d::zero decimal_ops \<Rightarrow> agent_id \<Rightarrow> ('v, 'd) spawn_result \<Rightarrow> ('j, 'v, 'd) supervisor \<Rightarrow> ('j, 'v, 'd) supervisor" where
  "settle_budget_reservation D c result s =
     (case bt_get (sv_reservations s) c of
        None \<Rightarrow> s
      | Some r \<Rightarrow>
          (let acc = release_in D r (sv_account_heap s ! rv_parent r);
               acc1 = (case result of
                         Inr output \<Rightarrow> acc\<lparr>ac_budget := charge_budget_usage D output (ac_budget acc)\<rparr>
                       | Inl _ \<Rightarrow> acc)
           in s\<lparr>sv_reservations := bt_remove c (sv_reservations s),
                sv_account_heap := (sv_account_heap s)[rv_parent r := acc1]\<rparr>))"

definition rollback_unaccepted_budget ::
  "'d::zero decimal_ops \<Rightarrow> agent_id \<Rightarrow> ('j, 'v, 'd) supervisor \<Rightarrow> ('j, 'v, 'd) supervisor" where
  "rollback_unaccepted_budget D c s =
     (let s1 = (case bt_get (sv_reservations s) c of
                  None \<Rightarrow> s
                | Some r \<Rightarrow>
                    (let acc = release_in D r (sv_account_heap s ! rv_parent r);
                         b = ac_budget acc
                     in s\<lparr>sv_reservations := bt_remove c (sv_reservations s),
                          sv_account_heap := (sv_account_heap s)[rv_parent r :=
                            acc\<lparr>ac_budget := b\<lparr>used_sub_agents := sat_sub (used_sub_agents b) 1\<rparr>\<rparr>]\<rparr>))
      in s1\<lparr>sv_child_accounts := bt_remove c (sv_child_accounts s1)\<rparr>)"

section \<open>Replies and cached results\<close>

definition send_reply ::
  "chan \<Rightarrow> ('v, 'd) reply \<Rightarrow> ('j, 'v, 'd) supervisor \<Rightarrow> bool \<times> ('j, 'v, 'd) supervisor" where
  "send_reply ch r s =
     (if ch \<in> set (sv_dropped s) then (False, s) else (True, s\<lparr>sv_replies := sv_replies s @ [(ch, r)]\<rparr>))"

definition respond :: "chan \<Rightarrow> ('v, 'd) reply \<Rightarrow> ('j, 'v, 'd) supervisor \<Rightarrow> ('j, 'v, 'd) supervisor" where
  "respond ch r s = snd (send_reply ch r s)"

definition update_child ::
  "agent_id \<Rightarrow> (('v, 'd) child_run_state \<Rightarrow> ('v, 'd) child_run_state) \<Rightarrow> ('j, 'v, 'd) supervisor \<Rightarrow> ('j, 'v, 'd) supervisor" where
  "update_child c f s =
     (case bt_get (sv_results s) c of
        None \<Rightarrow> s
      | Some st \<Rightarrow> s\<lparr>sv_results := bt_insert c (f st) (sv_results s)\<rparr>)"

definition mark_delivered :: "agent_id \<Rightarrow> ('j, 'v, 'd) supervisor \<Rightarrow> ('j, 'v, 'd) supervisor" where
  "mark_delivered c = update_child c (\<lambda>st. st\<lparr>rs_delivered := True\<rparr>)"

definition not_found :: "string \<Rightarrow> agent_id \<Rightarrow> string" where
  "not_found what c = what @ '' child_id: '' @ c"

definition final_assistant_message :: "('v, 'd) agent_loop_output \<Rightarrow> string option" where
  "final_assistant_message output =
     map_option msg_content (find (\<lambda>m. msg_role m = Assistant) (rev (lo_messages output)))"

definition agent_status_from_terminal :: "('v, 'd) child_terminal \<Rightarrow> child_agent_status" where
  "agent_status_from_terminal t =
     (if ct_status t = ''completed''
      then ChildCompleted (case ct_result t of Inr output \<Rightarrow> final_assistant_message output | Inl _ \<Rightarrow> None)
      else if ct_status t = ''failed''
      then ChildFailed (case ct_result t of
             Inl e \<Rightarrow> Some e
           | Inr output \<Rightarrow>
               (case lo_exit_reason output of ExError e \<Rightarrow> Some e | _ \<Rightarrow> final_assistant_message output))
      else if ct_status t = ''cancelled''
      then ChildCancelled (case ct_result t of Inr output \<Rightarrow> final_assistant_message output | Inl e \<Rightarrow> Some e)
      else ChildFailed (Some (''unknown cached child terminal status: '' @ ct_status t)))"

definition status_from_state :: "u64 \<Rightarrow> ('v, 'd) child_run_state \<Rightarrow> child_status" where
  "status_from_state now st =
     (let m = rs_metadata st
      in \<lparr>cs_child_id = md_child_id m, cs_placement = md_placement m,
          cs_status = (case rs_result st of Some t \<Rightarrow> agent_status_from_terminal t | None \<Rightarrow> ChildRunning),
          cs_ready = (rs_result st \<noteq> None),
          cs_elapsed_ms = sat_sub (unwrap_or (md_finished_at_ms m) now) (md_started_at_ms m)\<rparr>)"

definition roster_entry_from_state :: "u64 \<Rightarrow> ('v, 'd) child_run_state \<Rightarrow> roster_entry" where
  "roster_entry_from_state now st =
     (let c = status_from_state now st
      in \<lparr>re_child_id = cs_child_id c, re_placement = cs_placement c, re_task = md_task (rs_metadata st),
          re_status = cs_status c, re_ready = cs_ready c, re_elapsed_ms = cs_elapsed_ms c\<rparr>)"

definition wait_result_running :: "child_metadata \<Rightarrow> ('v, 'd) wait_child_result" where
  "wait_result_running m =
     \<lparr>wr_child_id = md_child_id m, wr_placement = Some (md_placement m), wr_status = ''running'', wr_ready = False,
      wr_terminal = None\<rparr>"

definition wait_result_terminal :: "('v, 'd) child_terminal \<Rightarrow> ('v, 'd) wait_child_result" where
  "wait_result_terminal t =
     \<lparr>wr_child_id = ct_child_id t, wr_placement = Some (ct_placement t), wr_status = ct_status t, wr_ready = True,
      wr_terminal = Some t\<rparr>"

definition wait_children_result_running :: "agent_id list \<Rightarrow> ('v, 'd) wait_children_result" where
  "wait_children_result_running cs =
     \<lparr>wa_child_ids = cs, wa_status = ''running'', wa_ready = False, wa_terminal = None\<rparr>"

definition wait_children_result_terminal ::
  "agent_id list \<Rightarrow> ('v, 'd) child_terminal \<Rightarrow> ('v, 'd) wait_children_result" where
  "wait_children_result_terminal cs t =
     \<lparr>wa_child_ids = cs, wa_status = ct_status t, wa_ready = True, wa_terminal = Some t\<rparr>"

section \<open>Queries\<close>

definition authorize_child_owner :: "('j, 'v, 'd) supervisor \<Rightarrow> agent_id \<Rightarrow> agent_id \<Rightarrow> string + unit" where
  "authorize_child_owner s caller c =
     and_then (validate_caller_identity s caller) (\<lambda>_.
       case bt_get (sv_results s) c of
         None \<Rightarrow> Err (not_found ''unknown or closed'' c)
       | Some st \<Rightarrow>
           if md_parent_id (rs_metadata st) \<noteq> caller
           then Err (''caller '' @ debug_str caller @ '' does not own child '' @ debug_str c @ ''; owner is ''
                  @ debug_str (md_parent_id (rs_metadata st)))
           else Ok ())"

text \<open>A reply that, once sent, marks the cached result of a child as delivered.\<close>

definition deliver_to ::
  "chan \<Rightarrow> ('v, 'd) reply \<Rightarrow> agent_id \<Rightarrow> ('j, 'v, 'd) supervisor \<Rightarrow> ('j, 'v, 'd) supervisor" where
  "deliver_to ch r c s = (case send_reply ch r s of (ok, s1) \<Rightarrow> if ok then mark_delivered c s1 else s1)"

definition join_child :: "agent_id \<Rightarrow> chan \<Rightarrow> ('j, 'v, 'd) supervisor \<Rightarrow> ('j, 'v, 'd) supervisor" where
  "join_child c ch s =
     (case bt_get (sv_results s) c of
        None \<Rightarrow> respond ch (RJoin (Err (not_found ''unknown'' c))) s
      | Some st \<Rightarrow>
          (case rs_result st of
             Some t \<Rightarrow> deliver_to ch (RJoin (Ok t)) c s
           | None \<Rightarrow> update_child c (\<lambda>x. x\<lparr>rs_join_waiters := rs_join_waiters x @ [ch]\<rparr>) s))"

definition inspect_child_result ::
  "('j, 'v, 'd) supervisor \<Rightarrow> agent_id \<Rightarrow> string + ('v, 'd) child_terminal \<times> bool" where
  "inspect_child_result s c =
     (case bt_get (sv_results s) c of
        None \<Rightarrow> Err (not_found ''unknown or closed'' c)
      | Some st \<Rightarrow>
          (case rs_result st of
             None \<Rightarrow> Err (''child_id is still running: '' @ c)
           | Some t \<Rightarrow> Ok (t, rs_delivered st)))"

definition send_child_status :: "u64 \<Rightarrow> agent_id \<Rightarrow> chan \<Rightarrow> ('j, 'v, 'd) supervisor \<Rightarrow> ('j, 'v, 'd) supervisor" where
  "send_child_status now c ch s =
     (case bt_get (sv_results s) c of
        None \<Rightarrow> respond ch (RStatus (Err (not_found ''unknown or closed'' c))) s
      | Some st \<Rightarrow>
          (case send_reply ch (RStatus (Ok (status_from_state now st))) s of
             (ok, s1) \<Rightarrow> if ok \<and> rs_result st \<noteq> None then mark_delivered c s1 else s1))"

definition owned_by :: "agent_id \<Rightarrow> ('v, 'd) child_run_state \<Rightarrow> bool" where
  "owned_by caller st \<longleftrightarrow> md_parent_id (rs_metadata st) = caller"

definition send_child_roster :: "u64 \<Rightarrow> agent_id \<Rightarrow> chan \<Rightarrow> ('j, 'v, 'd) supervisor \<Rightarrow> ('j, 'v, 'd) supervisor" where
  "send_child_roster now caller ch s =
     (case validate_caller_identity s caller of
        Inl e \<Rightarrow> respond ch (RRoster (Err e)) s
      | Inr _ \<Rightarrow>
          (let entries = map (roster_entry_from_state now) (filter (owned_by caller) (map snd (sv_results s)))
           in case send_reply ch (RRoster (Ok (sort_key re_child_id entries))) s of
                (ok, s1) \<Rightarrow>
                  if ok
                  then s1\<lparr>sv_results := map (\<lambda>(c, st). (c, if owned_by caller st \<and> rs_result st \<noteq> None
                         then st\<lparr>rs_delivered := True\<rparr> else st)) (sv_results s1)\<rparr>
                  else s1))"

definition send_child_roster_inspection :: "u64 \<Rightarrow> chan \<Rightarrow> ('j, 'v, 'd) supervisor \<Rightarrow> ('j, 'v, 'd) supervisor" where
  "send_child_roster_inspection now ch s =
     respond ch (RRoster (Ok (sort_key re_child_id (map (roster_entry_from_state now) (map snd (sv_results s)))))) s"

section \<open>Waiting\<close>

definition push_waiter :: "child_waiter \<Rightarrow> ('v, 'd) child_run_state \<Rightarrow> ('v, 'd) child_run_state" where
  "push_waiter w st = st\<lparr>rs_wait_waiters := rs_wait_waiters st @ [w]\<rparr>"

definition wait_child :: "agent_id \<Rightarrow> nat \<Rightarrow> chan \<Rightarrow> ('j, 'v, 'd) supervisor \<Rightarrow> ('j, 'v, 'd) supervisor" where
  "wait_child c timeout ch s =
     (case bt_get (sv_results s) c of
        None \<Rightarrow> respond ch (RWait (Err (not_found ''unknown or closed'' c))) s
      | Some st \<Rightarrow>
          (case rs_result st of
             Some t \<Rightarrow> deliver_to ch (RWait (Ok (wait_result_terminal t))) c s
           | None \<Rightarrow>
               if timeout = 0 then respond ch (RWait (Ok (wait_result_running (rs_metadata st)))) s
               else (let wid = sv_wait_counter s
                     in update_child c (push_waiter \<lparr>cw_id = wid, cw_child_ids = [c]\<rparr>)
                          (s\<lparr>sv_wait_counter := wid + 1,
                             sv_wait_cells := bt_insert wid (SenderSingle ch) (sv_wait_cells s),
                             sv_timers := sv_timers s @ [TimerSingle wid c]\<rparr>))))"

definition first_terminal :: "('j, 'v, 'd) supervisor \<Rightarrow> agent_id list \<Rightarrow> (agent_id \<times> ('v, 'd) child_terminal) option" where
  "first_terminal s cs =
     (case filter (\<lambda>c. Option.bind (bt_get (sv_results s) c) rs_result \<noteq> None) cs of
        [] \<Rightarrow> None
      | c # _ \<Rightarrow> map_option (Pair c) (Option.bind (bt_get (sv_results s) c) rs_result))"

definition wait_children ::
  "agent_id list \<Rightarrow> nat \<Rightarrow> chan \<Rightarrow> ('j, 'v, 'd) supervisor \<Rightarrow> ('j, 'v, 'd) supervisor" where
  "wait_children cs timeout ch s =
     (if cs = [] then respond ch (RWaitAny (Err ''missing required field: child_ids'')) s
      else case find (\<lambda>c. \<not> bt_contains (sv_results s) c) cs of
             Some c \<Rightarrow> respond ch (RWaitAny (Err (not_found ''unknown or closed'' c))) s
           | None \<Rightarrow>
               (case first_terminal s cs of
                  Some (c, t) \<Rightarrow> deliver_to ch (RWaitAny (Ok (wait_children_result_terminal cs t))) c s
                | None \<Rightarrow>
                    if timeout = 0 then respond ch (RWaitAny (Ok (wait_children_result_running cs))) s
                    else (let wid = sv_wait_counter s
                          in fold (\<lambda>c. update_child c (push_waiter \<lparr>cw_id = wid, cw_child_ids = cs\<rparr>)) cs
                               (s\<lparr>sv_wait_counter := wid + 1,
                                  sv_wait_cells := bt_insert wid (SenderAny ch) (sv_wait_cells s),
                                  sv_timers := sv_timers s @ [TimerAny wid cs]\<rparr>))))"

text \<open>\<open>Option::take\<close> on the shared sender of a wait call.\<close>

definition take_sender :: "nat \<Rightarrow> ('j, 'v, 'd) supervisor \<Rightarrow> wait_sender option \<times> ('j, 'v, 'd) supervisor" where
  "take_sender wid s =
     (bt_get (sv_wait_cells s) wid, s\<lparr>sv_wait_cells := bt_remove wid (sv_wait_cells s)\<rparr>)"

definition swap_remove :: "'a list \<Rightarrow> nat \<Rightarrow> 'a list" where
  "swap_remove xs i = (if i + 1 < length xs then butlast (xs[i := last xs]) else butlast xs)"

fun position :: "('a \<Rightarrow> bool) \<Rightarrow> 'a list \<Rightarrow> nat option" where
  "position P [] = None"
| "position P (x # xs) = (if P x then Some 0 else map_option Suc (position P xs))"

definition retain_others :: "nat \<Rightarrow> ('v, 'd) child_run_state \<Rightarrow> ('v, 'd) child_run_state" where
  "retain_others wid st = st\<lparr>rs_wait_waiters := filter (\<lambda>w. cw_id w \<noteq> wid) (rs_wait_waiters st)\<rparr>"

text \<open>The timer of a call that waits for one child.\<close>

definition single_timeout :: "nat \<Rightarrow> agent_id \<Rightarrow> ('j, 'v, 'd) supervisor \<Rightarrow> ('j, 'v, 'd) supervisor" where
  "single_timeout wid c s =
     (case bt_get (sv_results s) c of
        None \<Rightarrow> s
      | Some st \<Rightarrow>
          (case position (\<lambda>w. cw_id w = wid) (rs_wait_waiters st) of
             None \<Rightarrow> s
           | Some i \<Rightarrow>
               (case take_sender wid
                       (update_child c (\<lambda>x. x\<lparr>rs_wait_waiters := swap_remove (rs_wait_waiters x) i\<rparr>) s) of
                  (Some (SenderSingle ch), s1) \<Rightarrow> respond ch (RWait (Ok (wait_result_running (rs_metadata st)))) s1
                | (_, s1) \<Rightarrow> s1)))"

text \<open>The timer of a call that waits for any of several children.\<close>

definition any_timeout :: "nat \<Rightarrow> agent_id list \<Rightarrow> ('j, 'v, 'd) supervisor \<Rightarrow> ('j, 'v, 'd) supervisor" where
  "any_timeout wid cs s =
     (case take_sender wid (fold (\<lambda>c. update_child c (retain_others wid)) cs s) of
        (Some (SenderAny ch), s1) \<Rightarrow> respond ch (RWaitAny (Ok (wait_children_result_running cs))) s1
      | (_, s1) \<Rightarrow> s1)"

section \<open>The end of a child\<close>

definition close_child :: "agent_id \<Rightarrow> ('j, 'v, 'd) supervisor \<Rightarrow> (string + unit) \<times> ('j, 'v, 'd) supervisor" where
  "close_child c s =
     (case bt_get (sv_results s) c of
        None \<Rightarrow> (Err (not_found ''unknown or closed'' c), s)
      | Some st \<Rightarrow>
          if rs_result st = None then (Err (''child_id is still running: '' @ c), s)
          else (Ok (), s\<lparr>sv_results := bt_remove c (sv_results s), sv_tokens := bt_remove c (sv_tokens s),
                         sv_inputs := bt_remove c (sv_inputs s),
                         sv_child_accounts := bt_remove c (sv_child_accounts s),
                         sv_reservations := bt_remove c (sv_reservations s)\<rparr>))"

text \<open>Handing a terminal result to the registered waiters; the result says whether one received it.\<close>

fun deliver_joins ::
  "('v, 'd) child_terminal \<Rightarrow> chan list \<Rightarrow> ('j, 'v, 'd) supervisor \<Rightarrow> bool \<times> ('j, 'v, 'd) supervisor" where
  "deliver_joins t [] s = (False, s)"
| "deliver_joins t (ch # chs) s =
     (case send_reply ch (RJoin (Ok t)) s of
        (ok, s1) \<Rightarrow> (case deliver_joins t chs s1 of (d, s2) \<Rightarrow> (ok \<or> d, s2)))"

definition deliver_wait ::
  "('v, 'd) child_terminal \<Rightarrow> child_waiter \<Rightarrow> ('j, 'v, 'd) supervisor \<Rightarrow> bool \<times> ('j, 'v, 'd) supervisor" where
  "deliver_wait t w s =
     (case take_sender (cw_id w) s of
        (None, s1) \<Rightarrow> (False, s1)
      | (Some (SenderSingle ch), s1) \<Rightarrow> send_reply ch (RWait (Ok (wait_result_terminal t))) s1
      | (Some (SenderAny ch), s1) \<Rightarrow>
          send_reply ch (RWaitAny (Ok (wait_children_result_terminal (cw_child_ids w) t))) s1)"

fun deliver_waits ::
  "('v, 'd) child_terminal \<Rightarrow> child_waiter list \<Rightarrow> ('j, 'v, 'd) supervisor \<Rightarrow> bool \<times> ('j, 'v, 'd) supervisor" where
  "deliver_waits t [] s = (False, s)"
| "deliver_waits t (w # ws) s =
     (case deliver_wait t w s of
        (ok, s1) \<Rightarrow> (case deliver_waits t ws s1 of (d, s2) \<Rightarrow> (ok \<or> d, s2)))"

text \<open>A waiter of the child leaves the other children it waits for.\<close>

definition forget_elsewhere :: "agent_id \<Rightarrow> child_waiter \<Rightarrow> ('j, 'v, 'd) supervisor \<Rightarrow> ('j, 'v, 'd) supervisor" where
  "forget_elsewhere c w s =
     fold (\<lambda>d. if d = c then id else update_child d (retain_others (cw_id w))) (cw_child_ids w) s"

definition record_child_terminal_result ::
  "u64 \<Rightarrow> ('v, 'd) child_terminal \<Rightarrow> ('j, 'v, 'd) supervisor \<Rightarrow> ('j, 'v, 'd) supervisor" where
  "record_child_terminal_result now terminal s =
     (let c = ct_child_id terminal
      in case bt_get (sv_results s) c of
           None \<Rightarrow> s
         | Some st \<Rightarrow>
             (let t = terminal\<lparr>ct_elapsed_ms := sat_sub now (md_started_at_ms (rs_metadata st))\<rparr>;
                  st1 = st\<lparr>rs_metadata := (rs_metadata st)\<lparr>md_finished_at_ms := Some now\<rparr>, rs_result := Some t,
                           rs_join_waiters := [], rs_wait_waiters := []\<rparr>;
                  s1 = s\<lparr>sv_results := bt_insert c st1 (sv_results s)\<rparr>;
                  s2 = fold (forget_elsewhere c) (rs_wait_waiters st) s1;
                  (d1, s3) = deliver_joins t (rs_join_waiters st) s2;
                  (d2, s4) = deliver_waits t (rs_wait_waiters st) s3
              in if d1 \<or> d2 then mark_delivered c s4 else s4))"

definition count_tool_uses :: "('v, 'd) agent_loop_output \<Rightarrow> u64" where
  "count_tool_uses output =
     (case lo_reported_tool_uses output of
        Some n \<Rightarrow> n
      | None \<Rightarrow> of_nat (length (filter (\<lambda>m. msg_role m = Tool) (lo_messages output))))"

fun spawn_result_is_awaiting_approval :: "('v, 'd) spawn_result \<Rightarrow> bool" where
  "spawn_result_is_awaiting_approval (Inr output) \<longleftrightarrow> lo_exit_reason output = ExAwaitingApproval"
| "spawn_result_is_awaiting_approval (Inl _) \<longleftrightarrow> False"

fun child_exit_success :: "exit_reason \<Rightarrow> bool option" where
  "child_exit_success ExComplete = Some True"
| "child_exit_success ExMaxTurns = Some True"
| "child_exit_success ExBudgetExhausted = Some True"
| "child_exit_success ExAwaitingApproval = None"
| "child_exit_success _ = Some False"

fun status_from_exit :: "exit_reason \<Rightarrow> string" where
  "status_from_exit ExComplete = ''completed''"
| "status_from_exit ExMaxTurns = ''completed''"
| "status_from_exit ExBudgetExhausted = ''completed''"
| "status_from_exit ExCancelled = ''cancelled''"
| "status_from_exit ExAwaitingApproval = ''running''"
| "status_from_exit _ = ''failed''"

definition status_from_spawn_result :: "('v, 'd) spawn_result \<Rightarrow> string" where
  "status_from_spawn_result r =
     (case r of Inr output \<Rightarrow> status_from_exit (lo_exit_reason output) | Inl _ \<Rightarrow> ''failed'')"

text \<open>A journal append through the optional storage.\<close>

definition journal_append ::
  "('j, 'v, 'd) sup_ctx \<Rightarrow> string \<Rightarrow> agent_id \<Rightarrow> u64 \<Rightarrow> 'v journal_entry_kind \<Rightarrow> ('j, 'v, 'd) supervisor \<Rightarrow>
   (runtime_error + unit) \<times> ('j, 'v, 'd) supervisor" where
  "journal_append X kind owner now entry s =
     (case sv_journal s of
        None \<Rightarrow> (Ok (), s)
      | Some j \<Rightarrow>
          (case js_append (sx_journal X) j \<lparr>je_schema_version = JOURNAL_SCHEMA_VERSION, je_agent_id = owner,
                  je_timestamp_ms = now, je_entry = entry\<rparr> of
             (r, j') \<Rightarrow> (map_err (JournalAppendFailed kind) r, s\<lparr>sv_journal := Some j'\<rparr>)))"

definition emit_activity :: "agent_id \<Rightarrow> activity \<Rightarrow> ('j, 'v, 'd) supervisor \<Rightarrow> ('j, 'v, 'd) supervisor" where
  "emit_activity route a s = s\<lparr>sv_activity := sv_activity s @ [(route, a)]\<rparr>"

text \<open>\<open>elapsed\<close> is the time since the spawn; \<open>parent\<close> the address of the parent's account.\<close>

definition process_child_result_with_rollup ::
  "('j, 'v, 'd) sup_ctx \<Rightarrow> bool \<Rightarrow> agent_id \<Rightarrow> agent_id \<Rightarrow> string \<Rightarrow> nat \<Rightarrow> u64 \<Rightarrow> u64 \<Rightarrow>
   ('v, 'd) spawn_result \<Rightarrow> ('j, 'v, 'd) supervisor \<Rightarrow> ('v, 'd) spawn_result \<times> ('j, 'v, 'd) supervisor" where
  "process_child_result_with_rollup X rollup child owner placement parent now elapsed result s =
     (case result of
        Inr output \<Rightarrow>
          (case child_exit_success (lo_exit_reason output) of
             None \<Rightarrow> (Ok output, s)
           | Some success \<Rightarrow>
               (let s0 = (if rollup
                          then s\<lparr>sv_account_heap := (sv_account_heap s)[parent := (sv_account_heap s ! parent)
                                 \<lparr>ac_budget := charge_budget_usage (sx_dec X) output (ac_budget (sv_account_heap s ! parent))\<rparr>]\<rparr>
                          else s)
                in case journal_append X ''SubAgentCompleted'' owner now (SubAgentCompleted child success) s0 of
                     (Inl e, s1) \<Rightarrow> (Err e, s1)
                   | (Inr _, s1) \<Rightarrow>
                       (Ok output, emit_activity child (ActFinished child placement
                          (exit_reason_to_snake_case (lo_exit_reason output)) elapsed (lo_used_turns output)
                          (usage_total (lo_token_usage output))) s1)))
      | Inl err \<Rightarrow>
          (case journal_append X ''SubAgentCompleted'' owner now (SubAgentCompleted child False) s of
             (Inl e, s1) \<Rightarrow> (Err e, s1)
           | (Inr _, s1) \<Rightarrow>
               (Err err, emit_activity child (ActFinished child placement (''Error: '' @ show_runtime_error err)
                  elapsed 0 0) s1)))"

definition terminal_of ::
  "agent_id \<Rightarrow> string \<Rightarrow> u64 \<Rightarrow> ('v, 'd) spawn_result \<Rightarrow> ('v, 'd) child_terminal" where
  "terminal_of child placement elapsed r =
     \<lparr>ct_child_id = child, ct_placement = placement, ct_status = status_from_spawn_result r,
      ct_elapsed_ms = elapsed, ct_tool_uses = (case r of Inr output \<Rightarrow> count_tool_uses output | Inl _ \<Rightarrow> 0),
      ct_result = map_err show_runtime_error r\<rparr>"

section \<open>Retries\<close>

fun retry_limit :: "restart_strategy \<Rightarrow> nat option" where
  "retry_limit RetryOnce = Some 1"
| "retry_limit RetryTwiceThenFail = Some 2"
| "retry_limit SnapshotAndFail = None"
| "retry_limit LetCrash = None"

definition should_retry :: "agent_id \<Rightarrow> restart_strategy \<Rightarrow> (agent_id, nat) btree \<Rightarrow> bool \<times> (agent_id, nat) btree" where
  "should_retry c strategy counts =
     (case retry_limit strategy of
        None \<Rightarrow> (False, counts)
      | Some limit \<Rightarrow>
          (let counts1 = bt_or_insert c 0 counts;
               count = unwrap_or (bt_get counts1 c) 0
           in if count < limit then (True, bt_insert c (count + 1) counts1) else (False, counts1)))"

definition snapshot_before_fail ::
  "('j, 'v, 'd) sup_ctx \<Rightarrow> agent_id \<Rightarrow> ('j, 'v, 'd) supervisor \<Rightarrow> ('j, 'v, 'd) supervisor" where
  "snapshot_before_fail X c s =
     (case sv_journal s of
        None \<Rightarrow> s
      | Some j \<Rightarrow>
          s\<lparr>sv_journal := Some (snd (js_save_checkpoint (sx_journal X) j c 0
              \<lparr>cp_messages = [], cp_budget_snapshot = ac_budget (sv_account_heap s ! 0), cp_vfs_snapshot = None\<rparr>))\<rparr>)"

definition handle_failure ::
  "('j, 'v, 'd) sup_ctx \<Rightarrow> agent_id \<Rightarrow> restart_strategy \<Rightarrow> ('j, 'v, 'd) supervisor \<Rightarrow> bool \<times> ('j, 'v, 'd) supervisor" where
  "handle_failure X c strategy s =
     (case strategy of
        SnapshotAndFail \<Rightarrow> (False, snapshot_before_fail X c s)
      | LetCrash \<Rightarrow> (False, s)
      | _ \<Rightarrow> (case should_retry c strategy (sv_retry_counts s) of
                (b, counts) \<Rightarrow> (b, s\<lparr>sv_retry_counts := counts\<rparr>)))"

section \<open>Accepting a child\<close>

fun backend_name :: "agent_backend \<Rightarrow> string" where
  "backend_name Native = ''native''"
| "backend_name Acp = ''acp''"

definition prepare_spawn ::
  "('j, 'v, 'd) sup_ctx \<Rightarrow> 'd spawn_config \<Rightarrow> agent_backend \<Rightarrow> u64 \<Rightarrow> ('j, 'v, 'd) supervisor \<Rightarrow>
   (runtime_error + unit) \<times> ('j, 'v, 'd) supervisor" where
  "prepare_spawn X config backend now s =
     (if sv_journal s = None then (Err SpawnMissingJournal, s)
      else case journal_append X ''SubAgentSpawned'' (cf_parent_id config) now
                  (SubAgentSpawned (cf_agent_id config) (cf_placement config) (backend_name backend)
                     (cf_task config) (cf_instructions config) (cf_placement_target config)) s of
             (Inl e, s1) \<Rightarrow> (Err e, s1)
           | (Inr _, s1) \<Rightarrow>
               (Ok (), emit_activity (cf_parent_id config)
                  (ActSpawned (cf_agent_id config) (cf_placement config) (cf_task config)) s1))"

text \<open>The checks of a spawn once the factory is known: what they admit is the configuration as the
  factory has shaped it.\<close>

definition vet_spawn ::
  "('j, 'v, 'd::{zero,linorder}) sup_ctx \<Rightarrow> 'd task_factory \<Rightarrow> 'd spawn_config \<Rightarrow> ('j, 'v, 'd) supervisor \<Rightarrow>
   runtime_error + 'd spawn_config" where
  "vet_spawn X F config s =
     and_then (tf_validate F config) (\<lambda>_.
     and_then (require_spawn_journal s) (\<lambda>_.
     and_then (validate_spawn_budget (sx_dec X) s config) (\<lambda>_.
     and_then (capability_for_caller s (cf_parent_id config)) (\<lambda>cap.
     and_then (tf_prepare F config cap) (\<lambda>config1.
     and_then (validate_spawn_authorization s config1) (\<lambda>_.
     and_then (validate_spawn_budget (sx_dec X) s config1) (\<lambda>_.
     Ok config1)))))))"

text \<open>Reservation, journal entry and acceptance; the result is the child's and the parent's account.\<close>

definition accept_spawn ::
  "('j, 'v, 'd::{zero,linorder}) sup_ctx \<Rightarrow> 'd task_factory \<Rightarrow> 'd spawn_config \<Rightarrow> u64 \<Rightarrow> ('j, 'v, 'd) supervisor \<Rightarrow>
   (runtime_error + nat \<times> nat) \<times> ('j, 'v, 'd) supervisor" where
  "accept_spawn X F config now s =
     (case reserve_spawn_budget (sx_dec X) config s of
        Inl e \<Rightarrow> (Err e, s)
      | Inr (child, parent, s1) \<Rightarrow>
          (case prepare_spawn X config (tf_backend F config) now s1 of
             (Inl e, s2) \<Rightarrow> (Err e, rollback_unaccepted_budget (sx_dec X) (cf_agent_id config) s2)
           | (Inr _, s2) \<Rightarrow> (Ok (child, parent), record_accepted_child_id (cf_agent_id config) s2)))"

text \<open>\<^verbatim>\<open>CapabilityToken::default()\<close>\<close>

definition default_token :: capability_token where
  "default_token = \<lparr>network = [], mcp_tools = [], shell = False, javascript = False, python = False,
     paths_write = [], paths_read = [], spawn_placements = [], skill_patterns = [],
     memory = \<lparr>enabled = False, search_scopes = [], write_scopes = []\<rparr>\<rparr>"

definition child_metadata_of :: "'d spawn_config \<Rightarrow> u64 \<Rightarrow> child_metadata" where
  "child_metadata_of config started =
     \<lparr>md_child_id = cf_agent_id config, md_placement = cf_placement config, md_task = cf_task config,
      md_parent_id = cf_parent_id config, md_capability = unwrap_or (cf_capability config) default_token,
      md_started_at_ms = started, md_finished_at_ms = None\<rparr>"

text \<open>\<^verbatim>\<open>spawn_task_into\<close>: control state for the child and its first attempt.\<close>

definition spawn_task_into ::
  "'d spawn_config \<Rightarrow> nat \<Rightarrow> u64 \<Rightarrow> ('j, 'v, 'd) supervisor \<Rightarrow> ('j, 'v, 'd) supervisor" where
  "spawn_task_into config parent now s =
     (let c = cf_agent_id config;
          token = length (sv_token_heap s);
          queue = length (sv_queue_heap s)
      in s\<lparr>sv_token_heap := sv_token_heap s @ [False],
           sv_queue_heap := sv_queue_heap s @ [([], True)],
           sv_tokens := bt_insert c token (sv_tokens s),
           sv_inputs := bt_insert c queue (sv_inputs s),
           sv_results := bt_insert c
             \<lparr>rs_metadata = child_metadata_of config now, rs_result = None, rs_delivered = False,
              rs_join_waiters = [], rs_wait_waiters = []\<rparr> (sv_results s),
           sv_tasks := bt_insert c
             \<lparr>ts_config = config, ts_phase = PhRunning, ts_token = token, ts_run_token = token, ts_queue = queue,
              ts_parent_account = parent, ts_attempts = 1\<rparr> (sv_tasks s)\<rparr>)"

definition dispatch_spawn ::
  "('j, 'v, 'd::{zero,linorder}) sup_ctx \<Rightarrow> agent_id \<Rightarrow> 'd spawn_config \<Rightarrow> chan \<Rightarrow> u64 \<Rightarrow> ('j, 'v, 'd) supervisor \<Rightarrow>
   ('j, 'v, 'd) supervisor" where
  "dispatch_spawn X caller config ch now s =
     (case and_then (require_bound_root s) (\<lambda>_.
           and_then (if caller \<noteq> cf_parent_id config
                     then Err (CapabilityViolation (''caller '' @ debug_str caller @ '' cannot spawn as parent ''
                            @ debug_str (cf_parent_id config)))
                     else Ok ()) (\<lambda>_.
           and_then (ensure_child_id_is_new s (cf_agent_id config)) (\<lambda>_.
           and_then (validate_spawn_authorization s config) (\<lambda>_.
           case sx_factory X of
             None \<Rightarrow> Err SpawnMissingTask
           | Some F \<Rightarrow> and_then (vet_spawn X F config s) (\<lambda>config1. Ok (F, config1)))))) of
        Inl e \<Rightarrow> respond ch (RSpawn (Err e)) s
      | Inr (F, config1) \<Rightarrow>
          (case accept_spawn X F config1 now s of
             (Inl e, s1) \<Rightarrow> respond ch (RSpawn (Err e)) s1
           | (Inr (child, parent), s1) \<Rightarrow>
               spawn_task_into config1 parent now
                 (respond ch (RSpawn (Ok \<lparr>sa_child_id = cf_agent_id config1, sa_placement = cf_placement config1,
                    sa_backend = tf_backend F config1\<rparr>)) s1)))"

section \<open>Controlling a child\<close>

definition signal_token :: "nat \<Rightarrow> ('j, 'v, 'd) supervisor \<Rightarrow> ('j, 'v, 'd) supervisor" where
  "signal_token a s = s\<lparr>sv_token_heap := (sv_token_heap s)[a := True]\<rparr>"

definition has_result :: "('j, 'v, 'd) supervisor \<Rightarrow> agent_id \<Rightarrow> bool" where
  "has_result s c \<longleftrightarrow> Option.bind (bt_get (sv_results s) c) rs_result \<noteq> None"

definition cancel_child :: "agent_id \<Rightarrow> ('j, 'v, 'd) supervisor \<Rightarrow> (string + unit) \<times> ('j, 'v, 'd) supervisor" where
  "cancel_child c s =
     (case bt_get (sv_tokens s) c of
        Some a \<Rightarrow> (Ok (), signal_token a s)
      | None \<Rightarrow> (Err (if has_result s c then ''child_id already completed: '' @ c else not_found ''unknown'' c), s))"

definition enqueue_input :: "nat \<Rightarrow> string \<Rightarrow> ('j, 'v, 'd) supervisor \<Rightarrow> (string + unit) \<times> ('j, 'v, 'd) supervisor" where
  "enqueue_input a m s =
     (case sv_queue_heap s ! a of
        (msgs, True) \<Rightarrow> (Ok (), s\<lparr>sv_queue_heap := (sv_queue_heap s)[a := (msgs @ [m], True)]\<rparr>)
      | (_, False) \<Rightarrow> (Err ''child input queue is closed'', s))"

definition steer_child :: "agent_id \<Rightarrow> string \<Rightarrow> ('j, 'v, 'd) supervisor \<Rightarrow> (string + unit) \<times> ('j, 'v, 'd) supervisor" where
  "steer_child c m s =
     (case bt_get (sv_inputs s) c of
        Some a \<Rightarrow> enqueue_input a m s
      | None \<Rightarrow> (Err (if has_result s c then ''child_id already completed: '' @ c else not_found ''unknown'' c), s))"

section \<open>Dispatch\<close>

text \<open>An operation on a child that only its owner may ask for.\<close>

definition owner_only ::
  "('j, 'v, 'd) supervisor \<Rightarrow> agent_id \<Rightarrow> agent_id \<Rightarrow> ((string + unit) \<times> ('j, 'v, 'd) supervisor) \<Rightarrow>
   (string + unit) \<times> ('j, 'v, 'd) supervisor" where
  "owner_only s caller c act = (case authorize_child_owner s caller c of Inl e \<Rightarrow> (Err e, s) | Inr _ \<Rightarrow> act)"

definition respond_done ::
  "chan \<Rightarrow> (string + unit) \<times> ('j, 'v, 'd) supervisor \<Rightarrow> ('j, 'v, 'd) supervisor" where
  "respond_done ch p = respond ch (RDone (fst p)) (snd p)"

fun authorize_all :: "('j, 'v, 'd) supervisor \<Rightarrow> agent_id \<Rightarrow> agent_id list \<Rightarrow> string + unit" where
  "authorize_all s caller [] = Ok ()"
| "authorize_all s caller (c # cs) = and_then (authorize_child_owner s caller c) (\<lambda>_. authorize_all s caller cs)"

fun dispatch_payload ::
  "('j, 'v, 'd::{zero,linorder}) sup_ctx \<Rightarrow> u64 \<Rightarrow> agent_id \<Rightarrow> 'd payload \<Rightarrow> ('j, 'v, 'd) supervisor \<Rightarrow>
   ('j, 'v, 'd) supervisor" where
  "dispatch_payload X now caller (PSpawn config ch) s = dispatch_spawn X caller config ch now s"
| "dispatch_payload X now caller (PJoinChild c ch) s =
     (case authorize_child_owner s caller c of Inl e \<Rightarrow> respond ch (RJoin (Err e)) s | Inr _ \<Rightarrow> join_child c ch s)"
| "dispatch_payload X now caller (PInspectChildResult c ch) s =
     respond ch (RInspect (and_then (validate_caller_identity s caller) (\<lambda>_. inspect_child_result s c))) s"
| "dispatch_payload X now caller (PChildStatus c ch) s =
     (case authorize_child_owner s caller c of
        Inl e \<Rightarrow> respond ch (RStatus (Err e)) s | Inr _ \<Rightarrow> send_child_status now c ch s)"
| "dispatch_payload X now caller (PListChildren ch) s = send_child_roster now caller ch s"
| "dispatch_payload X now caller (PInspectChildren ch) s = send_child_roster_inspection now ch s"
| "dispatch_payload X now caller (PWaitChild c timeout ch) s =
     (case authorize_child_owner s caller c of
        Inl e \<Rightarrow> respond ch (RWait (Err e)) s | Inr _ \<Rightarrow> wait_child c timeout ch s)"
| "dispatch_payload X now caller (PWaitChildren cs timeout ch) s =
     (case authorize_all s caller cs of
        Inl e \<Rightarrow> respond ch (RWaitAny (Err e)) s | Inr _ \<Rightarrow> wait_children cs timeout ch s)"
| "dispatch_payload X now caller (PCloseChild c ch) s = respond_done ch (owner_only s caller c (close_child c s))"
| "dispatch_payload X now caller (PCancelChild c ch) s = respond_done ch (owner_only s caller c (cancel_child c s))"
| "dispatch_payload X now caller (PSteerChild c m ch) s = respond_done ch (owner_only s caller c (steer_child c m s))"
| "dispatch_payload X now caller PCancel s =
     (case bt_get (sv_tokens s) caller of Some a \<Rightarrow> signal_token a s | None \<Rightarrow> s)"
| "dispatch_payload X now caller PCompleted s = s"
| "dispatch_payload X now caller (PFailed _) s = s"

definition dispatch_message_into ::
  "('j, 'v, 'd::{zero,linorder}) sup_ctx \<Rightarrow> u64 \<Rightarrow> 'd sup_message \<Rightarrow> ('j, 'v, 'd) supervisor \<Rightarrow>
   ('j, 'v, 'd) supervisor" where
  "dispatch_message_into X now m s = dispatch_payload X now (sm_agent_id m) (sm_payload m) s"

section \<open>The lifecycle of a child task\<close>

definition set_task ::
  "agent_id \<Rightarrow> ('v, 'd) child_task \<Rightarrow> ('j, 'v, 'd) supervisor \<Rightarrow> ('j, 'v, 'd) supervisor" where
  "set_task c k s = s\<lparr>sv_tasks := bt_insert c k (sv_tasks s)\<rparr>"

text \<open>The end of an attempt: the first attempt drops its input queue; a retry runs under a fresh
  cancellation token that no map holds.\<close>

definition drop_queue :: "('v, 'd) child_task \<Rightarrow> ('j, 'v, 'd) supervisor \<Rightarrow> ('j, 'v, 'd) supervisor" where
  "drop_queue k s =
     (if ts_attempts k = 1
      then s\<lparr>sv_queue_heap := (sv_queue_heap s)[ts_queue k := (fst (sv_queue_heap s ! ts_queue k), False)]\<rparr>
      else s)"

definition retry_decision ::
  "agent_id \<Rightarrow> ('v, 'd) child_task \<Rightarrow> ('v, 'd) spawn_result \<Rightarrow> (agent_id, nat) btree \<Rightarrow> bool \<times> (agent_id, nat) btree" where
  "retry_decision c k result counts =
     (case result of
        Inl _ \<Rightarrow> should_retry c (cf_restart_strategy (ts_config k)) counts
      | Inr _ \<Rightarrow> (False, counts))"

definition after_attempts :: "('v, 'd) spawn_result \<Rightarrow> ('v, 'd) task_phase" where
  "after_attempts result =
     (case result of
        Inr output \<Rightarrow> if lo_exit_reason output = ExAwaitingApproval then PhAwaiting output else PhSettle result
      | Inl _ \<Rightarrow> PhSettle result)"

definition attempt_finished ::
  "agent_id \<Rightarrow> ('v, 'd) spawn_result \<Rightarrow> ('j, 'v, 'd) supervisor \<Rightarrow> ('j, 'v, 'd) supervisor" where
  "attempt_finished c result s =
     (case bt_get (sv_tasks s) c of
        None \<Rightarrow> s
      | Some k \<Rightarrow>
          if ts_phase k \<noteq> PhRunning then s
          else
            (let s1 = drop_queue k s;
                 (again, counts) = retry_decision c k result (sv_retry_shared s1);
                 s2 = s1\<lparr>sv_retry_shared := counts\<rparr>
             in if again
                then set_task c (k\<lparr>ts_run_token := length (sv_token_heap s2), ts_attempts := ts_attempts k + 1\<rparr>)
                       (s2\<lparr>sv_token_heap := sv_token_heap s2 @ [False]\<rparr>)
                else set_task c (k\<lparr>ts_phase := after_attempts result\<rparr>) s2))"

text \<open>One more step of a task whose attempts are over.\<close>

definition advance_task ::
  "('j, 'v, 'd::{zero,linorder}) sup_ctx \<Rightarrow> agent_id \<Rightarrow> u64 \<Rightarrow> u64 \<Rightarrow> ('j, 'v, 'd) supervisor \<Rightarrow> ('j, 'v, 'd) supervisor" where
  "advance_task X c now elapsed s =
     (case bt_get (sv_tasks s) c of
        None \<Rightarrow> s
      | Some k \<Rightarrow>
          (let config = ts_config k
           in case ts_phase k of
                PhRunning \<Rightarrow> s
              | PhAwaiting output \<Rightarrow>
                  if sv_token_heap s ! ts_token k
                  then set_task c (k\<lparr>ts_phase := PhSettle (Ok (output\<lparr>lo_exit_reason := ExCancelled\<rparr>))\<rparr>) s
                  else s
              | PhSettle r \<Rightarrow>
                  set_task c (k\<lparr>ts_phase := PhProcess r\<rparr>) (settle_budget_reservation (sx_dec X) c r s)
              | PhProcess r \<Rightarrow>
                  (case process_child_result_with_rollup X False c (cf_parent_id config) (cf_placement config)
                          (ts_parent_account k) now elapsed r s of
                     (r1, s1) \<Rightarrow> set_task c (k\<lparr>ts_phase := PhRecord r1\<rparr>) s1)
              | PhRecord r \<Rightarrow>
                  set_task c (k\<lparr>ts_phase := PhDropToken\<rparr>)
                    (record_child_terminal_result now (terminal_of c (cf_placement config) elapsed r) s)
              | PhDropToken \<Rightarrow> set_task c (k\<lparr>ts_phase := PhDropInput\<rparr>) (s\<lparr>sv_tokens := bt_remove c (sv_tokens s)\<rparr>)
              | PhDropInput \<Rightarrow> s\<lparr>sv_inputs := bt_remove c (sv_inputs s), sv_tasks := bt_remove c (sv_tasks s)\<rparr>))"

section \<open>The direct call\<close>

text \<open>\<^verbatim>\<open>spawn_agent\<close>: the same acceptance without a message.  The first poll of the task is a parameter:
  a result that is there at once is finalised on the spot, without a retry.  The result is the address of
  the cancellation token.\<close>

definition spawn_agent ::
  "('j, 'v, 'd::{zero,linorder}) sup_ctx \<Rightarrow> 'd spawn_config \<Rightarrow> ('v, 'd) spawn_result option \<Rightarrow> u64 \<Rightarrow> u64 \<Rightarrow>
   ('j, 'v, 'd) supervisor \<Rightarrow> (runtime_error + nat) \<times> ('j, 'v, 'd) supervisor" where
  "spawn_agent X config immediate now elapsed s =
     (case and_then (require_bound_root s) (\<lambda>_.
           and_then (ensure_child_id_is_new s (cf_agent_id config)) (\<lambda>_.
           and_then (validate_spawn_authorization s config) (\<lambda>_.
           case sx_factory X of
             None \<Rightarrow> and_then (validate_spawn_budget (sx_dec X) s config) (\<lambda>_. Err SpawnMissingTask)
           | Some F \<Rightarrow> and_then (vet_spawn X F config s) (\<lambda>config1. Ok (F, config1))))) of
        Inl e \<Rightarrow> (Err e, s)
      | Inr (F, config1) \<Rightarrow>
          (case accept_spawn X F config1 now s of
             (Inl e, s1) \<Rightarrow> (Err e, s1)
           | (Inr (child, parent), s1) \<Rightarrow>
               (let c = cf_agent_id config1;
                    token = length (sv_token_heap s1);
                    s2 = spawn_task_into config1 parent now s1
                in case immediate of
                     None \<Rightarrow> (Ok token, s2)
                   | Some r \<Rightarrow>
                       if spawn_result_is_awaiting_approval r then (Ok token, attempt_finished c r s2)
                       else
                         (let s3 = settle_budget_reservation (sx_dec X) c r s2;
                              (r1, s4) = process_child_result_with_rollup X False c (cf_parent_id config1)
                                           (cf_placement config1) parent now elapsed r s3;
                              s5 = record_child_terminal_result now (terminal_of c (cf_placement config1) elapsed r1) s4;
                              s6 = s5\<lparr>sv_tokens := bt_remove c (sv_tokens s5), sv_inputs := bt_remove c (sv_inputs s5),
                                       sv_tasks := bt_remove c (sv_tasks s5)\<rparr>
                          in case r of
                               Inr _ \<Rightarrow> (Ok token, s6)
                             | Inl e \<Rightarrow>
                                 (Err (SessionErr (''child '' @ c @ '' (placement='' @ cf_placement config1
                                    @ '') failed immediately: '' @ show_runtime_error e)), s6)))))"

text \<open>\<^verbatim>\<open>deduct_child_usage\<close> adds with \<open>+=\<close>: overflow wraps in a release build (and panics in a debug one).\<close>

definition deduct_child_usage ::
  "'d decimal_ops \<Rightarrow> 'd spawn_config \<Rightarrow> ('j, 'v, 'd) supervisor \<Rightarrow> ('j, 'v, 'd) supervisor" where
  "deduct_child_usage D config s =
     (let acc = sv_account_heap s ! 0; b = ac_budget acc; u = cf_budget config
      in s\<lparr>sv_account_heap := (sv_account_heap s)[0 := acc\<lparr>ac_budget := b\<lparr>
             used_tokens := used_tokens b + used_tokens u, used_turns := used_turns b + used_turns u,
             used_cost := dec_add D (used_cost b) (used_cost u)\<rparr>\<rparr>]\<rparr>)"

definition supervisor_new ::
  "capability_token \<Rightarrow> 'd::zero resource_budget \<Rightarrow> ('j, 'v, 'd) supervisor" where
  "supervisor_new cap b =
     \<lparr>sv_parent_capability = cap, sv_root_id = None, sv_account_heap = [account_new b], sv_accepted = [],
      sv_child_accounts = [], sv_reservations = [], sv_retry_counts = [], sv_retry_shared = [], sv_tokens = [],
      sv_token_heap = [], sv_inputs = [], sv_queue_heap = [], sv_results = [], sv_wait_counter = 1,
      sv_wait_cells = [], sv_timers = [], sv_journal = None, sv_activity = [], sv_tasks = [], sv_replies = [],
      sv_dropped = []\<rparr>"

definition set_journal_storage :: "'j \<Rightarrow> ('j, 'v, 'd) supervisor \<Rightarrow> ('j, 'v, 'd) supervisor" where
  "set_journal_storage j s = s\<lparr>sv_journal := Some j\<rparr>"

definition set_root_agent_id :: "agent_id \<Rightarrow> ('j, 'v, 'd) supervisor \<Rightarrow> ('j, 'v, 'd) supervisor" where
  "set_root_agent_id r s = s\<lparr>sv_root_id := Some r\<rparr>"

section \<open>Steps\<close>

text \<open>What can happen next: a message is dispatched, an attempt of a child ends, its lifecycle takes a
  step, a timer of a wait fires, a caller drops the receiver of its reply, or an agent at work adds to
  the usage in its own budget.\<close>

datatype ('v, 'd) sv_event =
    EvMessage "'d sup_message" u64
  | EvAttempt agent_id "('v, 'd) spawn_result"
  | EvAdvance agent_id u64 u64
  | EvTimer wait_timer
  | EvDrop chan
  | EvUsage nat u64 u32 'd

definition run_timer :: "wait_timer \<Rightarrow> ('j, 'v, 'd) supervisor \<Rightarrow> ('j, 'v, 'd) supervisor" where
  "run_timer t s =
     (if t \<in> set (sv_timers s)
      then (let s1 = s\<lparr>sv_timers := remove1 t (sv_timers s)\<rparr>
            in case t of TimerSingle wid c \<Rightarrow> single_timeout wid c s1 | TimerAny wid cs \<Rightarrow> any_timeout wid cs s1)
      else s)"

definition set_usage :: "u64 \<Rightarrow> u32 \<Rightarrow> 'd \<Rightarrow> 'd account \<Rightarrow> 'd account" where
  "set_usage tokens turns cost acc =
     acc\<lparr>ac_budget := (ac_budget acc)\<lparr>used_tokens := tokens, used_turns := turns, used_cost := cost\<rparr>\<rparr>"

fun sv_step ::
  "('j, 'v, 'd::{zero,linorder}) sup_ctx \<Rightarrow> ('v, 'd) sv_event \<Rightarrow> ('j, 'v, 'd) supervisor \<Rightarrow> ('j, 'v, 'd) supervisor" where
  "sv_step X (EvMessage m now) s = dispatch_message_into X now m s"
| "sv_step X (EvAttempt c r) s = attempt_finished c r s"
| "sv_step X (EvAdvance c now elapsed) s = advance_task X c now elapsed s"
| "sv_step X (EvTimer t) s = run_timer t s"
| "sv_step X (EvDrop ch) s = s\<lparr>sv_dropped := ch # sv_dropped s\<rparr>"
| "sv_step X (EvUsage a tokens turns cost) s =
     s\<lparr>sv_account_heap := (sv_account_heap s)[a := set_usage tokens turns cost (sv_account_heap s ! a)]\<rparr>"

definition sv_run ::
  "('j, 'v, 'd::{zero,linorder}) sup_ctx \<Rightarrow> ('v, 'd) sv_event list \<Rightarrow> ('j, 'v, 'd) supervisor \<Rightarrow> ('j, 'v, 'd) supervisor" where
  "sv_run X evs s = fold (sv_step X) evs s"

text \<open>The states reached from \<open>s0\<close> through events of \<open>E\<close>.\<close>

inductive sv_reach ::
  "('j, 'v, 'd::{zero,linorder}) sup_ctx \<Rightarrow> ('v, 'd) sv_event set \<Rightarrow> ('j, 'v, 'd) supervisor \<Rightarrow>
   ('j, 'v, 'd) supervisor \<Rightarrow> bool" for X E s0 where
  reach_init: "sv_reach X E s0 s0"
| reach_step: "sv_reach X E s0 s \<Longrightarrow> ev \<in> E \<Longrightarrow> sv_reach X E s0 (sv_step X ev s)"

lemma sv_run_reach: "set evs \<subseteq> E \<Longrightarrow> sv_reach X E s0 (sv_run X evs s0)"
proof (induction evs rule: rev_induct)
  case (snoc ev evs)
  then show ?case using reach_step[of X E s0 "sv_run X evs s0" ev] by (simp add: sv_run_def)
qed (simp add: sv_run_def reach_init)

section \<open>The message loop\<close>

text \<open>\<^verbatim>\<open>run_actor_loop\<close>: what is in the channel moves to a heap, the heap is emptied by priority (messages of
  one priority in any order), and the loop ends when every sender is gone, after the tasks in flight.\<close>

datatype loop_mode = Looping | Draining | Stopped

record ('j, 'v, 'd) actor =
  at_sup :: "('j, 'v, 'd) supervisor"
  at_channel :: "'d sup_message list"
  at_closed :: bool
  at_heap :: "'d sup_message list"
  at_mode :: loop_mode

inductive actor_step ::
  "('j, 'v, 'd::{zero,linorder}) sup_ctx \<Rightarrow> ('j, 'v, 'd) actor \<Rightarrow> ('j, 'v, 'd) actor \<Rightarrow> bool" for X where
  act_send: "\<not> at_closed a \<Longrightarrow> actor_step X a (a\<lparr>at_channel := at_channel a @ [m]\<rparr>)"
| act_close: "actor_step X a (a\<lparr>at_closed := True\<rparr>)"
| act_receive: "at_mode a = Looping \<Longrightarrow> at_heap a = [] \<Longrightarrow> at_channel a \<noteq> [] \<Longrightarrow>
    actor_step X a (a\<lparr>at_heap := at_channel a, at_channel := []\<rparr>)"
| act_dispatch: "at_mode a = Looping \<Longrightarrow> m \<in> set (at_heap a) \<Longrightarrow>
    \<forall>n \<in> set (at_heap a). sm_priority n \<le> sm_priority m \<Longrightarrow>
    actor_step X a (a\<lparr>at_heap := remove1 m (at_heap a), at_sup := dispatch_message_into X now m (at_sup a)\<rparr>)"
| act_disconnected: "at_mode a = Looping \<Longrightarrow> at_heap a = [] \<Longrightarrow> at_channel a = [] \<Longrightarrow> at_closed a \<Longrightarrow>
    actor_step X a (a\<lparr>at_mode := Draining\<rparr>)"
| act_stop: "at_mode a = Draining \<Longrightarrow> sv_tasks (at_sup a) = [] \<Longrightarrow> actor_step X a (a\<lparr>at_mode := Stopped\<rparr>)"
| act_task: "\<forall>m now. ev \<noteq> EvMessage m now \<Longrightarrow> actor_step X a (a\<lparr>at_sup := sv_step X ev (at_sup a)\<rparr>)"

end
