(* ===== verification/Supervisor_Budget.thy ===== *)
theory Supervisor_Budget
  imports Supervisor
begin

text \<open>
  The lifecycle invariant of the supervisor and what it gives for budgets: the limits handed to the
  children in flight below an account never exceed that account's own limit, in every reachable state.
\<close>

section \<open>Sums over ordered maps\<close>

definition bt_sum :: "('v \<Rightarrow> nat) \<Rightarrow> ('k, 'v) btree \<Rightarrow> nat" where
  "bt_sum f m = sum_list (map (f \<circ> snd) m)"

lemma bt_remove_fresh: "bt_get m k = None \<Longrightarrow> bt_remove k m = m"
  by (induction m) (auto simp: bt_get_def bt_remove_def split: if_splits)

lemma bt_sum_remove: "bt_ok m \<Longrightarrow> bt_sum f m = (case bt_get m k of None \<Rightarrow> 0 | Some v \<Rightarrow> f v) + bt_sum f (bt_remove k m)"
proof (induction m)
  case (Cons e m)
  obtain a v where e: "e = (a, v)" by fastforce
  have ok: "bt_ok m" and lt: "\<forall>x \<in> fst ` set m. a < x" using Cons.prems by (auto simp: bt_ok_def e)
  show ?case
  proof (cases "a = k")
    case True
    then have "bt_get m k = None" using lt by (auto simp: bt_get_def map_of_eq_None_iff)
    then show ?thesis using True bt_remove_fresh[of m k] by (simp add: e bt_sum_def bt_get_def bt_remove_def)
  next
    case False
    then show ?thesis using Cons.IH[OF ok] by (simp add: e bt_sum_def bt_get_def bt_remove_def)
  qed
qed (simp add: bt_sum_def bt_remove_def)

lemma bt_sum_insert: "bt_ok m \<Longrightarrow> bt_sum f (bt_insert k v m) = f v + bt_sum f (bt_remove k m)"
proof (induction k v m rule: bt_insert.induct)
  case (2 k v a b m)
  have ok: "bt_ok m" and lt: "\<forall>x \<in> fst ` set m. a < x" using "2.prems" by (auto simp: bt_ok_def)
  have fresh: "bt_get m k = None" if "k \<le> a" using lt that by (force simp: bt_get_def map_of_eq_None_iff)
  then show ?case
    using "2.IH"[OF _ _ ok] bt_remove_fresh[of m k]
    by (cases k a rule: linorder_cases) (auto simp: bt_sum_def bt_remove_def)
qed (simp add: bt_sum_def bt_remove_def)

lemma bt_sum_replace:
  "bt_ok m \<Longrightarrow> bt_get m k = Some v \<Longrightarrow> bt_sum f (bt_insert k w m) + f v = bt_sum f m + f w"
  using bt_sum_insert[of m f k w] bt_sum_remove[of m f k] by simp

lemma bt_sum_fresh: "bt_ok m \<Longrightarrow> bt_get m k = None \<Longrightarrow> bt_sum f (bt_insert k w m) = bt_sum f m + f w"
  using bt_sum_insert[of m f k w] bt_remove_fresh[of m k] by simp

lemma bt_sum_cong: "bt_ok m \<Longrightarrow> bt_get m k = Some v \<Longrightarrow> f v = f w \<Longrightarrow> bt_sum f (bt_insert k w m) = bt_sum f m"
  using bt_sum_replace[of m k v f w] by simp

lemma bt_sum_ge: "bt_ok m \<Longrightarrow> bt_get m k = Some v \<Longrightarrow> f v \<le> bt_sum f m"
  using bt_sum_remove[of m f k] by simp

section \<open>The invariant\<close>

fun unsettled :: "('v, 'd) task_phase \<Rightarrow> bool" where
  "unsettled PhRunning = True"
| "unsettled (PhAwaiting _) = True"
| "unsettled (PhSettle _) = True"
| "unsettled _ = False"

fun unrecorded :: "('v, 'd) task_phase \<Rightarrow> bool" where
  "unrecorded PhDropToken = False"
| "unrecorded PhDropInput = False"
| "unrecorded _ = True"

lemma unsettled_unrecorded: "unsettled p \<Longrightarrow> unrecorded p"
  by (cases p) auto

text \<open>What the children in flight below an account hold of a resource.\<close>

definition held :: "('d resource_budget \<Rightarrow> nat) \<Rightarrow> nat \<Rightarrow> ('v, 'd) child_task \<Rightarrow> nat" where
  "held f a k = (if unsettled (ts_phase k) \<and> ts_parent_account k = a then f (cf_budget (ts_config k)) else 0)"

definition in_flight :: "('j, 'v, 'd) supervisor \<Rightarrow> ('d resource_budget \<Rightarrow> nat) \<Rightarrow> nat \<Rightarrow> nat" where
  "in_flight s f a = bt_sum (held f a) (sv_tasks s)"

definition within_limit :: "'w::len word \<Rightarrow> 'w word \<Rightarrow> nat \<Rightarrow> bool" where
  "within_limit limit reserved tot \<longleftrightarrow> limit \<noteq> 0 \<longrightarrow> unat reserved = tot \<and> unat reserved \<le> unat limit"

definition account_ok :: "('j, 'v, 'd) supervisor \<Rightarrow> nat \<Rightarrow> bool" where
  "account_ok s a \<longleftrightarrow>
     (let acc = sv_account_heap s ! a; b = ac_budget acc
      in within_limit (max_tokens b) (ac_reserved_tokens acc) (in_flight s (unat \<circ> max_tokens) a) \<and>
         within_limit (max_turns b) (ac_reserved_turns acc) (in_flight s (unat \<circ> max_turns) a) \<and>
         (max_sub_agents b \<noteq> 0 \<longrightarrow> used_sub_agents b \<le> max_sub_agents b))"

definition reservation_of :: "('v, 'd) child_task \<Rightarrow> 'd reservation" where
  "reservation_of k =
     (let b = cf_budget (ts_config k)
      in \<lparr>rv_parent = ts_parent_account k, rv_tokens = max_tokens b, rv_turns = max_turns b, rv_cost = max_cost b\<rparr>)"

definition running :: "('j, 'v, 'd) supervisor \<Rightarrow> agent_id \<Rightarrow> bool" where
  "running s c \<longleftrightarrow> (\<exists>st. bt_get (sv_results s) c = Some st \<and> rs_result st = None)"

definition tasks_ok :: "('j, 'v, 'd) supervisor \<Rightarrow> bool" where
  "tasks_ok s \<longleftrightarrow>
     (\<forall>c k. bt_get (sv_tasks s) c = Some k \<longrightarrow>
        c \<in> set (sv_accepted s) \<and> cf_agent_id (ts_config k) = c \<and> ts_parent_account k < length (sv_account_heap s)) \<and>
     (\<forall>c. running s c \<longleftrightarrow> (\<exists>k. bt_get (sv_tasks s) c = Some k \<and> unrecorded (ts_phase k))) \<and>
     (\<forall>c. bt_get (sv_reservations s) c =
        Option.bind (bt_get (sv_tasks s) c) (\<lambda>k. if unsettled (ts_phase k) then Some (reservation_of k) else None))"

definition maps_ok :: "('j, 'v, 'd) supervisor \<Rightarrow> bool" where
  "maps_ok s \<longleftrightarrow> bt_ok (sv_tasks s) \<and> bt_ok (sv_results s) \<and> bt_ok (sv_reservations s) \<and> bt_ok (sv_child_accounts s) \<and>
     bt_ok (sv_wait_cells s) \<and>
     (\<forall>c st. bt_get (sv_results s) c = Some st \<longrightarrow> c \<in> set (sv_accepted s) \<and> md_child_id (rs_metadata st) = c) \<and>
     (\<forall>c a. bt_get (sv_child_accounts s) c = Some a \<longrightarrow> a < length (sv_account_heap s)) \<and> sv_account_heap s \<noteq> []"

definition sup_ok :: "('j, 'v, 'd) supervisor \<Rightarrow> bool" where
  "sup_ok s \<longleftrightarrow> maps_ok s \<and> tasks_ok s \<and> (\<forall>a < length (sv_account_heap s). account_ok s a)"

section \<open>Steps that leave lifecycles and budgets alone\<close>

text \<open>Two states that differ in replies, waiters and delivery marks only.\<close>

definition life :: "('j, 'v, 'd) supervisor \<Rightarrow> agent_id \<Rightarrow> (child_metadata \<times> ('v, 'd) child_terminal option) option" where
  "life s c = map_option (\<lambda>st. (rs_metadata st, rs_result st)) (bt_get (sv_results s) c)"

definition same_core :: "('j, 'v, 'd) supervisor \<Rightarrow> ('j, 'v, 'd) supervisor \<Rightarrow> bool" where
  "same_core s s' \<longleftrightarrow>
     sv_account_heap s' = sv_account_heap s \<and> sv_accepted s' = sv_accepted s \<and>
     sv_child_accounts s' = sv_child_accounts s \<and> sv_reservations s' = sv_reservations s \<and>
     sv_tasks s' = sv_tasks s \<and> sv_activity s' = sv_activity s \<and> sv_parent_capability s' = sv_parent_capability s \<and>
     sv_root_id s' = sv_root_id s \<and> life s' = life s \<and>
     (bt_ok (sv_results s) \<longrightarrow> bt_ok (sv_results s')) \<and> (bt_ok (sv_wait_cells s) \<longrightarrow> bt_ok (sv_wait_cells s'))"

named_theorems core_simps \<open>operations that keep the core of the state\<close>

lemma life_update [simp]: "life (s\<lparr>sv_tasks := ts\<rparr>) = life s"
  by (simp add: life_def fun_eq_iff)

lemma same_core_refl [simp]: "same_core s s"
  by (simp add: same_core_def)

lemma same_core_trans: "same_core s1 s2 \<Longrightarrow> same_core s2 s3 \<Longrightarrow> same_core s1 s3"
  by (simp add: same_core_def)

lemma running_life: "running s c \<longleftrightarrow> (\<exists>m. life s c = Some (m, None))"
  by (auto simp: running_def life_def)

lemma life_Some: "bt_get (sv_results s) c = Some st \<Longrightarrow> life s c = Some (rs_metadata st, rs_result st)"
  by (simp add: life_def)

lemma same_core_ok:
  assumes "same_core s s'" "sup_ok s"
  shows "sup_ok s'"
proof -
  note c = assms(1)[unfolded same_core_def]
  have run: "running s' x = running s x" for x using c by (simp add: running_life)
  have res: "x \<in> set (sv_accepted s') \<and> md_child_id (rs_metadata st) = x"
    if r: "bt_get (sv_results s') x = Some st" for x st
  proof -
    obtain st0 where "bt_get (sv_results s) x = Some st0" "rs_metadata st0 = rs_metadata st"
      using life_Some[OF r] c by (auto simp: life_def)
    then show ?thesis using assms(2) c unfolding sup_ok_def maps_ok_def by metis
  qed
  have "maps_ok s'" using assms(2) c res by (simp add: sup_ok_def maps_ok_def)
  moreover have "tasks_ok s'" using assms(2) c run by (simp add: sup_ok_def tasks_ok_def)
  moreover have "account_ok s' a = account_ok s a" for a using c by (simp add: account_ok_def in_flight_def)
  ultimately show ?thesis using assms(2) c by (simp add: sup_ok_def)
qed

lemma respond_core [core_simps]: "same_core s (respond ch r s)"
  by (simp add: respond_def send_reply_def same_core_def life_def fun_eq_iff)

lemma send_reply_core [core_simps]: "same_core s (snd (send_reply ch r s))"
  by (simp add: send_reply_def same_core_def life_def fun_eq_iff)

lemma update_child_core:
  assumes "\<And>st. rs_metadata (f st) = rs_metadata st \<and> rs_result (f st) = rs_result st"
  shows "same_core s (update_child c f s)"
  using assms by (auto simp: update_child_def same_core_def life_def fun_eq_iff bt_simps split: option.splits)

lemma mark_delivered_core [core_simps]: "same_core s (mark_delivered c s)"
  unfolding mark_delivered_def by (rule update_child_core) simp

lemma push_waiter_core [core_simps]: "same_core s (update_child c (push_waiter w) s)"
  by (rule update_child_core) (simp add: push_waiter_def)

lemma retain_core [core_simps]: "same_core s (update_child c (retain_others wid) s)"
  by (rule update_child_core) (simp add: retain_others_def)

lemma take_sender_core [core_simps]: "same_core s (snd (take_sender wid s))"
  by (auto simp: take_sender_def same_core_def life_def fun_eq_iff)

lemma fold_core: "(\<And>x s. x \<in> set xs \<Longrightarrow> same_core s (g x s)) \<Longrightarrow> same_core s (fold g xs s)"
proof (induction xs arbitrary: s)
  case (Cons x xs)
  then show ?case by (auto intro: same_core_trans[of s "g x s"])
qed simp

lemma deliver_to_core [core_simps]: "same_core s (deliver_to ch r c s)"
  using send_reply_core[of s ch r] mark_delivered_core[of "snd (send_reply ch r s)" c]
  by (auto simp: deliver_to_def split: prod.splits intro: same_core_trans)

lemma join_child_core [core_simps]: "same_core s (join_child c ch s)"
  using update_child_core[of "\<lambda>x. x\<lparr>rs_join_waiters := rs_join_waiters x @ [ch]\<rparr>" s c]
  by (auto simp: join_child_def core_simps split: option.splits)

lemma send_child_status_core [core_simps]: "same_core s (send_child_status now c ch s)"
proof (cases "bt_get (sv_results s) c")
  case (Some st)
  let ?p = "send_reply ch (RStatus (Ok (status_from_state now st))) s"
  show ?thesis
    using Some same_core_trans[OF send_reply_core[of s ch "RStatus (Ok (status_from_state now st))"] mark_delivered_core]
      send_reply_core[of s ch "RStatus (Ok (status_from_state now st))"]
    by (cases ?p) (auto simp: send_child_status_def)
qed (simp add: send_child_status_def core_simps)

lemma map_results_core:
  assumes "\<And>st. rs_metadata (f st) = rs_metadata st \<and> rs_result (f st) = rs_result st"
  shows "same_core s (s\<lparr>sv_results := map (\<lambda>(c, st). (c, f st)) (sv_results s)\<rparr>)"
proof -
  have g: "bt_get (map (\<lambda>(c, st). (c, f st)) m) c = map_option f (bt_get m c)" for c and m :: "(string, ('a, 'b) child_run_state) btree"
    by (simp add: bt_get_def map_of_map)
  have k: "map (\<lambda>x. fst (case x of (c, st) \<Rightarrow> (c, f st))) m = map fst m" for m :: "(string, ('a, 'b) child_run_state) btree"
    by (simp add: case_prod_beta)
  show ?thesis
    using assms by (simp add: same_core_def life_def fun_eq_iff g option.map_comp comp_def bt_ok_def k cong: option.map_cong)
qed

lemma send_child_roster_core [core_simps]: "same_core s (send_child_roster now caller ch s)"
proof (cases "validate_caller_identity s caller")
  case (Inr u)
  let ?r = "RRoster (Ok (sort_key re_child_id (map (roster_entry_from_state now) (filter (owned_by caller) (map snd (sv_results s))))))"
  obtain ok s1 where p: "send_reply ch ?r s = (ok, s1)" by fastforce
  have c: "same_core s s1" using send_reply_core[of s ch ?r] p by simp
  show ?thesis
    using Inr p c same_core_trans[OF c map_results_core[of "\<lambda>st. if owned_by caller st \<and> rs_result st \<noteq> None
      then st\<lparr>rs_delivered := True\<rparr> else st" s1]]
    by (auto simp: send_child_roster_def Let_def)
qed (simp add: send_child_roster_def core_simps)

lemma send_child_roster_inspection_core [core_simps]: "same_core s (send_child_roster_inspection now ch s)"
  by (simp add: send_child_roster_inspection_def core_simps)

lemma open_wait_core:
  "same_core s (s\<lparr>sv_wait_counter := n, sv_wait_cells := bt_insert w p (sv_wait_cells s), sv_timers := ts\<rparr>)"
  by (auto simp: same_core_def life_def fun_eq_iff)

lemma wait_child_core [core_simps]: "same_core s (wait_child c timeout ch s)"
  by (auto simp: wait_child_def core_simps Let_def split: option.splits
      intro: same_core_trans[OF open_wait_core push_waiter_core])

lemma wait_children_core [core_simps]: "same_core s (wait_children cs timeout ch s)"
  by (auto simp: wait_children_def core_simps Let_def split: option.splits
      intro!: same_core_trans[OF open_wait_core fold_core] push_waiter_core)

lemma run_timer_core [core_simps]: "same_core s (run_timer t s)"
proof -
  let ?s = "s\<lparr>sv_timers := remove1 t (sv_timers s)\<rparr>"
  have 0: "same_core s ?s" by (simp add: same_core_def life_def fun_eq_iff)
  have take: "same_core s2 s1" if "take_sender wid s2 = (x, s1)" for wid x and s1 s2 :: "('a, 'b, 'c) supervisor"
    using take_sender_core[of s2 wid] that by simp
  have "same_core ?s (single_timeout wid c ?s)" for wid c
  proof (cases "bt_get (sv_results ?s) c")
    case (Some st)
    show ?thesis
    proof (cases "position (\<lambda>w. cw_id w = wid) (rs_wait_waiters st)")
      case (Some i)
      let ?u = "update_child c (\<lambda>x. x\<lparr>rs_wait_waiters := swap_remove (rs_wait_waiters x) i\<rparr>) ?s"
      have u: "same_core ?s ?u" by (rule update_child_core) simp
      obtain x s1 where p: "take_sender wid ?u = (x, s1)" by fastforce
      have c: "same_core ?s s1" by (rule same_core_trans[OF u take[OF p]])
      show ?thesis
        using \<open>bt_get (sv_results ?s) c = Some st\<close> Some p c same_core_trans[OF c respond_core]
        by (auto simp: single_timeout_def split: option.splits wait_sender.splits)
    qed (use Some in \<open>simp add: single_timeout_def\<close>)
  qed (simp add: single_timeout_def)
  moreover have "same_core ?s (any_timeout wid cs ?s)" for wid cs
  proof -
    have u: "same_core ?s (fold (\<lambda>c. update_child c (retain_others wid)) cs ?s)" by (rule fold_core) (rule retain_core)
    obtain x s1 where p: "take_sender wid (fold (\<lambda>c. update_child c (retain_others wid)) cs ?s) = (x, s1)" by fastforce
    have c: "same_core ?s s1" by (rule same_core_trans[OF u take[OF p]])
    show ?thesis using p c same_core_trans[OF c respond_core]
      by (auto simp: any_timeout_def split: option.splits wait_sender.splits)
  qed
  ultimately show ?thesis
    using 0 same_core_trans[OF 0] by (auto simp: run_timer_def Let_def split: wait_timer.splits)
qed

section \<open>Steps of lifecycles\<close>

lemma in_flight_set_task:
  "bt_ok (sv_tasks s) \<Longrightarrow> bt_get (sv_tasks s) c = Some k0 \<Longrightarrow>
   in_flight (set_task c k s) f a + held f a k0 = in_flight s f a + held f a k"
  by (simp add: in_flight_def set_task_def bt_sum_replace)

lemma in_flight_cong: "sv_tasks s' = sv_tasks s \<Longrightarrow> in_flight s' f a = in_flight s f a"
  by (simp add: in_flight_def)

lemma account_ok_cong:
  "sv_account_heap s' = sv_account_heap s \<Longrightarrow> (\<And>f. in_flight s' f a = in_flight s f a) \<Longrightarrow> account_ok s' a = account_ok s a"
  by (simp add: account_ok_def)

text \<open>A task that changes neither its configuration, its account nor which bookkeeping it still needs.\<close>

lemma set_task_ok:
  assumes ok: "sup_ok s" and k0: "bt_get (sv_tasks s) c = Some k0"
    and same: "ts_config k = ts_config k0" "ts_parent_account k = ts_parent_account k0"
      "unsettled (ts_phase k) = unsettled (ts_phase k0)" "unrecorded (ts_phase k) = unrecorded (ts_phase k0)"
  shows "sup_ok (set_task c k s)"
proof -
  have m: "maps_ok s" and t: "tasks_ok s" using ok by (simp_all add: sup_ok_def)
  have "held f a k = held f a k0" for f :: "'c resource_budget \<Rightarrow> nat" and a using same by (simp add: held_def)
  then have fl: "in_flight (set_task c k s) f a = in_flight s f a" for f a
    using in_flight_set_task[OF _ k0, of k f a] m by (simp add: maps_ok_def)
  have "maps_ok (set_task c k s)" using m by (auto simp: maps_ok_def set_task_def)
  moreover have "tasks_ok (set_task c k s)"
  proof -
    have r: "reservation_of k = reservation_of k0" using same by (simp add: reservation_of_def)
    have run: "running (set_task c k s) x = running s x" for x by (simp add: running_def set_task_def)
    show ?thesis
      using t k0 same unfolding tasks_ok_def run
      by (auto simp: set_task_def bt_simps r)
  qed
  moreover have "account_ok (set_task c k s) a = account_ok s a" for a
    by (rule account_ok_cong) (simp_all add: set_task_def fl[unfolded set_task_def])
  ultimately show ?thesis using ok by (simp add: sup_ok_def set_task_def)
qed

lemma attempt_finished_cases [case_names idle retry over]:
  obtains "attempt_finished c r s = s"
  | k counts s1 where "bt_get (sv_tasks s) c = Some k" "ts_phase k = PhRunning"
      "retry_decision c k r (sv_retry_shared s) = (True, counts)"
      "s1 = drop_queue k s\<lparr>sv_retry_shared := counts, sv_token_heap := sv_token_heap s @ [False]\<rparr>"
      "attempt_finished c r s =
         set_task c (k\<lparr>ts_run_token := length (sv_token_heap s), ts_attempts := ts_attempts k + 1\<rparr>) s1"
  | k counts s1 where "bt_get (sv_tasks s) c = Some k" "ts_phase k = PhRunning"
      "retry_decision c k r (sv_retry_shared s) = (False, counts)"
      "s1 = drop_queue k s\<lparr>sv_retry_shared := counts\<rparr>"
      "attempt_finished c r s = set_task c (k\<lparr>ts_phase := after_attempts r\<rparr>) s1"
proof (cases "bt_get (sv_tasks s) c")
  case (Some k)
  show thesis
  proof (cases "ts_phase k = PhRunning")
    case True
    obtain again counts where rc: "retry_decision c k r (sv_retry_shared s) = (again, counts)" by fastforce
    have q: "sv_retry_shared (drop_queue k s) = sv_retry_shared s" "sv_token_heap (drop_queue k s) = sv_token_heap s"
      by (simp_all add: drop_queue_def)
    show thesis
      using that(2)[OF Some True _ refl] that(3)[OF Some True _ refl] Some True rc
      by (cases again) (simp_all add: attempt_finished_def Let_def q)
  qed (use Some that(1) in \<open>simp add: attempt_finished_def\<close>)
qed (use that(1) in \<open>simp add: attempt_finished_def\<close>)

lemma after_attempts_unsettled [simp]: "unsettled (after_attempts r)" "unrecorded (after_attempts r)"
  by (auto simp: after_attempts_def split: sum.splits)

lemma drop_queue_core: "same_core s (drop_queue k s\<lparr>sv_retry_shared := counts\<rparr>)"
  "same_core s (drop_queue k s\<lparr>sv_retry_shared := counts, sv_token_heap := h\<rparr>)"
  by (simp_all add: drop_queue_def same_core_def life_def fun_eq_iff)

lemma attempt_finished_ok:
  assumes "sup_ok s"
  shows "sup_ok (attempt_finished c r s)"
proof (cases c r s rule: attempt_finished_cases)
  case (retry k counts s1)
  have "same_core s s1" unfolding retry(4) by (rule drop_queue_core)
  moreover from this have "sup_ok s1" by (rule same_core_ok[OF _ assms])
  ultimately show ?thesis
    unfolding retry(5) using retry(1,2) by (intro set_task_ok[of s1 c k]) (simp_all add: same_core_def)
next
  case (over k counts s1)
  have "same_core s s1" unfolding over(4) by (rule drop_queue_core)
  moreover from this have "sup_ok s1" by (rule same_core_ok[OF _ assms])
  ultimately show ?thesis
    unfolding over(5) using over(1,2) by (intro set_task_ok[of s1 c k]) (simp_all add: same_core_def)
qed (use assms in simp)

lemma sat_sub_exact: "b \<le> a \<Longrightarrow> unat (sat_sub a b) = unat a - unat b"
  by (simp add: unat_sat_sub)

lemma release_within:
  assumes "within_limit limit reserved (tot + unat r)"
  shows "within_limit limit (sat_sub reserved r) tot"
  using assms by (auto simp: within_limit_def unat_sat_sub)

text \<open>Settling: the reservation goes and the phase moves on, in one step.\<close>

lemma settle_ok:
  assumes ok: "sup_ok s" and k: "bt_get (sv_tasks s) c = Some k" "ts_phase k = PhSettle r"
  shows "sup_ok (set_task c (k\<lparr>ts_phase := PhProcess r\<rparr>) (settle_budget_reservation D c r s))"
proof -
  have m: "maps_ok s" and t: "tasks_ok s" and acc: "\<forall>a < length (sv_account_heap s). account_ok s a"
    using ok by (simp_all add: sup_ok_def)
  let ?p = "ts_parent_account k" and ?b = "cf_budget (ts_config k)"
  have res: "bt_get (sv_reservations s) c = Some (reservation_of k)" using t k by (simp add: tasks_ok_def)
  have pl: "?p < length (sv_account_heap s)" using t k by (auto simp: tasks_ok_def)
  let ?old = "sv_account_heap s ! ?p"
  obtain new where new: "settle_budget_reservation D c r s =
      s\<lparr>sv_reservations := bt_remove c (sv_reservations s), sv_account_heap := (sv_account_heap s)[?p := new]\<rparr>"
    and nf: "max_tokens (ac_budget new) = max_tokens (ac_budget ?old)" "max_turns (ac_budget new) = max_turns (ac_budget ?old)"
      "max_sub_agents (ac_budget new) = max_sub_agents (ac_budget ?old)"
      "used_sub_agents (ac_budget new) = used_sub_agents (ac_budget ?old)"
      "ac_reserved_tokens new = sat_sub (ac_reserved_tokens ?old) (max_tokens ?b)"
      "ac_reserved_turns new = sat_sub (ac_reserved_turns ?old) (max_turns ?b)"
    by (rule that[of "case r of
                         Inr output \<Rightarrow> (release_in D (reservation_of k) ?old)\<lparr>ac_budget := charge_budget_usage D output (ac_budget (release_in D (reservation_of k) ?old))\<rparr>
                       | Inl _ \<Rightarrow> release_in D (reservation_of k) ?old"])
      (simp_all add: settle_budget_reservation_def res reservation_of_def Let_def release_in_def charge_budget_usage_def split: sum.split)
  let ?s = "set_task c (k\<lparr>ts_phase := PhProcess r\<rparr>) (settle_budget_reservation D c r s)"
  have fl: "in_flight ?s f a + held f a k = in_flight s f a" for f :: "'c resource_budget \<Rightarrow> nat" and a
    using in_flight_set_task[of "settle_budget_reservation D c r s" c k "k\<lparr>ts_phase := PhProcess r\<rparr>" f a] m k(1)
    by (simp add: new maps_ok_def held_def in_flight_def)
  have "maps_ok ?s" using m by (auto simp: maps_ok_def set_task_def new)
  moreover have "tasks_ok ?s"
  proof -
    have run: "running ?s x = running s x" for x by (simp add: running_def set_task_def new)
    show ?thesis using t k unfolding tasks_ok_def run by (auto simp: set_task_def new bt_simps)
  qed
  moreover have "account_ok ?s a" if "a < length (sv_account_heap s)" for a
  proof (cases "a = ?p")
    case True
    have "held f a k = f ?b" for f using True k(2) by (simp add: held_def)
    then have "in_flight s f a = in_flight ?s f a + f ?b" for f using fl[of f a] by simp
    then show ?thesis
      using acc[rule_format, OF that] True pl
      by (auto simp: account_ok_def Let_def nf set_task_def new intro: release_within)
  next
    case False
    have "held f a k = 0" for f using False by (simp add: held_def)
    then have "in_flight ?s f a = in_flight s f a" for f using fl[of f a] by simp
    then show ?thesis using acc[rule_format, OF that] False by (simp add: account_ok_def set_task_def new)
  qed
  ultimately show ?thesis by (simp add: sup_ok_def set_task_def new)
qed

text \<open>Fields the invariant does not read.\<close>

lemma sup_ok_update [simp]:
  "sup_ok (s\<lparr>sv_journal := j\<rparr>) = sup_ok s" "sup_ok (s\<lparr>sv_activity := a\<rparr>) = sup_ok s"
  "sup_ok (s\<lparr>sv_tokens := t\<rparr>) = sup_ok s" "sup_ok (s\<lparr>sv_inputs := i\<rparr>) = sup_ok s"
  "sup_ok (s\<lparr>sv_token_heap := h\<rparr>) = sup_ok s" "sup_ok (s\<lparr>sv_queue_heap := q\<rparr>) = sup_ok s"
  "sup_ok (s\<lparr>sv_dropped := d\<rparr>) = sup_ok s" "sup_ok (s\<lparr>sv_root_id := r\<rparr>) = sup_ok s"
  by (simp_all add: sup_ok_def maps_ok_def tasks_ok_def account_ok_def in_flight_def running_def)

lemma forget_elsewhere_core: "same_core s (forget_elsewhere c w s)"
  unfolding forget_elsewhere_def by (rule fold_core) (simp add: retain_core)

lemma deliver_joins_core: "same_core s (snd (deliver_joins t chs s))"
proof (induction chs arbitrary: s)
  case (Cons ch chs)
  obtain ok s1 where p: "send_reply ch (RJoin (Ok t)) s = (ok, s1)" by fastforce
  have "same_core s s1" using send_reply_core[of s ch "RJoin (Ok t)"] p by simp
  then show ?case using Cons.IH[of s1] p by (auto split: prod.splits intro: same_core_trans)
qed simp

lemma deliver_wait_core: "same_core s (snd (deliver_wait t w s))"
proof -
  obtain x s1 where p: "take_sender (cw_id w) s = (x, s1)" by fastforce
  have c: "same_core s s1" using take_sender_core[of s "cw_id w"] p by simp
  show ?thesis
    using p c same_core_trans[OF c send_reply_core]
    by (auto simp: deliver_wait_def split: option.splits wait_sender.splits)
qed

lemma deliver_waits_core: "same_core s (snd (deliver_waits t ws s))"
proof (induction ws arbitrary: s)
  case (Cons w ws)
  obtain ok s1 where p: "deliver_wait t w s = (ok, s1)" by fastforce
  have "same_core s s1" using deliver_wait_core[of s t w] p by simp
  then show ?case using Cons.IH[of s1] p by (auto split: prod.splits intro: same_core_trans)
qed simp

text \<open>Recording a result: the entry of the child becomes terminal, and whatever follows keeps the core.\<close>

definition terminal_state :: "u64 \<Rightarrow> ('v, 'd) child_terminal \<Rightarrow> ('v, 'd) child_run_state \<Rightarrow> ('v, 'd) child_run_state" where
  "terminal_state now t st =
     st\<lparr>rs_metadata := (rs_metadata st)\<lparr>md_finished_at_ms := Some now\<rparr>,
        rs_result := Some (t\<lparr>ct_elapsed_ms := sat_sub now (md_started_at_ms (rs_metadata st))\<rparr>),
        rs_join_waiters := [], rs_wait_waiters := []\<rparr>"

lemma record_core:
  assumes "bt_get (sv_results s) (ct_child_id t) = Some st"
  shows "same_core (s\<lparr>sv_results := bt_insert (ct_child_id t) (terminal_state now t st) (sv_results s)\<rparr>)
    (record_child_terminal_result now t s)"
proof -
  let ?c = "ct_child_id t" and ?t = "t\<lparr>ct_elapsed_ms := sat_sub now (md_started_at_ms (rs_metadata st))\<rparr>"
  let ?s1 = "s\<lparr>sv_results := bt_insert ?c (terminal_state now t st) (sv_results s)\<rparr>"
  let ?s2 = "fold (forget_elsewhere ?c) (rs_wait_waiters st) ?s1"
  obtain d1 s3 where j: "deliver_joins ?t (rs_join_waiters st) ?s2 = (d1, s3)" by fastforce
  obtain d2 s4 where w: "deliver_waits ?t (rs_wait_waiters st) s3 = (d2, s4)" by fastforce
  have "same_core ?s1 ?s2" by (rule fold_core) (rule forget_elsewhere_core)
  also have "same_core ?s2 s3" using deliver_joins_core[of ?s2 ?t "rs_join_waiters st"] j by simp
  finally (same_core_trans) have "same_core ?s1 s3" .
  also have "same_core s3 s4" using deliver_waits_core[of s3 ?t "rs_wait_waiters st"] w by simp
  finally (same_core_trans) have c: "same_core ?s1 s4" .
  have "record_child_terminal_result now t s = (if d1 \<or> d2 then mark_delivered ?c s4 else s4)"
    using assms j w by (simp add: record_child_terminal_result_def Let_def terminal_state_def)
  then show ?thesis using c same_core_trans[OF c mark_delivered_core] by simp
qed

lemma record_ok:
  assumes ok: "sup_ok s" and k: "bt_get (sv_tasks s) c = Some k" "ts_phase k = PhRecord r" and t: "ct_child_id t = c"
  shows "sup_ok (set_task c (k\<lparr>ts_phase := PhDropToken\<rparr>) (record_child_terminal_result now t s))"
proof -
  have m: "maps_ok s" and tk: "tasks_ok s" and acc: "\<forall>a < length (sv_account_heap s). account_ok s a"
    using ok by (simp_all add: sup_ok_def)
  have "running s c" using tk k by (auto simp: tasks_ok_def)
  then obtain st where st: "bt_get (sv_results s) c = Some st" by (auto simp: running_def)
  let ?s1 = "s\<lparr>sv_results := bt_insert c (terminal_state now t st) (sv_results s)\<rparr>"
  have core: "same_core (set_task c (k\<lparr>ts_phase := PhDropToken\<rparr>) ?s1)
      (set_task c (k\<lparr>ts_phase := PhDropToken\<rparr>) (record_child_terminal_result now t s))"
    using record_core[of s t st now] st t by (simp add: same_core_def set_task_def)
  have fl: "in_flight (set_task c (k\<lparr>ts_phase := PhDropToken\<rparr>) ?s1) f a = in_flight s f a"  for f a
    using in_flight_set_task[of ?s1 c k "k\<lparr>ts_phase := PhDropToken\<rparr>" f a] m k
    by (simp add: maps_ok_def held_def in_flight_def)
  have "maps_ok (set_task c (k\<lparr>ts_phase := PhDropToken\<rparr>) ?s1)"
    using m st by (auto simp: maps_ok_def set_task_def bt_simps terminal_state_def)
  moreover have "tasks_ok (set_task c (k\<lparr>ts_phase := PhDropToken\<rparr>) ?s1)"
    using tk k by (auto simp: tasks_ok_def set_task_def bt_simps running_def terminal_state_def)
  moreover have "account_ok (set_task c (k\<lparr>ts_phase := PhDropToken\<rparr>) ?s1) a = account_ok s a" for a
    by (rule account_ok_cong) (simp add: set_task_def, rule fl)
  ultimately have "sup_ok (set_task c (k\<lparr>ts_phase := PhDropToken\<rparr>) ?s1)" using acc by (simp add: sup_ok_def set_task_def)
  then show ?thesis by (rule same_core_ok[OF core])
qed

lemma remove_task_ok:
  assumes ok: "sup_ok s" and k: "bt_get (sv_tasks s) c = Some k" "ts_phase k = PhDropInput"
  shows "sup_ok (s\<lparr>sv_inputs := i, sv_tasks := bt_remove c (sv_tasks s)\<rparr>)"
proof -
  let ?s = "s\<lparr>sv_tasks := bt_remove c (sv_tasks s)\<rparr>"
  have m: "maps_ok s" and tk: "tasks_ok s" using ok by (simp_all add: sup_ok_def)
  have fl: "in_flight ?s f a = in_flight s f a" for f a
    using bt_sum_remove[of "sv_tasks s" "held f a" c] m k by (simp add: in_flight_def maps_ok_def held_def)
  have "maps_ok ?s" using m by (auto simp: maps_ok_def)
  moreover have "tasks_ok ?s" using tk k by (auto simp: tasks_ok_def bt_simps running_def)
  moreover have "account_ok ?s a = account_ok s a" for a by (rule account_ok_cong) (simp_all add: fl)
  ultimately have "sup_ok ?s" using ok by (simp add: sup_ok_def)
  moreover have "sup_ok (s\<lparr>sv_inputs := i, sv_tasks := bt_remove c (sv_tasks s)\<rparr>) = sup_ok ?s"
    by (simp add: sup_ok_def maps_ok_def tasks_ok_def account_ok_def in_flight_def running_def)
  ultimately show ?thesis by simp
qed

lemma journal_append_updates:
  "\<exists>j. snd (journal_append X kind owner now e s) = s\<lparr>sv_journal := j\<rparr>"
  by (auto simp: journal_append_def split: option.splits prod.splits intro: exI[of _ "sv_journal s"])

lemma process_updates:
  "\<exists>j a. snd (process_child_result_with_rollup X False c owner p parent now el r s) = s\<lparr>sv_journal := j, sv_activity := a\<rparr>"
proof -
  have none: "\<exists>j a. s = s\<lparr>sv_journal := j, sv_activity := a\<rparr>"
    by (intro exI[of _ "sv_journal s"] exI[of _ "sv_activity s"]) simp
  have app: "\<exists>j a. snd (case journal_append X kind owner now e s of
      (Inl err, s1) \<Rightarrow> (f err, s1) | (Inr _, s1) \<Rightarrow> (g, emit_activity c act s1)) = s\<lparr>sv_journal := j, sv_activity := a\<rparr>"
    for kind e act and f :: "runtime_error \<Rightarrow> ('b, 'c) spawn_result" and g
  proof -
    obtain q s1 where q: "journal_append X kind owner now e s = (q, s1)" by fastforce
    obtain j where s1: "s1 = s\<lparr>sv_journal := j\<rparr>" using journal_append_updates[of X kind owner now e s] q by auto
    show ?thesis
    proof (cases q)
      case (Inl err)
      have "snd (f err, s1) = s\<lparr>sv_journal := j, sv_activity := sv_activity s\<rparr>" by (simp add: s1)
      then show ?thesis unfolding q Inl by (simp only: prod.case sum.case) blast
    next
      case (Inr u)
      have "snd (g, emit_activity c act s1) = s\<lparr>sv_journal := j, sv_activity := sv_activity s @ [(c, act)]\<rparr>"
        by (simp add: s1 emit_activity_def)
      then show ?thesis unfolding q Inr by (simp only: prod.case sum.case) blast
    qed
  qed
  show ?thesis
  proof (cases r)
    case (Inl err)
    show ?thesis unfolding process_child_result_with_rollup_def Inl sum.case by (rule app)
  next
    case (Inr out)
    show ?thesis
    proof (cases "child_exit_success (lo_exit_reason out)")
      case None
      then show ?thesis using none by (simp add: process_child_result_with_rollup_def Inr)
    next
      case (Some b)
      show ?thesis unfolding process_child_result_with_rollup_def Inr sum.case Some option.case Let_def if_False by (rule app)
    qed
  qed
qed

lemma advance_task_ok:
  assumes "sup_ok s"
  shows "sup_ok (advance_task X c now el s)"
proof (cases "bt_get (sv_tasks s) c")
  case (Some k)
  show ?thesis
  proof (cases "ts_phase k")
    case (PhAwaiting out)
    then show ?thesis using Some assms set_task_ok[OF assms Some] by (auto simp: advance_task_def Let_def)
  next
    case (PhSettle r)
    then show ?thesis using Some settle_ok[OF assms Some PhSettle] by (simp add: advance_task_def)
  next
    case (PhProcess r)
    obtain r1 s1 where p: "process_child_result_with_rollup X False c (cf_parent_id (ts_config k)) (cf_placement (ts_config k))
        (ts_parent_account k) now el r s = (r1, s1)" by fastforce
    obtain j a where s1: "s1 = s\<lparr>sv_journal := j, sv_activity := a\<rparr>"
      using process_updates[of X c "cf_parent_id (ts_config k)" "cf_placement (ts_config k)" "ts_parent_account k" now el r s] p
      by auto
    have "sup_ok (set_task c (k\<lparr>ts_phase := PhRecord r1\<rparr>) s1)"
      by (rule set_task_ok[of s1 c k]) (simp_all add: s1 assms Some PhProcess)
    then show ?thesis using Some PhProcess p by (simp add: advance_task_def)
  next
    case (PhRecord r)
    then show ?thesis using Some record_ok[OF assms Some PhRecord] by (simp add: advance_task_def terminal_of_def)
  next
    case PhDropToken
    have "sup_ok (set_task c (k\<lparr>ts_phase := PhDropInput\<rparr>) (s\<lparr>sv_tokens := bt_remove c (sv_tokens s)\<rparr>))"
      by (rule set_task_ok[of _ c k]) (simp_all add: assms Some PhDropToken)
    then show ?thesis using Some PhDropToken by (simp add: advance_task_def)
  next
    case PhDropInput
    then show ?thesis using Some remove_task_ok[OF assms Some] by (simp add: advance_task_def)
  qed (use Some assms in \<open>simp add: advance_task_def\<close>)
qed (use assms in \<open>simp add: advance_task_def\<close>)

end
