(* ===== verification/Supervisor_Invariant.thy ===== *)
theory Supervisor_Invariant
  imports Supervisor_Budget
begin

text \<open>
  Acceptance of children and the steps of the supervisor keep the lifecycle invariant; what follows for
  the budgets of the children in flight.
\<close>

section \<open>Congruence\<close>

lemma sup_ok_cong:
  assumes "sv_account_heap s' = sv_account_heap s" "sv_accepted s' = sv_accepted s"
    "sv_child_accounts s' = sv_child_accounts s" "sv_reservations s' = sv_reservations s"
    "sv_results s' = sv_results s" "sv_wait_cells s' = sv_wait_cells s" "sv_tasks s' = sv_tasks s"
  shows "sup_ok s' = sup_ok s"
  by (simp add: sup_ok_def maps_ok_def tasks_ok_def account_ok_def in_flight_def running_def assms)

section \<open>What validation admits\<close>

lemma supervisor_limit_Ok:
  "validate_supervisor_limit sh field req lim remaining = Inr u \<Longrightarrow> lim \<noteq> 0 \<Longrightarrow> req \<noteq> 0 \<and> req \<le> remaining"
  by (auto simp: validate_supervisor_limit_def split: if_splits)

lemma budget_against_account_Ok:
  assumes "validate_budget_against_account D r acc = Inr u"
  shows "max_tokens (ac_budget acc) \<noteq> 0 \<Longrightarrow> max_tokens r \<noteq> 0 \<and> max_tokens r \<le>
      sat_sub (max_tokens (ac_budget acc)) (sat_add (used_tokens (ac_budget acc)) (ac_reserved_tokens acc))"
    and "max_turns (ac_budget acc) \<noteq> 0 \<Longrightarrow> max_turns r \<noteq> 0 \<and> max_turns r \<le>
      sat_sub (max_turns (ac_budget acc)) (sat_add (used_turns (ac_budget acc)) (ac_reserved_turns acc))"
    and "max_sub_agents (ac_budget acc) \<noteq> 0 \<Longrightarrow> max_sub_agents r \<noteq> 0 \<and> max_sub_agents r \<le>
      sat_sub (max_sub_agents (ac_budget acc)) (used_sub_agents (ac_budget acc))"
  using assms by (auto simp: validate_budget_against_account_def Let_def and_then_Ok_iff dest: supervisor_limit_Ok)

lemma reserve_within:
  assumes "within_limit limit reserved tot"
    and "limit \<noteq> 0 \<Longrightarrow> r \<le> sat_sub limit (sat_add used reserved)"
  shows "within_limit limit (sat_add reserved r) (tot + unat r)"
proof (cases "limit = 0")
  case False
  have "unat limit < 2 ^ LENGTH('a)" by (rule unsigned_less)
  then have l: "unat limit \<le> 2 ^ LENGTH('a) - 1" by linarith
  have "unat r \<le> unat limit - min (unat used + unat reserved) (2 ^ LENGTH('a) - 1)"
    using assms(2)[OF False] by (simp add: word_le_nat_alt unat_sat_sub unat_sat_add)
  moreover have "unat reserved = tot" "unat reserved \<le> unat limit" using assms(1) False by (auto simp: within_limit_def)
  ultimately have "unat reserved + unat r \<le> unat limit" using l by linarith
  then show ?thesis using assms(1) False l by (auto simp: within_limit_def unat_sat_add)
qed (simp add: within_limit_def)

lemma reserve_sub_agents:
  assumes "used \<le> lim" "req \<noteq> 0" "req \<le> sat_sub lim used"
  shows "sat_add used 1 \<le> lim"
proof -
  have "unat req \<noteq> 0" using assms(2) by (simp add: unat_eq_0)
  moreover have "unat req \<le> unat lim - unat used" using assms(3) by (simp add: word_le_nat_alt unat_sat_sub)
  ultimately show ?thesis by (simp add: word_le_nat_alt unat_sat_add)
qed

lemma check_budget_sub_agents:
  "check_budget sh b = Inr u \<Longrightarrow> max_sub_agents b \<noteq> 0 \<Longrightarrow> used_sub_agents b \<le> max_sub_agents b"
  by (auto simp: check_budget_def word_gt_0 split: if_splits)

lemma vet_spawn_Ok:
  assumes "vet_spawn X F config s = Inr config1"
  shows "\<exists>u. check_budget (dec_show (sx_dec X)) (cf_budget config1) = Inr u"
    "\<exists>cap. capability_for_caller s (cf_parent_id config) = Inr cap \<and> tf_prepare F config cap = Inr config1"
    "\<exists>u. validate_spawn_authorization s config1 = Inr u"
  using assms by (auto simp: vet_spawn_def and_then_Ok_iff validate_spawn_budget_def)

definition new_reservation :: "'d spawn_config \<Rightarrow> nat \<Rightarrow> 'd reservation" where
  "new_reservation config parent =
     \<lparr>rv_parent = parent, rv_tokens = max_tokens (cf_budget config), rv_turns = max_turns (cf_budget config),
      rv_cost = max_cost (cf_budget config)\<rparr>"

lemma caller_account_lt:
  assumes "maps_ok s" "budget_account_for_caller s caller = Inr a"
  shows "a < length (sv_account_heap s)"
  using assms by (auto simp: budget_account_for_caller_def and_then_Ok_iff maps_ok_def split: if_splits option.splits)

lemma reserve_spawn_budget_Ok:
  assumes "reserve_spawn_budget D config s = Inr (child, parent, s1)"
  shows "child = length (sv_account_heap s)"
    "budget_account_for_caller s (cf_parent_id config) = Inr parent"
    "\<exists>u. validate_budget_against_account D (cf_budget config) (sv_account_heap s ! parent) = Inr u"
    "s1 = s\<lparr>sv_account_heap := (sv_account_heap s)[parent := reserve_in D (cf_budget config) (sv_account_heap s ! parent)]
                @ [account_new (cf_budget config)],
            sv_child_accounts := bt_insert (cf_agent_id config) child (sv_child_accounts s),
            sv_reservations := bt_insert (cf_agent_id config) (new_reservation config parent) (sv_reservations s)\<rparr>"
  using assms by (auto simp: reserve_spawn_budget_def and_then_Ok_iff Let_def new_reservation_def)

lemma fresh_child:
  assumes "sup_ok s" "c \<notin> set (sv_accepted s)"
  shows "bt_get (sv_tasks s) c = None" "bt_get (sv_results s) c = None" "bt_get (sv_reservations s) c = None"
proof -
  have m: "maps_ok s" and t: "tasks_ok s" using assms(1) by (simp_all add: sup_ok_def)
  show t0: "bt_get (sv_tasks s) c = None"
    by (cases "bt_get (sv_tasks s) c") (use t assms(2) in \<open>auto simp: tasks_ok_def\<close>)
  show "bt_get (sv_results s) c = None"
    by (cases "bt_get (sv_results s) c") (use m assms(2) in \<open>auto simp: maps_ok_def\<close>)
  show "bt_get (sv_reservations s) c = None" using t t0 by (simp add: tasks_ok_def)
qed

section \<open>A child is accepted\<close>

text \<open>The reservation in the account of the parent, and the new account.\<close>

lemma reserved_account:
  assumes acc: "account_ok s parent" and v: "validate_budget_against_account D b (sv_account_heap s ! parent) = Inr u"
  shows "within_limit (max_tokens (ac_budget (reserve_in D b (sv_account_heap s ! parent))))
      (ac_reserved_tokens (reserve_in D b (sv_account_heap s ! parent))) (in_flight s (unat \<circ> max_tokens) parent + unat (max_tokens b))"
    and "within_limit (max_turns (ac_budget (reserve_in D b (sv_account_heap s ! parent))))
      (ac_reserved_turns (reserve_in D b (sv_account_heap s ! parent))) (in_flight s (unat \<circ> max_turns) parent + unat (max_turns b))"
    and "max_sub_agents (ac_budget (sv_account_heap s ! parent)) \<noteq> 0 \<Longrightarrow>
      sat_add (used_sub_agents (ac_budget (sv_account_heap s ! parent))) 1 \<le> max_sub_agents (ac_budget (sv_account_heap s ! parent))"
  using acc budget_against_account_Ok[OF v]
  by (auto simp: account_ok_def Let_def reserve_in_def intro: reserve_within reserve_sub_agents)

lemma in_flight_new_account:
  assumes "sup_ok s" "length (sv_account_heap s) \<le> a"
  shows "in_flight s f a = 0"
proof -
  have "held f a k = 0" if "(c, k) \<in> set (sv_tasks s)" for c k
  proof -
    have "bt_get (sv_tasks s) c = Some k" using that assms(1) by (simp add: bt_get_eq_Some_iff sup_ok_def maps_ok_def)
    then have "ts_parent_account k < length (sv_account_heap s)" using assms(1) by (auto simp: sup_ok_def tasks_ok_def)
    then show ?thesis using assms(2) by (simp add: held_def)
  qed
  then show ?thesis by (auto simp: in_flight_def bt_sum_def sum_list_eq_0_iff)
qed

lemma accepted_ok:
  assumes ok: "sup_ok s" and r: "reserve_spawn_budget D config s = Inr (child, parent, s1)"
    and c: "cf_agent_id config \<notin> set (sv_accepted s)" and b: "check_budget sh (cf_budget config) = Inr u"
  shows "sup_ok (spawn_task_into config parent now (record_accepted_child_id (cf_agent_id config) s1))"
proof -
  let ?c = "cf_agent_id config" and ?b = "cf_budget config" and ?n = "length (sv_account_heap s)"
  let ?s = "spawn_task_into config parent now (record_accepted_child_id ?c s1)"
  have m: "maps_ok s" and t: "tasks_ok s" and acc: "\<forall>a < ?n. account_ok s a" using ok by (simp_all add: sup_ok_def)
  note R = reserve_spawn_budget_Ok[OF r]
  note F = fresh_child[OF ok c]
  have p: "parent < ?n" using caller_account_lt[OF m R(2)] .
  obtain k where tasks: "sv_tasks ?s = bt_insert ?c k (sv_tasks s)"
    and k: "ts_config k = config" "ts_phase k = PhRunning" "ts_parent_account k = parent"
    using R by (simp add: spawn_task_into_def Let_def record_accepted_child_id_def)
  obtain st where results: "sv_results ?s = bt_insert ?c st (sv_results s)"
    and st: "rs_result st = None" "md_child_id (rs_metadata st) = ?c"
    using R by (simp add: spawn_task_into_def Let_def record_accepted_child_id_def child_metadata_of_def)
  have heap: "sv_account_heap ?s = (sv_account_heap s)[parent := reserve_in D ?b (sv_account_heap s ! parent)] @ [account_new ?b]"
    and others: "sv_accepted ?s = sv_accepted s @ [?c]" "sv_child_accounts ?s = bt_insert ?c child (sv_child_accounts s)"
      "sv_reservations ?s = bt_insert ?c (new_reservation config parent) (sv_reservations s)" "sv_wait_cells ?s = sv_wait_cells s"
    using R c by (simp_all add: spawn_task_into_def Let_def record_accepted_child_id_def)
  have nr: "new_reservation config parent = reservation_of k" using k by (simp add: new_reservation_def reservation_of_def Let_def)
  have "maps_ok ?s"
    using m st R(1) unfolding maps_ok_def tasks results heap others by (auto simp: bt_simps less_Suc_eq)
  moreover have "tasks_ok ?s"
    using t k st F p unfolding tasks_ok_def running_def tasks results heap others nr
    by (auto simp: bt_simps less_Suc_eq split: if_splits)
  moreover have "account_ok ?s a" if "a < Suc ?n" for a
  proof -
    have fl: "in_flight ?s f a = in_flight s f a + held f a k" for f
      using bt_sum_fresh[of "sv_tasks s" ?c "held f a" k] m F(1) by (simp add: in_flight_def tasks maps_ok_def)
    consider "a = parent" | "a < ?n" "a \<noteq> parent" | "a = ?n" using \<open>a < Suc ?n\<close> by linarith
    then show ?thesis
    proof cases
      case 1
      obtain v where v: "validate_budget_against_account D ?b (sv_account_heap s ! parent) = Inr v" using R(3) by blast
      have h: "sv_account_heap ?s ! parent = reserve_in D ?b (sv_account_heap s ! parent)"
        using 1 p unfolding heap by (simp add: nth_append)
      have f: "in_flight ?s f parent = in_flight s f parent + f ?b" for f using 1 k fl by (simp add: held_def)
      have "account_ok s parent" using acc p by blast
      then show ?thesis unfolding 1
        using reserved_account[OF _ v] by (simp add: account_ok_def[of ?s] h f Let_def) (simp add: reserve_in_def)
    next
      case 2
      have h: "sv_account_heap ?s ! a = sv_account_heap s ! a" using 2 unfolding heap by (simp add: nth_append)
      have "held f a k = 0" for f using 2 k by (simp add: held_def)
      then show ?thesis using acc 2 by (simp add: account_ok_def h fl)
    next
      case 3
      have h: "sv_account_heap ?s ! ?n = account_new ?b" unfolding heap by (simp add: nth_append)
      have "held f ?n k = 0" for f using p k by (simp add: held_def)
      then have f: "in_flight ?s f ?n = 0" for f using fl 3 in_flight_new_account[OF ok, of ?n] by simp
      show ?thesis unfolding 3 using check_budget_sub_agents[OF b]
        by (simp add: account_ok_def h f account_new_def within_limit_def Let_def)
    qed
  qed
  ultimately show ?thesis by (simp add: sup_ok_def heap)
qed

section \<open>A reservation is rolled back\<close>

lemma rollback_restores:
  assumes ok: "sup_ok s" and r: "reserve_spawn_budget D config s = Inr (child, parent, s1)"
    and c: "cf_agent_id config \<notin> set (sv_accepted s)" and b: "check_budget sh (cf_budget config) = Inr u"
  shows "sup_ok (rollback_unaccepted_budget D (cf_agent_id config) s1)"
proof -
  let ?c = "cf_agent_id config" and ?b = "cf_budget config" and ?n = "length (sv_account_heap s)"
  let ?s = "rollback_unaccepted_budget D ?c s1"
  have m: "maps_ok s" and t: "tasks_ok s" and acc: "\<forall>a < ?n. account_ok s a" using ok by (simp_all add: sup_ok_def)
  note R = reserve_spawn_budget_Ok[OF r]
  note F = fresh_child[OF ok c]
  have p: "parent < ?n" using caller_account_lt[OF m R(2)] .
  let ?old = "sv_account_heap s ! parent"
  obtain new where heap: "sv_account_heap ?s = (sv_account_heap s)[parent := new] @ [account_new ?b]"
    and new: "max_tokens (ac_budget new) = max_tokens (ac_budget ?old)" "max_turns (ac_budget new) = max_turns (ac_budget ?old)"
      "max_sub_agents (ac_budget new) = max_sub_agents (ac_budget ?old)"
      "used_sub_agents (ac_budget new) = sat_sub (sat_add (used_sub_agents (ac_budget ?old)) 1) 1"
      "ac_reserved_tokens new = sat_sub (sat_add (ac_reserved_tokens ?old) (max_tokens ?b)) (max_tokens ?b)"
      "ac_reserved_turns new = sat_sub (sat_add (ac_reserved_turns ?old) (max_turns ?b)) (max_turns ?b)"
    using R p by (simp add: rollback_unaccepted_budget_def bt_simps new_reservation_def Let_def nth_append list_update_append
        release_in_def reserve_in_def)
  have others: "sv_accepted ?s = sv_accepted s" "sv_tasks ?s = sv_tasks s" "sv_results ?s = sv_results s"
      "sv_child_accounts ?s = bt_remove ?c (bt_insert ?c child (sv_child_accounts s))"
      "sv_reservations ?s = bt_remove ?c (bt_insert ?c (new_reservation config parent) (sv_reservations s))"
      "sv_wait_cells ?s = sv_wait_cells s"
    using R by (simp_all add: rollback_unaccepted_budget_def bt_simps Let_def)
  have fl: "in_flight ?s f a = in_flight s f a" for f a by (simp add: in_flight_def others)
  have "maps_ok ?s" using m by (auto simp: maps_ok_def heap others bt_simps less_Suc_eq split: if_splits)
  moreover have "tasks_ok ?s"
  proof -
    have "bt_get (sv_reservations ?s) = bt_get (sv_reservations s)" using F(3) by (auto simp: others bt_simps)
    then show ?thesis using t by (auto simp: tasks_ok_def running_def others heap less_Suc_eq)
  qed
  moreover have "account_ok ?s a" if "a < Suc ?n" for a
  proof -
    consider "a = parent" | "a < ?n" "a \<noteq> parent" | "a = ?n" using \<open>a < Suc ?n\<close> by linarith
    then show ?thesis
    proof cases
      case 1
      obtain v where v: "validate_budget_against_account D ?b ?old = Inr v" using R(3) by blast
      have aok: "account_ok s parent" using acc p by blast
      have h: "sv_account_heap ?s ! parent = new" using 1 p unfolding heap by (simp add: nth_append)
      show ?thesis unfolding 1
        using reserved_account[OF aok v] aok sat_sub_add_le[of "used_sub_agents (ac_budget ?old)" 1]
        by (auto simp: account_ok_def h fl Let_def new reserve_in_def word_le_nat_alt intro: release_within)
    next
      case 2
      then show ?thesis using acc by (simp add: account_ok_def heap nth_append fl)
    next
      case 3
      then show ?thesis using in_flight_new_account[OF ok, of a] check_budget_sub_agents[OF b]
        by (auto simp: account_ok_def heap nth_append fl account_new_def within_limit_def)
    qed
  qed
  ultimately show ?thesis by (simp add: sup_ok_def heap)
qed

section \<open>Every step\<close>

lemma close_child_ok:
  assumes ok: "sup_ok s"
  shows "sup_ok (snd (close_child c s))"
proof (cases "bt_get (sv_results s) c")
  case (Some st)
  show ?thesis
  proof (cases "rs_result st")
    case (Some r)
    let ?s = "snd (close_child c s)"
    have m: "maps_ok s" and t: "tasks_ok s" using ok by (simp_all add: sup_ok_def)
    have nr: "\<not> running s c" using \<open>bt_get (sv_results s) c = Some st\<close> Some by (simp add: running_def)
    then have fin: "unrecorded (ts_phase k) \<Longrightarrow> False" if "bt_get (sv_tasks s) c = Some k" for k
      using t that by (auto simp: tasks_ok_def)
    have none: "bt_get (sv_reservations s) c = None"
      using t fin unsettled_unrecorded by (cases "bt_get (sv_tasks s) c") (auto simp: tasks_ok_def)
    have s: "?s = s\<lparr>sv_results := bt_remove c (sv_results s), sv_tokens := bt_remove c (sv_tokens s),
        sv_inputs := bt_remove c (sv_inputs s), sv_child_accounts := bt_remove c (sv_child_accounts s),
        sv_reservations := bt_remove c (sv_reservations s)\<rparr>"
      using \<open>bt_get (sv_results s) c = Some st\<close> Some by (simp add: close_child_def)
    have "maps_ok ?s" using m by (auto simp: maps_ok_def s bt_simps split: if_splits)
    moreover have "tasks_ok ?s"
    proof -
      have run: "running ?s x = running s x" for x using nr by (auto simp: running_def s bt_simps)
      have "bt_get (sv_reservations ?s) = bt_get (sv_reservations s)" using none by (auto simp: s bt_simps)
      moreover have "sv_tasks ?s = sv_tasks s" "sv_accepted ?s = sv_accepted s" "sv_account_heap ?s = sv_account_heap s"
        by (simp_all add: s)
      ultimately show ?thesis using t unfolding tasks_ok_def run by simp
    qed
    moreover have "account_ok ?s a = account_ok s a" for a by (simp add: account_ok_def in_flight_def s)
    moreover have "sv_account_heap ?s = sv_account_heap s" by (simp add: s)
    ultimately show ?thesis using ok by (simp add: sup_ok_def)
  qed (use Some ok in \<open>simp add: close_child_def\<close>)
qed (use ok in \<open>simp add: close_child_def\<close>)

lemma usage_ok:
  assumes ok: "sup_ok s"
  shows "sup_ok (s\<lparr>sv_account_heap := (sv_account_heap s)[a := set_usage tk tn ct (sv_account_heap s ! a)]\<rparr>)"
proof -
  let ?s = "s\<lparr>sv_account_heap := (sv_account_heap s)[a := set_usage tk tn ct (sv_account_heap s ! a)]\<rparr>"
  have "account_ok ?s b = account_ok s b" if "b < length (sv_account_heap s)" for b
    using that by (cases "a = b") (simp_all add: account_ok_def Let_def set_usage_def in_flight_def)
  then show ?thesis using ok by (auto simp: sup_ok_def maps_ok_def tasks_ok_def running_def)
qed

lemma prepare_spawn_updates:
  "\<exists>j a. snd (prepare_spawn X config bk now s) = s\<lparr>sv_journal := j, sv_activity := a\<rparr>"
proof -
  have none: "\<exists>j a. s = s\<lparr>sv_journal := j, sv_activity := a\<rparr>"
    by (intro exI[of _ "sv_journal s"] exI[of _ "sv_activity s"]) simp
  let ?e = "SubAgentSpawned (cf_agent_id config) (cf_placement config) (backend_name bk)
    (cf_task config) (cf_instructions config) (cf_placement_target config)"
  obtain q s1 where q: "journal_append X ''SubAgentSpawned'' (cf_parent_id config) now ?e s = (q, s1)" by fastforce
  obtain j where s1: "s1 = s\<lparr>sv_journal := j\<rparr>"
    using journal_append_updates[of X "''SubAgentSpawned''" "cf_parent_id config" now ?e s] q by auto
  have "s1 = s\<lparr>sv_journal := j, sv_activity := sv_activity s\<rparr>" by (simp add: s1)
  moreover have em: "\<exists>j a. emit_activity p x s1 = s\<lparr>sv_journal := j, sv_activity := a\<rparr>" for p x
    by (intro exI[of _ j] exI) (simp add: s1 emit_activity_def)
  ultimately have s1': "\<exists>j a. s1 = s\<lparr>sv_journal := j, sv_activity := a\<rparr>" by blast
  show ?thesis
  proof (cases "sv_journal s = None")
    case False
    show ?thesis
    proof (cases q)
      case (Inl err)
      then show ?thesis using s1' False q by (simp only: prepare_spawn_def if_False prod.case sum.case snd_conv)
    next
      case (Inr u)
      then show ?thesis using em False q
        by (simp only: prepare_spawn_def if_False prod.case sum.case snd_conv)
    qed
  next
    case True
    have "snd (prepare_spawn X config bk now s) = s" by (simp add: prepare_spawn_def True)
    then show ?thesis using none by (simp only:)
  qed
qed

text \<open>The ways a spawn request ends.\<close>

lemma dispatch_spawn_cases:
  obtains (rejected) e where "dispatch_spawn X caller config ch now s = respond ch (RSpawn (Err e)) s"
  | (failed) F config1 child parent s1 s2 e where
      "sx_factory X = Some F" "cf_agent_id config \<notin> set (sv_accepted s)" "vet_spawn X F config s = Inr config1"
      "reserve_spawn_budget (sx_dec X) config1 s = Inr (child, parent, s1)"
      "prepare_spawn X config1 (tf_backend F config1) now s1 = (Inl e, s2)"
      "dispatch_spawn X caller config ch now s =
         respond ch (RSpawn (Err e)) (rollback_unaccepted_budget (sx_dec X) (cf_agent_id config1) s2)"
  | (accepted) F config1 child parent s1 s2 where
      "sx_factory X = Some F" "cf_agent_id config \<notin> set (sv_accepted s)" "caller = cf_parent_id config"
      "vet_spawn X F config s = Inr config1"
      "reserve_spawn_budget (sx_dec X) config1 s = Inr (child, parent, s1)"
      "prepare_spawn X config1 (tf_backend F config1) now s1 = (Inr (), s2)"
      "dispatch_spawn X caller config ch now s =
         spawn_task_into config1 parent now (respond ch (RSpawn (Ok \<lparr>sa_child_id = cf_agent_id config1,
           sa_placement = cf_placement config1, sa_backend = tf_backend F config1\<rparr>))
           (record_accepted_child_id (cf_agent_id config1) s2))"
proof -
  let ?chk = "and_then (require_bound_root s) (\<lambda>_.
           and_then (if caller \<noteq> cf_parent_id config
                     then Err (CapabilityViolation (''caller '' @ debug_str caller @ '' cannot spawn as parent ''
                            @ debug_str (cf_parent_id config)))
                     else Ok ()) (\<lambda>_.
           and_then (ensure_child_id_is_new s (cf_agent_id config)) (\<lambda>_.
           and_then (validate_spawn_authorization s config) (\<lambda>_.
           case sx_factory X of
             None \<Rightarrow> Err SpawnMissingTask
           | Some F \<Rightarrow> and_then (vet_spawn X F config s) (\<lambda>config1. Ok (F, config1))))))"
  show thesis
  proof (cases ?chk)
    case (Inl e)
    show thesis by (rule rejected[of e]) (simp only: dispatch_spawn_def Inl sum.case)
  next
    case (Inr p)
    obtain F config1 where p: "p = (F, config1)" by fastforce
    have chk: "sx_factory X = Some F" "vet_spawn X F config s = Inr config1" "caller = cf_parent_id config"
      "cf_agent_id config \<notin> set (sv_accepted s)"
      using Inr by (auto simp: p and_then_Ok_iff ensure_child_id_is_new_def split: if_splits option.splits)
    have D: "dispatch_spawn X caller config ch now s = (case accept_spawn X F config1 now s of
             (Inl e, s1) \<Rightarrow> respond ch (RSpawn (Err e)) s1
           | (Inr (child, parent), s1) \<Rightarrow>
               spawn_task_into config1 parent now
                 (respond ch (RSpawn (Ok \<lparr>sa_child_id = cf_agent_id config1, sa_placement = cf_placement config1,
                    sa_backend = tf_backend F config1\<rparr>)) s1))"
      by (simp only: dispatch_spawn_def Inr p sum.case prod.case)
    show thesis
    proof (cases "reserve_spawn_budget (sx_dec X) config1 s")
      case (Inl e)
      then show thesis using D rejected by (simp add: accept_spawn_def)
    next
      case (Inr q)
      obtain child parent s1 where q: "q = (child, parent, s1)" by (cases q) auto
      obtain r s2 where pr: "prepare_spawn X config1 (tf_backend F config1) now s1 = (r, s2)" by fastforce
      show thesis
      proof (cases r)
        case (Inl e)
        show thesis
          by (rule failed[OF chk(1,4,2) Inr[unfolded q] pr[unfolded Inl]]) (simp add: D accept_spawn_def Inr q pr Inl)
      next
        case (Inr u)
        have pr': "prepare_spawn X config1 (tf_backend F config1) now s1 = (Inr (), s2)" using pr Inr by simp
        show thesis
          by (rule accepted[OF chk(1,4,3,2) \<open>reserve_spawn_budget (sx_dec X) config1 s = Inr q\<close>[unfolded q] pr'])
            (simp add: D accept_spawn_def \<open>reserve_spawn_budget (sx_dec X) config1 s = Inr q\<close> q pr Inr)
      qed
    qed
  qed
qed

text \<open>The factory shapes the policy of a configuration, not whose child it describes.\<close>

definition factory_keeps_ids :: "('j, 'v, 'd) sup_ctx \<Rightarrow> bool" where
  "factory_keeps_ids X \<longleftrightarrow>
     (\<forall>F config cap config1. sx_factory X = Some F \<longrightarrow> tf_prepare F config cap = Inr config1 \<longrightarrow>
        cf_agent_id config1 = cf_agent_id config \<and> cf_parent_id config1 = cf_parent_id config)"

lemma vet_keeps_ids:
  assumes "factory_keeps_ids X" "sx_factory X = Some F" "vet_spawn X F config s = Inr config1"
  shows "cf_agent_id config1 = cf_agent_id config" "cf_parent_id config1 = cf_parent_id config"
  using assms(1,2) vet_spawn_Ok(2)[OF assms(3)] by (auto simp: factory_keeps_ids_def)

lemma spawn_task_into_ok_cong:
  assumes "sv_account_heap s' = sv_account_heap s" "sv_accepted s' = sv_accepted s"
    "sv_child_accounts s' = sv_child_accounts s" "sv_reservations s' = sv_reservations s"
    "sv_results s' = sv_results s" "sv_wait_cells s' = sv_wait_cells s" "sv_tasks s' = sv_tasks s"
    "sv_token_heap s' = sv_token_heap s" "sv_queue_heap s' = sv_queue_heap s"
  shows "sup_ok (spawn_task_into config p now s') = sup_ok (spawn_task_into config p now s)"
  by (rule sup_ok_cong) (simp_all add: spawn_task_into_def Let_def assms)

lemma respond_updates: "\<exists>r. respond ch x s = s\<lparr>sv_replies := r\<rparr>"
proof (cases "ch \<in> set (sv_dropped s)")
  case True
  then have "respond ch x s = s\<lparr>sv_replies := sv_replies s\<rparr>" by (simp add: respond_def send_reply_def)
  then show ?thesis by blast
next
  case False
  then have "respond ch x s = s\<lparr>sv_replies := sv_replies s @ [(ch, x)]\<rparr>" by (simp add: respond_def send_reply_def)
  then show ?thesis by blast
qed

lemma dispatch_spawn_ok:
  assumes F: "factory_keeps_ids X" and ok: "sup_ok s"
  shows "sup_ok (dispatch_spawn X caller config ch now s)"
proof (cases rule: dispatch_spawn_cases[where X = X and caller = caller and config = config and ch = ch and now = now and s = s])
  case (rejected e)
  show ?thesis unfolding rejected by (rule same_core_ok[OF respond_core ok])
next
  case (failed G config1 child parent s1 s2 e)
  obtain j a where s2: "s2 = s1\<lparr>sv_journal := j, sv_activity := a\<rparr>"
    using prepare_spawn_updates[of X config1 "tf_backend G config1" now s1] failed(5) by auto
  obtain u where u: "check_budget (dec_show (sx_dec X)) (cf_budget config1) = Inr u" using vet_spawn_Ok(1)[OF failed(3)] by blast
  have "sup_ok (rollback_unaccepted_budget (sx_dec X) (cf_agent_id config1) s1)"
    using rollback_restores[OF ok failed(4) _ u] failed(2) vet_keeps_ids[OF F failed(1,3)] by simp
  also have "sup_ok (rollback_unaccepted_budget (sx_dec X) (cf_agent_id config1) s1) =
      sup_ok (rollback_unaccepted_budget (sx_dec X) (cf_agent_id config1) s2)"
    by (rule sup_ok_cong) (simp_all add: s2 rollback_unaccepted_budget_def Let_def split: option.split)
  finally show ?thesis unfolding failed(6) by (rule same_core_ok[OF respond_core])
next
  case (accepted G config1 child parent s1 s2)
  obtain j a where s2: "s2 = s1\<lparr>sv_journal := j, sv_activity := a\<rparr>"
    using prepare_spawn_updates[of X config1 "tf_backend G config1" now s1] accepted(6) by auto
  obtain u where u: "check_budget (dec_show (sx_dec X)) (cf_budget config1) = Inr u" using vet_spawn_Ok(1)[OF accepted(4)] by blast
  let ?r = "RSpawn (Ok \<lparr>sa_child_id = cf_agent_id config1, sa_placement = cf_placement config1, sa_backend = tf_backend G config1\<rparr>)"
  obtain q where q: "respond ch ?r (record_accepted_child_id (cf_agent_id config1) s2) =
      record_accepted_child_id (cf_agent_id config1) s2\<lparr>sv_replies := q\<rparr>"
    using respond_updates by blast
  have "sup_ok (spawn_task_into config1 parent now (record_accepted_child_id (cf_agent_id config1) s1))"
    using accepted_ok[OF ok accepted(5) _ u] accepted(2) vet_keeps_ids[OF F accepted(1,4)] by simp
  then show ?thesis unfolding accepted(7) q
    by (subst spawn_task_into_ok_cong[of _ "record_accepted_child_id (cf_agent_id config1) s1"])
      (simp_all add: s2 record_accepted_child_id_def)
qed

lemma respond_ok [simp]: "sup_ok s \<Longrightarrow> sup_ok (respond ch r s)"
  by (rule same_core_ok[OF respond_core])

lemma owner_only_ok:
  "sup_ok s \<Longrightarrow> sup_ok (snd act) \<Longrightarrow> sup_ok (respond_done ch (owner_only s caller c act))"
  by (simp add: respond_done_def owner_only_def split: sum.split)

lemma dispatch_payload_ok:
  assumes F: "factory_keeps_ids X" and ok: "sup_ok s"
  shows "sup_ok (dispatch_payload X now caller p s)"
proof -
  have core: "sup_ok s'" if "same_core s s'" for s' using same_core_ok[OF that ok] .
  have steer: "sup_ok (snd (steer_child c m s))" for c m
    using ok by (auto simp: steer_child_def enqueue_input_def split: option.splits prod.splits bool.splits)
  have cancel: "sup_ok (snd (cancel_child c s))" for c
    using ok by (auto simp: cancel_child_def signal_token_def split: option.splits)
  show ?thesis
    using dispatch_spawn_ok[OF F ok] owner_only_ok[OF ok close_child_ok[OF ok]] owner_only_ok[OF ok steer]
      owner_only_ok[OF ok cancel] core[OF join_child_core] core[OF send_child_status_core]
      core[OF send_child_roster_core] core[OF send_child_roster_inspection_core] core[OF wait_child_core]
      core[OF wait_children_core] ok
    by (cases p) (simp_all add: signal_token_def split: sum.split option.split)
qed

lemma sv_step_ok: "factory_keeps_ids X \<Longrightarrow> sup_ok s \<Longrightarrow> sup_ok (sv_step X ev s)"
  by (cases ev) (simp_all add: dispatch_message_into_def dispatch_payload_ok attempt_finished_ok advance_task_ok usage_ok
      same_core_ok[OF run_timer_core])

text \<open>A supervisor as it is built: a root identity and a journal, no child yet.\<close>

definition fresh_supervisor :: "('j, 'v, 'd::zero) supervisor \<Rightarrow> bool" where
  "fresh_supervisor s \<longleftrightarrow> (\<exists>cap b root j. s = (supervisor_new cap b)\<lparr>sv_root_id := root, sv_journal := j\<rparr> \<and>
     (max_sub_agents b \<noteq> 0 \<longrightarrow> used_sub_agents b \<le> max_sub_agents b))"

lemma fresh_ok: "fresh_supervisor s \<Longrightarrow> sup_ok s"
  by (auto simp: fresh_supervisor_def sup_ok_def maps_ok_def tasks_ok_def running_def account_ok_def supervisor_new_def
      account_new_def within_limit_def in_flight_def bt_sum_def)

text \<open>What holds of a fresh supervisor and is kept by every step holds of every reachable state.\<close>

locale supervisor_invariant =
  fixes X :: "('j, 'v, 'd::{zero,linorder}) sup_ctx" and I :: "('j, 'v, 'd) supervisor \<Rightarrow> bool"
  assumes fresh: "fresh_supervisor s \<Longrightarrow> I s"
    and step: "I s \<Longrightarrow> I (sv_step X ev s)"
begin

lemma reachable: "sv_reach X E s0 s \<Longrightarrow> fresh_supervisor s0 \<Longrightarrow> I s"
  by (induction rule: sv_reach.induct) (simp_all add: fresh step)

end

interpretation lifecycle: supervisor_invariant X "\<lambda>s. factory_keeps_ids X \<longrightarrow> sup_ok s"
  for X :: "('j, 'v, 'd::{zero,linorder}) sup_ctx"
  by unfold_locales (simp_all add: fresh_ok sv_step_ok)

lemma reach_ok: "sv_reach X E s0 s \<Longrightarrow> factory_keeps_ids X \<Longrightarrow> fresh_supervisor s0 \<Longrightarrow> sup_ok s"
  using lifecycle.reachable by blast

section \<open>Limits are fixed\<close>

definition limits_of :: "'d account \<Rightarrow> u64 \<times> u32 \<times> u32" where
  "limits_of acc = (max_tokens (ac_budget acc), max_turns (ac_budget acc), max_sub_agents (ac_budget acc))"

definition limits :: "('j, 'v, 'd) supervisor \<Rightarrow> (u64 \<times> u32 \<times> u32) list" where
  "limits s = map limits_of (sv_account_heap s)"

lemma map_update_same: "(i < length xs \<Longrightarrow> f y = f (xs ! i)) \<Longrightarrow> map f (xs[i := y]) = map f xs"
  by (cases "i < length xs") (simp_all add: map_update list_update_same_conv list_update_beyond)

lemma limits_same_heap: "sv_account_heap s' = sv_account_heap s \<Longrightarrow> limits s' = limits s"
  by (simp add: limits_def)

lemma limits_core: "same_core s s' \<Longrightarrow> limits s' = limits s"
  by (simp add: same_core_def limits_def)

lemma limits_settle: "limits (settle_budget_reservation D c r s) = limits s"
  by (auto simp: settle_budget_reservation_def limits_def Let_def limits_of_def release_in_def charge_budget_usage_def
      intro!: map_update_same split: option.splits sum.splits)

lemma limits_rollback: "limits (rollback_unaccepted_budget D c s) = limits s"
  by (auto simp: rollback_unaccepted_budget_def limits_def Let_def limits_of_def release_in_def
      intro!: map_update_same split: option.splits)

lemma limits_reserve:
  assumes "reserve_spawn_budget D config s = Inr (child, parent, s1)"
  shows "limits s1 = limits s @ [limits_of (account_new (cf_budget config))]"
  using reserve_spawn_budget_Ok(4)[OF assms] by (simp add: limits_def map_update_same limits_of_def reserve_in_def)

lemma limits_spawn: "\<exists>new. limits (dispatch_spawn X caller config ch now s) = limits s @ new"
proof (cases rule: dispatch_spawn_cases[where X = X and caller = caller and config = config and ch = ch and now = now and s = s])
  case (rejected e)
  then show ?thesis using limits_core[OF respond_core] by (intro exI[of _ "[]"]) simp
next
  case (failed F config1 child parent s1 s2 e)
  have "limits s2 = limits s1"
    using prepare_spawn_updates[of X config1 "tf_backend F config1" now s1] failed(5) by (auto simp: limits_def)
  then show ?thesis unfolding failed(6) by (simp add: limits_core[OF respond_core] limits_rollback limits_reserve[OF failed(4)])
next
  case (accepted F config1 child parent s1 s2)
  have "limits s2 = limits s1"
    using prepare_spawn_updates[of X config1 "tf_backend F config1" now s1] accepted(6) by (auto simp: limits_def)
  moreover have "limits (spawn_task_into config1 parent now (respond ch r (record_accepted_child_id c s2))) = limits s2" for r c
    using limits_core[OF respond_core[of "record_accepted_child_id c s2" ch r]]
    by (simp add: limits_def spawn_task_into_def Let_def record_accepted_child_id_def)
  ultimately show ?thesis unfolding accepted(7) using limits_reserve[OF accepted(5)] by simp
qed

lemma owner_only_same_heap:
  "sv_account_heap (snd act) = sv_account_heap s \<Longrightarrow>
   sv_account_heap (respond_done ch (owner_only s caller c act)) = sv_account_heap s"
  by (simp add: respond_done_def owner_only_def respond_def send_reply_def split: sum.split)

lemma control_same_heap:
  "sv_account_heap (snd (close_child c s)) = sv_account_heap s"
  "sv_account_heap (snd (cancel_child c s)) = sv_account_heap s"
  "sv_account_heap (snd (steer_child c m s)) = sv_account_heap s"
  by (auto simp: close_child_def cancel_child_def steer_child_def enqueue_input_def signal_token_def
      split: option.split prod.split bool.split)

lemma limits_dispatch: "\<exists>new. limits (dispatch_payload X now caller p s) = limits s @ new"
proof (cases "\<exists>config ch. p = PSpawn config ch")
  case True
  then show ?thesis using limits_spawn by auto
next
  case False
  have core: "limits s' = limits s" if "same_core s s'" for s' using limits_core[OF that] .
  have "limits (dispatch_payload X now caller p s) = limits s"
    using False core[OF join_child_core] core[OF send_child_status_core] core[OF respond_core]
      core[OF send_child_roster_core] core[OF send_child_roster_inspection_core] core[OF wait_child_core]
      core[OF wait_children_core]
    by (cases p) (auto simp: signal_token_def split: sum.split option.split
        intro: limits_same_heap owner_only_same_heap control_same_heap)
  then show ?thesis by simp
qed

lemma limits_advance: "limits (advance_task X c now el s) = limits s"
proof (cases "bt_get (sv_tasks s) c")
  case (Some k)
  have set: "limits (set_task c x s') = limits s'" for x and s' :: "('a, 'b, 'c) supervisor"
    by (simp add: limits_def set_task_def)
  have process: "limits s1 = limits s" if "process_child_result_with_rollup X False c ow p par now el r s = (r1, s1)" for r ow p par r1 s1
    using process_updates[of X c ow p par now el r s] that by (auto simp: limits_def)
  have rec: "limits (record_child_terminal_result now t s) = limits s" for t
  proof (cases "bt_get (sv_results s) (ct_child_id t)")
    case (Some st)
    show ?thesis using limits_core[OF record_core[OF Some]] by (simp add: limits_def)
  qed (simp add: record_child_terminal_result_def)
  show ?thesis
    using Some process by (cases "ts_phase k") (auto simp: advance_task_def Let_def set limits_settle rec split: prod.split intro: limits_same_heap)
qed (simp add: advance_task_def)

lemma limits_step: "\<exists>new. limits (sv_step X ev s) = limits s @ new"
proof (cases ev)
  case (EvAttempt c r)
  have "sv_account_heap (attempt_finished c r s) = sv_account_heap s"
    by (cases c r s rule: attempt_finished_cases) (auto simp: set_task_def drop_queue_def)
  then show ?thesis using EvAttempt limits_same_heap by (intro exI[of _ "[]"]) simp
next
  case (EvTimer t)
  then show ?thesis using limits_core[OF run_timer_core] by (intro exI[of _ "[]"]) simp
next
  case (EvUsage a x y z)
  then show ?thesis by (intro exI[of _ "[]"]) (simp add: limits_def map_update_same limits_of_def set_usage_def)
next
  case (EvDrop ch)
  then show ?thesis by (simp add: limits_def)
qed (simp_all add: dispatch_message_into_def limits_dispatch limits_advance)

lemma limits_reach: "sv_reach X E s0 s \<Longrightarrow> \<exists>new. limits s = limits s0 @ new"
proof (induction rule: sv_reach.induct)
  case (reach_step s ev)
  then show ?case using limits_step[of X ev s] by auto
qed simp

section \<open>A small supervisor\<close>

definition int_decimals :: "int decimal_ops" where
  "int_decimals = \<lparr>dec_add = (+), dec_sub = (-), dec_checked_add = (\<lambda>a b. Some (a + b)),
     dec_checked_sub = (\<lambda>a b. Some (a - b)), dec_MAX = 2 ^ 96, dec_show = (\<lambda>_. [])\<rparr>"

definition open_factory :: "int task_factory" where
  "open_factory = \<lparr>tf_validate = (\<lambda>_. Ok ()), tf_prepare = (\<lambda>config _. Ok config), tf_backend = (\<lambda>_. Native)\<rparr>"

definition sv_ctx :: "(unit journal_entry list, unit, int) sup_ctx" where
  "sv_ctx = \<lparr>sx_dec = int_decimals, sx_journal = in_memory_journal (\<lambda>_. Ok []), sx_factory = Some open_factory\<rparr>"

definition sv_root :: "(unit journal_entry list, unit, int) supervisor" where
  "sv_root = (supervisor_new (default_token\<lparr>spawn_placements := [''w'']\<rparr>) (budget_new 100 10 5 2))
     \<lparr>sv_root_id := Some ''r'', sv_journal := Some []\<rparr>"

definition sv_child :: "string \<Rightarrow> u64 \<Rightarrow> restart_strategy \<Rightarrow> int spawn_config" where
  "sv_child c tokens strategy =
     \<lparr>cf_agent_id = c, cf_parent_id = ''r'', cf_capability = None, cf_budget = budget_new tokens 4 1 1,
      cf_restart_strategy = strategy, cf_placement = ''w'', cf_task = ''t'', cf_instructions = None,
      cf_placement_target = None\<rparr>"

definition sv_msg :: "int payload \<Rightarrow> (unit, int) sv_event" where
  "sv_msg p = EvMessage \<lparr>sm_priority = PrioCommand, sm_agent_id = ''r'', sm_payload = p\<rparr> 7"

definition sv_output :: "exit_reason \<Rightarrow> u64 \<Rightarrow> (unit, int) agent_loop_output" where
  "sv_output e tokens = \<lparr>lo_exit_reason = e, lo_messages = [], lo_token_usage = usage_zero\<lparr>input_tokens := tokens\<rparr>,
     lo_reported_tool_uses = None, lo_used_turns = 1, lo_used_cost = 0\<rparr>"

text \<open>One child settled, one in flight, one refused for its budget.\<close>

definition sv_events :: "(unit, int) sv_event list" where
  "sv_events =
     [sv_msg (PSpawn (sv_child ''c'' 60 RetryOnce) 0), sv_msg (PSpawn (sv_child ''d'' 50 LetCrash) 1),
      EvAttempt ''c'' (Ok (sv_output ExComplete 10)), EvAdvance ''c'' 8 1, EvAdvance ''c'' 8 1, EvAdvance ''c'' 8 1,
      sv_msg (PSpawn (sv_child ''d'' 50 LetCrash) 2)]"

lemma sv_ctx_keeps_ids: "factory_keeps_ids sv_ctx"
  by (simp add: factory_keeps_ids_def sv_ctx_def open_factory_def)

lemma sv_root_fresh: "fresh_supervisor sv_root"
  unfolding fresh_supervisor_def sv_root_def
  by (intro exI conjI) (rule refl, simp add: budget_new_def)

section \<open>Budgets of the children in flight\<close>

text \<open>C29: A supervisor never commits more than it has: in every state reached from a fresh supervisor, by any
  interleaving of messages, task ends, lifecycle steps, timers and usage updates, the token and turn
  limits of the children in flight below an account add up to at most that account's own limit when it
  has one, the children it was charged for stay within its sub-agent limit, and the limits of the root
  account are the ones it was built with.\<close>

theorem children_never_overcommit:
  assumes "factory_keeps_ids X" "fresh_supervisor s0" "sv_reach X E s0 s" "a < length (sv_account_heap s)"
  shows "(max_tokens (ac_budget (sv_account_heap s ! a)) \<noteq> 0 \<longrightarrow>
          in_flight s (unat \<circ> max_tokens) a \<le> unat (max_tokens (ac_budget (sv_account_heap s ! a)))) \<and>
    (max_turns (ac_budget (sv_account_heap s ! a)) \<noteq> 0 \<longrightarrow>
          in_flight s (unat \<circ> max_turns) a \<le> unat (max_turns (ac_budget (sv_account_heap s ! a)))) \<and>
    (max_sub_agents (ac_budget (sv_account_heap s ! a)) \<noteq> 0 \<longrightarrow>
          used_sub_agents (ac_budget (sv_account_heap s ! a)) \<le> max_sub_agents (ac_budget (sv_account_heap s ! a))) \<and>
    limits_of (sv_account_heap s ! 0) = limits_of (sv_account_heap s0 ! 0)"
proof -
  have ok: "sup_ok s" using reach_ok assms(1,2,3) by blast
  then have "account_ok s a" using assms(4) by (simp add: sup_ok_def)
  moreover obtain new where "limits s = limits s0 @ new" using limits_reach[OF assms(3)] by blast
  moreover have "sv_account_heap s0 \<noteq> []" using fresh_ok[OF assms(2)] by (simp add: sup_ok_def maps_ok_def)
  moreover have "sv_account_heap s \<noteq> []" using assms(4) by auto
  ultimately show ?thesis
    by (auto simp: account_ok_def within_limit_def Let_def limits_def neq_Nil_conv)
qed

theorem children_never_overcommit_witness:
  "in_flight (sv_run sv_ctx sv_events sv_root) (unat \<circ> max_tokens) 0 = 50 \<and>
   limits_of (sv_account_heap (sv_run sv_ctx sv_events sv_root) ! 0) = limits_of (sv_account_heap sv_root ! 0)"
proof -
  let ?s = "sv_run sv_ctx sv_events sv_root"
  have "sv_reach sv_ctx UNIV sv_root ?s" by (rule sv_run_reach) simp
  moreover have "0 < length (sv_account_heap ?s)" by code_simp
  ultimately have "limits_of (sv_account_heap ?s ! 0) = limits_of (sv_account_heap sv_root ! 0)"
    using children_never_overcommit[OF sv_ctx_keeps_ids sv_root_fresh] by blast
  moreover have "in_flight ?s (unat \<circ> max_tokens) 0 = 50" by code_simp
  ultimately show ?thesis by blast
qed

end
