(* ===== verification/Supervisor_Lifecycle.thy ===== *)
theory Supervisor_Lifecycle
  imports Supervisor_Invariant
begin

text \<open>
  The life of a child: it is announced once and reported finished at most once, it runs a bounded number
  of attempts, its usage is charged when it is settled, and a retried attempt runs under a token and a
  queue that no control message reaches.
\<close>

section \<open>What queries leave alone\<close>

text \<open>Everything but the cached results, the waits and the replies.\<close>

definition rest where
  "rest s = (sv_parent_capability s, sv_root_id s, sv_account_heap s, sv_accepted s, sv_child_accounts s,
     sv_reservations s, sv_retry_counts s, sv_retry_shared s, sv_tokens s, sv_token_heap s, sv_inputs s,
     sv_queue_heap s, sv_journal s, sv_activity s, sv_tasks s)"

named_theorems rest_simps \<open>operations that change cached results, waits and replies only\<close>

lemma rest_updates [rest_simps]:
  "rest (s\<lparr>sv_results := r\<rparr>) = rest s" "rest (s\<lparr>sv_replies := p\<rparr>) = rest s" "rest (s\<lparr>sv_wait_cells := w\<rparr>) = rest s"
  "rest (s\<lparr>sv_wait_counter := n\<rparr>) = rest s" "rest (s\<lparr>sv_timers := t\<rparr>) = rest s" "rest (s\<lparr>sv_dropped := d\<rparr>) = rest s"
  by (simp_all add: rest_def)

lemma rest_send_reply [rest_simps]: "rest (snd (send_reply ch r s)) = rest s"
  by (simp add: send_reply_def rest_simps)

lemma rest_respond [rest_simps]: "rest (respond ch r s) = rest s"
  by (simp add: respond_def rest_simps)

lemma rest_update_child [rest_simps]: "rest (update_child c f s) = rest s"
  by (simp add: update_child_def rest_simps split: option.split)

lemma rest_mark [rest_simps]: "rest (mark_delivered c s) = rest s"
  by (simp add: mark_delivered_def rest_simps)

lemma rest_take [rest_simps]: "rest (snd (take_sender w s)) = rest s"
  by (simp add: take_sender_def rest_simps)

lemma rest_send_replyD: "send_reply ch r s = (ok, s1) \<Longrightarrow> rest s1 = rest s"
  using rest_send_reply[of ch r s] by simp

lemma rest_takeD: "take_sender w s = (x, s1) \<Longrightarrow> rest s1 = rest s"
  using rest_take[of w s] by simp

lemma rest_fold [rest_simps]: "(\<And>x s. rest (g x s) = rest s) \<Longrightarrow> rest (fold g xs s) = rest s"
  by (induction xs arbitrary: s) simp_all

lemma rest_deliver_to [rest_simps]: "rest (deliver_to ch r c s) = rest s"
  by (auto simp: deliver_to_def rest_simps dest: rest_send_replyD split: prod.split)

lemma rest_join [rest_simps]: "rest (join_child c ch s) = rest s"
  by (simp add: join_child_def rest_simps split: option.split)

lemma rest_status [rest_simps]: "rest (send_child_status now c ch s) = rest s"
  by (auto simp: send_child_status_def rest_simps dest: rest_send_replyD split: option.split prod.split)

lemma rest_roster [rest_simps]: "rest (send_child_roster now caller ch s) = rest s"
  by (auto simp: send_child_roster_def rest_simps Let_def dest: rest_send_replyD split: sum.split prod.split)

lemma rest_inspection [rest_simps]: "rest (send_child_roster_inspection now ch s) = rest s"
  by (simp add: send_child_roster_inspection_def rest_simps)

lemma rest_wait_child [rest_simps]: "rest (wait_child c t ch s) = rest s"
  by (simp add: wait_child_def rest_simps Let_def split: option.split)

lemma rest_wait_children [rest_simps]: "rest (wait_children cs t ch s) = rest s"
  by (simp add: wait_children_def rest_simps Let_def split: option.split)

lemma rest_run_timer [rest_simps]: "rest (run_timer t s) = rest s"
proof -
  have single: "rest (single_timeout w c s) = rest s" for w c s
    by (auto simp: single_timeout_def rest_simps dest!: rest_takeD split: option.split prod.split wait_sender.split)
  have any: "rest (any_timeout w cs s) = rest s" for w cs s
    by (auto simp: any_timeout_def rest_simps dest!: rest_takeD split: option.split prod.split wait_sender.split)
  show ?thesis by (simp add: run_timer_def Let_def single any rest_simps split: wait_timer.split)
qed

lemma rest_deliver_joins [rest_simps]: "rest (snd (deliver_joins t chs s)) = rest s"
proof (induction chs arbitrary: s)
  case (Cons ch chs)
  obtain ok s1 where p: "send_reply ch (RJoin (Ok t)) s = (ok, s1)" by fastforce
  have "rest s1 = rest s" using rest_send_reply[of ch "RJoin (Ok t)" s] p by simp
  then show ?case using Cons.IH[of s1] p by (auto split: prod.splits)
qed simp

lemma rest_deliver_wait [rest_simps]: "rest (snd (deliver_wait t w s)) = rest s"
  by (auto simp: deliver_wait_def rest_simps dest!: rest_takeD split: option.split prod.split wait_sender.split)

lemma rest_deliver_waits [rest_simps]: "rest (snd (deliver_waits t ws s)) = rest s"
proof (induction ws arbitrary: s)
  case (Cons w ws)
  obtain ok s1 where p: "deliver_wait t w s = (ok, s1)" by fastforce
  have "rest s1 = rest s" using rest_deliver_wait[of t w s] p by simp
  then show ?case using Cons.IH[of s1] p by (auto split: prod.splits)
qed simp

lemma rest_forget [rest_simps]: "rest (forget_elsewhere c w s) = rest s"
  unfolding forget_elsewhere_def by (rule rest_fold) (simp add: rest_simps)

lemma rest_record [rest_simps]: "rest (record_child_terminal_result now t s) = rest s"
proof (cases "bt_get (sv_results s) (ct_child_id t)")
  case (Some st)
  let ?t = "t\<lparr>ct_elapsed_ms := sat_sub now (md_started_at_ms (rs_metadata st))\<rparr>"
  let ?s2 = "fold (forget_elsewhere (ct_child_id t)) (rs_wait_waiters st)
    (s\<lparr>sv_results := bt_insert (ct_child_id t) (terminal_state now t st) (sv_results s)\<rparr>)"
  obtain d1 s3 where j: "deliver_joins ?t (rs_join_waiters st) ?s2 = (d1, s3)" by fastforce
  obtain d2 s4 where w: "deliver_waits ?t (rs_wait_waiters st) s3 = (d2, s4)" by fastforce
  have "rest ?s2 = rest s" by (simp add: rest_simps)
  moreover have "rest s3 = rest ?s2" using rest_deliver_joins[of ?t "rs_join_waiters st" ?s2] j by simp
  moreover have "rest s4 = rest s3" using rest_deliver_waits[of ?t "rs_wait_waiters st" s3] w by simp
  moreover have "record_child_terminal_result now t s = (if d1 \<or> d2 then mark_delivered (ct_child_id t) s4 else s4)"
    using Some j w by (simp add: record_child_terminal_result_def Let_def terminal_state_def)
  ultimately show ?thesis by (simp add: rest_simps)
qed (simp add: record_child_terminal_result_def)

text \<open>The messages that are no query.\<close>

fun is_query :: "'d payload \<Rightarrow> bool" where
  "is_query (PSpawn _ _) = False"
| "is_query (PCloseChild _ _) = False"
| "is_query (PCancelChild _ _) = False"
| "is_query (PSteerChild _ _ _) = False"
| "is_query PCancel = False"
| "is_query _ = True"

lemma rest_query: "is_query p \<Longrightarrow> rest (dispatch_payload X now caller p s) = rest s"
  by (cases p) (auto simp: rest_simps split: sum.split)

section \<open>Announced once, finished once, retried within limits\<close>

fun is_spawned :: "agent_id \<Rightarrow> activity \<Rightarrow> bool" where
  "is_spawned c (ActSpawned d _ _) \<longleftrightarrow> d = c"
| "is_spawned c _ \<longleftrightarrow> False"

fun is_finished :: "agent_id \<Rightarrow> activity \<Rightarrow> bool" where
  "is_finished c (ActFinished d _ _ _ _ _) \<longleftrightarrow> d = c"
| "is_finished c _ \<longleftrightarrow> False"

definition spawned_count :: "('j, 'v, 'd) supervisor \<Rightarrow> agent_id \<Rightarrow> nat" where
  "spawned_count s c = length (filter (\<lambda>e. is_spawned c (snd e)) (sv_activity s))"

definition finished_count :: "('j, 'v, 'd) supervisor \<Rightarrow> agent_id \<Rightarrow> nat" where
  "finished_count s c = length (filter (\<lambda>e. is_finished c (snd e)) (sv_activity s))"

fun reported :: "('v, 'd) task_phase \<Rightarrow> bool" where
  "reported (PhRecord _) = True"
| "reported PhDropToken = True"
| "reported PhDropInput = True"
| "reported _ = False"

definition retries_of :: "(agent_id, nat) btree \<Rightarrow> agent_id \<Rightarrow> nat" where
  "retries_of counts c = unwrap_or (bt_get counts c) 0"

definition allowed_retries :: "restart_strategy \<Rightarrow> nat" where
  "allowed_retries strategy = unwrap_or (retry_limit strategy) 0"

definition task_once :: "('j, 'v, 'd) supervisor \<Rightarrow> agent_id \<Rightarrow> ('v, 'd) child_task \<Rightarrow> bool" where
  "task_once s c k \<longleftrightarrow> c \<in> set (sv_accepted s) \<and> (\<not> reported (ts_phase k) \<longrightarrow> finished_count s c = 0) \<and>
     ts_attempts k = Suc (retries_of (sv_retry_shared s) c) \<and>
     retries_of (sv_retry_shared s) c \<le> allowed_retries (cf_restart_strategy (ts_config k))"

definition once_ok :: "('j, 'v, 'd) supervisor \<Rightarrow> bool" where
  "once_ok s \<longleftrightarrow> distinct (sv_accepted s) \<and>
     (\<forall>c. spawned_count s c = (if c \<in> set (sv_accepted s) then 1 else 0) \<and> finished_count s c \<le> 1) \<and>
     (\<forall>c. c \<notin> set (sv_accepted s) \<longrightarrow> finished_count s c = 0 \<and> retries_of (sv_retry_shared s) c = 0) \<and>
     (\<forall>c k. bt_get (sv_tasks s) c = Some k \<longrightarrow> task_once s c k)"

definition story where
  "story s = (sv_accepted s, sv_activity s, sv_tasks s, sv_retry_shared s)"

lemma once_cong:
  assumes "sv_accepted s' = sv_accepted s" "sv_activity s' = sv_activity s" "sv_tasks s' = sv_tasks s"
    "\<And>d. retries_of (sv_retry_shared s') d = retries_of (sv_retry_shared s) d"
  shows "once_ok s' = once_ok s"
  by (simp only: once_ok_def task_once_def spawned_count_def finished_count_def assms)

lemma story_once: "story s' = story s \<Longrightarrow> once_ok s' = once_ok s"
  by (simp add: story_def once_ok_def task_once_def spawned_count_def finished_count_def)

lemma rest_story: "rest s' = rest s \<Longrightarrow> story s' = story s"
  by (simp add: rest_def story_def)

lemma story_respond [simp]: "story (respond ch r s) = story s"
  by (rule rest_story) (simp add: rest_simps)

lemma story_control:
  "story (snd (close_child c s)) = story s" "story (snd (cancel_child c s)) = story s"
  "story (snd (steer_child c m s)) = story s" "story (signal_token a s) = story s"
  by (auto simp: close_child_def cancel_child_def steer_child_def enqueue_input_def signal_token_def story_def
      split: option.split prod.split bool.split)

lemma story_owner: "story (snd act) = story s \<Longrightarrow> story (respond_done ch (owner_only s caller c act)) = story s"
  by (simp add: respond_done_def owner_only_def split: sum.split)

lemma story_dispatch: "(\<And>config ch. p \<noteq> PSpawn config ch) \<Longrightarrow> story (dispatch_payload X now caller p s) = story s"
  using rest_story[OF rest_query, of p X now caller s] by (cases p) (auto simp: story_control story_owner split: option.split)

lemma should_retry_cases:
  obtains (again) counts where "should_retry c strategy m = (True, counts)" "retries_of m c < allowed_retries strategy"
      "retries_of counts c = Suc (retries_of m c)" "\<And>d. d \<noteq> c \<Longrightarrow> retries_of counts d = retries_of m d"
  | (stop) counts where "should_retry c strategy m = (False, counts)" "\<And>d. retries_of counts d = retries_of m d"
proof (cases "retry_limit strategy")
  case None
  then show thesis using stop[of m] by (simp add: should_retry_def)
next
  case (Some l)
  let ?m = "bt_or_insert c 0 m"
  have m: "retries_of ?m d = retries_of m d" for d by (simp add: retries_of_def bt_simps split: option.split)
  show thesis
  proof (cases "retries_of m c < l")
    case True
    have "should_retry c strategy m = (True, bt_insert c (retries_of m c + 1) ?m)"
      using Some True by (simp add: should_retry_def Let_def m[unfolded retries_of_def] retries_of_def)
    then show thesis using again True Some m by (simp add: retries_of_def bt_simps allowed_retries_def)
  next
    case False
    have "should_retry c strategy m = (False, ?m)"
      using Some False by (simp add: should_retry_def Let_def m[unfolded retries_of_def] retries_of_def)
    then show thesis using stop m by blast
  qed
qed

lemma retry_decision_cases:
  assumes "retry_decision c k r m = (b, counts)"
  shows "b \<Longrightarrow> retries_of m c < allowed_retries (cf_restart_strategy (ts_config k)) \<and>
      retries_of counts c = Suc (retries_of m c)"
    and "\<not> b \<Longrightarrow> retries_of counts c = retries_of m c" and "d \<noteq> c \<Longrightarrow> retries_of counts d = retries_of m d"
proof -
  have "(b \<longrightarrow> retries_of m c < allowed_retries (cf_restart_strategy (ts_config k)) \<and> retries_of counts c = Suc (retries_of m c)) \<and>
     (\<not> b \<longrightarrow> retries_of counts c = retries_of m c) \<and> (\<forall>d. d \<noteq> c \<longrightarrow> retries_of counts d = retries_of m d)"
  proof (cases r)
    case (Inl e)
    then have "should_retry c (cf_restart_strategy (ts_config k)) m = (b, counts)" using assms by (simp add: retry_decision_def)
    then show ?thesis by (cases rule: should_retry_cases[where c = c and strategy = "cf_restart_strategy (ts_config k)" and m = m]) auto
  qed (use assms in \<open>auto simp: retry_decision_def\<close>)
  then show "b \<Longrightarrow> retries_of m c < allowed_retries (cf_restart_strategy (ts_config k)) \<and>
      retries_of counts c = Suc (retries_of m c)" "\<not> b \<Longrightarrow> retries_of counts c = retries_of m c"
    "d \<noteq> c \<Longrightarrow> retries_of counts d = retries_of m d" by auto
qed

text \<open>A change of one task.\<close>

lemma once_task_change:
  assumes ok: "once_ok s" and same: "sv_accepted s' = sv_accepted s" "sv_activity s' = sv_activity s"
    and tasks: "sv_tasks s' = bt_insert c k (sv_tasks s)"
    and r: "\<And>d. d \<noteq> c \<Longrightarrow> retries_of (sv_retry_shared s') d = retries_of (sv_retry_shared s) d"
    and k: "task_once s' c k"
  shows "once_ok s'"
proof -
  have cnt: "spawned_count s' d = spawned_count s d" "finished_count s' d = finished_count s d" for d
    using same by (simp_all add: spawned_count_def finished_count_def)
  have c: "c \<in> set (sv_accepted s)" using k same by (simp add: task_once_def)
  have "task_once s' d j" if "bt_get (sv_tasks s') d = Some j" for d j
  proof (cases "d = c")
    case False
    then have "task_once s d j" using ok that by (simp add: once_ok_def tasks bt_simps)
    then show ?thesis using False by (simp add: task_once_def same cnt r)
  qed (use that k in \<open>simp add: tasks bt_simps\<close>)
  moreover have "retries_of (sv_retry_shared s') d = 0" if "d \<notin> set (sv_accepted s)" for d
  proof -
    have "d \<noteq> c" using that c by blast
    then show ?thesis using ok that by (simp add: once_ok_def r)
  qed
  moreover have "distinct (sv_accepted s')"
    "\<forall>d. spawned_count s' d = (if d \<in> set (sv_accepted s') then 1 else 0) \<and> finished_count s' d \<le> 1"
    "\<forall>d. d \<notin> set (sv_accepted s') \<longrightarrow> finished_count s' d = 0"
    using ok unfolding once_ok_def cnt same by blast+
  ultimately show ?thesis unfolding once_ok_def by (simp only: same) blast
qed

lemma set_task_once:
  assumes ok: "once_ok s" and k0: "bt_get (sv_tasks s) c = Some k0"
    and same: "ts_config k = ts_config k0" "ts_attempts k = ts_attempts k0" "\<not> reported (ts_phase k) \<Longrightarrow> \<not> reported (ts_phase k0)"
  shows "once_ok (set_task c k s)"
proof -
  have "task_once s c k0" using ok k0 by (simp add: once_ok_def)
  then have "task_once (set_task c k s) c k" using same by (simp add: task_once_def set_task_def finished_count_def)
  then show ?thesis by (intro once_task_change[OF ok]) (simp_all add: set_task_def)
qed

lemma attempt_once:
  assumes "once_ok s"
  shows "once_ok (attempt_finished c r s)"
proof (cases c r s rule: attempt_finished_cases)
  case (retry k counts s1)
  have t: "task_once s c k" using assms retry(1) by (simp add: once_ok_def)
  note R = retry_decision_cases[OF retry(3)]
  have s1: "sv_accepted s1 = sv_accepted s" "sv_activity s1 = sv_activity s" "sv_tasks s1 = sv_tasks s" "sv_retry_shared s1 = counts"
    by (simp_all add: retry(4) drop_queue_def)
  let ?k = "k\<lparr>ts_run_token := length (sv_token_heap s), ts_attempts := ts_attempts k + 1\<rparr>"
  have "task_once (set_task c ?k s1) c ?k"
    using t R(1) retry(2) by (simp add: task_once_def set_task_def finished_count_def s1)
  then show ?thesis unfolding retry(5)
    by (rule once_task_change[OF assms, rotated -1]) (simp_all add: set_task_def s1 R(3))
next
  case (over k counts s1)
  note R = retry_decision_cases[OF over(3)]
  have "retries_of counts d = retries_of (sv_retry_shared s) d" for d using R(2,3) by (cases "d = c") simp_all
  moreover have s1: "sv_accepted s1 = sv_accepted s" "sv_activity s1 = sv_activity s" "sv_tasks s1 = sv_tasks s" "sv_retry_shared s1 = counts"
    by (simp_all add: over(4) drop_queue_def)
  ultimately have "once_ok s1 = once_ok s" by (intro once_cong) simp_all
  then have "once_ok s1" using assms by simp
  then show ?thesis unfolding over(5)
    by (rule set_task_once[of s1 c k]) (simp_all add: s1 over(1,2))
qed (use assms in simp)

lemma once_drop_task:
  assumes "once_ok s"
  shows "once_ok (s\<lparr>sv_inputs := i, sv_tasks := bt_remove c (sv_tasks s)\<rparr>)" (is "once_ok ?s")
proof -
  have cnt: "spawned_count ?s d = spawned_count s d" "finished_count ?s d = finished_count s d" for d
    by (simp_all add: spawned_count_def finished_count_def)
  have "task_once ?s d k = task_once s d k" for d k by (simp add: task_once_def cnt)
  moreover have "bt_get (sv_tasks s) d = Some k" if "bt_get (sv_tasks ?s) d = Some k" for d k
    using that by (simp add: bt_simps split: if_splits)
  moreover have acc: "sv_accepted ?s = sv_accepted s" "sv_retry_shared ?s = sv_retry_shared s" by simp_all
  ultimately show ?thesis using assms unfolding once_ok_def cnt acc by blast
qed

lemma journal_append_activity:
  "journal_append X kind owner now e s = (r, s1) \<Longrightarrow> sv_activity s1 = sv_activity s"
  using journal_append_updates[of X kind owner now e s] by auto

text \<open>Processing a result reports it at most once.\<close>

lemma process_activity:
  assumes "process_child_result_with_rollup X False c owner p parent now el r s = (r1, s1)"
  shows "\<exists>log. sv_activity s1 = sv_activity s @ log \<and> length (filter (\<lambda>e. is_finished c (snd e)) log) \<le> 1 \<and>
    (\<forall>d. filter (\<lambda>e. is_spawned d (snd e)) log = []) \<and> (\<forall>d. d \<noteq> c \<longrightarrow> filter (\<lambda>e. is_finished d (snd e)) log = [])"
proof -
  have "sv_activity s1 = sv_activity s \<or>
      (\<exists>x a b t u. sv_activity s1 = sv_activity s @ [(c, ActFinished c x a b t u)])"
    using assms
    by (auto simp: process_child_result_with_rollup_def emit_activity_def dest!: journal_append_activity
        split: sum.splits prod.splits option.splits)
  then show ?thesis by auto
qed

lemma advance_once:
  assumes "once_ok s"
  shows "once_ok (advance_task X c now el s)"
proof (cases "bt_get (sv_tasks s) c")
  case (Some k)
  have same: "once_ok (set_task c (k\<lparr>ts_phase := ph\<rparr>) s1)"
    if "story s1 = story s" "\<not> reported ph \<Longrightarrow> \<not> reported (ts_phase k)" for ph s1
  proof -
    have "once_ok s1" using story_once[OF that(1)] assms by simp
    moreover have "bt_get (sv_tasks s1) c = Some k" using that(1) Some by (simp add: story_def)
    ultimately show ?thesis using that(2) by (intro set_task_once) simp_all
  qed
  show ?thesis
  proof (cases "ts_phase k")
    case (PhAwaiting out)
    then show ?thesis using Some assms same[of s] by (simp add: advance_task_def)
  next
    case (PhSettle r)
    have "story (settle_budget_reservation (sx_dec X) c r s) = story s"
      by (simp add: settle_budget_reservation_def story_def Let_def split: option.split)
    then show ?thesis using Some PhSettle same by (simp add: advance_task_def)
  next
    case (PhProcess r)
    obtain r1 s1 where p: "process_child_result_with_rollup X False c (cf_parent_id (ts_config k)) (cf_placement (ts_config k))
        (ts_parent_account k) now el r s = (r1, s1)" by fastforce
    obtain j a where s1: "s1 = s\<lparr>sv_journal := j, sv_activity := a\<rparr>"
      using process_updates[of X c "cf_parent_id (ts_config k)" "cf_placement (ts_config k)" "ts_parent_account k" now el r s] p
      by auto
    obtain log where log: "sv_activity s1 = sv_activity s @ log" "length (filter (\<lambda>e. is_finished c (snd e)) log) \<le> 1"
      "\<And>d. filter (\<lambda>e. is_spawned d (snd e)) log = []" "\<And>d. d \<noteq> c \<Longrightarrow> filter (\<lambda>e. is_finished d (snd e)) log = []"
      using process_activity[OF p] by auto
    let ?k = "k\<lparr>ts_phase := PhRecord r1\<rparr>" and ?s = "set_task c (k\<lparr>ts_phase := PhRecord r1\<rparr>) s1"
    have k: "task_once s c k" using assms Some by (simp add: once_ok_def)
    have f: "finished_count s c = 0" using k PhProcess by (simp add: task_once_def)
    have cnt: "spawned_count ?s d = spawned_count s d" "finished_count ?s d = (if d = c then finished_count ?s c else finished_count s d)"
      "finished_count ?s c \<le> 1" for d
      using log f by (simp_all add: spawned_count_def finished_count_def set_task_def)
    have acc: "sv_accepted ?s = sv_accepted s" "sv_retry_shared ?s = sv_retry_shared s"
      "sv_tasks ?s = bt_insert c ?k (sv_tasks s)" by (simp_all add: set_task_def s1)
    have tk: "task_once ?s d j" if "bt_get (sv_tasks ?s) d = Some j" for d j
    proof (cases "d = c")
      case True
      then have "j = ?k" using that by (simp add: acc bt_simps)
      then show ?thesis using True k by (simp add: task_once_def acc)
    next
      case False
      then have "task_once s d j" using that assms by (simp add: acc bt_simps once_ok_def)
      then show ?thesis using False by (simp add: task_once_def acc cnt(2)[of d])
    qed
    have "c \<in> set (sv_accepted s)" using k by (simp add: task_once_def)
    then have "finished_count ?s d \<le> 1 \<and> (d \<notin> set (sv_accepted s) \<longrightarrow> finished_count ?s d = 0)" for d
      using assms cnt(2)[of d] cnt(3) by (cases "d = c") (simp_all add: once_ok_def)
    then have "once_ok ?s"
      using assms tk unfolding once_ok_def[of ?s] acc cnt(1) by (auto simp: once_ok_def)
    then show ?thesis using Some PhProcess p by (simp add: advance_task_def)
  next
    case (PhRecord r)
    let ?s = "record_child_terminal_result now (terminal_of c (cf_placement (ts_config k)) el r) s"
    have "story ?s = story s" by (rule rest_story) (simp add: rest_simps)
    then have "once_ok (set_task c (k\<lparr>ts_phase := PhDropToken\<rparr>) ?s)" by (rule same) (simp add: PhRecord)
    then show ?thesis using Some PhRecord by (simp add: advance_task_def)
  next
    case PhDropToken
    let ?s = "s\<lparr>sv_tokens := bt_remove c (sv_tokens s)\<rparr>"
    have "story ?s = story s" by (simp add: story_def)
    then have "once_ok (set_task c (k\<lparr>ts_phase := PhDropInput\<rparr>) ?s)" by (rule same) simp
    then show ?thesis using Some PhDropToken by (simp add: advance_task_def)
  next
    case PhDropInput
    then show ?thesis using Some once_drop_task[OF assms] by (simp add: advance_task_def)
  qed (use Some assms in \<open>simp add: advance_task_def\<close>)
qed (use assms in \<open>simp add: advance_task_def\<close>)

lemma prepare_spawn_activity:
  assumes "prepare_spawn X config bk now s = (r, s1)"
  shows "\<exists>j. s1 = s\<lparr>sv_journal := j, sv_activity := sv_activity s @ (case r of Inl _ \<Rightarrow> [] | Inr _ \<Rightarrow>
      [(cf_parent_id config, ActSpawned (cf_agent_id config) (cf_placement config) (cf_task config))])\<rparr>"
proof (cases "sv_journal s = None")
  case True
  then have "r = Inl SpawnMissingJournal" "s1 = s" using assms by (simp_all add: prepare_spawn_def)
  then show ?thesis by (intro exI[of _ "sv_journal s"]) simp
next
  case False
  let ?e = "SubAgentSpawned (cf_agent_id config) (cf_placement config) (backend_name bk)
    (cf_task config) (cf_instructions config) (cf_placement_target config)"
  obtain q s2 where q: "journal_append X ''SubAgentSpawned'' (cf_parent_id config) now ?e s = (q, s2)" by fastforce
  obtain j where s2: "s2 = s\<lparr>sv_journal := j\<rparr>"
    using journal_append_updates[of X "''SubAgentSpawned''" "cf_parent_id config" now ?e s] q by auto
  show ?thesis
  proof (cases q)
    case (Inl e)
    then have "r = Inl e" "s1 = s\<lparr>sv_journal := j\<rparr>" using assms False q by (simp_all add: prepare_spawn_def s2)
    then show ?thesis by (intro exI[of _ j]) simp
  next
    case (Inr u)
    then have "r = Inr ()" "s1 = emit_activity (cf_parent_id config)
        (ActSpawned (cf_agent_id config) (cf_placement config) (cf_task config)) (s\<lparr>sv_journal := j\<rparr>)"
      using assms False q by (simp_all add: prepare_spawn_def s2)
    then show ?thesis by (intro exI[of _ j]) (simp add: emit_activity_def)
  qed
qed

lemma spawn_once:
  assumes F: "factory_keeps_ids X" and ok: "once_ok s" and sup: "sup_ok s"
  shows "once_ok (dispatch_spawn X caller config ch now s)"
proof (cases rule: dispatch_spawn_cases[where X = X and caller = caller and config = config and ch = ch and now = now and s = s])
  case (rejected e)
  then show ?thesis using ok story_once[OF story_respond, of ch "RSpawn (Err e)" s] by simp
next
  case (failed G config1 child parent s1 s2 e)
  obtain j where s2: "s2 = s1\<lparr>sv_journal := j\<rparr>" using prepare_spawn_activity[OF failed(5)] by auto
  have "story (rollback_unaccepted_budget (sx_dec X) (cf_agent_id config1) s2) = story s"
    using reserve_spawn_budget_Ok(4)[OF failed(4)]
    by (simp add: rollback_unaccepted_budget_def story_def Let_def s2 split: option.split)
  then show ?thesis unfolding failed(6) using story_once ok story_respond by metis
next
  case (accepted G config1 child parent s1 s2)
  let ?c = "cf_agent_id config1" and ?s = "dispatch_spawn X caller config ch now s"
  have fresh: "?c \<notin> set (sv_accepted s)" using accepted(2) vet_keeps_ids[OF F accepted(1,4)] by simp
  obtain j where s2: "s2 = s1\<lparr>sv_journal := j, sv_activity := sv_activity s1 @
      [(cf_parent_id config1, ActSpawned ?c (cf_placement config1) (cf_task config1))]\<rparr>"
    using prepare_spawn_activity[OF accepted(6)] by auto
  obtain k where k: "sv_tasks ?s = bt_insert ?c k (sv_tasks s)" "ts_attempts k = 1" "ts_phase k = PhRunning"
    and acc: "sv_accepted ?s = sv_accepted s @ [?c]" "sv_retry_shared ?s = sv_retry_shared s"
    and act: "sv_activity ?s = sv_activity s @ [(cf_parent_id config1, ActSpawned ?c (cf_placement config1) (cf_task config1))]"
    using reserve_spawn_budget_Ok(4)[OF accepted(5)] fresh
    by (simp add: accepted(7) spawn_task_into_def Let_def respond_def send_reply_def record_accepted_child_id_def s2)
  have f0: "finished_count s ?c = 0" "spawned_count s ?c = 0" "retries_of (sv_retry_shared s) ?c = 0"
    using ok fresh by (simp_all add: once_ok_def)
  have cnt: "spawned_count ?s d = spawned_count s d + (if d = ?c then 1 else 0)" "finished_count ?s d = finished_count s d" for d
    by (simp_all add: spawned_count_def finished_count_def act)
  have "task_once ?s d i" if "bt_get (sv_tasks ?s) d = Some i" for d i
  proof (cases "d = ?c")
    case True
    then have "i = k" using that by (simp add: k bt_simps)
    then show ?thesis using True k f0 by (simp add: task_once_def acc cnt)
  next
    case False
    then have "task_once s d i" using that ok by (simp add: k bt_simps once_ok_def)
    then show ?thesis by (simp add: task_once_def acc cnt)
  qed
  moreover have "distinct (sv_accepted ?s)" using ok fresh by (simp add: acc once_ok_def)
  moreover have "spawned_count ?s d = (if d \<in> set (sv_accepted ?s) then 1 else 0) \<and> finished_count ?s d \<le> 1" for d
    using ok f0 by (cases "d = ?c") (simp_all add: once_ok_def cnt acc)
  moreover have "finished_count ?s d = 0 \<and> retries_of (sv_retry_shared ?s) d = 0" if "d \<notin> set (sv_accepted ?s)" for d
    using ok that by (simp add: once_ok_def cnt acc)
  ultimately show ?thesis unfolding once_ok_def by blast
qed

lemma step_once:
  assumes F: "factory_keeps_ids X" and ok: "once_ok s" "sup_ok s"
  shows "once_ok (sv_step X ev s)"
proof (cases ev)
  case (EvMessage m now)
  show ?thesis
  proof (cases "\<exists>config ch. sm_payload m = PSpawn config ch")
    case True
    then show ?thesis using EvMessage spawn_once[OF F ok] by (auto simp: dispatch_message_into_def)
  next
    case False
    then have "story (dispatch_payload X now (sm_agent_id m) (sm_payload m) s) = story s" by (intro story_dispatch) auto
    from story_once[OF this] show ?thesis using EvMessage ok by (simp add: dispatch_message_into_def)
  qed
next
  case (EvTimer t)
  have "once_ok (run_timer t s) = once_ok s" by (intro story_once rest_story rest_run_timer)
  then show ?thesis using EvTimer ok by simp
next
  case (EvDrop ch)
  have "story (sv_step X ev s) = story s" by (simp add: EvDrop story_def)
  then show ?thesis using story_once ok by metis
next
  case (EvUsage a x y z)
  have "story (sv_step X ev s) = story s" by (simp add: EvUsage story_def)
  then show ?thesis using story_once ok by metis
qed (simp_all add: attempt_once advance_once ok)

lemma fresh_once: "fresh_supervisor s \<Longrightarrow> once_ok s"
  by (auto simp: fresh_supervisor_def once_ok_def supervisor_new_def spawned_count_def finished_count_def retries_of_def)

interpretation history: supervisor_invariant X "\<lambda>s. factory_keeps_ids X \<longrightarrow> once_ok s \<and> sup_ok s"
  for X :: "('j, 'v, 'd::{zero,linorder}) sup_ctx"
  by unfold_locales (simp_all add: fresh_once fresh_ok step_once sv_step_ok)

lemma reach_once:
  "sv_reach X E s0 s \<Longrightarrow> factory_keeps_ids X \<Longrightarrow> fresh_supervisor s0 \<Longrightarrow> once_ok s \<and> sup_ok s"
  using history.reachable by blast

text \<open>C30: A child id is used once and its life is reported once: in every reachable state the accepted ids
  are distinct, each of them was announced as spawned exactly once and no other id ever was, a child is
  reported finished at most once and only if it was accepted, and a task runs at most one attempt more
  than its restart strategy allows, which is at most three.\<close>

theorem child_life_reported_once:
  assumes "factory_keeps_ids X" "fresh_supervisor s0" "sv_reach X E s0 s"
  shows "distinct (sv_accepted s) \<and>
    spawned_count s c = (if c \<in> set (sv_accepted s) then 1 else 0) \<and>
    finished_count s c \<le> (if c \<in> set (sv_accepted s) then 1 else 0) \<and>
    (\<forall>k. bt_get (sv_tasks s) c = Some k \<longrightarrow>
       ts_attempts k \<le> Suc (allowed_retries (cf_restart_strategy (ts_config k))) \<and> ts_attempts k \<le> 3)"
proof -
  have ok: "once_ok s" using reach_once assms by blast
  have three: "Suc (allowed_retries r) \<le> 3" for r by (cases r) (simp_all add: allowed_retries_def)
  then have "ts_attempts k \<le> Suc (allowed_retries (cf_restart_strategy (ts_config k))) \<and> ts_attempts k \<le> 3"
    if "bt_get (sv_tasks s) c = Some k" for k
  proof -
    have "task_once s c k" using ok that by (simp add: once_ok_def)
    then have "ts_attempts k \<le> Suc (allowed_retries (cf_restart_strategy (ts_config k)))" by (simp add: task_once_def)
    then show ?thesis using three[of "cf_restart_strategy (ts_config k)"] by linarith
  qed
  then show ?thesis using ok by (simp add: once_ok_def)
qed

theorem child_life_reported_once_witness:
  "spawned_count (sv_run sv_ctx sv_events sv_root) ''c'' = 1 \<and> finished_count (sv_run sv_ctx sv_events sv_root) ''d'' \<le> 1 \<and>
   finished_count (sv_run sv_ctx sv_events sv_root) ''c'' = 1"
proof -
  let ?s = "sv_run sv_ctx sv_events sv_root"
  have r: "sv_reach sv_ctx UNIV sv_root ?s" by (rule sv_run_reach) simp
  have c: "''c'' \<in> set (sv_accepted ?s)" "''d'' \<in> set (sv_accepted ?s)" by code_simp+
  have "finished_count ?s ''c'' = 1" by code_simp
  then show ?thesis
    using child_life_reported_once[OF sv_ctx_keeps_ids sv_root_fresh r, of "''c''"]
      child_life_reported_once[OF sv_ctx_keeps_ids sv_root_fresh r, of "''d''"] c by simp
qed

end
