(* ===== verification/Supervisor_Control.thy ===== *)
theory Supervisor_Control
  imports Supervisor_Lifecycle
begin

text \<open>
  Control of a running child: which cancellation token and which input queue its current attempt holds,
  and which of them a control message reaches.  A first attempt holds the registered ones; a retry does
  not, so it can be neither cancelled nor steered.  The charge of a settled child closes the theory.
\<close>

section \<open>Tokens and queues of the tasks\<close>

definition task_wired :: "('j, 'v, 'd) supervisor \<Rightarrow> agent_id \<Rightarrow> ('v, 'd) child_task \<Rightarrow> bool" where
  "task_wired s c k \<longleftrightarrow>
     0 < ts_attempts k \<and> ts_run_token k < length (sv_token_heap s) \<and> ts_queue k < length (sv_queue_heap s) \<and>
     (ts_phase k = PhRunning \<longrightarrow> bt_get (sv_tokens s) c = Some (ts_token k) \<and> bt_get (sv_inputs s) c = Some (ts_queue k)) \<and>
     (ts_attempts k = 1 \<longrightarrow> ts_run_token k = ts_token k) \<and>
     (ts_attempts k \<noteq> 1 \<longrightarrow> \<not> sv_token_heap s ! ts_run_token k \<and> (\<forall>d. bt_get (sv_tokens s) d \<noteq> Some (ts_run_token k)) \<and>
        \<not> snd (sv_queue_heap s ! ts_queue k))"

definition wired :: "('j, 'v, 'd) supervisor \<Rightarrow> bool" where
  "wired s \<longleftrightarrow> (\<forall>d a. bt_get (sv_tokens s) d = Some a \<longrightarrow> a < length (sv_token_heap s)) \<and>
     (\<forall>d k. bt_get (sv_tasks s) d = Some k \<longrightarrow> task_wired s d k)"

definition wires where
  "wires s = (sv_tasks s, sv_tokens s, sv_token_heap s, sv_inputs s, sv_queue_heap s)"

lemma wires_wired: "wires s' = wires s \<Longrightarrow> wired s' = wired s"
  by (simp add: wires_def wired_def task_wired_def)

lemma rest_wires: "rest s' = rest s \<Longrightarrow> wires s' = wires s"
  by (simp add: rest_def wires_def)

lemma wires_respond [simp]: "wires (respond ch r s) = wires s"
  by (rule rest_wires) (simp add: rest_simps)

lemma wired_respond [simp]: "wired (respond ch r s) = wired s"
  by (rule wires_wired) simp

lemma wiredD: "wired s \<Longrightarrow> bt_get (sv_tasks s) c = Some k \<Longrightarrow> task_wired s c k"
  by (simp add: wired_def)

lemma wired_set_task:
  assumes "wired s" "task_wired s c k"
  shows "wired (set_task c k s)"
proof -
  have "task_wired (set_task c k s) d j = task_wired s d j" for d j by (simp add: task_wired_def set_task_def)
  then show ?thesis using assms by (auto simp: wired_def set_task_def bt_simps split: if_splits)
qed

lemma wired_set_phase:
  assumes "wired s" "bt_get (sv_tasks s) c = Some k" "ph \<noteq> PhRunning"
  shows "wired (set_task c (k\<lparr>ts_phase := ph\<rparr>) s)"
  using wiredD[OF assms(1,2)] assms(3) by (intro wired_set_task[OF assms(1)]) (simp add: task_wired_def)

text \<open>Signalling a registered token, closing or feeding a queue.\<close>

lemma signal_wired:
  assumes "wired s" "bt_get (sv_tokens s) d = Some a"
  shows "wired (signal_token a s)"
proof -
  have "task_wired (signal_token a s) c k" if "bt_get (sv_tasks s) c = Some k" for c k
  proof -
    have w: "task_wired s c k" using wiredD[OF assms(1) that] .
    then have "ts_attempts k \<noteq> 1 \<Longrightarrow> a \<noteq> ts_run_token k" using assms(2) by (auto simp: task_wired_def)
    then show ?thesis using w by (auto simp: task_wired_def signal_token_def)
  qed
  then show ?thesis using assms(1) by (simp add: wired_def signal_token_def)
qed

lemma queue_wired:
  assumes "wired s" and len: "length h = length (sv_queue_heap s)"
    and closed: "\<And>a. \<not> snd (sv_queue_heap s ! a) \<Longrightarrow> a < length h \<Longrightarrow> \<not> snd (h ! a)"
  shows "wired (s\<lparr>sv_queue_heap := h\<rparr>)"
proof -
  have "task_wired (s\<lparr>sv_queue_heap := h\<rparr>) c k" if "bt_get (sv_tasks s) c = Some k" for c k
    using wiredD[OF assms(1) that] closed[of "ts_queue k"] by (auto simp: task_wired_def len)
  then show ?thesis using assms(1) by (simp add: wired_def)
qed

lemma steer_wired: "wired s \<Longrightarrow> wired (snd (steer_child c m s))"
proof (cases "bt_get (sv_inputs s) c")
  case (Some a)
  assume w: "wired s"
  obtain msgs alive where q: "sv_queue_heap s ! a = (msgs, alive)" by fastforce
  show ?thesis
  proof (cases alive)
    case True
    have "wired (s\<lparr>sv_queue_heap := (sv_queue_heap s)[a := (msgs @ [m], True)]\<rparr>)"
    proof (rule queue_wired[OF w])
      show "\<not> snd ((sv_queue_heap s)[a := (msgs @ [m], True)] ! b)" if "\<not> snd (sv_queue_heap s ! b)" for b
        using that q True by (cases "b = a") auto
    qed simp
    then show ?thesis using Some q True by (simp add: steer_child_def enqueue_input_def)
  qed (use Some q w in \<open>simp add: steer_child_def enqueue_input_def\<close>)
qed (simp add: steer_child_def)

lemma cancel_wired: "wired s \<Longrightarrow> wired (snd (cancel_child c s))"
  by (simp add: cancel_child_def signal_wired split: option.split)

lemma close_wired:
  assumes "wired s" "sup_ok s"
  shows "wired (snd (close_child c s))"
proof (cases "bt_get (sv_results s) c")
  case (Some st)
  show ?thesis
  proof (cases "rs_result st")
    case (Some t)
    let ?s = "snd (close_child c s)"
    have f: "sv_tasks ?s = sv_tasks s" "sv_tokens ?s = bt_remove c (sv_tokens s)" "sv_token_heap ?s = sv_token_heap s"
      "sv_inputs ?s = bt_remove c (sv_inputs s)" "sv_queue_heap ?s = sv_queue_heap s"
      using \<open>bt_get (sv_results s) c = Some st\<close> Some by (simp_all add: close_child_def)
    have "\<not> running s c" using \<open>bt_get (sv_results s) c = Some st\<close> Some by (simp add: running_def)
    then have "ts_phase k \<noteq> PhRunning" if "bt_get (sv_tasks s) c = Some k" for k
      using assms(2) that unfolding sup_ok_def tasks_ok_def by force
    then have "task_wired ?s d k" if "bt_get (sv_tasks s) d = Some k" for d k
      using wiredD[OF assms(1) that] that by (auto simp: task_wired_def f bt_simps)
    then show ?thesis using assms(1) by (auto simp: wired_def f bt_simps split: if_splits)
  qed (use Some assms in \<open>simp add: close_child_def\<close>)
qed (use assms in \<open>simp add: close_child_def\<close>)

lemma owner_wired: "wired s \<Longrightarrow> wired (snd act) \<Longrightarrow> wired (respond_done ch (owner_only s caller c act))"
  by (simp add: respond_done_def owner_only_def split: sum.split)

section \<open>Attempts\<close>

lemma drop_queue_wired:
  assumes "wired s" "bt_get (sv_tasks s) c = Some k"
  shows "wired (drop_queue k s) \<and> \<not> snd (sv_queue_heap (drop_queue k s) ! ts_queue k)"
proof (cases "ts_attempts k = 1")
  case True
  have w: "task_wired s c k" using wiredD[OF assms] .
  have "wired (s\<lparr>sv_queue_heap := (sv_queue_heap s)[ts_queue k := (fst (sv_queue_heap s ! ts_queue k), False)]\<rparr>)"
  proof (rule queue_wired[OF assms(1)])
    show "\<not> snd ((sv_queue_heap s)[ts_queue k := (fst (sv_queue_heap s ! ts_queue k), False)] ! b)"
      if "\<not> snd (sv_queue_heap s ! b)" "b < length ((sv_queue_heap s)[ts_queue k := (fst (sv_queue_heap s ! ts_queue k), False)])" for b
      using that by (cases "b = ts_queue k") auto
  qed simp
  then show ?thesis using w True by (simp add: drop_queue_def task_wired_def)
next
  case False
  then show ?thesis using assms(1) wiredD[OF assms] by (simp add: drop_queue_def task_wired_def)
qed

lemma new_token_wired:
  assumes "wired s"
  shows "wired (s\<lparr>sv_retry_shared := m, sv_token_heap := sv_token_heap s @ [False]\<rparr>)"
proof -
  let ?s = "s\<lparr>sv_retry_shared := m, sv_token_heap := sv_token_heap s @ [False]\<rparr>"
  have "task_wired ?s c k" if "bt_get (sv_tasks s) c = Some k" for c k
    using wiredD[OF assms that] by (auto simp: task_wired_def nth_append)
  then show ?thesis using assms by (auto simp: wired_def less_Suc_eq)
qed

lemma attempt_wired:
  assumes "wired s"
  shows "wired (attempt_finished c r s)"
proof (cases c r s rule: attempt_finished_cases)
  case (retry k counts s1)
  have D: "wired (drop_queue k s)" "\<not> snd (sv_queue_heap (drop_queue k s) ! ts_queue k)"
    using drop_queue_wired[OF assms retry(1)] by simp_all
  have f: "sv_token_heap (drop_queue k s) = sv_token_heap s" "sv_tasks (drop_queue k s) = sv_tasks s"
    "sv_tokens (drop_queue k s) = sv_tokens s" "sv_inputs (drop_queue k s) = sv_inputs s"
    by (simp_all add: drop_queue_def)
  have s1: "wired s1" using new_token_wired[OF D(1)] by (simp add: retry(4) f)
  have k: "task_wired (drop_queue k s) c k" using wiredD[OF D(1)] retry(1) by (simp add: f)
  have lt: "\<forall>d a. bt_get (sv_tokens s) d = Some a \<longrightarrow> a < length (sv_token_heap s)" using assms by (simp add: wired_def)
  have fresh: "bt_get (sv_tokens s) d \<noteq> Some (length (sv_token_heap s))" for d using lt by blast
  have "task_wired s1 c (k\<lparr>ts_run_token := length (sv_token_heap s), ts_attempts := ts_attempts k + 1\<rparr>)"
    using k D(2) by (simp add: task_wired_def retry(2,4) f fresh)
  then show ?thesis unfolding retry(5) by (rule wired_set_task[OF s1])
next
  case (over k counts s1)
  have D: "wired (drop_queue k s)" using drop_queue_wired[OF assms over(1)] by simp
  have "wires s1 = wires (drop_queue k s)" by (simp add: over(4) wires_def)
  from wires_wired[OF this] have s1: "wired s1" using D by simp
  have "bt_get (sv_tasks s1) c = Some k" using over(1) by (simp add: over(4) drop_queue_def)
  moreover have "after_attempts r \<noteq> PhRunning" by (auto simp: after_attempts_def split: sum.split)
  ultimately show ?thesis unfolding over(5) by (rule wired_set_phase[OF s1])
qed (use assms in simp)

section \<open>Every step\<close>

lemma advance_wired:
  assumes w: "wired s"
  shows "wired (advance_task X c now el s)"
proof (cases "bt_get (sv_tasks s) c")
  case (Some k)
  have same: "wired (set_task c (k\<lparr>ts_phase := ph\<rparr>) s1)" if "wires s1 = wires s" "ph \<noteq> PhRunning" for ph s1
  proof (rule wired_set_phase)
    show "wired s1" using wires_wired[OF that(1)] w by simp
    show "bt_get (sv_tasks s1) c = Some k" using that(1) Some by (simp add: wires_def)
  qed (rule that(2))
  show ?thesis
  proof (cases "ts_phase k")
    case (PhAwaiting out)
    then show ?thesis using Some w same[of s] by (simp add: advance_task_def)
  next
    case (PhSettle r)
    have "wires (settle_budget_reservation (sx_dec X) c r s) = wires s"
      by (simp add: settle_budget_reservation_def wires_def Let_def split: option.split)
    from same[OF this, of "PhProcess r"] show ?thesis using Some PhSettle by (simp add: advance_task_def)
  next
    case (PhProcess r)
    obtain r1 s1 where p: "process_child_result_with_rollup X False c (cf_parent_id (ts_config k)) (cf_placement (ts_config k))
        (ts_parent_account k) now el r s = (r1, s1)" by fastforce
    have "wires s1 = wires s"
      using process_updates[of X c "cf_parent_id (ts_config k)" "cf_placement (ts_config k)" "ts_parent_account k" now el r s] p
      by (auto simp: wires_def)
    from same[OF this, of "PhRecord r1"] show ?thesis using Some PhProcess p by (simp add: advance_task_def)
  next
    case (PhRecord r)
    let ?s = "record_child_terminal_result now (terminal_of c (cf_placement (ts_config k)) el r) s"
    have "wires ?s = wires s" by (rule rest_wires) (simp add: rest_simps)
    from same[OF this, of PhDropToken] show ?thesis using Some PhRecord by (simp add: advance_task_def)
  next
    case PhDropToken
    let ?s = "s\<lparr>sv_tokens := bt_remove c (sv_tokens s), sv_tasks := bt_insert c (k\<lparr>ts_phase := PhDropInput\<rparr>) (sv_tasks s)\<rparr>"
    have "task_wired ?s d j" if "bt_get (sv_tasks ?s) d = Some j" for d j
    proof (cases "d = c")
      case True
      then show ?thesis using that wiredD[OF w Some] by (auto simp: task_wired_def bt_simps)
    next
      case False
      then have "bt_get (sv_tasks s) d = Some j" using that by (simp add: bt_simps)
      from wiredD[OF w this] show ?thesis using False by (auto simp: task_wired_def bt_simps)
    qed
    then have "wired ?s" using w by (auto simp: wired_def bt_simps split: if_splits)
    then show ?thesis using Some PhDropToken by (simp add: advance_task_def set_task_def)
  next
    case PhDropInput
    let ?s = "s\<lparr>sv_inputs := bt_remove c (sv_inputs s), sv_tasks := bt_remove c (sv_tasks s)\<rparr>"
    have "task_wired ?s d j" if "bt_get (sv_tasks ?s) d = Some j" for d j
    proof -
      have d: "d \<noteq> c" "bt_get (sv_tasks s) d = Some j" using that by (auto simp: bt_simps split: if_splits)
      from wiredD[OF w d(2)] show ?thesis using d(1) by (auto simp: task_wired_def bt_simps)
    qed
    then have "wired ?s" using w by (auto simp: wired_def)
    then show ?thesis using Some PhDropInput by (simp add: advance_task_def)
  qed (use Some w in \<open>simp add: advance_task_def\<close>)
qed (use w in \<open>simp add: advance_task_def\<close>)

lemma spawn_wired:
  assumes F: "factory_keeps_ids X" and w: "wired s"
  shows "wired (dispatch_spawn X caller config ch now s)"
proof (cases rule: dispatch_spawn_cases[where X = X and caller = caller and config = config and ch = ch and now = now and s = s])
  case (rejected e)
  then show ?thesis using w by simp
next
  case (failed G config1 child parent s1 s2 e)
  obtain j where s2: "s2 = s1\<lparr>sv_journal := j\<rparr>" using prepare_spawn_activity[OF failed(5)] by auto
  have "wires (rollback_unaccepted_budget (sx_dec X) (cf_agent_id config1) s2) = wires s"
    using reserve_spawn_budget_Ok(4)[OF failed(4)]
    by (simp add: rollback_unaccepted_budget_def wires_def Let_def s2 split: option.split)
  from wires_wired[OF this] show ?thesis unfolding failed(6) using w by simp
next
  case (accepted G config1 child parent s1 s2)
  let ?c = "cf_agent_id config1" and ?s = "dispatch_spawn X caller config ch now s"
    and ?n = "length (sv_token_heap s)" and ?q = "length (sv_queue_heap s)"
  obtain j where s2: "s2 = s1\<lparr>sv_journal := j, sv_activity := sv_activity s1 @
      [(cf_parent_id config1, ActSpawned ?c (cf_placement config1) (cf_task config1))]\<rparr>"
    using prepare_spawn_activity[OF accepted(6)] by auto
  obtain k where tasks: "sv_tasks ?s = bt_insert ?c k (sv_tasks s)"
    and k: "ts_attempts k = 1" "ts_token k = ?n" "ts_run_token k = ?n" "ts_queue k = ?q"
    and f: "sv_tokens ?s = bt_insert ?c ?n (sv_tokens s)" "sv_inputs ?s = bt_insert ?c ?q (sv_inputs s)"
      "sv_token_heap ?s = sv_token_heap s @ [False]" "sv_queue_heap ?s = sv_queue_heap s @ [([], True)]"
    using reserve_spawn_budget_Ok(4)[OF accepted(5)]
    by (simp add: accepted(7) spawn_task_into_def Let_def respond_def send_reply_def record_accepted_child_id_def s2)
  have "task_wired ?s d i" if "bt_get (sv_tasks ?s) d = Some i" for d i
  proof (cases "d = ?c")
    case True
    then have "i = k" using that by (simp add: tasks bt_simps)
    then show ?thesis using True k by (simp add: task_wired_def f bt_simps)
  next
    case False
    then have "bt_get (sv_tasks s) d = Some i" using that by (simp add: tasks bt_simps)
    from wiredD[OF w this] show ?thesis using False by (auto simp: task_wired_def f bt_simps nth_append)
  qed
  moreover have "a < length (sv_token_heap ?s)" if "bt_get (sv_tokens ?s) d = Some a" for d a
    using that w by (auto simp: f bt_simps wired_def less_Suc_eq split: if_splits)
  ultimately show ?thesis unfolding wired_def by blast
qed

lemma step_wired:
  assumes F: "factory_keeps_ids X" and w: "wired s" and ok: "sup_ok s"
  shows "wired (sv_step X ev s)"
proof (cases ev)
  case (EvMessage m now)
  show ?thesis
  proof (cases "is_query (sm_payload m)")
    case True
    from wires_wired[OF rest_wires[OF rest_query[OF True, of X now "sm_agent_id m" s]]]
    show ?thesis using w EvMessage by (simp add: dispatch_message_into_def)
  next
    case False
    show ?thesis using EvMessage False w spawn_wired[OF F w] owner_wired[OF w close_wired[OF w ok]]
        owner_wired[OF w cancel_wired[OF w]] owner_wired[OF w steer_wired[OF w]]
      by (cases "sm_payload m") (auto simp: dispatch_message_into_def signal_wired split: option.split)
  qed
next
  case (EvTimer t)
  have "wired (run_timer t s) = wired s" by (intro wires_wired rest_wires rest_run_timer)
  then show ?thesis using EvTimer w by simp
next
  case (EvDrop ch)
  have "wired (sv_step X ev s) = wired s" by (rule wires_wired) (simp add: EvDrop wires_def)
  then show ?thesis using w by simp
next
  case (EvUsage a x y z)
  have "wired (sv_step X ev s) = wired s" by (rule wires_wired) (simp add: EvUsage wires_def)
  then show ?thesis using w by simp
qed (simp_all add: attempt_wired advance_wired w)

lemma fresh_wired: "fresh_supervisor s \<Longrightarrow> wired s"
  by (auto simp: fresh_supervisor_def wired_def supervisor_new_def)

interpretation wiring: supervisor_invariant X "\<lambda>s. factory_keeps_ids X \<longrightarrow> wired s \<and> sup_ok s"
  for X :: "('j, 'v, 'd::{zero,linorder}) sup_ctx"
  by unfold_locales (simp_all add: fresh_wired fresh_ok step_wired sv_step_ok)

text \<open>C33: A cancellation reaches the first attempt of a child and no other: for every running task in a
  reachable state, cancelling or steering the child is answered; on the first attempt the cancellation
  raises the very flag the attempt runs under, but once the child was retried the flag of the running
  attempt is down, stays down although the cancellation is answered with success, and steering is refused
  because the queue is closed.\<close>

theorem retried_attempt_out_of_reach:
  assumes "factory_keeps_ids X" "fresh_supervisor s0" "sv_reach X E s0 s"
    and "bt_get (sv_tasks s) c = Some k" "ts_phase k = PhRunning"
  shows "fst (cancel_child c s) = Ok () \<and>
    (ts_attempts k = 1 \<longrightarrow> sv_token_heap (snd (cancel_child c s)) ! ts_run_token k) \<and>
    (ts_attempts k \<noteq> 1 \<longrightarrow> \<not> sv_token_heap s ! ts_run_token k \<and>
       \<not> sv_token_heap (snd (cancel_child c s)) ! ts_run_token k \<and>
       fst (steer_child c m s) = Err ''child input queue is closed'')"
proof -
  have w: "task_wired s c k" using wiring.reachable[OF assms(3,2)] assms(1) wiredD[OF _ assms(4)] by blast
  then have t: "bt_get (sv_tokens s) c = Some (ts_token k)" "bt_get (sv_inputs s) c = Some (ts_queue k)"
    using assms(5) by (simp_all add: task_wired_def)
  have "ts_attempts k \<noteq> 1 \<Longrightarrow> ts_token k \<noteq> ts_run_token k" using w t(1) by (auto simp: task_wired_def)
  moreover have "ts_attempts k \<noteq> 1 \<Longrightarrow> \<exists>q. sv_queue_heap s ! ts_queue k = (q, False)"
    using w by (cases "sv_queue_heap s ! ts_queue k") (simp add: task_wired_def)
  ultimately show ?thesis
    using w by (auto simp: task_wired_def cancel_child_def steer_child_def enqueue_input_def signal_token_def t)
qed

definition retry_events :: "(unit, int) sv_event list" where
  "retry_events = [sv_msg (PSpawn (sv_child ''c'' 60 RetryOnce) 0), EvAttempt ''c'' (Err (SessionErr ''x''))]"

theorem retried_attempt_out_of_reach_witness:
  "\<exists>k. bt_get (sv_tasks (sv_run sv_ctx retry_events sv_root)) ''c'' = Some k \<and> ts_attempts k = 2 \<and>
     fst (cancel_child ''c'' (sv_run sv_ctx retry_events sv_root)) = Ok () \<and>
     \<not> sv_token_heap (snd (cancel_child ''c'' (sv_run sv_ctx retry_events sv_root))) ! ts_run_token k"
proof -
  let ?s = "sv_run sv_ctx retry_events sv_root"
  have r: "sv_reach sv_ctx UNIV sv_root ?s" by (rule sv_run_reach) simp
  have "map_option (\<lambda>k. (ts_attempts k, ts_phase k)) (bt_get (sv_tasks ?s) ''c'') = Some (2, PhRunning)" by code_simp
  then obtain k where k: "bt_get (sv_tasks ?s) ''c'' = Some k" "ts_attempts k = 2" "ts_phase k = PhRunning" by auto
  show ?thesis
    using retried_attempt_out_of_reach[OF sv_ctx_keeps_ids sv_root_fresh r k(1,3), of "[]"] k(1,2) by auto
qed

section \<open>Settlement\<close>

text \<open>Settling a child releases exactly what was reserved for it and charges its parent for a success
  only: in a reachable state, when the attempts of a child are over, its settlement removes the
  reservation, lowers the reserved tokens and turns of the parent's account by the child's limits (never
  below zero), adds the reported usage of an output (saturating) to the parent's usage, leaves that usage
  as it was when the child ended in an error, and touches no other account.\<close>

theorem settlement_charges_outputs_only:
  fixes now el :: u64
  assumes "factory_keeps_ids X" "fresh_supervisor s0" "sv_reach X E s0 s"
    and "bt_get (sv_tasks s) c = Some k" "ts_phase k = PhSettle r"
  defines "old \<equiv> sv_account_heap s ! ts_parent_account k"
    and "new \<equiv> sv_account_heap (advance_task X c now el s) ! ts_parent_account k"
  shows "bt_get (sv_reservations (advance_task X c now el s)) c = None \<and>
    unat (ac_reserved_tokens new) = unat (ac_reserved_tokens old) - unat (max_tokens (cf_budget (ts_config k))) \<and>
    unat (ac_reserved_turns new) = unat (ac_reserved_turns old) - unat (max_turns (cf_budget (ts_config k))) \<and>
    (case r of
       Inr out \<Rightarrow> used_tokens (ac_budget new) = sat_add (used_tokens (ac_budget old)) (usage_total (lo_token_usage out)) \<and>
         used_turns (ac_budget new) = sat_add (used_turns (ac_budget old)) (lo_used_turns out)
     | Inl e \<Rightarrow> ac_budget new = ac_budget old) \<and>
    (\<forall>a. a \<noteq> ts_parent_account k \<longrightarrow> sv_account_heap (advance_task X c now el s) ! a = sv_account_heap s ! a)"
proof -
  have ok: "sup_ok s" using reach_ok[OF assms(3,1,2)] .
  then have res: "bt_get (sv_reservations s) c = Some (reservation_of k)" and lt: "ts_parent_account k < length (sv_account_heap s)"
    using assms(4,5) by (auto simp: sup_ok_def tasks_ok_def)
  have adv: "sv_account_heap (advance_task X c now el s) = sv_account_heap (settle_budget_reservation (sx_dec X) c r s)"
    "sv_reservations (advance_task X c now el s) = bt_remove c (sv_reservations s)"
    using assms(4,5) res by (simp_all add: advance_task_def set_task_def settle_budget_reservation_def Let_def)
  show ?thesis
    unfolding old_def new_def adv using lt
    by (cases r) (simp_all add: settle_budget_reservation_def res reservation_of_def Let_def release_in_def charge_budget_usage_def
        unat_sat_sub bt_simps)
qed

definition failed_events :: "(unit, int) sv_event list" where
  "failed_events = [sv_msg (PSpawn (sv_child ''c'' 60 LetCrash) 0), EvUsage 1 60 4 0, EvAttempt ''c'' (Err (SessionErr ''x''))]"

theorem settlement_charges_outputs_only_witness:
  "used_tokens (ac_budget (sv_account_heap (sv_run sv_ctx failed_events sv_root) ! 1)) = 60 \<and>
   used_tokens (ac_budget (sv_account_heap (advance_task sv_ctx ''c'' 8 1 (sv_run sv_ctx failed_events sv_root)) ! 0)) = 0 \<and>
   ac_reserved_tokens (sv_account_heap (advance_task sv_ctx ''c'' 8 1 (sv_run sv_ctx failed_events sv_root)) ! 0) = 0"
proof -
  let ?s = "sv_run sv_ctx failed_events sv_root"
  have r: "sv_reach sv_ctx UNIV sv_root ?s" by (rule sv_run_reach) simp
  have "map_option (\<lambda>k. (ts_phase k, ts_parent_account k, max_tokens (cf_budget (ts_config k)))) (bt_get (sv_tasks ?s) ''c'') =
      Some (PhSettle (Err (SessionErr ''x'')), 0, 60)" by code_simp
  then obtain k where k: "bt_get (sv_tasks ?s) ''c'' = Some k" "ts_phase k = PhSettle (Err (SessionErr ''x''))"
    "ts_parent_account k = 0" "max_tokens (cf_budget (ts_config k)) = 60" by auto
  have u: "used_tokens (ac_budget (sv_account_heap ?s ! 0)) = 0" "ac_reserved_tokens (sv_account_heap ?s ! 0) = 60"
    "used_tokens (ac_budget (sv_account_heap ?s ! 1)) = 60" by code_simp+
  show ?thesis
    using settlement_charges_outputs_only[OF sv_ctx_keeps_ids sv_root_fresh r k(1,2), of 8 1] k(3,4) u
    by (auto simp: unat_eq_0)
qed

end
