(* ===== verification/Supervisor_Waits.thy ===== *)
theory Supervisor_Waits
  imports Supervisor_Lifecycle "HOL-Library.Multiset"
begin

text \<open>
  Waiting for children.  An open wait call is a cell with a sender, a pending timer and a registration
  with each child it waits for; the invariant of this book-keeping is stated on a view of the state
  (whether a child is over, who joins it, the bag of who waits for it), then carried to the operations.
  It gives that no call is forgotten: the end of a child answers whoever joined or waited for it, and a
  timer answers its call when no child did.
\<close>

section \<open>The wait board\<close>

lemma filter_replicate: "filter_mset P (replicate_mset n x) = (if P x then replicate_mset n x else {#})"
  by (induction n) simp_all

lemma distinct_map_remove1: "distinct (map f xs) \<Longrightarrow> distinct (map f (remove1 x xs))"
  by (induction xs) (auto dest: set_remove1_subset[THEN subsetD])

type_synonym board = "agent_id \<Rightarrow> (bool \<times> chan list \<times> child_waiter multiset) option"

fun timer_id :: "wait_timer \<Rightarrow> nat" where
  "timer_id (TimerSingle w _) = w"
| "timer_id (TimerAny w _) = w"

fun timer_of :: "wait_sender \<Rightarrow> child_waiter \<Rightarrow> wait_timer" where
  "timer_of (SenderSingle _) w = TimerSingle (cw_id w) (hd (cw_child_ids w))"
| "timer_of (SenderAny _) w = TimerAny (cw_id w) (cw_child_ids w)"

fun fits :: "wait_sender \<Rightarrow> child_waiter \<Rightarrow> bool" where
  "fits (SenderSingle _) w \<longleftrightarrow> length (cw_child_ids w) = 1"
| "fits (SenderAny _) w \<longleftrightarrow> cw_child_ids w \<noteq> []"

lemma timer_id_of [simp]: "timer_id (timer_of p w) = cw_id w"
  by (cases p) simp_all

definition waits_at :: "board \<Rightarrow> agent_id \<Rightarrow> child_waiter \<Rightarrow> bool" where
  "waits_at V c w \<longleftrightarrow> (\<exists>j ws. V c = Some (False, j, ws) \<and> w \<in># ws)"

definition called :: "(nat \<Rightarrow> wait_sender option) \<Rightarrow> wait_timer list \<Rightarrow> child_waiter \<Rightarrow> bool" where
  "called K T w \<longleftrightarrow> (\<exists>p. K (cw_id w) = Some p \<and> timer_of p w \<in> set T \<and> fits p w)"

definition board_ok :: "board \<Rightarrow> (nat \<Rightarrow> wait_sender option) \<Rightarrow> wait_timer list \<Rightarrow> nat \<Rightarrow> bool" where
  "board_ok V K T n \<longleftrightarrow>
     (\<forall>c j ws. V c = Some (True, j, ws) \<longrightarrow> j = [] \<and> ws = {#}) \<and>
     (\<forall>c w. waits_at V c w \<longrightarrow> c \<in> set (cw_child_ids w) \<and> called K T w) \<and>
     (\<forall>i. K i \<noteq> None \<longrightarrow> (\<exists>w. cw_id w = i \<and> called K T w \<and> (\<forall>c \<in> set (cw_child_ids w). waits_at V c w))) \<and>
     distinct (map timer_id T) \<and> (\<forall>t \<in> set T. timer_id t < n) \<and>
     (\<forall>i d c b j ws. TimerSingle i d \<in> set T \<longrightarrow> V c = Some (b, j, ws) \<longrightarrow> size (filter_mset (\<lambda>w. cw_id w = i) ws) \<le> 1)"

lemma board_okD:
  assumes "board_ok V K T n"
  shows "V c = Some (True, j, ws) \<Longrightarrow> j = [] \<and> ws = {#}"
    and "waits_at V c w \<Longrightarrow> c \<in> set (cw_child_ids w) \<and> called K T w"
    and "K i = Some p \<Longrightarrow> \<exists>w. cw_id w = i \<and> called K T w \<and> (\<forall>c \<in> set (cw_child_ids w). waits_at V c w)"
    and "distinct (map timer_id T)" "t \<in> set T \<Longrightarrow> timer_id t < n"
    and "TimerSingle i d \<in> set T \<Longrightarrow> V c = Some (b, j, ws) \<Longrightarrow> size (filter_mset (\<lambda>w. cw_id w = i) ws) \<le> 1"
  using assms unfolding board_ok_def by blast+

lemma called_unique:
  assumes "distinct (map timer_id T)" "called K T v" "called K T w" "cw_id v = cw_id w"
  shows "v = w"
proof -
  obtain p where p: "K (cw_id w) = Some p" "timer_of p w \<in> set T" "fits p w" using assms(3) by (auto simp: called_def)
  then have v: "timer_of p v \<in> set T" "fits p v" using assms(2,4) by (auto simp: called_def)
  have "timer_of p v = timer_of p w"
    using assms(1,4) v(1) p(2) inj_onD[of timer_id "set T" "timer_of p v" "timer_of p w"] by (simp add: distinct_map)
  then have "cw_child_ids v = cw_child_ids w"
    using v(2) p(3) by (cases p) (auto simp: length_Suc_conv)
  then show ?thesis using assms(4) by (cases v, cases w) simp
qed

text \<open>Calls are forgotten everywhere: when they were answered or when their timer fired.\<close>

definition forget :: "nat set \<Rightarrow> board \<Rightarrow> board" where
  "forget R V c = map_option (\<lambda>(b, j, ws). (b, j, filter_mset (\<lambda>w. cw_id w \<notin> R) ws)) (V c)"

lemma waits_at_forget: "waits_at (forget R V) c w \<longleftrightarrow> waits_at V c w \<and> cw_id w \<notin> R"
  by (cases "V c") (auto simp: waits_at_def forget_def)

lemma board_forget:
  assumes ok: "board_ok V K T n" and K': "\<And>i. K' i = (if i \<in> R then None else K i)"
    and T': "distinct (map timer_id T')" "set T' \<subseteq> set T" "\<And>t. t \<in> set T \<Longrightarrow> timer_id t \<notin> R \<Longrightarrow> t \<in> set T'"
  shows "board_ok (forget R V) K' T' n"
proof -
  note D = board_okD[OF ok]
  have called: "called K' T' w" if "called K T w" "cw_id w \<notin> R" for w
    using that T'(3) by (force simp: called_def K')
  have "j = [] \<and> ws = {#}" if "forget R V c = Some (True, j, ws)" for c j ws
    using that D(1) by (fastforce simp: forget_def)
  moreover have "c \<in> set (cw_child_ids w) \<and> called K' T' w" if "waits_at (forget R V) c w" for c w
    using D(2)[of c w] called[of w] that unfolding waits_at_forget by blast
  moreover have "\<exists>w. cw_id w = i \<and> called K' T' w \<and> (\<forall>c \<in> set (cw_child_ids w). waits_at (forget R V) c w)" if "K' i \<noteq> None" for i
  proof -
    have i: "i \<notin> R" "\<exists>p. K i = Some p" using that by (auto simp: K' split: if_splits)
    then obtain w where "cw_id w = i" "called K T w" "\<forall>c \<in> set (cw_child_ids w). waits_at V c w" using D(3) by blast
    then show ?thesis using i(1) called by (auto simp: waits_at_forget)
  qed
  moreover have "size (filter_mset (\<lambda>w. cw_id w = i) ws) \<le> 1"
    if t: "TimerSingle i d \<in> set T'" and f: "forget R V c = Some (b, j, ws)" for i d c b j ws
  proof -
    obtain ws0 where V: "V c = Some (b, j, ws0)" and ws: "ws = filter_mset (\<lambda>w. cw_id w \<notin> R) ws0"
      using f by (auto simp: forget_def)
    have "filter_mset (\<lambda>w. cw_id w = i) ws \<subseteq># filter_mset (\<lambda>w. cw_id w = i) ws0"
      unfolding ws by (rule multiset_filter_mono) simp
    moreover have "size (filter_mset (\<lambda>w. cw_id w = i) ws0) \<le> 1" using D(6)[OF _ V] t T'(2) by blast
    ultimately show ?thesis using size_mset_mono le_trans by blast
  qed
  ultimately show ?thesis using T'(1,2) D(5) unfolding board_ok_def by blast
qed

text \<open>Boards that differ in the joins of running children only, or in a child nobody waits for.\<close>

lemma board_point:
  assumes ok: "board_ok V K T n" and old: "\<And>w. \<not> waits_at V c w" and "\<And>b j ws. new = Some (b, j, ws) \<Longrightarrow> ws = {#} \<and> (b \<longrightarrow> j = [])"
  shows "board_ok (V(c := new)) K T n"
proof -
  have w: "waits_at (V(c := new)) d w = waits_at V d w" for d w
    using old by (cases "d = c") (auto simp: waits_at_def dest: assms(3))
  show ?thesis using ok assms(3) unfolding board_ok_def w by (auto split: if_splits dest: assms(3))
qed

lemma board_join:
  assumes ok: "board_ok V K T n" and c: "V c = Some (False, j, ws)"
  shows "board_ok (V(c \<mapsto> (False, j', ws))) K T n"
proof -
  have w: "waits_at (V(c \<mapsto> (False, j', ws))) d w = waits_at V d w" for d w
    using c by (cases "d = c") (auto simp: waits_at_def)
  show ?thesis using ok c unfolding board_ok_def w by (auto split: if_splits)
qed

text \<open>A new call with its timer.\<close>

definition register :: "child_waiter \<Rightarrow> board \<Rightarrow> board" where
  "register w V c = map_option (\<lambda>(b, j, ws). (b, j, ws + replicate_mset (count_list (cw_child_ids w) c) w)) (V c)"

lemma waits_at_register:
  "waits_at (register w V) c v \<longleftrightarrow> waits_at V c v \<or> (v = w \<and> c \<in> set (cw_child_ids w) \<and> (\<exists>j ws. V c = Some (False, j, ws)))"
  by (cases "V c") (auto simp: waits_at_def register_def count_list_0_iff split: if_splits)

lemma board_register:
  assumes ok: "board_ok V K T n" and w: "cw_id w = n" "fits p w"
    and alive: "\<And>c. c \<in> set (cw_child_ids w) \<Longrightarrow> \<exists>j ws. V c = Some (False, j, ws)"
  shows "board_ok (register w V) (K(n \<mapsto> p)) (T @ [timer_of p w]) (n + 1)"
proof -
  note D = board_okD[OF ok]
  have lt: "timer_id t < n" if "t \<in> set T" for t using D(5)[OF that] .
  have old: "cw_id v \<noteq> n \<and> called (K(n \<mapsto> p)) (T @ [timer_of p w]) v" if v: "called K T v" for v
  proof -
    obtain q where q: "K (cw_id v) = Some q" "timer_of q v \<in> set T" "fits q v" using v by (auto simp: called_def)
    then have "cw_id v < n" using lt[OF q(2)] by simp
    then show ?thesis using q by (auto simp: called_def)
  qed
  have new: "called (K(n \<mapsto> p)) (T @ [timer_of p w]) w" using w by (simp add: called_def)
  have "j = [] \<and> ws = {#}" if r: "register w V c = Some (True, j, ws)" for c j ws
  proof -
    obtain ws0 where V: "V c = Some (True, j, ws0)" and ws: "ws = ws0 + replicate_mset (count_list (cw_child_ids w) c) w"
      using r by (auto simp: register_def)
    then have "c \<notin> set (cw_child_ids w)" using alive by fastforce
    then show ?thesis using D(1)[OF V] ws by (simp add: count_list_0_iff)
  qed
  moreover have "c \<in> set (cw_child_ids v) \<and> called (K(n \<mapsto> p)) (T @ [timer_of p w]) v" if "waits_at (register w V) c v" for c v
    using that D(2)[of c v] old[of v] new unfolding waits_at_register by blast
  moreover have "\<exists>v. cw_id v = i \<and> called (K(n \<mapsto> p)) (T @ [timer_of p w]) v \<and>
      (\<forall>c \<in> set (cw_child_ids v). waits_at (register w V) c v)" if k: "(K(n \<mapsto> p)) i \<noteq> None" for i
  proof (cases "i = n")
    case True
    then show ?thesis using new w alive by (intro exI[of _ w]) (simp add: waits_at_register)
  next
    case False
    then obtain q where "K i = Some q" using k by auto
    then show ?thesis using D(3)[of i q] old unfolding waits_at_register by blast
  qed
  moreover have "distinct (map timer_id (T @ [timer_of p w]))" using D(4) w by (auto dest: lt)
  moreover have "timer_id t < n + 1" if "t \<in> set (T @ [timer_of p w])" for t
    using that w(1) lt[of t] by (cases "t \<in> set T") simp_all
  moreover have "size (filter_mset (\<lambda>v. cw_id v = i) ws) \<le> 1"
    if T: "TimerSingle i d \<in> set (T @ [timer_of p w])" and V: "register w V c = Some (b, j, ws)" for i d c b j ws
  proof -
    obtain ws0 where V0: "V c = Some (b, j, ws0)" and ws: "ws = ws0 + replicate_mset (count_list (cw_child_ids w) c) w"
      using V by (auto simp: register_def)
    show ?thesis
    proof (cases "TimerSingle i d \<in> set T")
      case True
      then have "cw_id w \<noteq> i" using lt w by force
      then show ?thesis using D(6)[OF True V0] by (simp add: ws filter_replicate)
    next
      case False
      then have t: "timer_of p w = TimerSingle i d" using T by simp
      then have i: "i = n" and one: "length (cw_child_ids w) = 1" using w by (cases p; auto)+
      have none: "cw_id v \<noteq> n" if "v \<in># ws0" for v
      proof (cases b)
        case True
        then show ?thesis using D(1) V0 that by force
      next
        case False
        then have "waits_at V c v" using V0 that by (simp add: waits_at_def)
        then show ?thesis using D(2) old by blast
      qed
      have z: "filter_mset (\<lambda>v. cw_id v = n) ws0 = {#}" using none by simp
      have "count_list (cw_child_ids w) c \<le> 1" using count_le_length[of "cw_child_ids w" c] one by simp
      then show ?thesis unfolding ws i filter_union_mset z by (simp add: filter_replicate)
    qed
  qed
  ultimately show ?thesis unfolding board_ok_def by blast
qed

section \<open>The board of a supervisor\<close>

definition board_of :: "('j, 'v, 'd) supervisor \<Rightarrow> board" where
  "board_of s c = map_option (\<lambda>st. (rs_result st \<noteq> None, rs_join_waiters st, mset (rs_wait_waiters st))) (bt_get (sv_results s) c)"

lemma board_of_updates [simp]:
  "board_of (s\<lparr>sv_wait_counter := n\<rparr>) = board_of s" "board_of (s\<lparr>sv_wait_cells := w\<rparr>) = board_of s"
  "board_of (s\<lparr>sv_timers := ts\<rparr>) = board_of s"
  by (simp_all add: board_of_def fun_eq_iff)

definition pane where
  "pane s = (board_of s, bt_get (sv_wait_cells s), sv_timers s, sv_wait_counter s)"

definition waits_ok :: "('j, 'v, 'd) supervisor \<Rightarrow> bool" where
  "waits_ok s \<longleftrightarrow> board_ok (board_of s) (bt_get (sv_wait_cells s)) (sv_timers s) (sv_wait_counter s)"

named_theorems pane_simps \<open>operations that leave the waits alone\<close>

lemma pane_waits: "pane s' = pane s \<Longrightarrow> waits_ok s' = waits_ok s"
  by (simp add: pane_def waits_ok_def)

lemma pane_same:
  "sv_results s' = sv_results s \<Longrightarrow> sv_wait_cells s' = sv_wait_cells s \<Longrightarrow> sv_timers s' = sv_timers s \<Longrightarrow>
   sv_wait_counter s' = sv_wait_counter s \<Longrightarrow> pane s' = pane s"
  by (simp add: pane_def board_of_def fun_eq_iff)

lemma pane_send [pane_simps]: "pane (snd (send_reply ch r s)) = pane s"
  by (rule pane_same) (simp_all add: send_reply_def)

lemma pane_sendD: "send_reply ch r s = (b, s1) \<Longrightarrow> pane s1 = pane s"
  using pane_send[of ch r s] by simp

lemma pane_respond [pane_simps]: "pane (respond ch r s) = pane s"
  by (simp add: respond_def pane_send)

lemma board_update_child:
  "board_of (update_child c f s) = (board_of s)(c := map_option (\<lambda>st. (rs_result (f st) \<noteq> None, rs_join_waiters (f st),
     mset (rs_wait_waiters (f st)))) (bt_get (sv_results s) c))"
  by (auto simp: board_of_def update_child_def fun_eq_iff bt_simps split: option.split)

lemma update_child_fields:
  "sv_wait_cells (update_child c f s) = sv_wait_cells s" "sv_timers (update_child c f s) = sv_timers s"
  "sv_wait_counter (update_child c f s) = sv_wait_counter s"
  by (simp_all add: update_child_def split: option.split)

lemma pane_mark [pane_simps]: "pane (mark_delivered c s) = pane s"
  by (auto simp: mark_delivered_def pane_def board_update_child update_child_fields board_of_def fun_eq_iff)

lemma pane_deliver [pane_simps]: "pane (deliver_to ch r c s) = pane s"
  by (auto simp: deliver_to_def pane_simps dest: pane_sendD split: prod.split)

lemma pane_status [pane_simps]: "pane (send_child_status now c ch s) = pane s"
  by (auto simp: send_child_status_def pane_simps dest: pane_sendD split: option.split prod.split)

lemma bt_get_map: "bt_get (map (\<lambda>(c, st). (c, f st)) m) c = map_option f (bt_get m c)"
  by (simp add: bt_get_def map_of_map)

lemma pane_roster [pane_simps]: "pane (send_child_roster now caller ch s) = pane s"
proof (cases "validate_caller_identity s caller")
  case (Inr u)
  let ?r = "RRoster (Ok (sort_key re_child_id (map (roster_entry_from_state now) (filter (owned_by caller) (map snd (sv_results s))))))"
  obtain b s1 where p: "send_reply ch ?r s = (b, s1)" by fastforce
  have s1: "pane s1 = pane s" using pane_sendD[OF p] .
  let ?s = "s1\<lparr>sv_results := map (\<lambda>(c, st). (c, if owned_by caller st \<and> rs_result st \<noteq> None
    then st\<lparr>rs_delivered := True\<rparr> else st)) (sv_results s1)\<rparr>"
  have "board_of ?s = board_of s1"
    by (auto simp: board_of_def bt_get_map fun_eq_iff option.map_comp comp_def intro!: option.map_cong split: if_splits)
  then have "pane ?s = pane s1" by (simp add: pane_def)
  then show ?thesis using Inr p s1 by (simp add: send_child_roster_def Let_def)
qed (simp add: send_child_roster_def pane_simps)

lemma pane_inspection [pane_simps]: "pane (send_child_roster_inspection now ch s) = pane s"
  by (simp add: send_child_roster_inspection_def pane_simps)

lemma pane_control [pane_simps]:
  "pane (snd (cancel_child c s)) = pane s" "pane (snd (steer_child c m s)) = pane s" "pane (signal_token a s) = pane s"
  by (auto simp: cancel_child_def steer_child_def enqueue_input_def signal_token_def intro!: pane_same
      split: option.split prod.split bool.split)

lemma pane_owner: "pane (snd act) = pane s \<Longrightarrow> pane (respond_done ch (owner_only s caller c act)) = pane s"
  by (simp add: respond_done_def owner_only_def pane_simps split: sum.split)

lemma waits_respond [simp]: "waits_ok (respond ch r s) = waits_ok s"
  by (rule pane_waits) (rule pane_respond)

section \<open>Operations on waits\<close>

lemma board_Some: "bt_get (sv_results s) c = Some st \<Longrightarrow>
  board_of s c = Some (rs_result st \<noteq> None, rs_join_waiters st, mset (rs_wait_waiters st))"
  by (simp add: board_of_def)

lemma join_waits:
  assumes "waits_ok s"
  shows "waits_ok (join_child c ch s)"
proof (cases "bt_get (sv_results s) c")
  case (Some st)
  show ?thesis
  proof (cases "rs_result st")
    case None
    let ?s = "update_child c (\<lambda>x. x\<lparr>rs_join_waiters := rs_join_waiters x @ [ch]\<rparr>) s"
    have "board_of ?s = (board_of s)(c \<mapsto> (False, rs_join_waiters st @ [ch], mset (rs_wait_waiters st)))"
      using Some None by (simp add: board_update_child)
    moreover have "board_of s c = Some (False, rs_join_waiters st, mset (rs_wait_waiters st))"
      using board_Some[OF Some] None by simp
    ultimately have "waits_ok ?s" using assms board_join[of "board_of s"] by (simp add: waits_ok_def update_child_fields)
    then show ?thesis using Some None by (simp add: join_child_def)
  next
    case (Some t)
    have "waits_ok (deliver_to ch (RJoin (Ok t)) c s) = waits_ok s" by (rule pane_waits) (rule pane_deliver)
    then show ?thesis using \<open>bt_get (sv_results s) c = Some st\<close> Some assms by (simp add: join_child_def)
  qed
qed (use assms in \<open>simp add: join_child_def\<close>)

text \<open>Registering a call with each of its children.\<close>

lemma board_push_fold:
  "board_of (fold (\<lambda>c. update_child c (push_waiter w)) cs s) d =
     map_option (\<lambda>(b, j, ws). (b, j, ws + replicate_mset (count_list cs d) w)) (board_of s d)"
proof (induction cs arbitrary: s)
  case (Cons c cs)
  have "board_of (update_child c (push_waiter w) s) d =
      map_option (\<lambda>(b, j, ws). (b, j, ws + (if d = c then {#w#} else {#}))) (board_of s d)"
    by (cases "bt_get (sv_results s) d") (auto simp: board_update_child push_waiter_def board_of_def)
  then show ?case using Cons.IH[of "update_child c (push_waiter w) s"] by (cases "board_of s d") auto
qed (simp add: option.map_id)

lemma fold_fields:
  "sv_wait_cells (fold (\<lambda>c. update_child c (f c)) cs s) = sv_wait_cells s"
  "sv_timers (fold (\<lambda>c. update_child c (f c)) cs s) = sv_timers s"
  "sv_wait_counter (fold (\<lambda>c. update_child c (f c)) cs s) = sv_wait_counter s"
  by (induction cs arbitrary: s) (simp_all add: update_child_fields)

lemma register_waits:
  assumes ok: "waits_ok s" and p: "fits p w" "cw_id w = sv_wait_counter s"
    and alive: "\<And>c. c \<in> set (cw_child_ids w) \<Longrightarrow> \<exists>st. bt_get (sv_results s) c = Some st \<and> rs_result st = None"
  shows "waits_ok (fold (\<lambda>c. update_child c (push_waiter w)) (cw_child_ids w)
    (s\<lparr>sv_wait_counter := cw_id w + 1, sv_wait_cells := bt_insert (cw_id w) p (sv_wait_cells s),
       sv_timers := sv_timers s @ [timer_of p w]\<rparr>))" (is "waits_ok (fold _ _ ?s)")
proof -
  have "board_of (fold (\<lambda>c. update_child c (push_waiter w)) (cw_child_ids w) ?s) = register w (board_of s)"
    by (rule ext) (simp add: board_push_fold register_def)
  moreover have "\<exists>j ws. board_of s c = Some (False, j, ws)" if "c \<in> set (cw_child_ids w)" for c
    using alive[OF that] board_Some by fastforce
  ultimately show ?thesis
    using board_register[of "board_of s" _ _ "sv_wait_counter s" w p] ok p
    by (simp add: waits_ok_def fold_fields bt_simps)
qed

lemma wait_child_waits:
  assumes "waits_ok s"
  shows "waits_ok (wait_child c timeout ch s)"
proof (cases "bt_get (sv_results s) c")
  case (Some st)
  show ?thesis
  proof (cases "rs_result st")
    case None
    let ?w = "\<lparr>cw_id = sv_wait_counter s, cw_child_ids = [c]\<rparr>"
    show ?thesis
      using register_waits[OF assms, of "SenderSingle ch" ?w] Some None assms
      by (simp add: wait_child_def Let_def)
  next
    case (Some t)
    have "waits_ok (deliver_to ch (RWait (Ok (wait_result_terminal t))) c s) = waits_ok s"
      by (rule pane_waits) (rule pane_deliver)
    then show ?thesis using \<open>bt_get (sv_results s) c = Some st\<close> Some assms by (simp add: wait_child_def)
  qed
qed (use assms in \<open>simp add: wait_child_def\<close>)

lemma first_terminal_None:
  "first_terminal s cs = None \<Longrightarrow> c \<in> set cs \<Longrightarrow> bt_get (sv_results s) c = Some st \<Longrightarrow> rs_result st = None"
proof (cases "filter (\<lambda>c. Option.bind (bt_get (sv_results s) c) rs_result \<noteq> None) cs")
  case (Cons x xs)
  assume f: "first_terminal s cs = None"
  have "x \<in> set (filter (\<lambda>c. Option.bind (bt_get (sv_results s) c) rs_result \<noteq> None) cs)" by (simp only: Cons list.set_intros)
  then have "Option.bind (bt_get (sv_results s) x) rs_result \<noteq> None" by simp
  then show ?thesis using f unfolding first_terminal_def Cons list.case by simp
qed (auto simp: filter_empty_conv)

lemma wait_children_waits:
  assumes "waits_ok s"
  shows "waits_ok (wait_children cs timeout ch s)"
proof (cases "cs = [] \<or> (\<exists>c \<in> set cs. \<not> bt_contains (sv_results s) c)")
  case True
  then show ?thesis using assms
    by (auto simp: wait_children_def find_None_iff split: option.split)
next
  case False
  then have known: "find (\<lambda>c. \<not> bt_contains (sv_results s) c) cs = None" by (simp add: find_None_iff)
  show ?thesis
  proof (cases "first_terminal s cs")
    case None
    let ?w = "\<lparr>cw_id = sv_wait_counter s, cw_child_ids = cs\<rparr>"
    have "\<exists>st. bt_get (sv_results s) c = Some st \<and> rs_result st = None" if "c \<in> set cs" for c
      using False that first_terminal_None[OF None that] by (auto simp: bt_contains_def)
    then show ?thesis
      using register_waits[OF assms, of "SenderAny ch" ?w] False known None assms
      by (simp add: wait_children_def Let_def)
  next
    case (Some q)
    obtain c t where q: "q = (c, t)" by fastforce
    have "waits_ok (deliver_to ch (RWaitAny (Ok (wait_children_result_terminal cs t))) c s) = waits_ok s"
      by (rule pane_waits) (rule pane_deliver)
    then show ?thesis using Some False known assms by (simp add: wait_children_def q)
  qed
qed

section \<open>Timers\<close>

lemma position_Some: "position P xs = Some i \<Longrightarrow> i < length xs \<and> P (xs ! i)"
  by (induction xs arbitrary: i) (auto split: if_splits)

lemma position_None: "position P xs = None \<longleftrightarrow> (\<forall>x \<in> set xs. \<not> P x)"
  by (induction xs) auto

lemma mset_swap_remove: "i < length xs \<Longrightarrow> mset (swap_remove xs i) = mset xs - {#xs ! i#}"
proof (cases "i + 1 < length xs")
  case True
  obtain ys z where xs: "xs = ys @ [z]" using True by (cases xs rule: rev_cases) auto
  then have i: "i < length ys" using True by simp
  have "swap_remove xs i = ys[i := z]" using True i by (simp add: swap_remove_def xs list_update_append butlast_append)
  then show ?thesis using i by (simp add: xs mset_update nth_append)
next
  case False
  assume "i < length xs"
  then obtain ys z where xs: "xs = ys @ [z]" "i = length ys" using False by (cases xs rule: rev_cases) auto
  then show ?thesis by (simp add: swap_remove_def)
qed

lemma filter_out_single:
  assumes "size (filter_mset P M) \<le> 1" "x \<in># M" "P x"
  shows "filter_mset (\<lambda>y. \<not> P y) M = M - {#x#}"
proof -
  have "filter_mset P M = {#x#}"
  proof -
    have x: "x \<in># filter_mset P M" using assms(2,3) by simp
    then obtain N where N: "filter_mset P M = add_mset x N" by (metis insert_DiffM)
    then show ?thesis using assms(1) by simp
  qed
  then show ?thesis using multiset_partition[of M P] by (metis add_diff_cancel_left')
qed

lemma board_remove_nth:
  assumes "bt_get (sv_results s) c = Some st" "i < length (rs_wait_waiters st)"
  shows "board_of (update_child c (\<lambda>x. x\<lparr>rs_wait_waiters := swap_remove (rs_wait_waiters x) i\<rparr>) s) =
    (board_of s)(c \<mapsto> (rs_result st \<noteq> None, rs_join_waiters st, mset (rs_wait_waiters st) - {#rs_wait_waiters st ! i#}))"
  using assms by (simp add: board_update_child mset_swap_remove)

lemma board_retain_fold:
  "board_of (fold (\<lambda>c. update_child c (retain_others wid)) cs s) d =
     (if d \<in> set cs then forget {wid} (board_of s) d else board_of s d)"
proof (induction cs arbitrary: s)
  case (Cons c cs)
  let ?s = "update_child c (retain_others wid) s"
  have b: "board_of ?s d = (if d = c then forget {wid} (board_of s) d else board_of s d)"
    by (cases "bt_get (sv_results s) d") (auto simp: board_update_child retain_others_def board_of_def forget_def)
  have "forget {wid} (forget {wid} (board_of s)) d = forget {wid} (board_of s) d"
    by (cases "board_of s d") (simp_all add: forget_def filter_filter_mset split: prod.split)
  moreover have "forget {wid} (board_of ?s) d = (if d = c then forget {wid} (forget {wid} (board_of s)) d else forget {wid} (board_of s) d)"
    unfolding forget_def[of _ "board_of ?s"] b by (simp add: forget_def)
  ultimately show ?case using Cons.IH[of ?s] b by (cases "d = c") (simp_all split: if_splits)
qed simp

lemma board_filter_none:
  assumes "\<And>b j ws w. V c = Some (b, j, ws) \<Longrightarrow> w \<in># ws \<Longrightarrow> cw_id w \<notin> R"
  shows "forget R V c = V c"
proof (cases "V c")
  case (Some q)
  obtain b j ws where q: "q = (b, j, ws)" by (cases q) auto
  have "filter_mset (\<lambda>w. cw_id w \<notin> R) ws = filter_mset (\<lambda>_. True) ws"
    by (rule filter_mset_cong) (use assms[OF Some[unfolded q]] in simp_all)
  then show ?thesis by (simp add: forget_def Some q)
qed (simp add: forget_def)

text \<open>An open or pending single call is registered nowhere but with its child.\<close>

lemma waiter_elsewhere:
  assumes ok: "board_ok V K T n" and V: "V d = Some (b, j, ws)" and w: "w \<in># ws"
  shows "waits_at V d w" "d \<in> set (cw_child_ids w)" "called K T w"
proof -
  have b: "\<not> b"
  proof
    assume b
    then show False using board_okD(1)[OF ok, of d j ws] V w by simp
  qed
  then show at: "waits_at V d w" using V w by (simp add: waits_at_def)
  show "d \<in> set (cw_child_ids w)" "called K T w" using board_okD(2)[OF ok at] by simp_all
qed

lemma timer_waiter:
  assumes ok: "board_ok V K T n" and t: "t \<in> set T" and w: "called K T w" "cw_id w = timer_id t"
  shows "case t of TimerSingle _ c \<Rightarrow> cw_child_ids w = [c] | TimerAny _ cs \<Rightarrow> cw_child_ids w = cs"
proof -
  obtain p where p: "K (cw_id w) = Some p" "timer_of p w \<in> set T" "fits p w" using w(1) by (auto simp: called_def)
  have "timer_of p w = t"
    using board_okD(4)[OF ok] t p(2) w(2) inj_onD[of timer_id "set T" "timer_of p w" t] by (simp add: distinct_map)
  then show ?thesis using p(3) by (cases p; cases t) (auto simp: length_Suc_conv)
qed

lemma waits_drop_timer:
  assumes ok: "waits_ok s" and t: "t \<in> set (sv_timers s)"
    and b: "board_of s' = forget {timer_id t} (board_of s)"
    and k: "bt_get (sv_wait_cells s') = (bt_get (sv_wait_cells s))(timer_id t := None)"
    and ts: "sv_timers s' = remove1 t (sv_timers s)" and n: "sv_wait_counter s' = sv_wait_counter s"
  shows "waits_ok s'"
proof -
  have ok': "board_ok (board_of s) (bt_get (sv_wait_cells s)) (sv_timers s) (sv_wait_counter s)"
    using ok by (simp add: waits_ok_def)
  have d: "distinct (map timer_id (sv_timers s))" using board_okD(4)[OF ok'] .
  have "distinct (map timer_id (remove1 t (sv_timers s)))"
    using d by (rule distinct_map_remove1)
  moreover have "x \<in> set (remove1 t (sv_timers s))" if "x \<in> set (sv_timers s)" "timer_id x \<notin> {timer_id t}" for x
    using that by (cases "x = t") (simp_all add: in_set_remove1)
  ultimately show ?thesis
    unfolding waits_ok_def b ts n
    by (intro board_forget[OF ok']) (simp_all add: k set_remove1_subset)
qed

lemma closed_call:
  assumes ok: "board_ok V K T n" and "K i = None"
  shows "forget {i} V = V" "K(i := None) = K"
proof -
  have "cw_id w \<notin> {i}" if "V d = Some (b, j, ws)" "w \<in># ws" for d b j ws w
    using waiter_elsewhere(3)[OF ok that] assms(2) by (auto simp: called_def)
  then show "forget {i} V = V" by (intro ext board_filter_none)
qed (use assms(2) in auto)

fun sender_chan :: "wait_sender \<Rightarrow> chan" where
  "sender_chan (SenderSingle ch) = ch"
| "sender_chan (SenderAny ch) = ch"

fun not_ready :: "('v, 'd) reply \<Rightarrow> bool" where
  "not_ready (RWait (Inr r)) \<longleftrightarrow> \<not> wr_ready r"
| "not_ready (RWaitAny (Inr r)) \<longleftrightarrow> \<not> wa_ready r"
| "not_ready _ \<longleftrightarrow> False"

definition answered :: "('j, 'v, 'd) supervisor \<Rightarrow> chan \<Rightarrow> (('v, 'd) reply \<Rightarrow> bool) \<Rightarrow> bool" where
  "answered s ch P \<longleftrightarrow> ch \<in> set (sv_dropped s) \<or> (\<exists>r. (ch, r) \<in> set (sv_replies s) \<and> P r)"

lemma answered_respond: "P r \<Longrightarrow> answered (respond ch r s) ch P"
  by (auto simp: answered_def respond_def send_reply_def)

lemma single_timer:
  assumes ok: "waits_ok s" and t: "TimerSingle wid c \<in> set (sv_timers s)"
  defines "s' \<equiv> single_timeout wid c (s\<lparr>sv_timers := remove1 (TimerSingle wid c) (sv_timers s)\<rparr>)"
  shows "waits_ok s'" "bt_get (sv_wait_cells s') = (bt_get (sv_wait_cells s))(wid := None)"
    "bt_get (sv_wait_cells s) wid = Some p \<Longrightarrow> answered s' (sender_chan p) not_ready"
proof -
  let ?V = "board_of s" and ?K = "bt_get (sv_wait_cells s)" and ?T = "sv_timers s"
  have ok': "board_ok ?V ?K ?T (sv_wait_counter s)" using ok by (simp add: waits_ok_def)
  let ?s1 = "s\<lparr>sv_timers := remove1 (TimerSingle wid c) (sv_timers s)\<rparr>"
  have "waits_ok s' \<and> bt_get (sv_wait_cells s') = ?K(wid := None) \<and> (\<forall>p. ?K wid = Some p \<longrightarrow> answered s' (sender_chan p) not_ready)"
  proof (cases "\<exists>st. bt_get (sv_results s) c = Some st \<and> (\<exists>w \<in> set (rs_wait_waiters st). cw_id w = wid)")
    case False
    have none: "?K wid = None"
    proof (rule ccontr)
      assume "?K wid \<noteq> None"
      then obtain w where w: "cw_id w = wid" "called ?K ?T w" "\<forall>d \<in> set (cw_child_ids w). waits_at ?V d w"
        using board_okD(3)[OF ok'] by blast
      then have "cw_child_ids w = [c]" using timer_waiter[OF ok' t w(2)] by simp
      then have "waits_at ?V c w" using w(3) by simp
      then show False using False w(1) by (auto simp: waits_at_def board_of_def)
    qed
    have "s' = ?s1"
    proof (cases "bt_get (sv_results s) c")
      case (Some st)
      then have "position (\<lambda>w. cw_id w = wid) (rs_wait_waiters st) = None" using False by (auto simp: position_None)
      then show ?thesis using Some by (simp add: s'_def single_timeout_def)
    qed (simp add: s'_def single_timeout_def)
    moreover from this have "waits_ok s'"
      by (intro waits_drop_timer[OF ok t]) (simp_all add: closed_call[OF ok' none] none)
    ultimately show ?thesis using closed_call(2)[OF ok' none] none by simp
  next
    case True
    then obtain st where st: "bt_get (sv_results s) c = Some st" "\<exists>w \<in> set (rs_wait_waiters st). cw_id w = wid" by blast
    then obtain i where i: "position (\<lambda>w. cw_id w = wid) (rs_wait_waiters st) = Some i"
      by (cases "position (\<lambda>w. cw_id w = wid) (rs_wait_waiters st)") (auto simp: position_None)
    let ?w = "rs_wait_waiters st ! i"
    have il: "i < length (rs_wait_waiters st)" "cw_id ?w = wid" using position_Some[OF i] by simp_all
    have Vc: "?V c = Some (rs_result st \<noteq> None, rs_join_waiters st, mset (rs_wait_waiters st))" using board_Some[OF st(1)] .
    have wm: "?w \<in># mset (rs_wait_waiters st)" using il by simp
    note W = waiter_elsewhere[OF ok' Vc wm]
    have ids: "cw_child_ids ?w = [c]" using timer_waiter[OF ok' t W(3)] il(2) by simp
    obtain q where q: "?K wid = Some q" "timer_of q ?w \<in> set ?T" "fits q ?w" using W(3) il(2) by (auto simp: called_def)
    have "timer_of q ?w = TimerSingle wid c"
      using board_okD(4)[OF ok'] t q(2) il(2) inj_onD[of timer_id "set ?T" "timer_of q ?w" "TimerSingle wid c"] by (simp add: distinct_map)
    then obtain ch where ch: "q = SenderSingle ch" by (cases q) auto
    let ?u = "update_child c (\<lambda>x. x\<lparr>rs_wait_waiters := swap_remove (rs_wait_waiters x) i\<rparr>) ?s1"
    let ?v = "?u\<lparr>sv_wait_cells := bt_remove wid (sv_wait_cells s)\<rparr>"
    have s': "s' = respond ch (RWait (Ok (wait_result_running (rs_metadata st)))) ?v"
      unfolding s'_def using st(1) i q(1) ch by (simp add: single_timeout_def take_sender_def update_child_fields)
    have "board_of ?v d = forget {wid} ?V d" for d
    proof (cases "d = c")
      case True
      have "filter_mset (\<lambda>w. cw_id w \<noteq> wid) (mset (rs_wait_waiters st)) = mset (rs_wait_waiters st) - {#?w#}"
        using filter_out_single[OF board_okD(6)[OF ok' t Vc] wm] il(2) by simp
      then show ?thesis using True board_remove_nth[of ?s1 c st i] st(1) il(1) Vc by (simp add: forget_def)
    next
      case False
      have "forget {wid} ?V d = ?V d"
      proof (rule board_filter_none)
        show "cw_id w \<notin> {wid}" if V: "?V d = Some (b, j, ws)" "w \<in># ws" for b j ws w
        proof
          note E = waiter_elsewhere[OF ok' V]
          assume "cw_id w \<in> {wid}"
          then have "cw_child_ids w = [c]" using timer_waiter[OF ok' t E(3)] by simp
          then show False using E(2) False by simp
        qed
      qed
      then show ?thesis using False board_remove_nth[of ?s1 c st i] st(1) il(1) by simp
    qed
    then have "waits_ok ?v"
      by (intro waits_drop_timer[OF ok t]) (auto simp: update_child_fields bt_simps)
    then have "waits_ok s'" unfolding s' by simp
    moreover have "bt_get (sv_wait_cells s') = ?K(wid := None)"
      using pane_respond[of ch _ ?v] by (simp add: s' pane_def bt_simps respond_def send_reply_def)
    moreover have "answered s' ch not_ready" unfolding s' by (rule answered_respond) (simp add: wait_result_running_def)
    ultimately show ?thesis using q(1) ch by simp
  qed
  then show "waits_ok s'" "bt_get (sv_wait_cells s') = (bt_get (sv_wait_cells s))(wid := None)"
    "bt_get (sv_wait_cells s) wid = Some p \<Longrightarrow> answered s' (sender_chan p) not_ready" by blast+
qed

lemma any_timer:
  assumes ok: "waits_ok s" and t: "TimerAny wid cs \<in> set (sv_timers s)"
  defines "s' \<equiv> any_timeout wid cs (s\<lparr>sv_timers := remove1 (TimerAny wid cs) (sv_timers s)\<rparr>)"
  shows "waits_ok s'" "bt_get (sv_wait_cells s') = (bt_get (sv_wait_cells s))(wid := None)"
    "bt_get (sv_wait_cells s) wid = Some p \<Longrightarrow> answered s' (sender_chan p) not_ready"
proof -
  let ?V = "board_of s" and ?K = "bt_get (sv_wait_cells s)" and ?T = "sv_timers s"
  have ok': "board_ok ?V ?K ?T (sv_wait_counter s)" using ok by (simp add: waits_ok_def)
  let ?s1 = "s\<lparr>sv_timers := remove1 (TimerAny wid cs) (sv_timers s)\<rparr>"
  let ?u = "fold (\<lambda>c. update_child c (retain_others wid)) cs ?s1"
  let ?v = "?u\<lparr>sv_wait_cells := bt_remove wid (sv_wait_cells s)\<rparr>"
  have take: "take_sender wid ?u = (?K wid, ?v)" by (simp add: take_sender_def fold_fields)
  have "board_of ?v d = forget {wid} ?V d" for d
  proof (cases "d \<in> set cs")
    case True
    then show ?thesis by (simp add: board_retain_fold)
  next
    case False
    have "forget {wid} ?V d = ?V d"
    proof (rule board_filter_none)
      show "cw_id w \<notin> {wid}" if V: "?V d = Some (b, j, ws)" "w \<in># ws" for b j ws w
      proof
        note E = waiter_elsewhere[OF ok' V]
        assume "cw_id w \<in> {wid}"
        then have "cw_child_ids w = cs" using timer_waiter[OF ok' t E(3)] by simp
        then show False using E(2) False by simp
      qed
    qed
    then show ?thesis using False by (simp add: board_retain_fold)
  qed
  then have v: "waits_ok ?v" by (intro waits_drop_timer[OF ok t]) (auto simp: fold_fields bt_simps)
  have "waits_ok s' \<and> bt_get (sv_wait_cells s') = ?K(wid := None) \<and> (\<forall>p. ?K wid = Some p \<longrightarrow> answered s' (sender_chan p) not_ready)"
  proof (cases "?K wid")
    case None
    then have "s' = ?v" unfolding s'_def any_timeout_def take by simp
    then show ?thesis using v None by (simp add: bt_simps)
  next
    case (Some p)
    obtain w where w: "cw_id w = wid" "called ?K ?T w" using board_okD(3)[OF ok' Some] by blast
    then have "timer_of p w \<in> set ?T" using Some by (simp add: called_def)
    then have "timer_of p w = TimerAny wid cs"
      using board_okD(4)[OF ok'] t w(1) inj_onD[of timer_id "set ?T" "timer_of p w" "TimerAny wid cs"] by (simp add: distinct_map)
    then obtain ch where ch: "p = SenderAny ch" by (cases p) auto
    have s': "s' = respond ch (RWaitAny (Ok (wait_children_result_running cs))) ?v"
      unfolding s'_def any_timeout_def take Some ch by simp
    have "answered s' ch not_ready" unfolding s' by (rule answered_respond) (simp add: wait_children_result_running_def)
    moreover have "bt_get (sv_wait_cells s') = ?K(wid := None)"
      by (simp add: s' respond_def send_reply_def bt_simps)
    moreover have "waits_ok s'" unfolding s' using v by simp
    ultimately show ?thesis using Some ch by simp
  qed
  then show "waits_ok s'" "bt_get (sv_wait_cells s') = (bt_get (sv_wait_cells s))(wid := None)"
    "bt_get (sv_wait_cells s) wid = Some p \<Longrightarrow> answered s' (sender_chan p) not_ready" by blast+
qed

lemma run_timer_waits:
  assumes ok: "waits_ok s" and t: "t \<in> set (sv_timers s)"
  shows "waits_ok (run_timer t s)" "bt_get (sv_wait_cells (run_timer t s)) (timer_id t) = None"
    "bt_get (sv_wait_cells s) (timer_id t) = Some p \<Longrightarrow> answered (run_timer t s) (sender_chan p) not_ready"
proof -
  have "waits_ok (run_timer t s) \<and> bt_get (sv_wait_cells (run_timer t s)) (timer_id t) = None \<and>
    (bt_get (sv_wait_cells s) (timer_id t) = Some p \<longrightarrow> answered (run_timer t s) (sender_chan p) not_ready)"
  proof (cases t)
    case (TimerSingle wid c)
    show ?thesis using single_timer[OF ok t[unfolded TimerSingle]] t by (simp add: run_timer_def TimerSingle)
  next
    case (TimerAny wid cs)
    show ?thesis using any_timer[OF ok t[unfolded TimerAny]] t by (simp add: run_timer_def TimerAny)
  qed
  then show "waits_ok (run_timer t s)" "bt_get (sv_wait_cells (run_timer t s)) (timer_id t) = None"
    "bt_get (sv_wait_cells s) (timer_id t) = Some p \<Longrightarrow> answered (run_timer t s) (sender_chan p) not_ready" by blast+
qed

section \<open>The end of a child\<close>

fun delivers :: "('v, 'd) child_terminal \<Rightarrow> ('v, 'd) reply \<Rightarrow> bool" where
  "delivers t (RJoin (Inr u)) \<longleftrightarrow> u = t"
| "delivers t (RWait (Inr r)) \<longleftrightarrow> wr_ready r \<and> wr_terminal r = Some t"
| "delivers t (RWaitAny (Inr r)) \<longleftrightarrow> wa_ready r \<and> wa_terminal r = Some t"
| "delivers t _ \<longleftrightarrow> False"

definition grows :: "('j, 'v, 'd) supervisor \<Rightarrow> ('j, 'v, 'd) supervisor \<Rightarrow> bool" where
  "grows s s' \<longleftrightarrow> set (sv_replies s) \<subseteq> set (sv_replies s') \<and> sv_dropped s' = sv_dropped s"

lemma grows_answered: "grows s s' \<Longrightarrow> answered s ch P \<Longrightarrow> answered s' ch P"
  by (auto simp: grows_def answered_def)

lemma grows_trans: "grows s1 s2 \<Longrightarrow> grows s2 s3 \<Longrightarrow> grows s1 s3"
  by (auto simp: grows_def)

lemma grows_mark: "grows s (mark_delivered c s)"
  by (auto simp: grows_def mark_delivered_def update_child_def split: option.splits)

lemma grows_refl [simp]: "grows s s"
  by (simp add: grows_def)

lemma send_reply_grows: "grows s (snd (send_reply ch r s))" "P r \<Longrightarrow> answered (snd (send_reply ch r s)) ch P"
  by (auto simp: grows_def answered_def send_reply_def)

lemma update_child_grows [simp]: "grows s (update_child c f s)"
  by (simp add: grows_def update_child_def split: option.split)

lemma fold_grows: "(\<And>x s. grows s (g x s)) \<Longrightarrow> grows s (fold g xs s)"
  by (induction xs arbitrary: s) (auto intro: grows_trans)

lemma fold_skip: "fold (\<lambda>d. if d = c then id else f d) xs = fold f (filter (\<lambda>d. d \<noteq> c) xs)"
  by (induction xs) auto

lemma forget_elsewhere_fields:
  "sv_wait_cells (forget_elsewhere c w s) = sv_wait_cells s" "sv_timers (forget_elsewhere c w s) = sv_timers s"
  "sv_wait_counter (forget_elsewhere c w s) = sv_wait_counter s" "grows s (forget_elsewhere c w s)"
  unfolding forget_elsewhere_def fold_skip by (simp_all add: fold_fields fold_grows)

lemma fold_forget_fields:
  "sv_wait_cells (fold (forget_elsewhere c) ws s) = sv_wait_cells s" "sv_timers (fold (forget_elsewhere c) ws s) = sv_timers s"
  "sv_wait_counter (fold (forget_elsewhere c) ws s) = sv_wait_counter s"
  by (induction ws arbitrary: s) (simp_all add: forget_elsewhere_fields)

lemma board_forget_elsewhere:
  "board_of (forget_elsewhere c w s) d =
     (if d \<noteq> c \<and> d \<in> set (cw_child_ids w) then forget {cw_id w} (board_of s) d else board_of s d)"
  by (simp add: forget_elsewhere_def fold_skip board_retain_fold)

definition left_over :: "agent_id \<Rightarrow> child_waiter list \<Rightarrow> board \<Rightarrow> board" where
  "left_over c ws V d = map_option (\<lambda>(b, j, M). (b, j, filter_mset (\<lambda>v. \<not> (\<exists>w \<in> set ws. cw_id w = cw_id v \<and> d \<noteq> c \<and> d \<in> set (cw_child_ids w))) M)) (V d)"

lemma board_fold_forget: "board_of (fold (forget_elsewhere c) ws s) = left_over c ws (board_of s)"
proof (induction ws arbitrary: s)
  case Nil
  show ?case by (rule ext) (simp add: left_over_def option.map_id split: prod.split)
next
  case (Cons w ws)
  show ?case
  proof
    fix d
    have "board_of (fold (forget_elsewhere c) (w # ws) s) d = left_over c ws (board_of (forget_elsewhere c w s)) d"
      using Cons.IH[of "forget_elsewhere c w s"] by simp
    also have "\<dots> = left_over c (w # ws) (board_of s) d"
      by (cases "board_of s d")
        (auto simp: left_over_def board_forget_elsewhere forget_def filter_filter_mset split: prod.split intro: filter_mset_cong)
    finally show "board_of (fold (forget_elsewhere c) (w # ws) s) d = left_over c (w # ws) (board_of s) d" .
  qed
qed

lemma left_over_forget:
  assumes ok: "board_ok V K T n" and c: "\<And>w. w \<in> set ws \<Longrightarrow> waits_at V c w" and d: "d \<noteq> c"
  shows "left_over c ws V d = forget (cw_id ` set ws) V d"
proof (cases "V d")
  case (Some q)
  obtain b j M where q: "q = (b, j, M)" by (cases q) auto
  have "(\<exists>w \<in> set ws. cw_id w = cw_id v \<and> d \<noteq> c \<and> d \<in> set (cw_child_ids w)) \<longleftrightarrow> cw_id v \<in> cw_id ` set ws" if v: "v \<in># M" for v
  proof -
    note E = waiter_elsewhere[OF ok Some[unfolded q] v]
    have mem: "d \<in> set (cw_child_ids w)" if w: "w \<in> set ws" "cw_id w = cw_id v" for w
    proof -
      have "called K T w" using board_okD(2)[OF ok c[OF w(1)]] by simp
      then have "w = v" using called_unique[OF board_okD(4)[OF ok] _ E(3) w(2)] by simp
      then show ?thesis using E(2) by simp
    qed
    show ?thesis unfolding image_iff using d mem by metis
  qed
  then have "filter_mset (\<lambda>v. \<not> (\<exists>w \<in> set ws. cw_id w = cw_id v \<and> d \<noteq> c \<and> d \<in> set (cw_child_ids w))) M =
      filter_mset (\<lambda>v. cw_id v \<notin> cw_id ` set ws) M"
    by (intro filter_mset_cong) simp_all
  then show ?thesis by (simp add: left_over_def forget_def Some q)
qed (simp add: left_over_def forget_def)

lemma joins_delivered:
  "grows s (snd (deliver_joins t chs s)) \<and> pane (snd (deliver_joins t chs s)) = pane s \<and>
   (\<forall>ch \<in> set chs. answered (snd (deliver_joins t chs s)) ch (delivers t))"
proof (induction chs arbitrary: s)
  case (Cons ch chs)
  obtain b s1 where p: "send_reply ch (RJoin (Ok t)) s = (b, s1)" by fastforce
  have 1: "grows s s1" "pane s1 = pane s" "answered s1 ch (delivers t)"
    using send_reply_grows(1)[of s ch "RJoin (Ok t)"] send_reply_grows(2)[of "delivers t" "RJoin (Ok t)" ch s] pane_sendD[OF p] p by simp_all
  have e: "snd (deliver_joins t (ch # chs) s) = snd (deliver_joins t chs s1)" using p by (simp split: prod.split)
  show ?case unfolding e using Cons.IH[of s1] 1 grows_trans grows_answered by (metis set_ConsD)
qed simp

lemma wait_delivered:
  assumes "deliver_wait t w s = (b, s1)"
  shows "grows s s1" "board_of s1 = board_of s" "sv_timers s1 = sv_timers s" "sv_wait_counter s1 = sv_wait_counter s"
    "bt_get (sv_wait_cells s1) = (bt_get (sv_wait_cells s))(cw_id w := None)"
    "bt_get (sv_wait_cells s) (cw_id w) = Some p \<Longrightarrow> answered s1 (sender_chan p) (delivers t)"
proof -
  let ?s = "s\<lparr>sv_wait_cells := bt_remove (cw_id w) (sv_wait_cells s)\<rparr>"
  have take: "take_sender (cw_id w) s = (bt_get (sv_wait_cells s) (cw_id w), ?s)" by (simp add: take_sender_def)
  have g: "grows s ?s" by (simp add: grows_def)
  have "grows s s1 \<and> pane s1 = pane ?s \<and> (bt_get (sv_wait_cells s) (cw_id w) = Some p \<longrightarrow> answered s1 (sender_chan p) (delivers t))"
  proof (cases "bt_get (sv_wait_cells s) (cw_id w)")
    case None
    then have "s1 = ?s" using assms by (simp add: deliver_wait_def take)
    then show ?thesis using g None by simp
  next
    case (Some q)
    obtain r where r: "send_reply (sender_chan q) r ?s = (b, s1)" "delivers t r"
      using assms Some by (cases q) (auto simp: deliver_wait_def take wait_result_terminal_def wait_children_result_terminal_def)
    then have "grows ?s s1" "pane s1 = pane ?s" "answered s1 (sender_chan q) (delivers t)"
      using send_reply_grows(1)[of ?s "sender_chan q" r] send_reply_grows(2)[of "delivers t" r "sender_chan q" ?s] pane_sendD[OF r(1)]
      by simp_all
    then show ?thesis using grows_trans[OF g] Some by auto
  qed
  then show "grows s s1" "board_of s1 = board_of s" "sv_timers s1 = sv_timers s" "sv_wait_counter s1 = sv_wait_counter s"
    "bt_get (sv_wait_cells s1) = (bt_get (sv_wait_cells s))(cw_id w := None)"
    "bt_get (sv_wait_cells s) (cw_id w) = Some p \<Longrightarrow> answered s1 (sender_chan p) (delivers t)"
    by (auto simp: pane_def bt_simps)
qed

lemma waits_delivered:
  assumes "deliver_waits t ws s = (b, s1)"
  shows "grows s s1" "board_of s1 = board_of s" "sv_timers s1 = sv_timers s" "sv_wait_counter s1 = sv_wait_counter s"
    "bt_get (sv_wait_cells s1) = (\<lambda>i. if i \<in> cw_id ` set ws then None else bt_get (sv_wait_cells s) i)"
    "w \<in> set ws \<Longrightarrow> bt_get (sv_wait_cells s) (cw_id w) = Some p \<Longrightarrow> answered s1 (sender_chan p) (delivers t)"
proof -
  have "grows s s1 \<and> board_of s1 = board_of s \<and> sv_timers s1 = sv_timers s \<and> sv_wait_counter s1 = sv_wait_counter s \<and>
    bt_get (sv_wait_cells s1) = (\<lambda>i. if i \<in> cw_id ` set ws then None else bt_get (sv_wait_cells s) i) \<and>
    (\<forall>w p. w \<in> set ws \<longrightarrow> bt_get (sv_wait_cells s) (cw_id w) = Some p \<longrightarrow> answered s1 (sender_chan p) (delivers t))"
    using assms
  proof (induction ws arbitrary: s b)
    case (Cons x ws)
    obtain b1 s2 where d: "deliver_wait t x s = (b1, s2)" by fastforce
    obtain b2 s3 where r: "deliver_waits t ws s2 = (b2, s3)" by fastforce
    have s3: "s3 = s1" using Cons.prems d r by simp
    note D = wait_delivered[OF d]
    note I = Cons.IH[OF r[unfolded s3]]
    have "answered s1 (sender_chan p) (delivers t)"
      if w: "w \<in> set (x # ws)" "bt_get (sv_wait_cells s) (cw_id w) = Some p" for w p
    proof (cases "cw_id w = cw_id x")
      case True
      then show ?thesis using D(6)[of p] w(2) I grows_answered by auto
    next
      case False
      then have "w \<in> set ws" "bt_get (sv_wait_cells s2) (cw_id w) = Some p" using w D(5) by auto
      then show ?thesis using I by blast
    qed
    moreover have "bt_get (sv_wait_cells s1) = (\<lambda>i. if i \<in> cw_id ` set (x # ws) then None else bt_get (sv_wait_cells s) i)"
      using I D(5) by (auto simp: fun_eq_iff)
    moreover have "grows s s1" using I D(1) grows_trans by blast
    ultimately show ?case using I D(2-4) by auto
  qed simp
  then show "grows s s1" "board_of s1 = board_of s" "sv_timers s1 = sv_timers s" "sv_wait_counter s1 = sv_wait_counter s"
    "bt_get (sv_wait_cells s1) = (\<lambda>i. if i \<in> cw_id ` set ws then None else bt_get (sv_wait_cells s) i)"
    "w \<in> set ws \<Longrightarrow> bt_get (sv_wait_cells s) (cw_id w) = Some p \<Longrightarrow> answered s1 (sender_chan p) (delivers t)" by blast+
qed

text \<open>Recording a terminal result: the waits stay in order and everyone at the child is answered.\<close>

definition final_of :: "u64 \<Rightarrow> ('v, 'd) child_terminal \<Rightarrow> ('v, 'd) child_run_state \<Rightarrow> ('v, 'd) child_terminal" where
  "final_of now t st = t\<lparr>ct_elapsed_ms := sat_sub now (md_started_at_ms (rs_metadata st))\<rparr>"

lemma record_waits:
  fixes now :: u64
  assumes ok: "waits_ok s" and st: "bt_get (sv_results s) (ct_child_id t) = Some st" "rs_result st = None"
  defines "s' \<equiv> record_child_terminal_result now t s"
  shows "waits_ok s'"
    "ch \<in> set (rs_join_waiters st) \<Longrightarrow> answered s' ch (delivers (final_of now t st))"
    "w \<in> set (rs_wait_waiters st) \<Longrightarrow>
       \<exists>p. bt_get (sv_wait_cells s) (cw_id w) = Some p \<and> bt_get (sv_wait_cells s') (cw_id w) = None \<and>
           answered s' (sender_chan p) (delivers (final_of now t st))"
proof -
  let ?c = "ct_child_id t" and ?W = "rs_wait_waiters st" and ?V = "board_of s" and ?K = "bt_get (sv_wait_cells s)"
  have ok': "board_ok ?V ?K (sv_timers s) (sv_wait_counter s)" using ok by (simp add: waits_ok_def)
  have Vc: "?V ?c = Some (False, rs_join_waiters st, mset ?W)" using board_Some[OF st(1)] st(2) by simp
  have at: "waits_at ?V ?c w" if "w \<in> set ?W" for w using that Vc by (simp add: waits_at_def)
  let ?R = "cw_id ` set ?W"
  let ?s1 = "s\<lparr>sv_results := bt_insert ?c (terminal_state now t st) (sv_results s)\<rparr>"
  let ?s2 = "fold (forget_elsewhere ?c) ?W ?s1"
  obtain d1 s3 where j: "deliver_joins (final_of now t st) (rs_join_waiters st) ?s2 = (d1, s3)" by fastforce
  obtain d2 s4 where w4: "deliver_waits (final_of now t st) ?W s3 = (d2, s4)" by fastforce
  have s': "s' = (if d1 \<or> d2 then mark_delivered ?c s4 else s4)"
    unfolding s'_def using st(1) j w4 by (simp add: record_child_terminal_result_def Let_def terminal_state_def final_of_def)
  note J = joins_delivered[of ?s2 "final_of now t st" "rs_join_waiters st", unfolded j snd_conv]
  note W = waits_delivered[OF w4]
  have b1: "board_of ?s1 = ?V(?c \<mapsto> (True, [], {#}))"
    by (auto simp: board_of_def terminal_state_def fun_eq_iff bt_simps)
  have "left_over ?c ?W (?V(?c \<mapsto> (True, [], {#}))) d = ((forget ?R ?V)(?c \<mapsto> (True, [], {#}))) d" for d
  proof (cases "d = ?c")
    case False
    then have "left_over ?c ?W (?V(?c \<mapsto> (True, [], {#}))) d = left_over ?c ?W ?V d" by (simp add: left_over_def)
    then show ?thesis using left_over_forget[OF ok' at False] False by simp
  qed (simp add: left_over_def)
  then have b2: "board_of ?s2 = (forget ?R ?V)(?c \<mapsto> (True, [], {#}))"
    unfolding board_fold_forget b1 by (rule ext)
  have f2: "bt_get (sv_wait_cells ?s2) = ?K" "sv_timers ?s2 = sv_timers s" "sv_wait_counter ?s2 = sv_wait_counter s"
    by (simp_all add: fold_forget_fields)
  have P: "board_of s3 = board_of ?s2" "bt_get (sv_wait_cells s3) = ?K" "sv_timers s3 = sv_timers s" "sv_wait_counter s3 = sv_wait_counter s"
    using J f2 by (auto simp: pane_def)
  have "board_ok (forget ?R ?V) (\<lambda>i. if i \<in> ?R then None else ?K i) (sv_timers s) (sv_wait_counter s)"
    by (rule board_forget[OF ok']) (simp_all add: board_okD(4)[OF ok'])
  then have "board_ok ((forget ?R ?V)(?c \<mapsto> (True, [], {#}))) (\<lambda>i. if i \<in> ?R then None else ?K i) (sv_timers s) (sv_wait_counter s)"
  proof (rule board_point)
    show "\<not> waits_at (forget ?R ?V) ?c w" for w
      unfolding waits_at_forget using Vc by (auto simp: waits_at_def)
  qed simp
  moreover have cells4: "bt_get (sv_wait_cells s4) = (\<lambda>i. if i \<in> ?R then None else ?K i)" unfolding W(5) P(2) ..
  ultimately have s4: "waits_ok s4" unfolding waits_ok_def W(2-4) P(1,3,4) b2 by simp
  have m: "pane s' = pane s4" "grows s4 s'" unfolding s' by (simp_all add: pane_mark grows_mark)
  show "waits_ok s'" using pane_waits[OF m(1)] s4 by simp
  have cells: "bt_get (sv_wait_cells s') = (\<lambda>i. if i \<in> ?R then None else ?K i)" using m(1) cells4 by (simp add: pane_def)
  show "answered s' ch (delivers (final_of now t st))" if "ch \<in> set (rs_join_waiters st)"
    using J that W(1) m(2) grows_answered by blast
  show "\<exists>p. ?K (cw_id w) = Some p \<and> bt_get (sv_wait_cells s') (cw_id w) = None \<and>
      answered s' (sender_chan p) (delivers (final_of now t st))" if w: "w \<in> set ?W"
  proof -
    obtain p where p: "?K (cw_id w) = Some p" using board_okD(2)[OF ok' at[OF w]] by (auto simp: called_def)
    then have "answered s4 (sender_chan p) (delivers (final_of now t st))" using W(6)[OF w] P(2) by simp
    then have "answered s' (sender_chan p) (delivers (final_of now t st))" using m(2) grows_answered by blast
    then show ?thesis using p w cells by auto
  qed
qed

section \<open>Every step\<close>

lemma close_waits:
  assumes "waits_ok s"
  shows "waits_ok (snd (close_child c s))"
proof (cases "bt_get (sv_results s) c")
  case (Some st)
  show ?thesis
  proof (cases "rs_result st")
    case (Some t)
    let ?s = "snd (close_child c s)"
    have ok: "board_ok (board_of s) (bt_get (sv_wait_cells s)) (sv_timers s) (sv_wait_counter s)" using assms by (simp add: waits_ok_def)
    have "board_of ?s = (board_of s)(c := None)" "sv_wait_cells ?s = sv_wait_cells s" "sv_timers ?s = sv_timers s"
      "sv_wait_counter ?s = sv_wait_counter s"
      using \<open>bt_get (sv_results s) c = Some st\<close> Some by (auto simp: close_child_def board_of_def fun_eq_iff bt_simps)
    moreover have "board_ok ((board_of s)(c := None)) (bt_get (sv_wait_cells s)) (sv_timers s) (sv_wait_counter s)"
    proof (rule board_point[OF ok])
      show "\<not> waits_at (board_of s) c w" for w
        using board_Some[OF \<open>bt_get (sv_results s) c = Some st\<close>] Some by (simp add: waits_at_def)
    qed simp
    ultimately show ?thesis by (simp add: waits_ok_def)
  qed (use Some assms in \<open>simp add: close_child_def\<close>)
qed (use assms in \<open>simp add: close_child_def\<close>)

lemma owner_waits: "waits_ok s \<Longrightarrow> waits_ok (snd act) \<Longrightarrow> waits_ok (respond_done ch (owner_only s caller c act))"
  by (simp add: respond_done_def owner_only_def split: sum.split)

lemma spawn_waits:
  assumes F: "factory_keeps_ids X" and w: "waits_ok s" and sup: "sup_ok s"
  shows "waits_ok (dispatch_spawn X caller config ch now s)"
proof (cases rule: dispatch_spawn_cases[where X = X and caller = caller and config = config and ch = ch and now = now and s = s])
  case (rejected e)
  then show ?thesis using w by simp
next
  case (failed G config1 child parent s1 s2 e)
  obtain j where s2: "s2 = s1\<lparr>sv_journal := j\<rparr>" using prepare_spawn_activity[OF failed(5)] by auto
  have "pane (rollback_unaccepted_budget (sx_dec X) (cf_agent_id config1) s2) = pane s"
    using reserve_spawn_budget_Ok(4)[OF failed(4)]
    by (intro pane_same) (simp_all add: rollback_unaccepted_budget_def Let_def s2 split: option.split)
  from pane_waits[OF this] show ?thesis unfolding failed(6) using w by simp
next
  case (accepted G config1 child parent s1 s2)
  let ?c = "cf_agent_id config1" and ?s = "dispatch_spawn X caller config ch now s"
  have ok: "board_ok (board_of s) (bt_get (sv_wait_cells s)) (sv_timers s) (sv_wait_counter s)" using w by (simp add: waits_ok_def)
  have fresh: "?c \<notin> set (sv_accepted s)" using accepted(2) vet_keeps_ids[OF F accepted(1,4)] by simp
  obtain j where s2: "s2 = s1\<lparr>sv_journal := j, sv_activity := sv_activity s1 @
      [(cf_parent_id config1, ActSpawned ?c (cf_placement config1) (cf_task config1))]\<rparr>"
    using prepare_spawn_activity[OF accepted(6)] by auto
  have "board_of ?s = (board_of s)(?c \<mapsto> (False, [], {#}))" "sv_wait_cells ?s = sv_wait_cells s" "sv_timers ?s = sv_timers s"
      "sv_wait_counter ?s = sv_wait_counter s"
    using reserve_spawn_budget_Ok(4)[OF accepted(5)]
    by (auto simp: accepted(7) spawn_task_into_def Let_def respond_def send_reply_def record_accepted_child_id_def s2
        board_of_def fun_eq_iff bt_simps)
  moreover have "board_ok ((board_of s)(?c \<mapsto> (False, [], {#}))) (bt_get (sv_wait_cells s)) (sv_timers s) (sv_wait_counter s)"
  proof (rule board_point[OF ok])
    show "\<not> waits_at (board_of s) ?c v" for v using fresh_child(2)[OF sup fresh] by (simp add: waits_at_def board_of_def)
  qed simp
  ultimately show ?thesis by (simp add: waits_ok_def)
qed

lemma dispatch_waits:
  assumes F: "factory_keeps_ids X" and w: "waits_ok s" and sup: "sup_ok s"
  shows "waits_ok (dispatch_payload X now caller p s)"
  using pane_waits[OF pane_control(1)] pane_waits[OF pane_control(2)] pane_waits[OF pane_control(3)] w
    pane_waits[OF pane_status] pane_waits[OF pane_roster] pane_waits[OF pane_inspection]
  by (cases p) (simp_all add: spawn_waits[OF F w sup] join_waits wait_child_waits wait_children_waits owner_waits close_waits
      pane_waits[OF pane_control(1)] pane_waits[OF pane_control(2)] pane_waits[OF pane_control(3)]
      pane_waits[OF pane_status] pane_waits[OF pane_roster] pane_waits[OF pane_inspection] split: sum.split option.split)

lemma advance_waits:
  assumes w: "waits_ok s" and sup: "sup_ok s"
  shows "waits_ok (advance_task X c now el s)"
proof (cases "bt_get (sv_tasks s) c")
  case (Some k)
  have same: "waits_ok (set_task c x s1)" if "pane s1 = pane s" for x s1
  proof -
    have "pane (set_task c x s1) = pane s1" by (rule pane_same) (simp_all add: set_task_def)
    then show ?thesis using pane_waits[of "set_task c x s1" s] that w by simp
  qed
  show ?thesis
  proof (cases "ts_phase k")
    case (PhAwaiting out)
    then show ?thesis using Some w same[of s] by (simp add: advance_task_def)
  next
    case (PhSettle r)
    have "pane (settle_budget_reservation (sx_dec X) c r s) = pane s"
      by (intro pane_same) (simp_all add: settle_budget_reservation_def Let_def split: option.split)
    from same[OF this] show ?thesis using Some PhSettle by (simp add: advance_task_def)
  next
    case (PhProcess r)
    obtain r1 s1 where p: "process_child_result_with_rollup X False c (cf_parent_id (ts_config k)) (cf_placement (ts_config k))
        (ts_parent_account k) now el r s = (r1, s1)" by fastforce
    have "pane s1 = pane s"
      using process_updates[of X c "cf_parent_id (ts_config k)" "cf_placement (ts_config k)" "ts_parent_account k" now el r s] p
      by (auto intro!: pane_same)
    from same[OF this] show ?thesis using Some PhProcess p by (simp add: advance_task_def)
  next
    case (PhRecord r)
    let ?t = "terminal_of c (cf_placement (ts_config k)) el r"
    have "running s c" using sup Some PhRecord by (auto simp: sup_ok_def tasks_ok_def)
    then obtain st where st: "bt_get (sv_results s) (ct_child_id ?t) = Some st" "rs_result st = None"
      by (auto simp: running_def terminal_of_def)
    have "waits_ok (record_child_terminal_result now ?t s)" by (rule record_waits(1)[OF w st])
    moreover have "pane (set_task c x s1) = pane s1" for x s1 by (rule pane_same) (simp_all add: set_task_def)
    ultimately show ?thesis using Some PhRecord pane_waits by (simp add: advance_task_def) blast
  next
    case PhDropToken
    have "pane (s\<lparr>sv_tokens := bt_remove c (sv_tokens s)\<rparr>) = pane s" by (rule pane_same) simp_all
    from same[OF this] show ?thesis using Some PhDropToken by (simp add: advance_task_def)
  next
    case PhDropInput
    have "pane (s\<lparr>sv_inputs := bt_remove c (sv_inputs s), sv_tasks := bt_remove c (sv_tasks s)\<rparr>) = pane s" by (rule pane_same) simp_all
    from pane_waits[OF this] show ?thesis using Some PhDropInput w by (simp add: advance_task_def)
  qed (use Some w in \<open>simp add: advance_task_def\<close>)
qed (use w in \<open>simp add: advance_task_def\<close>)

lemma step_waits:
  assumes F: "factory_keeps_ids X" and w: "waits_ok s" and sup: "sup_ok s"
  shows "waits_ok (sv_step X ev s)"
proof (cases ev)
  case (EvAttempt c r)
  have "pane (attempt_finished c r s) = pane s"
    by (rule pane_same; cases c r s rule: attempt_finished_cases) (auto simp: set_task_def drop_queue_def)
  from pane_waits[OF this] show ?thesis using EvAttempt w by simp
next
  case (EvTimer t)
  show ?thesis
  proof (cases "t \<in> set (sv_timers s)")
    case True
    then show ?thesis using EvTimer run_timer_waits(1)[OF w] by simp
  qed (use EvTimer w in \<open>simp add: run_timer_def\<close>)
next
  case (EvDrop ch)
  have "pane (sv_step X ev s) = pane s" by (rule pane_same) (simp_all add: EvDrop)
  from pane_waits[OF this] show ?thesis using w by simp
next
  case (EvUsage a x y z)
  have "pane (sv_step X ev s) = pane s" by (rule pane_same) (simp_all add: EvUsage)
  from pane_waits[OF this] show ?thesis using w by simp
qed (simp_all add: dispatch_message_into_def dispatch_waits advance_waits assms)

lemma fresh_waits: "fresh_supervisor s \<Longrightarrow> waits_ok s"
  by (auto simp: fresh_supervisor_def waits_ok_def board_ok_def supervisor_new_def board_of_def waits_at_def)

interpretation waiting: supervisor_invariant X "\<lambda>s. factory_keeps_ids X \<longrightarrow> waits_ok s \<and> sup_ok s"
  for X :: "('j, 'v, 'd::{zero,linorder}) sup_ctx"
  by unfold_locales (simp_all add: fresh_waits fresh_ok step_waits sv_step_ok)

section \<open>Every wait is answered\<close>

lemma waiting_child:
  assumes "factory_keeps_ids X" "fresh_supervisor s0" "sv_reach X E s0 s" "waits_at (board_of s) c w"
  shows "\<exists>st k. bt_get (sv_results s) c = Some st \<and> rs_result st = None \<and> w \<in> set (rs_wait_waiters st) \<and>
    bt_get (sv_tasks s) c = Some k \<and> unrecorded (ts_phase k)"
proof -
  obtain st where st: "bt_get (sv_results s) c = Some st" "rs_result st = None" "w \<in> set (rs_wait_waiters st)"
    using assms(4) by (auto simp: waits_at_def board_of_def)
  have "running s c" using st by (auto simp: running_def)
  then show ?thesis using reach_ok[OF assms(3,1,2)] st by (auto simp: sup_ok_def tasks_ok_def)
qed

text \<open>C31: No caller of \<^verbatim>\<open>wait_agent\<close> waits for ever: in every reachable state, a wait call whose sender
  is still held has its timer pending, it is registered with every child it names (at least one), each of
  them is still running under a task whose result will be recorded, and when the timer fires the call is
  answered that no child is ready (unless its receiver is gone) and closed.\<close>

theorem open_wait_has_an_answer_ahead:
  assumes "factory_keeps_ids X" "fresh_supervisor s0" "sv_reach X E s0 s" "bt_get (sv_wait_cells s) i = Some p"
  shows "\<exists>w. cw_id w = i \<and> timer_of p w \<in> set (sv_timers s) \<and> cw_child_ids w \<noteq> [] \<and>
    (\<forall>c \<in> set (cw_child_ids w). \<exists>st k. bt_get (sv_results s) c = Some st \<and> rs_result st = None \<and>
       w \<in> set (rs_wait_waiters st) \<and> bt_get (sv_tasks s) c = Some k \<and> unrecorded (ts_phase k)) \<and>
    answered (run_timer (timer_of p w) s) (sender_chan p) not_ready \<and>
    bt_get (sv_wait_cells (run_timer (timer_of p w) s)) i = None"
proof -
  have ok: "waits_ok s" using waiting.reachable[OF assms(3,2)] assms(1) by blast
  then have "board_ok (board_of s) (bt_get (sv_wait_cells s)) (sv_timers s) (sv_wait_counter s)" by (simp add: waits_ok_def)
  from board_okD(3)[OF this assms(4)] obtain w where w: "cw_id w = i" "called (bt_get (sv_wait_cells s)) (sv_timers s) w"
    "\<forall>c \<in> set (cw_child_ids w). waits_at (board_of s) c w" by blast
  then have t: "timer_of p w \<in> set (sv_timers s)" "cw_child_ids w \<noteq> []"
    using assms(4) by (cases p; auto simp: called_def)+
  have "answered (run_timer (timer_of p w) s) (sender_chan p) not_ready"
    using run_timer_waits(3)[OF ok t(1), of p] assms(4) w(1) by simp
  then show ?thesis using t w run_timer_waits(2)[OF ok t(1)] waiting_child[OF assms(1-3)] by auto
qed

definition wait_events :: "(unit, int) sv_event list" where
  "wait_events =
     [sv_msg (PSpawn (sv_child ''c'' 40 LetCrash) 0), sv_msg (PSpawn (sv_child ''d'' 50 LetCrash) 1),
      sv_msg (PWaitChildren [''c'', ''d''] 5 2), sv_msg (PWaitChild ''c'' 9 3), sv_msg (PJoinChild ''c'' 4)]"

theorem open_wait_has_an_answer_ahead_witness:
  "bt_get (sv_wait_cells (sv_run sv_ctx wait_events sv_root)) 1 = Some (SenderAny 2) \<and>
   (\<exists>w. cw_id w = 1 \<and>
      answered (run_timer (timer_of (SenderAny 2) w) (sv_run sv_ctx wait_events sv_root)) 2 not_ready)"
proof -
  let ?s = "sv_run sv_ctx wait_events sv_root"
  have r: "sv_reach sv_ctx UNIV sv_root ?s" by (rule sv_run_reach) simp
  have p: "bt_get (sv_wait_cells ?s) 1 = Some (SenderAny 2)" by code_simp
  show ?thesis using open_wait_has_an_answer_ahead[OF sv_ctx_keeps_ids sv_root_fresh r p] p by auto
qed

text \<open>C32: The end of a child wakes everyone: when the task of a child reaches the step that records its
  result, in any reachable state, that step makes the child terminal with the status of its result and no
  waiter left, every caller that joined it receives exactly this terminal, and so does every caller that
  waited for it alone or among others, whose call is closed everywhere; only a caller whose receiver is
  gone stays without.\<close>

theorem recorded_result_wakes_every_waiter:
  fixes now el :: u64
  assumes "factory_keeps_ids X" "fresh_supervisor s0" "sv_reach X E s0 s"
    and "bt_get (sv_tasks s) c = Some k" "ts_phase k = PhRecord r"
  defines "s' \<equiv> advance_task X c now el s"
  shows "\<exists>st st' t. bt_get (sv_results s) c = Some st \<and> bt_get (sv_results s') c = Some st' \<and>
    rs_result st = None \<and> rs_result st' = Some t \<and> rs_join_waiters st' = [] \<and> rs_wait_waiters st' = [] \<and>
    ct_status t = status_from_spawn_result r \<and> ct_result t = map_err show_runtime_error r \<and>
    (\<forall>ch \<in> set (rs_join_waiters st). answered s' ch (delivers t)) \<and>
    (\<forall>w \<in> set (rs_wait_waiters st). \<exists>p. bt_get (sv_wait_cells s) (cw_id w) = Some p \<and>
       bt_get (sv_wait_cells s') (cw_id w) = None \<and> answered s' (sender_chan p) (delivers t))"
proof -
  have ok: "waits_ok s" "sup_ok s" using waiting.reachable[OF assms(3,2)] assms(1) by blast+
  let ?t = "terminal_of c (cf_placement (ts_config k)) el r"
  let ?s = "record_child_terminal_result now ?t s"
  have s': "s' = set_task c (k\<lparr>ts_phase := PhDropToken\<rparr>) ?s" using assms(4,5) by (simp add: s'_def advance_task_def)
  have "running s c" using ok(2) assms(4,5) by (auto simp: sup_ok_def tasks_ok_def)
  then obtain st where st: "bt_get (sv_results s) (ct_child_id ?t) = Some st" "rs_result st = None"
    by (auto simp: running_def terminal_of_def)
  have c: "ct_child_id ?t = c" by (simp add: terminal_of_def)
  note R = record_waits[OF ok(1) st, where now = now]
  let ?u = "final_of now ?t st"
  have "life ?s c = life (s\<lparr>sv_results := bt_insert c (terminal_state now ?t st) (sv_results s)\<rparr>) c"
    using record_core[OF st(1), where now = now] c by (simp add: same_core_def)
  then obtain st' where st': "bt_get (sv_results ?s) c = Some st'" "rs_result st' = Some ?u"
    by (auto simp: life_def bt_simps terminal_state_def final_of_def)
  have "board_ok (board_of ?s) (bt_get (sv_wait_cells ?s)) (sv_timers ?s) (sv_wait_counter ?s)"
    using R(1) by (simp add: waits_ok_def)
  from board_okD(1)[OF this, of c "rs_join_waiters st'" "mset (rs_wait_waiters st')"]
  have e: "rs_join_waiters st' = []" "rs_wait_waiters st' = []" using board_Some[OF st'(1)] st'(2) by simp_all
  have a: "answered s' ch P = answered ?s ch P" for ch P by (simp add: s' set_task_def answered_def)
  have f: "sv_results s' = sv_results ?s" "sv_wait_cells s' = sv_wait_cells ?s" by (simp_all add: s' set_task_def)
  have u: "ct_status ?u = status_from_spawn_result r" "ct_result ?u = map_err show_runtime_error r"
    by (simp_all add: final_of_def terminal_of_def)
  show ?thesis unfolding a f
    by (rule exI[of _ st], rule exI[of _ st'], rule exI[of _ ?u])
      (use st(1) c st(2) st' e u R(2,3) in auto)
qed

definition recording_events :: "(unit, int) sv_event list" where
  "recording_events = wait_events @
     [EvAttempt ''c'' (Ok (sv_output ExComplete 10)), EvAdvance ''c'' 8 1, EvAdvance ''c'' 8 1]"

theorem recorded_result_wakes_every_waiter_witness:
  "\<exists>t. ct_status t = ''completed'' \<and>
     (\<forall>ch \<in> {2, 3, 4}. answered (advance_task sv_ctx ''c'' 9 2 (sv_run sv_ctx recording_events sv_root)) ch (delivers t))"
proof -
  let ?s = "sv_run sv_ctx recording_events sv_root"
  have r: "sv_reach sv_ctx UNIV sv_root ?s" by (rule sv_run_reach) simp
  have "map_option ts_phase (bt_get (sv_tasks ?s) ''c'') = Some (PhRecord (Ok (sv_output ExComplete 10)))" by code_simp
  then obtain k where k: "bt_get (sv_tasks ?s) ''c'' = Some k" "ts_phase k = PhRecord (Ok (sv_output ExComplete 10))" by auto
  have w: "map_option (\<lambda>st. (rs_join_waiters st, map cw_id (rs_wait_waiters st))) (bt_get (sv_results ?s) ''c'') = Some ([4], [1, 2])"
    "bt_get (sv_wait_cells ?s) 1 = Some (SenderAny 2)" "bt_get (sv_wait_cells ?s) 2 = Some (SenderSingle 3)" by code_simp+
  have st: "status_from_spawn_result (Ok (sv_output ExComplete 10) :: (unit, int) spawn_result) = ''completed''" by code_simp
  show ?thesis
    using recorded_result_wakes_every_waiter[OF sv_ctx_keeps_ids sv_root_fresh r k, of 9 2] w unfolding st
    by (auto simp: map_eq_Cons_conv)
qed

end
