(* ===== verification/Sandbox_Cell.thy ===== *)
theory Sandbox_Cell
  imports Runtime_Types Shell_Builtins Budget
begin

text \<open>
  The agent cell (\<^verbatim>\<open>simulacra-sandbox/src/lib.rs\<close>), its guards (\<^verbatim>\<open>guards.rs\<close>) and its plain file
  operations (\<^verbatim>\<open>file_io.rs\<close>).  A cell shares its filesystem with other holders of the same
  \<open>Arc<dyn VirtualFs>\<close>: what they do between two calls of the cell is the argument \<open>sf_others\<close> of the
  model, a function of the number of calls made so far, so that every theorem that does not ask for a
  quiet filesystem holds under any interference.  Budget and journal are state of the cell.  Spans,
  meters and log lines are left out, and so are poisoned locks.
\<close>

section \<open>A shared filesystem\<close>

record ('s, 'b) shared_fs =
  sf_ops :: "('s, 'b) virtual_fs"
  sf_state :: 's
  sf_others :: "nat \<Rightarrow> 's \<Rightarrow> 's"
  sf_clock :: nat

text \<open>One call on the trait object: the others move first, then the call is answered in one step.\<close>

definition sf_turn :: "('s, 'b) shared_fs \<Rightarrow> ('s, 'b) shared_fs" where
  "sf_turn w = w\<lparr>sf_state := sf_others w (sf_clock w) (sf_state w), sf_clock := Suc (sf_clock w)\<rparr>"

definition ask ::
  "(('s, 'b) virtual_fs \<Rightarrow> 's \<Rightarrow> 'r) \<Rightarrow> ('s, 'b) shared_fs \<Rightarrow> 'r \<times> ('s, 'b) shared_fs" where
  "ask q w = (let w1 = sf_turn w in (q (sf_ops w1) (sf_state w1), w1))"

definition issue :: "fs_call \<Rightarrow> ('s, 'b) shared_fs \<Rightarrow> (vfs_error + unit) \<times> ('s, 'b) shared_fs" where
  "issue call w =
     (let w1 = sf_turn w
      in case vfs_call (sf_ops w1) (sf_state w1) call of (r, s) \<Rightarrow> (r, w1\<lparr>sf_state := s\<rparr>))"

abbreviation ask_read :: "string \<Rightarrow> ('s, 'b) shared_fs \<Rightarrow> (vfs_error + bytes) \<times> ('s, 'b) shared_fs" where
  "ask_read p \<equiv> ask (\<lambda>F s. vfs_read F s p)"

abbreviation ask_metadata :: "string \<Rightarrow> ('s, 'b) shared_fs \<Rightarrow> (vfs_error + fs_metadata) \<times> ('s, 'b) shared_fs" where
  "ask_metadata p \<equiv> ask (\<lambda>F s. vfs_metadata F s p)"

abbreviation ask_exists :: "string \<Rightarrow> ('s, 'b) shared_fs \<Rightarrow> bool \<times> ('s, 'b) shared_fs" where
  "ask_exists p \<equiv> ask (\<lambda>F s. vfs_exists F s p)"

abbreviation ask_list_dir :: "string \<Rightarrow> ('s, 'b) shared_fs \<Rightarrow> (vfs_error + string list) \<times> ('s, 'b) shared_fs" where
  "ask_list_dir p \<equiv> ask (\<lambda>F s. vfs_list_dir F s p)"

section \<open>The cell\<close>

datatype sandbox_error =
    SbCapabilityDenied capability_denied
  | SbBudgetExhausted budget_exhausted
  | SbShell string
  | SbHttp string
  | SbJs string
  | SbVfs vfs_error
  | SbInternal string

fun show_sandbox_error :: "sandbox_error \<Rightarrow> string" where
  "show_sandbox_error (SbCapabilityDenied d) = ''capability denied: '' @ show_capability_denied d"
| "show_sandbox_error (SbBudgetExhausted b) = ''budget exhausted: '' @ show_budget_exhausted b"
| "show_sandbox_error (SbShell m) = ''shell error: '' @ m"
| "show_sandbox_error (SbHttp m) = ''http error: '' @ m"
| "show_sandbox_error (SbJs m) = ''js error: '' @ m"
| "show_sandbox_error (SbVfs e) = ''vfs error: '' @ show_vfs_error e"
| "show_sandbox_error (SbInternal m) = ''internal error: '' @ m"

record ('s, 'b, 'j, 'v, 'd) agent_cell =
  ce_vfs :: "('s, 'b) shared_fs"
  ce_capability :: capability_token
  ce_budget :: "'d resource_budget"
  ce_storage :: "('j, 'v, 'd) journal_storage"
  ce_journal :: 'j
  ce_agent_id :: agent_id

definition on_vfs ::
  "(('s, 'b) shared_fs \<Rightarrow> 'r \<times> ('s, 'b) shared_fs) \<Rightarrow> ('s, 'b, 'j, 'v, 'd) agent_cell \<Rightarrow>
   'r \<times> ('s, 'b, 'j, 'v, 'd) agent_cell" where
  "on_vfs f c = (case f (ce_vfs c) of (r, w) \<Rightarrow> (r, c\<lparr>ce_vfs := w\<rparr>))"

definition log_entry ::
  "'v journal_entry_kind \<Rightarrow> ('s, 'b, 'j, 'v, 'd) agent_cell \<Rightarrow> (journal_error + unit) \<times> ('s, 'b, 'j, 'v, 'd) agent_cell" where
  "log_entry kind c =
     (case js_append (ce_storage c) (ce_journal c)
             \<lparr>je_schema_version = JOURNAL_SCHEMA_VERSION, je_agent_id = ce_agent_id c, je_timestamp_ms = 0, je_entry = kind\<rparr> of
        (r, j) \<Rightarrow> (r, c\<lparr>ce_journal := j\<rparr>))"

text \<open>An append whose failure is only logged.\<close>

definition note_entry :: "'v journal_entry_kind \<Rightarrow> ('s, 'b, 'j, 'v, 'd) agent_cell \<Rightarrow> ('s, 'b, 'j, 'v, 'd) agent_cell" where
  "note_entry kind c = snd (log_entry kind c)"

section \<open>Guards\<close>

definition journal_denial ::
  "string \<Rightarrow> capability_denied \<Rightarrow> ('s, 'b, 'j, 'v, 'd) agent_cell \<Rightarrow> ('s, 'b, 'j, 'v, 'd) agent_cell" where
  "journal_denial operation d =
     note_entry (ToolResult None operation
       (''capability denied: '' @ denied_operation d @ '' - '' @ denied_reason d) True [])"

definition journal_budget_exhaustion ::
  "budget_exhausted \<Rightarrow> ('s, 'b, 'j, 'v, 'd) agent_cell \<Rightarrow> ('s, 'b, 'j, 'v, 'd) agent_cell" where
  "journal_budget_exhaustion b =
     note_entry (ToolResult None (be_resource b)
       (''budget exhausted: '' @ be_resource b @ '' - used '' @ be_used b @ '', limit '' @ be_limit b) True [])"

definition check_and_journal_capability ::
  "(capability_denied + unit) \<Rightarrow> string \<Rightarrow> ('s, 'b, 'j, 'v, 'd) agent_cell \<Rightarrow>
   (sandbox_error + unit) \<times> ('s, 'b, 'j, 'v, 'd) agent_cell" where
  "check_and_journal_capability check operation c =
     (case check of
        Inl d \<Rightarrow> (Err (SbCapabilityDenied d), journal_denial operation d c)
      | Inr _ \<Rightarrow> (Ok (), c))"

definition refuse_budget ::
  "budget_exhausted \<Rightarrow> ('s, 'b, 'j, 'v, 'd) agent_cell \<Rightarrow> (sandbox_error + unit) \<times> ('s, 'b, 'j, 'v, 'd) agent_cell" where
  "refuse_budget b c = (Err (SbBudgetExhausted b), journal_budget_exhaustion b c)"

definition turns_exhausted :: "'d resource_budget \<Rightarrow> budget_exhausted option" where
  "turns_exhausted b =
     (if max_turns b > 0 \<and> used_turns b \<ge> max_turns b
      then Some (exhausted ''turns'' (show_word (used_turns b)) (show_word (max_turns b))) else None)"

definition check_turns_budget ::
  "('s, 'b, 'j, 'v, 'd) agent_cell \<Rightarrow> (sandbox_error + unit) \<times> ('s, 'b, 'j, 'v, 'd) agent_cell" where
  "check_turns_budget c =
     (case turns_exhausted (ce_budget c) of Some e \<Rightarrow> refuse_budget e c | None \<Rightarrow> (Ok (), c))"

text \<open>The increment is the wrapping one of a release build.\<close>

definition reserve_turn ::
  "('s, 'b, 'j, 'v, 'd) agent_cell \<Rightarrow> (sandbox_error + unit) \<times> ('s, 'b, 'j, 'v, 'd) agent_cell" where
  "reserve_turn c =
     (case turns_exhausted (ce_budget c) of
        Some e \<Rightarrow> refuse_budget e c
      | None \<Rightarrow> (Ok (), c\<lparr>ce_budget := (ce_budget c)\<lparr>used_turns := used_turns (ce_budget c) + 1\<rparr>\<rparr>))"

text \<open>The checks that \<open>reserve_vfs_bytes\<close> and \<open>preflight_vfs_write_bytes\<close> share.\<close>

definition vfs_bytes_exhausted :: "u64 \<Rightarrow> 'd resource_budget \<Rightarrow> budget_exhausted option" where
  "vfs_bytes_exhausted n b =
     (let projected = sat_add (used_vfs_bytes b) n
      in if max_vfs_bytes b > 0 \<and> used_vfs_bytes b \<ge> max_vfs_bytes b
         then Some (exhausted ''vfs_bytes'' (show_word (used_vfs_bytes b)) (show_word (max_vfs_bytes b)))
         else if max_vfs_bytes b > 0 \<and> projected > max_vfs_bytes b
         then Some (exhausted ''vfs_bytes'' (show_word projected) (show_word (max_vfs_bytes b)))
         else None)"

definition reserve_vfs_bytes ::
  "u64 \<Rightarrow> ('s, 'b, 'j, 'v, 'd) agent_cell \<Rightarrow> (sandbox_error + unit) \<times> ('s, 'b, 'j, 'v, 'd) agent_cell" where
  "reserve_vfs_bytes n c =
     (case vfs_bytes_exhausted n (ce_budget c) of
        Some e \<Rightarrow> refuse_budget e c
      | None \<Rightarrow> (Ok (), c\<lparr>ce_budget := (ce_budget c)\<lparr>used_vfs_bytes := sat_add (used_vfs_bytes (ce_budget c)) n\<rparr>\<rparr>))"

definition release_vfs_bytes :: "u64 \<Rightarrow> ('s, 'b, 'j, 'v, 'd) agent_cell \<Rightarrow> ('s, 'b, 'j, 'v, 'd) agent_cell" where
  "release_vfs_bytes n c =
     c\<lparr>ce_budget := (ce_budget c)\<lparr>used_vfs_bytes := sat_sub (used_vfs_bytes (ce_budget c)) n\<rparr>\<rparr>"

fun is_outcome_unknown :: "vfs_error \<Rightarrow> bool" where
  "is_outcome_unknown (OutcomeUnknown _) = True"
| "is_outcome_unknown _ = False"

fun is_not_found :: "vfs_error \<Rightarrow> bool" where
  "is_not_found (NotFound _) = True"
| "is_not_found _ = False"

fun is_conflict :: "vfs_error \<Rightarrow> bool" where
  "is_conflict (Conflict _) = True"
| "is_conflict _ = False"

fun is_unsupported :: "vfs_error \<Rightarrow> bool" where
  "is_unsupported (Unsupported _) = True"
| "is_unsupported _ = False"

definition release_unless_unknown ::
  "vfs_error \<Rightarrow> u64 \<Rightarrow> ('s, 'b, 'j, 'v, 'd) agent_cell \<Rightarrow> ('s, 'b, 'j, 'v, 'd) agent_cell" where
  "release_unless_unknown e n c = (if is_outcome_unknown e then c else release_vfs_bytes n c)"

section \<open>Reading and writing a file\<close>

definition read_file_inner ::
  "string \<Rightarrow> ('s, 'b, 'j, 'v, 'd) agent_cell \<Rightarrow> (sandbox_error + bytes) \<times> ('s, 'b, 'j, 'v, 'd) agent_cell" where
  "read_file_inner path c0 =
     seq (check_and_journal_capability (check_path_read (ce_capability c0) path) ''read_file'')
       (\<lambda>_ c. case on_vfs (ask_read path) c of
          (Inl e, c1) \<Rightarrow> (Err (SbVfs e), note_entry (ToolResult None ''read_file'' (show_vfs_error e) True []) c1)
        | (Inr data, c1) \<Rightarrow>
            (Ok data, note_entry (ToolResult None ''read_file''
               (''read '' @ show_nat (length data) @ '' bytes from '' @ path) False []) c1)) c0"

definition write_file_inner ::
  "string \<Rightarrow> bytes \<Rightarrow> ('s, 'b, 'j, 'v, 'd) agent_cell \<Rightarrow> (sandbox_error + unit) \<times> ('s, 'b, 'j, 'v, 'd) agent_cell" where
  "write_file_inner path data c0 =
     seq (check_and_journal_capability (check_path_write (ce_capability c0) path) ''write_file'')
       (\<lambda>_. seq (reserve_vfs_bytes (of_nat (length data)))
         (\<lambda>_ c. case on_vfs (issue (CWrite path data)) (note_entry (FileWrite path (of_nat (length data))) c) of
            (Inl e, c1) \<Rightarrow> (Err (SbVfs e), release_unless_unknown e (of_nat (length data)) c1)
          | (Inr _, c1) \<Rightarrow> (Ok (), c1))) c0"

section \<open>Queries and admission checks of the cell\<close>

definition preflight_path_write ::
  "string \<Rightarrow> ('s, 'b, 'j, 'v, 'd) agent_cell \<Rightarrow> (sandbox_error + unit) \<times> ('s, 'b, 'j, 'v, 'd) agent_cell" where
  "preflight_path_write path c =
     check_and_journal_capability (check_path_write (ce_capability c) path) ''preflight_path_write'' c"

definition path_exists_for_write ::
  "string \<Rightarrow> ('s, 'b, 'j, 'v, 'd) agent_cell \<Rightarrow> (sandbox_error + bool) \<times> ('s, 'b, 'j, 'v, 'd) agent_cell" where
  "path_exists_for_write path c0 =
     seq (check_and_journal_capability (check_path_write (ce_capability c0) path) ''path_exists_for_write'')
       (\<lambda>_ c. case on_vfs (ask_exists path) c of (b, c1) \<Rightarrow> (Ok b, c1)) c0"

definition preflight_vfs_write_bytes ::
  "u64 \<Rightarrow> ('s, 'b, 'j, 'v, 'd) agent_cell \<Rightarrow> (sandbox_error + unit) \<times> ('s, 'b, 'j, 'v, 'd) agent_cell" where
  "preflight_vfs_write_bytes n c =
     (case vfs_bytes_exhausted n (ce_budget c) of Some e \<Rightarrow> refuse_budget e c | None \<Rightarrow> (Ok (), c))"

definition cell_list_dir_bounded ::
  "string \<Rightarrow> ('s, 'b, 'j, 'v, 'd) agent_cell \<Rightarrow> (sandbox_error + dir_listing) \<times> ('s, 'b, 'j, 'v, 'd) agent_cell" where
  "cell_list_dir_bounded path c0 =
     seq (check_and_journal_capability (check_path_read (ce_capability c0) path) ''list_dir'')
       (\<lambda>_. seq (\<lambda>c. convert_err SbVfs (on_vfs (ask (\<lambda>F s. vfs_list_dir_bounded F s path)) c))
         (\<lambda>listing c.
            (Ok listing,
             if path = ''/proc'' \<or> starts_with path ''/proc/''
             then note_entry (ToolResult None ''list_dir''
                    (''listed '' @ show_nat (length (dl_entries listing)) @ '' entries in '' @ path) False []) c
             else c))) c0"

definition cell_list_dir ::
  "string \<Rightarrow> ('s, 'b, 'j, 'v, 'd) agent_cell \<Rightarrow> (sandbox_error + string list) \<times> ('s, 'b, 'j, 'v, 'd) agent_cell" where
  "cell_list_dir path = seq (cell_list_dir_bounded path) (\<lambda>listing c. (Ok (dl_entries listing), c))"

definition cell_metadata ::
  "string \<Rightarrow> ('s, 'b, 'j, 'v, 'd) agent_cell \<Rightarrow> (sandbox_error + fs_metadata) \<times> ('s, 'b, 'j, 'v, 'd) agent_cell" where
  "cell_metadata path c0 =
     seq (check_and_journal_capability
            (map_err (\<lambda>d. d\<lparr>denied_operation := ''path_read''\<rparr>) (check_path_read (ce_capability c0) path)) ''metadata'')
       (\<lambda>_ c. convert_err SbVfs (on_vfs (ask_metadata path) c)) c0"

definition set_vfs_byte_budget :: "u64 \<Rightarrow> ('s, 'b, 'j, 'v, 'd) agent_cell \<Rightarrow> ('s, 'b, 'j, 'v, 'd) agent_cell" where
  "set_vfs_byte_budget n c = c\<lparr>ce_budget := (ce_budget c)\<lparr>max_vfs_bytes := n\<rparr>\<rparr>"

definition vfs_byte_budget :: "('s, 'b, 'j, 'v, 'd) agent_cell \<Rightarrow> u64" where
  "vfs_byte_budget c = max_vfs_bytes (ce_budget c)"

definition set_agent_id :: "agent_id \<Rightarrow> ('s, 'b, 'j, 'v, 'd) agent_cell \<Rightarrow> ('s, 'b, 'j, 'v, 'd) agent_cell" where
  "set_agent_id a c = c\<lparr>ce_agent_id := a\<rparr>"

end
