(* ===== verification/Sandbox_Proxy.thy ===== *)
theory Sandbox_Proxy
  imports Sandbox_Cell
begin

text \<open>
  The filesystem that scripts and the mediated shell see (\<^verbatim>\<open>simulacra-sandbox/src/fs_proxy.rs\<close>,
  \<^verbatim>\<open>fs_proxy_append.rs\<close>, \<^verbatim>\<open>fs_proxy_rename.rs\<close>, \<^verbatim>\<open>fs_proxy_vfs.rs\<close>): every operation of the
  \<open>FsProxy\<close> and of the \<open>VirtualFs\<close> implementation.  The proxy is built from the shared parts of its cell, so
  its operations are functions on the cell.  The stack depth left for the recursive copy is an argument;
  running out of it is \<open>None\<close>.
\<close>

section \<open>Shared steps\<close>

definition px_check_read ::
  "string \<Rightarrow> string \<Rightarrow> ('s, 'b, 'j, 'v, 'd) agent_cell \<Rightarrow> (string + unit) \<times> ('s, 'b, 'j, 'v, 'd) agent_cell" where
  "px_check_read path operation c =
     convert_err show_sandbox_error (check_and_journal_capability (check_path_read (ce_capability c) path) operation c)"

definition px_check_write ::
  "string \<Rightarrow> string \<Rightarrow> ('s, 'b, 'j, 'v, 'd) agent_cell \<Rightarrow> (string + unit) \<times> ('s, 'b, 'j, 'v, 'd) agent_cell" where
  "px_check_write path operation c =
     convert_err show_sandbox_error (check_and_journal_capability (check_path_write (ce_capability c) path) operation c)"

definition reserve_write_budget ::
  "nat \<Rightarrow> ('s, 'b, 'j, 'v, 'd) agent_cell \<Rightarrow> (string + unit) \<times> ('s, 'b, 'j, 'v, 'd) agent_cell" where
  "reserve_write_budget n c = convert_err show_sandbox_error (reserve_vfs_bytes (of_nat n) c)"

definition release_write_budget ::
  "vfs_error \<Rightarrow> nat \<Rightarrow> ('s, 'b, 'j, 'v, 'd) agent_cell \<Rightarrow> ('s, 'b, 'j, 'v, 'd) agent_cell" where
  "release_write_budget e n = release_unless_unknown e (of_nat n)"

definition journal_file_write :: "string \<Rightarrow> nat \<Rightarrow> ('s, 'b, 'j, 'v, 'd) agent_cell \<Rightarrow> ('s, 'b, 'j, 'v, 'd) agent_cell" where
  "journal_file_write path n = note_entry (FileWrite path (of_nat n))"

definition journal_result ::
  "string \<Rightarrow> string \<Rightarrow> bool \<Rightarrow> ('s, 'b, 'j, 'v, 'd) agent_cell \<Rightarrow> ('s, 'b, 'j, 'v, 'd) agent_cell" where
  "journal_result operation text is_error = note_entry (ToolResult None operation text is_error [])"

definition px_finish ::
  "string \<Rightarrow> ('a \<Rightarrow> string) \<Rightarrow> (vfs_error + 'a) \<times> ('s, 'b, 'j, 'v, 'd) agent_cell \<Rightarrow>
   (string + 'a) \<times> ('s, 'b, 'j, 'v, 'd) agent_cell" where
  "px_finish operation ok_content rc =
     (case rc of
        (Inr x, c) \<Rightarrow> (Ok x, journal_result operation (ok_content x) False c)
      | (Inl e, c) \<Rightarrow> (Err (show_vfs_error e), journal_result operation (show_vfs_error e) True c))"

fun show_bool :: "bool \<Rightarrow> string" where
  "show_bool True = ''true''"
| "show_bool False = ''false''"

definition stat_metadata ::
  "string \<Rightarrow> ('s, 'b, 'j, 'v, 'd) agent_cell \<Rightarrow> (vfs_error + fs_metadata) \<times> ('s, 'b, 'j, 'v, 'd) agent_cell" where
  "stat_metadata path =
     seq (\<lambda>c. convert_err PermissionDenied (px_check_read path ''stat'' c))
       (\<lambda>_ c. case on_vfs (ask_metadata path) c of
          (Inr m, c1) \<Rightarrow>
            (Ok m, journal_result ''stat'' (''stat '' @ path @ '': file='' @ show_bool (md_is_file m) @ '', dir=''
               @ show_bool (md_is_dir m) @ '', size='' @ show_word (md_size m)) False c1)
        | (Inl e, c1) \<Rightarrow> (Err e, journal_result ''stat'' (show_vfs_error e) True c1))"

section \<open>Appending\<close>

datatype observed = Stable bytes precondition | Changed

datatype attempted = Done | Raced

definition fs_revision :: "string \<Rightarrow> ('s, 'b) shared_fs \<Rightarrow> (vfs_error + u64 option) \<times> ('s, 'b) shared_fs" where
  "fs_revision path w = (case ask_metadata path w of (r, w1) \<Rightarrow> (map_sum id md_revision r, w1))"

text \<open>The match on the two revisions around the read; the order of its arms matters.\<close>

definition pinned :: "vfs_error + u64 option \<Rightarrow> vfs_error + u64 option \<Rightarrow> vfs_error + precondition option" where
  "pinned before after =
     (case (before, after) of
        (Inr b, Inr a) \<Rightarrow>
          (case (b, a) of
             (Some rb, Some ra) \<Rightarrow> Ok (if ra = rb then Some (MustMatch ra) else None)
           | (None, None) \<Rightarrow> Ok (Some Unconditional)
           | _ \<Rightarrow> Ok None)
      | (Inl e, Inr _) \<Rightarrow> if is_not_found e then Ok None else Err e
      | (Inr _, Inl e) \<Rightarrow> if is_not_found e then Ok None else Err e
      | (Inl e, Inl f) \<Rightarrow> if is_not_found e \<or> is_not_found f then Ok None else Err e)"

definition observe :: "string \<Rightarrow> ('s, 'b) shared_fs \<Rightarrow> (vfs_error + observed) \<times> ('s, 'b) shared_fs" where
  "observe path w =
     (case fs_revision path w of
        (before, w1) \<Rightarrow>
          (case ask_read path w1 of
             (Inl e, w2) \<Rightarrow> (if is_not_found e then Ok (Stable [] MustBeAbsent) else Err e, w2)
           | (Inr existing, w2) \<Rightarrow>
               (case fs_revision path w2 of
                  (after, w3) \<Rightarrow>
                    (map_sum id (\<lambda>p. case p of Some c \<Rightarrow> Stable existing c | None \<Rightarrow> Changed) (pinned before after), w3))))"

definition attempt ::
  "string \<Rightarrow> bytes \<Rightarrow> ('s, 'b) shared_fs \<Rightarrow> (vfs_error + attempted) \<times> ('s, 'b) shared_fs" where
  "attempt path data w =
     (case observe path w of
        (Inl e, w1) \<Rightarrow> (Err e, w1)
      | (Inr Changed, w1) \<Rightarrow> (Ok Raced, w1)
      | (Inr (Stable existing c), w1) \<Rightarrow>
          (case issue (CWriteIf path (existing @ data) c) w1 of
             (Inr _, w2) \<Rightarrow> (Ok Done, w2)
           | (Inl e, w2) \<Rightarrow>
               if is_unsupported e
               then (case issue (CWrite path (existing @ data)) w2 of (r, w3) \<Rightarrow> (map_sum id (\<lambda>_. Done) r, w3))
               else (if is_conflict e then Ok Raced else Err e, w2)))"

definition append_conditionally ::
  "string \<Rightarrow> bytes \<Rightarrow> ('s, 'b) shared_fs \<Rightarrow> (vfs_error + unit) \<times> ('s, 'b) shared_fs" where
  "append_conditionally path data =
     seq (attempt path data)
       (\<lambda>a w. case a of
          Done \<Rightarrow> (Ok (), w)
        | Raced \<Rightarrow>
            seq (attempt path data)
              (\<lambda>a' w'. case a' of
                 Done \<Rightarrow> (Ok (), w')
               | Raced \<Rightarrow> (Err (Conflict ''append raced with another writer twice''), w')) w)"

section \<open>Renaming\<close>

type_synonym ('s, 'b, 'j, 'v, 'd) copy_write =
  "string \<Rightarrow> bytes \<Rightarrow> ('s, 'b, 'j, 'v, 'd) agent_cell \<Rightarrow> (vfs_error + unit) \<times> ('s, 'b, 'j, 'v, 'd) agent_cell"

definition charged_copy_write :: "('s, 'b, 'j, 'v, 'd) copy_write" where
  "charged_copy_write path data =
     seq (\<lambda>c. convert_err PermissionDenied (reserve_write_budget (length data) c))
       (\<lambda>_ c. case on_vfs (issue (CWrite path data)) (journal_file_write path (length data) c) of
          (Inl e, c1) \<Rightarrow> (Err e, release_write_budget e (length data) c1)
        | (Inr _, c1) \<Rightarrow> (Ok (), c1))"

definition join_vfs_path :: "string \<Rightarrow> string \<Rightarrow> string" where
  "join_vfs_path parent child =
     (if parent = ''/'' then ''/'' @ child else trim_end_char slash parent @ ''/'' @ child)"

text \<open>The loop over the children of a directory; \<open>None\<close> when the stack was exhausted below.\<close>

fun copy_children ::
  "(string \<Rightarrow> string \<Rightarrow> 'c \<Rightarrow> ((vfs_error + unit) \<times> 'c) option) \<Rightarrow> string \<Rightarrow> string \<Rightarrow> string list \<Rightarrow> 'c \<Rightarrow>
   ((vfs_error + unit) \<times> 'c) option" where
  "copy_children copy from to [] c = Some (Ok (), c)"
| "copy_children copy from to (child # children) c =
     (case copy (join_vfs_path from child) (join_vfs_path to child) c of
        None \<Rightarrow> None
      | Some (Inl e, c1) \<Rightarrow> Some (Err e, c1)
      | Some (Inr _, c1) \<Rightarrow> copy_children copy from to children c1)"

fun copy_vfs_entry ::
  "('s, 'b, 'j, 'v, 'd) copy_write \<Rightarrow> nat \<Rightarrow> string \<Rightarrow> string \<Rightarrow> ('s, 'b, 'j, 'v, 'd) agent_cell \<Rightarrow>
   ((vfs_error + unit) \<times> ('s, 'b, 'j, 'v, 'd) agent_cell) option" where
  "copy_vfs_entry wr 0 from to c = None"
| "copy_vfs_entry wr (Suc depth) from to c =
     (case on_vfs (ask_metadata from) c of
        (Inl e, c1) \<Rightarrow> Some (Err e, c1)
      | (Inr m, c1) \<Rightarrow>
          if md_is_file m
          then Some (seq (on_vfs (ask_read from)) (wr to) c1)
          else (case on_vfs (issue (CMkdir to)) c1 of
                  (Inl e, c2) \<Rightarrow> Some (Err e, c2)
                | (Inr _, c2) \<Rightarrow>
                    (case on_vfs (ask_list_dir from) c2 of
                       (Inl e, c3) \<Rightarrow> Some (Err e, c3)
                     | (Inr children, c3) \<Rightarrow> copy_children (copy_vfs_entry wr depth) from to children c3)))"

fun pin_of :: "u64 option \<Rightarrow> precondition" where
  "pin_of None = Unconditional"
| "pin_of (Some r) = MustMatch r"

text \<open>The value of the local \<open>atomic\<close>, or on the left an early return.\<close>

definition rename_atomic ::
  "fs_metadata \<Rightarrow> string \<Rightarrow> string \<Rightarrow> ('s, 'b) shared_fs \<Rightarrow> (vfs_error + (vfs_error + unit)) \<times> ('s, 'b) shared_fs" where
  "rename_atomic src from to w =
     (case ask_metadata to w of
        (Inl e, w1) \<Rightarrow>
          if is_not_found e then (case issue (CRename from to) w1 of (r, w2) \<Rightarrow> (Ok r, w2)) else (Err e, w1)
      | (Inr target, w1) \<Rightarrow>
          if md_is_dir target then (Err (Conflict (''destination is a directory: '' @ to)), w1)
          else if md_is_dir src then (Err (Conflict (''cannot replace a file with a directory: '' @ to)), w1)
          else (case issue (CBatch [MRemove to (pin_of (md_revision target)),
                                    MRename from to (pin_of (md_revision src))]) w1 of (r, w2) \<Rightarrow> (Ok r, w2)))"

definition rename_replacing ::
  "('s, 'b, 'j, 'v, 'd) copy_write \<Rightarrow> nat \<Rightarrow> string \<Rightarrow> string \<Rightarrow> ('s, 'b, 'j, 'v, 'd) agent_cell \<Rightarrow>
   ((vfs_error + unit) \<times> ('s, 'b, 'j, 'v, 'd) agent_cell) option" where
  "rename_replacing wr depth from to c =
     (case on_vfs (ask_metadata from) c of
        (Inl e, c1) \<Rightarrow> Some (Err e, c1)
      | (Inr src, c1) \<Rightarrow>
          if normalize_path from = normalize_path to then Some (Ok (), c1)
          else
            (case on_vfs (rename_atomic src from to) c1 of
               (Inl e, c2) \<Rightarrow> Some (Err e, c2)
             | (Inr (Inr _), c2) \<Rightarrow> Some (Ok (), c2)
             | (Inr (Inl e), c2) \<Rightarrow>
                 if \<not> is_unsupported e then Some (Err e, c2)
                 else (case copy_vfs_entry wr depth from to c2 of
                         None \<Rightarrow> None
                       | Some (Inl e, c3) \<Rightarrow> Some (Err e, c3)
                       | Some (Inr _, c3) \<Rightarrow> Some (on_vfs (issue (CRemove from)) c3))))"

section \<open>The proxy of scripts\<close>

definition px_read_file ::
  "string \<Rightarrow> ('s, 'b, 'j, 'v, 'd) agent_cell \<Rightarrow> (string + bytes) \<times> ('s, 'b, 'j, 'v, 'd) agent_cell" where
  "px_read_file path c = convert_err show_sandbox_error (read_file_inner path c)"

definition px_write_file ::
  "string \<Rightarrow> bytes \<Rightarrow> ('s, 'b, 'j, 'v, 'd) agent_cell \<Rightarrow> (string + unit) \<times> ('s, 'b, 'j, 'v, 'd) agent_cell" where
  "px_write_file path data c = convert_err show_sandbox_error (write_file_inner path data c)"

definition px_append_file ::
  "string \<Rightarrow> bytes \<Rightarrow> ('s, 'b, 'j, 'v, 'd) agent_cell \<Rightarrow> (string + unit) \<times> ('s, 'b, 'j, 'v, 'd) agent_cell" where
  "px_append_file path data =
     seq (px_check_write path ''append_file'')
       (\<lambda>_. seq (reserve_write_budget (length data))
         (\<lambda>_ c. case on_vfs (append_conditionally path data) (journal_file_write path (length data) c) of
            (Inl e, c1) \<Rightarrow> (Err (show_vfs_error e), release_write_budget e (length data) c1)
          | (Inr _, c1) \<Rightarrow> (Ok (), c1)))"

definition px_list_dir_bounded ::
  "string \<Rightarrow> ('s, 'b, 'j, 'v, 'd) agent_cell \<Rightarrow>
   (string + string list \<times> bool) \<times> ('s, 'b, 'j, 'v, 'd) agent_cell" where
  "px_list_dir_bounded path =
     seq (px_check_read path ''list_dir'')
       (\<lambda>_. seq (\<lambda>c. px_finish ''list_dir''
                  (\<lambda>l. ''listed '' @ show_nat (length (dl_entries l)) @ '' entries in '' @ path)
                  (on_vfs (ask (\<lambda>F s. vfs_list_dir_bounded F s path)) c))
         (\<lambda>l c. (Ok (dl_entries l, dl_truncated l), c)))"

definition px_list_dir ::
  "string \<Rightarrow> ('s, 'b, 'j, 'v, 'd) agent_cell \<Rightarrow> (string + string list) \<times> ('s, 'b, 'j, 'v, 'd) agent_cell" where
  "px_list_dir path = seq (px_list_dir_bounded path) (\<lambda>l c. (Ok (fst l), c))"

definition px_stat ::
  "string \<Rightarrow> ('s, 'b, 'j, 'v, 'd) agent_cell \<Rightarrow>
   (string + bool \<times> bool \<times> u64) \<times> ('s, 'b, 'j, 'v, 'd) agent_cell" where
  "px_stat path =
     seq (\<lambda>c. convert_err show_vfs_error (stat_metadata path c))
       (\<lambda>m c. (Ok (md_is_file m, md_is_dir m, md_size m), c))"

definition px_remove ::
  "string \<Rightarrow> ('s, 'b, 'j, 'v, 'd) agent_cell \<Rightarrow> (string + unit) \<times> ('s, 'b, 'j, 'v, 'd) agent_cell" where
  "px_remove path =
     seq (px_check_write path ''remove'')
       (\<lambda>_. seq (reserve_write_budget 0)
         (\<lambda>_ c. px_finish ''remove'' (\<lambda>_. ''removed '' @ path) (on_vfs (issue (CRemove path)) c)))"

definition px_rename ::
  "nat \<Rightarrow> string \<Rightarrow> string \<Rightarrow> ('s, 'b, 'j, 'v, 'd) agent_cell \<Rightarrow>
   ((string + unit) \<times> ('s, 'b, 'j, 'v, 'd) agent_cell) option" where
  "px_rename depth from to c =
     (case seq (px_check_write from ''rename'')
             (\<lambda>_. seq (px_check_write to ''rename'') (\<lambda>_. reserve_write_budget 0)) c of
        (Inl e, c1) \<Rightarrow> Some (Err e, c1)
      | (Inr _, c1) \<Rightarrow>
          map_option (px_finish ''rename'' (\<lambda>_. ''renamed '' @ from @ '' to '' @ to))
            (rename_replacing charged_copy_write depth from to c1))"

definition px_exists ::
  "string \<Rightarrow> ('s, 'b, 'j, 'v, 'd) agent_cell \<Rightarrow> (string + bool) \<times> ('s, 'b, 'j, 'v, 'd) agent_cell" where
  "px_exists path =
     seq (px_check_read path ''exists'') (\<lambda>_ c. case on_vfs (ask_exists path) c of (b, c1) \<Rightarrow> (Ok b, c1))"

definition px_mkdir ::
  "string \<Rightarrow> ('s, 'b, 'j, 'v, 'd) agent_cell \<Rightarrow> (string + unit) \<times> ('s, 'b, 'j, 'v, 'd) agent_cell" where
  "px_mkdir path =
     seq (px_check_write path ''mkdir'')
       (\<lambda>_. seq (reserve_write_budget 0)
         (\<lambda>_ c. px_finish ''mkdir'' (\<lambda>_. ''created directory '' @ path) (on_vfs (issue (CMkdir path)) c)))"

section \<open>The filesystem of the mediated shell\<close>

definition mx_read ::
  "string \<Rightarrow> ('s, 'b, 'j, 'v, 'd) agent_cell \<Rightarrow> (vfs_error + bytes) \<times> ('s, 'b, 'j, 'v, 'd) agent_cell" where
  "mx_read path c = convert_err PermissionDenied (px_read_file path c)"

definition mx_write ::
  "string \<Rightarrow> bytes \<Rightarrow> ('s, 'b, 'j, 'v, 'd) agent_cell \<Rightarrow> (vfs_error + unit) \<times> ('s, 'b, 'j, 'v, 'd) agent_cell" where
  "mx_write path data c = convert_err PermissionDenied (px_write_file path data c)"

definition mx_exists ::
  "string \<Rightarrow> ('s, 'b, 'j, 'v, 'd) agent_cell \<Rightarrow> bool \<times> ('s, 'b, 'j, 'v, 'd) agent_cell" where
  "mx_exists path c = (case px_exists path c of (Inr b, c1) \<Rightarrow> (b, c1) | (Inl _, c1) \<Rightarrow> (False, c1))"

definition mx_list_dir ::
  "string \<Rightarrow> ('s, 'b, 'j, 'v, 'd) agent_cell \<Rightarrow> (vfs_error + string list) \<times> ('s, 'b, 'j, 'v, 'd) agent_cell" where
  "mx_list_dir path c = convert_err PermissionDenied (px_list_dir path c)"

definition mx_mkdir ::
  "string \<Rightarrow> ('s, 'b, 'j, 'v, 'd) agent_cell \<Rightarrow> (vfs_error + unit) \<times> ('s, 'b, 'j, 'v, 'd) agent_cell" where
  "mx_mkdir path c = convert_err PermissionDenied (px_mkdir path c)"

definition mx_remove ::
  "string \<Rightarrow> ('s, 'b, 'j, 'v, 'd) agent_cell \<Rightarrow> (vfs_error + unit) \<times> ('s, 'b, 'j, 'v, 'd) agent_cell" where
  "mx_remove path c = convert_err PermissionDenied (px_remove path c)"

definition mx_metadata ::
  "string \<Rightarrow> ('s, 'b, 'j, 'v, 'd) agent_cell \<Rightarrow> (vfs_error + fs_metadata) \<times> ('s, 'b, 'j, 'v, 'd) agent_cell" where
  "mx_metadata = stat_metadata"

definition mx_snapshot ::
  "('s, 'b, 'j, 'v, 'd) agent_cell \<Rightarrow> (vfs_error + 'b) \<times> ('s, 'b, 'j, 'v, 'd) agent_cell" where
  "mx_snapshot c = (Err (PermissionDenied ''snapshot is not available through mediated shell fs''), c)"

definition mx_restore ::
  "'b \<Rightarrow> ('s, 'b, 'j, 'v, 'd) agent_cell \<Rightarrow> (vfs_error + unit) \<times> ('s, 'b, 'j, 'v, 'd) agent_cell" where
  "mx_restore snap c = (Err (PermissionDenied ''restore is not available through mediated shell fs''), c)"

definition mx_write_if ::
  "string \<Rightarrow> bytes \<Rightarrow> precondition \<Rightarrow> ('s, 'b, 'j, 'v, 'd) agent_cell \<Rightarrow>
   (vfs_error + unit) \<times> ('s, 'b, 'j, 'v, 'd) agent_cell" where
  "mx_write_if path data pre =
     seq (\<lambda>c. convert_err PermissionDenied (px_check_write path ''write_if'' c))
       (\<lambda>_. seq (\<lambda>c. convert_err PermissionDenied (reserve_write_budget (length data) c))
         (\<lambda>_ c. case on_vfs (issue (CWriteIf path data pre)) (journal_file_write path (length data) c) of
            (Inl e, c1) \<Rightarrow> (Err e, release_write_budget e (length data) c1)
          | (Inr _, c1) \<Rightarrow> (Ok (), c1)))"

definition mx_rename ::
  "string \<Rightarrow> string \<Rightarrow> ('s, 'b, 'j, 'v, 'd) agent_cell \<Rightarrow> (vfs_error + unit) \<times> ('s, 'b, 'j, 'v, 'd) agent_cell" where
  "mx_rename from to =
     seq (\<lambda>c. convert_err PermissionDenied (px_check_write from ''rename'' c))
       (\<lambda>_. seq (\<lambda>c. convert_err PermissionDenied (px_check_write to ''rename'' c))
         (\<lambda>_. seq (\<lambda>c. convert_err PermissionDenied (reserve_write_budget 0 c))
           (\<lambda>_ c. case on_vfs (issue (CRename from to)) c of
              (Inl e, c1) \<Rightarrow>
                (Err e, if is_unsupported e then c1 else journal_result ''rename'' (show_vfs_error e) True c1)
            | (Inr _, c1) \<Rightarrow>
                (Ok (), journal_result ''rename'' (''renamed '' @ from @ '' to '' @ to) False c1))))"

fun batch_write :: "fs_mutation \<Rightarrow> (string \<times> nat) option" where
  "batch_write (MWrite path data _) = Some (path, length data)"
| "batch_write _ = None"

fun check_all_writes ::
  "string list \<Rightarrow> ('s, 'b, 'j, 'v, 'd) agent_cell \<Rightarrow> (vfs_error + unit) \<times> ('s, 'b, 'j, 'v, 'd) agent_cell" where
  "check_all_writes [] c = (Ok (), c)"
| "check_all_writes (path # paths) c =
     seq (\<lambda>c. convert_err PermissionDenied (px_check_write path ''apply_batch'' c)) (\<lambda>_. check_all_writes paths) c"

definition mx_apply_batch ::
  "fs_mutation list \<Rightarrow> ('s, 'b, 'j, 'v, 'd) agent_cell \<Rightarrow> (vfs_error + unit) \<times> ('s, 'b, 'j, 'v, 'd) agent_cell" where
  "mx_apply_batch ms =
     (let writes = List.map_filter batch_write ms; size_bytes = sum_list (map snd writes)
      in seq (check_all_writes (concat (map mutation_paths ms)))
           (\<lambda>_. seq (\<lambda>c. convert_err PermissionDenied (reserve_write_budget size_bytes c))
             (\<lambda>_ c. case on_vfs (issue (CBatch ms)) (fold (\<lambda>(p, n). journal_file_write p n) writes c) of
                (Inr _, c1) \<Rightarrow>
                  (Ok (), journal_result ''apply_batch'' (''applied '' @ show_nat (length ms) @ '' mutations'') False c1)
              | (Inl e, c1) \<Rightarrow>
                  (let c2 = release_write_budget e size_bytes c1
                   in (Err e, if is_unsupported e then c2 else journal_result ''apply_batch'' (show_vfs_error e) True c2)))))"

definition mx_list_dir_bounded ::
  "string \<Rightarrow> ('s, 'b, 'j, 'v, 'd) agent_cell \<Rightarrow> (vfs_error + dir_listing) \<times> ('s, 'b, 'j, 'v, 'd) agent_cell" where
  "mx_list_dir_bounded path =
     seq (\<lambda>c. convert_err PermissionDenied (px_list_dir_bounded path c))
       (\<lambda>l c. (Ok \<lparr>dl_entries = fst l, dl_truncated = snd l\<rparr>, c))"

end
