(* ===== verification/Sandbox_Batch.thy ===== *)
theory Sandbox_Batch
  imports Sandbox_Cell
begin

text \<open>
  Batched mutations of an agent cell (\<^verbatim>\<open>simulacra-sandbox/src/vfs_mutation.rs\<close>, \<^verbatim>\<open>vfs_state.rs\<close>,
  \<^verbatim>\<open>vfs_batch.rs\<close>, \<^verbatim>\<open>vfs_mutation_journal.rs\<close>): admission, reservation, preparation with pinned revisions,
  journalling, the atomic commit and the item-by-item fallback with its rollback.
\<close>

section \<open>Mutations\<close>

datatype write_precondition = WpAny | WpMissing | WpMatches bytes

datatype vfs_mutation =
    VmWrite string bytes write_precondition
  | VmDelete string
  | VmMove string string
  | VmMoveAndWrite string string bytes "bytes option"

datatype prepared_mutation =
    PmWrite string bytes
  | PmDelete string
  | PmMove string string bytes
  | PmMoveAndWrite string string bytes

datatype path_state = PsMissing | PsFile bytes | PsDir

record rollback_entry =
  rb_path :: string
  rb_before :: path_state
  rb_expected_after :: path_state

type_synonym expectations = "(string \<times> path_state) list"

section \<open>Queries on the filesystem\<close>

definition ensure_vfs_path_missing :: "string \<Rightarrow> ('s, 'b) shared_fs \<Rightarrow> (vfs_error + unit) \<times> ('s, 'b) shared_fs" where
  "ensure_vfs_path_missing path w =
     (case ask_exists path w of (b, w1) \<Rightarrow> (if b then Err (AlreadyExists path) else Ok (), w1))"

definition rsplit_once :: "char \<Rightarrow> string \<Rightarrow> (string \<times> string) option" where
  "rsplit_once d s =
     map_option (\<lambda>(last_rev, init_rev). (rev init_rev, rev last_rev)) (split_once d (rev s))"

fun cumulative :: "string \<Rightarrow> string list \<Rightarrow> string list" where
  "cumulative current [] = []"
| "cumulative current (segment # segments) =
     (let next = current @ ''/'' @ segment in next # cumulative next segments)"

definition parent_paths :: "string \<Rightarrow> string list" where
  "parent_paths path =
     (case rsplit_once slash path of
        None \<Rightarrow> []
      | Some (parent, _) \<Rightarrow>
          let parent = (if parent = [] then ''/'' else parent)
          in cumulative [] (filter (\<lambda>segment. segment \<noteq> []) (split_on slash parent)))"

fun ensure_directories :: "string list \<Rightarrow> ('s, 'b) shared_fs \<Rightarrow> (vfs_error + unit) \<times> ('s, 'b) shared_fs" where
  "ensure_directories [] w = (Ok (), w)"
| "ensure_directories (parent # parents) w =
     (case ask_metadata parent w of
        (Inr m, w1) \<Rightarrow> if md_is_file m then (Err (NotADirectory parent), w1) else ensure_directories parents w1
      | (Inl e, w1) \<Rightarrow> if is_not_found e then ensure_directories parents w1 else (Err e, w1))"

definition ensure_parent_components_are_directories ::
  "string \<Rightarrow> ('s, 'b) shared_fs \<Rightarrow> (vfs_error + unit) \<times> ('s, 'b) shared_fs" where
  "ensure_parent_components_are_directories path = ensure_directories (parent_paths path)"

definition require_file :: "string \<Rightarrow> ('s, 'b) shared_fs \<Rightarrow> (vfs_error + unit) \<times> ('s, 'b) shared_fs" where
  "require_file path =
     seq (ask_metadata path) (\<lambda>m w. (if md_is_file m then Ok () else Err (NotAFile path), w))"

definition validate_file_matches ::
  "string \<Rightarrow> bytes \<Rightarrow> ('s, 'b) shared_fs \<Rightarrow> (vfs_error + unit) \<times> ('s, 'b) shared_fs" where
  "validate_file_matches path expected =
     seq (ask_metadata path)
       (\<lambda>m w. if \<not> md_is_file m then (Err (NotAFile path), w)
              else seq (ask_read path)
                (\<lambda>current w1. (if current \<noteq> expected
                               then Err (Io (''stale write precondition failed for '' @ path)) else Ok (), w1)) w)"

fun validate_write_precondition ::
  "string \<Rightarrow> write_precondition \<Rightarrow> ('s, 'b) shared_fs \<Rightarrow> (vfs_error + unit) \<times> ('s, 'b) shared_fs" where
  "validate_write_precondition path WpAny w =
     (case ask_metadata path w of
        (Inr m, w1) \<Rightarrow> (if md_is_dir m then Err (NotAFile path) else Ok (), w1)
      | (Inl _, w1) \<Rightarrow> (Ok (), w1))"
| "validate_write_precondition path WpMissing w = ensure_vfs_path_missing path w"
| "validate_write_precondition path (WpMatches expected) w = validate_file_matches path expected w"

fun record_missing_dirs :: "string list \<Rightarrow> string list \<Rightarrow> ('s, 'b) shared_fs \<Rightarrow> string list \<times> ('s, 'b) shared_fs" where
  "record_missing_dirs [] dirs w = (dirs, w)"
| "record_missing_dirs (parent # parents) dirs w =
     (case ask_exists parent w of
        (b, w1) \<Rightarrow> record_missing_dirs parents (if \<not> b \<and> parent \<notin> set dirs then dirs @ [parent] else dirs) w1)"

definition record_missing_parent_dirs ::
  "string \<Rightarrow> string list \<Rightarrow> ('s, 'b) shared_fs \<Rightarrow> string list \<times> ('s, 'b) shared_fs" where
  "record_missing_parent_dirs path = record_missing_dirs (parent_paths path)"

fun upsert_rollback_expectation :: "string \<Rightarrow> path_state \<Rightarrow> expectations \<Rightarrow> expectations" where
  "upsert_rollback_expectation path after [] = [(path, after)]"
| "upsert_rollback_expectation path after ((p, st) # es) =
     (if p = path then (p, after) # es else (p, st) # upsert_rollback_expectation path after es)"

section \<open>Rollback\<close>

definition capture_state :: "string \<Rightarrow> ('s, 'b) shared_fs \<Rightarrow> (vfs_error + path_state) \<times> ('s, 'b) shared_fs" where
  "capture_state path w =
     (case ask_metadata path w of
        (Inr m, w1) \<Rightarrow>
          if md_is_file m then seq (ask_read path) (\<lambda>d w2. (Ok (PsFile d), w2)) w1
          else (Ok (if md_is_dir m then PsDir else PsMissing), w1)
      | (Inl e, w1) \<Rightarrow> (if is_not_found e then Ok PsMissing else Err e, w1))"

fun capture_vfs_rollback_entries ::
  "expectations \<Rightarrow> ('s, 'b) shared_fs \<Rightarrow> (vfs_error + rollback_entry list) \<times> ('s, 'b) shared_fs" where
  "capture_vfs_rollback_entries [] w = (Ok [], w)"
| "capture_vfs_rollback_entries ((path, after) # es) w =
     seq (capture_state path)
       (\<lambda>st. seq (capture_vfs_rollback_entries es)
         (\<lambda>entries w2. (Ok (\<lparr>rb_path = path, rb_before = st, rb_expected_after = after\<rparr> # entries), w2))) w"

fun vfs_path_matches_state ::
  "string \<Rightarrow> path_state \<Rightarrow> ('s, 'b) shared_fs \<Rightarrow> (vfs_error + bool) \<times> ('s, 'b) shared_fs" where
  "vfs_path_matches_state path PsMissing w = (case ask_exists path w of (b, w1) \<Rightarrow> (Ok (\<not> b), w1))"
| "vfs_path_matches_state path (PsFile expected) w =
     (case ask_metadata path w of
        (Inr m, w1) \<Rightarrow>
          if md_is_file m then seq (ask_read path) (\<lambda>d w2. (Ok (d = expected), w2)) w1 else (Ok False, w1)
      | (Inl e, w1) \<Rightarrow> (if is_not_found e then Ok False else Err e, w1))"
| "vfs_path_matches_state path PsDir w =
     (case ask_metadata path w of
        (Inr m, w1) \<Rightarrow> (Ok (md_is_dir m), w1)
      | (Inl e, w1) \<Rightarrow> (if is_not_found e then Ok False else Err e, w1))"

definition revert_entry :: "rollback_entry \<Rightarrow> ('s, 'b) shared_fs \<Rightarrow> (vfs_error + unit) \<times> ('s, 'b) shared_fs" where
  "revert_entry en w =
     (case rb_before en of
        PsMissing \<Rightarrow>
          (case ask_exists (rb_path en) w of (b, w1) \<Rightarrow> if b then issue (CRemove (rb_path en)) w1 else (Ok (), w1))
      | PsFile data \<Rightarrow> issue (CWrite (rb_path en) data) w
      | PsDir \<Rightarrow> issue (CMkdir (rb_path en)) w)"

text \<open>The two loops of \<open>restore_vfs_path_states\<close>, each over an already reversed list.\<close>

fun revert_entries :: "rollback_entry list \<Rightarrow> ('s, 'b) shared_fs \<Rightarrow> (vfs_error + unit) \<times> ('s, 'b) shared_fs" where
  "revert_entries [] w = (Ok (), w)"
| "revert_entries (en # ens) w =
     seq (vfs_path_matches_state (rb_path en) (rb_expected_after en))
       (\<lambda>matches. if matches then seq (revert_entry en) (\<lambda>_. revert_entries ens) else revert_entries ens) w"

fun remove_empty_dirs :: "string list \<Rightarrow> ('s, 'b) shared_fs \<Rightarrow> (vfs_error + unit) \<times> ('s, 'b) shared_fs" where
  "remove_empty_dirs [] w = (Ok (), w)"
| "remove_empty_dirs (path # paths) w =
     (case ask_list_dir path w of
        (r, w1) \<Rightarrow>
          if r = Ok [] then seq (issue (CRemove path)) (\<lambda>_. remove_empty_dirs paths) w1
          else remove_empty_dirs paths w1)"

definition restore_vfs_path_states ::
  "rollback_entry list \<Rightarrow> string list \<Rightarrow> ('s, 'b) shared_fs \<Rightarrow> (vfs_error + unit) \<times> ('s, 'b) shared_fs" where
  "restore_vfs_path_states states dirs =
     seq (revert_entries (rev states)) (\<lambda>_. remove_empty_dirs (rev dirs))"

section \<open>The atomic batch\<close>

definition revision_or_unconditional ::
  "string \<Rightarrow> ('s, 'b) shared_fs \<Rightarrow> (vfs_error + precondition) \<times> ('s, 'b) shared_fs" where
  "revision_or_unconditional path =
     seq (ask_metadata path)
       (\<lambda>m w. (Ok (case md_revision m of None \<Rightarrow> Unconditional | Some r \<Rightarrow> MustMatch r), w))"

fun push_batch_items ::
  "vfs_mutation \<Rightarrow> fs_mutation list \<Rightarrow> ('s, 'b) shared_fs \<Rightarrow> (vfs_error + fs_mutation list) \<times> ('s, 'b) shared_fs" where
  "push_batch_items (VmWrite path data pre) batch w =
     (case pre of
        WpAny \<Rightarrow> (Ok (batch @ [MWrite path data Unconditional]), w)
      | WpMissing \<Rightarrow> (Ok (batch @ [MWrite path data MustBeAbsent]), w)
      | WpMatches _ \<Rightarrow> seq (revision_or_unconditional path) (\<lambda>c w1. (Ok (batch @ [MWrite path data c]), w1)) w)"
| "push_batch_items (VmDelete path) batch w =
     seq (revision_or_unconditional path) (\<lambda>c w1. (Ok (batch @ [MRemove path c]), w1)) w"
| "push_batch_items (VmMove from to) batch w =
     seq (revision_or_unconditional from) (\<lambda>c w1. (Ok (batch @ [MRename from to c]), w1)) w"
| "push_batch_items (VmMoveAndWrite from to data _) batch w =
     seq (revision_or_unconditional from)
       (\<lambda>c w1. (Ok (batch @ [MWrite to data MustBeAbsent, MRemove from c]), w1)) w"

section \<open>Preparation\<close>

record prepared =
  pp_rollback :: expectations
  pp_parent_dirs :: "string list"
  pp_mutations :: "prepared_mutation list"
  pp_batch :: "fs_mutation list"

definition prepare_target :: "string \<Rightarrow> prepared \<Rightarrow> ('s, 'b) shared_fs \<Rightarrow> prepared \<times> ('s, 'b) shared_fs" where
  "prepare_target path pp w =
     (case record_missing_parent_dirs path (pp_parent_dirs pp) w of (dirs, w1) \<Rightarrow> (pp\<lparr>pp_parent_dirs := dirs\<rparr>, w1))"

definition expect :: "string \<Rightarrow> path_state \<Rightarrow> prepared \<Rightarrow> prepared" where
  "expect path after pp = pp\<lparr>pp_rollback := upsert_rollback_expectation path after (pp_rollback pp)\<rparr>"

definition push_prepared :: "prepared_mutation \<Rightarrow> prepared \<Rightarrow> prepared" where
  "push_prepared m pp = pp\<lparr>pp_mutations := pp_mutations pp @ [m]\<rparr>"

fun prepare_mutation ::
  "vfs_mutation \<Rightarrow> prepared \<Rightarrow> ('s, 'b) shared_fs \<Rightarrow> (vfs_error + prepared) \<times> ('s, 'b) shared_fs" where
  "prepare_mutation (VmWrite path data pre) pp w =
     seq (ensure_parent_components_are_directories path)
       (\<lambda>_. seq (validate_write_precondition path pre)
         (\<lambda>_ w1. case prepare_target path (expect path (PsFile data) pp) w1 of
            (pp1, w2) \<Rightarrow> (Ok (push_prepared (PmWrite path data) pp1), w2))) w"
| "prepare_mutation (VmDelete path) pp w =
     seq (require_file path)
       (\<lambda>_ w1. (Ok (push_prepared (PmDelete path) (expect path PsMissing pp)), w1)) w"
| "prepare_mutation (VmMove from to) pp w =
     seq (require_file from)
       (\<lambda>_. seq (ensure_parent_components_are_directories to)
         (\<lambda>_. seq (ensure_vfs_path_missing to)
           (\<lambda>_. seq (ask_read from)
             (\<lambda>data w1. case prepare_target to (expect to (PsFile data) (expect from PsMissing pp)) w1 of
                (pp1, w2) \<Rightarrow> (Ok (push_prepared (PmMove from to data) pp1), w2))))) w"
| "prepare_mutation (VmMoveAndWrite from to data from_pre) pp w =
     seq (require_file from)
       (\<lambda>_. seq (case from_pre of None \<Rightarrow> (\<lambda>w. (Ok (), w)) | Some expected \<Rightarrow> validate_file_matches from expected)
         (\<lambda>_. seq (ensure_parent_components_are_directories to)
           (\<lambda>_. seq (ensure_vfs_path_missing to)
             (\<lambda>_ w1. case prepare_target to (expect to (PsFile data) (expect from PsMissing pp)) w1 of
                (pp1, w2) \<Rightarrow> (Ok (push_prepared (PmMoveAndWrite from to data) pp1), w2))))) w"

fun prepare_loop ::
  "vfs_mutation list \<Rightarrow> prepared \<Rightarrow> ('s, 'b) shared_fs \<Rightarrow> (vfs_error + prepared) \<times> ('s, 'b) shared_fs" where
  "prepare_loop [] pp w = (Ok pp, w)"
| "prepare_loop (m # ms) pp w =
     seq (push_batch_items m (pp_batch pp))
       (\<lambda>batch. seq (prepare_mutation m (pp\<lparr>pp_batch := batch\<rparr>)) (prepare_loop ms)) w"

definition prepare_all_mutations ::
  "vfs_mutation list \<Rightarrow> ('s, 'b) shared_fs \<Rightarrow> (vfs_error + prepared) \<times> ('s, 'b) shared_fs" where
  "prepare_all_mutations ms =
     prepare_loop ms \<lparr>pp_rollback = [], pp_parent_dirs = [], pp_mutations = [], pp_batch = []\<rparr>"

section \<open>The fallback\<close>

fun execute_one :: "prepared_mutation \<Rightarrow> ('s, 'b) shared_fs \<Rightarrow> (vfs_error + unit) \<times> ('s, 'b) shared_fs" where
  "execute_one (PmWrite path data) w = issue (CWrite path data) w"
| "execute_one (PmDelete path) w = issue (CRemove path) w"
| "execute_one (PmMove from to data) w = seq (issue (CWrite to data)) (\<lambda>_. issue (CRemove from)) w"
| "execute_one (PmMoveAndWrite from to data) w = seq (issue (CWrite to data)) (\<lambda>_. issue (CRemove from)) w"

fun execute_prepared :: "prepared_mutation list \<Rightarrow> ('s, 'b) shared_fs \<Rightarrow> (vfs_error + unit) \<times> ('s, 'b) shared_fs" where
  "execute_prepared [] w = (Ok (), w)"
| "execute_prepared (m # ms) w = seq (execute_one m) (\<lambda>_. execute_prepared ms) w"

section \<open>Journalling\<close>

fun journal_each ::
  "string \<Rightarrow> 'v journal_entry_kind list \<Rightarrow> ('s, 'b, 'j, 'v, 'd) agent_cell \<Rightarrow>
   (sandbox_error + unit) \<times> ('s, 'b, 'j, 'v, 'd) agent_cell" where
  "journal_each what [] c = (Ok (), c)"
| "journal_each what (k # ks) c =
     (case log_entry k c of
        (Inl e, c1) \<Rightarrow>
          (Err (SbInternal (''journal append failed for VFS mutation '' @ what @ '': '' @ show_journal_error e)), c1)
      | (Inr _, c1) \<Rightarrow> journal_each what ks c1)"

definition journal_plan ::
  "string \<Rightarrow> nat \<Rightarrow> ('s, 'b, 'j, 'v, 'd) agent_cell \<Rightarrow> (sandbox_error + unit) \<times> ('s, 'b, 'j, 'v, 'd) agent_cell" where
  "journal_plan tool_name count =
     journal_each ''plan'' [ToolResult None tool_name (''planned '' @ show_nat count @ '' VFS mutation(s)'') False []]"

definition journal_deletes ::
  "string list \<Rightarrow> ('s, 'b, 'j, 'v, 'd) agent_cell \<Rightarrow> (sandbox_error + unit) \<times> ('s, 'b, 'j, 'v, 'd) agent_cell" where
  "journal_deletes paths = journal_each ''delete'' (map FileDelete paths)"

definition journal_moves ::
  "(string \<times> string) list \<Rightarrow> ('s, 'b, 'j, 'v, 'd) agent_cell \<Rightarrow>
   (sandbox_error + unit) \<times> ('s, 'b, 'j, 'v, 'd) agent_cell" where
  "journal_moves moves = journal_each ''move'' (map (\<lambda>(from, to). FileMove from to) moves)"

definition journal_writes ::
  "(string \<times> u64) list \<Rightarrow> ('s, 'b, 'j, 'v, 'd) agent_cell \<Rightarrow>
   (sandbox_error + unit) \<times> ('s, 'b, 'j, 'v, 'd) agent_cell" where
  "journal_writes writes = journal_each ''write'' (map (\<lambda>(path, n). FileWrite path n) writes)"

definition journal_tool_error ::
  "string \<Rightarrow> string \<Rightarrow> ('s, 'b, 'j, 'v, 'd) agent_cell \<Rightarrow> ('s, 'b, 'j, 'v, 'd) agent_cell" where
  "journal_tool_error tool_name text = note_entry (ToolResult None tool_name text True [])"

definition journal_unknown_outcome ::
  "string \<Rightarrow> vfs_error \<Rightarrow> ('s, 'b, 'j, 'v, 'd) agent_cell \<Rightarrow> ('s, 'b, 'j, 'v, 'd) agent_cell" where
  "journal_unknown_outcome tool_name e =
     journal_tool_error tool_name (''VFS mutation batch may have been applied: '' @ show_vfs_error e)"

definition journal_execution_failure ::
  "string \<Rightarrow> vfs_error \<Rightarrow> ('s, 'b, 'j, 'v, 'd) agent_cell \<Rightarrow> ('s, 'b, 'j, 'v, 'd) agent_cell" where
  "journal_execution_failure tool_name e = journal_tool_error tool_name (show_vfs_error e)"

section \<open>The batch of a cell\<close>

fun checked_paths :: "vfs_mutation \<Rightarrow> string list \<times> string list" where
  "checked_paths (VmWrite path _ _) = ([], [path])"
| "checked_paths (VmDelete path) = ([], [path])"
| "checked_paths (VmMove from to) = ([from], [from, to])"
| "checked_paths (VmMoveAndWrite from to _ _) = ([from], [from, to])"

fun check_paths ::
  "(capability_token \<Rightarrow> string \<Rightarrow> capability_denied + unit) \<Rightarrow> string \<Rightarrow> string list \<Rightarrow>
   ('s, 'b, 'j, 'v, 'd) agent_cell \<Rightarrow> (sandbox_error + unit) \<times> ('s, 'b, 'j, 'v, 'd) agent_cell" where
  "check_paths chk tool_name [] c = (Ok (), c)"
| "check_paths chk tool_name (path # paths) c =
     seq (check_and_journal_capability (chk (ce_capability c) path) tool_name) (\<lambda>_. check_paths chk tool_name paths) c"

fun check_batch_capabilities ::
  "string \<Rightarrow> vfs_mutation list \<Rightarrow> ('s, 'b, 'j, 'v, 'd) agent_cell \<Rightarrow>
   (sandbox_error + unit) \<times> ('s, 'b, 'j, 'v, 'd) agent_cell" where
  "check_batch_capabilities tool_name [] c = (Ok (), c)"
| "check_batch_capabilities tool_name (m # ms) c =
     seq (check_paths check_path_read tool_name (fst (checked_paths m)))
       (\<lambda>_. seq (check_paths check_path_write tool_name (snd (checked_paths m)))
         (\<lambda>_. check_batch_capabilities tool_name ms)) c"

text \<open>What the batch will write, delete and move, as the journal will say.\<close>

record tally =
  tl_bytes :: u64
  tl_writes :: "(string \<times> u64) list"
  tl_deletes :: "string list"
  tl_moves :: "(string \<times> string) list"

definition tally_write :: "string \<Rightarrow> u64 \<Rightarrow> tally \<Rightarrow> tally" where
  "tally_write path n t = t\<lparr>tl_bytes := sat_add (tl_bytes t) n, tl_writes := tl_writes t @ [(path, n)]\<rparr>"

definition tally_move :: "string \<Rightarrow> string \<Rightarrow> tally \<Rightarrow> tally" where
  "tally_move from to t = t\<lparr>tl_moves := tl_moves t @ [(from, to)]\<rparr>"

fun tally_mutation :: "vfs_mutation \<Rightarrow> tally \<Rightarrow> ('s, 'b) shared_fs \<Rightarrow> (vfs_error + tally) \<times> ('s, 'b) shared_fs" where
  "tally_mutation (VmWrite path data _) t w = (Ok (tally_write path (of_nat (length data)) t), w)"
| "tally_mutation (VmDelete path) t w = (Ok (t\<lparr>tl_deletes := tl_deletes t @ [path]\<rparr>), w)"
| "tally_mutation (VmMove from to) t w =
     seq (ask_metadata from)
       (\<lambda>m w1. (if md_is_file m then Ok (tally_write to (md_size m) (tally_move from to t)) else Err (NotAFile from), w1)) w"
| "tally_mutation (VmMoveAndWrite from to data _) t w =
     (Ok (tally_write to (of_nat (length data)) (tally_move from to t)), w)"

fun tally_loop :: "vfs_mutation list \<Rightarrow> tally \<Rightarrow> ('s, 'b) shared_fs \<Rightarrow> (vfs_error + tally) \<times> ('s, 'b) shared_fs" where
  "tally_loop [] t w = (Ok t, w)"
| "tally_loop (m # ms) t w = seq (tally_mutation m t) (tally_loop ms) w"

definition tally_mutations :: "vfs_mutation list \<Rightarrow> ('s, 'b) shared_fs \<Rightarrow> (vfs_error + tally) \<times> ('s, 'b) shared_fs" where
  "tally_mutations ms = tally_loop ms \<lparr>tl_bytes = 0, tl_writes = [], tl_deletes = [], tl_moves = []\<rparr>"

definition on_vfs_err ::
  "(('s, 'b) shared_fs \<Rightarrow> (vfs_error + 'a) \<times> ('s, 'b) shared_fs) \<Rightarrow> ('s, 'b, 'j, 'v, 'd) agent_cell \<Rightarrow>
   (sandbox_error + 'a) \<times> ('s, 'b, 'j, 'v, 'd) agent_cell" where
  "on_vfs_err f c = convert_err SbVfs (on_vfs f c)"

definition release_reserved_bytes :: "u64 \<Rightarrow> ('s, 'b, 'j, 'v, 'd) agent_cell \<Rightarrow> ('s, 'b, 'j, 'v, 'd) agent_cell" where
  "release_reserved_bytes n c = (if n > 0 then release_vfs_bytes n c else c)"

text \<open>A stage after the reservation: an error gives the reserved bytes back.\<close>

definition releasing ::
  "u64 \<Rightarrow> (('s, 'b, 'j, 'v, 'd) agent_cell \<Rightarrow> (sandbox_error + 'a) \<times> ('s, 'b, 'j, 'v, 'd) agent_cell) \<Rightarrow>
   ('s, 'b, 'j, 'v, 'd) agent_cell \<Rightarrow> (sandbox_error + 'a) \<times> ('s, 'b, 'j, 'v, 'd) agent_cell" where
  "releasing n f c = (case f c of (Inl e, c1) \<Rightarrow> (Err e, release_reserved_bytes n c1) | (Inr x, c1) \<Rightarrow> (Ok x, c1))"

text \<open>The commit: the atomic batch, or on a filesystem without batches the items one by one.\<close>

definition run_fallback ::
  "string \<Rightarrow> u64 \<Rightarrow> prepared \<Rightarrow> rollback_entry list \<Rightarrow> ('s, 'b, 'j, 'v, 'd) agent_cell \<Rightarrow>
   (sandbox_error + unit) \<times> ('s, 'b, 'j, 'v, 'd) agent_cell" where
  "run_fallback tool_name n pp states c =
     (case on_vfs (execute_prepared (pp_mutations pp)) c of
        (Inr _, c1) \<Rightarrow> (Ok (), c1)
      | (Inl e, c1) \<Rightarrow>
          if is_outcome_unknown e then (Err (SbVfs e), journal_unknown_outcome tool_name e c1)
          else
            (case on_vfs (restore_vfs_path_states states (pp_parent_dirs pp)) (release_reserved_bytes n c1) of
               (Inl r, c2) \<Rightarrow>
                 (Err (SbInternal (''failed to roll back VFS mutations after '' @ show_vfs_error e @ '': '' @ show_vfs_error r)), c2)
             | (Inr _, c2) \<Rightarrow> (Err (SbVfs e), journal_execution_failure tool_name e c2)))"

definition commit_batch ::
  "string \<Rightarrow> u64 \<Rightarrow> prepared \<Rightarrow> rollback_entry list \<Rightarrow> ('s, 'b, 'j, 'v, 'd) agent_cell \<Rightarrow>
   (sandbox_error + unit) \<times> ('s, 'b, 'j, 'v, 'd) agent_cell" where
  "commit_batch tool_name n pp states c =
     (case on_vfs (issue (CBatch (pp_batch pp))) c of
        (Inr _, c1) \<Rightarrow> (Ok (), c1)
      | (Inl e, c1) \<Rightarrow>
          if is_unsupported e then run_fallback tool_name n pp states c1
          else if is_outcome_unknown e then (Err (SbVfs e), journal_unknown_outcome tool_name e c1)
          else (Err (SbVfs e), journal_execution_failure tool_name e (release_reserved_bytes n c1)))"

definition apply_vfs_mutations ::
  "string \<Rightarrow> vfs_mutation list \<Rightarrow> ('s, 'b, 'j, 'v, 'd) agent_cell \<Rightarrow>
   (sandbox_error + unit) \<times> ('s, 'b, 'j, 'v, 'd) agent_cell" where
  "apply_vfs_mutations tool_name ms =
     seq (check_batch_capabilities tool_name ms)
       (\<lambda>_. seq (preflight_vfs_write_bytes 0)
         (\<lambda>_. seq (on_vfs_err (tally_mutations ms))
           (\<lambda>t. seq (if tl_bytes t > 0 then reserve_vfs_bytes (tl_bytes t) else (\<lambda>c. (Ok (), c)))
             (\<lambda>_. seq (releasing (tl_bytes t) (on_vfs_err (prepare_all_mutations ms)))
               (\<lambda>pp. seq (releasing (tl_bytes t) (on_vfs_err (capture_vfs_rollback_entries (pp_rollback pp))))
                 (\<lambda>states. seq (releasing (tl_bytes t) (journal_plan tool_name (length ms)))
                   (\<lambda>_. seq (releasing (tl_bytes t) (journal_deletes (tl_deletes t)))
                     (\<lambda>_. seq (releasing (tl_bytes t) (journal_moves (tl_moves t)))
                       (\<lambda>_. seq (releasing (tl_bytes t) (journal_writes (tl_writes t)))
                         (\<lambda>_. commit_batch tool_name (tl_bytes t) pp states)))))))))) "

definition remove_path ::
  "string \<Rightarrow> ('s, 'b, 'j, 'v, 'd) agent_cell \<Rightarrow> (sandbox_error + unit) \<times> ('s, 'b, 'j, 'v, 'd) agent_cell" where
  "remove_path path = apply_vfs_mutations ''remove_path'' [VmDelete path]"

definition move_path ::
  "string \<Rightarrow> string \<Rightarrow> ('s, 'b, 'j, 'v, 'd) agent_cell \<Rightarrow> (sandbox_error + unit) \<times> ('s, 'b, 'j, 'v, 'd) agent_cell" where
  "move_path from to = apply_vfs_mutations ''move_path'' [VmMove from to]"

end
