(* ===== verification/Sandbox_Steps.thy ===== *)
theory Sandbox_Steps
  imports Sandbox_Proxy Sandbox_Batch
begin

text \<open>
  Every operation of the agent cell is built of a few steps: a turn of the other holders of the
  filesystem, a mutating call that the capability covers, a journal append, a reservation and a release
  of bytes.  The locale \<open>cell_steps\<close> states what a relation between cells has to satisfy for these steps;
  inside it, every operation is shown to satisfy the relation.  Its interpretations give confinement,
  the byte budget and the journal.
\<close>

section \<open>Which calls are covered\<close>

definition writable :: "capability_token \<Rightarrow> string \<Rightarrow> bool" where
  "writable t p \<longleftrightarrow> is_ok (check_path_write t p)"

text \<open>The copy fallback of a rename names paths below its endpoints.\<close>

inductive joined :: "string \<Rightarrow> string \<Rightarrow> bool" for p where
  joined_here: "joined p p"
| joined_child: "joined p q \<Longrightarrow> joined p (join_vfs_path q child)"

definition never_unsupported :: "('s, 'b) virtual_fs \<Rightarrow> bool" where
  "never_unsupported F \<longleftrightarrow> (\<forall>s k e s'. vfs_call F s k = (Err e, s') \<longrightarrow> \<not> is_unsupported e)"

text \<open>A fallback for a missing atomic call may also write below a writable path and remove the parent
  directories of one.\<close>

fun fallback_call :: "capability_token \<Rightarrow> fs_call \<Rightarrow> bool" where
  "fallback_call t (CWrite q _) \<longleftrightarrow> (\<exists>p. writable t p \<and> joined p q)"
| "fallback_call t (CMkdir q) \<longleftrightarrow> (\<exists>p. writable t p \<and> joined p q)"
| "fallback_call t (CRemove q) \<longleftrightarrow> (\<exists>p. writable t p \<and> q \<in> set (parent_paths p))"
| "fallback_call t _ \<longleftrightarrow> False"

definition admitted :: "('s, 'b) virtual_fs \<Rightarrow> capability_token \<Rightarrow> fs_call \<Rightarrow> bool" where
  "admitted F t k \<longleftrightarrow> (\<forall>p \<in> set (call_paths k). writable t p) \<or> (\<not> never_unsupported F \<and> fallback_call t k)"

section \<open>Runs on the shared filesystem\<close>

inductive fsteps :: "(fs_call \<Rightarrow> bool) \<Rightarrow> ('s, 'b) shared_fs \<Rightarrow> ('s, 'b) shared_fs \<Rightarrow> bool" for P w where
  fs_start: "fsteps P w w"
| fs_turn: "fsteps P w v \<Longrightarrow> fsteps P w (sf_turn v)"
| fs_call: "fsteps P w v \<Longrightarrow> P k \<Longrightarrow> fsteps P w (v\<lparr>sf_state := snd (vfs_call (sf_ops v) (sf_state v) k)\<rparr>)"

lemma fsteps_trans: "fsteps P v u \<Longrightarrow> fsteps P w v \<Longrightarrow> fsteps P w u"
  by (induction rule: fsteps.induct) (auto intro: fsteps.intros)

definition goes :: "(fs_call \<Rightarrow> bool) \<Rightarrow> ('s, 'b) shared_fs \<Rightarrow> 'r \<times> ('s, 'b) shared_fs \<Rightarrow> bool" where
  "goes P w rw \<longleftrightarrow> fsteps P w (snd rw)"

lemma goes_refl [simp]: "goes P w (r, w)"
  by (simp add: goes_def fs_start)

lemma goes_trans: "goes P w (r, v) \<Longrightarrow> goes P v rw \<Longrightarrow> goes P w rw"
  by (auto simp: goes_def intro: fsteps_trans)

lemma goes_ask [simp]: "goes P w (ask q w)"
  by (simp add: goes_def ask_def Let_def fs_start fs_turn)

lemma goes_issue: "P k \<Longrightarrow> goes P w (issue k w)"
  using fs_call[OF fs_turn[OF fs_start], of P k w]
  by (cases "vfs_call (sf_ops (sf_turn w)) (sf_state (sf_turn w)) k") (simp add: goes_def issue_def Let_def)

lemma goes_cases:
  assumes "goes P w (m w)" "\<And>e v. m w = (Err e, v) \<Longrightarrow> goes P v (f e v)" "\<And>x v. m w = (Ok x, v) \<Longrightarrow> goes P v (g x v)"
  shows "goes P w (case m w of (Inl e, v) \<Rightarrow> f e v | (Inr x, v) \<Rightarrow> g x v)"
proof (cases "m w")
  case (Pair r v)
  have "goes P w ((), v)" using assms(1) Pair by (simp add: goes_def)
  then show ?thesis using Pair assms(2,3) goes_trans by (cases r) fastforce+
qed

lemma goes_prod:
  assumes "goes P w (m w)" "\<And>x v. m w = (x, v) \<Longrightarrow> goes P v (g x v)"
  shows "goes P w (case m w of (x, v) \<Rightarrow> g x v)"
  using assms goes_trans by (cases "m w") fastforce

lemma goes_seq: "goes P w (m w) \<Longrightarrow> (\<And>x v. m w = (Ok x, v) \<Longrightarrow> goes P v (f x v)) \<Longrightarrow> goes P w (seq m f w)"
  unfolding seq_def by (rule goes_cases) simp_all

lemma goes_if: "(b \<Longrightarrow> goes P w x) \<Longrightarrow> (\<not> b \<Longrightarrow> goes P w y) \<Longrightarrow> goes P w (if b then x else y)"
  by simp

lemmas goes_intros = goes_refl goes_ask goes_issue goes_cases goes_prod goes_seq goes_if

lemma fsteps_ops: "fsteps P w v \<Longrightarrow> sf_ops v = sf_ops w \<and> sf_others v = sf_others w"
  by (induction rule: fsteps.induct) (simp_all add: sf_turn_def)

text \<open>The functions on a trait object.\<close>

lemma goes_observe: "goes P w (observe p w)"
proof -
  have "goes P w (fs_revision p w)" for w :: "('s, 'b) shared_fs"
    unfolding fs_revision_def by (rule goes_prod) simp_all
  then show ?thesis unfolding observe_def by (intro goes_prod goes_cases goes_if) (auto intro: goes_intros)
qed

lemma goes_attempt:
  assumes "\<And>d c. P (CWriteIf p d c)" "\<And>d. P (CWrite p d)"
  shows "goes P w (attempt p d w)"
  unfolding attempt_def
proof (rule goes_cases[OF goes_observe])
  fix x v
  show "goes P v (case x of Changed \<Rightarrow> (Ok Raced, v)
    | Stable old c \<Rightarrow> (case issue (CWriteIf p (old @ d) c) v of
        (Inr _, w2) \<Rightarrow> (Ok Done, w2)
      | (Inl e, w2) \<Rightarrow> if is_unsupported e
          then case issue (CWrite p (old @ d)) w2 of (r, w3) \<Rightarrow> (map_sum id (\<lambda>_. Done) r, w3)
          else (if is_conflict e then Ok Raced else Err e, w2)))"
  proof (cases x)
    case (Stable old c)
    show ?thesis unfolding Stable observed.case
      by (intro goes_cases goes_if goes_prod goes_issue goes_refl assms)
  qed simp
qed simp

lemma goes_append:
  assumes "\<And>d c. P (CWriteIf p d c)" "\<And>d. P (CWrite p d)"
  shows "goes P w (append_conditionally p d w)"
  unfolding append_conditionally_def
proof (rule goes_seq[OF goes_attempt[OF assms]])
  fix x v
  show "goes P v (case x of Done \<Rightarrow> (Ok (), v)
      | Raced \<Rightarrow> seq (attempt p d) (\<lambda>a' w'. case a' of Done \<Rightarrow> (Ok (), w')
          | Raced \<Rightarrow> (Err (Conflict ''append raced with another writer twice''), w')) v)"
    by (cases x) (auto intro!: goes_seq goes_attempt assms split: attempted.split)
qed

lemma goes_rename_atomic:
  assumes "P (CRename from to)" "\<And>a b. P (CBatch [MRemove to a, MRename from to b])"
  shows "goes P w (rename_atomic m from to w)"
  unfolding rename_atomic_def by (intro goes_cases goes_ask goes_if goes_prod goes_issue assms goes_refl)

subsection \<open>The functions of a batch\<close>

lemma goes_missing: "goes P w (ensure_vfs_path_missing p w)"
  unfolding ensure_vfs_path_missing_def by (intro goes_prod goes_ask goes_refl)

lemma goes_directories: "goes P w (ensure_directories ps w)"
proof (induction ps arbitrary: w)
  case (Cons p ps)
  then show ?case unfolding ensure_directories.simps by (intro goes_cases goes_ask goes_if goes_refl)
qed simp

lemma goes_matches: "goes P w (validate_file_matches p d w)"
  unfolding validate_file_matches_def by (intro goes_seq goes_ask goes_if goes_refl)

lemma goes_write_precondition: "goes P w (validate_write_precondition p c w)"
proof (cases c)
  case WpAny
  show ?thesis unfolding WpAny validate_write_precondition.simps by (intro goes_cases goes_ask goes_refl)
qed (simp_all add: goes_missing goes_matches)

lemma goes_require_file: "goes P w (require_file p w)"
  unfolding require_file_def by (intro goes_seq goes_ask goes_refl)

lemma goes_missing_dirs: "goes P w (record_missing_dirs ps ds w)"
proof (induction ps arbitrary: ds w)
  case (Cons p ps)
  then show ?case unfolding record_missing_dirs.simps by (intro goes_prod goes_ask)
qed simp

lemma goes_capture: "goes P w (capture_vfs_rollback_entries es w)"
proof (induction es arbitrary: w)
  case (Cons e es)
  obtain p a where "e = (p, a)" by fastforce
  moreover have "goes P w (capture_state p w)" for w :: "('s, 'b) shared_fs"
    unfolding capture_state_def by (intro goes_cases goes_ask goes_if goes_seq goes_refl)
  ultimately show ?case by (auto intro!: goes_seq Cons)
qed simp

lemma goes_revision: "goes P w (revision_or_unconditional p w)"
  unfolding revision_or_unconditional_def by (intro goes_seq goes_ask goes_refl)

lemma goes_push: "goes P w (push_batch_items m b w)"
  by (cases m) (auto intro!: goes_seq goes_revision split: write_precondition.split)

lemma goes_target: "goes P w (prepare_target p pp w)"
  unfolding prepare_target_def record_missing_parent_dirs_def
  by (rule goes_prod[OF goes_missing_dirs]) simp

lemma goes_prepare: "goes P w (prepare_mutation m pp w)"
proof (cases m)
  case (VmMoveAndWrite f g d c)
  have "goes P w ((case c of None \<Rightarrow> (\<lambda>w. (Ok (), w)) | Some x \<Rightarrow> validate_file_matches f x) w)"
    for w :: "('s, 'b) shared_fs" by (cases c) (simp_all add: goes_matches)
  then show ?thesis unfolding VmMoveAndWrite prepare_mutation.simps ensure_parent_components_are_directories_def
    by (intro goes_seq goes_require_file goes_directories goes_missing goes_prod goes_target goes_refl)
next
  case (VmWrite p d c)
  show ?thesis unfolding VmWrite prepare_mutation.simps ensure_parent_components_are_directories_def
    by (intro goes_seq goes_directories goes_write_precondition goes_prod goes_target goes_refl)
next
  case (VmDelete p)
  show ?thesis unfolding VmDelete prepare_mutation.simps by (intro goes_seq goes_require_file goes_refl)
next
  case (VmMove f g)
  show ?thesis unfolding VmMove prepare_mutation.simps ensure_parent_components_are_directories_def
    by (intro goes_seq goes_require_file goes_directories goes_missing goes_ask goes_prod goes_target goes_refl)
qed

lemma goes_prepare_loop: "goes P w (prepare_loop ms pp w)"
  by (induction ms arbitrary: pp w) (simp_all add: goes_seq goes_push goes_prepare)

lemma goes_tally: "goes P w (tally_loop ms t w)"
proof (induction ms arbitrary: t w)
  case (Cons m ms)
  have "goes P w (tally_mutation m t w)"
    by (cases m) (auto intro!: goes_seq goes_ask)
  then show ?case using Cons by (simp add: goes_seq)
qed simp

text \<open>The calls of the fallback: the items of the batch, and the rollback at the same paths.\<close>

definition plain_calls :: "(fs_call \<Rightarrow> bool) \<Rightarrow> string \<Rightarrow> bool" where
  "plain_calls P p \<longleftrightarrow> (\<forall>d. P (CWrite p d)) \<and> P (CMkdir p) \<and> P (CRemove p)"

fun prepared_paths :: "prepared_mutation \<Rightarrow> string list" where
  "prepared_paths (PmWrite p _) = [p]"
| "prepared_paths (PmDelete p) = [p]"
| "prepared_paths (PmMove from to _) = [from, to]"
| "prepared_paths (PmMoveAndWrite from to _) = [from, to]"

lemma goes_execute:
  assumes "\<forall>p \<in> set (concat (map prepared_paths ms)). plain_calls P p"
  shows "goes P w (execute_prepared ms w)"
  using assms
proof (induction ms arbitrary: w)
  case (Cons m ms)
  have "goes P w (execute_one m w)" using Cons.prems
    by (cases m) (auto intro!: goes_seq goes_issue simp: plain_calls_def)
  then show ?case using Cons by (simp add: goes_seq)
qed simp

lemma goes_path_matches: "goes P w (vfs_path_matches_state p st w)"
proof (cases st)
  case PsMissing
  show ?thesis unfolding PsMissing vfs_path_matches_state.simps by (intro goes_prod goes_ask goes_refl)
next
  case (PsFile d)
  show ?thesis unfolding PsFile vfs_path_matches_state.simps by (intro goes_cases goes_ask goes_if goes_seq goes_refl)
next
  case PsDir
  show ?thesis unfolding PsDir vfs_path_matches_state.simps by (intro goes_cases goes_ask goes_refl)
qed

lemma goes_revert:
  fixes w :: "('s, 'b) shared_fs"
  assumes "\<forall>en \<in> set ens. plain_calls P (rb_path en)"
  shows "goes P w (revert_entries ens w)"
  using assms
proof (induction ens arbitrary: w)
  case (Cons en ens)
  have P: "P (CRemove (rb_path en))" "P (CWrite (rb_path en) d)" "P (CMkdir (rb_path en))" for d
    using Cons.prems by (auto simp: plain_calls_def)
  have "goes P w (case ask_exists (rb_path en) w of (b, w1) \<Rightarrow> if b then issue (CRemove (rb_path en)) w1 else (Ok (), w1))"
    for w :: "('s, 'b) shared_fs" by (intro goes_prod goes_ask goes_if goes_issue P goes_refl)
  then have "goes P w (revert_entry en w)" for w :: "('s, 'b) shared_fs"
    unfolding revert_entry_def using P by (cases "rb_before en") (simp_all add: goes_issue)
  moreover have "goes P w (revert_entries ens w)" for w :: "('s, 'b) shared_fs" using Cons by simp
  ultimately have "goes P v (seq (revert_entry en) (\<lambda>_. revert_entries ens) v)" "goes P v (revert_entries ens v)"
    for v :: "('s, 'b) shared_fs" by (auto intro!: goes_seq)
  then show ?case unfolding revert_entries.simps by (intro goes_seq goes_path_matches) simp
qed simp

lemma goes_empty_dirs:
  assumes "\<And>d. d \<in> set ds \<Longrightarrow> P (CRemove d)"
  shows "goes P w (remove_empty_dirs ds w)"
  using assms
proof (induction ds arbitrary: w)
  case (Cons d ds)
  then show ?case unfolding remove_empty_dirs.simps
    by (intro goes_prod goes_ask goes_if goes_seq goes_issue) simp_all
qed simp

text \<open>What a batch prepares names only paths it was admitted for.\<close>

definition batch_paths :: "vfs_mutation list \<Rightarrow> string set" where
  "batch_paths ms = (\<Union>m \<in> set ms. set (snd (checked_paths m)))"

definition within_paths :: "string set \<Rightarrow> prepared \<Rightarrow> bool" where
  "within_paths A pp \<longleftrightarrow> fst ` set (pp_rollback pp) \<subseteq> A \<and> (\<forall>m \<in> set (pp_mutations pp). set (prepared_paths m) \<subseteq> A) \<and>
     (\<forall>m \<in> set (pp_batch pp). set (mutation_paths m) \<subseteq> A) \<and>
     (\<forall>d \<in> set (pp_parent_dirs pp). \<exists>p \<in> A. d \<in> set (parent_paths p))"

lemma set_upsert: "fst ` set (upsert_rollback_expectation p st es) = insert p (fst ` set es)"
  by (induction p st es rule: upsert_rollback_expectation.induct) auto

lemma missing_dirs_from: "record_missing_dirs ps ds w = (ds', w') \<Longrightarrow> set ds' \<subseteq> set ds \<union> set ps"
proof (induction ps arbitrary: ds w)
  case (Cons p ps)
  then obtain b w1 where "record_missing_dirs ps (if \<not> b \<and> p \<notin> set ds then ds @ [p] else ds) w1 = (ds', w')"
    by (auto simp: prod_case_eq)
  from Cons.IH[OF this] show ?case by (auto split: if_splits)
qed simp

lemma target_within:
  assumes "prepare_target p pp w = (pp', w')" "within_paths A pp" "p \<in> A"
  shows "within_paths A pp'"
proof -
  obtain ds where "record_missing_dirs (parent_paths p) (pp_parent_dirs pp) w = (ds, w')" "pp' = pp\<lparr>pp_parent_dirs := ds\<rparr>"
    using assms(1) by (auto simp: prepare_target_def record_missing_parent_dirs_def split: prod.splits)
  then show ?thesis using missing_dirs_from[of "parent_paths p" "pp_parent_dirs pp" w ds w'] assms(2,3)
    by (auto simp: within_paths_def)
qed

lemma expect_within: "within_paths A pp \<Longrightarrow> p \<in> A \<Longrightarrow> within_paths A (expect p st pp)"
  by (simp add: within_paths_def expect_def set_upsert)

lemma push_within: "within_paths A pp \<Longrightarrow> set (prepared_paths m) \<subseteq> A \<Longrightarrow> within_paths A (push_prepared m pp)"
  by (auto simp: within_paths_def push_prepared_def)

lemma mutation_within:
  assumes "prepare_mutation m pp w = (Ok pp', w')" "within_paths A pp" "set (snd (checked_paths m)) \<subseteq> A"
  shows "within_paths A pp'"
  using assms
  by (cases m) (auto simp: seq_Ok prod_case_eq intro!: push_within elim!: target_within intro!: expect_within)

lemma batch_within:
  assumes "push_batch_items m batch w = (Ok batch', w')" "\<forall>k \<in> set batch. set (mutation_paths k) \<subseteq> A"
    "set (snd (checked_paths m)) \<subseteq> A"
  shows "\<forall>k \<in> set batch'. set (mutation_paths k) \<subseteq> A"
  using assms by (cases m) (auto 0 4 simp: seq_Ok split: write_precondition.splits)

lemma prepare_loop_within:
  "prepare_loop ms pp w = (Ok pp', w') \<Longrightarrow> within_paths A pp \<Longrightarrow> batch_paths ms \<subseteq> A \<Longrightarrow> within_paths A pp'"
proof (induction ms arbitrary: pp w)
  case (Cons m ms)
  then obtain batch w1 pp1 w2 where s: "push_batch_items m (pp_batch pp) w = (Ok batch, w1)"
    "prepare_mutation m (pp\<lparr>pp_batch := batch\<rparr>) w1 = (Ok pp1, w2)" "prepare_loop ms pp1 w2 = (Ok pp', w')"
    by (auto simp: seq_Ok)
  have m: "set (snd (checked_paths m)) \<subseteq> A" "batch_paths ms \<subseteq> A" using Cons.prems(3) by (auto simp: batch_paths_def)
  have "within_paths A (pp\<lparr>pp_batch := batch\<rparr>)"
    using batch_within[OF s(1) _ m(1)] Cons.prems(2) by (simp add: within_paths_def)
  from mutation_within[OF s(2) this m(1)] show ?case by (rule Cons.IH[OF s(3) _ m(2)])
qed simp

lemma prepare_all_within: "prepare_all_mutations ms w = (Ok pp, w') \<Longrightarrow> within_paths (batch_paths ms) pp"
  unfolding prepare_all_mutations_def by (rule prepare_loop_within) (auto simp: within_paths_def)

lemma capture_paths: "capture_vfs_rollback_entries es w = (Ok ens, w') \<Longrightarrow> map rb_path ens = map fst es"
  by (induction es arbitrary: w ens w') (auto simp: seq_Ok)

section \<open>The steps\<close>

abbreviation cell_ops :: "('s, 'b, 'j, 'v, 'd) agent_cell \<Rightarrow> ('s, 'b) virtual_fs" where
  "cell_ops c \<equiv> sf_ops (ce_vfs c)"

definition charge :: "u64 \<Rightarrow> ('s, 'b, 'j, 'v, 'd) agent_cell \<Rightarrow> ('s, 'b, 'j, 'v, 'd) agent_cell" where
  "charge n c = c\<lparr>ce_budget := (ce_budget c)\<lparr>used_vfs_bytes := sat_add (used_vfs_bytes (ce_budget c)) n\<rparr>\<rparr>"

definition cell_turn :: "('s, 'b, 'j, 'v, 'd) agent_cell \<Rightarrow> ('s, 'b, 'j, 'v, 'd) agent_cell" where
  "cell_turn c = c\<lparr>ce_vfs := sf_turn (ce_vfs c)\<rparr>"

definition cell_call :: "fs_call \<Rightarrow> ('s, 'b, 'j, 'v, 'd) agent_cell \<Rightarrow> ('s, 'b, 'j, 'v, 'd) agent_cell" where
  "cell_call k c = c\<lparr>ce_vfs := (ce_vfs c)\<lparr>sf_state := snd (vfs_call (cell_ops c) (sf_state (ce_vfs c)) k)\<rparr>\<rparr>"

lemma on_vfs_ask: "on_vfs (ask q) c = (q (cell_ops c) (sf_state (ce_vfs (cell_turn c))), cell_turn c)"
  by (simp add: on_vfs_def ask_def Let_def cell_turn_def sf_turn_def)

lemma on_vfs_issue:
  "on_vfs (issue k) c = (fst (vfs_call (cell_ops c) (sf_state (ce_vfs (cell_turn c))) k), cell_call k (cell_turn c))"
  by (simp add: on_vfs_def issue_def Let_def cell_turn_def cell_call_def sf_turn_def split: prod.split)

definition same_setup :: "('s, 'b, 'j, 'v, 'd) agent_cell \<Rightarrow> ('s, 'b, 'j, 'v, 'd) agent_cell \<Rightarrow> bool" where
  "same_setup c c' \<longleftrightarrow> ce_capability c' = ce_capability c \<and> cell_ops c' = cell_ops c \<and>
     ce_storage c' = ce_storage c \<and> ce_agent_id c' = ce_agent_id c \<and>
     sf_others (ce_vfs c') = sf_others (ce_vfs c) \<and> max_vfs_bytes (ce_budget c') = max_vfs_bytes (ce_budget c)"

lemma same_setup_refl [simp]: "same_setup c c"
  by (simp add: same_setup_def)

lemma same_setup_trans: "same_setup a b \<Longrightarrow> same_setup b c \<Longrightarrow> same_setup a c"
  by (simp add: same_setup_def)

lemma same_setup_steps [simp]:
  "same_setup c (snd (log_entry k c))" "same_setup c (charge n c)" "same_setup c (release_vfs_bytes n c)"
  "same_setup c (cell_turn c)" "same_setup c (cell_call call c)"
  by (auto simp: same_setup_def log_entry_def charge_def release_vfs_bytes_def cell_turn_def cell_call_def sf_turn_def
      split: prod.split)

locale cell_steps =
  fixes R :: "('s, 'b, 'j, 'v, 'd) agent_cell \<Rightarrow> ('s, 'b, 'j, 'v, 'd) agent_cell \<Rightarrow> bool"
  assumes R_refl: "R c c"
    and R_trans: "R c1 c2 \<Longrightarrow> R c2 c3 \<Longrightarrow> R c1 c3"
    and R_log: "R c (snd (log_entry entry c))"
    and R_charge: "vfs_bytes_exhausted n (ce_budget c) = None \<Longrightarrow> R c (charge n c)"
    and R_release: "R c (release_vfs_bytes n c)"
    and R_turn: "R c (cell_turn c)"
    and R_call: "admitted (cell_ops c) (ce_capability c) k \<Longrightarrow> R c (cell_call k c)"
begin

text \<open>The relation together with the unchanged setup, as a predicate of a stage.\<close>

definition stage :: "('s, 'b, 'j, 'v, 'd) agent_cell \<Rightarrow> 'r \<times> ('s, 'b, 'j, 'v, 'd) agent_cell \<Rightarrow> bool" where
  "stage c rc \<longleftrightarrow> R c (snd rc) \<and> same_setup c (snd rc)"

lemma stage_refl [simp]: "stage c (r, c)"
  by (simp add: stage_def R_refl)

lemma stage_trans: "stage c (r1, c1) \<Longrightarrow> stage c1 rc \<Longrightarrow> stage c rc"
  using R_trans same_setup_trans by (auto simp: stage_def)

lemma stage_fst: "stage c (r, c1) \<Longrightarrow> stage c (r', c1)"
  by (simp add: stage_def)

lemma stage_convert [simp]: "stage c (convert_err f rc) = stage c rc"
  by (simp add: stage_def convert_err_def)

lemma stage_seq:
  assumes "stage c (m c)" "\<And>x c1. m c = (Ok x, c1) \<Longrightarrow> same_setup c c1 \<Longrightarrow> stage c1 (f x c1)"
  shows "stage c (seq m f c)"
proof (cases "m c")
  case (Pair r c1)
  show ?thesis
  proof (cases r)
    case (Inr x)
    then have "stage c1 (f x c1)" using assms Pair by (simp add: stage_def)
    then show ?thesis using assms(1) Pair Inr stage_trans by (simp add: seq_def)
  qed (use assms(1) Pair stage_fst in \<open>simp add: seq_def\<close>)
qed

lemma stage_note: "stage c (r, note_entry k c)"
  using R_log by (simp add: stage_def note_entry_def)

lemma stage_then_note: "stage c (r, c1) \<Longrightarrow> stage c (r', note_entry k c1)"
  by (rule stage_trans[OF _ stage_note])

lemma stage_then_release: "stage c (r, c1) \<Longrightarrow> stage c (r', release_vfs_bytes n c1)"
  by (erule stage_trans) (simp add: stage_def R_release)

lemma stage_turn: "stage c (r, cell_turn c)"
  by (simp add: stage_def R_turn)

lemma stage_ask: "stage c (on_vfs (ask q) c)"
  by (simp add: on_vfs_ask stage_turn)

lemma stage_issue:
  assumes "admitted (cell_ops c) (ce_capability c) k"
  shows "stage c (on_vfs (issue k) c)"
proof -
  have "admitted (cell_ops (cell_turn c)) (ce_capability (cell_turn c)) k"
    using assms by (simp add: cell_turn_def sf_turn_def)
  then have "stage (cell_turn c) (r, cell_call k (cell_turn c))" for r by (simp add: stage_def R_call)
  then show ?thesis unfolding on_vfs_issue by (rule stage_trans[OF stage_turn])
qed

lemma stage_check: "stage c (check_and_journal_capability check operation c)"
  by (auto simp: check_and_journal_capability_def journal_denial_def stage_note split: sum.split)

lemma stage_refuse: "stage c (refuse_budget b c)"
  by (simp add: refuse_budget_def journal_budget_exhaustion_def stage_note)

lemma stage_reserve: "stage c (reserve_vfs_bytes n c)"
proof (cases "vfs_bytes_exhausted n (ce_budget c)")
  case None
  then show ?thesis using R_charge[OF None] by (simp add: reserve_vfs_bytes_def stage_def charge_def[symmetric])
qed (simp add: reserve_vfs_bytes_def stage_refuse)

lemma stage_preflight: "stage c (preflight_vfs_write_bytes n c)"
  by (auto simp: preflight_vfs_write_bytes_def stage_refuse split: option.split)

lemma stage_cases:
  assumes "stage c (m c)" "\<And>e c1. m c = (Err e, c1) \<Longrightarrow> stage c1 (f e c1)" "\<And>x c1. m c = (Ok x, c1) \<Longrightarrow> stage c1 (g x c1)"
  shows "stage c (case m c of (Inl e, c1) \<Rightarrow> f e c1 | (Inr x, c1) \<Rightarrow> g x c1)"
proof (cases "m c")
  case (Pair r c1)
  have "stage c ((), c1)" using assms(1) Pair by (simp add: stage_def)
  then show ?thesis using Pair assms(2,3) stage_trans by (cases r) fastforce+
qed

lemma stage_release_unless: "stage c (r, release_unless_unknown e n c)"
  by (simp add: release_unless_unknown_def stage_then_release)

lemma stage_check_write:
  assumes "\<And>c1. writable (ce_capability c) p \<Longrightarrow> c1 = c \<Longrightarrow> stage c (f () c1)"
  shows "stage c (seq (check_and_journal_capability (check_path_write (ce_capability c) p) operation) f c)"
proof (rule stage_seq[OF stage_check])
  fix x c1 assume "check_and_journal_capability (check_path_write (ce_capability c) p) operation c = (Ok x, c1)"
  then have "check_path_write (ce_capability c) p = Ok ()" "c1 = c"
    by (auto simp: check_and_journal_capability_def split: sum.splits)
  then show "stage c1 (f x c1)" using assms by (simp add: writable_def)
qed

lemma px_check_write_Ok: "px_check_write p operation c = (Ok x, c1) \<Longrightarrow> writable (ce_capability c) p \<and> c1 = c"
  by (auto simp: px_check_write_def convert_err_def check_and_journal_capability_def writable_def split: sum.splits)

lemma stage_px_check: "stage c (px_check_write p operation c)" "stage c (px_check_read p operation c)"
  by (simp_all add: px_check_write_def px_check_read_def stage_check)

lemma stage_px_reserve: "stage c (reserve_write_budget n c)"
  by (simp add: reserve_write_budget_def stage_reserve)

lemma stage_px_release: "stage c (r, release_write_budget e n c)"
  by (simp add: release_write_budget_def stage_release_unless)

lemma stage_journal: "stage c (r, journal_result operation text b c)" "stage c (r, journal_file_write p n c)"
  by (simp_all add: journal_result_def journal_file_write_def stage_note)

lemma stage_finish: "stage c rc \<Longrightarrow> stage c (px_finish operation f rc)"
  using stage_then_note by (cases rc; cases "fst rc") (auto simp: px_finish_def journal_result_def)

text \<open>A run on the filesystem is a stage.\<close>

lemma stage_fsteps:
  assumes "fsteps (admitted (cell_ops c) (ce_capability c)) (ce_vfs c) w"
  shows "stage c (r, c\<lparr>ce_vfs := w\<rparr>)"
  using assms
proof (induction rule: fsteps.induct)
  case fs_start
  then show ?case by simp
next
  case (fs_turn v)
  have "stage (c\<lparr>ce_vfs := v\<rparr>) (r, cell_turn (c\<lparr>ce_vfs := v\<rparr>))" by (rule stage_turn)
  then show ?case using stage_trans[OF fs_turn.IH] by (simp add: cell_turn_def)
next
  case (fs_call v k)
  let ?c = "c\<lparr>ce_vfs := v\<rparr>"
  have "cell_ops ?c = cell_ops c" using fsteps_ops[OF fs_call.hyps(1)] by simp
  then have "stage ?c (r, cell_call k ?c)" using fs_call.hyps(2) by (simp add: stage_def R_call)
  then show ?case using stage_trans[OF fs_call.IH] by (simp add: cell_call_def)
qed

lemma stage_goes:
  assumes "goes (admitted (cell_ops c) (ce_capability c)) (ce_vfs c) (f (ce_vfs c))"
  shows "stage c (on_vfs f c)"
  using assms stage_fsteps by (cases "f (ce_vfs c)") (simp add: goes_def on_vfs_def)

lemma stage_goes_err:
  assumes "goes (admitted (cell_ops c) (ce_capability c)) (ce_vfs c) (f (ce_vfs c))"
  shows "stage c (on_vfs_err f c)"
  using stage_goes[of c f] assms by (simp add: on_vfs_err_def)

subsection \<open>Plain file operations\<close>

lemma stage_read_file: "stage c (read_file_inner p c)"
  unfolding read_file_inner_def
  by (rule stage_seq[OF stage_check], rule stage_cases[OF stage_ask]) (rule stage_note)+

lemma stage_after_note: "stage (note_entry k c) rc \<Longrightarrow> stage c rc"
  by (rule stage_trans[OF stage_note])

lemma note_setup [simp]: "same_setup c (note_entry k c)"
  by (simp add: note_entry_def)

lemma stage_write_file: "stage c (write_file_inner p d c)"
  unfolding write_file_inner_def
proof (rule stage_check_write)
  fix c1 assume w: "writable (ce_capability c) p" "c1 = c"
  let ?k = "FileWrite p (of_nat (length d))"
  have "stage c (seq (reserve_vfs_bytes (of_nat (length d)))
     (\<lambda>_ c. case on_vfs (issue (CWrite p d)) (note_entry ?k c) of
        (Inl e, c1) \<Rightarrow> (Err (SbVfs e), release_unless_unknown e (of_nat (length d)) c1)
      | (Inr _, c1) \<Rightarrow> (Ok (), c1)) c)"
  proof (rule stage_seq[OF stage_reserve], rule stage_after_note, rule stage_cases)
    fix c2 assume "same_setup c c2"
    then have "same_setup c (note_entry ?k c2)" using same_setup_trans by fastforce
    then show "stage (note_entry ?k c2) (on_vfs (issue (CWrite p d)) (note_entry ?k c2))"
      using w(1) by (intro stage_issue) (simp add: same_setup_def admitted_def)
  qed (simp_all add: stage_release_unless)
  then show "stage c (seq (reserve_vfs_bytes (of_nat (length d)))
     (\<lambda>_ c. case on_vfs (issue (CWrite p d)) (note_entry ?k c) of
        (Inl e, c1) \<Rightarrow> (Err (SbVfs e), release_unless_unknown e (of_nat (length d)) c1)
      | (Inr _, c1) \<Rightarrow> (Ok (), c1)) c1)" using w(2) by simp
qed

lemma stage_issue_from:
  "same_setup c0 c \<Longrightarrow> \<forall>p \<in> set (call_paths k). writable (ce_capability c0) p \<Longrightarrow> stage c (on_vfs (issue k) c)"
  by (rule stage_issue) (simp add: same_setup_def admitted_def)

subsection \<open>Queries\<close>

lemma stage_list_dir: "stage c (cell_list_dir p c)"
proof -
  have "stage c (cell_list_dir_bounded p c)" for c
    unfolding cell_list_dir_bounded_def
    by (intro stage_seq[OF stage_check] stage_seq) (simp_all add: stage_ask stage_note)
  then show ?thesis unfolding cell_list_dir_def by (intro stage_seq) simp_all
qed

lemma stage_metadata: "stage c (cell_metadata p c)"
  unfolding cell_metadata_def by (intro stage_seq[OF stage_check]) (simp add: stage_ask)

lemma stage_prod: "stage c (m c) \<Longrightarrow> (\<And>x c1. m c = (x, c1) \<Longrightarrow> stage c1 (g x c1)) \<Longrightarrow> stage c (case m c of (x, c1) \<Rightarrow> g x c1)"
  using stage_trans by (cases "m c") fastforce

lemma stage_exists_for_write: "stage c (path_exists_for_write p c)"
  unfolding path_exists_for_write_def
  by (intro stage_seq[OF stage_check] stage_prod[of _ "on_vfs (ask_exists p)", OF stage_ask]) simp

lemma stage_stat: "stage c (stat_metadata p c)"
  unfolding stat_metadata_def
  by (intro stage_seq stage_cases[OF stage_ask]) (simp_all add: stage_px_check stage_journal)

lemma stage_px_list: "stage c (px_list_dir_bounded p c)"
  unfolding px_list_dir_bounded_def
  by (intro stage_seq stage_px_check stage_finish stage_ask stage_refl)

lemma stage_px_exists: "stage c (px_exists p c)"
  unfolding px_exists_def
  by (intro stage_seq stage_px_check stage_prod[of _ "on_vfs (ask_exists p)", OF stage_ask]) simp

subsection \<open>Mutations through the proxy\<close>

lemma stage_px_write_check:
  assumes "\<And>x c1. writable (ce_capability c) p \<Longrightarrow> c1 = c \<Longrightarrow> stage c1 (f x c1)"
  shows "stage c (seq (px_check_write p operation) f c)"
proof (rule stage_seq[OF stage_px_check(1)])
  fix x c1 assume "px_check_write p operation c = (Ok x, c1)"
  from px_check_write_Ok[OF this] show "stage c1 (f x c1)" using assms by blast
qed

lemma stage_mx_write_check:
  assumes "\<And>x c1. writable (ce_capability c) p \<Longrightarrow> c1 = c \<Longrightarrow> stage c1 (f x c1)"
  shows "stage c (seq (\<lambda>c. convert_err g (px_check_write p operation c)) f c)"
proof (rule stage_seq)
  fix x c1 assume q: "convert_err g (px_check_write p operation c) = (Ok x, c1)"
  obtain r c2 where r: "px_check_write p operation c = (r, c2)" by fastforce
  then have "map_err g r = Ok x" "c2 = c1" using q by (simp_all add: convert_err_def)
  then have "r = Ok x" by (cases r) simp_all
  then have "px_check_write p operation c = (Ok x, c1)" using r \<open>c2 = c1\<close> by simp
  from px_check_write_Ok[OF this] show "stage c1 (f x c1)" using assms by blast
qed (simp add: stage_px_check)

lemma stage_px_remove: "stage c (px_remove p c)"
  unfolding px_remove_def
  by (intro stage_px_write_check stage_seq stage_px_reserve stage_finish) (auto intro: stage_issue_from)

lemma stage_px_mkdir: "stage c (px_mkdir p c)"
  unfolding px_mkdir_def
  by (intro stage_px_write_check stage_seq stage_px_reserve stage_finish) (auto intro: stage_issue_from)

lemma journal_setup: "same_setup c (journal_file_write p n c)"
  by (simp add: journal_file_write_def)

lemma stage_after_file: "stage (journal_file_write p n c) rc \<Longrightarrow> stage c rc"
  by (rule stage_trans[OF stage_journal(2)])

lemma stage_px_append: "stage c (px_append_file p d c)"
  unfolding px_append_file_def
proof (rule stage_px_write_check, rule stage_seq[OF stage_px_reserve], rule stage_after_file, rule stage_cases, goal_cases)
  case (1 y c1 x c2)
  let ?c = "journal_file_write p (length d) c2"
  have "same_setup c ?c" using 1 same_setup_trans journal_setup by blast
  then have "ce_capability ?c = ce_capability c" by (simp add: same_setup_def)
  then show ?case using 1(1) by (intro stage_goes goes_append) (simp_all add: admitted_def)
qed (simp_all add: stage_px_release)

lemma stage_mx_write_if: "stage c (mx_write_if p d pre c)"
  unfolding mx_write_if_def
proof (rule stage_mx_write_check, rule stage_seq, goal_cases)
  case (2 y c1 x c2)
  show ?case
  proof (rule stage_after_file, rule stage_cases, goal_cases)
    case 1
    have "same_setup c (journal_file_write p (length d) c2)" using 2 same_setup_trans journal_setup by blast
    then show ?case using 2(1) by (intro stage_issue_from[of c]) simp_all
  qed (simp_all add: stage_px_release)
qed (simp add: stage_px_reserve)

lemma stage_mx_rename: "stage c (mx_rename a b c)"
  unfolding mx_rename_def
proof (rule stage_mx_write_check, rule stage_mx_write_check, rule stage_seq, goal_cases)
  case (2 y c1 z c2 x c3)
  show ?case
  proof (rule stage_cases, goal_cases)
    case 1
    show ?case using 2 by (intro stage_issue_from[of c]) simp_all
  qed (simp_all add: stage_journal)
qed (simp add: stage_px_reserve)

lemma check_all_Ok: "check_all_writes ps c = (Ok x, c1) \<Longrightarrow> (\<forall>p \<in> set ps. writable (ce_capability c) p) \<and> c1 = c"
  by (induction ps arbitrary: c) (auto simp: seq_Ok convert_err_Ok dest: px_check_write_Ok)

lemma stage_check_all: "stage c (check_all_writes ps c)"
  by (induction ps arbitrary: c) (auto intro!: stage_seq simp: stage_px_check)

lemma stage_fold_journal: "stage c (r, fold (\<lambda>(p, n). journal_file_write p n) ws c)"
proof (induction ws arbitrary: c)
  case (Cons w ws)
  obtain p n where "w = (p, n)" by fastforce
  then show ?case using stage_after_file[OF Cons] by simp
qed simp

lemma stage_mx_apply_batch: "stage c (mx_apply_batch ms c)"
  unfolding mx_apply_batch_def Let_def
proof (rule stage_seq[OF stage_check_all], rule stage_seq, goal_cases)
  case (2 x c1 y c2)
  let ?ws = "List.map_filter batch_write ms"
  let ?c = "fold (\<lambda>(p, n). journal_file_write p n) ?ws c2"
  have w: "\<forall>p \<in> set (call_paths (CBatch ms)). writable (ce_capability c) p" "c1 = c"
    using check_all_Ok[OF 2(1)] by simp_all
  show ?case
  proof (rule stage_trans[OF stage_fold_journal[of c2 _ ?ws]], rule stage_cases, goal_cases)
    case 1
    have "same_setup c2 ?c" using stage_fold_journal[of c2 "()" ?ws] by (simp add: stage_def)
    then have "same_setup c ?c" using 2(4) w(2) same_setup_trans by blast
    then show ?case by (rule stage_issue_from) (rule w(1))
  next
    case (2 e c3)
    show ?case unfolding Let_def
      by (cases "is_unsupported e") (simp_all add: stage_px_release stage_trans[OF stage_px_release stage_journal(1)])
  qed (simp_all add: stage_journal)
qed (simp add: stage_px_reserve)

text \<open>The recursive copy runs only where an atomic call was refused.\<close>

lemma stage_copy_write:
  assumes "\<not> never_unsupported (cell_ops c)" "writable (ce_capability c) p" "joined p q"
  shows "stage c (charged_copy_write q d c)"
  unfolding charged_copy_write_def
proof (rule stage_seq, goal_cases)
  case (2 x c1)
  show ?case
  proof (rule stage_after_file, rule stage_cases, goal_cases)
    case 1
    have "same_setup c (journal_file_write q (length d) c1)" using 2(2) same_setup_trans journal_setup by blast
    then show ?case using assms by (intro stage_issue) (auto simp: same_setup_def admitted_def)
  qed (simp_all add: stage_px_release)
qed (simp add: stage_px_reserve)

lemma stage_children:
  assumes "\<And>f t c1 rc. same_setup c c1 \<Longrightarrow> joined p t \<Longrightarrow> copy f t c1 = Some rc \<Longrightarrow> stage c1 rc"
    and "copy_children copy f t children c1 = Some rc" "same_setup c c1" "joined p t"
  shows "stage c1 rc"
  using assms(2,3)
proof (induction children arbitrary: c1)
  case (Cons x xs)
  then obtain r c2 where r: "copy (join_vfs_path f x) (join_vfs_path t x) c1 = Some (r, c2)"
    by (cases "copy (join_vfs_path f x) (join_vfs_path t x) c1") auto
  have st: "stage c1 (r, c2)" using assms(1)[OF Cons.prems(2) joined_child[OF assms(4)] r] .
  then have "same_setup c c2" using Cons.prems(2) same_setup_trans by (auto simp: stage_def)
  note IH = Cons.IH[OF _ this]
  show ?case
  proof (cases r)
    case (Inr u)
    then have "stage c2 rc" using IH Cons.prems(1) r by simp
    then show ?thesis by (rule stage_trans[OF st])
  qed (use Cons.prems(1) r st stage_fst in auto)
qed auto

lemma stage_copy:
  assumes "\<not> never_unsupported (cell_ops c)" "writable (ce_capability c) p"
    and "copy_vfs_entry charged_copy_write depth f t c1 = Some rc" "same_setup c c1" "joined p t"
  shows "stage c1 rc"
  using assms(3-5)
proof (induction depth arbitrary: f t c1 rc)
  case (Suc depth)
  note F = assms(1,2)
  have at: "\<not> never_unsupported (cell_ops v)" "writable (ce_capability v) p" if "same_setup c v" for v
    using F that by (simp_all add: same_setup_def)
  obtain r1 c2 where m: "on_vfs (ask_metadata f) c1 = (r1, c2)" by fastforce
  have s1: "stage c1 (r1, c2)" using stage_ask[of c1] m by metis
  then have c2: "same_setup c c2" using Suc.prems(2) same_setup_trans by (auto simp: stage_def)
  show ?case
  proof (cases r1)
    case (Inr md)
    show ?thesis
    proof (cases "md_is_file md")
      case True
      have "stage c2 (seq (on_vfs (ask_read f)) (charged_copy_write t) c2)"
      proof (rule stage_seq[OF stage_ask])
        fix x c3 assume "same_setup c2 c3"
        then have "same_setup c c3" using c2 same_setup_trans by blast
        then show "stage c3 (charged_copy_write t x c3)" using stage_copy_write at Suc.prems(3) by blast
      qed
      then show ?thesis using Suc.prems(1) m Inr True stage_trans[OF s1] by simp
    next
      case False
      obtain r2 c3 where k: "on_vfs (issue (CMkdir t)) c2 = (r2, c3)" by fastforce
      have "stage c2 (on_vfs (issue (CMkdir t)) c2)"
        using at[OF c2] Suc.prems(3) by (intro stage_issue) (auto simp: admitted_def)
      then have s2: "stage c1 (r2, c3)" using k stage_trans[OF s1] by simp
      show ?thesis
      proof (cases r2)
        case (Inr u)
        obtain r3 c4 where l: "on_vfs (ask_list_dir f) c3 = (r3, c4)" by fastforce
        have "stage c3 (r3, c4)" using stage_ask[of c3] l by metis
        from stage_trans[OF s2 this] have s3: "stage c1 (r3, c4)" .
        then have c4: "same_setup c c4" using Suc.prems(2) same_setup_trans by (auto simp: stage_def)
        show ?thesis
        proof (cases r3)
          case (Inr children)
          then have "copy_children (copy_vfs_entry charged_copy_write depth) f t children c4 = Some rc"
            using Suc.prems(1) m \<open>r1 = Ok md\<close> False k \<open>r2 = Ok u\<close> l by simp
          from stage_children[OF _ this c4 Suc.prems(3)] have "stage c4 rc" using Suc.IH by blast
          then show ?thesis by (rule stage_trans[OF s3])
        qed (use Suc.prems(1) m \<open>r1 = Ok md\<close> False k \<open>r2 = Ok u\<close> l s3 stage_fst in auto)
      qed (use Suc.prems(1) m \<open>r1 = Ok md\<close> False k s2 stage_fst in auto)
    qed
  qed (use Suc.prems(1) m s1 stage_fst in auto)
qed simp

lemma stage_rename_replacing:
  assumes "rename_replacing charged_copy_write depth f t c = Some rc" "same_setup c0 c"
    and "writable (ce_capability c0) f" "writable (ce_capability c0) t"
  shows "stage c rc"
proof -
  obtain r1 c1 where m: "on_vfs (ask_metadata f) c = (r1, c1)" by fastforce
  have s1: "stage c (r1, c1)" using stage_ask[of c] m by metis
  show ?thesis
  proof (cases r1)
    case (Inr src)
    show ?thesis
    proof (cases "normalize_path f = normalize_path t")
      case False
      obtain r2 c2 where a: "on_vfs (rename_atomic src f t) c1 = (r2, c2)" by fastforce
      have su: "same_setup c0 c1" using s1 assms(2) same_setup_trans by (auto simp: stage_def)
      then have cap: "writable (ce_capability c1) f" "writable (ce_capability c1) t"
        using assms(3,4) by (simp_all add: same_setup_def)
      have "stage c1 (on_vfs (rename_atomic src f t) c1)"
        using cap by (intro stage_goes goes_rename_atomic) (simp_all add: admitted_def)
      then have "stage c1 (r2, c2)" using a by simp
      from stage_trans[OF s1 this] have s2: "stage c (r2, c2)" .
      show ?thesis
      proof (cases "\<exists>e. r2 = Ok (Err e) \<and> is_unsupported e")
        case True
        then obtain e where e: "r2 = Ok (Err e)" "is_unsupported e" by blast
        have "\<exists>k w. fst (issue k w) = Err e \<and> sf_ops w = cell_ops c"
        proof -
          have t0: "sf_ops (snd (ask_metadata t (ce_vfs c1))) = cell_ops c"
            using s1 by (simp add: ask_def Let_def sf_turn_def stage_def same_setup_def)
          show ?thesis using a e(1) t0
            by (auto simp: on_vfs_def rename_atomic_def split: prod.splits sum.splits if_splits) (metis fst_conv snd_conv)+
        qed
        then obtain k w where kw: "fst (issue k w) = Err e" "sf_ops w = cell_ops c" by blast
        then have "vfs_call (cell_ops c) (sf_others w (sf_clock w) (sf_state w)) k =
            (Err e, snd (vfs_call (cell_ops c) (sf_others w (sf_clock w) (sf_state w)) k))"
          by (cases "vfs_call (cell_ops c) (sf_others w (sf_clock w) (sf_state w)) k")
            (simp add: issue_def Let_def sf_turn_def)
        then have nu: "\<not> never_unsupported (cell_ops c)" using e(2) unfolding never_unsupported_def by blast
        obtain rc' where cp: "copy_vfs_entry charged_copy_write depth f t c2 = Some rc'"
          using assms(1) m Inr False a e by (auto simp: rename_replacing_def split: option.splits)
        obtain r3 c3 where rc': "rc' = (r3, c3)" by fastforce
        have s2': "same_setup c c2" using s2 by (simp add: stage_def)
        have "stage c2 rc'"
          by (rule stage_copy[OF nu _ cp s2' joined_here]) (use assms(2,4) in \<open>simp add: same_setup_def\<close>)
        then have "stage c2 (r3, c3)" using rc' by simp
        from stage_trans[OF s2 this] have s3: "stage c (r3, c3)" .
        show ?thesis
        proof (cases r3)
          case (Inr u)
          have "same_setup c0 c3" using s3 assms(2) same_setup_trans by (auto simp: stage_def)
          from stage_issue_from[OF this, of "CRemove f"] assms(3)
          have "stage c3 (on_vfs (issue (CRemove f)) c3)" by simp
          moreover have "rc = on_vfs (issue (CRemove f)) c3"
            using assms(1) m \<open>r1 = Ok src\<close> False a e cp rc' Inr by (simp add: rename_replacing_def)
          ultimately show ?thesis using stage_trans[OF s3] by metis
        qed (use assms(1) m \<open>r1 = Ok src\<close> False a e cp rc' s3 stage_fst in \<open>auto simp: rename_replacing_def\<close>)
      qed (use assms(1) m Inr False a s2 stage_fst in \<open>auto simp: rename_replacing_def split: sum.splits if_splits\<close>)
    qed (use assms(1) m Inr s1 stage_fst in \<open>auto simp: rename_replacing_def\<close>)
  qed (use assms(1) m s1 stage_fst in \<open>auto simp: rename_replacing_def\<close>)
qed

lemma stage_px_rename:
  assumes "px_rename depth f t c = Some rc"
  shows "stage c rc"
proof -
  let ?g = "seq (px_check_write f ''rename'') (\<lambda>_. seq (px_check_write t ''rename'') (\<lambda>_. reserve_write_budget 0))"
  obtain r c1 where g: "?g c = (r, c1)" by fastforce
  have "stage c (?g c)" by (intro stage_seq stage_px_check stage_px_reserve)
  then have s: "stage c (r, c1)" using g by simp
  show ?thesis
  proof (cases r)
    case (Inr u)
    then have w: "writable (ce_capability c) f" "writable (ce_capability c) t"
      using g by (auto simp: seq_Ok dest!: px_check_write_Ok)
    obtain rc' where rn: "rename_replacing charged_copy_write depth f t c1 = Some rc'"
      "rc = px_finish ''rename'' (\<lambda>_. ''renamed '' @ f @ '' to '' @ t) rc'"
      using assms g Inr by (auto simp: px_rename_def)
    have "same_setup c c1" using s by (simp add: stage_def)
    from stage_finish[OF stage_rename_replacing[OF rn(1) this w]] have "stage c1 rc" using rn(2) by simp
    then show ?thesis by (rule stage_trans[OF s])
  qed (use assms g s stage_fst in \<open>auto simp: px_rename_def\<close>)
qed

subsection \<open>The batch\<close>

lemma check_paths_write_Ok:
  "check_paths check_path_write tn ps c = (Ok x, c1) \<Longrightarrow> (\<forall>p \<in> set ps. writable (ce_capability c) p) \<and> c1 = c"
proof (induction ps arbitrary: c)
  case (Cons p ps)
  then obtain c2 where k: "check_and_journal_capability (check_path_write (ce_capability c) p) tn c = (Ok (), c2)"
    "check_paths check_path_write tn ps c2 = (Ok x, c1)" by (auto simp: seq_Ok)
  then have "check_path_write (ce_capability c) p = Ok ()" "c2 = c"
    by (auto simp: check_and_journal_capability_def split: sum.splits)
  then show ?case using Cons.IH k(2) by (auto simp: writable_def)
qed simp

lemma check_paths_Ok: "check_paths chk tn ps c = (Ok x, c1) \<Longrightarrow> c1 = c"
  by (induction ps arbitrary: c)
    (auto simp: seq_Ok check_and_journal_capability_def split: sum.splits)

lemma check_batch_Ok:
  "check_batch_capabilities tn ms c = (Ok x, c1) \<Longrightarrow> (\<forall>p \<in> batch_paths ms. writable (ce_capability c) p) \<and> c1 = c"
proof (induction ms arbitrary: c)
  case (Cons m ms)
  then obtain c2 c3 where k: "check_paths check_path_read tn (fst (checked_paths m)) c = (Ok (), c2)"
    "check_paths check_path_write tn (snd (checked_paths m)) c2 = (Ok (), c3)"
    "check_batch_capabilities tn ms c3 = (Ok x, c1)" by (auto simp: seq_Ok)
  from check_paths_Ok[OF k(1)] check_paths_write_Ok[OF k(2)] Cons.IH[OF k(3)]
  show ?case by (auto simp: batch_paths_def)
qed (simp add: batch_paths_def)

lemma stage_check_paths: "stage c (check_paths chk tn ps c)"
proof (induction ps arbitrary: c)
  case (Cons p ps)
  then show ?case unfolding check_paths.simps by (intro stage_seq[OF stage_check])
qed simp

lemma stage_check_batch: "stage c (check_batch_capabilities tn ms c)"
proof (induction ms arbitrary: c)
  case (Cons m ms)
  then show ?case unfolding check_batch_capabilities.simps by (intro stage_seq stage_check_paths)
qed simp

lemma stage_log: "stage c (log_entry k c)"
  using R_log by (simp add: stage_def)

lemma stage_journal_each: "stage c (journal_each what ks c)"
proof (induction ks arbitrary: c)
  case (Cons k ks)
  then show ?case unfolding journal_each.simps by (intro stage_cases[OF stage_log]) simp_all
qed simp

lemma stage_release_reserved: "stage c (r, release_reserved_bytes n c)"
  by (simp add: release_reserved_bytes_def stage_then_release)

lemma stage_releasing: "stage c (f c) \<Longrightarrow> stage c (releasing n f c)"
  unfolding releasing_def by (rule stage_cases) (simp_all add: stage_release_reserved)

lemma stage_tool_error: "stage c (r, journal_tool_error tn text c)"
  by (simp add: journal_tool_error_def stage_note)

text \<open>What the commit relies on: everything prepared is admitted.\<close>

definition prepared_ok :: "('s, 'b, 'j, 'v, 'd) agent_cell \<Rightarrow> prepared \<Rightarrow> rollback_entry list \<Rightarrow> bool" where
  "prepared_ok c pp states \<longleftrightarrow>
     (\<exists>A. within_paths A pp \<and> (\<forall>p \<in> A. writable (ce_capability c) p) \<and> map rb_path states = map fst (pp_rollback pp))"

lemma prepared_okD:
  assumes "prepared_ok c pp states"
  shows "m \<in> set (pp_mutations pp) \<Longrightarrow> p \<in> set (prepared_paths m) \<Longrightarrow> writable (ce_capability c) p"
    "k \<in> set (pp_batch pp) \<Longrightarrow> p \<in> set (mutation_paths k) \<Longrightarrow> writable (ce_capability c) p"
  using assms unfolding prepared_ok_def within_paths_def by blast+

lemma prepared_ok_setup: "same_setup c c' \<Longrightarrow> prepared_ok c' pp states = prepared_ok c pp states"
  by (simp add: prepared_ok_def same_setup_def)

lemma writable_plain: "writable (ce_capability c) p \<Longrightarrow> plain_calls (admitted (cell_ops c) (ce_capability c)) p"
  by (simp add: plain_calls_def admitted_def)

lemma stage_execute:
  assumes "prepared_ok c pp states"
  shows "stage c (on_vfs (execute_prepared (pp_mutations pp)) c)"
  by (intro stage_goes goes_execute) (auto intro!: writable_plain prepared_okD(1)[OF assms])

lemma stage_restore:
  assumes "prepared_ok c pp states" "\<not> never_unsupported (cell_ops c)"
  shows "stage c (on_vfs (restore_vfs_path_states states (pp_parent_dirs pp)) c)"
  unfolding restore_vfs_path_states_def
proof (intro stage_goes goes_seq goes_revert goes_empty_dirs)
  obtain A where A: "within_paths A pp" "\<forall>p \<in> A. writable (ce_capability c) p" "map rb_path states = map fst (pp_rollback pp)"
    using assms(1) by (auto simp: prepared_ok_def)
  have "rb_path ` set states = fst ` set (pp_rollback pp)" using arg_cong[OF A(3), of set] by simp
  then show "\<forall>en \<in> set (rev states). plain_calls (admitted (cell_ops c) (ce_capability c)) (rb_path en)"
    using A(1,2) by (auto simp: within_paths_def intro!: writable_plain)
  show "admitted (cell_ops c) (ce_capability c) (CRemove d)" if "d \<in> set (rev (pp_parent_dirs pp))" for d
    using that A(1,2) assms(2) by (auto simp: within_paths_def admitted_def)
qed

lemma stage_fallback:
  assumes "prepared_ok c pp states" "\<not> never_unsupported (cell_ops c)"
  shows "stage c (run_fallback tn n pp states c)"
  unfolding run_fallback_def
proof (rule stage_cases, goal_cases)
  case 1
  show ?case by (rule stage_execute[OF assms(1)])
next
  case (2 e c1)
  let ?c = "release_reserved_bytes n c1"
  have "same_setup c c1" using stage_execute[OF assms(1)] 2 by (simp add: stage_def)
  moreover have "same_setup c1 ?c" using stage_release_reserved[of c1 "()" n] by (simp add: stage_def)
  ultimately have s: "same_setup c ?c" using same_setup_trans by blast
  then have "prepared_ok ?c pp states" "\<not> never_unsupported (cell_ops ?c)"
    using assms by (simp_all add: prepared_ok_setup) (simp add: same_setup_def)
  note r = stage_restore[OF this]
  have "stage c1 (case on_vfs (restore_vfs_path_states states (pp_parent_dirs pp)) ?c of
        (Inl r, c2) \<Rightarrow>
          (Err (SbInternal (''failed to roll back VFS mutations after '' @ show_vfs_error e @ '': '' @ show_vfs_error r)), c2)
      | (Inr _, c2) \<Rightarrow> (Err (SbVfs e) :: sandbox_error + unit, journal_execution_failure tn e c2))"
    by (rule stage_trans[OF stage_release_reserved[of c1 "()" n]], rule stage_cases, rule r)
      (simp_all add: journal_execution_failure_def stage_tool_error)
  then show ?case by (simp add: journal_unknown_outcome_def stage_tool_error)
qed simp

lemma stage_commit:
  assumes "prepared_ok c pp states"
  shows "stage c (commit_batch tn n pp states c)"
  unfolding commit_batch_def
proof (rule stage_cases, goal_cases)
  case 1
  show ?case by (rule stage_issue_from[OF same_setup_refl]) (auto intro: prepared_okD(2)[OF assms])
next
  case (2 e c1)
  have "stage c (on_vfs (issue (CBatch (pp_batch pp))) c)"
    by (rule stage_issue_from[OF same_setup_refl]) (auto intro: prepared_okD(2)[OF assms])
  then have s: "same_setup c c1" using 2 by (simp add: stage_def)
  show ?case
  proof (cases "is_unsupported e")
    case True
    have "fst (vfs_call (cell_ops c) (sf_state (ce_vfs (cell_turn c))) (CBatch (pp_batch pp))) = Err e"
      using 2 by (simp add: on_vfs_issue)
    then have "vfs_call (cell_ops c) (sf_state (ce_vfs (cell_turn c))) (CBatch (pp_batch pp)) =
        (Err e, snd (vfs_call (cell_ops c) (sf_state (ce_vfs (cell_turn c))) (CBatch (pp_batch pp))))"
      by (metis prod.collapse)
    then have "\<not> never_unsupported (cell_ops c)" using True unfolding never_unsupported_def by blast
    then have "\<not> never_unsupported (cell_ops c1)" using s by (simp add: same_setup_def)
    moreover have "prepared_ok c1 pp states" using assms s by (simp add: prepared_ok_setup)
    ultimately show ?thesis using True by (simp add: stage_fallback)
  next
    case False
    have "stage c1 (Err (SbVfs e) :: sandbox_error + unit, journal_execution_failure tn e (release_reserved_bytes n c1))"
      unfolding journal_execution_failure_def by (rule stage_trans[OF stage_release_reserved stage_tool_error])
    then show ?thesis using False by (simp add: journal_unknown_outcome_def stage_tool_error)
  qed
qed simp

lemma stage_apply: "stage c (apply_vfs_mutations tn ms c)"
  unfolding apply_vfs_mutations_def
proof (rule stage_seq[OF stage_check_batch], rule stage_seq[OF stage_preflight], rule stage_seq, goal_cases)
  case (1 x c1 y c2)
  show ?case unfolding tally_mutations_def by (rule stage_goes_err) (rule goes_tally)
next
  case (2 x c1 y c2 t c3)
  have w: "\<forall>p \<in> batch_paths ms. writable (ce_capability c) p" using check_batch_Ok 2(1) by blast
  have s3: "same_setup c c3" using 2(2,4,6) same_setup_trans by blast
  show ?case
  proof (rule stage_seq, goal_cases)
    case 1 show ?case by (simp add: stage_reserve)
  next
    case (2 z c4)
    show ?case
    proof (rule stage_seq[OF stage_releasing], goal_cases)
      case 1
      show ?case unfolding prepare_all_mutations_def by (rule stage_goes_err) (rule goes_prepare_loop)
    next
      case p: (2 pp c5)
      then have "\<exists>w'. prepare_all_mutations ms (ce_vfs c4) = (Ok pp, w')"
        by (auto simp: releasing_def on_vfs_err_def convert_err_Ok on_vfs_def split: prod.splits sum.splits)
      then have within: "within_paths (batch_paths ms) pp" using prepare_all_within by blast
      have s5: "same_setup c c5" using s3 2(2) p(2) same_setup_trans by blast
      show ?case
      proof (rule stage_seq[OF stage_releasing], goal_cases)
        case 1 show ?case by (rule stage_goes_err) (rule goes_capture)
      next
        case k: (2 states c6)
        then have "map rb_path states = map fst (pp_rollback pp)"
          by (auto simp: releasing_def on_vfs_err_def on_vfs_def convert_err_Ok split: prod.splits sum.splits dest: capture_paths)
        then have ok: "prepared_ok c pp states" using within w by (auto simp: prepared_ok_def)
        have s6: "same_setup c c6" using s5 k(2) same_setup_trans by blast
        show ?case
          unfolding journal_plan_def journal_deletes_def journal_moves_def journal_writes_def
        proof (intro stage_seq stage_releasing stage_journal_each stage_commit, goal_cases)
          case (1 _ c7 _ c8 _ c9 _ c10)
          then have "same_setup c c10" using s6 same_setup_trans by blast
          then show ?case using ok by (simp add: prepared_ok_setup)
        qed
      qed
    qed
  qed
qed

end

lemma check_Ok: "check_and_journal_capability check operation c = (Ok x, c1) \<Longrightarrow> check = Ok () \<and> c1 = c"
  by (cases check) (auto simp: check_and_journal_capability_def)

lemma admitted_strict: "\<forall>p \<in> set (call_paths k). writable t p \<Longrightarrow> admitted F t k"
  by (simp add: admitted_def)

lemma same_setup_admitted: "same_setup c c' \<Longrightarrow> admitted (cell_ops c') (ce_capability c') k = admitted (cell_ops c) (ce_capability c) k"
  by (simp add: same_setup_def)

end
