(* ===== verification/Sandbox_Safety.thy ===== *)
theory Sandbox_Safety
  imports Sandbox_Steps
begin

text \<open>
  What holds of an agent cell whatever its scripts, tools and shell do: the operations as a datatype,
  runs of them, and the three interpretations of \<open>cell_steps\<close> on the model: confinement of the calls to
  the capability, the byte budget, and the journal that only grows.
\<close>

section \<open>Operations and runs\<close>

datatype cell_op =
    OpReadFile string | OpWriteFile string bytes | OpPreflightWrite string | OpExistsForWrite string
  | OpPreflightBytes u64 | OpListDir string | OpMetadata string
  | OpApply string "vfs_mutation list" | OpRemove string | OpMove string string
  | PxRead string | PxWrite string bytes | PxAppend string bytes | PxListDir string | PxStat string
  | PxRemove string | PxRename nat string string | PxExists string | PxMkdir string
  | MxRead string | MxWrite string bytes | MxExists string | MxListDir string | MxMkdir string
  | MxRemove string | MxMetadata string | MxWriteIf string bytes precondition | MxRename string string
  | MxBatch "fs_mutation list" | MxListBounded string

fun run_op :: "cell_op \<Rightarrow> ('s, 'b, 'j, 'v, 'd) agent_cell \<Rightarrow> ('s, 'b, 'j, 'v, 'd) agent_cell option" where
  "run_op (OpReadFile p) c = Some (snd (read_file_inner p c))"
| "run_op (OpWriteFile p d) c = Some (snd (write_file_inner p d c))"
| "run_op (OpPreflightWrite p) c = Some (snd (preflight_path_write p c))"
| "run_op (OpExistsForWrite p) c = Some (snd (path_exists_for_write p c))"
| "run_op (OpPreflightBytes n) c = Some (snd (preflight_vfs_write_bytes n c))"
| "run_op (OpListDir p) c = Some (snd (cell_list_dir p c))"
| "run_op (OpMetadata p) c = Some (snd (cell_metadata p c))"
| "run_op (OpApply tn ms) c = Some (snd (apply_vfs_mutations tn ms c))"
| "run_op (OpRemove p) c = Some (snd (remove_path p c))"
| "run_op (OpMove a b) c = Some (snd (move_path a b c))"
| "run_op (PxRead p) c = Some (snd (px_read_file p c))"
| "run_op (PxWrite p d) c = Some (snd (px_write_file p d c))"
| "run_op (PxAppend p d) c = Some (snd (px_append_file p d c))"
| "run_op (PxListDir p) c = Some (snd (px_list_dir p c))"
| "run_op (PxStat p) c = Some (snd (px_stat p c))"
| "run_op (PxRemove p) c = Some (snd (px_remove p c))"
| "run_op (PxRename depth a b) c = map_option snd (px_rename depth a b c)"
| "run_op (PxExists p) c = Some (snd (px_exists p c))"
| "run_op (PxMkdir p) c = Some (snd (px_mkdir p c))"
| "run_op (MxRead p) c = Some (snd (mx_read p c))"
| "run_op (MxWrite p d) c = Some (snd (mx_write p d c))"
| "run_op (MxExists p) c = Some (snd (mx_exists p c))"
| "run_op (MxListDir p) c = Some (snd (mx_list_dir p c))"
| "run_op (MxMkdir p) c = Some (snd (mx_mkdir p c))"
| "run_op (MxRemove p) c = Some (snd (mx_remove p c))"
| "run_op (MxMetadata p) c = Some (snd (mx_metadata p c))"
| "run_op (MxWriteIf p d pre) c = Some (snd (mx_write_if p d pre c))"
| "run_op (MxRename a b) c = Some (snd (mx_rename a b c))"
| "run_op (MxBatch ms) c = Some (snd (mx_apply_batch ms c))"
| "run_op (MxListBounded p) c = Some (snd (mx_list_dir_bounded p c))"

fun run_ops :: "cell_op list \<Rightarrow> ('s, 'b, 'j, 'v, 'd) agent_cell \<Rightarrow> ('s, 'b, 'j, 'v, 'd) agent_cell option" where
  "run_ops [] c = Some c"
| "run_ops (op # ops) c = Option.bind (run_op op c) (run_ops ops)"

lemma snd_convert_err [simp]: "snd (convert_err g rc) = snd rc"
  by (simp add: convert_err_def)

context cell_steps
begin

lemma stage_snd: "stage c rc \<Longrightarrow> R c (snd rc)"
  by (simp add: stage_def)

lemma stage_mx_list: "stage c (mx_list_dir_bounded p c)" "stage c (px_list_dir p c)" "stage c (px_stat p c)"
  unfolding mx_list_dir_bounded_def px_list_dir_def px_stat_def
  by (intro stage_seq; simp add: stage_px_list stage_stat)+

lemma run_op_R:
  assumes "run_op op c = Some c'"
  shows "R c c'"
proof (cases op)
  case (MxExists p)
  have "stage c (mx_exists p c)" unfolding mx_exists_def
    by (rule stage_cases[of c "px_exists p", OF stage_px_exists]) simp_all
  then have "R c (snd (mx_exists p c))" by (rule stage_snd)
  then show ?thesis using MxExists assms by auto
next
  case (PxRename depth a b)
  then obtain rc where "px_rename depth a b c = Some rc" "snd rc = c'" using assms by auto
  then show ?thesis using stage_snd[OF stage_px_rename] by blast
next
  case (OpPreflightWrite p)
  then show ?thesis using assms stage_snd[OF stage_check] by (auto simp: preflight_path_write_def)
qed (use assms in \<open>auto simp: remove_path_def move_path_def px_read_file_def px_write_file_def mx_read_def mx_write_def
      mx_list_dir_def mx_mkdir_def mx_remove_def mx_metadata_def
      intro!: stage_snd stage_read_file stage_write_file stage_exists_for_write stage_preflight stage_list_dir stage_metadata
        stage_apply stage_px_append stage_mx_list stage_px_remove stage_px_exists stage_px_mkdir stage_stat stage_mx_write_if
        stage_mx_rename stage_mx_apply_batch\<close>)

lemma run_ops_R: "run_ops ops c = Some c' \<Longrightarrow> R c c'"
proof (induction ops arbitrary: c)
  case (Cons op ops)
  then obtain c1 where "run_op op c = Some c1" "run_ops ops c1 = Some c'" by (auto simp: bind_eq_Some_conv)
  then show ?case using Cons.IH run_op_R R_trans by blast
qed (simp add: R_refl)

end

section \<open>Confinement\<close>

definition confined :: "('s, 'b, 'j, 'v, 'd) agent_cell \<Rightarrow> ('s, 'b, 'j, 'v, 'd) agent_cell \<Rightarrow> bool" where
  "confined c c' \<longleftrightarrow> ce_capability c' = ce_capability c \<and> cell_ops c' = cell_ops c \<and>
     fsteps (admitted (cell_ops c) (ce_capability c)) (ce_vfs c) (ce_vfs c')"

interpretation confinement: cell_steps confined
proof (unfold_locales, goal_cases)
  case (2 c1 c2 c3)
  then show ?case by (auto simp: confined_def intro: fsteps_trans)
qed (auto simp: confined_def log_entry_def charge_def release_vfs_bytes_def cell_turn_def cell_call_def sf_turn_def
    intro: fs_start fs_turn[OF fs_start, unfolded sf_turn_def] fs_call[OF fs_start] split: prod.split)

section \<open>The byte budget\<close>

definition within_bytes :: "'d resource_budget \<Rightarrow> bool" where
  "within_bytes b \<longleftrightarrow> (max_vfs_bytes b \<noteq> 0 \<longrightarrow> used_vfs_bytes b \<le> max_vfs_bytes b)"

definition bytes_kept :: "('s, 'b, 'j, 'v, 'd) agent_cell \<Rightarrow> ('s, 'b, 'j, 'v, 'd) agent_cell \<Rightarrow> bool" where
  "bytes_kept c c' \<longleftrightarrow> (within_bytes (ce_budget c) \<longrightarrow> within_bytes (ce_budget c')) \<and>
     (\<exists>n. ce_budget c' = (ce_budget c)\<lparr>used_vfs_bytes := n\<rparr>)"

lemma sat_sub_le: "sat_sub a b \<le> a"
  by (simp add: word_le_nat_alt unat_sat_sub)

interpretation budgeting: cell_steps bytes_kept
proof (unfold_locales, goal_cases)
  case (1 c)
  show ?case by (simp add: bytes_kept_def) (rule exI[of _ "used_vfs_bytes (ce_budget c)"], simp)
next
  case (2 c1 c2 c3)
  then show ?case by (auto simp: bytes_kept_def)
next
  case (3 c entry)
  show ?case
    by (auto simp: bytes_kept_def log_entry_def split: prod.split) (rule exI[of _ "used_vfs_bytes (ce_budget c)"], simp)
next
  case (4 n c)
  then show ?case
    by (auto simp: bytes_kept_def charge_def within_bytes_def vfs_bytes_exhausted_def Let_def word_gt_0 not_less split: if_splits)
next
  case (5 c n)
  show ?case using order_trans[OF sat_sub_le, of "used_vfs_bytes (ce_budget c)" "max_vfs_bytes (ce_budget c)" n]
    by (auto simp: bytes_kept_def release_vfs_bytes_def within_bytes_def)
next
  case (6 c)
  show ?case by (simp add: bytes_kept_def cell_turn_def) (rule exI[of _ "used_vfs_bytes (ce_budget c)"], simp)
next
  case (7 c k)
  show ?case by (simp add: bytes_kept_def cell_call_def) (rule exI[of _ "used_vfs_bytes (ce_budget c)"], simp)
qed

section \<open>The journal\<close>

definition journal_grows ::
  "('s, 'b, 'v journal_entry list, 'v, 'd) agent_cell \<Rightarrow> ('s, 'b, 'v journal_entry list, 'v, 'd) agent_cell \<Rightarrow> bool" where
  "journal_grows c c' \<longleftrightarrow> ce_storage c' = ce_storage c \<and> ce_agent_id c' = ce_agent_id c \<and>
     (js_append (ce_storage c) = mem_append \<longrightarrow>
       (\<exists>es. ce_journal c' = ce_journal c @ es \<and> (\<forall>e \<in> set es. je_agent_id e = ce_agent_id c)))"

interpretation journalling: cell_steps journal_grows
proof (unfold_locales, goal_cases)
  case (2 c1 c2 c3)
  then show ?case by (fastforce simp: journal_grows_def)
next
  case (3 c entry)
  show ?case by (auto simp: journal_grows_def log_entry_def mem_append_def validate_schema_version_def split: prod.split sum.splits)
qed (auto simp: journal_grows_def charge_def release_vfs_bytes_def cell_turn_def cell_call_def)

section \<open>Files outside the capability\<close>

lemma put_file: "ps \<noteq> q \<Longrightarrow> file_at (t_put ps n t) q = file_at t q"
  by (auto simp: t_put_def t_parents_def or_dirs_def file_at_def split: option.split)

lemma remove_file: "\<not> prefix ps q \<Longrightarrow> file_at (t_remove ps t) q = file_at t q"
  by (simp add: t_remove_def file_at_def)

lemma rename_file: "\<not> prefix fs q \<Longrightarrow> \<not> prefix ts q \<Longrightarrow> file_at (t_rename fs ts t) q = file_at t q"
  by (auto simp: t_rename_def t_parents_def or_dirs_def file_at_def split: option.split)

definition off_limits :: "fs_call \<Rightarrow> string list \<Rightarrow> bool" where
  "off_limits k q \<longleftrightarrow> (\<forall>p \<in> set (call_paths k). \<not> prefix (norm_parts p) q)"

definition file_kept :: "string list \<Rightarrow> mem_state \<Rightarrow> mem_state \<Rightarrow> bool" where
  "file_kept q s s' \<longleftrightarrow> mem_inv s' \<and> file_at (tree s') q = file_at (tree s) q"

lemma file_kept_refl: "mem_inv s \<Longrightarrow> file_kept q s s"
  by (simp add: file_kept_def)

lemma apply_one_file_kept:
  assumes inv: "mem_inv s" and ok: "apply_one s m = (Ok u, s')"
    and off: "\<forall>p \<in> set (mutation_paths m). \<not> prefix (norm_parts p) q"
  shows "file_kept q s s'"
proof -
  note a = apply_one_ok[OF inv ok]
  have "file_at (t_apply m (tree s)) q = file_at (tree s) q"
    using off by (cases m) (auto intro: put_file remove_file rename_file)
  then show ?thesis using a(1,2) by (simp add: file_kept_def)
qed

lemma apply_each_file_kept:
  "mem_inv s \<Longrightarrow> apply_each s ms = (Ok u, s') \<Longrightarrow> off_limits (CBatch ms) q \<Longrightarrow> file_kept q s s'"
proof (induction ms arbitrary: s)
  case (Cons m ms)
  then obtain v s1 where s1: "apply_one s m = (Ok v, s1)" "apply_each s1 ms = (Ok u, s')"
    by (auto split: prod.splits sum.splits)
  have "file_kept q s s1" using Cons.prems by (intro apply_one_file_kept[OF _ s1(1)]) (auto simp: off_limits_def)
  moreover from this have "file_kept q s1 s'"
    using Cons.IH[OF _ s1(2)] Cons.prems(3) by (auto simp: file_kept_def off_limits_def)
  ultimately show ?case by (simp add: file_kept_def)
qed (simp add: file_kept_refl)

lemma batch_file_kept: "mem_inv s \<Longrightarrow> off_limits (CBatch ms) q \<Longrightarrow> file_kept q s (snd (mem_apply_batch s ms))"
  using apply_each_file_kept[of s ms _ _ q] file_kept_refl[of s q]
  by (auto simp: mem_apply_batch_each split: prod.splits sum.splits)

lemma call_file_kept:
  assumes inv: "mem_inv s" and off: "off_limits k q"
  shows "file_kept q s (snd (vfs_call (memory_fs a b) s k))"
proof (cases k)
  case (CWrite p d)
  then have "norm_parts p \<noteq> q" using off by (auto simp: off_limits_def)
  then show ?thesis using CWrite inv
    by (auto simp: mem_write_cases file_kept_def mem_inv_insert_file fs_simps put_file)
next
  case (CMkdir p)
  then have "norm_parts p \<noteq> q" using off by (auto simp: off_limits_def)
  then show ?thesis using CMkdir inv tree_root_none[OF inv, of p]
    by (auto simp: mem_mkdir_cases file_kept_def map_inv_put fs_simps put_file simp del: tree_None
        split: option.splits node.splits)
next
  case (CRemove p)
  then show ?thesis using inv off
    by (auto simp: mem_remove_cases file_kept_def map_inv_remove_subtree fs_simps off_limits_def remove_file)
next
  case (CWriteIf p d c)
  then show ?thesis using batch_file_kept[OF inv, of "[MWrite p d c]" q] off
    by (simp add: write_if_batch off_limits_def)
next
  case (CRename f t)
  then show ?thesis using batch_file_kept[OF inv, of "[MRename f t Unconditional]" q] off
    by (simp add: mem_rename_def off_limits_def)
qed (use batch_file_kept[OF inv] off in simp)

text \<open>The in-memory filesystem has every atomic call, so no fallback ever runs on it.\<close>

lemma first_file_supported: "first_file_ancestor m ks = Err e \<Longrightarrow> \<not> is_unsupported e"
  by (induction m ks rule: first_file_ancestor.induct) (auto split: option.splits entry.splits)

lemma precondition_supported: "check_precondition m p c = Err e \<Longrightarrow> \<not> is_unsupported e"
  by (auto simp: check_precondition_def split: precondition.splits option.splits entry.splits if_splits)

lemma apply_one_supported: "apply_one s m = (Err e, s') \<Longrightarrow> \<not> is_unsupported e"
  by (cases m)
    (auto simp: mem_write_if_def apply_rename_def Let_def reject_file_ancestor_def
      split: if_splits option.splits entry.splits sum.splits prod.splits
      dest: first_file_supported precondition_supported)

lemma apply_each_supported: "apply_each s ms = (Err e, s') \<Longrightarrow> \<not> is_unsupported e"
  by (induction ms arbitrary: s) (auto split: prod.splits sum.splits dest: apply_one_supported)

lemma batch_supported: "mem_apply_batch s ms = (Err e, s') \<Longrightarrow> \<not> is_unsupported e"
  by (auto simp: mem_apply_batch_def split: list.splits prod.splits sum.splits
      dest: apply_one_supported apply_each_supported)

lemma memory_never_unsupported: "never_unsupported (memory_fs a b)"
  unfolding never_unsupported_def
proof (intro allI impI)
  fix s k e s' assume r: "vfs_call (memory_fs a b) s k = (Err e, s')"
  show "\<not> is_unsupported e"
  proof (cases k)
    case (CWriteIf p d c)
    then show ?thesis using r batch_supported[of s "[MWrite p d c]"] by (simp add: write_if_batch)
  next
    case (CRename f t)
    then show ?thesis using r batch_supported by (simp add: mem_rename_def)
  qed (use r in \<open>auto simp: mem_write_def mem_mkdir_def mem_remove_def Let_def dest: batch_supported
      split: if_splits option.splits entry.splits\<close>)
qed

lemma fsteps_file_kept:
  assumes "fsteps P w w'" "sf_ops w = memory_fs a b" "mem_inv (sf_state w)"
    and P: "\<And>k. P k \<Longrightarrow> off_limits k q"
    and others: "\<And>n s. mem_inv s \<Longrightarrow> file_kept q s (sf_others w n s)"
  shows "file_kept q (sf_state w) (sf_state w')"
  using assms(1)
proof (induction rule: fsteps.induct)
  case fs_start
  then show ?case using assms(3) by (rule file_kept_refl)
next
  case (fs_turn v)
  have "sf_others v = sf_others w" using fsteps_ops[OF fs_turn.hyps] by simp
  then have "file_kept q (sf_state v) (sf_state (sf_turn v))"
    using others fs_turn.IH by (simp add: sf_turn_def file_kept_def)
  then show ?case using fs_turn.IH by (simp add: file_kept_def)
next
  case (fs_call v k)
  have "sf_ops v = memory_fs a b" using fsteps_ops[OF fs_call.hyps(1)] assms(2) by simp
  then show ?case using call_file_kept[of "sf_state v" k q a b] P[OF fs_call.hyps(2)] fs_call.IH
    by (simp add: file_kept_def)
qed


text \<open>A cell over the in-memory filesystem, used by the witnesses.\<close>

definition sb_codec :: "snapshot_items \<Rightarrow> string + snapshot_items" where
  "sb_codec items = Ok items"

definition sb_token :: capability_token where
  "sb_token = empty_token\<lparr>paths_write := [''/w/**''], paths_read := [''/w/**'']\<rparr>"

definition sb_cell :: "(mem_state, snapshot_items, unit journal_entry list, unit, int) agent_cell" where
  "sb_cell =
     \<lparr>ce_vfs = \<lparr>sf_ops = memory_fs sb_codec sb_codec, sf_state = snd (mem_write mem_new ''/e'' ''k''),
               sf_others = (\<lambda>_. id), sf_clock = 0\<rparr>,
      ce_capability = sb_token, ce_budget = (budget_new 0 0 0 0)\<lparr>max_vfs_bytes := 9\<rparr>,
      ce_storage = in_memory_journal (\<lambda>_. Ok []), ce_journal = [], ce_agent_id = ''a''\<rparr>"

definition sb_ops :: "cell_op list" where
  "sb_ops = [OpWriteFile ''/w/b'' ''h'', PxRemove ''/w/../e'', PxAppend ''/w/b'' ''!'']"

lemma sb_run: "map_option (\<lambda>c. (mem_read (sf_state (ce_vfs c)) ''/w/b'', length (ce_journal c))) (run_ops sb_ops sb_cell) = Some (Ok ''h!'', 3)"
  by code_simp


text \<open>The check of a path sees its absolute or its relative normal form.\<close>

lemma relative_normal:
  assumes g: "good_segs ps"
  shows "norm_parts (join_with slash ps) = ps \<and> \<not> starts_with (join_with slash ps) ''/''"
proof (cases ps)
  case Nil
  then show ?thesis by (simp add: norm_parts_def norm_seg_def starts_with_def)
next
  case (Cons s ss)
  have "split_on slash (join_with slash ps) = ps"
    using g Cons by (intro split_join) (auto simp: good_segs_def good_seg_def)
  then have "norm_parts (join_with slash ps) = ps" using foldl_norm_seg_id[OF g, of "[]"] by (simp add: norm_parts_def)
  moreover obtain x xs where "s = x # xs" "x \<noteq> slash" using g Cons by (cases s) (auto simp: good_seg_def)
  then have "\<not> starts_with (join_with slash ps) ''/''" using Cons by (cases ss) (auto simp: starts_with_def)
  ultimately show ?thesis by simp
qed

lemma writable_spellings:
  assumes "writable t p"
  shows "writable t (abs_path (norm_parts p)) \<or> writable t (join_with slash (norm_parts p))"
proof -
  have g: "good_segs (norm_parts p)" by (rule norm_parts_good)
  show ?thesis
  proof (cases "starts_with p ''/''")
    case True
    have "normalize_path p = abs_path (norm_parts p)" using True by (simp add: normalize_path_def abs_path_def)
    moreover have "normalize_path (abs_path (norm_parts p)) = abs_path (norm_parts p)"
      using g by (simp add: normalize_path_absolute)
    ultimately show ?thesis using assms by (simp add: writable_def check_path_write_def)
  next
    case False
    have n: "normalize_path p = join_with slash (norm_parts p)" using False by (simp add: normalize_path_def)
    have "norm_parts (join_with slash (norm_parts p)) = norm_parts p" "\<not> starts_with (join_with slash (norm_parts p)) ''/''"
      using relative_normal[OF g] by simp_all
    then have "normalize_path (join_with slash (norm_parts p)) = join_with slash (norm_parts p)"
      using g by (simp add: normalize_path_def)
    then show ?thesis using assms n by (simp add: writable_def check_path_write_def)
  qed
qed

definition locked_out :: "capability_token \<Rightarrow> string \<Rightarrow> bool" where
  "locked_out t q \<longleftrightarrow> list_all (\<lambda>ps. \<not> is_ok (check_path_write t (abs_path ps)) \<and>
     \<not> is_ok (check_path_write t (join_with slash ps))) (prefixes (norm_parts q))"

lemma locked_out_calls:
  assumes "locked_out t q" "\<forall>p \<in> set (call_paths k). writable t p"
  shows "off_limits k (norm_parts q)"
  unfolding off_limits_def
proof (intro ballI notI)
  fix p assume p: "p \<in> set (call_paths k)" "prefix (norm_parts p) (norm_parts q)"
  then have "norm_parts p \<in> set (prefixes (norm_parts q))" by simp
  then have "\<not> writable t (abs_path (norm_parts p))" "\<not> writable t (join_with slash (norm_parts p))"
    using assms(1) by (auto simp: locked_out_def list_all_iff writable_def)
  then show False using writable_spellings[of t p] assms(2) p(1) by blast
qed

text \<open>C35: A file the capability does not reach is never touched: on the in-memory filesystem, if neither
  the path nor any directory above it is writable under the capability (in its absolute or relative
  spelling), then no sequence of operations of the cell changes, creates or removes the file there,
  however the operations spell their paths, as long as the other holders of the filesystem leave it alone.\<close>

theorem cell_keeps_unreachable_files:
  assumes "run_ops ops c = Some c'" "sf_ops (ce_vfs c) = memory_fs a b" "mem_inv (sf_state (ce_vfs c))"
    and "locked_out (ce_capability c) q"
    and "\<And>n s. mem_inv s \<Longrightarrow> mem_inv (sf_others (ce_vfs c) n s) \<and>
      content (memory_fs a b) (sf_others (ce_vfs c) n s) q = content (memory_fs a b) s q"
  shows "content (memory_fs a b) (sf_state (ce_vfs c')) q = content (memory_fs a b) (sf_state (ce_vfs c)) q"
proof -
  have "fsteps (admitted (cell_ops c) (ce_capability c)) (ce_vfs c) (ce_vfs c')"
    using confinement.run_ops_R[OF assms(1)] by (simp add: confined_def)
  then have "file_kept (norm_parts q) (sf_state (ce_vfs c)) (sf_state (ce_vfs c'))"
  proof (rule fsteps_file_kept[OF _ assms(2,3)])
    fix k assume "admitted (cell_ops c) (ce_capability c) k"
    then show "off_limits k (norm_parts q)"
      using locked_out_calls[OF assms(4)] by (simp add: admitted_def assms(2) memory_never_unsupported)
  next
    fix n s assume "mem_inv s"
    then show "file_kept (norm_parts q) s (sf_others (ce_vfs c) n s)"
      using assms(5) by (simp add: file_kept_def content_tree)
  qed
  then show ?thesis by (simp add: file_kept_def content_tree)
qed

theorem cell_keeps_unreachable_files_witness:
  "\<exists>c'. run_ops sb_ops sb_cell = Some c' \<and>
     content (memory_fs sb_codec sb_codec) (sf_state (ce_vfs c')) ''/e'' = Some ''k''"
proof -
  obtain c' where c': "run_ops sb_ops sb_cell = Some c'" using sb_run by auto
  have ops: "sf_ops (ce_vfs sb_cell) = memory_fs sb_codec sb_codec" "\<And>n. sf_others (ce_vfs sb_cell) n = id"
    by (simp_all add: sb_cell_def)
  have inv: "mem_inv (sf_state (ce_vfs sb_cell))"
    unfolding sb_cell_def using mem.write_inv[of _ sb_codec sb_codec] map_inv_new by simp
  have out: "locked_out (ce_capability sb_cell) ''/e''" by code_simp
  have key: "content (memory_fs sb_codec sb_codec) (sf_state (ce_vfs sb_cell)) ''/e'' = Some ''k''" by code_simp
  show ?thesis using cell_keeps_unreachable_files[OF c' ops(1) inv out] c' key by (simp add: ops(2))
qed



end
