(* ===== verification/Agent_Loop.thy ===== *)
theory Agent_Loop
  imports Runtime_Types Replay Hooks Std_Text
begin

text \<open>
  The agent loop (\<^verbatim>\<open>simulacra-runtime/src/agent_loop/\<close>: \<^verbatim>\<open>types.rs\<close>, \<^verbatim>\<open>mod.rs\<close>, \<^verbatim>\<open>construct.rs\<close>,
  \<^verbatim>\<open>journal.rs\<close>, \<^verbatim>\<open>turn/\<close>, \<^verbatim>\<open>tool_runtime.rs\<close>, \<^verbatim>\<open>run.rs\<close>).  What the loop shares with other tasks is its
  hub: the journal, the mirrored budget, the policy-kill signal, the cancellation flag and the steering
  queue, and the outside world \<open>'w\<close>.  The environment answers for the provider, the tools, the hooks and
  the compaction strategy, and \<open>ev_others\<close> says what other tasks do before each access, so that theorems
  hold under every interleaving of accesses.  \<open>lp_deeds\<close> lists the effects of the loop in the order they
  happen (entries journaled, events emitted, requests, tool runs, approvals heard); no branch reads it.
  Spans, meters, log lines, durations and the write-only \<open>TurnState\<close> are left out, and so are poisoned
  locks.
\<close>

section \<open>Shared state and environment\<close>

record ('w, 'j, 'd) hub =
  hb_world :: 'w
  hb_journal :: 'j
  hb_mirror :: "'d resource_budget"
  hb_turn :: u64
  hb_kill :: "(string \<times> string) option"
  hb_cancelled :: bool
  hb_inputs :: "string list"

record agent_loop_config =
  cfg_agent_id :: agent_id
  cfg_system_prompt :: string
  cfg_model :: string
  cfg_max_turns :: u32
  cfg_capability :: capability_token
  cfg_context_token_limit :: "u64 option"

record 'v tool_output =
  to_content :: string
  to_is_error :: bool
  to_provider_content :: "'v provider_content_block list"

text \<open>How the task of a tool ended (its panic message or its result) and whether the wait for it was
  interrupted by the cancellation token.\<close>

record 'v tool_run =
  tr_joined :: "string + (tool_error + 'v tool_output)"
  tr_interrupted :: bool

datatype stream_event =
    TextDelta string
  | ToolCallDelta u64 "string option" "string option" string
  | ThinkingStart
  | ThinkingDelta string
  | ThinkingEnd

record ('v, 'd) chat_reply =
  cr_result :: "provider_error + 'v provider_response"
  cr_interrupted :: bool
  cr_budget :: "'d resource_budget"
  cr_stream :: "stream_event list"

record approval_response =
  ap_tool_call_id :: string
  ap_approved :: bool
  ap_reason :: "string option"

text \<open>What the approval channel delivers while one call waits: responses, then the last one, the end of the
  channel, or (with a token attached) the cancellation.\<close>

datatype hearing = Hear approval_response hearing | HearClosed | HearCancelled

text \<open>The external JSON values.\<close>

record 'v json_ops =
  jv_get :: "'v \<Rightarrow> string \<Rightarrow> 'v option"
  jv_as_str :: "'v \<Rightarrow> string option"
  jv_text :: "'v \<Rightarrow> string"
  jv_null :: 'v
  jv_of_nat :: "nat \<Rightarrow> 'v"
  jv_of_str :: "string \<Rightarrow> 'v"
  jv_object :: "(string \<times> 'v) list \<Rightarrow> 'v"

record ('w, 'j, 'v, 'd) loop_env =
  ev_others :: "nat \<Rightarrow> ('w, 'j, 'd) hub \<Rightarrow> ('w, 'j, 'd) hub"
  ev_storage :: "('j, 'v, 'd) journal_storage"
  ev_now :: "('w, 'j, 'd) hub \<Rightarrow> u64"
  ev_chat :: "'v message list \<Rightarrow> 'd resource_budget \<Rightarrow> ('w, 'j, 'd) hub \<Rightarrow> ('v, 'd) chat_reply \<times> ('w, 'j, 'd) hub"
  ev_streaming :: bool
  ev_parallel :: "string \<Rightarrow> bool option"
  ev_run_tools :: "'v tool_call_message list \<Rightarrow> capability_token \<Rightarrow> ('w, 'j, 'd) hub \<Rightarrow>
     (nat \<Rightarrow> 'v tool_run) \<times> ('w, 'j, 'd) hub"
  ev_compact :: "'v message list \<Rightarrow> u64 \<Rightarrow> 'v message list"
  ev_pipeline :: "('w, 'j, 'd) hub pipeline option"
  ev_before_ctx :: "string \<Rightarrow> nat \<Rightarrow> string"
  ev_after_ctx :: "'v provider_response \<Rightarrow> string"
  ev_has_token :: bool
  ev_has_queue :: bool
  ev_has_mirror :: bool
  ev_require_approval :: "bool option"
  ev_hear :: "'v tool_call_message \<Rightarrow> ('w, 'j, 'd) hub \<Rightarrow> hearing \<times> ('w, 'j, 'd) hub"
  ev_json :: "'v json_ops"
  ev_debug :: "'v journal_entry_kind \<Rightarrow> string"
  ev_checkpoint :: "bytes \<Rightarrow> ('v, 'd) checkpoint_data option"
  ev_restore_vfs :: "(bytes \<Rightarrow> ('w, 'j, 'd) hub \<Rightarrow> ('w, 'j, 'd) hub) option"
  ev_dec :: "'d decimal_ops"

datatype 'v loop_event =
    EvToken string
  | EvThinkStart
  | EvThinkDelta string
  | EvThinkEnd nat
  | EvToolCallDelta u64 "string option" "string option" string
  | EvToolStart string string 'v
  | EvApprovalRequired string string 'v
  | EvToolOutput string string
  | EvToolFinish string string bool
  | EvTurnComplete

datatype 'v deed =
    Journaled "'v journal_entry_kind"
  | Emitted "'v loop_event"
  | Asked "'v message list"
  | Ran "'v tool_call_message list" capability_token
  | Approved string

record ('w, 'j, 'v, 'd) agent_loop =
  lp_config :: agent_loop_config
  lp_budget :: "'d resource_budget"
  lp_replay :: "'v replay_iterator option"
  lp_failures :: u32
  lp_frontier :: "nat option"
  lp_messages :: "'v message list"
  lp_hub :: "('w, 'j, 'd) hub"
  lp_clock :: nat
  lp_deeds :: "'v deed list"

abbreviation did :: "'v deed \<Rightarrow> ('w, 'j, 'v, 'd) agent_loop \<Rightarrow> ('w, 'j, 'v, 'd) agent_loop" where
  "did x l \<equiv> l\<lparr>lp_deeds := lp_deeds l @ [x]\<rparr>"

text \<open>One access to the hub: the others move first.\<close>

definition visit ::
  "('w, 'j, 'v, 'd) loop_env \<Rightarrow> (('w, 'j, 'd) hub \<Rightarrow> 'r \<times> ('w, 'j, 'd) hub) \<Rightarrow> ('w, 'j, 'v, 'd) agent_loop \<Rightarrow>
   'r \<times> ('w, 'j, 'v, 'd) agent_loop" where
  "visit E f l =
     (case f (ev_others E (lp_clock l) (lp_hub l)) of (r, h) \<Rightarrow> (r, l\<lparr>lp_hub := h, lp_clock := Suc (lp_clock l)\<rparr>))"

definition agent_loop_new ::
  "('w, 'j, 'v, 'd) loop_env \<Rightarrow> agent_loop_config \<Rightarrow> 'd resource_budget \<Rightarrow> 'v journal_entry list option \<Rightarrow>
   ('w, 'j, 'd) hub \<Rightarrow> ('w, 'j, 'v, 'd) agent_loop" where
  "agent_loop_new E config budget replay_journal h =
     \<lparr>lp_config = config, lp_budget = budget, lp_replay = map_option replay_new replay_journal, lp_failures = 0,
      lp_frontier = (case js_read_all (ev_storage E) (hb_journal h) (cfg_agent_id config) of
                       Inl _ \<Rightarrow> None | Inr entries \<Rightarrow> Some (length entries)),
      lp_messages = [], lp_hub = h, lp_clock = 0, lp_deeds = []\<rparr>"

section \<open>The mirrored budget\<close>

definition sync_turn_mirror :: "('w, 'j, 'v, 'd) loop_env \<Rightarrow> ('w, 'j, 'v, 'd) agent_loop \<Rightarrow> ('w, 'j, 'v, 'd) agent_loop" where
  "sync_turn_mirror E l =
     (if ev_has_mirror E then snd (visit E (\<lambda>h. ((), h\<lparr>hb_turn := ucast (used_turns (lp_budget l))\<rparr>)) l) else l)"

definition refresh_budget_from_mirror ::
  "('w, 'j, 'v, 'd) loop_env \<Rightarrow> ('w, 'j, 'v, 'd) agent_loop \<Rightarrow> ('w, 'j, 'v, 'd) agent_loop" where
  "refresh_budget_from_mirror E l =
     (if ev_has_mirror E
      then (case visit E (\<lambda>h. (hb_mirror h, h)) l of (b, l1) \<Rightarrow> sync_turn_mirror E (l1\<lparr>lp_budget := b\<rparr>))
      else l)"

text \<open>What one operation used since \<open>before\<close>, added to the shared budget.\<close>

definition merge_shared ::
  "'d::linorder decimal_ops \<Rightarrow> 'd resource_budget \<Rightarrow> 'd resource_budget \<Rightarrow> 'd resource_budget \<Rightarrow> 'd resource_budget" where
  "merge_shared D before mine shared =
     shared\<lparr>used_tokens := sat_add (used_tokens shared) (sat_sub (used_tokens mine) (used_tokens before)),
       used_turns := sat_add (used_turns shared) (sat_sub (used_turns mine) (used_turns before)),
       used_cost := (if used_cost mine > used_cost before
                     then dec_add D (used_cost shared) (dec_sub D (used_cost mine) (used_cost before))
                     else used_cost shared),
       used_sub_agents := sat_add (used_sub_agents shared) (sat_sub (used_sub_agents mine) (used_sub_agents before)),
       used_vfs_bytes := sat_add (used_vfs_bytes shared) (sat_sub (used_vfs_bytes mine) (used_vfs_bytes before)),
       used_fuel := sat_add (used_fuel shared) (sat_sub (used_fuel mine) (used_fuel before))\<rparr>"

definition merge_budget_into_mirror ::
  "('w, 'j, 'v, 'd::linorder) loop_env \<Rightarrow> 'd resource_budget \<Rightarrow> ('w, 'j, 'v, 'd) agent_loop \<Rightarrow>
   ('w, 'j, 'v, 'd) agent_loop" where
  "merge_budget_into_mirror E before l =
     (if ev_has_mirror E
      then (case visit E (\<lambda>h. let s = merge_shared (ev_dec E) before (lp_budget l) (hb_mirror h)
                              in (s, h\<lparr>hb_mirror := s\<rparr>)) l of
              (s, l1) \<Rightarrow> sync_turn_mirror E (l1\<lparr>lp_budget := s\<rparr>))
      else l)"

definition replace_budget_mirror ::
  "('w, 'j, 'v, 'd) loop_env \<Rightarrow> ('w, 'j, 'v, 'd) agent_loop \<Rightarrow> ('w, 'j, 'v, 'd) agent_loop" where
  "replace_budget_mirror E l =
     (if ev_has_mirror E
      then sync_turn_mirror E (snd (visit E (\<lambda>h. ((), h\<lparr>hb_mirror := lp_budget l\<rparr>)) l))
      else l)"

definition drain_journal_write_failures :: "('w, 'j, 'v, 'd) agent_loop \<Rightarrow> u32 \<times> ('w, 'j, 'v, 'd) agent_loop" where
  "drain_journal_write_failures l = (lp_failures l, l\<lparr>lp_failures := 0\<rparr>)"

section \<open>The journal and the replay\<close>

definition append_kind ::
  "('w, 'j, 'v, 'd) loop_env \<Rightarrow> 'v journal_entry_kind \<Rightarrow> ('w, 'j, 'v, 'd) agent_loop \<Rightarrow>
   (runtime_error + unit) \<times> ('w, 'j, 'v, 'd) agent_loop" where
  "append_kind E kind l =
     (case visit E (\<lambda>h. case js_append (ev_storage E) (hb_journal h)
                              \<lparr>je_schema_version = JOURNAL_SCHEMA_VERSION, je_agent_id = cfg_agent_id (lp_config l),
                               je_timestamp_ms = ev_now E h, je_entry = kind\<rparr> of
                          (r, j) \<Rightarrow> (r, h\<lparr>hb_journal := j\<rparr>)) l of
        (Inl e, l1) \<Rightarrow> (Err (JournalAppendFailed (entry_kind_name kind) e), l1\<lparr>lp_failures := lp_failures l1 + 1\<rparr>)
      | (Inr _, l1) \<Rightarrow> (Ok (), did (Journaled kind) l1))"

definition has_replay_entry :: "('w, 'j, 'v, 'd) agent_loop \<Rightarrow> bool" where
  "has_replay_entry l = (case lp_replay l of None \<Rightarrow> False | Some it \<Rightarrow> \<not> at_frontier it)"

definition storage_err :: "string \<Rightarrow> runtime_error" where
  "storage_err m = JournalErr (Storage m)"

definition take_recorded ::
  "string \<Rightarrow> ('w, 'j, 'v, 'd) agent_loop \<Rightarrow> (runtime_error + 'v journal_entry_kind) \<times> ('w, 'j, 'v, 'd) agent_loop" where
  "take_recorded missing l =
     (case lp_replay l of
        None \<Rightarrow> (Err (storage_err missing), l)
      | Some it \<Rightarrow>
          (case next_recorded it of
             (None, it') \<Rightarrow> (Err (storage_err missing), l\<lparr>lp_replay := Some it'\<rparr>)
           | (Some kind, it') \<Rightarrow> (Ok kind, l\<lparr>lp_replay := Some it'\<rparr>)))"

definition consume_replay_entry ::
  "('w, 'j, 'v, 'd) loop_env \<Rightarrow> 'v journal_entry_kind \<Rightarrow> ('w, 'j, 'v, 'd) agent_loop \<Rightarrow>
   (runtime_error + unit) \<times> ('w, 'j, 'v, 'd) agent_loop" where
  "consume_replay_entry E expected l =
     (if has_replay_entry l
      then seq (take_recorded ''replay frontier reached while consuming expected entry'')
             (\<lambda>actual l1.
                (if replay_entries_match expected actual then Ok ()
                 else Err (storage_err (''replay divergence: expected '' @
                        describe_replay_entry (jv_text (ev_json E)) expected @ '' but found '' @
                        describe_replay_entry (jv_text (ev_json E)) actual)), l1)) l
      else (Ok (), l))"

definition take_replay_entry ::
  "('w, 'j, 'v, 'd) agent_loop \<Rightarrow> (runtime_error + 'v journal_entry_kind) \<times> ('w, 'j, 'v, 'd) agent_loop" where
  "take_replay_entry = take_recorded ''take_replay_entry called but no replay entry available''"

text \<open>The scan for the result of a call: its offset, the entry that stops the scan, or the frontier.\<close>

datatype 'v scanned = FoundAt nat | StoppedBy "'v journal_entry_kind" | ReachedFrontier

fun skips_entry :: "'v journal_entry_kind \<Rightarrow> bool" where
  "skips_entry (ToolResult _ _ _ _ _) = True"
| "skips_entry (ShellCommand _ _) = True"
| "skips_entry (CodeExecution _) = True"
| "skips_entry (SubAgentSpawned _ _ _ _ _ _) = True"
| "skips_entry (SubAgentCompleted _ _) = True"
| "skips_entry (FileWrite _ _) = True"
| "skips_entry (FileDelete _) = True"
| "skips_entry (FileMove _ _) = True"
| "skips_entry (HttpRequest _ _ _) = True"
| "skips_entry (Checkpoint _) = True"
| "skips_entry (HookDenial _ _ _) = True"
| "skips_entry (HookKill _ _ _) = True"
| "skips_entry _ = False"

definition is_result_of :: "string \<Rightarrow> string \<Rightarrow> 'v journal_entry_kind \<Rightarrow> bool" where
  "is_result_of i n kind = (case kind of ToolResult j m _ _ _ \<Rightarrow> j = Some i \<and> m = n | _ \<Rightarrow> False)"

fun scan_tool_result :: "string \<Rightarrow> string \<Rightarrow> nat \<Rightarrow> 'v journal_entry list \<Rightarrow> 'v scanned" where
  "scan_tool_result i n offset [] = ReachedFrontier"
| "scan_tool_result i n offset (e # es) =
     (if is_result_of i n (je_entry e) then FoundAt offset
      else if skips_entry (je_entry e) then scan_tool_result i n (Suc offset) es
      else StoppedBy (je_entry e))"

text \<open>The entries up to the selected one are consumed; the value is that of the last.\<close>

fun consume_replay_tool_result_at ::
  "('w, 'j, 'v, 'd) loop_env \<Rightarrow> nat \<Rightarrow> ('w, 'j, 'v, 'd) agent_loop \<Rightarrow>
   (runtime_error + (string \<times> bool \<times> 'v provider_content_block list)) \<times> ('w, 'j, 'v, 'd) agent_loop" where
  "consume_replay_tool_result_at E 0 l =
     seq (take_recorded ''replay frontier reached while consuming tool result'')
       (\<lambda>kind l1. (map_err JournalErr (replay_tool_result (ev_debug E) kind), l1)) l"
| "consume_replay_tool_result_at E (Suc offset) l =
     seq (take_recorded ''replay frontier reached while consuming tool result'')
       (\<lambda>_. consume_replay_tool_result_at E offset) l"

definition take_replay_tool_result ::
  "('w, 'j, 'v, 'd) loop_env \<Rightarrow> string \<Rightarrow> string \<Rightarrow> ('w, 'j, 'v, 'd) agent_loop \<Rightarrow>
   (runtime_error + (string \<times> bool \<times> 'v provider_content_block list) option) \<times> ('w, 'j, 'v, 'd) agent_loop" where
  "take_replay_tool_result E tool_call_id tool_name l =
     (case lp_replay l of
        None \<Rightarrow> (Ok None, l)
      | Some it \<Rightarrow>
          if at_frontier it then (Ok None, l)
          else
            (case scan_tool_result tool_call_id tool_name 0 (drop (replay_position it) (replay_entries it)) of
               FoundAt offset \<Rightarrow> seq (consume_replay_tool_result_at E offset) (\<lambda>r l1. (Ok (Some r), l1)) l
             | StoppedBy other \<Rightarrow>
                 (Err (storage_err (''expected ToolResult for '' @ tool_name @ '' ('' @ tool_call_id @
                    '') during replay, found '' @ describe_replay_entry (jv_text (ev_json E)) other)), l)
             | ReachedFrontier \<Rightarrow>
                 (Err (storage_err (''expected ToolResult for '' @ tool_name @ '' ('' @ tool_call_id @
                    '') during replay, reached replay frontier'')), l)))"

end
