(* ===== verification/Agent_Turn.thy ===== *)
theory Agent_Turn
  imports Agent_Loop
begin

text \<open>
  One turn of the agent loop (\<^verbatim>\<open>simulacra-runtime/src/agent_loop/turn/\<close> and \<^verbatim>\<open>tool_runtime.rs\<close>) and the run
  of turns (\<^verbatim>\<open>run.rs\<close>).
\<close>

section \<open>Between the steps of a turn\<close>

definition kill_err :: "string \<times> string \<Rightarrow> runtime_error" where
  "kill_err d = HookKilled (fst d) (snd d)"

fun spawn_kill :: "'v journal_entry list \<Rightarrow> (string \<times> string) option" where
  "spawn_kill [] = None"
| "spawn_kill (e # es) =
     (case je_entry e of
        HookKill hook operation reason \<Rightarrow> if operation = ''spawn'' then Some (hook, reason) else spawn_kill es
      | _ \<Rightarrow> spawn_kill es)"

text \<open>The live signal, read before and after the journal.\<close>

definition kill_signal ::
  "('w, 'j, 'v, 'd) loop_env \<Rightarrow> ('w, 'j, 'v, 'd) agent_loop \<Rightarrow> (runtime_error + unit) \<times> ('w, 'j, 'v, 'd) agent_loop" where
  "kill_signal E l =
     (case visit E (\<lambda>h. (hb_kill h, h)) l of
        (Some d, l1) \<Rightarrow> (Err (kill_err d), l1)
      | (None, l1) \<Rightarrow> (Ok (), l1))"

definition check_pending_spawn_hook_kill ::
  "('w, 'j, 'v, 'd) loop_env \<Rightarrow> ('w, 'j, 'v, 'd) agent_loop \<Rightarrow> (runtime_error + unit) \<times> ('w, 'j, 'v, 'd) agent_loop" where
  "check_pending_spawn_hook_kill E =
     seq (kill_signal E)
       (\<lambda>_ l. case lp_frontier l of
          None \<Rightarrow>
            (case visit E (\<lambda>h. (js_read_all (ev_storage E) (hb_journal h) (cfg_agent_id (lp_config l)), h)) l of
               (Inl e, l1) \<Rightarrow> (Err (JournalErr e), l1)
             | (Inr entries, l1) \<Rightarrow> (Ok (), l1\<lparr>lp_frontier := Some (length entries)\<rparr>))
        | Some frontier \<Rightarrow>
            (case visit E (\<lambda>h. (js_read_from (ev_storage E) (hb_journal h) (cfg_agent_id (lp_config l)) frontier, h)) l of
               (Inl e, l1) \<Rightarrow> seq (kill_signal E) (\<lambda>_ l2. (Err (JournalErr e), l2)) l1
             | (Inr entries, l1) \<Rightarrow>
                 (case spawn_kill entries of
                    Some d \<Rightarrow> (Err (kill_err d), l1\<lparr>lp_frontier := Some (frontier + length entries)\<rparr>)
                  | None \<Rightarrow> kill_signal E (l1\<lparr>lp_frontier := Some (frontier + length entries)\<rparr>))))"

definition is_cancelled ::
  "('w, 'j, 'v, 'd) loop_env \<Rightarrow> ('w, 'j, 'v, 'd) agent_loop \<Rightarrow> bool \<times> ('w, 'j, 'v, 'd) agent_loop" where
  "is_cancelled E l = (if ev_has_token E then visit E (\<lambda>h. (hb_cancelled h, h)) l else (False, l))"

definition user_message :: "string \<Rightarrow> 'v message" where
  "user_message text = \<lparr>msg_role = User, msg_content = text, msg_tool_calls = [], msg_tool_call_id = None,
     msg_provider_content = []\<rparr>"

definition drain_input_queue :: "('w, 'j, 'v, 'd) loop_env \<Rightarrow> ('w, 'j, 'v, 'd) agent_loop \<Rightarrow> ('w, 'j, 'v, 'd) agent_loop" where
  "drain_input_queue E l =
     (if ev_has_queue E
      then (case visit E (\<lambda>h. (hb_inputs h, h\<lparr>hb_inputs := []\<rparr>)) l of
              (texts, l1) \<Rightarrow> l1\<lparr>lp_messages := lp_messages l1 @ map user_message texts\<rparr>)
      else l)"

section \<open>The context window\<close>

definition CONTEXT_TOKEN_LIMIT :: u64 where
  "CONTEXT_TOKEN_LIMIT = 128000"

definition model_context_window :: "string \<Rightarrow> u64 option" where
  "model_context_window model =
     (if ends_with model ''[1m]'' then Some 1000000
      else if starts_with model ''claude-sonnet-5'' then Some 1000000
      else if starts_with model ''claude-'' then Some 200000
      else None)"

definition default_context_limit :: "string \<Rightarrow> u64" where
  "default_context_limit model =
     unwrap_or (map_option (\<lambda>window. window div 5 * 4) (model_context_window model)) CONTEXT_TOKEN_LIMIT"

definition compaction_token_limit :: "u64 \<Rightarrow> u64 \<Rightarrow> u64 \<Rightarrow> u64" where
  "compaction_token_limit limit used context_limit =
     (let left = if limit = 0 then - 1 else sat_sub limit used in min left context_limit)"

section \<open>The provider\<close>

definition is_mcp_meta_tool :: "string \<Rightarrow> bool" where
  "is_mcp_meta_tool name \<longleftrightarrow> name = ''mcp_search'' \<or> name = ''mcp_call''"

definition char_count :: "string \<Rightarrow> nat" where
  "char_count s = length (filter (\<lambda>c. \<not> is_cont (of_char c)) s)"

record stream_sink =
  ss_thinking :: "nat option"
  ss_names_by_index :: "u64 \<rightharpoonup> string"
  ss_names_by_id :: "string \<rightharpoonup> string"

definition stream_sink_new :: stream_sink where
  "stream_sink_new = \<lparr>ss_thinking = None, ss_names_by_index = Map.empty, ss_names_by_id = Map.empty\<rparr>"

definition learn_name :: "u64 \<Rightarrow> string option \<Rightarrow> string option \<Rightarrow> stream_sink \<Rightarrow> stream_sink" where
  "learn_name index call_id name s =
     (case name of
        None \<Rightarrow> s
      | Some n \<Rightarrow> s\<lparr>ss_names_by_index := (ss_names_by_index s)(index \<mapsto> n),
                    ss_names_by_id := (case call_id of None \<Rightarrow> ss_names_by_id s | Some i \<Rightarrow> (ss_names_by_id s)(i \<mapsto> n))\<rparr>)"

definition streamed_name :: "u64 \<Rightarrow> string option \<Rightarrow> string option \<Rightarrow> stream_sink \<Rightarrow> string option" where
  "streamed_name index call_id name s =
     or_else (or_else name (Option.bind call_id (ss_names_by_id s))) (ss_names_by_index s index)"

definition redacted :: string where
  "redacted = ''[REDACTED]''"

fun stream_emit :: "stream_event \<Rightarrow> stream_sink \<Rightarrow> 'v loop_event \<times> stream_sink" where
  "stream_emit (TextDelta text) s = (EvToken text, s)"
| "stream_emit (ToolCallDelta index call_id name delta) s =
     (let s1 = learn_name index call_id name s;
          meta = (case streamed_name index call_id name s1 of None \<Rightarrow> False | Some n \<Rightarrow> is_mcp_meta_tool n)
      in (EvToolCallDelta index call_id name (if meta then redacted else delta), s1))"
| "stream_emit ThinkingStart s = (EvThinkStart, s\<lparr>ss_thinking := Some 0\<rparr>)"
| "stream_emit (ThinkingDelta text) s =
     (EvThinkDelta text, s\<lparr>ss_thinking := map_option (\<lambda>chars. chars + char_count text) (ss_thinking s)\<rparr>)"
| "stream_emit ThinkingEnd s = (EvThinkEnd (unwrap_or (ss_thinking s) 0 div 4), s\<lparr>ss_thinking := None\<rparr>)"

fun stream_all :: "stream_event list \<Rightarrow> stream_sink \<Rightarrow> 'v loop_event list" where
  "stream_all [] s = []"
| "stream_all (e # es) s = (case stream_emit e s of (x, s1) \<Rightarrow> x # stream_all es s1)"

definition merge_provider_budget_delta ::
  "'d::linorder decimal_ops \<Rightarrow> 'd resource_budget \<Rightarrow> 'd resource_budget \<Rightarrow> 'd resource_budget \<Rightarrow> 'd resource_budget" where
  "merge_provider_budget_delta D before provider mine =
     mine\<lparr>used_tokens := sat_add (used_tokens mine) (sat_sub (used_tokens provider) (used_tokens before)),
       used_turns := sat_add (used_turns mine) (sat_sub (used_turns provider) (used_turns before)),
       used_cost := (if used_cost provider > used_cost before
                     then dec_add D (used_cost mine) (dec_sub D (used_cost provider) (used_cost before))
                     else used_cost mine),
       used_vfs_bytes := sat_add (used_vfs_bytes mine) (sat_sub (used_vfs_bytes provider) (used_vfs_bytes before)),
       used_fuel := sat_add (used_fuel mine) (sat_sub (used_fuel provider) (used_fuel before))\<rparr>"

text \<open>The outcome: a response and whether it was streamed, or \<open>None\<close> when the call was cancelled.\<close>

type_synonym 'v provider_outcome = "('v provider_response \<times> bool) option"

definition call_provider ::
  "('w, 'j, 'v, 'd::linorder) loop_env \<Rightarrow> 'v message list \<Rightarrow> ('w, 'j, 'v, 'd) agent_loop \<Rightarrow>
   (runtime_error + 'v provider_outcome) \<times> ('w, 'j, 'v, 'd) agent_loop" where
  "call_provider E step l =
     (let before = lp_budget l
      in case visit E (ev_chat E step (before\<lparr>max_sub_agents := 0\<rparr>)) (did (Asked step) l) of
           (reply, l1) \<Rightarrow>
             (let l2 = l1\<lparr>lp_budget := merge_provider_budget_delta (ev_dec E) before (cr_budget reply) (lp_budget l1),
                          lp_deeds := lp_deeds l1 @
                            (if ev_streaming E then map Emitted (stream_all (cr_stream reply) stream_sink_new) else [])\<rparr>
              in if ev_streaming E
                 then if ev_has_token E \<and> cr_interrupted reply then (Ok None, l2)
                      else (case cr_result reply of
                              Inl e \<Rightarrow> (Err (ProviderErr e), l2)
                            | Inr response \<Rightarrow>
                                (case is_cancelled E l2 of
                                   (c, l3) \<Rightarrow> (Ok (if c then None else Some (response, True)), l3)))
                 else (map_err ProviderErr (map_sum id (\<lambda>response. Some (response, False)) (cr_result reply)), l2)))"

definition enforce_tool_calls_require_tool_use_finish :: "'v provider_response \<Rightarrow> 'v provider_response" where
  "enforce_tool_calls_require_tool_use_finish r =
     (if pr_finish_reason r = ToolUse \<or> msg_tool_calls (pr_message r) = [] then r
      else r\<lparr>pr_message := (pr_message r)\<lparr>msg_tool_calls := []\<rparr>\<rparr>)"

section \<open>Hooks around the model call\<close>

fun show_hook_error :: "hook_error \<Rightarrow> string" where
  "show_hook_error (Denied hook reason) = ''hook '' @ [CHR 0x27] @ hook @ [CHR 0x27] @ '' denied: '' @ reason"
| "show_hook_error (Killed hook reason) = ''hook '' @ [CHR 0x27] @ hook @ [CHR 0x27] @ '' killed agent: '' @ reason"
| "show_hook_error (Timeout hook ms) =
     ''hook '' @ [CHR 0x27] @ hook @ [CHR 0x27] @ '' timed out after '' @ show_word ms @ ''ms''"
| "show_hook_error (ExecutionError hook m) = ''hook '' @ [CHR 0x27] @ hook @ [CHR 0x27] @ '' execution error: '' @ m"

definition journal_then_fail ::
  "('w, 'j, 'v, 'd) loop_env \<Rightarrow> 'v journal_entry_kind \<Rightarrow> runtime_error \<Rightarrow> ('w, 'j, 'v, 'd) agent_loop \<Rightarrow>
   (runtime_error + unit) \<times> ('w, 'j, 'v, 'd) agent_loop" where
  "journal_then_fail E kind e = seq (append_kind E kind) (\<lambda>_ l. (Err e, l))"

definition before_llm ::
  "('w, 'j, 'v, 'd) loop_env \<Rightarrow> nat \<Rightarrow> ('w, 'j, 'v, 'd) agent_loop \<Rightarrow> (runtime_error + unit) \<times> ('w, 'j, 'v, 'd) agent_loop" where
  "before_llm E count l =
     (case ev_pipeline E of
        None \<Rightarrow> (Ok (), l)
      | Some p \<Rightarrow>
          (case visit E (run_before_attributed p OpLlm (ev_before_ctx E (cfg_model (lp_config l)) count)) l of
             (Inr (Continue _, _, _), l1) \<Rightarrow> (Ok (), l1)
           | (Inr (Deny reason, _, Some hook), l1) \<Rightarrow>
               journal_then_fail E (HookDenial hook ''llm'' reason) (HookDenied reason) l1
           | (Inr (Deny _, _, None), l1) \<Rightarrow> (Err (HookFailed ''LLM before-hook denied without hook attribution''), l1)
           | (Inr (Kill reason, _, Some hook), l1) \<Rightarrow>
               journal_then_fail E (HookKill hook ''llm'' reason) (HookKilled hook reason) l1
           | (Inr (Kill _, _, None), l1) \<Rightarrow> (Err (HookFailed ''LLM before-hook killed without hook attribution''), l1)
           | (Inl (Killed hook reason), l1) \<Rightarrow>
               journal_then_fail E (HookKill hook ''llm'' reason) (HookKilled hook reason) l1
           | (Inl e, l1) \<Rightarrow> (Err (HookFailed (show_hook_error e)), l1)))"

definition after_llm ::
  "('w, 'j, 'v, 'd) loop_env \<Rightarrow> 'v provider_response \<Rightarrow> ('w, 'j, 'v, 'd) agent_loop \<Rightarrow>
   (runtime_error + unit) \<times> ('w, 'j, 'v, 'd) agent_loop" where
  "after_llm E response l =
     (case ev_pipeline E of
        None \<Rightarrow> (Ok (), l)
      | Some p \<Rightarrow>
          (case visit E (run_after p OpLlm (ev_after_ctx E response)) l of
             (Inr _, l1) \<Rightarrow> (Ok (), l1)
           | (Inl (Killed hook reason), l1) \<Rightarrow>
               journal_then_fail E (HookDenial hook ''llm'' reason) (HookKilled hook reason) l1
           | (Inl e, l1) \<Rightarrow> (Err (HookFailed (show_hook_error e)), l1)))"

section \<open>Tool calls\<close>

definition safe_outer_tool_arguments :: "'v json_ops \<Rightarrow> string \<Rightarrow> 'v \<Rightarrow> 'v" where
  "safe_outer_tool_arguments J tool_name arguments =
     (let str_of = (\<lambda>key. Option.bind (jv_get J arguments key) (jv_as_str J))
      in if tool_name = ''mcp_search''
         then jv_object J [(''query_length'', jv_of_nat J (unwrap_or (map_option length (str_of ''query'')) 0))]
         else if tool_name = ''mcp_call''
         then jv_object J
                [(''server'', jv_of_str J (unwrap_or (str_of ''server'') [])),
                 (''tool'', jv_of_str J (unwrap_or (str_of ''tool'') [])),
                 (''argument_length'',
                  jv_of_nat J (length (jv_text J (unwrap_or (jv_get J arguments ''arguments'') (jv_null J)))))]
         else arguments)"

record 'v tool_execution_result =
  ter_content :: string
  ter_is_error :: bool
  ter_cancelled :: bool
  ter_provider_content :: "'v provider_content_block list"

definition execute_tool_live :: "tool_error + 'v tool_output \<Rightarrow> 'v tool_execution_result" where
  "execute_tool_live result =
     (case result of
        Inr out \<Rightarrow> \<lparr>ter_content = to_content out, ter_is_error = to_is_error out, ter_cancelled = False,
                    ter_provider_content = to_provider_content out\<rparr>
      | Inl e \<Rightarrow> \<lparr>ter_content = show_tool_error e, ter_is_error = True, ter_cancelled = False,
                  ter_provider_content = []\<rparr>)"

definition tool_cancelled :: "'v tool_execution_result" where
  "tool_cancelled = \<lparr>ter_content = ''cancelled by user'', ter_is_error = True, ter_cancelled = True,
     ter_provider_content = []\<rparr>"

definition join_tool :: "string + (tool_error + 'v tool_output) \<Rightarrow> 'v tool_execution_result" where
  "join_tool joined =
     (case joined of
        Inr result \<Rightarrow> execute_tool_live result
      | Inl err \<Rightarrow> \<lparr>ter_content = ''tool task failed: '' @ err, ter_is_error = True, ter_cancelled = False,
                    ter_provider_content = []\<rparr>)"

definition await_tool :: "bool \<Rightarrow> 'v tool_run \<Rightarrow> 'v tool_execution_result" where
  "await_tool has_token r = (if has_token \<and> tr_interrupted r then tool_cancelled else join_tool (tr_joined r))"

text \<open>The tasks of a batch run together and are awaited in the order of the calls.\<close>

definition execute_batch ::
  "('w, 'j, 'v, 'd) loop_env \<Rightarrow> 'v tool_call_message list \<Rightarrow> ('w, 'j, 'v, 'd) agent_loop \<Rightarrow>
   'v tool_execution_result list \<times> ('w, 'j, 'v, 'd) agent_loop" where
  "execute_batch E calls l =
     (let cap = cfg_capability (lp_config l)
      in case visit E (ev_run_tools E calls cap) (did (Ran calls cap) l) of
           (runs, l1) \<Rightarrow> (map (\<lambda>i. await_tool (ev_has_token E) (runs i)) [0..<length calls], l1))"

definition execute_tool ::
  "('w, 'j, 'v, 'd) loop_env \<Rightarrow> 'v tool_call_message \<Rightarrow> ('w, 'j, 'v, 'd) agent_loop \<Rightarrow>
   'v tool_execution_result \<times> ('w, 'j, 'v, 'd) agent_loop" where
  "execute_tool E tc l = (case execute_batch E [tc] l of (rs, l1) \<Rightarrow> (hd rs, l1))"

definition supports_parallel_batch :: "('w, 'j, 'v, 'd) loop_env \<Rightarrow> 'v tool_call_message list \<Rightarrow> bool" where
  "supports_parallel_batch E calls \<longleftrightarrow>
     length calls > 1 \<and> list_all (\<lambda>tc. ev_parallel E (tc_name tc) = Some True) calls"

definition REQUEST_INPUT_TOOL_NAME :: string where
  "REQUEST_INPUT_TOOL_NAME = ''request_input''"

definition requires_tool_approval :: "('w, 'j, 'v, 'd) loop_env \<Rightarrow> bool" where
  "requires_tool_approval E \<longleftrightarrow> ev_require_approval E = Some True"

datatype approval_decision = ApprovedCall | DeniedCall string

fun hear_approval ::
  "('w, 'j, 'v, 'd) loop_env \<Rightarrow> string \<Rightarrow> hearing \<Rightarrow> ('w, 'j, 'v, 'd) agent_loop \<Rightarrow>
   (runtime_error + approval_decision) \<times> ('w, 'j, 'v, 'd) agent_loop" where
  "hear_approval E call_id heard l =
     (case is_cancelled E l of
        (True, l1) \<Rightarrow> (Ok (DeniedCall ''cancelled by user''), l1)
      | (False, l1) \<Rightarrow>
          (case heard of
             HearCancelled \<Rightarrow> (Ok (DeniedCall ''cancelled by user''), l1)
           | HearClosed \<Rightarrow> (Err (SessionErr ''tool approval response channel closed''), l1)
           | Hear response rest \<Rightarrow>
               if ap_tool_call_id response \<noteq> call_id then hear_approval E call_id rest l1
               else if ap_approved response then (Ok ApprovedCall, did (Approved (ap_tool_call_id response)) l1)
               else (Ok (DeniedCall (unwrap_or (ap_reason response) ''denied by user'')), l1)))"

declare hear_approval.simps [simp del]

definition await_tool_approval ::
  "('w, 'j, 'v, 'd) loop_env \<Rightarrow> 'v tool_call_message \<Rightarrow> ('w, 'j, 'v, 'd) agent_loop \<Rightarrow>
   (runtime_error + approval_decision) \<times> ('w, 'j, 'v, 'd) agent_loop" where
  "await_tool_approval E tc l =
     (if \<not> requires_tool_approval E \<or> tc_name tc = REQUEST_INPUT_TOOL_NAME then (Ok ApprovedCall, l)
      else (case visit E (ev_hear E tc)
                   (did (Emitted (EvApprovalRequired (tc_id tc) (tc_name tc)
                          (safe_outer_tool_arguments (ev_json E) (tc_name tc) (tc_arguments tc)))) l) of
              (heard, l1) \<Rightarrow> hear_approval E (tc_id tc) heard l1))"

definition tool_call_entry :: "'v json_ops \<Rightarrow> 'v tool_call_message \<Rightarrow> 'v journal_entry_kind" where
  "tool_call_entry J tc =
     ToolCall (Some (tc_id tc)) (tc_name tc) (safe_outer_tool_arguments J (tc_name tc) (tc_arguments tc))"

definition journal_tool_call ::
  "('w, 'j, 'v, 'd) loop_env \<Rightarrow> 'v tool_call_message \<Rightarrow> ('w, 'j, 'v, 'd) agent_loop \<Rightarrow>
   (runtime_error + unit) \<times> ('w, 'j, 'v, 'd) agent_loop" where
  "journal_tool_call E tc =
     seq (append_kind E (tool_call_entry (ev_json E) tc)) (\<lambda>_. consume_replay_entry E (tool_call_entry (ev_json E) tc))"

definition emit_tool_start ::
  "('w, 'j, 'v, 'd) loop_env \<Rightarrow> 'v tool_call_message \<Rightarrow> ('w, 'j, 'v, 'd) agent_loop \<Rightarrow> ('w, 'j, 'v, 'd) agent_loop" where
  "emit_tool_start E tc =
     did (Emitted (EvToolStart (tc_id tc) (tc_name tc) (safe_outer_tool_arguments (ev_json E) (tc_name tc) (tc_arguments tc))))"

definition tool_message :: "'v tool_call_message \<Rightarrow> 'v tool_execution_result \<Rightarrow> 'v message" where
  "tool_message tc result =
     \<lparr>msg_role = Tool, msg_content = (if ter_is_error result then ''ERROR: '' else []) @ ter_content result,
      msg_tool_calls = [], msg_tool_call_id = Some (tc_id tc), msg_provider_content = ter_provider_content result\<rparr>"

definition finish_tool_call ::
  "('w, 'j, 'v, 'd) loop_env \<Rightarrow> 'v tool_call_message \<Rightarrow> 'v tool_execution_result \<Rightarrow> ('w, 'j, 'v, 'd) agent_loop \<Rightarrow>
   (runtime_error + 'v message) \<times> ('w, 'j, 'v, 'd) agent_loop" where
  "finish_tool_call E tc result l =
     (let shown = (if tc_name tc = ''mcp_call''
                   then redacted @ '' (result_length='' @ show_nat (char_count (ter_content result)) @ '')''
                   else ter_content result)
      in seq (append_kind E (ToolResult (Some (tc_id tc)) (tc_name tc) (ter_content result) (ter_is_error result)
                (ter_provider_content result)))
           (\<lambda>_ l1. (Ok (tool_message tc result), l1))
           (l\<lparr>lp_deeds := lp_deeds l @ map (\<lambda>line. Emitted (EvToolOutput (tc_id tc) line)) (lines shown) @
                [Emitted (EvToolFinish (tc_id tc) (tc_name tc) (ter_is_error result))]\<rparr>))"

fun start_parallel ::
  "('w, 'j, 'v, 'd) loop_env \<Rightarrow> 'v tool_call_message list \<Rightarrow> ('w, 'j, 'v, 'd) agent_loop \<Rightarrow>
   (runtime_error + unit) \<times> ('w, 'j, 'v, 'd) agent_loop" where
  "start_parallel E [] l = (Ok (), l)"
| "start_parallel E (tc # tcs) l =
     seq (journal_tool_call E tc) (\<lambda>_ l1. start_parallel E tcs (emit_tool_start E tc l1)) l"

fun finish_all ::
  "('w, 'j, 'v, 'd) loop_env \<Rightarrow> ('v tool_call_message \<times> 'v tool_execution_result) list \<Rightarrow> ('w, 'j, 'v, 'd) agent_loop \<Rightarrow>
   (runtime_error + 'v message list) \<times> ('w, 'j, 'v, 'd) agent_loop" where
  "finish_all E [] l = (Ok [], l)"
| "finish_all E ((tc, result) # rest) l =
     seq (finish_tool_call E tc result) (\<lambda>m. seq (finish_all E rest) (\<lambda>ms l1. (Ok (m # ms), l1))) l"

definition approval_denied :: "string \<Rightarrow> 'v tool_execution_result" where
  "approval_denied reason = \<lparr>ter_content = ''approval denied: '' @ reason, ter_is_error = True, ter_cancelled = False,
     ter_provider_content = []\<rparr>"

definition dispatch_one ::
  "('w, 'j, 'v, 'd) loop_env \<Rightarrow> 'v tool_call_message \<Rightarrow> ('w, 'j, 'v, 'd) agent_loop \<Rightarrow>
   (runtime_error + 'v message) \<times> ('w, 'j, 'v, 'd) agent_loop" where
  "dispatch_one E tc =
     seq (journal_tool_call E tc)
       (\<lambda>_. seq (take_replay_tool_result E (tc_id tc) (tc_name tc))
         (\<lambda>replayed. case replayed of
            Some (content, is_error, blocks) \<Rightarrow>
              (\<lambda>l. finish_tool_call E tc \<lparr>ter_content = content, ter_is_error = is_error, ter_cancelled = False,
                                          ter_provider_content = blocks\<rparr> (emit_tool_start E tc l))
          | None \<Rightarrow>
              seq (await_tool_approval E tc)
                (\<lambda>decision l. case decision of
                   ApprovedCall \<Rightarrow>
                     (case execute_tool E tc (emit_tool_start E tc l) of (result, l1) \<Rightarrow> finish_tool_call E tc result l1)
                 | DeniedCall reason \<Rightarrow> finish_tool_call E tc (approval_denied reason) l)))"

fun dispatch_each ::
  "('w, 'j, 'v, 'd) loop_env \<Rightarrow> 'v tool_call_message list \<Rightarrow> ('w, 'j, 'v, 'd) agent_loop \<Rightarrow>
   (runtime_error + 'v message list) \<times> ('w, 'j, 'v, 'd) agent_loop" where
  "dispatch_each E [] l = (Ok [], l)"
| "dispatch_each E (tc # tcs) l =
     seq (dispatch_one E tc) (\<lambda>m. seq (dispatch_each E tcs) (\<lambda>ms l1. (Ok (m # ms), l1))) l"

definition dispatch_tool_calls ::
  "('w, 'j, 'v, 'd) loop_env \<Rightarrow> 'v tool_call_message list \<Rightarrow> ('w, 'j, 'v, 'd) agent_loop \<Rightarrow>
   (runtime_error + 'v message list) \<times> ('w, 'j, 'v, 'd) agent_loop" where
  "dispatch_tool_calls E calls l =
     (if \<not> requires_tool_approval E \<and> \<not> has_replay_entry l \<and> supports_parallel_batch E calls
      then seq (start_parallel E calls)
             (\<lambda>_ l1. case execute_batch E calls l1 of (results, l2) \<Rightarrow> finish_all E (zip calls results) l2) l
      else dispatch_each E calls l)"

section \<open>A turn\<close>

datatype 'v turn_result =
    TurnDone "'v message" finish_reason
  | ToolCallsProcessed "'v message" "'v message list"
  | TurnBudgetExhausted
  | TurnCancelled

record 'v turn_execution =
  te_result :: "'v turn_result"
  te_usage :: token_usage
  te_exhausted :: "budget_exhausted option"

definition cancelled_execution :: "'v turn_execution" where
  "cancelled_execution = \<lparr>te_result = TurnCancelled, te_usage = usage_zero, te_exhausted = None\<rparr>"

text \<open>The recorded response, or a live one; \<open>None\<close> when the turn was cancelled.\<close>

definition obtain_response ::
  "('w, 'j, 'v, 'd::linorder) loop_env \<Rightarrow> 'v message list \<Rightarrow> ('w, 'j, 'v, 'd) agent_loop \<Rightarrow>
   (runtime_error + 'v provider_outcome) \<times> ('w, 'j, 'v, 'd) agent_loop" where
  "obtain_response E step l =
     (if has_replay_entry l
      then seq take_replay_entry
             (\<lambda>kind. seq (\<lambda>l1. (map_err JournalErr (replay_llm_response (ev_debug E) kind), l1))
               (\<lambda>response. seq (check_pending_spawn_hook_kill E) (\<lambda>_ l1. (Ok (Some (response, False)), l1)))) l
      else (case is_cancelled E l of
              (True, l1) \<Rightarrow> (Ok None, l1)
            | (False, l1) \<Rightarrow>
                (case call_provider E step l1 of
                   (outcome, l2) \<Rightarrow> seq (check_pending_spawn_hook_kill E) (\<lambda>_ l3. (outcome, l3)) l2)))"

text \<open>From the response to the conversation: hooks, activity, journal and budget.\<close>

definition charge_response ::
  "('w, 'j, 'v, 'd::linorder) loop_env \<Rightarrow> 'd resource_budget \<Rightarrow> 'v provider_response \<Rightarrow> ('w, 'j, 'v, 'd) agent_loop \<Rightarrow>
   ('w, 'j, 'v, 'd) agent_loop" where
  "charge_response E before r l =
     merge_budget_into_mirror E before
       (l\<lparr>lp_budget := (lp_budget l)\<lparr>used_tokens := sat_add (used_tokens (lp_budget l)) (usage_total (pr_token_usage r)),
            used_turns := used_turns (lp_budget l) + 1\<rparr>\<rparr>)"

definition accept_response ::
  "('w, 'j, 'v, 'd::linorder) loop_env \<Rightarrow> 'd resource_budget \<Rightarrow> 'v provider_response \<Rightarrow> bool \<Rightarrow>
   ('w, 'j, 'v, 'd) agent_loop \<Rightarrow> (runtime_error + unit) \<times> ('w, 'j, 'v, 'd) agent_loop" where
  "accept_response E before r streamed =
     seq (after_llm E r)
       (\<lambda>_ l. seq (append_kind E (LlmResponse (pr_model r) (pr_token_usage r) (debug_finish_reason (pr_finish_reason r))
                    (Some (pr_message r))))
         (\<lambda>_ l1. let l2 = charge_response E before r l1
                 in (Ok (), l2\<lparr>lp_messages := lp_messages l2 @ [pr_message r]\<rparr>))
         (if \<not> streamed \<and> msg_content (pr_message r) \<noteq> [] then did (Emitted (EvToken (msg_content (pr_message r)))) l else l))"

definition turn_complete :: "bool \<Rightarrow> ('w, 'j, 'v, 'd) agent_loop \<Rightarrow> ('w, 'j, 'v, 'd) agent_loop" where
  "turn_complete emit l = (if emit then did (Emitted EvTurnComplete) l else l)"

definition finish_turn ::
  "('w, 'j, 'v, 'd) loop_env \<Rightarrow> bool \<Rightarrow> 'v provider_response \<Rightarrow> ('w, 'j, 'v, 'd) agent_loop \<Rightarrow>
   (runtime_error + 'v turn_execution) \<times> ('w, 'j, 'v, 'd) agent_loop" where
  "finish_turn E emit r l =
     (if msg_tool_calls (pr_message r) = []
      then seq (check_pending_spawn_hook_kill E)
             (\<lambda>_ l1. (Ok \<lparr>te_result = TurnDone (pr_message r) (pr_finish_reason r), te_usage = pr_token_usage r,
                          te_exhausted = None\<rparr>, turn_complete emit l1)) l
      else seq (dispatch_tool_calls E (msg_tool_calls (pr_message r)))
             (\<lambda>results. seq (check_pending_spawn_hook_kill E)
               (\<lambda>_ l1. seq (check_pending_spawn_hook_kill E)
                 (\<lambda>_ l2. (Ok \<lparr>te_result = ToolCallsProcessed (pr_message r) results, te_usage = pr_token_usage r,
                              te_exhausted = None\<rparr>, turn_complete emit l2))
                 (l1\<lparr>lp_messages := lp_messages l1 @ results\<rparr>))) l)"

definition model_step ::
  "('w, 'j, 'v, 'd::linorder) loop_env \<Rightarrow> bool \<Rightarrow> ('w, 'j, 'v, 'd) agent_loop \<Rightarrow>
   (runtime_error + 'v turn_execution) \<times> ('w, 'j, 'v, 'd) agent_loop" where
  "model_step E emit l0 =
     (let context_limit = unwrap_or (cfg_context_token_limit (lp_config l0)) (default_context_limit (cfg_model (lp_config l0)));
          step = ev_compact E (lp_messages l0)
                   (compaction_token_limit (max_tokens (lp_budget l0)) (used_tokens (lp_budget l0)) context_limit);
          before = lp_budget l0;
          llm_request = LlmRequest (cfg_model (lp_config l0)) (length step)
      in seq (append_kind E llm_request)
           (\<lambda>_. seq (consume_replay_entry E llm_request)
             (\<lambda>_. seq (before_llm E (length step))
               (\<lambda>_. seq (obtain_response E step)
                 (\<lambda>outcome l. case outcome of
                    None \<Rightarrow> (Ok cancelled_execution, l)
                  | Some (response, streamed) \<Rightarrow>
                      (let r = enforce_tool_calls_require_tool_use_finish response
                       in seq (accept_response E before r streamed) (\<lambda>_. finish_turn E emit r) l))))) l0)"

definition execute_turn ::
  "('w, 'j, 'v, 'd::{zero,linorder}) loop_env \<Rightarrow> bool \<Rightarrow> ('w, 'j, 'v, 'd) agent_loop \<Rightarrow>
   (runtime_error + 'v turn_execution) \<times> ('w, 'j, 'v, 'd) agent_loop" where
  "execute_turn E emit =
     seq (check_pending_spawn_hook_kill E)
       (\<lambda>_ l0. case is_cancelled E l0 of
          (True, l) \<Rightarrow> (Ok cancelled_execution, l)
        | (False, l) \<Rightarrow>
            (let l1 = refresh_budget_from_mirror E (drain_input_queue E l)
             in case check_budget (dec_show (ev_dec E)) ((lp_budget l1)\<lparr>max_sub_agents := 0\<rparr>) of
                  Inl ex \<Rightarrow> (Ok \<lparr>te_result = TurnBudgetExhausted, te_usage = usage_zero, te_exhausted = Some ex\<rparr>, l1)
                | Inr _ \<Rightarrow>
                    seq (append_kind E TurnStart)
                      (\<lambda>_. seq (consume_replay_entry E TurnStart) (\<lambda>_. model_step E emit)) l1))"

definition run_single_turn ::
  "('w, 'j, 'v, 'd::{zero,linorder}) loop_env \<Rightarrow> ('w, 'j, 'v, 'd) agent_loop \<Rightarrow>
   (runtime_error + 'v turn_result) \<times> ('w, 'j, 'v, 'd) agent_loop" where
  "run_single_turn E = seq (execute_turn E True) (\<lambda>te l. (Ok (te_result te), l))"

section \<open>A run\<close>

definition system_message :: "string \<Rightarrow> 'v message" where
  "system_message text = \<lparr>msg_role = System, msg_content = text, msg_tool_calls = [], msg_tool_call_id = None,
     msg_provider_content = []\<rparr>"

fun latest_checkpoint ::
  "(bytes \<Rightarrow> ('v, 'd) checkpoint_data option) \<Rightarrow> ('v, 'd) checkpoint_data option \<Rightarrow> 'v journal_entry list \<Rightarrow>
   ('v, 'd) checkpoint_data option" where
  "latest_checkpoint read found [] = found"
| "latest_checkpoint read found (e # es) =
     latest_checkpoint read
       (case je_entry e of Checkpoint data \<Rightarrow> or_else (read data) found | _ \<Rightarrow> found) es"

definition restore_checkpoint ::
  "('w, 'j, 'v, 'd) loop_env \<Rightarrow> ('v, 'd) checkpoint_data \<Rightarrow> ('w, 'j, 'v, 'd) agent_loop \<Rightarrow> ('w, 'j, 'v, 'd) agent_loop" where
  "restore_checkpoint E cp l =
     (let l1 = replace_budget_mirror E (l\<lparr>lp_budget := cp_budget_snapshot cp\<rparr>);
          l2 = (if cp_messages cp \<noteq> [] then l1\<lparr>lp_messages := cp_messages cp\<rparr> else l1)
      in case (cp_vfs_snapshot cp, ev_restore_vfs E) of
           (Some data, Some restore) \<Rightarrow> snd (visit E (\<lambda>h. ((), restore data h)) l2)
         | _ \<Rightarrow> l2)"

definition loop_output ::
  "exit_reason \<Rightarrow> token_usage \<Rightarrow> ('w, 'j, 'v, 'd) agent_loop \<Rightarrow> ('v, 'd) agent_loop_output" where
  "loop_output reason usage l =
     \<lparr>lo_exit_reason = reason, lo_messages = lp_messages l, lo_token_usage = usage, lo_reported_tool_uses = None,
      lo_used_turns = used_turns (lp_budget l), lo_used_cost = used_cost (lp_budget l)\<rparr>"

fun run_turns ::
  "('w, 'j, 'v, 'd::{zero,linorder}) loop_env \<Rightarrow> nat \<Rightarrow> token_usage \<Rightarrow> ('w, 'j, 'v, 'd) agent_loop \<Rightarrow>
   (runtime_error + ('v, 'd) agent_loop_output) \<times> ('w, 'j, 'v, 'd) agent_loop" where
  "run_turns E 0 usage l = (Ok (loop_output ExMaxTurns usage l), l)"
| "run_turns E (Suc n) usage l =
     (case execute_turn E True l of
        (Inl (HookKilled hook reason), l1) \<Rightarrow> (Ok (loop_output (ExPolicyKill hook reason) usage l1), l1)
      | (Inl e, l1) \<Rightarrow> (Err e, l1)
      | (Inr te, l1) \<Rightarrow>
          (let usage1 = add_usage usage (te_usage te)
           in case te_result te of
                TurnDone _ finish \<Rightarrow>
                  (Ok (loop_output (if finish = Refusal then ExRefusal else ExComplete) usage1 l1), l1)
              | ToolCallsProcessed _ _ \<Rightarrow> run_turns E n usage1 l1
              | TurnBudgetExhausted \<Rightarrow>
                  (case te_exhausted te of
                     None \<Rightarrow> (Err (SessionErr ''budget exhausted turn result did not include error details''), l1)
                   | Some ex \<Rightarrow> (Err (BudgetErr ex), l1))
              | TurnCancelled \<Rightarrow> (Ok (loop_output ExCancelled usage1 l1), l1)))"

definition effective_max_turns :: "u32 \<Rightarrow> nat" where
  "effective_max_turns n = (if n = 0 then 2 ^ 32 - 1 else unat n)"

definition open_conversation ::
  "('w, 'j, 'v, 'd) loop_env \<Rightarrow> string \<Rightarrow> ('w, 'j, 'v, 'd) agent_loop \<Rightarrow> ('w, 'j, 'v, 'd) agent_loop" where
  "open_conversation E task l =
     (let l1 = l\<lparr>lp_messages := [system_message (cfg_system_prompt (lp_config l)), user_message task]\<rparr>
      in case lp_replay l of
           None \<Rightarrow> l1
         | Some it \<Rightarrow>
             (case latest_checkpoint (ev_checkpoint E) None (replay_entries it) of
                None \<Rightarrow> l1
              | Some cp \<Rightarrow> restore_checkpoint E cp l1))"

definition run_loop ::
  "('w, 'j, 'v, 'd::{zero,linorder}) loop_env \<Rightarrow> string \<Rightarrow> ('w, 'j, 'v, 'd) agent_loop \<Rightarrow>
   (runtime_error + ('v, 'd) agent_loop_output) \<times> ('w, 'j, 'v, 'd) agent_loop" where
  "run_loop E task l =
     (case (case lp_replay l of None \<Rightarrow> Ok () | Some it \<Rightarrow> replay_validate it) of
        Inl e \<Rightarrow> (Err (JournalErr e), l)
      | Inr _ \<Rightarrow> run_turns E (effective_max_turns (cfg_max_turns (lp_config l))) usage_zero (open_conversation E task l))"

end
