(* ===== verification/Agent_Steps.thy ===== *)
theory Agent_Steps
  imports Agent_Turn
begin

text \<open>
  What the steps of the agent loop leave alone, and the transcript of a turn that ended well: the deeds it
  added, the messages it added and its result, whatever the environment answers.
\<close>

section \<open>Steps that only touch the hub\<close>

definition still :: "('w, 'j, 'v, 'd) agent_loop \<Rightarrow> ('w, 'j, 'v, 'd) agent_loop \<Rightarrow> bool" where
  "still l l' \<longleftrightarrow> lp_config l' = lp_config l \<and> lp_budget l' = lp_budget l \<and> lp_replay l' = lp_replay l \<and>
     lp_messages l' = lp_messages l \<and> lp_deeds l' = lp_deeds l"

lemma still_refl [simp]: "still l l"
  by (simp add: still_def)

lemma still_trans [trans]: "still l1 l2 \<Longrightarrow> still l2 l3 \<Longrightarrow> still l1 l3"
  by (simp add: still_def)

lemma still_visit: "visit E f l = (r, l') \<Longrightarrow> still l l'"
  by (auto simp: visit_def still_def split: prod.splits)

lemma still_visit_snd: "still l (snd (visit E f l))"
  using still_visit[of E f l] by (cases "visit E f l") auto

lemma still_frontier: "still l (l1\<lparr>lp_frontier := n\<rparr>) \<longleftrightarrow> still l l1"
  by (simp add: still_def)

lemma still_is_cancelled: "is_cancelled E l = (b, l') \<Longrightarrow> still l l'"
  by (auto simp: is_cancelled_def dest: still_visit split: if_splits)

lemma seq_cases:
  assumes "seq m f l = (r, l')"
  obtains e where "m l = (Inl e, l')" "r = Inl e"
  | x l1 where "m l = (Inr x, l1)" "f x l1 = (r, l')"
  using assms by (auto simp: seq_def split: prod.splits sum.splits)

lemma still_kill_signal: "kill_signal E l = (r, l') \<Longrightarrow> still l l'"
  by (auto simp: kill_signal_def dest: still_visit split: prod.splits option.splits)

lemma still_check_kill: "check_pending_spawn_hook_kill E l = (r, l') \<Longrightarrow> still l l'"
proof -
  assume a: "check_pending_spawn_hook_kill E l = (r, l')"
  from a[unfolded check_pending_spawn_hook_kill_def] show ?thesis
  proof (cases rule: seq_cases)
    case (2 x l1)
    have l1: "still l l1" by (rule still_kill_signal[OF 2(1)])
    have "still l1 l'"
    proof (cases "lp_frontier l1")
      case None
      then show ?thesis using 2(2)
        by (auto simp: still_frontier dest: still_visit split: prod.splits sum.splits)
    next
      case (Some n)
      obtain q l2 where v: "visit E (\<lambda>h. (js_read_from (ev_storage E) (hb_journal h) (cfg_agent_id (lp_config l1)) n, h)) l1 = (q, l2)"
        by (cases "visit E (\<lambda>h. (js_read_from (ev_storage E) (hb_journal h) (cfg_agent_id (lp_config l1)) n, h)) l1") auto
      show ?thesis
      proof (cases q)
        case (Inl e)
        then have "seq (kill_signal E) (\<lambda>_ l2. (Err (JournalErr e), l2)) l2 = (r, l')" using 2(2) Some v by simp
        then have "still l2 l'" by (cases rule: seq_cases) (auto dest: still_kill_signal)
        then show ?thesis using still_visit[OF v] still_trans by blast
      next
        case (Inr es)
        show ?thesis
        proof (cases "spawn_kill es")
          case None
          then have "kill_signal E (l2\<lparr>lp_frontier := Some (n + length es)\<rparr>) = (r, l')" using 2(2) Some v Inr by simp
          from still_kill_signal[OF this] show ?thesis using still_visit[OF v] by (simp add: still_def)
        next
          case (Some d)
          then show ?thesis using 2(2) \<open>lp_frontier l1 = Some n\<close> v Inr still_visit[OF v] by (auto simp: still_frontier)
        qed
      qed
    qed
    then show ?thesis using l1 still_trans by blast
  qed (auto dest: still_kill_signal)
qed

section \<open>Steps on one field\<close>

text \<open>Everything but the budget, the replay cursor and the hub.\<close>

definition lp_log :: "('w, 'j, 'v, 'd) agent_loop \<Rightarrow> 'v journal_entry list" where
  "lp_log l = (case lp_replay l of None \<Rightarrow> [] | Some it \<Rightarrow> ri_entries it)"

lemma lp_log_update [simp]:
  "lp_log (l\<lparr>lp_budget := b\<rparr>) = lp_log l" "lp_log (l\<lparr>lp_deeds := ds\<rparr>) = lp_log l" "lp_log (l\<lparr>lp_messages := ms\<rparr>) = lp_log l"
  "lp_log (l\<lparr>lp_failures := n\<rparr>) = lp_log l" "lp_log (l\<lparr>lp_replay := Some it\<rparr>) = ri_entries it"
  by (simp_all add: lp_log_def)

definition kept :: "('w, 'j, 'v, 'd) agent_loop \<Rightarrow> ('w, 'j, 'v, 'd) agent_loop \<Rightarrow> bool" where
  "kept l l' \<longleftrightarrow> lp_config l' = lp_config l \<and> lp_messages l' = lp_messages l \<and> lp_deeds l' = lp_deeds l \<and>
     lp_log l' = lp_log l"

lemma kept_refl [simp]: "kept l l"
  by (simp add: kept_def)

lemma kept_trans [trans]: "kept l1 l2 \<Longrightarrow> kept l2 l3 \<Longrightarrow> kept l1 l3"
  by (simp add: kept_def)

lemma still_kept: "still l l' \<Longrightarrow> kept l l'"
  by (simp add: still_def kept_def lp_log_def)

lemma kept_sync [simp]: "kept l (sync_turn_mirror E l)"
  by (simp add: sync_turn_mirror_def still_kept still_visit_snd)

lemma kept_budget_sync: "kept l l1 \<Longrightarrow> kept l (sync_turn_mirror E (l1\<lparr>lp_budget := b\<rparr>))"
  using kept_sync[of "l1\<lparr>lp_budget := b\<rparr>" E] by (simp add: kept_def)

lemma kept_refresh [simp]: "kept l (refresh_budget_from_mirror E l)"
  by (auto simp: refresh_budget_from_mirror_def intro: kept_budget_sync[OF still_kept[OF still_visit]] split: prod.split)

lemma kept_merge [simp]: "kept l (merge_budget_into_mirror E b l)"
  by (auto simp: merge_budget_into_mirror_def intro: kept_budget_sync[OF still_kept[OF still_visit]] split: prod.split)

lemma kept_take: "take_recorded m l = (r, l') \<Longrightarrow> kept l l'"
  by (auto simp: take_recorded_def next_recorded_def kept_def lp_log_def split: option.splits prod.splits if_splits)

lemma kept_seq:
  assumes "seq m f l = (r, l')" "\<And>r l1. m l = (r, l1) \<Longrightarrow> kept l l1" "\<And>x l1. f x l1 = (r, l') \<Longrightarrow> kept l1 l'"
  shows "kept l l'"
  using assms(1)
proof (cases rule: seq_cases)
  case (2 x l1)
  then show ?thesis using assms(2,3) kept_trans by blast
qed (use assms(2) in blast)

lemma kept_consume: "consume_replay_entry E k l = (r, l') \<Longrightarrow> kept l l'"
  unfolding consume_replay_entry_def by (auto elim!: kept_seq dest: kept_take split: if_splits)

lemma kept_take_entry: "take_replay_entry l = (r, l') \<Longrightarrow> kept l l'"
  unfolding take_replay_entry_def by (rule kept_take)

lemma kept_consume_at: "consume_replay_tool_result_at E n l = (r, l') \<Longrightarrow> kept l l'"
proof (induction n arbitrary: l)
  case 0
  then show ?case unfolding consume_replay_tool_result_at.simps by (rule kept_seq) (auto dest: kept_take)
next
  case (Suc n)
  from Suc.prems show ?case unfolding consume_replay_tool_result_at.simps
    by (rule kept_seq) (auto dest: kept_take Suc.IH)
qed

lemma kept_take_result: "take_replay_tool_result E i n l = (r, l') \<Longrightarrow> kept l l'"
  unfolding take_replay_tool_result_def
  by (auto elim!: kept_seq dest: kept_consume_at split: option.splits if_splits scanned.splits)

lemma append_kind_cases:
  assumes "append_kind E k l = (r, l')"
  obtains l1 where "still l l1" "r = Ok ()" "l' = did (Journaled k) l1"
  | e l1 where "still l l1" "r = Err (JournalAppendFailed (entry_kind_name k) e)" "l' = l1\<lparr>lp_failures := lp_failures l1 + 1\<rparr>"
  using assms unfolding append_kind_def by (auto dest: still_visit split: prod.splits sum.splits)

lemma kept_drain: "\<exists>us. kept (l\<lparr>lp_messages := lp_messages l @ map user_message us\<rparr>) (drain_input_queue E l)"
proof (cases "ev_has_queue E")
  case True
  obtain us l1 where v: "visit E (\<lambda>h. (hb_inputs h, h\<lparr>hb_inputs := []\<rparr>)) l = (us, l1)"
    by (cases "visit E (\<lambda>h. (hb_inputs h, h\<lparr>hb_inputs := []\<rparr>)) l") auto
  then show ?thesis using True still_visit[OF v] by (intro exI[of _ us]) (simp add: drain_input_queue_def kept_def still_def lp_log_def)
next
  case False
  then show ?thesis by (intro exI[of _ "[]"]) (simp add: drain_input_queue_def kept_def)
qed

end
