(* ===== verification/Agent_Order.thy ===== *)
theory Agent_Order
  imports Agent_Steps Context_Window
begin

text \<open>
  The order of the effects of an agent loop: a request goes out right after its journal entry and shows
  only complete tool exchanges, a tool runs only after its call was journaled and, where approvals are
  required, approved, and always under the configured capability.  The proof is a triple for every step of
  a turn over one invariant of the loop state.
\<close>

section \<open>What is due\<close>

fun is_run :: "'v deed \<Rightarrow> bool" where
  "is_run (Ran _ _) = True"
| "is_run _ = False"

text \<open>The deeds since the last tool run.\<close>

definition recent :: "'v deed list \<Rightarrow> 'v deed list" where
  "recent ds = rev (takeWhile (\<lambda>d. \<not> is_run d) (rev ds))"

record 'v rules =
  ru_approval :: bool
  ru_json :: "'v json_ops"
  ru_capability :: capability_token

definition called_and_cleared :: "'v rules \<Rightarrow> 'v deed list \<Rightarrow> 'v tool_call_message \<Rightarrow> bool" where
  "called_and_cleared R ds tc \<longleftrightarrow> Journaled (tool_call_entry (ru_json R) tc) \<in> set ds \<and>
     (ru_approval R \<longrightarrow> tc_name tc = REQUEST_INPUT_TOOL_NAME \<or> Approved (tc_id tc) \<in> set ds)"

fun due :: "'v rules \<Rightarrow> 'v deed list \<Rightarrow> 'v deed \<Rightarrow> bool" where
  "due R ds (Asked ms) \<longleftrightarrow> exchanges_complete ms \<and>
     (\<exists>m. suffix [Journaled (LlmRequest m (length ms))] ds)"
| "due R ds (Ran calls cap) \<longleftrightarrow> cap = ru_capability R \<and> (\<forall>tc \<in> set calls. called_and_cleared R (recent ds) tc)"
| "due R ds _ \<longleftrightarrow> True"

definition orderly :: "'v rules \<Rightarrow> 'v deed list \<Rightarrow> bool" where
  "orderly R ds \<longleftrightarrow> (\<forall>pre d post. ds = pre @ d # post \<longrightarrow> due R pre d)"

lemma orderly_Nil [simp]: "orderly R []"
  by (simp add: orderly_def)

lemma orderly_snoc [simp]: "orderly R (ds @ [d]) \<longleftrightarrow> orderly R ds \<and> due R ds d"
proof
  assume a: "orderly R (ds @ [d])"
  have "due R pre x" if "ds = pre @ x # post" for pre x post
    using a[unfolded orderly_def, rule_format, of pre x "post @ [d]"] that by simp
  moreover have "due R ds d" using a by (simp add: orderly_def)
  ultimately show "orderly R ds \<and> due R ds d" by (auto simp: orderly_def)
next
  assume a: "orderly R ds \<and> due R ds d"
  show "orderly R (ds @ [d])" unfolding orderly_def
  proof (intro allI impI)
    fix pre x post assume "ds @ [d] = pre @ x # post"
    then show "due R pre x" using a by (cases post rule: rev_cases) (auto simp: orderly_def)
  qed
qed

lemma recent_snoc [simp]: "recent (ds @ [d]) = (if is_run d then [] else recent ds @ [d])"
  by (simp add: recent_def)

lemma orderly_emitted: "orderly R ds \<Longrightarrow> orderly R (ds @ map Emitted es)"
proof (induction es rule: rev_induct)
  case (snoc e es)
  then show ?case using orderly_snoc[of R "ds @ map Emitted es" "Emitted e"] by simp
qed simp

lemma recent_emitted: "set (recent ds) \<subseteq> set (recent (ds @ map Emitted es))"
proof (induction es rule: rev_induct)
  case (snoc e es)
  then show ?case using recent_snoc[of "ds @ map Emitted es" "Emitted e"] by auto
qed simp

section \<open>The invariant\<close>

definition assistant_reply :: "'v provider_response \<Rightarrow> bool" where
  "assistant_reply r \<longleftrightarrow> msg_role (pr_message r) = Assistant"

definition assistant_log :: "'v journal_entry list \<Rightarrow> bool" where
  "assistant_log es \<longleftrightarrow> (\<forall>e \<in> set es. \<forall>m u f x. je_entry e = LlmResponse m u f (Some x) \<longrightarrow> msg_role x = Assistant)"

text \<open>The environment keeps its contracts: providers answer as the assistant, the strategy keeps exchanges
  complete, and so do the conversations in checkpoints.\<close>

definition proper_env :: "('w, 'j, 'v, 'd) loop_env \<Rightarrow> bool" where
  "proper_env E \<longleftrightarrow> compaction (ev_compact E) \<and>
     (\<forall>ms b h r. cr_result (fst (ev_chat E ms b h)) = Inr r \<longrightarrow> assistant_reply r) \<and>
     (\<forall>data cp. ev_checkpoint E data = Some cp \<longrightarrow> exchanges_complete (cp_messages cp))"

definition rules_of :: "('w, 'j, 'v, 'd) loop_env \<Rightarrow> agent_loop_config \<Rightarrow> 'v rules" where
  "rules_of E cfg = \<lparr>ru_approval = requires_tool_approval E, ru_json = ev_json E, ru_capability = cfg_capability cfg\<rparr>"

definition sound :: "('w, 'j, 'v, 'd) loop_env \<Rightarrow> agent_loop_config \<Rightarrow> ('w, 'j, 'v, 'd) agent_loop \<Rightarrow> bool" where
  "sound E cfg l \<longleftrightarrow> lp_config l = cfg \<and> assistant_log (lp_log l) \<and> orderly (rules_of E cfg) (lp_deeds l)"

lemma sound_kept: "kept l l' \<Longrightarrow> sound E cfg l' \<longleftrightarrow> sound E cfg l"
  by (auto simp: sound_def kept_def)

section \<open>Triples\<close>

text \<open>Started in a sound state with the conversation \<open>M\<close> and \<open>P\<close>, a step ends in a sound state, and with a
  result \<open>x\<close> in one that satisfies \<open>Q x\<close>.\<close>

definition triple ::
  "('c \<Rightarrow> bool) \<Rightarrow> ('c \<Rightarrow> bool) \<Rightarrow> ('c \<Rightarrow> ('e + 'a) \<times> 'c) \<Rightarrow> ('a \<Rightarrow> 'c \<Rightarrow> bool) \<Rightarrow> bool" where
  "triple I P f Q \<longleftrightarrow> (\<forall>l r l'. I l \<longrightarrow> P l \<longrightarrow> f l = (r, l') \<longrightarrow> I l' \<and> (\<forall>x. r = Inr x \<longrightarrow> Q x l'))"

lemma tripleI:
  assumes "\<And>l r l'. I l \<Longrightarrow> P l \<Longrightarrow> f l = (r, l') \<Longrightarrow> I l' \<and> (\<forall>x. r = Inr x \<longrightarrow> Q x l')"
  shows "triple I P f Q"
  using assms unfolding triple_def by blast

lemma tripleD:
  "triple I P f Q \<Longrightarrow> I l \<Longrightarrow> P l \<Longrightarrow> f l = (r, l') \<Longrightarrow> I l' \<and> (\<forall>x. r = Inr x \<longrightarrow> Q x l')"
  unfolding triple_def by blast

lemma triple_seq:
  assumes "triple I P m R" "\<And>x. triple I (R x) (f x) Q"
  shows "triple I P (seq m f) Q"
proof (rule tripleI)
  fix l r l' assume s: "I l" "P l" "seq m f l = (r, l')"
  from s(3) show "I l' \<and> (\<forall>x. r = Inr x \<longrightarrow> Q x l')"
  proof (cases rule: seq_cases)
    case (1 e)
    then show ?thesis using tripleD[OF assms(1) s(1,2)] by blast
  next
    case (2 x l1)
    then have "I l1" "R x l1" using tripleD[OF assms(1) s(1,2)] by blast+
    then show ?thesis using tripleD[OF assms(2)] 2(2) by blast
  qed
qed

lemma triple_pre: "triple I P f Q \<Longrightarrow> (\<And>l. P' l \<Longrightarrow> P l) \<Longrightarrow> triple I P' f Q"
  unfolding triple_def by blast

lemma triple_return: "(\<And>l. I l \<Longrightarrow> P l \<Longrightarrow> Q x l) \<Longrightarrow> triple I P (\<lambda>l. (Inr x, l)) Q"
  unfolding triple_def by auto

lemma triple_throw: "triple I P (\<lambda>l. (Inl e, l)) Q"
  unfolding triple_def by auto

lemma triple_adjust:
  assumes "triple I P f Q" "\<And>l. I l \<Longrightarrow> P' l \<Longrightarrow> I (g l) \<and> P (g l)"
  shows "triple I P' (\<lambda>l. f (g l)) Q"
  using assms unfolding triple_def by blast

text \<open>A step that keeps all but the hub, the budget and the cursor keeps what is said of the rest.\<close>

definition stable :: "(('w, 'j, 'v, 'd) agent_loop \<Rightarrow> bool) \<Rightarrow> bool" where
  "stable P \<longleftrightarrow> (\<forall>l l'. kept l l' \<longrightarrow> P l \<longrightarrow> P l')"

lemma triple_kept:
  assumes "stable P" "\<And>l r l'. f l = (r, l') \<Longrightarrow> kept l l'"
  shows "triple (sound E cfg) P f (\<lambda>_. P)"
  using assms sound_kept unfolding triple_def stable_def by blast

definition at :: "'v message list \<Rightarrow> 'v deed list \<Rightarrow> ('w, 'j, 'v, 'd) agent_loop \<Rightarrow> bool" where
  "at M D l \<longleftrightarrow> lp_messages l = M \<and> lp_deeds l = D"

definition conv :: "'v message list \<Rightarrow> ('w, 'j, 'v, 'd) agent_loop \<Rightarrow> bool" where
  "conv M l \<longleftrightarrow> lp_messages l = M"

lemma stable_at [intro, simp]: "stable (at M D)"
  by (auto simp: stable_def at_def kept_def)

lemma stable_conv [intro, simp]: "stable (conv M)"
  by (auto simp: stable_def conv_def kept_def)

lemma triple_at_conv: "(\<And>D. triple I (at M D) f Q) \<Longrightarrow> triple I (conv M) f Q"
  unfolding triple_def at_def conv_def by blast

lemma triple_post: "triple I P f Q \<Longrightarrow> (\<And>x l. Q x l \<Longrightarrow> Q' x l) \<Longrightarrow> triple I P f Q'"
  unfolding triple_def by blast

section \<open>The steps of a turn\<close>

lemma append_triple: "triple (sound E cfg) (at M D) (append_kind E k) (\<lambda>_. at M (D @ [Journaled k]))"
proof (rule tripleI)
  fix l r l' assume s: "sound E cfg l" "at M D l" "append_kind E k l = (r, l')"
  from s(3) show "sound E cfg l' \<and> (\<forall>x. r = Inr x \<longrightarrow> at M (D @ [Journaled k]) l')"
    by (cases rule: append_kind_cases)
      (use s(1,2) in \<open>auto simp: sound_def at_def still_def lp_log_def\<close>)
qed

lemmas append_conv = triple_at_conv[OF triple_post[OF append_triple]]

lemma kill_triple: "stable P \<Longrightarrow> triple (sound E cfg) P (check_pending_spawn_hook_kill E) (\<lambda>_. P)"
  by (rule triple_kept) (blast intro: still_kept still_check_kill)+

lemma consume_triple: "stable P \<Longrightarrow> triple (sound E cfg) P (consume_replay_entry E k) (\<lambda>_. P)"
  by (rule triple_kept) (blast intro: kept_consume)+

lemma fail_sound:
  assumes "journal_then_fail E k e l = (r, l')" "sound E cfg l"
  shows "sound E cfg l' \<and> r \<noteq> Inr x"
proof -
  have "triple (sound E cfg) (at (lp_messages l) (lp_deeds l)) (journal_then_fail E k e) (\<lambda>_ _. False)"
    unfolding journal_then_fail_def by (rule triple_seq[OF append_triple triple_throw])
  from tripleD[OF this assms(2) _ assms(1)] show ?thesis by (auto simp: at_def)
qed

text \<open>A visit followed by a case distinction on its answer.\<close>

lemma triple_visit:
  assumes "stable P" "\<And>x. triple (sound E cfg) P (f x) Q"
  shows "triple (sound E cfg) P (\<lambda>l. case visit E g l of (x, l1) \<Rightarrow> f x l1) Q"
proof (rule tripleI)
  fix l r l' assume s: "sound E cfg l" "P l" "(case visit E g l of (x, l1) \<Rightarrow> f x l1) = (r, l')"
  obtain x l1 where v: "visit E g l = (x, l1)" by (cases "visit E g l")
  have "kept l l1" using still_kept[OF still_visit[OF v]] .
  then have "sound E cfg l1" "P l1" using s(1,2) assms(1) sound_kept[of l l1 E cfg] by (auto simp: stable_def)
  then show "sound E cfg l' \<and> (\<forall>x. r = Inr x \<longrightarrow> Q x l')" using tripleD[OF assms(2)] s(3) v by auto
qed

lemma before_llm_triple: "triple (sound E cfg) (at M D) (before_llm E n) (\<lambda>_. at M D)"
proof (rule tripleI)
  fix l r l' assume s: "sound E cfg l" "at M D l" "before_llm E n l = (r, l')"
  have ok: "triple (sound E cfg) (at M D) (\<lambda>l. (Inr (), l)) (\<lambda>_. at M D)" by (rule triple_return)
  show "sound E cfg l' \<and> (\<forall>x. r = Inr x \<longrightarrow> at M D l')"
  proof (cases "ev_pipeline E")
    case (Some p)
    obtain a l1 where v: "visit E (run_before_attributed p OpLlm (ev_before_ctx E (cfg_model (lp_config l)) n)) l = (a, l1)"
      by fastforce
    have l1: "sound E cfg l1" "at M D l1"
      using still_kept[OF still_visit[OF v]] s(1,2) sound_kept[of l l1 E cfg] stable_at[of M D] by (auto simp: stable_def)
    show ?thesis using s(3) l1 Some v fail_sound[OF _ l1(1)]
      by (auto simp: before_llm_def split: sum.splits prod.splits verdict.splits option.splits hook_error.splits)
  qed (use s in \<open>simp add: before_llm_def\<close>)
qed

lemma after_llm_triple: "triple (sound E cfg) (at M D) (after_llm E x) (\<lambda>_. at M D)"
proof (rule tripleI)
  fix l r l' assume s: "sound E cfg l" "at M D l" "after_llm E x l = (r, l')"
  show "sound E cfg l' \<and> (\<forall>x. r = Inr x \<longrightarrow> at M D l')"
  proof (cases "ev_pipeline E")
    case (Some p)
    obtain a l1 where v: "visit E (run_after p OpLlm (ev_after_ctx E x)) l = (a, l1)"
      by fastforce
    have l1: "sound E cfg l1" "at M D l1"
      using still_kept[OF still_visit[OF v]] s(1,2) sound_kept[of l l1 E cfg] stable_at[of M D] by (auto simp: stable_def)
    show ?thesis using s(3) l1 Some v fail_sound[OF _ l1(1)]
      by (auto simp: after_llm_def split: sum.splits prod.splits hook_error.splits)
  qed (use s in \<open>simp add: after_llm_def\<close>)
qed

section \<open>Tool calls\<close>

definition answers :: "'v tool_call_message \<Rightarrow> 'v message \<Rightarrow> bool" where
  "answers tc m \<longleftrightarrow> msg_role m = Tool \<and> msg_tool_call_id m = Some (tc_id tc) \<and> msg_tool_calls m = []"

lemma emitted_sound: "sound E cfg l \<Longrightarrow> sound E cfg (l\<lparr>lp_deeds := lp_deeds l @ map Emitted es\<rparr>)"
  by (simp add: sound_def orderly_emitted)

lemma start_sound: "sound E cfg l \<Longrightarrow> sound E cfg (emit_tool_start E tc l)"
  using emitted_sound[of E cfg l "[EvToolStart (tc_id tc) (tc_name tc) (safe_outer_tool_arguments (ev_json E) (tc_name tc) (tc_arguments tc))]"]
  by (simp add: emit_tool_start_def)

lemma finish_triple: "triple (sound E cfg) (conv M) (finish_tool_call E tc res) (\<lambda>m l. answers tc m \<and> conv M l)"
  unfolding finish_tool_call_def Let_def
proof (rule triple_adjust[where P = "conv M"])
  show "triple (sound E cfg) (conv M)
      (seq (append_kind E (ToolResult (Some (tc_id tc)) (tc_name tc) (ter_content res) (ter_is_error res) (ter_provider_content res)))
        (\<lambda>_ l1. (Inr (tool_message tc res), l1))) (\<lambda>m l. answers tc m \<and> conv M l)"
    by (rule triple_seq[OF append_conv triple_return])
      (auto simp: at_def conv_def answers_def tool_message_def)
qed (use emitted_sound[of E cfg _ "map (EvToolOutput (tc_id tc)) ls @ [EvToolFinish (tc_id tc) (tc_name tc) b]" for ls b]
      in \<open>auto simp: conv_def o_def\<close>)

lemma ran_sound:
  assumes "sound E cfg l" "\<forall>tc \<in> set calls. called_and_cleared (rules_of E cfg) (recent (lp_deeds l)) tc"
  shows "sound E cfg (did (Ran calls (cfg_capability (lp_config l))) l)"
  using assms by (simp add: sound_def rules_of_def)

lemma batch_sound:
  assumes "sound E cfg l" "\<forall>tc \<in> set calls. called_and_cleared (rules_of E cfg) (recent (lp_deeds l)) tc"
    "execute_batch E calls l = (rs, l')"
  shows "sound E cfg l' \<and> lp_messages l' = lp_messages l \<and> length rs = length calls"
proof -
  let ?cap = "cfg_capability (lp_config l)"
  obtain runs l1 where v: "visit E (ev_run_tools E calls ?cap) (did (Ran calls ?cap) l) = (runs, l1)" by fastforce
  have k: "kept (did (Ran calls ?cap) l) l1" by (rule still_kept[OF still_visit[OF v]])
  then have "sound E cfg l1" using ran_sound[OF assms(1,2)] sound_kept by blast
  then show ?thesis using assms(3) v k by (auto simp: execute_batch_def Let_def kept_def)
qed

definition called :: "('w, 'j, 'v, 'd) loop_env \<Rightarrow> 'v message list \<Rightarrow> 'v tool_call_message list \<Rightarrow> ('w, 'j, 'v, 'd) agent_loop \<Rightarrow> bool" where
  "called E M tcs l \<longleftrightarrow> lp_messages l = M \<and>
     (\<forall>tc \<in> set tcs. Journaled (tool_call_entry (ev_json E) tc) \<in> set (recent (lp_deeds l)))"

lemma stable_called [intro, simp]: "stable (called E M tcs)"
  by (auto simp: stable_def called_def kept_def)

lemma called_Nil [simp]: "called E M [] = conv M"
  by (simp add: called_def conv_def fun_eq_iff)

lemma called_emitted: "called E M tcs l \<Longrightarrow> called E M tcs (l\<lparr>lp_deeds := lp_deeds l @ map Emitted es\<rparr>)"
  using recent_emitted[of "lp_deeds l" es] by (auto simp: called_def)

lemma called_start: "called E M tcs l \<Longrightarrow> called E M tcs (emit_tool_start F tc l)"
  by (auto simp: called_def emit_tool_start_def)

lemma journal_call_triple:
  "triple (sound E cfg) (called E M tcs) (journal_tool_call E tc) (\<lambda>_. called E M (tcs @ [tc]))"
  unfolding journal_tool_call_def
proof (rule triple_seq[OF _ consume_triple])
  show "triple (sound E cfg) (called E M tcs) (append_kind E (tool_call_entry (ev_json E) tc)) (\<lambda>_. called E M (tcs @ [tc]))"
  proof (rule tripleI)
    fix l r l' assume s: "sound E cfg l" "called E M tcs l" "append_kind E (tool_call_entry (ev_json E) tc) l = (r, l')"
    have "at M (lp_deeds l) l" using s(2) by (simp add: at_def called_def)
    from tripleD[OF append_triple s(1) this s(3)] s(2)
    show "sound E cfg l' \<and> (\<forall>x. r = Inr x \<longrightarrow> called E M (tcs @ [tc]) l')" by (auto simp: at_def called_def)
  qed
qed simp

text \<open>After a decision to run, the call is cleared.\<close>

definition clear_to_run :: "('w, 'j, 'v, 'd) loop_env \<Rightarrow> agent_loop_config \<Rightarrow> 'v message list \<Rightarrow> 'v tool_call_message \<Rightarrow>
  ('w, 'j, 'v, 'd) agent_loop \<Rightarrow> bool" where
  "clear_to_run E cfg M tc l \<longleftrightarrow> lp_messages l = M \<and> called_and_cleared (rules_of E cfg) (recent (lp_deeds l)) tc"

lemma is_cancelled_kept: "is_cancelled E l = (b, l') \<Longrightarrow> kept l l'"
  by (rule still_kept[OF still_is_cancelled])

lemma hear_approval_sound:
  "hear_approval E i h l = (r, l') \<Longrightarrow> sound E cfg l \<Longrightarrow> called E M [tc] l \<Longrightarrow> tc_id tc = i \<Longrightarrow>
   sound E cfg l' \<and> (\<forall>d. r = Inr d \<longrightarrow> called E M [tc] l' \<and> (d = ApprovedCall \<longrightarrow> clear_to_run E cfg M tc l'))"
proof (induction E i h l arbitrary: r l' rule: hear_approval.induct)
  case (1 E i h l)
  obtain b l1 where c: "is_cancelled E l = (b, l1)" by fastforce
  have k: "kept l l1" by (rule is_cancelled_kept[OF c])
  have l1: "sound E cfg l1" "called E M [tc] l1"
    using 1 k sound_kept[OF k] stable_called[of E M "[tc]"] by (auto simp: stable_def)
  note run = "1.prems"(1)[unfolded hear_approval.simps[of E i h l] c]
  show ?case
  proof (cases b)
    case True
    then show ?thesis using run l1 by auto
  next
    case False
    show ?thesis
    proof (cases h)
      case (Hear resp rest)
      show ?thesis
      proof (cases "ap_tool_call_id resp \<noteq> i")
        case True
        have "hear_approval E i rest l1 = (r, l')" using run False Hear True by simp
        moreover have "b = False" using False by simp
        ultimately show ?thesis using "1.IH"[OF c[symmetric] _ Hear True _ l1 "1.prems"(4)] by blast
      next
        case same: False
        show ?thesis
        proof (cases "ap_approved resp")
          case True
          have "sound E cfg (did (Approved (ap_tool_call_id resp)) l1)" using l1(1) by (simp add: sound_def)
          moreover have "called E M [tc] (did (Approved (ap_tool_call_id resp)) l1)"
              "clear_to_run E cfg M tc (did (Approved (ap_tool_call_id resp)) l1)"
            using l1(2) "1.prems"(4) same by (auto simp: called_def clear_to_run_def called_and_cleared_def rules_of_def)
          ultimately show ?thesis using run False Hear same True by auto
        qed (use run False Hear same l1 in auto)
      qed
    qed (use run False l1 in auto)
  qed
qed

lemma approval_triple:
  "triple (sound E cfg) (called E M [tc]) (await_tool_approval E tc)
     (\<lambda>d l. called E M [tc] l \<and> (d = ApprovedCall \<longrightarrow> clear_to_run E cfg M tc l))"
proof (rule tripleI)
  fix l r l' assume s: "sound E cfg l" "called E M [tc] l" "await_tool_approval E tc l = (r, l')"
  show "sound E cfg l' \<and> (\<forall>d. r = Inr d \<longrightarrow> called E M [tc] l' \<and> (d = ApprovedCall \<longrightarrow> clear_to_run E cfg M tc l'))"
  proof (cases "\<not> requires_tool_approval E \<or> tc_name tc = REQUEST_INPUT_TOOL_NAME")
    case True
    then show ?thesis using s
      by (auto simp: await_tool_approval_def clear_to_run_def called_def called_and_cleared_def rules_of_def)
  next
    case False
    let ?e = "Emitted (EvApprovalRequired (tc_id tc) (tc_name tc)
                (safe_outer_tool_arguments (ev_json E) (tc_name tc) (tc_arguments tc)))"
    obtain h l1 where v: "visit E (ev_hear E tc) (did ?e l) = (h, l1)" by fastforce
    have k: "kept (did ?e l) l1" by (rule still_kept[OF still_visit[OF v]])
    have "sound E cfg (did ?e l)" "called E M [tc] (did ?e l)" using s(1,2) by (auto simp: sound_def called_def)
    then have "sound E cfg l1" "called E M [tc] l1"
      using sound_kept[OF k] stable_called[of E M "[tc]"] k by (auto simp: stable_def)
    moreover have "hear_approval E (tc_id tc) h l1 = (r, l')" using s(3) False v by (auto simp: await_tool_approval_def)
    ultimately show ?thesis using hear_approval_sound[of E "tc_id tc" h l1 r l'] by simp
  qed
qed

lemma take_result_triple: "stable P \<Longrightarrow> triple (sound E cfg) P (take_replay_tool_result E i n) (\<lambda>_. P)"
  by (rule triple_kept) (blast intro: kept_take_result)+

lemma clear_start: "clear_to_run E cfg M tc l \<Longrightarrow> clear_to_run E cfg M tc (emit_tool_start E tc l)"
  by (auto simp: clear_to_run_def called_and_cleared_def emit_tool_start_def)

lemma execute_and_finish:
  "triple (sound E cfg) (clear_to_run E cfg M tc)
     (\<lambda>l. case execute_tool E tc (emit_tool_start E tc l) of (res, l1) \<Rightarrow> finish_tool_call E tc res l1)
     (\<lambda>m l. answers tc m \<and> conv M l)"
proof (rule tripleI)
  fix l r l' assume s: "sound E cfg l" "clear_to_run E cfg M tc l"
    "(case execute_tool E tc (emit_tool_start E tc l) of (res, l1) \<Rightarrow> finish_tool_call E tc res l1) = (r, l')"
  obtain rs l1 where b: "execute_batch E [tc] (emit_tool_start E tc l) = (rs, l1)" by fastforce
  have "sound E cfg l1" "lp_messages l1 = M"
    using batch_sound[OF start_sound[OF s(1)] _ b] clear_start[OF s(2)] by (auto simp: clear_to_run_def)
  moreover have "finish_tool_call E tc (hd rs) l1 = (r, l')" using s(3) b by (simp add: execute_tool_def)
  ultimately show "sound E cfg l' \<and> (\<forall>m. r = Inr m \<longrightarrow> answers tc m \<and> conv M l')"
    using tripleD[OF finish_triple[of E cfg M tc "hd rs"], of l1 r l'] by (auto simp: conv_def)
qed

lemma called_conv: "called E M tcs l \<Longrightarrow> conv M l"
  by (simp add: called_def conv_def)

lemma decided_triple:
  "triple (sound E cfg) (\<lambda>l. called E M [tc] l \<and> (d = ApprovedCall \<longrightarrow> clear_to_run E cfg M tc l))
     (\<lambda>l. case d of
        ApprovedCall \<Rightarrow> (case execute_tool E tc (emit_tool_start E tc l) of (result, l1) \<Rightarrow> finish_tool_call E tc result l1)
      | DeniedCall reason \<Rightarrow> finish_tool_call E tc (approval_denied reason) l)
     (\<lambda>m l. answers tc m \<and> conv M l)"
proof (cases d)
  case ApprovedCall
  show ?thesis unfolding ApprovedCall approval_decision.case
    by (rule triple_pre[OF execute_and_finish]) simp
next
  case (DeniedCall reason)
  show ?thesis unfolding DeniedCall approval_decision.case
    by (rule triple_pre[OF finish_triple]) (simp add: called_conv)
qed

lemma replayed_triple:
  "triple (sound E cfg) (called E M [tc]) (\<lambda>l. finish_tool_call E tc res (emit_tool_start E tc l))
     (\<lambda>m l. answers tc m \<and> conv M l)"
  by (rule triple_adjust[OF finish_triple]) (use start_sound in \<open>auto simp: called_def conv_def emit_tool_start_def\<close>)

lemma dispatch_one_triple:
  "triple (sound E cfg) (conv M) (dispatch_one E tc) (\<lambda>m l. answers tc m \<and> conv M l)"
  unfolding dispatch_one_def
proof (rule triple_seq)
  show "triple (sound E cfg) (conv M) (journal_tool_call E tc) (\<lambda>_. called E M [tc])"
    using journal_call_triple[of E cfg M "[]" tc] by simp
next
  fix u :: unit
  show "triple (sound E cfg) (called E M [tc])
     (seq (take_replay_tool_result E (tc_id tc) (tc_name tc))
         (\<lambda>replayed. case replayed of
            Some (content, is_error, blocks) \<Rightarrow>
              (\<lambda>l. finish_tool_call E tc \<lparr>ter_content = content, ter_is_error = is_error, ter_cancelled = False,
                                          ter_provider_content = blocks\<rparr> (emit_tool_start E tc l))
          | None \<Rightarrow>
              seq (await_tool_approval E tc)
                (\<lambda>decision l. case decision of
                   ApprovedCall \<Rightarrow>
                     (case execute_tool E tc (emit_tool_start E tc l) of (result, l1) \<Rightarrow> finish_tool_call E tc result l1)
                 | DeniedCall reason \<Rightarrow> finish_tool_call E tc (approval_denied reason) l)))
     (\<lambda>m l. answers tc m \<and> conv M l)"
    by (rule triple_seq[OF take_result_triple[OF stable_called]])
      (auto split: option.split intro: replayed_triple triple_seq[OF approval_triple decided_triple])
qed

lemma triple_fact: "(A \<Longrightarrow> triple I P f Q) \<Longrightarrow> triple I (\<lambda>l. A \<and> P l) f Q"
  unfolding triple_def by blast

lemma dispatch_each_seq:
  "dispatch_each E (tc # tcs) = seq (dispatch_one E tc) (\<lambda>m. seq (dispatch_each E tcs) (\<lambda>ms l1. (Ok (m # ms), l1)))"
  "finish_all E ((tc, result) # rest) = seq (finish_tool_call E tc result) (\<lambda>m. seq (finish_all E rest) (\<lambda>ms l1. (Ok (m # ms), l1)))"
  "start_parallel E (tc # tcs) = seq (journal_tool_call E tc) (\<lambda>_ l1. start_parallel E tcs (emit_tool_start E tc l1))"
  by (rule ext, simp)+

lemma collected_triple:
  assumes "triple I (conv M) f (\<lambda>m l. answers tc m \<and> conv M l)"
    "triple I (conv M) g (\<lambda>ms l. list_all2 answers tcs ms \<and> conv M l)"
  shows "triple I (conv M) (seq f (\<lambda>m. seq g (\<lambda>ms l1. (Ok (m # ms), l1)))) (\<lambda>ms l. list_all2 answers (tc # tcs) ms \<and> conv M l)"
  by (rule triple_seq[OF assms(1)], rule triple_fact, rule triple_seq[OF assms(2)], rule triple_return) simp

lemma dispatch_each_triple:
  "triple (sound E cfg) (conv M) (dispatch_each E tcs) (\<lambda>ms l. list_all2 answers tcs ms \<and> conv M l)"
proof (induction tcs)
  case Nil
  show ?case unfolding dispatch_each.simps(1)[abs_def] by (rule triple_return) simp
next
  case (Cons tc tcs)
  show ?case unfolding dispatch_each_seq by (rule collected_triple[OF dispatch_one_triple Cons.IH])
qed

lemma finish_all_triple:
  "triple (sound E cfg) (conv M) (finish_all E crs) (\<lambda>ms l. list_all2 answers (map fst crs) ms \<and> conv M l)"
proof (induction crs)
  case Nil
  show ?case unfolding finish_all.simps(1)[abs_def] by (rule triple_return) simp
next
  case (Cons cr crs)
  obtain tc r where cr: "cr = (tc, r)" by (cases cr)
  show ?case unfolding cr dispatch_each_seq list.map fst_conv by (rule collected_triple[OF finish_triple Cons.IH])
qed

lemma start_parallel_triple:
  "triple (sound E cfg) (called E M ds) (start_parallel E tcs) (\<lambda>_. called E M (ds @ tcs))"
proof (induction tcs arbitrary: ds)
  case Nil
  show ?case unfolding start_parallel.simps(1)[abs_def] by (rule triple_return) simp
next
  case (Cons tc tcs)
  show ?case unfolding dispatch_each_seq
  proof (rule triple_seq[OF journal_call_triple])
    show "triple (sound E cfg) (called E M (ds @ [tc])) (\<lambda>l1. start_parallel E tcs (emit_tool_start E tc l1))
        (\<lambda>_. called E M (ds @ tc # tcs))"
      using triple_adjust[OF Cons.IH[of "ds @ [tc]"], of "called E M (ds @ [tc])" "emit_tool_start E tc"]
        start_sound called_start by fastforce
  qed
qed

lemma parallel_finish_triple:
  assumes "\<not> requires_tool_approval E"
  shows "triple (sound E cfg) (called E M calls)
     (\<lambda>l1. case execute_batch E calls l1 of (results, l2) \<Rightarrow> finish_all E (zip calls results) l2)
     (\<lambda>ms l. list_all2 answers calls ms \<and> conv M l)"
proof (rule tripleI)
  fix l r l' assume s: "sound E cfg l" "called E M calls l"
    "(case execute_batch E calls l of (results, l2) \<Rightarrow> finish_all E (zip calls results) l2) = (r, l')"
  obtain rs l2 where b: "execute_batch E calls l = (rs, l2)" by fastforce
  have "\<forall>tc \<in> set calls. called_and_cleared (rules_of E cfg) (recent (lp_deeds l)) tc"
    using s(2) assms by (simp add: called_def called_and_cleared_def rules_of_def)
  from batch_sound[OF s(1) this b] s(2)
  have l2: "sound E cfg l2" "conv M l2" "length rs = length calls" by (auto simp: conv_def called_def)
  have "finish_all E (zip calls rs) l2 = (r, l')" using s(3) b by simp
  from tripleD[OF finish_all_triple l2(1,2) this] l2(3)
  show "sound E cfg l' \<and> (\<forall>ms. r = Inr ms \<longrightarrow> list_all2 answers calls ms \<and> conv M l')" by simp
qed

lemma dispatch_tool_calls_triple:
  "triple (sound E cfg) (conv M) (dispatch_tool_calls E calls) (\<lambda>ms l. list_all2 answers calls ms \<and> conv M l)"
proof (rule tripleI)
  fix l r l' assume s: "sound E cfg l" "conv M l" "dispatch_tool_calls E calls l = (r, l')"
  show "sound E cfg l' \<and> (\<forall>ms. r = Inr ms \<longrightarrow> list_all2 answers calls ms \<and> conv M l')"
  proof (cases "\<not> requires_tool_approval E \<and> \<not> has_replay_entry l \<and> supports_parallel_batch E calls")
    case True
    have "triple (sound E cfg) (conv M)
       (seq (start_parallel E calls)
          (\<lambda>_ l1. case execute_batch E calls l1 of (results, l2) \<Rightarrow> finish_all E (zip calls results) l2))
       (\<lambda>ms l. list_all2 answers calls ms \<and> conv M l)"
      using triple_seq[OF start_parallel_triple[of E cfg M "[]" calls] parallel_finish_triple] True by simp
    from tripleD[OF this s(1,2)] s(3) True show ?thesis by (simp add: dispatch_tool_calls_def)
  next
    case False
    then have "dispatch_each E calls l = (r, l')" using s(3) by (auto simp: dispatch_tool_calls_def)
    from tripleD[OF dispatch_each_triple s(1,2) this] show ?thesis .
  qed
qed

section \<open>A turn\<close>

definition whole :: "('w, 'j, 'v, 'd) agent_loop \<Rightarrow> bool" where
  "whole l \<longleftrightarrow> exchanges_complete (lp_messages l)"

lemma exch_answers: "list_all2 answers tcs ms \<Longrightarrow> exch (map tc_id tcs) ms = Some []"
  by (induction rule: list_all2_induct) (auto simp: answers_def)

lemma complete_reply:
  assumes "exchanges_complete M" "msg_role m = Assistant" "list_all2 answers (msg_tool_calls m) rs"
  shows "exchanges_complete (M @ m # rs)"
  using assms exch_answers[OF assms(3)]
  by (simp add: complete_append exchanges_complete_def exch_append)

lemma complete_users: "exchanges_complete (map user_message us)"
  by (induction us) (auto simp: exchanges_complete_def user_message_def)

lemma recorded_reply:
  assumes "take_replay_entry l = (Inr k, l')" "assistant_log (lp_log l)" "replay_llm_response dbg k = Inr r"
  shows "assistant_reply r"
proof -
  obtain it where it: "lp_replay l = Some it" "k = je_entry (ri_entries it ! ri_cursor it)" "ri_cursor it < length (ri_entries it)"
    using assms(1) by (auto simp: take_replay_entry_def take_recorded_def next_recorded_def split: option.splits if_splits prod.splits)
  have "ri_entries it ! ri_cursor it \<in> set (lp_log l)" using it(1,3) by (simp add: lp_log_def)
  then have "k = LlmResponse m u f (Some x) \<Longrightarrow> msg_role x = Assistant" for m u f x
    using assms(2) it(2) unfolding assistant_log_def by metis
  then show ?thesis using assms(3)
    by (auto simp: replay_llm_response_def assistant_reply_def empty_assistant_def
        split: journal_entry_kind.splits) (case_tac x34; simp)
qed

lemma kept_unread: "lp_messages (l\<lparr>lp_budget := b, lp_deeds := ds\<rparr>) = lp_messages l"
  by simp

definition reply_ok :: "'v provider_outcome \<Rightarrow> bool" where
  "reply_ok oc \<longleftrightarrow> (\<forall>r s. oc = Some (r, s) \<longrightarrow> assistant_reply r)"

lemma call_provider_triple:
  assumes "proper_env E" "exchanges_complete step" "suffix [Journaled (LlmRequest m (length step))] D"
  shows "triple (sound E cfg) (at M D) (call_provider E step) (\<lambda>oc l. reply_ok oc \<and> conv M l)"
proof (rule tripleI)
  fix l r l' assume s: "sound E cfg l" "at M D l" "call_provider E step l = (r, l')"
  let ?b = "(lp_budget l)\<lparr>max_sub_agents := 0\<rparr>"
  obtain reply l1 where v: "visit E (ev_chat E step ?b) (did (Asked step) l) = (reply, l1)" by fastforce
  have "sound E cfg (did (Asked step) l)" using s(1,2) assms(2,3) by (auto simp: sound_def at_def)
  then have l1: "sound E cfg l1" "lp_messages l1 = M"
    using still_kept[OF still_visit[OF v]] sound_kept[of "did (Asked step) l" l1] s(2) by (auto simp: kept_def at_def)
  obtain h where "reply = fst (ev_chat E step ?b h)"
    using v unfolding visit_def by (auto split: prod.splits) (metis fst_conv)
  then have ok: "cr_result reply = Inr x \<Longrightarrow> assistant_reply x" for x
    using assms(1) unfolding proper_env_def by blast
  define l2 where "l2 = l1\<lparr>lp_budget := merge_provider_budget_delta (ev_dec E) (lp_budget l) (cr_budget reply) (lp_budget l1),
    lp_deeds := lp_deeds l1 @ (if ev_streaming E then map Emitted (stream_all (cr_stream reply) stream_sink_new) else [])\<rparr>"
  have l2: "sound E cfg l2" "conv M l2"
    using l1 emitted_sound[OF l1(1)] by (auto simp: l2_def conv_def sound_def)
  obtain c l3 where c: "is_cancelled E l2 = (c, l3)" by fastforce
  have l3: "sound E cfg l3" "conv M l3"
    using is_cancelled_kept[OF c] l2 sound_kept[of l2 l3] by (auto simp: kept_def conv_def)
  have run: "(if ev_streaming E
      then if ev_has_token E \<and> cr_interrupted reply then (Ok None, l2)
           else (case cr_result reply of
                   Inl e \<Rightarrow> (Err (ProviderErr e), l2)
                 | Inr response \<Rightarrow> (Ok (if c then None else Some (response, True)), l3))
      else (map_err ProviderErr (map_sum id (\<lambda>response. Some (response, False)) (cr_result reply)), l2)) = (r, l')"
    using s(3) unfolding call_provider_def Let_def v prod.case l2_def[symmetric] c .
  show "sound E cfg l' \<and> (\<forall>x. r = Inr x \<longrightarrow> reply_ok x \<and> conv M l')"
    using run l2 l3 ok by (cases "cr_result reply") (auto simp: reply_ok_def split: if_splits)
qed

lemma at_conv: "at M D l \<Longrightarrow> conv M l"
  by (simp add: at_def conv_def)

lemma obtain_response_triple:
  assumes "proper_env E" "exchanges_complete step" "suffix [Journaled (LlmRequest m (length step))] D"
  shows "triple (sound E cfg) (at M D) (obtain_response E step) (\<lambda>oc l. reply_ok oc \<and> conv M l)"
proof (rule tripleI)
  fix l r l' assume s: "sound E cfg l" "at M D l" "obtain_response E step l = (r, l')"
  let ?goal = "sound E cfg l' \<and> (\<forall>oc. r = Inr oc \<longrightarrow> reply_ok oc \<and> conv M l')"
  note kill = kill_triple[OF stable_conv, of E cfg M]
  show ?goal
  proof (cases "has_replay_entry l")
    case True
    let ?next = "\<lambda>kind. seq (\<lambda>l1. (map_err JournalErr (replay_llm_response (ev_debug E) kind), l1))
               (\<lambda>response. seq (check_pending_spawn_hook_kill E) (\<lambda>_ l1. (Ok (Some (response, False)), l1)))"
    have "seq take_replay_entry ?next l = (r, l')" using s(3) True by (simp add: obtain_response_def)
    then show ?goal
    proof (cases rule: seq_cases)
      case (1 e)
      then show ?thesis using kept_take_entry[OF 1(1)] s(1) sound_kept[of l l'] by auto
    next
      case (2 k l1)
      have l1: "sound E cfg l1" "conv M l1"
        using kept_take_entry[OF 2(1)] s(1,2) sound_kept[of l l1] by (auto simp: kept_def at_def conv_def)
      show ?thesis
      proof (cases "replay_llm_response (ev_debug E) k")
        case (Inl e)
        then show ?thesis using 2(2) l1 by (auto simp: seq_def)
      next
        case (Inr x)
        have "reply_ok (Some (x, False))"
          using recorded_reply[OF 2(1) _ Inr] s(1) by (simp add: reply_ok_def sound_def)
        then have "triple (sound E cfg) (conv M) (seq (check_pending_spawn_hook_kill E) (\<lambda>_ l1. (Ok (Some (x, False)), l1)))
           (\<lambda>oc l. reply_ok oc \<and> conv M l)"
          by (intro triple_seq[OF kill] triple_return) simp
        moreover have "seq (check_pending_spawn_hook_kill E) (\<lambda>_ l1. (Ok (Some (x, False)), l1)) l1 = (r, l')"
          using 2(2) Inr by (simp add: seq_def)
        ultimately show ?thesis using l1 tripleD by fast
      qed
    qed
  next
    case False
    obtain b l1 where c: "is_cancelled E l = (b, l1)" by fastforce
    have l1: "sound E cfg l1" "at M D l1"
      using is_cancelled_kept[OF c] s(1,2) sound_kept[of l l1] by (auto simp: kept_def at_def)
    show ?goal
    proof (cases b)
      case True
      then show ?thesis using s(3) c False l1 by (auto simp: obtain_response_def reply_ok_def at_conv)
    next
      case live: False
      obtain oc l2 where p: "call_provider E step l1 = (oc, l2)" by fastforce
      have l2: "sound E cfg l2" "\<And>x. oc = Inr x \<Longrightarrow> reply_ok x \<and> conv M l2"
        using tripleD[OF call_provider_triple[OF assms] l1 p] by auto
      have "seq (check_pending_spawn_hook_kill E) (\<lambda>_ l3. (oc, l3)) l2 = (r, l')"
        using s(3) False c live p by (simp add: obtain_response_def)
      then show ?thesis
      proof (cases rule: seq_cases)
        case (1 e)
        then show ?thesis using still_kept[OF still_check_kill[OF 1(1)]] l2(1) sound_kept[of l2 l'] by simp
      next
        case (2 u l3)
        then show ?thesis using still_kept[OF still_check_kill[OF 2(1)]] l2 sound_kept[of l2 l3]
          by (auto simp: kept_def conv_def)
      qed
    qed
  qed
qed

lemma accept_response_triple:
  "triple (sound E cfg) (conv M) (accept_response E before x streamed) (\<lambda>_. conv (M @ [pr_message x]))"
  unfolding accept_response_def
proof (rule triple_seq)
  let ?book = "\<lambda>l1. let l2 = charge_response E before x l1 in (Ok (), l2\<lparr>lp_messages := lp_messages l2 @ [pr_message x]\<rparr>)"
  have book: "triple (sound E cfg) (conv M) ?book (\<lambda>_. conv (M @ [pr_message x]))"
  proof (rule tripleI)
    fix l r l' assume s: "sound E cfg l" "conv M l" "?book l = (r, l')"
    have "kept l (charge_response E before x l)"
      unfolding charge_response_def by (rule kept_trans[OF _ kept_merge]) (simp add: kept_def)
    then show "sound E cfg l' \<and> (\<forall>u. r = Inr u \<longrightarrow> conv (M @ [pr_message x]) l')"
      using s by (auto simp: Let_def kept_def sound_def conv_def)
  qed
  show "triple (sound E cfg) (conv M) (after_llm E x) (\<lambda>_. conv M)"
    by (rule triple_at_conv[OF triple_post[OF after_llm_triple]]) (rule at_conv)
  have append: "triple (sound E cfg) (conv M) (append_kind E k) (\<lambda>_. conv M)" for k
    by (rule append_conv) (rule at_conv)
  show "triple (sound E cfg) (conv M)
     (\<lambda>l. seq (append_kind E (LlmResponse (pr_model x) (pr_token_usage x) (debug_finish_reason (pr_finish_reason x))
                (Some (pr_message x)))) (\<lambda>_. ?book)
           (if \<not> streamed \<and> msg_content (pr_message x) \<noteq> [] then did (Emitted (EvToken (msg_content (pr_message x)))) l else l))
     (\<lambda>_. conv (M @ [pr_message x]))"
    by (rule triple_adjust[OF triple_seq[OF append book]])
      (use emitted_sound[of E cfg _ "[EvToken (msg_content (pr_message x))]"] in \<open>auto simp: conv_def\<close>)
qed

lemma sound_complete: "sound E cfg l \<Longrightarrow> sound E cfg (turn_complete b l) \<and> lp_messages (turn_complete b l) = lp_messages l"
  using emitted_sound[of E cfg l "[EvTurnComplete]"] by (simp add: turn_complete_def)

lemma turn_end_triple:
  "(\<And>l. P l \<Longrightarrow> whole l) \<Longrightarrow> triple (sound E cfg) P (\<lambda>l. (Ok te, turn_complete b l)) (\<lambda>_. whole)"
  by (intro tripleI) (use sound_complete[of E cfg _ b] in \<open>auto simp: whole_def\<close>)

lemma finish_turn_triple:
  assumes "reply_ok (Some (x, s))" "exchanges_complete M"
  shows "triple (sound E cfg) (conv (M @ [pr_message x])) (finish_turn E b x) (\<lambda>_. whole)"
proof (cases "msg_tool_calls (pr_message x) = []")
  case True
  have a: "msg_role (pr_message x) = Assistant" using assms(1) by (simp add: reply_ok_def assistant_reply_def)
  have "exchanges_complete (M @ [pr_message x])" using complete_reply[OF assms(2) a, of "[]"] True by simp
  then have "triple (sound E cfg) (conv (M @ [pr_message x]))
     (seq (check_pending_spawn_hook_kill E)
             (\<lambda>_ l1. (Ok \<lparr>te_result = TurnDone (pr_message x) (pr_finish_reason x), te_usage = pr_token_usage x,
                          te_exhausted = None\<rparr>, turn_complete b l1))) (\<lambda>_. whole)"
    by (intro triple_seq[OF kill_triple[OF stable_conv]] turn_end_triple) (simp add: conv_def whole_def)
  then show ?thesis using True by (simp add: finish_turn_def[abs_def])
next
  case False
  let ?fin = "\<lambda>results. seq (check_pending_spawn_hook_kill E)
                 (\<lambda>_ l2. (Ok \<lparr>te_result = ToolCallsProcessed (pr_message x) results, te_usage = pr_token_usage x,
                              te_exhausted = None\<rparr>, turn_complete b l2))"
  have a: "msg_role (pr_message x) = Assistant" using assms(1) by (simp add: reply_ok_def assistant_reply_def)
  have e: "triple (sound E cfg) (conv (M @ [pr_message x]))
      (seq (check_pending_spawn_hook_kill E) (\<lambda>_ l1. ?fin rs (l1\<lparr>lp_messages := lp_messages l1 @ rs\<rparr>))) (\<lambda>_. whole)"
    if "list_all2 answers (msg_tool_calls (pr_message x)) rs" for rs
  proof (rule triple_seq[OF kill_triple[OF stable_conv]])
    have "exchanges_complete (M @ pr_message x # rs)" by (rule complete_reply[OF assms(2) a that])
    then have "triple (sound E cfg) (conv (M @ pr_message x # rs)) (?fin rs) (\<lambda>_. whole)"
      by (intro triple_seq[OF kill_triple[OF stable_conv]] turn_end_triple) (simp add: conv_def whole_def)
    then show "triple (sound E cfg) (conv (M @ [pr_message x])) (\<lambda>l1. ?fin rs (l1\<lparr>lp_messages := lp_messages l1 @ rs\<rparr>)) (\<lambda>_. whole)"
      by (rule triple_adjust) (simp add: conv_def sound_def)
  qed
  have "triple (sound E cfg) (conv (M @ [pr_message x]))
     (seq (dispatch_tool_calls E (msg_tool_calls (pr_message x)))
        (\<lambda>rs. seq (check_pending_spawn_hook_kill E) (\<lambda>_ l1. ?fin rs (l1\<lparr>lp_messages := lp_messages l1 @ rs\<rparr>)))) (\<lambda>_. whole)"
    by (rule triple_seq[OF dispatch_tool_calls_triple], rule triple_fact, rule e)
  then show ?thesis using False by (simp add: finish_turn_def[abs_def])
qed

lemma answered_triple:
  assumes "exchanges_complete M"
  shows "triple (sound E cfg) (\<lambda>l. reply_ok oc \<and> conv M l)
     (\<lambda>l. case oc of
        None \<Rightarrow> (Ok cancelled_execution, l)
      | Some (response, streamed) \<Rightarrow>
          (let r = enforce_tool_calls_require_tool_use_finish response
           in seq (accept_response E before r streamed) (\<lambda>_. finish_turn E b r) l)) (\<lambda>_. whole)"
proof (rule triple_fact, cases oc)
  case None
  show "triple (sound E cfg) (conv M) (\<lambda>l. case oc of None \<Rightarrow> (Ok cancelled_execution, l)
      | Some (response, streamed) \<Rightarrow>
          (let r = enforce_tool_calls_require_tool_use_finish response
           in seq (accept_response E before r streamed) (\<lambda>_. finish_turn E b r) l)) (\<lambda>_. whole)"
    unfolding None option.case by (rule triple_return) (use assms in \<open>simp add: conv_def whole_def\<close>)
next
  case (Some y)
  assume ok: "reply_ok oc"
  obtain x s where y: "oc = Some (x, s)" using Some by (cases y) auto
  have "reply_ok (Some (enforce_tool_calls_require_tool_use_finish x, s))"
    using ok y by (simp add: reply_ok_def assistant_reply_def enforce_tool_calls_require_tool_use_finish_def)
  from triple_seq[OF accept_response_triple finish_turn_triple[OF this assms]]
  show "triple (sound E cfg) (conv M) (\<lambda>l. case oc of None \<Rightarrow> (Ok cancelled_execution, l)
      | Some (response, streamed) \<Rightarrow>
          (let r = enforce_tool_calls_require_tool_use_finish response
           in seq (accept_response E before r streamed) (\<lambda>_. finish_turn E b r) l)) (\<lambda>_. whole)"
    by (simp add: y Let_def)
qed

lemma model_step_triple:
  fixes E :: "('w, 'j, 'v, 'd::linorder) loop_env"
  assumes "proper_env E"
  shows "triple (sound E cfg) whole (model_step E b) (\<lambda>_. whole)"
proof (rule tripleI)
  fix l r l' assume s: "sound E cfg l" "whole l" "model_step E b l = (r, l')"
  let ?M = "lp_messages l"
  define step where "step = ev_compact E ?M (compaction_token_limit (max_tokens (lp_budget l)) (used_tokens (lp_budget l))
    (unwrap_or (cfg_context_token_limit (lp_config l)) (default_context_limit (cfg_model (lp_config l)))))"
  define req :: "'v journal_entry_kind" where "req = LlmRequest (cfg_model (lp_config l)) (length step)"
  have c: "exchanges_complete step" "exchanges_complete ?M"
    using assms s(2) compaction.compact_complete[of "ev_compact E" ?M] by (auto simp: proper_env_def whole_def step_def)
  let ?D = "lp_deeds l @ [Journaled req]"
  have req: "suffix [Journaled (LlmRequest (cfg_model (lp_config l)) (length step))] ?D" by (simp add: req_def suffix_def)
  have "triple (sound E cfg) (at ?M (lp_deeds l))
     (seq (append_kind E req)
           (\<lambda>_. seq (consume_replay_entry E req)
             (\<lambda>_. seq (before_llm E (length step))
               (\<lambda>_. seq (obtain_response E step)
                 (\<lambda>outcome l1. case outcome of
                    None \<Rightarrow> (Ok cancelled_execution, l1)
                  | Some (response, streamed) \<Rightarrow>
                      (let r = enforce_tool_calls_require_tool_use_finish response
                       in seq (accept_response E (lp_budget l) r streamed) (\<lambda>_. finish_turn E b r) l1)))))) (\<lambda>_. whole)"
    by (rule triple_seq[OF append_triple triple_seq[OF consume_triple[OF stable_at] triple_seq[OF before_llm_triple
          triple_seq[OF obtain_response_triple[OF assms c(1) req] answered_triple[OF c(2)]]]]])
  from tripleD[OF this s(1)] s(3)
  show "sound E cfg l' \<and> (\<forall>x. r = Inr x \<longrightarrow> whole l')"
    by (simp add: at_def model_step_def Let_def step_def[symmetric] req_def)
qed

lemma stable_whole [intro, simp]: "stable whole"
  by (simp add: stable_def whole_def kept_def)

lemma append_whole: "triple (sound E cfg) whole (append_kind E k) (\<lambda>_. whole)"
proof (rule tripleI)
  fix l r l' assume s: "sound E cfg l" "whole l" "append_kind E k l = (r, l')"
  from tripleD[OF append_triple s(1) _ s(3), of "lp_messages l" "lp_deeds l"] s(2)
  show "sound E cfg l' \<and> (\<forall>x. r = Inr x \<longrightarrow> whole l')" by (auto simp: at_def whole_def)
qed

lemma drain_sound:
  "sound E cfg l \<Longrightarrow> whole l \<Longrightarrow> sound E cfg (drain_input_queue E l) \<and> whole (drain_input_queue E l)"
  using kept_drain[of l E] by (auto simp: sound_def whole_def kept_def intro!: complete_append complete_users)

lemma execute_turn_triple:
  assumes "proper_env E"
  shows "triple (sound E cfg) whole (execute_turn E b) (\<lambda>_. whole)"
  unfolding execute_turn_def
proof (rule triple_seq[OF kill_triple[OF stable_whole]], rule tripleI)
  fix u :: unit and l0 r l'
  let ?cont = "\<lambda>l. let l1 = refresh_budget_from_mirror E (drain_input_queue E l)
             in case check_budget (dec_show (ev_dec E)) ((lp_budget l1)\<lparr>max_sub_agents := 0\<rparr>) of
                  Inl ex \<Rightarrow> (Ok \<lparr>te_result = TurnBudgetExhausted, te_usage = usage_zero, te_exhausted = Some ex\<rparr>, l1)
                | Inr _ \<Rightarrow>
                    seq (append_kind E TurnStart)
                      (\<lambda>_. seq (consume_replay_entry E TurnStart) (\<lambda>_. model_step E b)) l1"
  assume s: "sound E cfg l0" "whole l0"
    "(case is_cancelled E l0 of (True, l) \<Rightarrow> (Ok cancelled_execution, l) | (False, l) \<Rightarrow> ?cont l) = (r, l')"
  obtain c l where c: "is_cancelled E l0 = (c, l)" by fastforce
  have l: "sound E cfg l" "whole l"
    using is_cancelled_kept[OF c] s(1,2) sound_kept[of l0 l] by (auto simp: kept_def whole_def)
  define l1 where "l1 = refresh_budget_from_mirror E (drain_input_queue E l)"
  have l1: "sound E cfg l1" "whole l1"
    using drain_sound[OF l] kept_refresh[of "drain_input_queue E l" E] sound_kept[of "drain_input_queue E l" l1]
    by (auto simp: l1_def kept_def whole_def)
  have live: "triple (sound E cfg) whole (seq (append_kind E TurnStart)
      (\<lambda>_. seq (consume_replay_entry E TurnStart) (\<lambda>_. model_step E b))) (\<lambda>_. whole)"
    by (rule triple_seq[OF append_whole triple_seq[OF consume_triple[OF stable_whole] model_step_triple[OF assms]]])
  show "sound E cfg l' \<and> (\<forall>x. r = Inr x \<longrightarrow> whole l')"
    using s(3) l l1 tripleD[OF live l1]
    by (auto simp: c Let_def l1_def[symmetric] split: if_splits sum.splits bool.splits)
qed

section \<open>A run\<close>

fun policy_kill :: "exit_reason \<Rightarrow> bool" where
  "policy_kill (ExPolicyKill _ _) = True"
| "policy_kill _ = False"

lemma output_messages [simp]:
  "lo_messages (loop_output q u l) = lp_messages l" "lo_exit_reason (loop_output q u l) = q"
  by (simp_all add: loop_output_def)

definition ended :: "('v, 'd) agent_loop_output \<Rightarrow> ('w, 'j, 'v, 'd) agent_loop \<Rightarrow> bool" where
  "ended out l \<longleftrightarrow> policy_kill (lo_exit_reason out) \<or> exchanges_complete (lo_messages out)"

lemma run_turns_triple:
  assumes "proper_env E"
  shows "triple (sound E cfg) whole (run_turns E n usage) ended"
proof (induction n arbitrary: usage)
  case 0
  show ?case by (rule tripleI) (auto simp: ended_def whole_def)
next
  case (Suc n)
  show ?case
  proof (rule tripleI)
    fix l r l' assume s: "sound E cfg l" "whole l" "run_turns E (Suc n) usage l = (r, l')"
    obtain t l1 where t: "execute_turn E True l = (t, l1)" by fastforce
    note turn = tripleD[OF execute_turn_triple[OF assms] s(1,2) t]
    show "sound E cfg l' \<and> (\<forall>out. r = Inr out \<longrightarrow> ended out l')"
    proof (cases t)
      case (Inl e)
      then show ?thesis using s(3) t turn by (cases e) (auto simp: ended_def)
    next
      case (Inr te)
      then have l1: "sound E cfg l1" "whole l1" using turn by auto
      show ?thesis using s(3) t Inr l1 tripleD[OF Suc.IH l1]
        by (cases "te_result te")
          (auto simp: ended_def whole_def Let_def split: option.splits if_splits)
    qed
  qed
qed

end
