(* ===== verification/Agent_Safety.thy ===== *)
theory Agent_Safety
  imports Agent_Order
begin

text \<open>
  The order of the effects of a whole run, from the construction of the loop to its exit, with the two
  compaction strategies of the code, and a small live run that asks, runs a tool with approval and ends.
\<close>

section \<open>From construction to exit\<close>

definition provider_contract :: "('w, 'j, 'v, 'd) loop_env \<Rightarrow> bool" where
  "provider_contract E \<longleftrightarrow> (\<forall>ms b h r. cr_result (fst (ev_chat E ms b h)) = Inr r \<longrightarrow> msg_role (pr_message r) = Assistant)"

definition checkpoint_contract :: "('w, 'j, 'v, 'd) loop_env \<Rightarrow> bool" where
  "checkpoint_contract E \<longleftrightarrow> (\<forall>data cp. ev_checkpoint E data = Some cp \<longrightarrow> exchanges_complete (cp_messages cp))"

definition compacts :: "('w, 'j, 'v, 'd) loop_env \<Rightarrow> bool" where
  "compacts E \<longleftrightarrow> (\<exists>T w. ev_compact E = (\<lambda>ms limit. sliding_compact T w ms (unat limit))) \<or>
     (\<exists>T s. ev_compact E = (\<lambda>ms limit. masking_compact T s ms (unat limit)))"

lemma proper_of_code:
  assumes "compacts E" "provider_contract E" "checkpoint_contract E"
  shows "proper_env E"
proof -
  have "compaction (ev_compact E)"
    using assms(1) sliding.compaction_axioms masking.compaction_axioms unfolding compacts_def by force
  then show ?thesis using assms(2,3)
    unfolding proper_env_def provider_contract_def checkpoint_contract_def assistant_reply_def by blast
qed

lemma latest_read:
  assumes "latest_checkpoint read found es = Some cp" "\<And>data c. read data = Some c \<Longrightarrow> P c"
    "\<And>c. found = Some c \<Longrightarrow> P c"
  shows "P cp"
  using assms(1,3)
proof (induction es arbitrary: found)
  case (Cons e es)
  show ?case
  proof (rule Cons.IH[OF Cons.prems(1)[unfolded latest_checkpoint.simps]])
    fix c assume c: "(case je_entry e of Checkpoint data \<Rightarrow> or_else (read data) found | _ \<Rightarrow> found) = Some c"
    then show "P c" using assms(2) Cons.prems(2)
      by (cases "je_entry e"; cases found) (auto elim!: or_else.elims)
  qed
qed auto

lemma kept_replace: "kept l (replace_budget_mirror E l)"
  unfolding replace_budget_mirror_def
  by (auto intro: kept_trans[OF still_kept[OF still_visit_snd] kept_sync])

lemma safe_kept: "kept l l' \<Longrightarrow> sound E cfg l \<and> whole l \<Longrightarrow> sound E cfg l' \<and> whole l'"
  using sound_kept[of l l' E cfg] by (simp add: whole_def kept_def)

lemma restore_sound:
  assumes "sound E cfg l" "whole l" "exchanges_complete (cp_messages cp)"
  shows "sound E cfg (restore_checkpoint E cp l) \<and> whole (restore_checkpoint E cp l)"
proof -
  define l1 where "l1 = replace_budget_mirror E (l\<lparr>lp_budget := cp_budget_snapshot cp\<rparr>)"
  define l2 where "l2 = (if cp_messages cp \<noteq> [] then l1\<lparr>lp_messages := cp_messages cp\<rparr> else l1)"
  have "kept l l1" using kept_replace[of "l\<lparr>lp_budget := cp_budget_snapshot cp\<rparr>" E] by (simp add: l1_def kept_def)
  then have l2: "sound E cfg l2 \<and> whole l2" using assms by (auto simp: l2_def sound_def whole_def kept_def)
  have "restore_checkpoint E cp l = (case (cp_vfs_snapshot cp, ev_restore_vfs E) of
           (Some data, Some restore) \<Rightarrow> snd (visit E (\<lambda>h. ((), restore data h)) l2)
         | _ \<Rightarrow> l2)"
    unfolding restore_checkpoint_def Let_def l1_def l2_def ..
  then show ?thesis using l2 by (auto split: option.split intro: conjunct1[OF safe_kept] conjunct2[OF safe_kept] still_kept[OF still_visit_snd])
qed

lemma open_sound:
  assumes "proper_env E" "sound E cfg l"
  shows "sound E cfg (open_conversation E task l) \<and> whole (open_conversation E task l)"
proof -
  let ?l1 = "l\<lparr>lp_messages := [system_message (cfg_system_prompt (lp_config l)), user_message task]\<rparr>"
  have l1: "sound E cfg ?l1" "whole ?l1"
    using assms(2) by (simp_all add: sound_def whole_def exchanges_complete_def system_message_def user_message_def)
  have "exchanges_complete (cp_messages cp)" if "latest_checkpoint (ev_checkpoint E) None es = Some cp" for es cp
    by (rule latest_read[OF that]) (use assms(1) in \<open>auto simp: proper_env_def\<close>)
  then show ?thesis using l1 restore_sound[OF l1] unfolding open_conversation_def Let_def by (auto split: option.split)
qed

lemma run_loop_triple:
  assumes "proper_env E"
  shows "triple (sound E cfg) (\<lambda>_. True) (run_loop E task) ended"
proof (rule tripleI)
  fix l r l' assume s: "sound E cfg l" "run_loop E task l = (r, l')"
  show "sound E cfg l' \<and> (\<forall>out. r = Inr out \<longrightarrow> ended out l')"
    using s tripleD[OF run_turns_triple[OF assms] conjunct1[OF open_sound[OF assms s(1)]] conjunct2[OF open_sound[OF assms s(1)]]]
    by (auto simp: run_loop_def split: sum.splits)
qed

lemma new_sound:
  "list_all (\<lambda>e. \<forall>m u f x. je_entry e = LlmResponse m u f (Some x) \<longrightarrow> msg_role x = Assistant) (unwrap_or recorded []) \<Longrightarrow>
   sound E cfg (agent_loop_new E cfg b recorded h)"
  by (cases recorded) (auto simp: sound_def agent_loop_new_def lp_log_def replay_new_def assistant_log_def list_all_iff)

section \<open>A small run\<close>

definition small_call :: "string tool_call_message" where
  "small_call = \<lparr>tc_id = ''c1'', tc_name = ''ls'', tc_arguments = ''{}''\<rparr>"

definition small_reply :: "string tool_call_message list \<Rightarrow> string \<Rightarrow> finish_reason \<Rightarrow> string provider_response" where
  "small_reply calls text finish =
     \<lparr>pr_message = (plain_message Assistant text)\<lparr>msg_tool_calls := calls\<rparr>, pr_token_usage = usage_zero\<lparr>input_tokens := 7\<rparr>,
      pr_finish_reason = finish, pr_response_id = None, pr_model = ''m''\<rparr>"

text \<open>The first request is answered with a tool call, the second with the final text; the approval of another
  call is heard before the one that counts.\<close>

definition small_chat ::
  "string message list \<Rightarrow> int resource_budget \<Rightarrow> (nat, string journal_entry list, int) hub \<Rightarrow>
   (string, int) chat_reply \<times> (nat, string journal_entry list, int) hub" where
  "small_chat ms b h =
     (\<lparr>cr_result = Ok (if hb_world h = 0 then small_reply [small_call] [] ToolUse else small_reply [] ''ok'' EndTurn),
       cr_interrupted = False, cr_budget = b, cr_stream = []\<rparr>, h\<lparr>hb_world := Suc (hb_world h)\<rparr>)"

definition small_tool :: "string tool_run" where
  "small_tool = \<lparr>tr_joined = Ok (Ok \<lparr>to_content = ''a.txt'', to_is_error = False, to_provider_content = []\<rparr>), tr_interrupted = False\<rparr>"

definition small_hearing :: hearing where
  "small_hearing = Hear \<lparr>ap_tool_call_id = ''c0'', ap_approved = True, ap_reason = None\<rparr>
     (Hear \<lparr>ap_tool_call_id = ''c1'', ap_approved = True, ap_reason = None\<rparr> HearClosed)"

definition small_json :: "string json_ops" where
  "small_json = \<lparr>jv_get = (\<lambda>v k. None), jv_as_str = Some, jv_text = (\<lambda>v. v), jv_null = ''null'', jv_of_nat = show_nat,
     jv_of_str = (\<lambda>s. s), jv_object = (\<lambda>kvs. ''{}'')\<rparr>"

definition small_dec :: "int decimal_ops" where
  "small_dec = \<lparr>dec_add = (+), dec_sub = (-), dec_checked_add = (\<lambda>a b. Some (a + b)), dec_checked_sub = (\<lambda>a b. Some (a - b)),
     dec_MAX = 2 ^ 96, dec_show = (\<lambda>d. [])\<rparr>"

definition small_env :: "(nat, string journal_entry list, string, int) loop_env" where
  "small_env =
     \<lparr>ev_others = (\<lambda>n h. h), ev_storage = in_memory_journal (\<lambda>_. Ok []), ev_now = (\<lambda>h. 5),
      ev_chat = small_chat, ev_streaming = False, ev_parallel = (\<lambda>n. None),
      ev_run_tools = (\<lambda>calls cap h. (\<lambda>i. small_tool, h)),
      ev_compact = (\<lambda>ms limit. sliding_compact byte_env sliding_new ms (unat limit)),
      ev_pipeline = None, ev_before_ctx = (\<lambda>m n. []), ev_after_ctx = (\<lambda>r. []),
      ev_has_token = False, ev_has_queue = False, ev_has_mirror = False, ev_require_approval = Some True,
      ev_hear = (\<lambda>tc h. (small_hearing, h)), ev_json = small_json,
      ev_debug = (\<lambda>k. []), ev_checkpoint = (\<lambda>data. None), ev_restore_vfs = None, ev_dec = small_dec\<rparr>"

definition small_config :: agent_loop_config where
  "small_config =
     \<lparr>cfg_agent_id = ''a'', cfg_system_prompt = ''sys'', cfg_model = ''m'', cfg_max_turns = 4,
      cfg_capability = \<lparr>network = [], mcp_tools = [], shell = True, javascript = False, python = False, paths_write = [],
        paths_read = [], spawn_placements = [], skill_patterns = [],
        memory = \<lparr>enabled = False, search_scopes = [], write_scopes = []\<rparr>\<rparr>,
      cfg_context_token_limit = None\<rparr>"

definition small_hub :: "(nat, string journal_entry list, int) hub" where
  "small_hub = \<lparr>hb_world = 0, hb_journal = [], hb_mirror = budget_new 1000 9 5 2, hb_turn = 0, hb_kill = None,
     hb_cancelled = False, hb_inputs = []\<rparr>"

definition small_loop :: "(nat, string journal_entry list, string, int) agent_loop" where
  "small_loop = agent_loop_new small_env small_config (budget_new 1000 9 5 2) None small_hub"

text \<open>What a run did, in short.\<close>

fun deed_kind :: "'v deed \<Rightarrow> string" where
  "deed_kind (Journaled k) = entry_kind_name k"
| "deed_kind (Emitted e) = ''event''"
| "deed_kind (Asked ms) = ''ask''"
| "deed_kind (Ran calls cap) = ''run''"
| "deed_kind (Approved i) = ''approved''"

lemma small_contracts: "compacts small_env" "provider_contract small_env" "checkpoint_contract small_env"
proof -
  show "compacts small_env" unfolding compacts_def by (rule disjI1) (auto simp: small_env_def)
  show "provider_contract small_env"
    by (simp add: provider_contract_def small_env_def small_chat_def small_reply_def plain_message_def)
  show "checkpoint_contract small_env" by (simp add: checkpoint_contract_def small_env_def)
qed

section \<open>Guarantees\<close>



end
