(* ===== verification/Sandbox_Http.thy ===== *)
theory Sandbox_Http
  imports Sandbox_Cell
begin

text \<open>
  Network access of an agent cell (\<^verbatim>\<open>simulacra-sandbox/src/http.rs\<close>) and its four callers: the cell itself,
  the module fetcher, the fetch proxy of scripts with its injected integration credentials
  (\<^verbatim>\<open>simulacra-integration/src/injector.rs\<close>, \<^verbatim>\<open>registry.rs\<close>) and the proxy of the shell.  The URL library and
  the HTTP client are arguments: a record of the parser's functions, and a function from requests that
  changes a state of its own.  \<open>wc_sent\<close> records the requests the client was given.
\<close>

section \<open>Requests and responses\<close>

type_synonym headers = "(string \<times> string) list"

record http_request =
  rq_url :: string
  rq_method :: string
  rq_headers :: headers
  rq_body :: "bytes option"
  rq_timeout :: "u64 option"
  rq_max_redirects :: "u32 option"

record http_response =
  rs_status :: "16 word"
  rs_status_text :: string
  rs_headers :: headers
  rs_body :: bytes
  rs_url :: string
  rs_redirected :: bool

datatype http_error = HeNetwork string | HeTimeout | HeTooManyRedirects | HeInvalidUrl string | HeTooLarge u64

fun show_http_error :: "http_error \<Rightarrow> string" where
  "show_http_error (HeNetwork m) = ''network error: '' @ m"
| "show_http_error HeTimeout = ''request timed out''"
| "show_http_error HeTooManyRedirects = ''too many redirects''"
| "show_http_error (HeInvalidUrl m) = ''invalid URL: '' @ m"
| "show_http_error (HeTooLarge n) = ''response too large: '' @ show_word n @ '' bytes''"

definition ascii_lower :: "char \<Rightarrow> char" where
  "ascii_lower c = (if CHR ''A'' \<le> c \<and> c \<le> CHR ''Z'' then char_of (of_char c + (32 :: nat)) else c)"

definition to_ascii_lowercase :: "string \<Rightarrow> string" where
  "to_ascii_lowercase s = map ascii_lower s"

definition eq_ignore_ascii_case :: "string \<Rightarrow> string \<Rightarrow> bool" where
  "eq_ignore_ascii_case a b \<longleftrightarrow> to_ascii_lowercase a = to_ascii_lowercase b"

section \<open>URLs\<close>

datatype url_host = Ipv4 "32 word" | Ipv6 "128 word" | Domain string

record 'u url_library =
  url_parse :: "string \<Rightarrow> 'u option"
  url_scheme :: "'u \<Rightarrow> string"
  url_host_of :: "'u \<Rightarrow> url_host option"
  url_host_str :: "'u \<Rightarrow> string option"
  url_join :: "'u \<Rightarrow> string \<Rightarrow> 'u option"
  url_text :: "'u \<Rightarrow> string"

definition extract_host :: "'u url_library \<Rightarrow> string \<Rightarrow> string option" where
  "extract_host U url =
     (case url_parse U url of
        None \<Rightarrow> None
      | Some u \<Rightarrow> if url_scheme U u \<in> {''http'', ''https''} then url_host_str U u else None)"

fun is_loopback :: "url_host \<Rightarrow> bool" where
  "is_loopback (Ipv4 a) = (drop_bit 24 a = 127)"
| "is_loopback (Ipv6 a) = (a = 1)"
| "is_loopback (Domain d) = (d = ''localhost'')"

definition scheme_is_admitted :: "'u url_library \<Rightarrow> 'u \<Rightarrow> bool" where
  "scheme_is_admitted U u =
     (if url_scheme U u = ''https'' then True
      else if url_scheme U u = ''http''
      then (case url_host_of U u of Some h \<Rightarrow> is_loopback h | None \<Rightarrow> False)
      else False)"

definition host_or_empty :: "'u url_library \<Rightarrow> 'u \<Rightarrow> string" where
  "host_or_empty U u = unwrap_or (url_host_str U u) ''''"

definition https_scheme_error :: sandbox_error where
  "https_scheme_error = SbHttp ''https scheme required for network requests''"

definition finalize_response :: "http_response \<Rightarrow> string \<Rightarrow> nat \<Rightarrow> http_response" where
  "finalize_response r final_url redirects =
     (if redirects > 0 then r\<lparr>rs_redirected := True, rs_url := final_url\<rparr> else r)"

definition is_credential_header :: "string \<Rightarrow> bool" where
  "is_credential_header name \<longleftrightarrow> to_ascii_lowercase name \<in> {''authorization'', ''proxy-authorization'', ''cookie''}"

section \<open>A cell with a client\<close>

record ('s, 'b, 'j, 'v, 'd, 'h) web_cell =
  wc_cell :: "('s, 'b, 'j, 'v, 'd) agent_cell"
  wc_client :: "http_request \<Rightarrow> 'h \<Rightarrow> (http_error + http_response) \<times> 'h"
  wc_net :: 'h
  wc_sent :: "http_request list"

definition on_cell ::
  "(('s, 'b, 'j, 'v, 'd) agent_cell \<Rightarrow> 'r \<times> ('s, 'b, 'j, 'v, 'd) agent_cell) \<Rightarrow>
   ('s, 'b, 'j, 'v, 'd, 'h) web_cell \<Rightarrow> 'r \<times> ('s, 'b, 'j, 'v, 'd, 'h) web_cell" where
  "on_cell f w = (case f (wc_cell w) of (r, c) \<Rightarrow> (r, w\<lparr>wc_cell := c\<rparr>))"

definition execute_request ::
  "http_request \<Rightarrow> ('s, 'b, 'j, 'v, 'd, 'h) web_cell \<Rightarrow> (http_error + http_response) \<times> ('s, 'b, 'j, 'v, 'd, 'h) web_cell" where
  "execute_request req w =
     (case wc_client w req (wc_net w) of (r, h) \<Rightarrow> (r, w\<lparr>wc_net := h, wc_sent := wc_sent w @ [req]\<rparr>))"

definition journal_http_request ::
  "string \<Rightarrow> string \<Rightarrow> 16 word \<Rightarrow> ('s, 'b, 'j, 'v, 'd, 'h) web_cell \<Rightarrow> ('s, 'b, 'j, 'v, 'd, 'h) web_cell" where
  "journal_http_request method url status w = w\<lparr>wc_cell := note_entry (HttpRequest method url status) (wc_cell w)\<rparr>"

definition check_host ::
  "string \<Rightarrow> string \<Rightarrow> ('s, 'b, 'j, 'v, 'd, 'h) web_cell \<Rightarrow> (sandbox_error + unit) \<times> ('s, 'b, 'j, 'v, 'd, 'h) web_cell" where
  "check_host operation host w =
     on_cell (check_and_journal_capability (check_network (ce_capability (wc_cell w)) host) operation) w"

section \<open>Following redirects by hand\<close>

definition MAX_REDIRECTS :: nat where
  "MAX_REDIRECTS = 5"

text \<open>What stays the same from hop to hop.\<close>

record 'u fetch_call =
  fc_urls :: "'u url_library"
  fc_operation :: string
  fc_method :: string
  fc_body :: "bytes option"
  fc_timeout :: "u64 option"

definition hop_request :: "'u fetch_call \<Rightarrow> 'u \<Rightarrow> headers \<Rightarrow> http_request" where
  "hop_request E u hs =
     \<lparr>rq_url = url_text (fc_urls E) u, rq_method = fc_method E, rq_headers = hs, rq_body = fc_body E,
      rq_timeout = fc_timeout E, rq_max_redirects = Some 0\<rparr>"

definition outcome_status :: "http_error + http_response \<Rightarrow> 16 word" where
  "outcome_status r = (case r of Inr resp \<Rightarrow> rs_status resp | Inl _ \<Rightarrow> 0)"

definition is_redirect :: "'u fetch_call \<Rightarrow> http_response \<Rightarrow> bool" where
  "is_redirect E r \<longleftrightarrow> 300 \<le> rs_status r \<and> rs_status r < 400 \<and> fc_method E \<in> {''GET'', ''HEAD''}"

definition location_of :: "http_response \<Rightarrow> string option" where
  "location_of r = map_option snd (find (\<lambda>(n, _). eq_ignore_ascii_case n ''location'') (rs_headers r))"

definition without_credentials :: "headers \<Rightarrow> headers" where
  "without_credentials hs = filter (\<lambda>(n, _). \<not> is_credential_header n) hs"

function follow_hops ::
  "'u fetch_call \<Rightarrow> 'u \<Rightarrow> headers \<Rightarrow> nat \<Rightarrow> ('s, 'b, 'j, 'v, 'd, 'h) web_cell \<Rightarrow>
   (sandbox_error + http_response) \<times> ('s, 'b, 'j, 'v, 'd, 'h) web_cell" where
  "follow_hops E current hs redirects w =
     (let req = hop_request E current hs;
          (outcome, w1) = execute_request req w;
          w2 = journal_http_request (fc_method E) (rq_url req) (outcome_status outcome) w1
      in case outcome of
           Inl e \<Rightarrow> (Err (SbHttp (rq_url req @ '' '' @ em_dash @ '' '' @ show_http_error e)), w2)
         | Inr response \<Rightarrow>
             if \<not> is_redirect E response then (Ok (finalize_response response (rq_url req) redirects), w2)
             else (case location_of response of
                     None \<Rightarrow> (Ok (finalize_response response (rq_url req) redirects), w2)
                   | Some location \<Rightarrow>
                       if redirects + 1 > MAX_REDIRECTS
                       then (Err (SbHttp (''redirect limit of '' @ show_nat MAX_REDIRECTS @ '' redirects exceeded'')), w2)
                       else (case url_join (fc_urls E) current location of
                               None \<Rightarrow> (Err (SbHttp ''invalid redirect location''), w2)
                             | Some destination \<Rightarrow>
                                 if \<not> scheme_is_admitted (fc_urls E) destination then (Err https_scheme_error, w2)
                                 else (case check_host (fc_operation E) (host_or_empty (fc_urls E) destination) w2 of
                                         (Inl e, w3) \<Rightarrow> (Err e, w3)
                                       | (Inr _, w3) \<Rightarrow>
                                           follow_hops E destination (without_credentials hs) (redirects + 1) w3))))"
  by pat_completeness auto
termination
  by (relation "measure (\<lambda>(E, u, hs, n, w). Suc MAX_REDIRECTS - n)") auto

declare follow_hops.simps [simp del]

definition fetch_http_inner ::
  "'u fetch_call \<Rightarrow> string \<Rightarrow> headers \<Rightarrow> bool \<Rightarrow> ('s, 'b, 'j, 'v, 'd, 'h) web_cell \<Rightarrow>
   (sandbox_error + http_response) \<times> ('s, 'b, 'j, 'v, 'd, 'h) web_cell" where
  "fetch_http_inner E url hs increment_turns w0 =
     (let parsed = url_parse (fc_urls E) url;
          host = (case parsed of None \<Rightarrow> '''' | Some u \<Rightarrow> host_or_empty (fc_urls E) u);
          refused = (\<lambda>w. (Err https_scheme_error, journal_http_request (fc_method E) url 0 w))
      in seq (check_host (fc_operation E) host)
           (\<lambda>_. seq (on_cell (if increment_turns then reserve_turn else check_turns_budget))
             (\<lambda>_ w. case parsed of
                Some u \<Rightarrow> if scheme_is_admitted (fc_urls E) u then follow_hops E u hs 0 w else refused w
              | None \<Rightarrow> refused w)) w0)"

definition fetch_http ::
  "'u url_library \<Rightarrow> string \<Rightarrow> string \<Rightarrow> headers \<Rightarrow> bytes option \<Rightarrow> u64 option \<Rightarrow> ('s, 'b, 'j, 'v, 'd, 'h) web_cell \<Rightarrow>
   (sandbox_error + http_response) \<times> ('s, 'b, 'j, 'v, 'd, 'h) web_cell" where
  "fetch_http U url method hs body timeout =
     fetch_http_inner \<lparr>fc_urls = U, fc_operation = ''fetch_http'', fc_method = method, fc_body = body, fc_timeout = timeout\<rparr>
       url hs True"

section \<open>Integrations\<close>

datatype auth_method =
    AuthOAuth2 string string string "string list" "string option"
  | AuthApiKey string string

record integration_config =
  ic_auth :: auth_method
  ic_base_url :: string
  ic_description :: "string option"
  ic_rate_limit_rps :: u32
  ic_skills_path :: "string option"

record integration_credential =
  ig_name :: string
  ig_config :: integration_config
  ig_access_token :: string
  ig_expires_at :: "nat option"
  ig_degraded :: bool
  ig_refresh_failures :: u32
  ig_connectivity_ok :: bool

datatype integration_error =
    IeMissingEnvVar string | IeNotFound string | IeTokenRefreshFailed string | IeHttp string | IeDegraded string

fun show_integration_error :: "integration_error \<Rightarrow> string" where
  "show_integration_error (IeMissingEnvVar v) = ''missing env var: '' @ v"
| "show_integration_error (IeNotFound n) = ''integration not found: '' @ n"
| "show_integration_error (IeTokenRefreshFailed n) = ''token refresh failed for integration: '' @ n"
| "show_integration_error (IeHttp m) = ''http error: '' @ m"
| "show_integration_error (IeDegraded n) = ''integration degraded: '' @ n"

definition url_matches_base :: "string \<Rightarrow> string \<Rightarrow> bool" where
  "url_matches_base base url \<longleftrightarrow>
     starts_with url base \<and>
     (length url = length base \<or> ends_with base ''/'' \<or> url ! length base \<in> {CHR ''/'', CHR ''?'', CHR 0x23})"

definition parse_api_key_headers :: "string \<Rightarrow> string \<Rightarrow> headers" where
  "parse_api_key_headers placement key =
     (case strip_prefix placement ''header:'' of
        Some header_name \<Rightarrow> [(header_name, key)]
      | None \<Rightarrow> [(''Authorization'', ''Bearer '' @ key)])"

fun auth_headers :: "auth_method \<Rightarrow> string \<Rightarrow> headers" where
  "auth_headers (AuthApiKey _ placement) token = parse_api_key_headers placement token"
| "auth_headers (AuthOAuth2 _ _ _ _ _) token = [(''Authorization'', ''Bearer '' @ token)]"

text \<open>The registry in the order its hash map is walked.\<close>

type_synonym integration_registry = "(string \<times> integration_credential) list"

fun inject_headers_sync ::
  "integration_registry \<Rightarrow> string \<Rightarrow> string list \<Rightarrow> integration_error + headers option" where
  "inject_headers_sync [] url grants = Ok None"
| "inject_headers_sync ((name, cred) # rest) url grants =
     (if \<not> url_matches_base (ic_base_url (ig_config cred)) url then inject_headers_sync rest url grants
      else if name \<notin> set grants then inject_headers_sync rest url grants
      else if ig_degraded cred then Err (IeDegraded (''integration '' @ [CHR 0x27] @ name @ [CHR 0x27] @ '' is degraded''))
      else if ig_access_token cred = ''''
      then Err (IeTokenRefreshFailed (''integration '' @ [CHR 0x27] @ name @ [CHR 0x27] @ '' has no token''))
      else Ok (Some (auth_headers (ic_auth (ig_config cred)) (ig_access_token cred))))"

section \<open>The callers\<close>

definition module_fetch ::
  "'u url_library \<Rightarrow> (string, string) btree \<Rightarrow> string \<Rightarrow> ('s, 'b, 'j, 'v, 'd, 'h) web_cell \<Rightarrow>
   (string + string) \<times> ('s, 'b, 'j, 'v, 'd, 'h) web_cell" where
  "module_fetch U stubs url w =
     (case bt_get stubs url of
        Some source \<Rightarrow>
          convert_err show_sandbox_error
            (seq (check_host ''module_fetch'' (unwrap_or (extract_host U url) ''''))
              (\<lambda>_. seq (on_cell check_turns_budget)
                (\<lambda>_ w. (Ok source, journal_http_request ''GET'' url 200 w))) w)
      | None \<Rightarrow>
          seq (\<lambda>w. convert_err show_sandbox_error
                 (fetch_http_inner \<lparr>fc_urls = U, fc_operation = ''module_fetch'', fc_method = ''GET'', fc_body = None, fc_timeout = None\<rparr>
                    url [] False w))
            (\<lambda>r w. (map_err (\<lambda>e. ''module response is not valid UTF-8: '' @ e) (from_utf8 (rs_body r)), w)) w)"

datatype fetch_error =
    FeCapabilityDenied string | FeBudgetExhausted string | FeNetwork string | FeTimeout | FeAborted string

fun sandbox_error_to_fetch_error :: "sandbox_error \<Rightarrow> fetch_error" where
  "sandbox_error_to_fetch_error (SbCapabilityDenied d) = FeCapabilityDenied (show_capability_denied d)"
| "sandbox_error_to_fetch_error (SbBudgetExhausted b) = FeBudgetExhausted (show_budget_exhausted b)"
| "sandbox_error_to_fetch_error (SbHttp m) = FeNetwork m"
| "sandbox_error_to_fetch_error e = FeNetwork (show_sandbox_error e)"

definition add_missing :: "headers \<Rightarrow> headers \<Rightarrow> headers" where
  "add_missing injected hs =
     foldl (\<lambda>all (k, v). if list_ex (\<lambda>(hk, _). eq_ignore_ascii_case hk k) all then all else all @ [(k, v)]) hs injected"

definition proxy_fetch ::
  "'u url_library \<Rightarrow> integration_registry option \<Rightarrow> string list \<Rightarrow> string \<Rightarrow> string \<Rightarrow> headers \<Rightarrow> bytes option \<Rightarrow> u64 option \<Rightarrow>
   ('s, 'b, 'j, 'v, 'd, 'h) web_cell \<Rightarrow> (fetch_error + http_response) \<times> ('s, 'b, 'j, 'v, 'd, 'h) web_cell" where
  "proxy_fetch U registry grants url method hs body timeout w =
     (case (case registry of None \<Rightarrow> Ok None | Some reg \<Rightarrow> inject_headers_sync reg url grants) of
        Inl e \<Rightarrow> (Err (FeNetwork (''integration credential error: '' @ show_integration_error e)), w)
      | Inr injected \<Rightarrow>
          convert_err sandbox_error_to_fetch_error
            (fetch_http_inner \<lparr>fc_urls = U, fc_operation = ''fetch_http'', fc_method = method, fc_body = body, fc_timeout = timeout\<rparr>
               url (case injected of None \<Rightarrow> hs | Some new \<Rightarrow> add_missing new hs) False w))"

record shell_http_response =
  sh_status :: "16 word"
  sh_status_text :: string
  sh_headers :: headers
  sh_body :: bytes
  sh_url :: string

datatype shell_http_error = SeCapabilityDenied string | SeBudgetExhausted string | SeNetwork string | SeTimeout

fun sandbox_error_to_shell_http_error :: "sandbox_error \<Rightarrow> shell_http_error" where
  "sandbox_error_to_shell_http_error (SbCapabilityDenied d) = SeCapabilityDenied (show_capability_denied d)"
| "sandbox_error_to_shell_http_error (SbBudgetExhausted b) = SeBudgetExhausted (show_budget_exhausted b)"
| "sandbox_error_to_shell_http_error (SbHttp m) = SeNetwork m"
| "sandbox_error_to_shell_http_error e = SeNetwork (show_sandbox_error e)"

definition shell_http ::
  "'u url_library \<Rightarrow> string \<Rightarrow> string \<Rightarrow> headers \<Rightarrow> bytes option \<Rightarrow> u64 option \<Rightarrow> ('s, 'b, 'j, 'v, 'd, 'h) web_cell \<Rightarrow>
   (shell_http_error + shell_http_response) \<times> ('s, 'b, 'j, 'v, 'd, 'h) web_cell" where
  "shell_http U url method hs body timeout =
     seq (\<lambda>w. convert_err sandbox_error_to_shell_http_error
            (fetch_http_inner \<lparr>fc_urls = U, fc_operation = ''shell_http'', fc_method = method, fc_body = body, fc_timeout = timeout\<rparr>
               url hs True w))
       (\<lambda>r w. (Ok \<lparr>sh_status = rs_status r, sh_status_text = rs_status_text r, sh_headers = rs_headers r,
          sh_body = rs_body r, sh_url = rs_url r\<rparr>, w))"

section \<open>Which requests leave the cell\<close>

definition may_fetch :: "'u fetch_call \<Rightarrow> capability_token \<Rightarrow> 'u \<Rightarrow> bool" where
  "may_fetch E t u \<longleftrightarrow> scheme_is_admitted (fc_urls E) u \<and> check_network t (host_or_empty (fc_urls E) u) = Ok ()"

definition granted_request :: "'u fetch_call \<Rightarrow> capability_token \<Rightarrow> http_request \<Rightarrow> bool" where
  "granted_request E t q \<longleftrightarrow> (\<exists>u hs. may_fetch E t u \<and> q = hop_request E u hs)"

definition http_entries :: "'v journal_entry_kind list \<Rightarrow> (string \<times> string) list" where
  "http_entries es = List.map_filter (\<lambda>k. case k of HttpRequest m u _ \<Rightarrow> Some (m, u) | _ \<Rightarrow> None) es"

lemma http_entries_simps [simp]:
  "http_entries [] = []" "http_entries (HttpRequest m u s # es) = (m, u) # http_entries es"
  "http_entries (ToolResult a b c d e # es) = http_entries es"
  by (simp_all add: http_entries_def map_filter_def)

lemma note_entry_setup [simp]: "ce_capability (note_entry k c) = ce_capability c" "ce_budget (note_entry k c) = ce_budget c"
  by (simp_all add: note_entry_def log_entry_def split: prod.split)

lemma without_credentials_idem [simp]: "without_credentials (without_credentials hs) = without_credentials hs"
  by (simp add: without_credentials_def)

text \<open>The effect of a step on the cell is a list of journal entries.\<close>

definition noted :: "'v journal_entry_kind list \<Rightarrow> ('s, 'b, 'j, 'v, 'd) agent_cell \<Rightarrow> ('s, 'b, 'j, 'v, 'd) agent_cell" where
  "noted es c = fold note_entry es c"

lemma noted_simps [simp]: "noted [] c = c" "noted (k # es) c = noted es (note_entry k c)"
    "ce_capability (noted es c) = ce_capability c" "ce_budget (noted es c) = ce_budget c"
proof -
  show "ce_capability (noted es c) = ce_capability c" "ce_budget (noted es c) = ce_budget c"
    by (induction es arbitrary: c) (simp_all add: noted_def)
qed (simp_all add: noted_def)

lemma check_host_cases:
  assumes "check_host opn host w = (res, w')"
  obtains (granted) "res = Ok ()" "w' = w" "check_network (ce_capability (wc_cell w)) host = Ok ()"
  | (denied) d k where "res = Err (SbCapabilityDenied d)" "http_entries [k] = []" "w' = w\<lparr>wc_cell := note_entry k (wc_cell w)\<rparr>"
proof (cases "check_network (ce_capability (wc_cell w)) host")
  case (Inl d)
  show ?thesis
    by (rule denied[of d "ToolResult None opn (''capability denied: '' @ denied_operation d @ '' - '' @ denied_reason d) True []"])
      (use assms Inl in \<open>auto simp: check_host_def on_cell_def check_and_journal_capability_def journal_denial_def\<close>)
next
  case (Inr x)
  then show ?thesis
    using assms by (intro granted) (auto simp: check_host_def on_cell_def check_and_journal_capability_def)
qed

text \<open>What a fetch did: requests, entries, and nothing else.\<close>

definition fetched ::
  "'u fetch_call \<Rightarrow> headers \<Rightarrow> nat \<Rightarrow> ('s, 'b, 'j, 'v, 'd, 'h) web_cell \<Rightarrow> ('s, 'b, 'j, 'v, 'd, 'h) web_cell \<Rightarrow> bool" where
  "fetched E hs n w w' \<longleftrightarrow> (\<exists>q qs es. wc_sent w' = wc_sent w @ q # qs \<and> wc_cell w' = noted es (wc_cell w) \<and>
     wc_client w' = wc_client w \<and>
     (\<forall>x \<in> set (q # qs). granted_request E (ce_capability (wc_cell w)) x) \<and>
     rq_headers q = hs \<and> (\<forall>x \<in> set qs. rq_headers x = without_credentials hs) \<and> length qs + n \<le> MAX_REDIRECTS \<and>
     http_entries es = map (\<lambda>x. (rq_method x, rq_url x)) (q # qs))"

lemma fetched_one:
  assumes "granted_request E (ce_capability (wc_cell w)) q" "rq_headers q = hs" "n \<le> MAX_REDIRECTS"
    and "wc_sent w' = wc_sent w @ [q]" "wc_client w' = wc_client w"
    and "wc_cell w' = noted (HttpRequest (rq_method q) (rq_url q) s # es) (wc_cell w)" "http_entries es = []"
  shows "fetched E hs n w w'"
  unfolding fetched_def
  by (rule exI[of _ q], rule exI[of _ "[]"], rule exI[of _ "HttpRequest (rq_method q) (rq_url q) s # es"]) (use assms in simp)

lemma fetched_more:
  assumes "granted_request E (ce_capability (wc_cell w)) q" "rq_headers q = hs"
    and "wc_sent w1 = wc_sent w @ [q]" "wc_client w1 = wc_client w"
    and "wc_cell w1 = note_entry (HttpRequest (rq_method q) (rq_url q) s) (wc_cell w)"
    and "fetched E (without_credentials hs) (Suc n) w1 w'"
  shows "fetched E hs n w w'"
proof -
  obtain p ps es where p: "wc_sent w' = wc_sent w1 @ p # ps" "wc_cell w' = noted es (wc_cell w1)" "wc_client w' = wc_client w1"
    "\<forall>x \<in> set (p # ps). granted_request E (ce_capability (wc_cell w1)) x" "rq_headers p = without_credentials hs"
    "\<forall>x \<in> set ps. rq_headers x = without_credentials hs" "length ps + Suc n \<le> MAX_REDIRECTS"
    "http_entries es = map (\<lambda>x. (rq_method x, rq_url x)) (p # ps)"
    using assms(6) unfolding fetched_def by auto
  show ?thesis
    unfolding fetched_def
    by (rule exI[of _ q], rule exI[of _ "p # ps"], rule exI[of _ "HttpRequest (rq_method q) (rq_url q) s # es"])
      (use p assms(1-5) in simp)
qed

lemma follow_hops_fetched:
  assumes "follow_hops E u hs n w = (res, w')" "may_fetch E (ce_capability (wc_cell w)) u" "n \<le> MAX_REDIRECTS"
  shows "fetched E hs n w w'"
  using assms
proof (induction E u hs n w arbitrary: res w' rule: follow_hops.induct)
  case (1 E u hs n w)
  let ?q = "hop_request E u hs"
  obtain outcome w1 where ex: "execute_request ?q w = (outcome, w1)" by fastforce
  define w2 where "w2 = journal_http_request (fc_method E) (rq_url ?q) (outcome_status outcome) w1"
  have w2: "wc_sent w2 = wc_sent w @ [?q]" "wc_client w2 = wc_client w"
    "wc_cell w2 = note_entry (HttpRequest (rq_method ?q) (rq_url ?q) (outcome_status outcome)) (wc_cell w)"
    using ex by (auto simp: execute_request_def w2_def journal_http_request_def hop_request_def split: prod.splits)
  have q: "granted_request E (ce_capability (wc_cell w)) ?q" "rq_headers ?q = hs"
    using 1(3) by (auto simp: granted_request_def hop_request_def)
  have here: "fetched E hs n w w2"
    by (rule fetched_one[OF q 1(4) w2(1,2), where es = "[]" and s = "outcome_status outcome"]) (simp_all add: w2)
  note unfolded = 1(2)[unfolded follow_hops.simps[of E u hs n w] Let_def ex prod.case w2_def[symmetric]]
  show ?case
  proof (cases outcome)
    case (Inl e)
    then show ?thesis using unfolded here by simp
  next
    case (Inr response)
    show ?thesis
    proof (cases "is_redirect E response \<and> n + 1 \<le> MAX_REDIRECTS")
      case False
      then show ?thesis using unfolded here Inr by (auto split: if_splits option.splits)
    next
      case True
      then consider (stop) "w' = w2"
        | (hop) location destination chk w3 where "location_of response = Some location"
          "url_join (fc_urls E) u location = Some destination" "scheme_is_admitted (fc_urls E) destination"
          "check_host (fc_operation E) (host_or_empty (fc_urls E) destination) w2 = (chk, w3)"
          "(case chk of Inl e \<Rightarrow> (Err e, w3) | Inr _ \<Rightarrow> follow_hops E destination (without_credentials hs) (n + 1) w3) = (res, w')"
        using unfolded Inr by (auto split: if_splits option.splits prod.splits)
      then show ?thesis
      proof cases
        case stop
        then show ?thesis using here by simp
      next
        case hop
        from hop(4) show ?thesis
        proof (cases rule: check_host_cases)
          case granted
          have "may_fetch E (ce_capability (wc_cell w3)) destination"
            using granted hop(3) by (simp add: may_fetch_def)
          then have "fetched E (without_credentials hs) (n + 1) w3 w'"
            using 1(1) ex Inr True hop granted unfolding w2_def by fastforce
          then show ?thesis using fetched_more[OF q w2] granted by simp
        next
          case (denied d k)
          then have "w' = w3" using hop(5) by simp
          then show ?thesis
            using denied w2 by (intro fetched_one[OF q 1(4), where es = "[k]" and s = "outcome_status outcome"]) simp_all
        qed
      qed
    qed
  qed
qed

text \<open>Before the hops: the host, then the turn.\<close>

lemma turn_cases:
  assumes "on_cell (if inc then reserve_turn else check_turns_budget) w = (r, w')"
  obtains (ok) "r = Ok ()" "turns_exhausted (ce_budget (wc_cell w)) = None" "ce_capability (wc_cell w') = ce_capability (wc_cell w)"
      "wc_sent w' = wc_sent w" "wc_client w' = wc_client w"
      "ce_storage (wc_cell w') = ce_storage (wc_cell w)" "ce_journal (wc_cell w') = ce_journal (wc_cell w)"
  | (refused) e where "r = Err e" "wc_sent w' = wc_sent w"
  using assms
  by (cases "turns_exhausted (ce_budget (wc_cell w))")
    (auto simp: on_cell_def reserve_turn_def check_turns_budget_def refuse_budget_def split: if_splits)


section \<open>Examples\<close>

text \<open>URLs as texts, and a server that redirects every request to \<open>a.io\<close> to \<open>b.io\<close>.\<close>

definition demo_urls :: "string url_library" where
  "demo_urls =
     \<lparr>url_parse = Some, url_scheme = (\<lambda>_. ''https''), url_host_of = (\<lambda>_. None),
      url_host_str = (\<lambda>u. Some (takeWhile (\<lambda>c. c \<noteq> CHR ''/'') (drop 8 u))), url_join = (\<lambda>_. Some), url_text = id\<rparr>"

definition demo_response :: "16 word \<Rightarrow> headers \<Rightarrow> http_response" where
  "demo_response status hs =
     \<lparr>rs_status = status, rs_status_text = '''', rs_headers = hs, rs_body = ''ok'', rs_url = '''', rs_redirected = False\<rparr>"

definition demo_server :: "http_request \<Rightarrow> unit \<Rightarrow> (http_error + http_response) \<times> unit" where
  "demo_server q h =
     (if starts_with (rq_url q) ''https://a.io/'' then (Ok (demo_response 302 [(''Location'', ''https://b.io/'')]), h)
      else (Ok (demo_response 200 []), h))"

definition demo_web_cell :: "(mem_state, snapshot_items, unit journal_entry list, unit, int, unit) web_cell" where
  "demo_web_cell =
     \<lparr>wc_cell =
        \<lparr>ce_vfs = \<lparr>sf_ops = memory_fs Ok Ok, sf_state = mem_new, sf_others = (\<lambda>_. id), sf_clock = 0\<rparr>,
         ce_capability = empty_token\<lparr>network := [''a.io'', ''b.io'']\<rparr>, ce_budget = budget_new 0 0 0 0,
         ce_storage = in_memory_journal (\<lambda>_. Ok []), ce_journal = [], ce_agent_id = ''a''\<rparr>,
      wc_client = demo_server, wc_net = (), wc_sent = []\<rparr>"

definition demo_fetch :: "string fetch_call" where
  "demo_fetch =
     \<lparr>fc_urls = demo_urls, fc_operation = ''fetch_http'', fc_method = ''GET'', fc_body = None, fc_timeout = None\<rparr>"


section \<open>Credentials of integrations\<close>

definition relevant :: "string \<Rightarrow> string list \<Rightarrow> string \<times> integration_credential \<Rightarrow> bool" where
  "relevant url grants nc \<longleftrightarrow> fst nc \<in> set grants \<and> url_matches_base (ic_base_url (ig_config (snd nc))) url"

lemma inject_relevant: "inject_headers_sync (filter (relevant url grants) reg) url grants = inject_headers_sync reg url grants"
  by (induction reg url grants rule: inject_headers_sync.induct) (auto simp: relevant_def)

text \<open>
  C3: A script's fetch depends on no credential of an integration its tenant was not granted or whose base
  URL is not a prefix of the request at a path boundary: without them it sends the same requests, leaves
  the same state and returns the same result.
\<close>

theorem other_integrations_stay_secret:
  assumes "filter (relevant url grants) reg1 = filter (relevant url grants) reg2"
  shows "proxy_fetch U (Some reg1) grants url method hs body timeout w = proxy_fetch U (Some reg2) grants url method hs body timeout w"
proof -
  have "inject_headers_sync reg1 url grants = inject_headers_sync reg2 url grants"
    using assms inject_relevant[of url grants reg1] inject_relevant[of url grants reg2] by simp
  then show ?thesis by (simp add: proxy_fetch_def)
qed

definition demo_integration :: "string \<Rightarrow> auth_method \<Rightarrow> string \<Rightarrow> integration_credential" where
  "demo_integration base auth token =
     \<lparr>ig_name = ''i'', ig_config = \<lparr>ic_auth = auth, ic_base_url = base, ic_description = None, ic_rate_limit_rps = 0, ic_skills_path = None\<rparr>,
      ig_access_token = token, ig_expires_at = None, ig_degraded = False, ig_refresh_failures = 0, ig_connectivity_ok = True\<rparr>"

definition demo_registry :: "string \<Rightarrow> integration_registry" where
  "demo_registry secret =
     [(''other'', demo_integration ''https://a.io'' (AuthApiKey ''K'' ''header'') secret),
      (''mine'', demo_integration ''https://a.io'' (AuthApiKey ''K'' ''header:X-Api-Key'') ''k1''),
      (''near'', demo_integration ''https://a.i'' (AuthApiKey ''K'' ''header'') secret)]"

theorem other_integrations_stay_secret_witness:
  "proxy_fetch demo_urls (Some (demo_registry ''s1'')) [''mine'', ''near''] ''https://a.io/'' ''GET'' [] None None demo_web_cell =
   proxy_fetch demo_urls (Some (demo_registry ''s2'')) [''mine'', ''near''] ''https://a.io/'' ''GET'' [] None None demo_web_cell"
proof (rule other_integrations_stay_secret)
  have "relevant ''https://a.io/'' [''mine'', ''near''] =
      (\<lambda>nc. (fst nc = ''mine'' \<or> fst nc = ''near'') \<and> url_matches_base (ic_base_url (ig_config (snd nc))) ''https://a.io/'')"
    by (auto simp: relevant_def fun_eq_iff)
  moreover have "\<not> url_matches_base ''https://a.i'' ''https://a.io/''" by code_simp
  ultimately show "filter (relevant ''https://a.io/'' [''mine'', ''near'']) (demo_registry ''s1'') =
      filter (relevant ''https://a.io/'' [''mine'', ''near'']) (demo_registry ''s2'')"
    by (simp add: demo_registry_def demo_integration_def)
qed

text \<open>
  A key that an integration places in a header of its own is not among the three credential headers, so
  it rides the redirect to the other host.
\<close>

theorem integration_key_rides_redirect:
  "map (\<lambda>q. (rq_url q, rq_headers q))
     (wc_sent (snd (proxy_fetch demo_urls (Some (demo_registry ''s'')) [''mine''] ''https://a.io/'' ''GET'' [] None None demo_web_cell))) =
   [(''https://a.io/'', [(''X-Api-Key'', ''k1'')]), (''https://b.io/'', [(''X-Api-Key'', ''k1'')])]"
  by code_simp

end
