(* ===== verification/Apply_Patch.thy ===== *)
theory Apply_Patch
  imports Sandbox_Batch Mcp_Glob
begin

text \<open>
  The patch tool (\<^verbatim>\<open>simulacra-tool/src/sandbox_tools/apply_patch.rs\<close>): the patch grammar, the hunks, the plan
  made by reading through the cell, and the commit as one batch of mutations.  The JSON argument holding
  the patch is taken as a string.
\<close>

section \<open>Patches\<close>

record hunk =
  hk_old_text :: string
  hk_new_text :: string

datatype patch_op =
    PoAdd string string
  | PoDelete string
  | PoUpdate string "string option" "hunk list"

datatype planned_change =
    PcWrite string string write_precondition
  | PcDelete string
  | PcMove string string
  | PcMoveAndWrite string string string "bytes option"

datatype patch_error = PeUser string | PeSandbox sandbox_error

definition join_patch_lines :: "string list \<Rightarrow> string" where
  "join_patch_lines ls = (if ls = [] then '''' else join_str [CHR 0x0A] ls @ [CHR 0x0A])"

definition patch_segment :: "string list \<Rightarrow> string \<Rightarrow> string list" where
  "patch_segment parts segment =
     (if segment = '''' \<or> segment = ''.'' then parts
      else if segment = ''..'' then butlast parts
      else parts @ [segment])"

definition patch_path :: "string \<Rightarrow> string" where
  "patch_path path =
     (let parts = foldl patch_segment [] (split_on slash path)
      in if parts = [] then ''/'' else ''/'' @ join_with slash parts)"

section \<open>The grammar\<close>

definition is_marker :: "string \<Rightarrow> bool" where
  "is_marker line \<longleftrightarrow> starts_with line ''*** ''"

text \<open>The parsers take the lines between the two outer markers that are still to be read.\<close>

fun parse_added :: "string \<Rightarrow> string list \<Rightarrow> string list \<Rightarrow> string + (string list \<times> string list)" where
  "parse_added path added [] = Ok (added, [])"
| "parse_added path added (line # ls) =
     (if is_marker line then Ok (added, line # ls)
      else case strip_prefix line ''+'' of
             None \<Rightarrow> Err (''malformed add for '' @ path @ '': expected + line'')
           | Some body \<Rightarrow> parse_added path (added @ [body]) ls)"

fun hunk_lines :: "string list \<Rightarrow> string list \<Rightarrow> string list \<Rightarrow> string + (string list \<times> string list \<times> string list)" where
  "hunk_lines old new [] = Ok (old, new, [])"
| "hunk_lines old new (line # ls) =
     (if is_marker line \<or> starts_with line ''@@'' then Ok (old, new, line # ls)
      else case strip_prefix line '' '' of
             Some body \<Rightarrow> hunk_lines (old @ [body]) (new @ [body]) ls
           | None \<Rightarrow>
               (case strip_prefix line ''-'' of
                  Some gone \<Rightarrow> hunk_lines (old @ [gone]) new ls
                | None \<Rightarrow>
                    (case strip_prefix line ''+'' of
                       Some fresh \<Rightarrow> hunk_lines old (new @ [fresh]) ls
                     | None \<Rightarrow> Err (''malformed hunk line: '' @ line))))"

definition parse_hunk :: "string list \<Rightarrow> string + (hunk \<times> string list)" where
  "parse_hunk ls =
     and_then (hunk_lines [] [] ls)
       (\<lambda>(old, new, rest). if old = [] \<and> new = [] then Err ''malformed hunk: empty hunk''
          else Ok (\<lparr>hk_old_text = join_patch_lines old, hk_new_text = join_patch_lines new\<rparr>, rest))"

lemma hunk_lines_length: "hunk_lines old new ls = Ok (o', n', rest) \<Longrightarrow> length rest \<le> length ls"
  by (induction old new ls rule: hunk_lines.induct) (auto split: if_splits option.splits)

lemma parse_hunk_length [termination_simp]: "parse_hunk ls = Ok (h, rest) \<Longrightarrow> length rest \<le> length ls"
  unfolding parse_hunk_def and_then_Ok_iff by (auto split: if_splits dest: hunk_lines_length)

lemma parse_added_length: "parse_added path added ls = Ok (a, rest) \<Longrightarrow> length rest \<le> length ls"
  by (induction path added ls rule: parse_added.induct) (auto split: if_splits option.splits)

fun parse_hunks :: "string \<Rightarrow> hunk list \<Rightarrow> string list \<Rightarrow> string + (hunk list \<times> string list)" where
  "parse_hunks path hunks [] = Ok (hunks, [])"
| "parse_hunks path hunks (line # ls) =
     (if is_marker line then Ok (hunks, line # ls)
      else if starts_with line ''@@''
      then (case parse_hunk ls of
              Inl e \<Rightarrow> Err e
            | Inr (h, rest) \<Rightarrow> parse_hunks path (hunks @ [h]) rest)
      else Err (''malformed update for '' @ path @ '': expected @@ hunk''))"

lemma parse_hunks_length: "parse_hunks path hunks ls = Ok (hs, rest) \<Longrightarrow> length rest \<le> length ls"
proof (induction path hunks ls rule: parse_hunks.induct)
  case (2 path hunks line ls)
  then show ?case by (fastforce split: if_splits sum.splits dest: parse_hunk_length)
qed simp

definition move_target :: "string list \<Rightarrow> string option \<times> string list" where
  "move_target ls =
     (case ls of
        [] \<Rightarrow> (None, ls)
      | line # rest \<Rightarrow> (case strip_prefix line ''*** Move to: '' of Some p \<Rightarrow> (Some (patch_path p), rest) | None \<Rightarrow> (None, ls)))"

lemma move_target_length: "move_target ls = (t, rest) \<Longrightarrow> length rest \<le> length ls"
  by (auto simp: move_target_def split: list.splits option.splits)

function parse_ops :: "string list \<Rightarrow> string + patch_op list" where
  "parse_ops [] = Ok []"
| "parse_ops (line # ls) =
     (case strip_prefix line ''*** Add File: '' of
        Some path \<Rightarrow>
          (case parse_added path [] ls of
             Inl e \<Rightarrow> Err e
           | Inr (added, rest) \<Rightarrow>
               and_then (parse_ops rest) (\<lambda>ops. Ok (PoAdd (patch_path path) (join_patch_lines added) # ops)))
      | None \<Rightarrow>
     (case strip_prefix line ''*** Delete File: '' of
        Some path \<Rightarrow> and_then (parse_ops ls) (\<lambda>ops. Ok (PoDelete (patch_path path) # ops))
      | None \<Rightarrow>
     (case strip_prefix line ''*** Update File: '' of
        Some path \<Rightarrow>
          (case move_target ls of
             (target, ls1) \<Rightarrow>
               (case parse_hunks path [] ls1 of
                  Inl e \<Rightarrow> Err e
                | Inr (hunks, rest) \<Rightarrow>
                    if target = None \<and> hunks = [] then Err (''malformed update for '' @ path @ '': expected @@ hunk'')
                    else and_then (parse_ops rest) (\<lambda>ops. Ok (PoUpdate (patch_path path) target hunks # ops))))
      | None \<Rightarrow>
          if line = ''*** End of File'' then parse_ops ls else Err (''malformed patch line: '' @ line))))"
  by pat_completeness auto
termination
  by (relation "measure length") (auto simp: less_Suc_eq_le dest!: parse_added_length parse_hunks_length move_target_length[OF sym])

definition parse_patch :: "string \<Rightarrow> string + patch_op list" where
  "parse_patch patch =
     (let ls = lines patch
      in if ls = [] \<or> hd ls \<noteq> ''*** Begin Patch'' then Err ''malformed patch: missing *** Begin Patch''
         else if last ls \<noteq> ''*** End Patch'' then Err ''malformed patch: missing *** End Patch''
         else parse_ops (butlast (tl ls)))"

section \<open>Hunks\<close>

text \<open>Matches do not overlap.\<close>

function occurrences :: "string \<Rightarrow> string \<Rightarrow> nat" where
  "occurrences body old =
     (if old = '''' then 0
      else case find_sub body old of
             None \<Rightarrow> 0
           | Some i \<Rightarrow> Suc (occurrences (drop (i + length old) body) old))"
  by pat_completeness auto
termination
proof (relation "measure (\<lambda>(body, old). length body)")
  fix body old :: string and i
  assume "old \<noteq> ''''" "find_sub body old = Some i"
  then show "((drop (i + length old) body, old), body, old) \<in> measure (\<lambda>(body, old). length body)"
    by (cases body) (auto simp: find_sub.simps[of "[]"] split: if_splits)
qed simp

declare occurrences.simps [simp del]

definition replace_first :: "string \<Rightarrow> string \<Rightarrow> string \<Rightarrow> string" where
  "replace_first body old new =
     (case find_sub body old of
        None \<Rightarrow> body
      | Some i \<Rightarrow> take i body @ new @ drop (i + length old) body)"

fun apply_hunks :: "string \<Rightarrow> string \<Rightarrow> hunk list \<Rightarrow> string + string" where
  "apply_hunks path body [] = Ok body"
| "apply_hunks path body (h # hs) =
     (if hk_old_text h = '''' then Err (''stale hunk for '' @ path @ '': empty old text'')
      else if occurrences body (hk_old_text h) \<noteq> 1
      then Err (''stale hunk for '' @ path @ '': expected one match, found '' @ show_nat (occurrences body (hk_old_text h)))
      else apply_hunks path (replace_first body (hk_old_text h) (hk_new_text h)) hs)"

section \<open>The plan\<close>

definition mark_touched :: "string \<Rightarrow> string list \<Rightarrow> patch_error + string list" where
  "mark_touched path touched =
     (if path \<in> set touched then Err (PeUser (''duplicate path in patch: '' @ path)) else Ok (touched @ [path]))"

fun is_refusal :: "sandbox_error \<Rightarrow> bool" where
  "is_refusal (SbCapabilityDenied _) = True"
| "is_refusal (SbBudgetExhausted _) = True"
| "is_refusal _ = False"

definition ensure_missing ::
  "string \<Rightarrow> string \<Rightarrow> ('s, 'b, 'j, 'v, 'd) agent_cell \<Rightarrow> (patch_error + unit) \<times> ('s, 'b, 'j, 'v, 'd) agent_cell" where
  "ensure_missing path operation c =
     (case path_exists_for_write path c of
        (Inr True, c1) \<Rightarrow> (Err (PeUser (operation @ '' target already exists: '' @ path)), c1)
      | (Inr False, c1) \<Rightarrow> (Ok (), c1)
      | (Inl e, c1) \<Rightarrow>
          (Err (if is_refusal e then PeSandbox e
                else PeUser (operation @ '' target check failed for '' @ path @ '': '' @ show_sandbox_error e)), c1))"

definition ensure_present_for_write ::
  "string \<Rightarrow> string \<Rightarrow> ('s, 'b, 'j, 'v, 'd) agent_cell \<Rightarrow> (patch_error + unit) \<times> ('s, 'b, 'j, 'v, 'd) agent_cell" where
  "ensure_present_for_write path operation c =
     (case path_exists_for_write path c of
        (Inr True, c1) \<Rightarrow> (Ok (), c1)
      | (Inr False, c1) \<Rightarrow> (Err (PeUser (operation @ '' source does not exist: '' @ path)), c1)
      | (Inl e, c1) \<Rightarrow>
          (Err (if is_refusal e then PeSandbox e
                else PeUser (operation @ '' source check failed for '' @ path @ '': '' @ show_sandbox_error e)), c1))"

definition read_utf8 ::
  "string \<Rightarrow> ('s, 'b, 'j, 'v, 'd) agent_cell \<Rightarrow> (sandbox_error + string) \<times> ('s, 'b, 'j, 'v, 'd) agent_cell" where
  "read_utf8 path = seq (read_file_inner path) (\<lambda>data c. (Ok (from_utf8_lossy data), c))"

text \<open>A step that does not touch the cell.\<close>

definition pure_step :: "'e + 'a \<Rightarrow> 'c \<Rightarrow> ('e + 'a) \<times> 'c" where
  "pure_step r c = (r, c)"

fun plan_op ::
  "patch_op \<Rightarrow> string list \<Rightarrow> ('s, 'b, 'j, 'v, 'd) agent_cell \<Rightarrow>
   (patch_error + (planned_change \<times> string list)) \<times> ('s, 'b, 'j, 'v, 'd) agent_cell" where
  "plan_op (PoAdd path text) touched =
     seq (pure_step (mark_touched path touched))
       (\<lambda>t. seq (ensure_missing path ''add'') (\<lambda>_. pure_step (Ok (PcWrite path text WpMissing, t))))"
| "plan_op (PoDelete path) touched =
     seq (pure_step (mark_touched path touched))
       (\<lambda>t. seq (ensure_present_for_write path ''delete'') (\<lambda>_. pure_step (Ok (PcDelete path, t))))"
| "plan_op (PoUpdate path (Some to) []) touched =
     seq (pure_step (mark_touched path touched))
       (\<lambda>t. seq (pure_step (mark_touched to t))
         (\<lambda>t. seq (ensure_present_for_write path ''move'')
           (\<lambda>_. seq (ensure_missing to ''move'') (\<lambda>_. pure_step (Ok (PcMove path to, t))))))"
| "plan_op (PoUpdate path target hunks) touched =
     seq (\<lambda>c. convert_err (\<lambda>e. if is_refusal e then PeSandbox e
                  else PeUser (''update failed for '' @ path @ '': '' @ show_sandbox_error e)) (read_utf8 path c))
       (\<lambda>original. seq (pure_step (map_err PeUser (apply_hunks path original hunks)))
         (\<lambda>updated. seq (pure_step (mark_touched path touched))
           (\<lambda>t. case target of
              Some to \<Rightarrow>
                seq (pure_step (mark_touched to t))
                  (\<lambda>t. seq (ensure_missing to ''move'')
                    (\<lambda>_. pure_step (Ok (PcMoveAndWrite path to updated (Some original), t))))
            | None \<Rightarrow> pure_step (Ok (PcWrite path updated (WpMatches original), t)))))"

fun plan_ops ::
  "patch_op list \<Rightarrow> string list \<Rightarrow> ('s, 'b, 'j, 'v, 'd) agent_cell \<Rightarrow>
   (patch_error + planned_change list) \<times> ('s, 'b, 'j, 'v, 'd) agent_cell" where
  "plan_ops [] touched = pure_step (Ok [])"
| "plan_ops (op # ops) touched =
     seq (plan_op op touched) (\<lambda>(change, t). seq (plan_ops ops t) (\<lambda>changes. pure_step (Ok (change # changes))))"

definition plan_patch ::
  "string \<Rightarrow> ('s, 'b, 'j, 'v, 'd) agent_cell \<Rightarrow> (patch_error + planned_change list) \<times> ('s, 'b, 'j, 'v, 'd) agent_cell" where
  "plan_patch patch = seq (pure_step (map_err PeUser (parse_patch patch))) (\<lambda>ops. plan_ops ops [])"

section \<open>The commit and the tool\<close>

fun mutation_of :: "planned_change \<Rightarrow> vfs_mutation" where
  "mutation_of (PcWrite path text p) = VmWrite path text p"
| "mutation_of (PcDelete path) = VmDelete path"
| "mutation_of (PcMove from to) = VmMove from to"
| "mutation_of (PcMoveAndWrite from to text p) = VmMoveAndWrite from to text p"

fun touched_label :: "planned_change \<Rightarrow> string" where
  "touched_label (PcWrite path _ _) = path"
| "touched_label (PcDelete path) = path"
| "touched_label (PcMove from to) = from @ '' -> '' @ to"
| "touched_label (PcMoveAndWrite from to _ _) = from @ '' -> '' @ to"

fun map_sandbox_error :: "sandbox_error \<Rightarrow> tool_error" where
  "map_sandbox_error (SbCapabilityDenied d) = ToolDenied d"
| "map_sandbox_error (SbBudgetExhausted b) = ExecutionFailed (''budget exhausted: '' @ show_budget_exhausted b)"
| "map_sandbox_error (SbVfs e) = ExecutionFailed (show_vfs_error e)"
| "map_sandbox_error e = ExecutionFailed (show_sandbox_error e)"

record patch_output =
  po_message :: string
  po_is_error :: bool
  po_changed :: "string list option"

definition apply_plan ::
  "planned_change list \<Rightarrow> ('s, 'b, 'j, 'v, 'd) agent_cell \<Rightarrow> (tool_error + patch_output) \<times> ('s, 'b, 'j, 'v, 'd) agent_cell" where
  "apply_plan changes =
     (let touched = map touched_label changes
      in seq (\<lambda>c. convert_err map_sandbox_error (apply_vfs_mutations ''apply_patch'' (map mutation_of changes) c))
           (\<lambda>_. pure_step (Ok
              \<lparr>po_message = (if touched = [] then ''patch applied with no file changes''
                             else ''patch applied: '' @ join_str '', '' touched),
               po_is_error = False, po_changed = Some touched\<rparr>)))"

definition apply_patch ::
  "string \<Rightarrow> ('s, 'b, 'j, 'v, 'd) agent_cell \<Rightarrow> (tool_error + patch_output) \<times> ('s, 'b, 'j, 'v, 'd) agent_cell" where
  "apply_patch patch c =
     (case plan_patch patch c of
        (Inr changes, c1) \<Rightarrow> apply_plan changes c1
      | (Inl (PeUser message), c1) \<Rightarrow> (Ok \<lparr>po_message = message, po_is_error = True, po_changed = None\<rparr>, c1)
      | (Inl (PeSandbox e), c1) \<Rightarrow> (Err (map_sandbox_error e), c1))"

section \<open>What a patch says\<close>

text \<open>Patches as they are written: the printed form of a list of items, and what each item means.\<close>

datatype hunk_item = Keep string | Cut string | Put string

datatype patch_item =
    SrcAdd string "string list"
  | SrcDelete string
  | SrcUpdate string "string option" "hunk_item list list"

fun print_hunk_item :: "hunk_item \<Rightarrow> string" where
  "print_hunk_item (Keep l) = '' '' @ l"
| "print_hunk_item (Cut l) = ''-'' @ l"
| "print_hunk_item (Put l) = ''+'' @ l"

fun old_lines :: "hunk_item list \<Rightarrow> string list" where
  "old_lines [] = []"
| "old_lines (Keep l # is) = l # old_lines is"
| "old_lines (Cut l # is) = l # old_lines is"
| "old_lines (Put l # is) = old_lines is"

fun new_lines :: "hunk_item list \<Rightarrow> string list" where
  "new_lines [] = []"
| "new_lines (Keep l # is) = l # new_lines is"
| "new_lines (Cut l # is) = new_lines is"
| "new_lines (Put l # is) = l # new_lines is"

definition hunk_meaning :: "hunk_item list \<Rightarrow> hunk" where
  "hunk_meaning is = \<lparr>hk_old_text = join_patch_lines (old_lines is), hk_new_text = join_patch_lines (new_lines is)\<rparr>"

fun print_item :: "patch_item \<Rightarrow> string list" where
  "print_item (SrcAdd p ls) = (''*** Add File: '' @ p) # map ((#) (CHR ''+'')) ls"
| "print_item (SrcDelete p) = [''*** Delete File: '' @ p]"
| "print_item (SrcUpdate p t hs) =
     (''*** Update File: '' @ p) # (case t of None \<Rightarrow> [] | Some q \<Rightarrow> [''*** Move to: '' @ q]) @
     concat (map (\<lambda>h. ''@@'' # map print_hunk_item h) hs)"

fun item_meaning :: "patch_item \<Rightarrow> patch_op" where
  "item_meaning (SrcAdd p ls) = PoAdd (patch_path p) (join_patch_lines ls)"
| "item_meaning (SrcDelete p) = PoDelete (patch_path p)"
| "item_meaning (SrcUpdate p t hs) = PoUpdate (patch_path p) (map_option patch_path t) (map hunk_meaning hs)"

fun item_ok :: "patch_item \<Rightarrow> bool" where
  "item_ok (SrcUpdate p t hs) = ((t \<noteq> None \<or> hs \<noteq> []) \<and> [] \<notin> set hs)"
| "item_ok _ = True"

definition print_patch :: "patch_item list \<Rightarrow> string" where
  "print_patch is = join_str [CHR 0x0A] (''*** Begin Patch'' # concat (map print_item is) @ [''*** End Patch''])"

definition one_line :: "string \<Rightarrow> bool" where
  "one_line l \<longleftrightarrow> CHR 0x0A \<notin> set l \<and> (l = [] \<or> last l \<noteq> CHR 0x0D)"

section \<open>Round trip\<close>

lemma lines_of_append: "CHR 0x0A \<notin> set l \<Longrightarrow> lines_of cur (l @ CHR 0x0A # rest) = strip_cr (cur @ l) # lines_of [] rest"
  by (induction l arbitrary: cur) auto

lemma lines_of_last: "CHR 0x0A \<notin> set l \<Longrightarrow> cur @ l \<noteq> [] \<Longrightarrow> lines_of cur l = [cur @ l]"
  by (induction l arbitrary: cur) auto

lemma strip_cr_same: "one_line l \<Longrightarrow> strip_cr l = l"
  by (cases l rule: rev_cases; cases "strip_suffix l [CHR 0x0D]") (auto simp: strip_cr_def strip_suffix_Some one_line_def)

lemma join_str_Cons: "join_str sep (x # y # ys) = x @ sep @ join_str sep (y # ys)"
  by (simp add: join_str_def)

lemma lines_join:
  assumes "\<forall>l \<in> set ls. one_line l" "l \<noteq> []" "one_line l"
  shows "lines (join_str [CHR 0x0A] (ls @ [l])) = ls @ [l]"
  using assms(1)
proof (induction ls)
  case Nil
  then show ?case using assms(2,3) by (simp add: join_str_def lines_def lines_of_last one_line_def)
next
  case (Cons x ls)
  have "join_str [CHR 0x0A] ((x # ls) @ [l]) = x @ CHR 0x0A # join_str [CHR 0x0A] (ls @ [l])"
    by (cases ls) (simp_all add: join_str_Cons)
  moreover have "CHR 0x0A \<notin> set x" using Cons.prems by (simp add: one_line_def)
  ultimately show ?case using Cons strip_cr_same[of x] by (simp add: lines_def lines_of_append)
qed

lemma parse_added_print:
  "(rest = [] \<or> is_marker (hd rest)) \<Longrightarrow> parse_added p added (map ((#) (CHR ''+'')) ls @ rest) = Ok (added @ ls, rest)"
proof (induction ls arbitrary: added)
  case Nil
  then show ?case by (cases rest) auto
qed (auto simp: is_marker_def starts_with_def strip_prefix_def)

lemma hunk_lines_print:
  "(rest = [] \<or> is_marker (hd rest) \<or> starts_with (hd rest) ''@@'') \<Longrightarrow>
   hunk_lines old new (map print_hunk_item is @ rest) = Ok (old @ old_lines is, new @ new_lines is, rest)"
proof (induction "is" arbitrary: old new)
  case Nil
  then show ?case by (cases rest) auto
next
  case (Cons i "is")
  then show ?case by (cases i) (auto simp: is_marker_def starts_with_def strip_prefix_def)
qed

lemma no_lines: "old_lines is = [] \<Longrightarrow> new_lines is = [] \<Longrightarrow> is = []"
  by (cases "is" rule: old_lines.cases) auto

lemma parse_hunks_print:
  assumes "[] \<notin> set hs" "rest = [] \<or> is_marker (hd rest)"
  shows "parse_hunks p hunks (concat (map (\<lambda>h. ''@@'' # map print_hunk_item h) hs) @ rest) = Ok (hunks @ map hunk_meaning hs, rest)"
  using assms(1)
proof (induction hs arbitrary: hunks)
  case Nil
  then show ?case using assms(2) by (cases rest) auto
next
  case (Cons h hs)
  let ?more = "concat (map (\<lambda>h. ''@@'' # map print_hunk_item h) hs) @ rest"
  have "?more = [] \<or> is_marker (hd ?more) \<or> starts_with (hd ?more) ''@@''"
    using assms(2) by (cases hs) (auto simp: starts_with_def)
  from hunk_lines_print[OF this, of "[]" "[]" h]
  have "parse_hunk (map print_hunk_item h @ ?more) = Ok (hunk_meaning h, ?more)"
    using Cons.prems no_lines[of h] by (auto simp: parse_hunk_def hunk_meaning_def)
  then show ?case using Cons by (simp add: is_marker_def starts_with_def)
qed

lemma print_item_marker: "is_marker (hd (print_item i))" "print_item i \<noteq> []"
  by (cases i; simp add: is_marker_def starts_with_def)+

lemma next_marker: "concat (map print_item is) = [] \<or> is_marker (hd (concat (map print_item is)))"
  by (cases "is") (auto simp: print_item_marker hd_append)

lemma parse_ops_print: "\<forall>i \<in> set is. item_ok i \<Longrightarrow> parse_ops (concat (map print_item is)) = Ok (map item_meaning is)"
proof (induction "is")
  case (Cons i "is")
  note nm = next_marker[of "is"]
  show ?case
  proof (cases i)
    case (SrcAdd p ls)
    then show ?thesis using Cons parse_added_print[OF nm, of p "[]" ls] by (simp add: strip_prefix_def)
  next
    case (SrcDelete p)
    then show ?thesis using Cons by (simp add: strip_prefix_def)
  next
    case (SrcUpdate p t hs)
    let ?hs = "concat (map (\<lambda>h. ''@@'' # map print_hunk_item h) hs) @ concat (map print_item is)"
    have "move_target ((case t of None \<Rightarrow> [] | Some q \<Rightarrow> [''*** Move to: '' @ q]) @ ?hs) = (map_option patch_path t, ?hs)"
    proof (cases t)
      case None
      then obtain h hs' where "hs = h # hs'" using SrcUpdate Cons.prems by (cases hs) auto
      then show ?thesis using None by (simp add: move_target_def strip_prefix_def)
    qed (simp add: move_target_def strip_prefix_def)
    then show ?thesis using Cons SrcUpdate parse_hunks_print[OF _ nm, of hs p "[]"] by (auto simp: strip_prefix_def)
  qed
qed simp

text \<open>
  C5: A patch that follows the grammar parses to what it says: printing a list of file additions,
  deletions and updates with their hunks and parsing the text gives exactly these operations, with the
  paths normalised.
\<close>

theorem patch_parses_back:
  assumes "\<forall>i \<in> set is. item_ok i" "\<forall>l \<in> set (concat (map print_item is)). one_line l"
  shows "parse_patch (print_patch is) = Ok (map item_meaning is)"
proof -
  let ?body = "concat (map print_item is)"
  have "lines (print_patch is) = (''*** Begin Patch'' # ?body) @ [''*** End Patch'']"
    unfolding print_patch_def using lines_join[of "''*** Begin Patch'' # ?body" "''*** End Patch''"] assms(2)
    by (simp add: one_line_def)
  then show ?thesis using parse_ops_print[OF assms(1)] by (simp add: parse_patch_def)
qed

definition demo_patch :: "patch_item list" where
  "demo_patch =
     [SrcAdd ''a/./b'' [''x'', ''''], SrcUpdate ''/c'' (Some ''../d'') [[Keep ''k'', Cut ''o'', Put ''n'']], SrcDelete ''e'']"

theorem patch_parses_back_witness:
  "parse_patch (print_patch demo_patch) =
     Ok [PoAdd ''/a/b'' (''x'' @ [CHR 0x0A, CHR 0x0A]),
         PoUpdate ''/c'' (Some ''/d'')
           [\<lparr>hk_old_text = ''k'' @ [CHR 0x0A] @ ''o'' @ [CHR 0x0A], hk_new_text = ''k'' @ [CHR 0x0A] @ ''n'' @ [CHR 0x0A]\<rparr>],
         PoDelete ''/e'']"
proof -
  have ok: "\<forall>i \<in> set demo_patch. item_ok i" "\<forall>l \<in> set (concat (map print_item demo_patch)). one_line l"
    by (simp_all add: demo_patch_def one_line_def)
  have "map item_meaning demo_patch = [PoAdd ''/a/b'' (''x'' @ [CHR 0x0A, CHR 0x0A]),
         PoUpdate ''/c'' (Some ''/d'')
           [\<lparr>hk_old_text = ''k'' @ [CHR 0x0A] @ ''o'' @ [CHR 0x0A], hk_new_text = ''k'' @ [CHR 0x0A] @ ''n'' @ [CHR 0x0A]\<rparr>],
         PoDelete ''/e'']" by code_simp
  with patch_parses_back[OF ok] show ?thesis by simp
qed

text \<open>
  The text of a hunk is matched anywhere, also inside a line, and overlapping places count as one, so a
  hunk of whole lines may change half a line, or one of several places.
\<close>

theorem hunk_matches_inside_a_line:
  "apply_hunks ''/f'' (''ab'' @ [CHR 0x0A]) [hunk_meaning [Cut ''b'', Put ''c'']] = Ok (''ac'' @ [CHR 0x0A])"
  "apply_hunks ''/f'' [CHR ''a'', CHR 0x0A, CHR ''a'', CHR 0x0A, CHR ''a'', CHR 0x0A] [hunk_meaning [Keep ''a'', Cut ''a'']] =
     Ok [CHR ''a'', CHR 0x0A, CHR ''a'', CHR 0x0A]"
  by code_simp+

end
