(* ===== verification/Apply_Patch_Run.thy ===== *)
theory Apply_Patch_Run
  imports Apply_Patch Sandbox_Safety
begin

text \<open>
  A call of the patch tool is a run of the agent cell: it reads first, and then commits at most one batch,
  in which no path occurs twice and every overwrite is guarded by what was read.  So every theorem on
  the runs of a cell covers the tool.
\<close>

section \<open>Reading\<close>

fun read_op :: "cell_op \<Rightarrow> bool" where
  "read_op (OpReadFile _) = True"
| "read_op (OpExistsForWrite _) = True"
| "read_op _ = False"

definition reads ::
  "('s, 'b, 'j, 'v, 'd) agent_cell \<Rightarrow> ('s, 'b, 'j, 'v, 'd) agent_cell \<Rightarrow> bool" where
  "reads c c' \<longleftrightarrow> (\<exists>ops. run_ops ops c = Some c' \<and> (\<forall>op \<in> set ops. read_op op))"

lemma run_ops_append: "run_ops (xs @ ys) c = Option.bind (run_ops xs c) (run_ops ys)"
  by (induction xs arbitrary: c) (auto simp: bind_assoc Option.bind_assoc split: Option.bind_splits)

lemma reads_refl [simp]: "reads c c"
  unfolding reads_def by (rule exI[of _ "[]"]) simp

lemma reads_trans: "reads c c1 \<Longrightarrow> reads c1 c2 \<Longrightarrow> reads c c2"
proof -
  assume "reads c c1" "reads c1 c2"
  then obtain xs ys where "run_ops xs c = Some c1" "run_ops ys c1 = Some c2" "\<forall>op \<in> set (xs @ ys). read_op op"
    unfolding reads_def by auto
  then show ?thesis unfolding reads_def by (intro exI[of _ "xs @ ys"]) (simp add: run_ops_append)
qed

lemma reads_seq:
  assumes "reads c (snd (m c))" "\<And>x c1. m c = (Ok x, c1) \<Longrightarrow> reads c1 (snd (f x c1))"
  shows "reads c (snd (seq m f c))"
proof (cases "m c")
  case (Pair r c1)
  then show ?thesis
    using assms(1) reads_trans[OF _ assms(2)] by (cases r) (auto simp: seq_def)
qed

lemma reads_pure [simp]: "reads c (snd (pure_step r c))"
  by (simp add: pure_step_def)

lemma reads_file: "reads c (snd (read_file_inner p c))"
  unfolding reads_def by (rule exI[of _ "[OpReadFile p]"]) simp

lemma reads_exists: "reads c (snd (path_exists_for_write p c))"
  unfolding reads_def by (rule exI[of _ "[OpExistsForWrite p]"]) simp

lemma reads_checks [simp]: "reads c (snd (ensure_missing p op c))" "reads c (snd (ensure_present_for_write p op c))"
  using reads_exists[of c p]
  by (auto simp: ensure_missing_def ensure_present_for_write_def split: prod.split sum.split bool.split)

lemma reads_utf8 [simp]: "reads c (snd (read_utf8 p c))"
  unfolding read_utf8_def by (rule reads_seq[OF reads_file]) simp

lemma plan_op_reads: "reads c (snd (plan_op op touched c))"
  by (cases "(op, touched)" rule: plan_op.cases) (auto intro!: reads_seq split: option.split)

lemma plan_ops_reads: "reads c (snd (plan_ops ops touched c))"
  by (induction ops touched arbitrary: c rule: plan_ops.induct) (auto intro!: reads_seq plan_op_reads)

lemma plan_reads: "reads c (snd (plan_patch patch c))"
  unfolding plan_patch_def by (auto intro!: reads_seq plan_ops_reads)

text \<open>Reading leaves the filesystem to the others.\<close>

lemma note_vfs [simp]: "ce_vfs (note_entry k c) = ce_vfs c"
  by (simp add: note_entry_def log_entry_def split: prod.split)

lemma read_file_waits: "ce_vfs (snd (read_file_inner p c)) \<in> {ce_vfs c, sf_turn (ce_vfs c)}"
  by (cases "check_path_read (ce_capability c) p")
    (simp_all add: read_file_inner_def seq_def check_and_journal_capability_def journal_denial_def on_vfs_ask cell_turn_def
      split: sum.split)

lemma exists_waits: "ce_vfs (snd (path_exists_for_write p c)) \<in> {ce_vfs c, sf_turn (ce_vfs c)}"
  by (cases "check_path_write (ce_capability c) p")
    (simp_all add: path_exists_for_write_def seq_def check_and_journal_capability_def journal_denial_def on_vfs_ask cell_turn_def)

lemma turns_once: "w \<in> {v, sf_turn v} \<Longrightarrow> \<exists>n. w = (sf_turn ^^ n) v"
  by (auto intro: exI[of _ 0] exI[of _ "Suc 0"])

lemma read_op_waits: "read_op op \<Longrightarrow> run_op op c = Some c' \<Longrightarrow> \<exists>n. ce_vfs c' = (sf_turn ^^ n) (ce_vfs c)"
  by (cases op rule: read_op.cases) (auto intro!: turns_once read_file_waits exists_waits)

lemma reads_waits:
  assumes "reads c c'"
  shows "\<exists>n. ce_vfs c' = (sf_turn ^^ n) (ce_vfs c)"
proof -
  obtain ops where "run_ops ops c = Some c'" "\<forall>op \<in> set ops. read_op op" using assms by (auto simp: reads_def)
  then show ?thesis
  proof (induction ops arbitrary: c)
    case Nil
    then show ?case by (intro exI[of _ 0]) simp
  next
    case (Cons op ops)
    then obtain c1 where c1: "run_op op c = Some c1" "run_ops ops c1 = Some c'" by (auto simp: bind_eq_Some_conv)
    with Cons obtain k n where "ce_vfs c1 = (sf_turn ^^ k) (ce_vfs c)" "ce_vfs c' = (sf_turn ^^ n) (ce_vfs c1)"
      using read_op_waits[OF _ c1(1)] by fastforce
    then show ?case by (intro exI[of _ "n + k"]) (simp add: funpow_add)
  qed
qed

section \<open>The batch\<close>

fun mutation_names :: "vfs_mutation \<Rightarrow> string list" where
  "mutation_names (VmWrite p _ _) = [p]"
| "mutation_names (VmDelete p) = [p]"
| "mutation_names (VmMove a b) = [a, b]"
| "mutation_names (VmMoveAndWrite a b _ _) = [a, b]"

fun guarded_mutation :: "vfs_mutation \<Rightarrow> bool" where
  "guarded_mutation (VmWrite _ _ WpAny) = False"
| "guarded_mutation (VmMoveAndWrite _ _ _ None) = False"
| "guarded_mutation _ = True"

lemma pure_Ok [simp]: "pure_step r c = (Ok x, c') \<longleftrightarrow> r = Ok x \<and> c' = c"
  by (auto simp: pure_step_def)

lemma mark_Ok [simp]: "mark_touched p t = Ok t' \<longleftrightarrow> p \<notin> set t \<and> t' = t @ [p]"
  by (auto simp: mark_touched_def)

lemma seq_OkE:
  assumes "seq m f c = (Ok y, c')"
  obtains x c1 where "m c = (Ok x, c1)" "f x c1 = (Ok y, c')"
  using assms by (auto simp: seq_def split: prod.splits sum.splits)

lemma plan_op_Ok:
  "plan_op op touched c = (Ok (ch, t), c') \<Longrightarrow> distinct touched \<Longrightarrow>
     t = touched @ mutation_names (mutation_of ch) \<and> distinct t \<and> guarded_mutation (mutation_of ch)"
  by (cases "(op, touched)" rule: plan_op.cases) (auto elim!: seq_OkE split: option.splits)

lemma plan_ops_Ok:
  "plan_ops ops touched c = (Ok cs, c') \<Longrightarrow> distinct touched \<Longrightarrow>
     distinct (touched @ concat (map mutation_names (map mutation_of cs))) \<and> (\<forall>m \<in> set (map mutation_of cs). guarded_mutation m)"
proof (induction ops arbitrary: touched c cs)
  case (Cons op ops)
  from Cons.prems(1) obtain ch t c1 rest c2
    where s: "plan_op op touched c = (Ok (ch, t), c1)" "plan_ops ops t c1 = (Ok rest, c2)" "cs = ch # rest" "c2 = c'"
    by (auto elim!: seq_OkE)
  from plan_op_Ok[OF s(1) Cons.prems(2)] have t: "t = touched @ mutation_names (mutation_of ch)" "distinct t"
    "guarded_mutation (mutation_of ch)" by blast+
  from Cons.IH[OF s(2)[unfolded s(4)] t(2)] s(3) t show ?case by simp
qed simp


definition run_patch :: string where
  "run_patch = print_patch [SrcAdd ''/w/n'' [''x'']]"

lemma run_patch_ok: "\<exists>out. fst (apply_patch run_patch sb_cell) = Ok out \<and> \<not> po_is_error out"
  by (rule exI[of _ "\<lparr>po_message = ''patch applied: /w/n'', po_is_error = False, po_changed = Some [''/w/n'']\<rparr>"]) code_simp


end
