(* ===== verification/Server_Events.thy ===== *)
theory Server_Events
  imports Sim_Prelude
begin

text \<open>
  The events of a server task: JSON values, the activity events of an agent
  (\<^verbatim>\<open>simulacra-types/src/activity.rs\<close>), their translation for the clients of the server
  (\<^verbatim>\<open>simulacra-server/src/engine.rs\<close>) and the channel that keeps the history of a task beside its live
  receivers (\<^verbatim>\<open>simulacra-server/src/task.rs\<close>).
\<close>

section \<open>JSON values\<close>

text \<open>A number that is not an integer is kept by its text.\<close>

datatype json =
    JNull | JBool bool | JInt int | JReal string | JStr string | JArr "json list"
  | JObj "(string, json) btree"

definition json_object :: "(string \<times> json) list \<Rightarrow> json" where
  "json_object fields = JObj (foldl (\<lambda>m (k, v). bt_insert k v m) [] fields)"

fun json_get :: "json \<Rightarrow> string \<Rightarrow> json option" where
  "json_get (JObj m) k = bt_get m k"
| "json_get _ k = None"

text \<open>Assignment to a key: it makes an object of null and panics on any other value.\<close>

fun json_set :: "string \<Rightarrow> json \<Rightarrow> json \<Rightarrow> json option" where
  "json_set k v (JObj m) = Some (JObj (bt_insert k v m))"
| "json_set k v JNull = Some (JObj [(k, v)])"
| "json_set k v _ = None"

fun json_opt_str :: "string option \<Rightarrow> json" where
  "json_opt_str None = JNull"
| "json_opt_str (Some s) = JStr s"

fun json_opt :: "json option \<Rightarrow> json" where
  "json_opt None = JNull"
| "json_opt (Some v) = v"

definition json_u64 :: "u64 \<Rightarrow> json" where
  "json_u64 n = JInt (uint n)"

lemma json_get_set [simp]: "json_set k v j = Some j' \<Longrightarrow> json_get j' q = (if q = k then Some v else json_get j q)"
  by (cases j) (auto simp: bt_simps bt_get_def)

lemma json_get_object_Nil [simp]: "json_get (json_object []) k = None"
  by (simp add: json_object_def)

lemma json_get_object_snoc [simp]:
  "json_get (json_object (fs @ [(k, v)])) q = (if q = k then Some v else json_get (json_object fs) q)"
  by (simp add: json_object_def bt_simps)

lemma json_get_object: "json_get (json_object fs) k = map_of (rev fs) k"
proof (induction fs rule: rev_induct)
  case (snoc x fs)
  then show ?case by (cases x) simp
qed simp

section \<open>Activity events\<close>

datatype activity_event =
    AcToken string
  | AcThinkStart
  | AcThinkDelta string
  | AcThinkEnd u64 u64
  | AcToolStart string string json
  | AcToolApprovalRequired string string json "string option"
  | AcToolCallDelta u64 "string option" "string option" string
  | AcToolOutput string string
  | AcInputRequired string "json option"
  | AcToolFinish string string bool u64 "int option"
  | AcChildSpawned string string string
  | AcChildActivity string string activity_event
  | AcChildFinished string string string u64 u32 u64
  | AcWorkflowStarted string string string
  | AcWorkflowProgress string string
  | AcWorkflowPhaseStarted string string
  | AcWorkflowPhaseCompleted string string
  | AcWorkflowAgentStarted string string "string option" "string option"
  | AcWorkflowAgentCompleted string string bool bool
  | AcWorkflowCompleted string
  | AcWorkflowFailed string string
  | AcWorkflowCancelled string
  | AcTurnComplete

text \<open>The fields of the event a client sees, in the order the code writes them.\<close>

fun translated_fields :: "string \<Rightarrow> activity_event \<Rightarrow> (string \<times> json) list" where
  "translated_fields t (AcToken text) =
     [(''event'', JStr ''agent.message''), (''task_id'', JStr t), (''content'', JStr text), (''role'', JStr ''assistant'')]"
| "translated_fields t AcThinkStart =
     [(''event'', JStr ''agent.thinking''), (''task_id'', JStr t), (''state'', JStr ''started'')]"
| "translated_fields t (AcThinkDelta text) =
     [(''event'', JStr ''agent.thinking''), (''task_id'', JStr t), (''content'', JStr text)]"
| "translated_fields t (AcThinkEnd ms tokens) =
     [(''event'', JStr ''agent.thinking''), (''task_id'', JStr t), (''state'', JStr ''ended''),
      (''duration_ms'', json_u64 ms), (''tokens'', json_u64 tokens)]"
| "translated_fields t (AcToolStart call_id name args) =
     [(''event'', JStr ''tool.called''), (''task_id'', JStr t), (''tool_call_id'', JStr call_id),
      (''tool_name'', JStr name), (''arguments'', args)]"
| "translated_fields t (AcToolApprovalRequired call_id name args reason) =
     [(''event'', JStr ''tool.approval_required''), (''task_id'', JStr t), (''tool_call_id'', JStr call_id),
      (''tool_name'', JStr name), (''arguments'', args), (''reason'', json_opt_str reason)]"
| "translated_fields t (AcToolCallDelta index call_id name delta) =
     [(''event'', JStr ''tool.call_delta''), (''task_id'', JStr t), (''index'', json_u64 index),
      (''tool_call_id'', json_opt_str call_id), (''tool_name'', json_opt_str name), (''arguments_delta'', JStr delta)]"
| "translated_fields t (AcToolOutput call_id line) =
     [(''event'', JStr ''tool.output''), (''task_id'', JStr t), (''tool_call_id'', JStr call_id), (''line'', JStr line)]"
| "translated_fields t (AcInputRequired prompt schema) =
     [(''event'', JStr ''input.required''), (''task_id'', JStr t), (''prompt'', JStr prompt), (''schema'', json_opt schema)]"
| "translated_fields t (AcToolFinish call_id name is_error ms exit_code) =
     [(''event'', JStr ''tool.result''), (''task_id'', JStr t), (''tool_call_id'', JStr call_id),
      (''tool_name'', JStr name), (''is_error'', JBool is_error), (''duration_ms'', json_u64 ms)]"
| "translated_fields t (AcChildSpawned child placement task) =
     [(''event'', JStr ''agent.child_spawned''), (''task_id'', JStr t), (''child_id'', JStr child),
      (''placement'', JStr placement), (''child_task'', JStr task)]"
| "translated_fields t (AcChildFinished child placement exit_reason ms tool_uses token_count) =
     [(''event'', JStr ''agent.child_finished''), (''task_id'', JStr t), (''child_id'', JStr child),
      (''placement'', JStr placement), (''exit_reason'', JStr exit_reason), (''duration_ms'', json_u64 ms)]"
| "translated_fields t (AcWorkflowStarted run path name) =
     [(''event'', JStr ''workflow.started''), (''task_id'', JStr t), (''run_id'', JStr run),
      (''script_path'', JStr path), (''name'', JStr name), (''status'', JStr ''running'')]"
| "translated_fields t (AcWorkflowProgress run message) =
     [(''event'', JStr ''workflow.progress''), (''task_id'', JStr t), (''run_id'', JStr run),
      (''message'', JStr message), (''status'', JStr ''running'')]"
| "translated_fields t (AcWorkflowPhaseStarted run name) =
     [(''event'', JStr ''workflow.phase_start''), (''task_id'', JStr t), (''run_id'', JStr run),
      (''phase'', JStr name), (''status'', JStr ''running'')]"
| "translated_fields t (AcWorkflowPhaseCompleted run name) =
     [(''event'', JStr ''workflow.phase_finish''), (''task_id'', JStr t), (''run_id'', JStr run),
      (''phase'', JStr name), (''status'', JStr ''running'')]"
| "translated_fields t (AcWorkflowAgentStarted run key agent task) =
     [(''event'', JStr ''workflow.agent_start''), (''task_id'', JStr t), (''run_id'', JStr run),
      (''agent_label'', JStr key), (''agent_type'', json_opt_str agent), (''child_task'', json_opt_str task),
      (''status'', JStr ''running'')]"
| "translated_fields t (AcWorkflowAgentCompleted run key cached is_error) =
     [(''event'', JStr ''workflow.agent_finish''), (''task_id'', JStr t), (''run_id'', JStr run),
      (''agent_label'', JStr key), (''cached'', JBool cached), (''is_error'', JBool is_error),
      (''status'', JStr (if is_error then ''failed'' else ''running''))]"
| "translated_fields t (AcWorkflowCompleted run) =
     [(''event'', JStr ''workflow.completed''), (''task_id'', JStr t), (''run_id'', JStr run), (''status'', JStr ''completed'')]"
| "translated_fields t (AcWorkflowFailed run err) =
     [(''event'', JStr ''workflow.failed''), (''task_id'', JStr t), (''run_id'', JStr run),
      (''error'', JStr err), (''status'', JStr ''failed'')]"
| "translated_fields t (AcWorkflowCancelled run) =
     [(''event'', JStr ''workflow.cancelled''), (''task_id'', JStr t), (''run_id'', JStr run), (''status'', JStr ''cancelled'')]"
| "translated_fields t AcTurnComplete =
     [(''event'', JStr ''agent.turn_complete''), (''task_id'', JStr t)]"
| "translated_fields t (AcChildActivity _ _ _) =
     [(''event'', JStr ''error''), (''task_id'', JStr t),
      (''message'', JStr ''unexpected ChildActivity in translate_activity_event'')]"

definition translate_activity_event :: "string \<Rightarrow> activity_event \<Rightarrow> json" where
  "translate_activity_event t ev = json_object (translated_fields t ev)"

text \<open>Attribution to a child, unless an inner child is named already; the indexing cannot panic on the
  objects made here.\<close>

definition attribute_child :: "string \<Rightarrow> string \<Rightarrow> json \<Rightarrow> json" where
  "attribute_child child placement ev =
     (if json_get ev ''child_id'' \<noteq> None then ev
      else (case json_set ''child_id'' (JStr child) ev of
              None \<Rightarrow> ev
            | Some ev1 \<Rightarrow> (case json_set ''child_placement'' (JStr placement) ev1 of None \<Rightarrow> ev1 | Some ev2 \<Rightarrow> ev2)))"

fun flatten_activity_event :: "string \<Rightarrow> activity_event \<Rightarrow> json list" where
  "flatten_activity_event t (AcChildActivity child placement inner) =
     map (attribute_child child placement) (flatten_activity_event t inner)"
| "flatten_activity_event t ev = [translate_activity_event t ev]"

section \<open>The event channel\<close>

text \<open>The log holds every event sent, so a receiver is the number of the next event it will see.\<close>

record event_channel =
  ec_capacity :: nat
  ec_log :: "json list"
  ec_receivers :: "nat list"

definition event_channel_new :: "nat \<Rightarrow> event_channel" where
  "event_channel_new capacity = \<lparr>ec_capacity = capacity, ec_log = [], ec_receivers = []\<rparr>"

definition ec_send :: "json \<Rightarrow> event_channel \<Rightarrow> event_channel" where
  "ec_send ev c = c\<lparr>ec_log := ec_log c @ [ev]\<rparr>"

definition subscribe_with_history :: "event_channel \<Rightarrow> json list \<times> nat \<times> event_channel" where
  "subscribe_with_history c =
     (ec_log c, length (ec_receivers c), c\<lparr>ec_receivers := ec_receivers c @ [length (ec_log c)]\<rparr>)"

text \<open>Receiving from the broadcast channel: a receiver that fell behind the ring buffer is told how many
  events it missed and goes on with the oldest one kept.\<close>

datatype broadcast_result = Received json | Lagged nat | EmptyNow

definition ec_recv :: "nat \<Rightarrow> event_channel \<Rightarrow> broadcast_result \<times> event_channel" where
  "ec_recv r c =
     (let next = ec_receivers c ! r; tail = length (ec_log c)
      in if tail \<le> next then (EmptyNow, c)
         else if tail - next > ec_capacity c
         then (Lagged (tail - ec_capacity c - next), c\<lparr>ec_receivers := (ec_receivers c)[r := tail - ec_capacity c]\<rparr>)
         else (Received (ec_log c ! next), c\<lparr>ec_receivers := (ec_receivers c)[r := next + 1]\<rparr>))"

section \<open>What a translated event is\<close>

lemma fields_event: "\<exists>name rest. translated_fields t ev = (''event'', JStr name) # rest \<and> ''event'' \<notin> fst ` set rest \<and>
    name \<noteq> ''task.state_changed''"
  by (cases ev) auto

lemma translated_event: "\<exists>name. json_get (translate_activity_event t ev) ''event'' = Some (JStr name) \<and> name \<noteq> ''task.state_changed''"
proof -
  obtain name rest where f: "translated_fields t ev = (''event'', JStr name) # rest" "''event'' \<notin> fst ` set rest"
    "name \<noteq> ''task.state_changed''" using fields_event by blast
  have "map_of (rev rest) ''event'' = None" using f(2) by (simp add: map_of_eq_None_iff)
  then have "json_get (translate_activity_event t ev) ''event'' = Some (JStr name)"
    by (simp add: translate_activity_event_def json_get_object f(1) map_add_Some_iff)
  with f(3) show ?thesis by blast
qed

lemma attribute_keeps: "k \<noteq> ''child_id'' \<Longrightarrow> k \<noteq> ''child_placement'' \<Longrightarrow> json_get (attribute_child c p ev) k = json_get ev k"
  by (auto simp: attribute_child_def split: option.split)

lemma flattened_event:
  "e \<in> set (flatten_activity_event t ev) \<Longrightarrow>
     \<exists>name. json_get e ''event'' = Some (JStr name) \<and> name \<noteq> ''task.state_changed''"
proof (induction t ev arbitrary: e rule: flatten_activity_event.induct)
  case (1 t child placement inner)
  then show ?case by (auto simp: attribute_keeps)
qed (use translated_event in \<open>simp_all only: flatten_activity_event.simps list.set singleton_iff\<close>)

lemma flattened_one: "length (flatten_activity_event t ev) = 1"
  by (induction t ev rule: flatten_activity_event.induct) auto

section \<open>A late subscriber\<close>

text \<open>What a receiver is told, while events are sent and others subscribe and receive.\<close>

datatype channel_op = ChSend json | ChRecv nat | ChSubscribe

fun channel_run :: "nat \<Rightarrow> channel_op list \<Rightarrow> event_channel \<Rightarrow> broadcast_result list \<times> event_channel" where
  "channel_run r [] c = ([], c)"
| "channel_run r (ChSend ev # ops) c = channel_run r ops (ec_send ev c)"
| "channel_run r (ChSubscribe # ops) c = channel_run r ops (snd (snd (subscribe_with_history c)))"
| "channel_run r (ChRecv q # ops) c =
     (let (x, c1) = ec_recv q c; (xs, c2) = channel_run r ops c1 in (if q = r then x # xs else xs, c2))"

fun received :: "broadcast_result list \<Rightarrow> json list" where
  "received [] = []"
| "received (Received ev # xs) = ev # received xs"
| "received (_ # xs) = received xs"

definition not_lagged :: "broadcast_result list \<Rightarrow> bool" where
  "not_lagged xs \<longleftrightarrow> (\<forall>x \<in> set xs. \<forall>n. x \<noteq> Lagged n)"

text \<open>The receiver's place in the log.\<close>

definition in_log :: "nat \<Rightarrow> event_channel \<Rightarrow> bool" where
  "in_log r c \<longleftrightarrow> r < length (ec_receivers c) \<and> ec_receivers c ! r \<le> length (ec_log c)"

lemma recv_other: "q \<noteq> r \<Longrightarrow> ec_receivers (snd (ec_recv q c)) ! r = ec_receivers c ! r"
  by (simp add: ec_recv_def Let_def)

lemma recv_frame [simp]: "ec_log (snd (ec_recv q c)) = ec_log c"
    "length (ec_receivers (snd (ec_recv q c))) = length (ec_receivers c)"
  by (simp_all add: ec_recv_def Let_def)

lemma recv_next:
  assumes "in_log r c" "ec_recv r c = (x, c1)" "\<forall>n. x \<noteq> Lagged n"
  shows "in_log r c1 \<and> take (ec_receivers c1 ! r) (ec_log c1) = take (ec_receivers c ! r) (ec_log c) @ received [x]"
  using assms by (auto simp: ec_recv_def in_log_def Let_def take_Suc_conv_app_nth split: if_splits)

lemma channel_run_log:
  assumes "in_log r c" "channel_run r ops c = (xs, c')" "not_lagged xs"
  shows "in_log r c' \<and> take (ec_receivers c' ! r) (ec_log c') = take (ec_receivers c ! r) (ec_log c) @ received xs"
  using assms
proof (induction r ops c arbitrary: xs c' rule: channel_run.induct)
  case (4 r q ops c)
  obtain x c1 where x: "ec_recv q c = (x, c1)" by fastforce
  obtain ys c2 where ys: "channel_run r ops c1 = (ys, c2)" by fastforce
  have out: "xs = (if q = r then x # ys else ys)" "c' = c2" using 4(3) x ys by auto
  have lag: "not_lagged ys" using 4(4) out by (auto simp: not_lagged_def split: if_splits)
  have step: "in_log r c1 \<and> take (ec_receivers c1 ! r) (ec_log c1) =
      take (ec_receivers c ! r) (ec_log c) @ (if q = r then received [x] else [])"
  proof (cases "q = r")
    case True
    then show ?thesis using recv_next[OF 4(2)] x 4(4) out by (simp add: not_lagged_def)
  next
    case False
    have "c1 = snd (ec_recv q c)" by (simp add: x)
    then show ?thesis using False 4(2) recv_other[OF False, of c] by (simp add: in_log_def)
  qed
  have "received (x # ys) = received [x] @ received ys" by (cases x) auto
  moreover have "in_log r c2 \<and> take (ec_receivers c2 ! r) (ec_log c2) = take (ec_receivers c1 ! r) (ec_log c1) @ received ys"
    using 4(1)[OF x[symmetric] refl _ ys lag] step by simp
  ultimately show ?case using step out by simp
next
  case (1 r c)
  then show ?case by simp
next
  case (2 r ev ops c)
  have "in_log r (ec_send ev c)" "take (ec_receivers (ec_send ev c) ! r) (ec_log (ec_send ev c)) = take (ec_receivers c ! r) (ec_log c)"
    using 2(2) by (auto simp: in_log_def ec_send_def)
  with 2(1)[OF this(1) _ 2(4)] 2(3) show ?case by simp
next
  case (3 r ops c)
  let ?c = "snd (snd (subscribe_with_history c))"
  have "in_log r ?c" "take (ec_receivers ?c ! r) (ec_log ?c) = take (ec_receivers c ! r) (ec_log c)"
    using 3(2) by (auto simp: in_log_def subscribe_with_history_def nth_append)
  with 3(1)[OF this(1) _ 3(4)] 3(3) show ?case by simp
qed

text \<open>
  C9: A subscriber that connects late misses nothing and sees nothing twice: the history it gets with its
  subscription, followed by the events it receives until it is told of a lag, is the log of the task up to
  its place in it, and the whole log once it has drained the channel, whatever is sent meanwhile.
\<close>

theorem late_subscriber_misses_nothing:
  assumes "subscribe_with_history c = (history, r, c1)" "channel_run r ops c1 = (xs, c')" "not_lagged xs"
  shows "history @ received xs = take (ec_receivers c' ! r) (ec_log c') \<and>
    (fst (ec_recv r c') = EmptyNow \<longrightarrow> history @ received xs = ec_log c')"
proof -
  have c1: "c1 = c\<lparr>ec_receivers := ec_receivers c @ [length (ec_log c)]\<rparr>" "r = length (ec_receivers c)" "history = ec_log c"
    using assms(1) by (auto simp: subscribe_with_history_def)
  then have "in_log r c1" by (simp add: in_log_def)
  from channel_run_log[OF this assms(2,3)] c1
  have run: "in_log r c' \<and> take (ec_receivers c' ! r) (ec_log c') = history @ received xs" by simp
  then show ?thesis by (auto simp: ec_recv_def Let_def in_log_def split: if_splits)
qed

definition demo_late_ops :: "channel_op list" where
  "demo_late_ops = [ChSend (JStr ''b''), ChRecv 0, ChSubscribe, ChSend (JStr ''c''), ChRecv 0, ChRecv 0]"

theorem late_subscriber_misses_nothing_witness:
  "let (history, r, c1) = subscribe_with_history (ec_send (JStr ''a'') (event_channel_new 64));
       (xs, c') = channel_run r demo_late_ops c1
   in history = [JStr ''a''] \<and> history @ received xs = ec_log c' \<and> length (ec_log c') = 3"
proof -
  let ?s = "subscribe_with_history (ec_send (JStr ''a'') (event_channel_new 64))"
  obtain history r c1 where s: "?s = (history, r, c1)" by (metis prod_cases3)
  obtain xs c' where run: "channel_run r demo_late_ops c1 = (xs, c')" by fastforce
  have v: "history = [JStr ''a'']" "r = 0"
    using s by (auto simp: subscribe_with_history_def ec_send_def event_channel_new_def)
  have "xs = [Received (JStr ''b''), Received (JStr ''c''), EmptyNow]" "fst (ec_recv r c') = EmptyNow" "length (ec_log c') = 3"
    using s run by (auto simp: subscribe_with_history_def ec_send_def event_channel_new_def demo_late_ops_def ec_recv_def Let_def)
  moreover have "not_lagged xs" by (simp add: calculation(1) not_lagged_def)
  then have "history @ received xs = ec_log c'" using late_subscriber_misses_nothing[OF s run] calculation(2) by blast
  ultimately show ?thesis using s run v by simp
qed

end
