(* ===== verification/Server_Task.thy ===== *)
theory Server_Task
  imports Server_Events Agent_Loop
begin

text \<open>
  The task manager of the server (\<^verbatim>\<open>simulacra-server/src/task.rs\<close>, \<^verbatim>\<open>tenant.rs\<close>) and the activity sink that
  writes into a task's event channel beside it (\<^verbatim>\<open>engine.rs\<close>).  Everything that other parts hold a clone
  of lives at an address: event channels, response channels, cancellation tokens.  The clock is a field
  that the environment advances; the id of a new task is an argument.  Spans and histograms are left
  out, the gauge of active tasks is kept.  A panic while the table is locked poisons the lock.
\<close>

section \<open>Task states\<close>

datatype task_state =
    TsPending | TsRunning | TsStreaming | TsWaitingInput | TsWaitingApproval | TsPaused
  | TsCompleted | TsFailed | TsKilled | TsCancelled

definition is_terminal :: "task_state \<Rightarrow> bool" where
  "is_terminal s \<longleftrightarrow> s \<in> {TsCompleted, TsFailed, TsKilled, TsCancelled}"

fun show_task_state :: "task_state \<Rightarrow> string" where
  "show_task_state TsPending = ''pending''"
| "show_task_state TsRunning = ''running''"
| "show_task_state TsStreaming = ''streaming''"
| "show_task_state TsWaitingInput = ''waiting_input''"
| "show_task_state TsWaitingApproval = ''waiting_approval''"
| "show_task_state TsPaused = ''paused''"
| "show_task_state TsCompleted = ''completed''"
| "show_task_state TsFailed = ''failed''"
| "show_task_state TsKilled = ''killed''"
| "show_task_state TsCancelled = ''cancelled''"

record task_handle =
  th_task_id :: string
  th_state :: task_state
  th_metadata :: json
  th_description :: string
  th_agent_type :: string
  th_tenant :: string
  th_seq :: u64
  th_connection_id :: "string option"

datatype task_error =
    TeNotFound string
  | TeTerminalState string task_state
  | TeInvalidTransition string task_state task_state
  | TeApprovalDenied string string
  | TeLockPoisoned
  | TeSubscribeFailed string
  | TeNotImplemented string
  | TeChannelUnavailable string string
  | TeChannelClosed string string
  | TeApprovalMismatch string string

record budget_pool =
  bp_max_tokens :: u64
  bp_max_cost :: string

record tenant_config =
  tn_namespace :: string
  tn_agent_type :: string
  tn_vfs_root :: string
  tn_budget_pool :: budget_pool
  tn_hooks :: "string list"
  tn_integrations :: "string list"
  tn_mcp_servers :: "string list"

definition budget_pool_json :: "budget_pool \<Rightarrow> json" where
  "budget_pool_json b = json_object [(''max_tokens'', json_u64 (bp_max_tokens b)), (''max_cost'', JStr (bp_max_cost b))]"

section \<open>The manager\<close>

record task_record =
  tr_handle :: task_handle
  tr_input_tx :: "nat option"
  tr_approval_tx :: "nat option"
  tr_pending_approval :: "string option"
  tr_events :: nat
  tr_token :: "nat option"
  tr_running_since :: "nat option"
  tr_terminated_at :: "nat option"

text \<open>A bounded queue with one receiver.\<close>

record 'a response_channel =
  rc_capacity :: nat
  rc_queue :: "'a list"
  rc_open :: bool

definition try_send :: "'a \<Rightarrow> 'a response_channel \<Rightarrow> bool \<times> 'a response_channel" where
  "try_send x c =
     (if rc_open c \<and> length (rc_queue c) < rc_capacity c then (True, c\<lparr>rc_queue := rc_queue c @ [x]\<rparr>) else (False, c))"

record task_manager =
  tm_tasks :: "(string, task_record) btree"
  tm_grace :: nat
  tm_clock :: nat
  tm_poisoned :: bool
  tm_channels :: "event_channel list"
  tm_inputs :: "string response_channel list"
  tm_approvals :: "approval_response response_channel list"
  tm_tokens :: "bool list"
  tm_active :: "string \<Rightarrow> int"

definition DEFAULT_GRACE_PERIOD :: nat where
  "DEFAULT_GRACE_PERIOD = 3600 * 1000000000"

definition task_manager_new :: "nat \<Rightarrow> nat \<Rightarrow> task_manager" where
  "task_manager_new grace now =
     \<lparr>tm_tasks = [], tm_grace = grace, tm_clock = now, tm_poisoned = False, tm_channels = [], tm_inputs = [],
      tm_approvals = [], tm_tokens = [], tm_active = (\<lambda>_. 0)\<rparr>"

definition tm_send :: "nat \<Rightarrow> json \<Rightarrow> task_manager \<Rightarrow> task_manager" where
  "tm_send c ev m = m\<lparr>tm_channels := (tm_channels m)[c := ec_send ev (tm_channels m ! c)]\<rparr>"

definition add_active_tasks :: "string \<Rightarrow> int \<Rightarrow> task_manager \<Rightarrow> task_manager" where
  "add_active_tasks tenant n m = m\<lparr>tm_active := (tm_active m)(tenant := tm_active m tenant + n)\<rparr>"

definition put_record :: "string \<Rightarrow> task_record \<Rightarrow> task_manager \<Rightarrow> task_manager" where
  "put_record i r m = m\<lparr>tm_tasks := bt_insert i r (tm_tasks m)\<rparr>"

definition state_changed :: "string \<Rightarrow> task_state \<Rightarrow> task_state \<Rightarrow> u64 \<Rightarrow> string option \<Rightarrow> json" where
  "state_changed i from to sn reason =
     json_object ([(''event'', JStr ''task.state_changed''), (''task_id'', JStr i), (''from'', JStr (show_task_state from)),
       (''to'', JStr (show_task_state to)), (''seq'', json_u64 sn)] @
       (case reason of None \<Rightarrow> [] | Some r \<Rightarrow> [(''reason'', JStr r)]))"

text \<open>What a successful transition adds to the record, the log and the gauge.\<close>

definition enter_running :: "task_state \<Rightarrow> task_record \<Rightarrow> task_manager \<Rightarrow> task_record \<times> task_manager" where
  "enter_running next r m =
     (if next = TsRunning \<and> tr_running_since r = None
      then (r\<lparr>tr_running_since := Some (tm_clock m)\<rparr>, add_active_tasks (th_tenant (tr_handle r)) 1 m)
      else (r, m))"

definition enter_terminal :: "task_state \<Rightarrow> task_record \<Rightarrow> task_manager \<Rightarrow> task_record \<times> task_manager" where
  "enter_terminal next r m =
     (if is_terminal next
      then (r\<lparr>tr_terminated_at := (if tr_terminated_at r = None then Some (tm_clock m) else tr_terminated_at r)\<rparr>,
            if tr_running_since r \<noteq> None then add_active_tasks (th_tenant (tr_handle r)) (- 1) m else m)
      else (r, m))"

definition bump_seq :: "task_record \<Rightarrow> task_record" where
  "bump_seq r = r\<lparr>tr_handle := (tr_handle r)\<lparr>th_seq := th_seq (tr_handle r) + 1\<rparr>\<rparr>"

definition set_state :: "task_state \<Rightarrow> task_record \<Rightarrow> task_record" where
  "set_state s r = r\<lparr>tr_handle := (tr_handle r)\<lparr>th_state := s\<rparr>\<rparr>"

definition note_transition ::
  "string \<Rightarrow> task_state \<Rightarrow> task_state \<Rightarrow> string option \<Rightarrow> task_record \<Rightarrow> task_manager \<Rightarrow> task_manager" where
  "note_transition i prev next reason r m =
     (let r1 = bump_seq r;
          m1 = tm_send (tr_events r1) (state_changed i prev next (th_seq (tr_handle r1)) reason) m;
          (r2, m2) = enter_running next r1 m1;
          (r3, m3) = enter_terminal next r2 m2
      in put_record i r3 m3)"

type_synonym task_change = "task_record \<Rightarrow> task_manager \<Rightarrow> (task_error + task_state) \<times> task_record \<times> task_manager"

definition transition_with_reason ::
  "string \<Rightarrow> string option \<Rightarrow> task_change \<Rightarrow> task_manager \<Rightarrow> (task_error + task_state) \<times> task_manager" where
  "transition_with_reason i reason f m =
     (if tm_poisoned m then (Err TeLockPoisoned, m)
      else case bt_get (tm_tasks m) i of
             None \<Rightarrow> (Err (TeNotFound i), m)
           | Some r \<Rightarrow>
               (let prev = th_state (tr_handle r); (res, r1, m1) = f r m
                in case res of
                     Inl e \<Rightarrow> (Err e, put_record i r1 m1)
                   | Inr next \<Rightarrow> (Ok next, note_transition i prev next reason r1 m1)))"

definition transition_with :: "string \<Rightarrow> task_change \<Rightarrow> task_manager \<Rightarrow> (task_error + task_state) \<times> task_manager" where
  "transition_with i f m = transition_with_reason i None f m"

definition transition ::
  "string \<Rightarrow> (task_state \<Rightarrow> task_error + task_state) \<Rightarrow> task_manager \<Rightarrow> (task_error + task_state) \<times> task_manager" where
  "transition i validator m =
     transition_with i
       (\<lambda>r m. case validator (th_state (tr_handle r)) of
                Inl e \<Rightarrow> (Err e, r, m)
              | Inr next \<Rightarrow> (Ok next, set_state next r, m)) m"

section \<open>Creation\<close>

definition full_metadata :: "tenant_config \<Rightarrow> json \<Rightarrow> json" where
  "full_metadata tn metadata =
     (case metadata of JObj m \<Rightarrow> JObj (bt_insert ''budget_pool'' (budget_pool_json (tn_budget_pool tn)) m) | j \<Rightarrow> j)"

definition new_handle ::
  "string \<Rightarrow> tenant_config \<Rightarrow> string \<Rightarrow> string option \<Rightarrow> json \<Rightarrow> string option \<Rightarrow> task_handle" where
  "new_handle i tn task agent_type metadata conn =
     \<lparr>th_task_id = i, th_state = TsPending, th_metadata = full_metadata tn metadata, th_description = task,
      th_agent_type = unwrap_or agent_type (tn_agent_type tn), th_tenant = tn_namespace tn, th_seq = 0,
      th_connection_id = conn\<rparr>"

definition new_record :: "task_handle \<Rightarrow> nat \<Rightarrow> task_record" where
  "new_record h c =
     \<lparr>tr_handle = h, tr_input_tx = None, tr_approval_tx = None, tr_pending_approval = None, tr_events = c,
      tr_token = None, tr_running_since = None, tr_terminated_at = None\<rparr>"

definition create_pending_task ::
  "string \<Rightarrow> tenant_config \<Rightarrow> string \<Rightarrow> string option \<Rightarrow> json \<Rightarrow> string option \<Rightarrow> task_manager \<Rightarrow>
   (task_error + task_handle) \<times> task_manager" where
  "create_pending_task i tn task agent_type metadata conn m =
     (let h = new_handle i tn task agent_type metadata conn;
          c = length (tm_channels m);
          m1 = m\<lparr>tm_channels := tm_channels m @ [event_channel_new 64]\<rparr>
      in if tm_poisoned m then (Err TeLockPoisoned, m1) else (Ok h, put_record i (new_record h c) m1))"

definition create_task ::
  "string \<Rightarrow> tenant_config \<Rightarrow> string \<Rightarrow> string option \<Rightarrow> json \<Rightarrow> string option \<Rightarrow> task_manager \<Rightarrow>
   (task_error + task_handle) \<times> task_manager" where
  "create_task i tn task agent_type metadata conn m =
     (let c = length (tm_channels m);
          m1 = m\<lparr>tm_channels := tm_channels m @ [event_channel_new 64]\<rparr>;
          h = (new_handle i tn task agent_type metadata conn)\<lparr>th_state := TsRunning, th_seq := 1\<rparr>;
          r = (new_record h c)\<lparr>tr_running_since := Some (tm_clock m)\<rparr>;
          m2 = tm_send c (state_changed i TsPending TsRunning 1 None) (add_active_tasks (th_tenant h) 1 m1)
      in if tm_poisoned m then (Err TeLockPoisoned, m2) else (Ok h, put_record i r m2))"

section \<open>Operations\<close>

definition start_task :: "string \<Rightarrow> task_manager \<Rightarrow> (task_error + task_state) \<times> task_manager" where
  "start_task i = transition i (\<lambda>s. if s = TsPending then Ok TsRunning else Err (TeInvalidTransition i s TsRunning))"

definition signal_task_token :: "string \<Rightarrow> task_manager \<Rightarrow> task_manager" where
  "signal_task_token i m =
     (case bt_get (tm_tasks m) i of
        None \<Rightarrow> m
      | Some r \<Rightarrow> (case tr_token r of None \<Rightarrow> m | Some k \<Rightarrow> m\<lparr>tm_tokens := (tm_tokens m)[k := True]\<rparr>))"

definition cancel_signalled :: "string \<Rightarrow> task_manager \<Rightarrow> (task_error + task_state) \<times> task_manager" where
  "cancel_signalled i = transition i (\<lambda>s. if is_terminal s then Err (TeTerminalState i s) else Ok TsCancelled)"

text \<open>The table is locked once for the token and once for the transition.\<close>

definition cancel_task :: "string \<Rightarrow> task_manager \<Rightarrow> (task_error + task_state) \<times> task_manager" where
  "cancel_task i m =
     (if tm_poisoned m then (Err TeLockPoisoned, m) else cancel_signalled i (signal_task_token i m))"

definition pause_task :: "string \<Rightarrow> task_manager \<Rightarrow> (task_error + task_state) \<times> task_manager" where
  "pause_task i = transition i (\<lambda>s.
     if s = TsRunning \<or> s = TsStreaming then Ok TsPaused
     else if is_terminal s then Err (TeTerminalState i s)
     else Err (TeInvalidTransition i s TsPaused))"

definition resume_task :: "string \<Rightarrow> task_manager \<Rightarrow> (task_error + task_state) \<times> task_manager" where
  "resume_task i = transition i (\<lambda>s.
     if s = TsPaused then Ok TsRunning
     else if is_terminal s then Err (TeTerminalState i s)
     else Err (TeInvalidTransition i s TsRunning))"

definition provide_input :: "string \<Rightarrow> string \<Rightarrow> task_manager \<Rightarrow> (task_error + task_state) \<times> task_manager" where
  "provide_input i content = transition_with i (\<lambda>r m.
     let s = th_state (tr_handle r)
     in if is_terminal s then (Err (TeTerminalState i s), r, m)
        else if s = TsWaitingInput
        then (case tr_input_tx r of
                None \<Rightarrow> (Err (TeChannelUnavailable i ''provide_input''), r, m)
              | Some c \<Rightarrow>
                  (case try_send content (tm_inputs m ! c) of
                     (False, _) \<Rightarrow> (Err (TeChannelClosed i ''provide_input''), r, m)
                   | (True, ch) \<Rightarrow> (Ok TsRunning, set_state TsRunning r, m\<lparr>tm_inputs := (tm_inputs m)[c := ch]\<rparr>)))
        else (Err (TeInvalidTransition i s TsRunning), r, m))"

definition send_approval :: "string \<Rightarrow> string \<Rightarrow> bool \<Rightarrow> string option \<Rightarrow> task_change" where
  "send_approval i call_id approved reason r m =
     (case tr_approval_tx r of
        None \<Rightarrow> (Err (TeChannelUnavailable i ''respond_approval''), r, m)
      | Some c \<Rightarrow>
          (case try_send \<lparr>ap_tool_call_id = call_id, ap_approved = approved, ap_reason = reason\<rparr> (tm_approvals m ! c) of
             (False, _) \<Rightarrow> (Err (TeChannelClosed i ''respond_approval''), r, m)
           | (True, ch) \<Rightarrow>
               (Ok TsRunning, set_state TsRunning (r\<lparr>tr_pending_approval := None\<rparr>),
                m\<lparr>tm_approvals := (tm_approvals m)[c := ch]\<rparr>)))"

definition respond_approval ::
  "string \<Rightarrow> string \<Rightarrow> bool \<Rightarrow> string option \<Rightarrow> task_manager \<Rightarrow> (task_error + task_state) \<times> task_manager" where
  "respond_approval i call_id approved reason = transition_with i (\<lambda>r m.
     let s = th_state (tr_handle r)
     in if is_terminal s then (Err (TeTerminalState i s), r, m)
        else if s = TsWaitingApproval
        then (case tr_pending_approval r of
                Some expected \<Rightarrow>
                  if expected \<noteq> call_id then (Err (TeApprovalMismatch expected call_id), r, m)
                  else send_approval i call_id approved reason r m
              | None \<Rightarrow> send_approval i call_id approved reason r m)
        else (Err (TeInvalidTransition i s TsRunning), r, m))"

definition get_task :: "string \<Rightarrow> task_manager \<Rightarrow> task_error + task_handle" where
  "get_task i m =
     (if tm_poisoned m then Err TeLockPoisoned
      else case bt_get (tm_tasks m) i of Some r \<Rightarrow> Ok (tr_handle r) | None \<Rightarrow> Err (TeNotFound i))"

definition subscribe_task :: "string \<Rightarrow> task_manager \<Rightarrow> (task_error + (json list \<times> nat \<times> nat)) \<times> task_manager" where
  "subscribe_task i m =
     (if tm_poisoned m then (Err TeLockPoisoned, m)
      else case bt_get (tm_tasks m) i of
             None \<Rightarrow> (Err (TeSubscribeFailed i), m)
           | Some r \<Rightarrow>
               (let c = tr_events r; (history, rx, ch) = subscribe_with_history (tm_channels m ! c)
                in (Ok (history, c, rx), m\<lparr>tm_channels := (tm_channels m)[c := ch]\<rparr>)))"

definition complete_task ::
  "string \<Rightarrow> task_state \<Rightarrow> string option \<Rightarrow> task_manager \<Rightarrow> (task_error + unit) \<times> task_manager" where
  "complete_task i terminal_state reason m =
     (if \<not> is_terminal terminal_state \<and> terminal_state \<noteq> TsWaitingApproval
      then (Err (TeInvalidTransition i TsRunning terminal_state), m)
      else (case transition_with_reason i reason
                   (\<lambda>r m. if is_terminal (th_state (tr_handle r)) then (Err (TeTerminalState i (th_state (tr_handle r))), r, m)
                          else (Ok terminal_state, set_state terminal_state r, m)) m of
              (Inl e, m1) \<Rightarrow> (Err e, m1)
            | (Inr _, m1) \<Rightarrow> (Ok (), m1)))"

definition request_input :: "string \<Rightarrow> task_manager \<Rightarrow> (task_error + task_state) \<times> task_manager" where
  "request_input i = transition_with i (\<lambda>r m.
     let s = th_state (tr_handle r)
     in if s = TsRunning \<or> s = TsStreaming then (Ok TsWaitingInput, set_state TsWaitingInput r, m)
        else (Err (TeInvalidTransition i s TsWaitingInput), r, m))"

definition request_approval_for ::
  "string \<Rightarrow> string option \<Rightarrow> task_manager \<Rightarrow> (task_error + task_state) \<times> task_manager" where
  "request_approval_for i call_id = transition_with i (\<lambda>r m.
     let s = th_state (tr_handle r)
     in if s = TsRunning \<or> s = TsStreaming
        then (Ok TsWaitingApproval, set_state TsWaitingApproval (r\<lparr>tr_pending_approval := call_id\<rparr>), m)
        else (Err (TeInvalidTransition i s TsWaitingApproval), r, m))"

definition request_approval :: "string \<Rightarrow> task_manager \<Rightarrow> (task_error + task_state) \<times> task_manager" where
  "request_approval i = request_approval_for i None"

text \<open>An event that is no object panics under the lock, after the number was taken.\<close>

definition emit_event :: "string \<Rightarrow> json \<Rightarrow> task_manager \<Rightarrow> (task_error + u64) option \<times> task_manager" where
  "emit_event i ev m =
     (if tm_poisoned m then (Some (Err TeLockPoisoned), m)
      else case bt_get (tm_tasks m) i of
             None \<Rightarrow> (Some (Err (TeNotFound i)), m)
           | Some r \<Rightarrow>
               (let r1 = bump_seq r; sn = th_seq (tr_handle r1)
                in case json_set ''seq'' (json_u64 sn) ev of
                     None \<Rightarrow> (None, (put_record i r1 m)\<lparr>tm_poisoned := True\<rparr>)
                   | Some ev1 \<Rightarrow> (Some (Ok sn), tm_send (tr_events r1) ev1 (put_record i r1 m))))"

definition get_event_sender :: "string \<Rightarrow> task_manager \<Rightarrow> task_error + nat" where
  "get_event_sender i m =
     (if tm_poisoned m then Err TeLockPoisoned
      else case bt_get (tm_tasks m) i of Some r \<Rightarrow> Ok (tr_events r) | None \<Rightarrow> Err (TeNotFound i))"

definition update_record :: "string \<Rightarrow> (task_record \<Rightarrow> task_record) \<Rightarrow> task_manager \<Rightarrow> (task_error + unit) \<times> task_manager" where
  "update_record i f m =
     (if tm_poisoned m then (Err TeLockPoisoned, m)
      else case bt_get (tm_tasks m) i of
             None \<Rightarrow> (Err (TeNotFound i), m)
           | Some r \<Rightarrow> (Ok (), put_record i (f r) m))"

definition set_cancellation_token :: "string \<Rightarrow> nat \<Rightarrow> task_manager \<Rightarrow> (task_error + unit) \<times> task_manager" where
  "set_cancellation_token i k = update_record i (\<lambda>r. r\<lparr>tr_token := Some k\<rparr>)"

definition set_hitl_senders :: "string \<Rightarrow> nat \<Rightarrow> nat \<Rightarrow> task_manager \<Rightarrow> (task_error + unit) \<times> task_manager" where
  "set_hitl_senders i input_tx approval_tx =
     update_record i (\<lambda>r. r\<lparr>tr_input_tx := Some input_tx, tr_approval_tx := Some approval_tx\<rparr>)"

text \<open>Listings recover a poisoned lock; a hash map lists in any order, here in the order of the ids.\<close>

definition active_task_ids :: "task_manager \<Rightarrow> string list" where
  "active_task_ids m = map fst (filter (\<lambda>(i, r). \<not> is_terminal (th_state (tr_handle r))) (tm_tasks m))"

definition cancel_tasks :: "string list \<Rightarrow> task_manager \<Rightarrow> task_manager" where
  "cancel_tasks ids m = fold (\<lambda>i m. snd (cancel_task i m)) ids m"

definition cancel_connection_tasks :: "string \<Rightarrow> task_manager \<Rightarrow> string list \<times> task_manager" where
  "cancel_connection_tasks conn m =
     (let ids = map fst (filter (\<lambda>(i, r). \<not> is_terminal (th_state (tr_handle r)) \<and>
                  th_connection_id (tr_handle r) = Some conn) (tm_tasks m))
      in (ids, cancel_tasks ids m))"

definition cancel_all_active :: "task_manager \<Rightarrow> string list \<times> task_manager" where
  "cancel_all_active m = (let ids = active_task_ids m in (ids, cancel_tasks ids m))"

definition expired :: "task_manager \<Rightarrow> task_record \<Rightarrow> bool" where
  "expired m r \<longleftrightarrow>
     (case tr_terminated_at r of
        None \<Rightarrow> False
      | Some t \<Rightarrow> is_terminal (th_state (tr_handle r)) \<and> tm_clock m - t \<ge> tm_grace m)"

definition cleanup_expired :: "task_manager \<Rightarrow> task_manager" where
  "cleanup_expired m = m\<lparr>tm_tasks := filter (\<lambda>(i, r). \<not> expired m r) (tm_tasks m)\<rparr>"

section \<open>The activity sink\<close>

record activity_sink =
  as_task :: string
  as_channel :: nat
  as_seq :: u64
  as_manager :: bool

definition sink_hitl :: "activity_sink \<Rightarrow> activity_event \<Rightarrow> task_manager \<Rightarrow> task_manager" where
  "sink_hitl k ev m =
     (if \<not> as_manager k then m
      else case ev of
             AcInputRequired _ _ \<Rightarrow> snd (request_input (as_task k) m)
           | AcToolApprovalRequired call_id _ _ _ \<Rightarrow> snd (request_approval_for (as_task k) (Some call_id) m)
           | _ \<Rightarrow> m)"

definition sink_number :: "u64 \<Rightarrow> json \<Rightarrow> json" where
  "sink_number n ev = (case json_set ''seq'' (json_u64 n) ev of Some ev1 \<Rightarrow> ev1 | None \<Rightarrow> ev)"

fun sink_send :: "json list \<Rightarrow> activity_sink \<Rightarrow> task_manager \<Rightarrow> activity_sink \<times> task_manager" where
  "sink_send [] k m = (k, m)"
| "sink_send (ev # evs) k m =
     sink_send evs (k\<lparr>as_seq := as_seq k + 1\<rparr>) (tm_send (as_channel k) (sink_number (as_seq k) ev) m)"

definition sink_publish :: "activity_event \<Rightarrow> activity_sink \<Rightarrow> task_manager \<Rightarrow> activity_sink \<times> task_manager" where
  "sink_publish ev k m = sink_send (flatten_activity_event (as_task k) ev) k m"

definition sink_emit :: "activity_event \<Rightarrow> activity_sink \<Rightarrow> task_manager \<Rightarrow> activity_sink \<times> task_manager" where
  "sink_emit ev k m = sink_publish ev k (sink_hitl k ev m)"

definition sink_new :: "string \<Rightarrow> nat \<Rightarrow> activity_sink" where
  "sink_new i c = \<lparr>as_task = i, as_channel = c, as_seq = 0, as_manager = True\<rparr>"

fun map_exit_reason :: "exit_reason \<Rightarrow> task_state \<times> string option" where
  "map_exit_reason ExComplete = (TsCompleted, None)"
| "map_exit_reason ExMaxTurns = (TsCompleted, Some ''max_turns'')"
| "map_exit_reason ExBudgetExhausted = (TsKilled, Some ''budget_exhausted'')"
| "map_exit_reason ExCancelled = (TsCancelled, None)"
| "map_exit_reason (ExGuardrailTripped msg) = (TsKilled, Some (''guardrail: '' @ msg))"
| "map_exit_reason (ExPolicyKill hook reason) = (TsKilled, Some (''policy: '' @ hook @ '': '' @ reason))"
| "map_exit_reason (ExError msg) = (TsFailed, Some msg)"
| "map_exit_reason ExAwaitingApproval = (TsWaitingApproval, None)"
| "map_exit_reason ExRefusal = (TsCompleted, Some ''refusal'')"

end
