(* ===== verification/Server_Lifecycle.thy ===== *)
theory Server_Lifecycle
  imports Server_Task
begin

text \<open>
  The life of a server task under any interleaving of clients, workers, sinks and the cleanup: its event
  log tells the path of its state through the diagram, a terminal state is final and kept for the grace
  period, and a late subscriber misses nothing.  Every operation is a sequence of a few moves of the
  table and the logs; the invariants are proved on the moves.
\<close>

section \<open>Runs\<close>

text \<open>
  A cancellation locks the table twice and a sink acts under no lock, so their halves are operations too
  and anything may come in between.  \<open>OpOthers\<close> is whatever the holders of the response channels and
  tokens do to them.
\<close>

datatype task_op =
    OpCreate string tenant_config string "string option" json "string option"
  | OpCreatePending string tenant_config string "string option" json "string option"
  | OpStart string
  | OpCancel string
  | OpSignal string
  | OpCancelSignalled string
  | OpCancelConnection string
  | OpCancelAll
  | OpPause string
  | OpResume string
  | OpInput string string
  | OpApprove string string bool "string option"
  | OpComplete string task_state "string option"
  | OpRequestInput string
  | OpRequestApproval string "string option"
  | OpEmit string json
  | OpSetToken string nat
  | OpSetHitl string nat nat
  | OpSubscribe string
  | OpReceive nat nat
  | OpCleanup
  | OpAdvance nat
  | OpSink activity_sink activity_event
  | OpSinkHitl activity_sink activity_event
  | OpSinkPublish activity_sink activity_event
  | OpOthers "string response_channel list" "approval_response response_channel list" "bool list"

fun tm_step :: "task_op \<Rightarrow> task_manager \<Rightarrow> task_manager" where
  "tm_step (OpCreate i tn t a md c) m = snd (create_task i tn t a md c m)"
| "tm_step (OpCreatePending i tn t a md c) m = snd (create_pending_task i tn t a md c m)"
| "tm_step (OpStart i) m = snd (start_task i m)"
| "tm_step (OpCancel i) m = snd (cancel_task i m)"
| "tm_step (OpSignal i) m = signal_task_token i m"
| "tm_step (OpCancelSignalled i) m = snd (cancel_signalled i m)"
| "tm_step (OpCancelConnection c) m = snd (cancel_connection_tasks c m)"
| "tm_step OpCancelAll m = snd (cancel_all_active m)"
| "tm_step (OpPause i) m = snd (pause_task i m)"
| "tm_step (OpResume i) m = snd (resume_task i m)"
| "tm_step (OpInput i x) m = snd (provide_input i x m)"
| "tm_step (OpApprove i k a r) m = snd (respond_approval i k a r m)"
| "tm_step (OpComplete i s r) m = snd (complete_task i s r m)"
| "tm_step (OpRequestInput i) m = snd (request_input i m)"
| "tm_step (OpRequestApproval i k) m = snd (request_approval_for i k m)"
| "tm_step (OpEmit i ev) m = snd (emit_event i ev m)"
| "tm_step (OpSetToken i k) m = snd (set_cancellation_token i k m)"
| "tm_step (OpSetHitl i a b) m = snd (set_hitl_senders i a b m)"
| "tm_step (OpSubscribe i) m = snd (subscribe_task i m)"
| "tm_step (OpReceive c r) m = m\<lparr>tm_channels := (tm_channels m)[c := snd (ec_recv r (tm_channels m ! c))]\<rparr>"
| "tm_step OpCleanup m = cleanup_expired m"
| "tm_step (OpAdvance n) m = m\<lparr>tm_clock := tm_clock m + n\<rparr>"
| "tm_step (OpSink k ev) m = snd (sink_emit ev k m)"
| "tm_step (OpSinkHitl k ev) m = sink_hitl k ev m"
| "tm_step (OpSinkPublish k ev) m = snd (sink_publish ev k m)"
| "tm_step (OpOthers is as ks) m = m\<lparr>tm_inputs := is, tm_approvals := as, tm_tokens := ks\<rparr>"

definition tm_run :: "task_op list \<Rightarrow> task_manager \<Rightarrow> task_manager" where
  "tm_run ops m = fold tm_step ops m"

text \<open>The engine emits no state change of its own.\<close>

definition is_state_change :: "json \<Rightarrow> bool" where
  "is_state_change ev \<longleftrightarrow> json_get ev ''event'' = Some (JStr ''task.state_changed'')"

fun honest :: "task_op \<Rightarrow> bool" where
  "honest (OpEmit i ev) = (\<not> is_state_change ev)"
| "honest _ = True"

section \<open>The diagram\<close>

definition may_follow :: "task_state \<Rightarrow> task_state \<Rightarrow> bool" where
  "may_follow s s' \<longleftrightarrow> \<not> is_terminal s \<and>
     (is_terminal s' \<or> s' = TsWaitingApproval \<or> (s = TsPending \<and> s' = TsRunning) \<or>
      (s \<in> {TsRunning, TsStreaming} \<and> s' \<in> {TsPaused, TsWaitingInput}) \<or>
      (s \<in> {TsPaused, TsWaitingInput, TsWaitingApproval} \<and> s' = TsRunning))"

definition all_task_states :: "task_state list" where
  "all_task_states = [TsPending, TsRunning, TsStreaming, TsWaitingInput, TsWaitingApproval, TsPaused, TsCompleted,
     TsFailed, TsKilled, TsCancelled]"

definition read_task_state :: "string \<Rightarrow> task_state option" where
  "read_task_state s = find (\<lambda>t. show_task_state t = s) all_task_states"

lemma read_show [simp]: "read_task_state (show_task_state s) = Some s"
  by (cases s) (simp_all add: read_task_state_def all_task_states_def)

fun life :: "task_state \<Rightarrow> (string \<times> string) list \<Rightarrow> task_state \<Rightarrow> bool" where
  "life s [] t \<longleftrightarrow> s = t"
| "life s ((a, b) # xs) t \<longleftrightarrow>
     a = show_task_state s \<and> (case read_task_state b of None \<Rightarrow> False | Some s' \<Rightarrow> may_follow s s' \<and> life s' xs t)"

lemma life_snoc: "life s xs t \<Longrightarrow> may_follow t u \<Longrightarrow> life s (xs @ [(show_task_state t, show_task_state u)]) u"
  by (induction s xs t rule: life.induct) (auto split: option.splits)

definition change_of :: "json \<Rightarrow> (string \<times> string) option" where
  "change_of ev =
     (if is_state_change ev
      then (case (json_get ev ''from'', json_get ev ''to'') of
              (Some (JStr a), Some (JStr b)) \<Rightarrow> Some (a, b)
            | _ \<Rightarrow> None)
      else None)"

definition changes :: "json list \<Rightarrow> (string \<times> string) list" where
  "changes log = List.map_filter change_of log"

lemma changes_simps [simp]:
  "changes [] = []" "changes (xs @ ys) = changes xs @ changes ys"
  "\<not> is_state_change ev \<Longrightarrow> changes [ev] = []"
  by (simp_all add: changes_def map_filter_def change_of_def)

lemma changes_state_changed [simp]:
  "changes [state_changed i a b n reason] = [(show_task_state a, show_task_state b)]"
proof -
  let ?e = "state_changed i a b n reason"
  have "json_get ?e ''event'' = Some (JStr ''task.state_changed'')" "json_get ?e ''from'' = Some (JStr (show_task_state a))"
    "json_get ?e ''to'' = Some (JStr (show_task_state b))"
    by (cases reason; simp add: state_changed_def json_get_object)+
  then show ?thesis by (simp add: changes_def map_filter_def change_of_def is_state_change_def)
qed

section \<open>Moves\<close>

definition record_at :: "task_manager \<Rightarrow> string \<Rightarrow> task_record option" where
  "record_at m i = bt_get (tm_tasks m) i"

definition logs :: "task_manager \<Rightarrow> json list list" where
  "logs m = map ec_log (tm_channels m)"

definition same_frame :: "task_manager \<Rightarrow> task_manager \<Rightarrow> bool" where
  "same_frame m m' \<longleftrightarrow> tm_clock m' = tm_clock m \<and> tm_grace m' = tm_grace m \<and> (bt_ok (tm_tasks m) \<longrightarrow> bt_ok (tm_tasks m'))"

definition same_life :: "task_record \<Rightarrow> task_record \<Rightarrow> bool" where
  "same_life r r' \<longleftrightarrow> th_state (tr_handle r') = th_state (tr_handle r) \<and> tr_events r' = tr_events r \<and>
     tr_terminated_at r' = tr_terminated_at r"

definition st :: "task_record \<Rightarrow> task_state" where
  "st r = th_state (tr_handle r)"

inductive task_move :: "string set \<Rightarrow> task_manager \<Rightarrow> task_manager \<Rightarrow> bool" for new where
  quiet: "same_frame m m' \<Longrightarrow> record_at m' = record_at m \<Longrightarrow> logs m' = logs m \<Longrightarrow> task_move new m m'"
| update: "same_frame m m' \<Longrightarrow> record_at m i = Some r \<Longrightarrow> same_life r r' \<Longrightarrow> record_at m' = (record_at m)(i \<mapsto> r') \<Longrightarrow>
    logs m' = logs m \<Longrightarrow> task_move new m m'"
| advance: "record_at m' = record_at m \<Longrightarrow> logs m' = logs m \<Longrightarrow> tm_grace m' = tm_grace m \<Longrightarrow>
    tm_clock m \<le> tm_clock m' \<Longrightarrow> (bt_ok (tm_tasks m) \<longrightarrow> bt_ok (tm_tasks m')) \<Longrightarrow> task_move new m m'"
| opened: "same_frame m m' \<Longrightarrow> record_at m' = record_at m \<Longrightarrow> logs m' = logs m @ [l] \<Longrightarrow> task_move new m m'"
| created: "i \<in> new \<Longrightarrow> same_frame m m' \<Longrightarrow> record_at m' = (record_at m)(i \<mapsto> r) \<Longrightarrow> tr_events r = length (logs m) \<Longrightarrow>
    tr_terminated_at r = None \<Longrightarrow> \<not> is_terminal (st r) \<Longrightarrow> life TsPending (changes l) (st r) \<Longrightarrow>
    logs m' = logs m @ [l] \<Longrightarrow> task_move new m m'"
| moved: "same_frame m m' \<Longrightarrow> record_at m i = Some r \<Longrightarrow> may_follow (st r) (st r') \<Longrightarrow> tr_events r' = tr_events r \<Longrightarrow>
    record_at m' = (record_at m)(i \<mapsto> r') \<Longrightarrow>
    tr_terminated_at r' =
      (if is_terminal (st r') \<and> tr_terminated_at r = None then Some (tm_clock m) else tr_terminated_at r) \<Longrightarrow>
    logs m' = (logs m)[tr_events r := logs m ! tr_events r @ [state_changed i (st r) (st r') n reason]] \<Longrightarrow>
    task_move new m m'"
| wrote: "same_frame m m' \<Longrightarrow> record_at m' = record_at m \<Longrightarrow> \<not> is_state_change ev \<Longrightarrow>
    logs m' = (logs m)[c := logs m ! c @ [ev]] \<Longrightarrow> task_move new m m'"
| evicted: "same_frame m m' \<Longrightarrow> logs m' = logs m \<Longrightarrow>
    record_at m' = (\<lambda>i. case record_at m i of None \<Rightarrow> None | Some r \<Rightarrow> if expired m r then None else Some r) \<Longrightarrow>
    task_move new m m'"

abbreviation task_moves :: "string set \<Rightarrow> task_manager \<Rightarrow> task_manager \<Rightarrow> bool" where
  "task_moves new \<equiv> (task_move new)\<^sup>*\<^sup>*"

lemma moves_Cons: "task_move new a b \<Longrightarrow> task_moves new b c \<Longrightarrow> task_moves new a c"
  by (rule converse_rtranclp_into_rtranclp)

lemma same_frame_refl [simp]: "same_frame m m"
  by (simp add: same_frame_def)

text \<open>Sending on a channel of the table.\<close>

lemma logs_send: "logs (tm_send c ev m) = (if c < length (logs m) then (logs m)[c := logs m ! c @ [ev]] else logs m)"
  by (auto simp: logs_def tm_send_def map_update ec_send_def list_update_beyond)

lemma send_frame [simp]:
  "tm_tasks (tm_send c ev m) = tm_tasks m" "tm_clock (tm_send c ev m) = tm_clock m" "tm_grace (tm_send c ev m) = tm_grace m"
  "tm_poisoned (tm_send c ev m) = tm_poisoned m"
  by (simp_all add: tm_send_def)

lemma record_send [simp]: "record_at (tm_send c ev m) = record_at m"
  by (simp add: record_at_def fun_eq_iff)

lemma send_move: "\<not> is_state_change ev \<Longrightarrow> task_move new m (tm_send c ev m)"
  by (rule task_move.wrote[of _ _ ev c]) (simp_all add: same_frame_def logs_send list_update_beyond)

lemma active_frame [simp]:
  "tm_tasks (add_active_tasks t n m) = tm_tasks m" "tm_clock (add_active_tasks t n m) = tm_clock m"
  "tm_grace (add_active_tasks t n m) = tm_grace m" "tm_channels (add_active_tasks t n m) = tm_channels m"
  by (simp_all add: add_active_tasks_def)

lemma put_frame [simp]:
  "tm_clock (put_record i r m) = tm_clock m" "tm_grace (put_record i r m) = tm_grace m"
  "logs (put_record i r m) = logs m" "record_at (put_record i r m) = (record_at m)(i \<mapsto> r)"
  "bt_ok (tm_tasks m) \<Longrightarrow> bt_ok (tm_tasks (put_record i r m))"
  by (auto simp: put_record_def logs_def record_at_def fun_eq_iff bt_simps)

section \<open>Transitions\<close>

text \<open>What the closures passed to a transition may do.\<close>

definition same_world :: "task_manager \<Rightarrow> task_manager \<Rightarrow> bool" where
  "same_world m m' \<longleftrightarrow> tm_tasks m' = tm_tasks m \<and> tm_clock m' = tm_clock m \<and> tm_grace m' = tm_grace m \<and>
     tm_channels m' = tm_channels m"

definition lawful :: "task_change \<Rightarrow> bool" where
  "lawful f \<longleftrightarrow> (\<forall>r m res r1 m1. f r m = (res, r1, m1) \<longrightarrow> same_world m m1 \<and> tr_events r1 = tr_events r \<and>
     tr_terminated_at r1 = tr_terminated_at r \<and>
     (case res of Inl e \<Rightarrow> st r1 = st r | Inr next \<Rightarrow> st r1 = next \<and> may_follow (st r) next))"

lemma st_simps [simp]: "st (set_state s r) = s" "st (bump_seq r) = st r"
  "tr_events (set_state s r) = tr_events r" "tr_events (bump_seq r) = tr_events r"
  "tr_terminated_at (set_state s r) = tr_terminated_at r" "tr_terminated_at (bump_seq r) = tr_terminated_at r"
  by (simp_all add: st_def set_state_def bump_seq_def)

lemma enter_running_frame:
  assumes "enter_running next r m = (r2, m2)"
  shows "st r2 = st r" "tr_events r2 = tr_events r" "tr_terminated_at r2 = tr_terminated_at r" "tm_tasks m2 = tm_tasks m"
    "tm_clock m2 = tm_clock m" "tm_grace m2 = tm_grace m" "tm_channels m2 = tm_channels m"
  using assms by (auto simp: enter_running_def st_def split: if_splits)

lemma enter_terminal_frame:
  assumes "enter_terminal next r m = (r2, m2)"
  shows "st r2 = st r" "tr_events r2 = tr_events r" "tm_tasks m2 = tm_tasks m"
    "tr_terminated_at r2 = (if is_terminal next \<and> tr_terminated_at r = None then Some (tm_clock m) else tr_terminated_at r)"
    "tm_clock m2 = tm_clock m" "tm_grace m2 = tm_grace m" "tm_channels m2 = tm_channels m"
  using assms by (auto simp: enter_terminal_def st_def split: if_splits)

lemma note_transition_moves:
  assumes "record_at m i = Some r" "may_follow (st r) (st r1)" "tr_events r1 = tr_events r"
    "tr_terminated_at r1 = tr_terminated_at r" "same_world m m1" "tr_events r < length (logs m)"
  shows "task_move new m (note_transition i (st r) (st r1) reason r1 m1)"
proof -
  let ?n = "th_seq (tr_handle (bump_seq r1))"
  let ?m2 = "tm_send (tr_events r1) (state_changed i (st r) (st r1) ?n reason) m1"
  obtain r2 m2 where er: "enter_running (st r1) (bump_seq r1) ?m2 = (r2, m2)" by fastforce
  obtain r3 m3 where et: "enter_terminal (st r1) r2 m2 = (r3, m3)" by fastforce
  note er_frame = enter_running_frame[OF er] and et_frame = enter_terminal_frame[OF et]
  have eq: "note_transition i (st r) (st r1) reason r1 m1 = put_record i r3 m3"
    using er et by (simp add: note_transition_def Let_def)
  have world: "logs m1 = logs m" "record_at m1 = record_at m" "tm_clock m1 = tm_clock m" "tm_grace m1 = tm_grace m"
    "tm_tasks m1 = tm_tasks m"
    using assms(5) by (simp_all add: same_world_def logs_def record_at_def fun_eq_iff)
  have logs: "logs m3 = (logs m)[tr_events r := logs m ! tr_events r @ [state_changed i (st r) (st r1) ?n reason]]"
  proof -
    have "logs m3 = logs ?m2" using er_frame(7) et_frame(7) by (simp add: logs_def)
    then show ?thesis using assms(3,6) world(1) by (simp add: logs_send)
  qed
  have rec: "record_at m3 = record_at m" using er_frame(4) et_frame(3) world(5) by (simp add: record_at_def fun_eq_iff)
  show ?thesis unfolding eq
  proof (rule task_move.moved)
    show "same_frame m (put_record i r3 m3)"
      using er_frame et_frame world by (auto simp: same_frame_def put_record_def)
    show "record_at m i = Some r" by (rule assms(1))
    show "may_follow (st r) (st r3)" "tr_events r3 = tr_events r" using assms(2,3) er_frame et_frame by simp_all
    show "record_at (put_record i r3 m3) = (record_at m)(i \<mapsto> r3)" using rec by simp
    show "tr_terminated_at r3 = (if is_terminal (st r3) \<and> tr_terminated_at r = None then Some (tm_clock m) else tr_terminated_at r)"
      using assms(4) er_frame et_frame world by simp
    show "logs (put_record i r3 m3) = (logs m)[tr_events r := logs m ! tr_events r @ [state_changed i (st r) (st r3) ?n reason]]"
      using logs er_frame et_frame by simp
  qed
qed

text \<open>Every record's channel is in the table.\<close>

definition channels_ok :: "task_manager \<Rightarrow> bool" where
  "channels_ok m \<longleftrightarrow> (\<forall>i r. record_at m i = Some r \<longrightarrow> tr_events r < length (logs m))"

lemma transition_moves:
  assumes "lawful f" "channels_ok m"
  shows "task_move new m (snd (transition_with_reason i reason f m))"
proof (cases "tm_poisoned m \<or> record_at m i = None")
  case True
  then show ?thesis by (auto simp: transition_with_reason_def record_at_def intro: task_move.quiet)
next
  case False
  then obtain r where r: "record_at m i = Some r" "bt_get (tm_tasks m) i = Some r" "\<not> tm_poisoned m"
    by (auto simp: record_at_def)
  obtain res r1 m1 where f: "f r m = (res, r1, m1)" by (metis prod_cases3)
  note law = assms(1)[unfolded lawful_def, rule_format, OF f]
  have world: "logs m1 = logs m" "record_at m1 = record_at m" "tm_clock m1 = tm_clock m" "tm_grace m1 = tm_grace m"
    "tm_tasks m1 = tm_tasks m"
    using law by (simp_all add: same_world_def logs_def record_at_def fun_eq_iff)
  show ?thesis
  proof (cases res)
    case (Inl e)
    have "task_move new m (put_record i r1 m1)"
    proof (rule task_move.update[OF _ r(1)])
      show "same_frame m (put_record i r1 m1)" using world by (auto simp: same_frame_def put_record_def)
      show "same_life r r1" using law Inl by (simp add: same_life_def st_def)
    qed (use world in simp_all)
    then show ?thesis using r f Inl by (simp add: transition_with_reason_def)
  next
    case (Inr nxt)
    then have "task_move new m (note_transition i (st r) (st r1) reason r1 m1)"
      using law r(1) assms(2) by (intro note_transition_moves) (auto simp: channels_ok_def)
    then show ?thesis using r f Inr law by (simp add: transition_with_reason_def Let_def st_def)
  qed
qed

section \<open>The invariant\<close>

definition life_ok :: "task_manager \<Rightarrow> bool" where
  "life_ok m \<longleftrightarrow> bt_ok (tm_tasks m) \<and>
     (\<forall>i r. record_at m i = Some r \<longrightarrow>
        tr_events r < length (logs m) \<and> life TsPending (changes (logs m ! tr_events r)) (st r) \<and>
        (case tr_terminated_at r of None \<Rightarrow> \<not> is_terminal (st r) | Some t \<Rightarrow> is_terminal (st r) \<and> t \<le> tm_clock m)) \<and>
     (\<forall>i j r r'. record_at m i = Some r \<longrightarrow> record_at m j = Some r' \<longrightarrow> tr_events r = tr_events r' \<longrightarrow> i = j)"

lemma life_okD:
  assumes "life_ok m" "record_at m i = Some r"
  shows "tr_events r < length (logs m)" "life TsPending (changes (logs m ! tr_events r)) (st r)"
    "tr_terminated_at r = None \<longleftrightarrow> \<not> is_terminal (st r)" "tr_terminated_at r = Some t \<Longrightarrow> t \<le> tm_clock m"
    "record_at m j = Some r' \<Longrightarrow> tr_events r = tr_events r' \<Longrightarrow> i = j"
  using assms unfolding life_ok_def by (fastforce split: option.splits)+

lemma life_okI:
  assumes "bt_ok (tm_tasks m)"
    "\<And>i r. record_at m i = Some r \<Longrightarrow> tr_events r < length (logs m)"
    "\<And>i r. record_at m i = Some r \<Longrightarrow> life TsPending (changes (logs m ! tr_events r)) (st r)"
    "\<And>i r. record_at m i = Some r \<Longrightarrow> tr_terminated_at r = None \<longleftrightarrow> \<not> is_terminal (st r)"
    "\<And>i r t. record_at m i = Some r \<Longrightarrow> tr_terminated_at r = Some t \<Longrightarrow> t \<le> tm_clock m"
    "\<And>i j r r'. record_at m i = Some r \<Longrightarrow> record_at m j = Some r' \<Longrightarrow> tr_events r = tr_events r' \<Longrightarrow> i = j"
  shows "life_ok m"
  using assms unfolding life_ok_def by (fastforce split: option.split)

lemma life_ok_channels: "life_ok m \<Longrightarrow> channels_ok m"
  by (simp add: channels_ok_def life_okD)

lemma move_life_ok:
  assumes "task_move new m m'" "life_ok m"
  shows "life_ok m'"
  using assms
proof cases
  case quiet
  note ok = life_okD[OF assms(2)]
  have "bt_ok (tm_tasks m')" using quiet(1) assms(2) by (simp add: same_frame_def life_ok_def)
  then show ?thesis
    by (rule life_okI) (use quiet ok in \<open>auto simp: same_frame_def\<close>)
next
  case (update i r r')
  note ok = life_okD[OF assms(2)]
  have old: "\<exists>x. record_at m j = Some x \<and> same_life x y" if "record_at m' j = Some y" for j y
    using update that by (auto simp: same_life_def split: if_splits)
  have bt: "bt_ok (tm_tasks m')" using update(1) assms(2) by (simp add: same_frame_def life_ok_def)
  show ?thesis
  proof (rule life_okI[OF bt])
    fix j y assume y: "record_at m' j = Some y"
    then obtain x where x: "record_at m j = Some x" "same_life x y" using old by blast
    note s = x(2)[unfolded same_life_def]
    show "tr_events y < length (logs m')" "life TsPending (changes (logs m' ! tr_events y)) (st y)"
      "tr_terminated_at y = None \<longleftrightarrow> \<not> is_terminal (st y)"
      using ok(1-3)[OF x(1)] s update(5) by (simp_all add: st_def)
    show "t \<le> tm_clock m'" if "tr_terminated_at y = Some t" for t
      using ok(4)[OF x(1)] s update(1) that by (simp add: same_frame_def)
    show "j = k" if "record_at m' k = Some z" "tr_events y = tr_events z" for k z
      using old[OF that(1)] ok(5)[OF x(1)] s that(2) by (metis same_life_def)
  qed
next
  case advance
  with assms(2) show ?thesis unfolding life_ok_def by (fastforce split: option.splits)
next
  case (opened l)
  note ok = life_okD[OF assms(2)]
  have bt: "bt_ok (tm_tasks m')" using opened(1) assms(2) by (simp add: same_frame_def life_ok_def)
  show ?thesis
    by (rule life_okI[OF bt]) (use opened ok in \<open>auto simp: same_frame_def nth_append less_Suc_eq\<close>)
next
  case (created i r l)
  note ok = life_okD[OF assms(2)]
  have bt: "bt_ok (tm_tasks m')" using created(2) assms(2) by (simp add: same_frame_def life_ok_def)
  show ?thesis
  proof (rule life_okI[OF bt])
    fix j y assume y: "record_at m' j = Some y"
    have cs: "(j = i \<and> y = r) \<or> (j \<noteq> i \<and> record_at m j = Some y)" using y created(3) by (auto split: if_splits)
    show "tr_events y < length (logs m')" using cs created(4,8) ok(1) by (auto simp: less_Suc_eq)
    show "life TsPending (changes (logs m' ! tr_events y)) (st y)"
      using cs created(4,7,8) ok(1,2) by (auto simp: nth_append)
    show "tr_terminated_at y = None \<longleftrightarrow> \<not> is_terminal (st y)" using cs created(5,6) ok(3) by auto
    show "t \<le> tm_clock m'" if "tr_terminated_at y = Some t" for t
      using cs created(2,5) ok(4) that by (auto simp: same_frame_def)
    show "j = k" if z: "record_at m' k = Some z" "tr_events y = tr_events z" for k z
    proof -
      have "(k = i \<and> z = r) \<or> (k \<noteq> i \<and> record_at m k = Some z)" using z(1) created(3) by (auto split: if_splits)
      with cs z(2) created(4) show ?thesis using ok(1,5) by (metis less_irrefl)
    qed
  qed
next
  case (moved i r r' n reason)
  note ok = life_okD[OF assms(2)]
  have bt: "bt_ok (tm_tasks m')" using moved(1) assms(2) by (simp add: same_frame_def life_ok_def)
  have other: "tr_events y \<noteq> tr_events r" if "record_at m j = Some y" "j \<noteq> i" for j y
    using ok(5)[OF moved(2) that(1)] that(2) by auto
  show ?thesis
  proof (rule life_okI[OF bt])
    fix j y assume y: "record_at m' j = Some y"
    have cs: "(j = i \<and> y = r') \<or> (j \<noteq> i \<and> record_at m j = Some y)" using y moved(5) by (auto split: if_splits)
    show "tr_events y < length (logs m')" using cs moved(2,4,7) ok(1) by auto
    show "life TsPending (changes (logs m' ! tr_events y)) (st y)"
      using cs moved(3,4,7) ok(1,2)[OF moved(2)] ok(2) life_snoc other by fastforce
    show "tr_terminated_at y = None \<longleftrightarrow> \<not> is_terminal (st y)"
      using cs moved(3,6) ok(3) ok(3)[OF moved(2)] by (auto simp: may_follow_def)
    show "t \<le> tm_clock m'" if "tr_terminated_at y = Some t" for t
      using cs moved(1,6) ok(4) ok(4)[OF moved(2)] that by (auto simp: same_frame_def split: if_splits)
    show "j = k" if z: "record_at m' k = Some z" "tr_events y = tr_events z" for k z
    proof -
      have "(k = i \<and> z = r') \<or> (k \<noteq> i \<and> record_at m k = Some z)" using z(1) moved(5) by (auto split: if_splits)
      with cs z(2) moved(2,4) show ?thesis using ok(5) by metis
    qed
  qed
next
  case (wrote ev c)
  note ok = life_okD[OF assms(2)]
  have bt: "bt_ok (tm_tasks m')" using wrote(1) assms(2) by (simp add: same_frame_def life_ok_def)
  have ch: "changes (logs m' ! k) = changes (logs m ! k)" if "k < length (logs m)" for k
    using wrote(3,4) that by (cases "k = c") auto
  show ?thesis
    by (rule life_okI[OF bt]) (use wrote(1,2,4) ok ch in \<open>auto simp: same_frame_def\<close>)
next
  case evicted
  note ok = life_okD[OF assms(2)]
  have bt: "bt_ok (tm_tasks m')" using evicted(1) assms(2) by (simp add: same_frame_def life_ok_def)
  have old: "record_at m j = Some y" if "record_at m' j = Some y" for j y
    using evicted(3) that by (auto split: option.splits if_splits)
  show ?thesis
    by (rule life_okI[OF bt]) (use evicted(1,2) old ok in \<open>auto simp: same_frame_def dest!: old\<close>)
qed

lemma moves_life_ok: "task_moves new m m' \<Longrightarrow> life_ok m \<Longrightarrow> life_ok m'"
  by (induction rule: rtranclp_induct) (auto intro: move_life_ok)

section \<open>Every operation is a sequence of moves\<close>

lemma move_quiet:
  "tm_tasks m' = tm_tasks m \<Longrightarrow> tm_clock m' = tm_clock m \<Longrightarrow> tm_grace m' = tm_grace m \<Longrightarrow> logs m' = logs m \<Longrightarrow> task_move new m m'"
  by (rule task_move.quiet) (simp_all add: same_frame_def record_at_def fun_eq_iff)

lemma lawful_validator:
  assumes "\<And>s s'. validator s = Ok s' \<Longrightarrow> may_follow s s'"
  shows "lawful (\<lambda>r m. case validator (th_state (tr_handle r)) of Inl e \<Rightarrow> (Err e, r, m) | Inr nxt \<Rightarrow> (Ok nxt, set_state nxt r, m))"
  using assms by (auto simp: lawful_def same_world_def st_def[symmetric] split: sum.split)

lemma validated_moves:
  assumes "\<And>s s'. validator s = Ok s' \<Longrightarrow> may_follow s s'" "channels_ok m"
  shows "task_move new m (snd (transition i validator m))"
  unfolding transition_def transition_with_def by (rule transition_moves[OF lawful_validator assms(2)]) (rule assms(1))

lemma start_moves: "channels_ok m \<Longrightarrow> task_move new m (snd (start_task i m))"
  unfolding start_task_def by (rule validated_moves) (auto simp: may_follow_def is_terminal_def split: if_splits)

lemma pause_moves: "channels_ok m \<Longrightarrow> task_move new m (snd (pause_task i m))"
  unfolding pause_task_def by (rule validated_moves) (auto simp: may_follow_def is_terminal_def split: if_splits)

lemma resume_moves: "channels_ok m \<Longrightarrow> task_move new m (snd (resume_task i m))"
  unfolding resume_task_def by (rule validated_moves) (auto simp: may_follow_def is_terminal_def split: if_splits)

lemma signal_frame [simp]:
  "tm_tasks (signal_task_token i m) = tm_tasks m" "tm_clock (signal_task_token i m) = tm_clock m"
  "tm_grace (signal_task_token i m) = tm_grace m" "logs (signal_task_token i m) = logs m"
  by (simp_all add: signal_task_token_def logs_def split: option.split)

lemma signal_move: "task_move new m (signal_task_token i m)"
  by (rule move_quiet) simp_all

lemma cancel_signalled_moves: "channels_ok m \<Longrightarrow> task_move new m (snd (cancel_signalled i m))"
  unfolding cancel_signalled_def by (rule validated_moves) (auto simp: may_follow_def is_terminal_def split: if_splits)

lemma cancel_moves:
  assumes "channels_ok m"
  shows "task_moves new m (snd (cancel_task i m))"
proof (cases "tm_poisoned m")
  case False
  have "channels_ok (signal_task_token i m)" using assms by (simp add: channels_ok_def record_at_def)
  note last = cancel_signalled_moves[OF this, of new i]
  have "task_moves new m (snd (cancel_signalled i (signal_task_token i m)))"
    by (rule moves_Cons[OF signal_move]) (rule r_into_rtranclp, rule last)
  then show ?thesis using False by (simp add: cancel_task_def)
qed (simp add: cancel_task_def)

lemma cancel_all_moves: "life_ok m \<Longrightarrow> task_moves new m (cancel_tasks ids m)"
proof (induction ids arbitrary: m)
  case (Cons i ids)
  have "task_moves new m (snd (cancel_task i m))" by (rule cancel_moves[OF life_ok_channels[OF Cons.prems]])
  moreover from moves_life_ok[OF this Cons.prems]
  have "task_moves new (snd (cancel_task i m)) (cancel_tasks ids (snd (cancel_task i m)))" by (rule Cons.IH)
  ultimately show ?case by (simp add: cancel_tasks_def)
qed (simp add: cancel_tasks_def)

lemma input_moves: "channels_ok m \<Longrightarrow> task_move new m (snd (provide_input i x m))"
  unfolding provide_input_def transition_with_def
  by (rule transition_moves)
    (auto simp: lawful_def same_world_def Let_def st_def[symmetric] may_follow_def is_terminal_def split: option.splits prod.splits bool.splits if_splits)

lemma approval_moves: "channels_ok m \<Longrightarrow> task_move new m (snd (respond_approval i k a reason m))"
  unfolding respond_approval_def transition_with_def
  by (rule transition_moves)
    (auto simp: lawful_def same_world_def Let_def send_approval_def may_follow_def is_terminal_def st_def set_state_def
      split: option.splits prod.splits bool.splits if_splits)

lemma request_input_moves: "channels_ok m \<Longrightarrow> task_move new m (snd (request_input i m))"
  unfolding request_input_def transition_with_def
  by (rule transition_moves) (auto simp: lawful_def same_world_def Let_def st_def[symmetric] may_follow_def is_terminal_def split: if_splits)

lemma request_approval_moves: "channels_ok m \<Longrightarrow> task_move new m (snd (request_approval_for i k m))"
  unfolding request_approval_for_def transition_with_def
  by (rule transition_moves)
    (auto simp: lawful_def same_world_def Let_def st_def set_state_def may_follow_def is_terminal_def split: if_splits)

lemma complete_moves: "channels_ok m \<Longrightarrow> task_move new m (snd (complete_task i s reason m))"
proof (cases "\<not> is_terminal s \<and> s \<noteq> TsWaitingApproval")
  case True
  then show ?thesis by (simp add: complete_task_def move_quiet)
next
  case False
  assume ok: "channels_ok m"
  let ?f = "\<lambda>r m. if is_terminal (th_state (tr_handle r)) then (Err (TeTerminalState i (th_state (tr_handle r))), r, m)
      else (Ok s, set_state s r, m)"
  have "lawful ?f" using False by (auto simp: lawful_def same_world_def may_follow_def st_def set_state_def)
  from transition_moves[OF this ok, of new i reason] show ?thesis
    using False by (auto simp: complete_task_def split: prod.split sum.split)
qed

lemma update_moves:
  assumes "\<And>r. same_life r (f r)"
  shows "task_move new m (snd (update_record i f m))"
proof (cases "tm_poisoned m \<or> record_at m i = None")
  case True
  then show ?thesis by (auto simp: update_record_def record_at_def intro: move_quiet)
next
  case False
  then obtain r where r: "record_at m i = Some r" "\<not> tm_poisoned m" by auto
  have "task_move new m (put_record i (f r) m)"
    by (rule task_move.update[OF _ r(1) assms]) (simp_all add: same_frame_def)
  then show ?thesis using r by (simp add: update_record_def record_at_def)
qed

lemma same_life_bump: "same_life r (bump_seq r)"
  by (simp add: same_life_def bump_seq_def)

lemma poison_frame [simp]:
  "logs (m\<lparr>tm_poisoned := b\<rparr>) = logs m" "record_at (m\<lparr>tm_poisoned := b\<rparr>) = record_at m"
  by (simp_all add: logs_def record_at_def fun_eq_iff)

lemma emit_moves:
  assumes "\<not> is_state_change ev"
  shows "task_moves new m (snd (emit_event i ev m))"
proof (cases "tm_poisoned m \<or> record_at m i = None")
  case True
  then show ?thesis by (auto simp: emit_event_def record_at_def split: option.splits)
next
  case False
  then obtain r where r: "record_at m i = Some r" "\<not> tm_poisoned m" by auto
  let ?m1 = "put_record i (bump_seq r) m"
  have m1: "task_move new m ?m1"
    by (rule task_move.update[OF _ r(1) same_life_bump]) (simp_all add: same_frame_def)
  show ?thesis
  proof (cases "json_set ''seq'' (json_u64 (th_seq (tr_handle (bump_seq r)))) ev")
    case None
    have "task_move new ?m1 (?m1\<lparr>tm_poisoned := True\<rparr>)" by (rule move_quiet) simp_all
    with m1 show ?thesis using r None by (simp add: emit_event_def record_at_def Let_def)
  next
    case (Some ev1)
    then have "\<not> is_state_change ev1" using assms by (simp add: is_state_change_def)
    from send_move[OF this] have "task_move new ?m1 (tm_send (tr_events (bump_seq r)) ev1 ?m1)" .
    with m1 show ?thesis using r Some by (simp add: emit_event_def record_at_def Let_def)
  qed
qed

lemma number_quiet: "\<not> is_state_change ev \<Longrightarrow> \<not> is_state_change (sink_number n ev)"
  by (auto simp: sink_number_def is_state_change_def split: option.split)

lemma sink_send_moves:
  "\<forall>ev \<in> set evs. \<not> is_state_change ev \<Longrightarrow> task_moves new m (snd (sink_send evs k m))"
proof (induction evs k m rule: sink_send.induct)
  case (2 ev evs k m)
  have "task_move new m (tm_send (as_channel k) (sink_number (as_seq k) ev) m)"
    using 2 by (intro send_move number_quiet) simp
  with 2 show ?case by (simp add: converse_rtranclp_into_rtranclp)
qed simp

lemma sink_hitl_moves: "channels_ok m \<Longrightarrow> task_move new m (sink_hitl k ev m)"
  by (auto simp: sink_hitl_def move_quiet request_input_moves request_approval_moves split: activity_event.split)

lemma sink_publish_moves: "task_moves new m (snd (sink_publish ev k m))"
proof -
  have "\<forall>e \<in> set (flatten_activity_event (as_task k) ev). \<not> is_state_change e"
    using flattened_event[of _ "as_task k" ev] by (fastforce simp: is_state_change_def)
  then show ?thesis unfolding sink_publish_def by (rule sink_send_moves)
qed

lemma sink_moves: "channels_ok m \<Longrightarrow> task_moves new m (snd (sink_emit ev k m))"
  unfolding sink_emit_def by (rule moves_Cons[OF sink_hitl_moves]) (assumption, rule sink_publish_moves)

lemma cleanup_moves:
  assumes "bt_ok (tm_tasks m)"
  shows "task_move new m (cleanup_expired m)"
proof (rule task_move.evicted)
  show "record_at (cleanup_expired m) = (\<lambda>i. case record_at m i of None \<Rightarrow> None | Some r \<Rightarrow> if expired m r then None else Some r)"
    by (auto simp: cleanup_expired_def record_at_def fun_eq_iff bt_get_filter[OF assms] split: option.split)
qed (auto simp: cleanup_expired_def same_frame_def logs_def)

fun new_ids :: "task_op \<Rightarrow> string set" where
  "new_ids (OpCreate i _ _ _ _ _) = {i}"
| "new_ids (OpCreatePending i _ _ _ _ _) = {i}"
| "new_ids _ = {}"

lemma opened_logs: "logs (m\<lparr>tm_channels := tm_channels m @ [event_channel_new n]\<rparr>) = logs m @ [[]]"
  by (simp add: logs_def event_channel_new_def)

lemma create_pending_moves: "task_move {i} m (snd (create_pending_task i tn t a md c m))"
proof -
  let ?m1 = "m\<lparr>tm_channels := tm_channels m @ [event_channel_new 64]\<rparr>"
  let ?r = "new_record (new_handle i tn t a md c) (length (tm_channels m))"
  have frame: "same_frame m ?m1" "record_at ?m1 = record_at m" by (simp_all add: same_frame_def record_at_def fun_eq_iff)
  show ?thesis
  proof (cases "tm_poisoned m")
    case True
    then show ?thesis using task_move.opened[OF frame opened_logs] by (simp add: create_pending_task_def Let_def)
  next
    case False
    have "task_move {i} m (put_record i ?r ?m1)"
    proof (rule task_move.created[where i = i and r = ?r and l = "[]"])
      show "same_frame m (put_record i ?r ?m1)" by (auto simp: same_frame_def put_record_def)
      show "record_at (put_record i ?r ?m1) = (record_at m)(i \<mapsto> ?r)" using frame(2) by simp
      show "logs (put_record i ?r ?m1) = logs m @ [[]]" by (simp add: opened_logs)
    qed (simp_all add: new_record_def new_handle_def st_def is_terminal_def logs_def)
    then show ?thesis using False by (simp add: create_pending_task_def Let_def)
  qed
qed

lemma create_moves: "task_move {i} m (snd (create_task i tn t a md c m))"
proof -
  let ?k = "length (tm_channels m)"
  let ?m1 = "m\<lparr>tm_channels := tm_channels m @ [event_channel_new 64]\<rparr>"
  let ?h = "(new_handle i tn t a md c)\<lparr>th_state := TsRunning, th_seq := 1\<rparr>"
  let ?r = "(new_record ?h ?k)\<lparr>tr_running_since := Some (tm_clock m)\<rparr>"
  let ?e = "state_changed i TsPending TsRunning 1 None"
  let ?m2 = "tm_send ?k ?e (add_active_tasks (th_tenant ?h) 1 ?m1)"
  have "logs (add_active_tasks (th_tenant ?h) 1 ?m1) = logs m @ [[]]"
    using opened_logs[of m 64] by (simp add: logs_def)
  then have logs: "logs ?m2 = logs m @ [[?e]]" by (simp add: logs_send list_update_append nth_append) (simp add: logs_def)
  have frame: "same_frame m ?m2" "record_at ?m2 = record_at m" by (simp_all add: same_frame_def record_at_def fun_eq_iff)
  show ?thesis
  proof (cases "tm_poisoned m")
    case True
    then show ?thesis using task_move.opened[OF frame logs] by (simp add: create_task_def Let_def)
  next
    case False
    have "task_move {i} m (put_record i ?r ?m2)"
    proof (rule task_move.created[where i = i and r = ?r and l = "[?e]"])
      show "same_frame m (put_record i ?r ?m2)" by (auto simp: same_frame_def put_record_def)
      show "record_at (put_record i ?r ?m2) = (record_at m)(i \<mapsto> ?r)" using frame(2) by simp
      show "logs (put_record i ?r ?m2) = logs m @ [[?e]]" using logs by simp
      have "st ?r = TsRunning" by (simp add: new_record_def st_def)
      moreover have "life TsPending (changes [?e]) TsRunning"
        unfolding changes_state_changed using life_snoc[of TsPending "[]" TsPending TsRunning]
          by (simp add: may_follow_def is_terminal_def del: show_task_state.simps)
      ultimately show "life TsPending (changes [?e]) (st ?r)" by (simp only:)
    qed (simp_all add: new_record_def new_handle_def st_def is_terminal_def logs_def)
    then show ?thesis using False by (simp add: create_task_def Let_def)
  qed
qed

lemma subscribe_move: "task_move new m (snd (subscribe_task i m))"
proof -
  have "logs (m\<lparr>tm_channels := (tm_channels m)[c := ch]\<rparr>) = logs m" if "ec_log ch = ec_log (tm_channels m ! c)" for c ch
    using that by (cases "c < length (tm_channels m)") (simp_all add: logs_def map_update list_update_beyond list_update_same_conv)
  then show ?thesis
    by (auto simp: subscribe_task_def Let_def subscribe_with_history_def intro!: move_quiet split: option.split)
qed

lemma receive_move: "task_move new m (m\<lparr>tm_channels := (tm_channels m)[c := snd (ec_recv r (tm_channels m ! c))]\<rparr>)"
proof -
  have "ec_log (snd (ec_recv r ch)) = ec_log ch" for ch by (simp add: ec_recv_def Let_def)
  then have "logs (m\<lparr>tm_channels := (tm_channels m)[c := snd (ec_recv r (tm_channels m ! c))]\<rparr>) = logs m"
    by (cases "c < length (tm_channels m)") (simp_all add: logs_def map_update list_update_beyond list_update_same_conv)
  then show ?thesis by (intro move_quiet) simp_all
qed

lemma step_moves:
  assumes "honest op" "life_ok m"
  shows "task_moves (new_ids op) m (tm_step op m)"
proof -
  note ok = life_ok_channels[OF assms(2)]
  note bt = assms(2)[unfolded life_ok_def, THEN conjunct1]
  show ?thesis
  proof (cases op)
    case (OpEmit i ev)
    with assms(1) show ?thesis by (simp add: emit_moves)
  next
    case (OpAdvance n)
    have "task_move {} m (m\<lparr>tm_clock := tm_clock m + n\<rparr>)"
      by (rule task_move.advance) (simp_all add: record_at_def fun_eq_iff logs_def)
    with OpAdvance show ?thesis by simp
  next
    case (OpOthers a b c)
    have "task_move {} m (m\<lparr>tm_inputs := a, tm_approvals := b, tm_tokens := c\<rparr>)"
      by (rule move_quiet) (simp_all add: logs_def)
    with OpOthers show ?thesis by simp
  next
    case (OpSetToken i k)
    have "task_move {} m (snd (set_cancellation_token i k m))"
      unfolding set_cancellation_token_def by (rule update_moves) (simp add: same_life_def)
    with OpSetToken show ?thesis by simp
  next
    case (OpSetHitl i a b)
    have "task_move {} m (snd (set_hitl_senders i a b m))"
      unfolding set_hitl_senders_def by (rule update_moves) (simp add: same_life_def)
    with OpSetHitl show ?thesis by simp
  next
    case (OpCancelConnection c)
    then show ?thesis using cancel_all_moves[OF assms(2)] by (simp add: cancel_connection_tasks_def Let_def)
  next
    case OpCancelAll
    then show ?thesis using cancel_all_moves[OF assms(2)] by (simp add: cancel_all_active_def Let_def)
  qed (use ok bt in \<open>simp_all add: create_moves create_pending_moves start_moves cancel_moves pause_moves resume_moves input_moves
      approval_moves complete_moves request_input_moves request_approval_moves subscribe_move receive_move cleanup_moves
      sink_moves sink_hitl_moves sink_publish_moves signal_move cancel_signalled_moves r_into_rtranclp\<close>)
qed

lemma move_mono:
  assumes "task_move new m m'" "new \<subseteq> new'"
  shows "task_move new' m m'"
  using assms(1)
proof cases
  case quiet
  then show ?thesis by (rule task_move.quiet)
next
  case (update i r r')
  then show ?thesis by (rule task_move.update)
next
  case advance
  then show ?thesis by (rule task_move.advance)
next
  case (opened l)
  then show ?thesis by (rule task_move.opened)
next
  case (created i r l)
  with assms(2) have "i \<in> new'" by auto
  from task_move.created[OF this created(2-)] show ?thesis .
next
  case (moved i r r' n reason)
  then show ?thesis by (rule task_move.moved)
next
  case (wrote ev c)
  then show ?thesis by (rule task_move.wrote)
next
  case evicted
  then show ?thesis by (rule task_move.evicted)
qed

lemma moves_mono:
  assumes "task_moves new m m'" "new \<subseteq> new'"
  shows "task_moves new' m m'"
  by (rule rtranclp_mono[THEN predicate2D, OF _ assms(1)]) (rule predicate2I, rule move_mono[OF _ assms(2)])

lemma run_moves:
  assumes "\<forall>op \<in> set ops. honest op \<and> new_ids op \<subseteq> new" "life_ok m"
  shows "task_moves new m (tm_run ops m)"
  using assms
proof (induction ops arbitrary: m)
  case (Cons op ops)
  have "task_moves (new_ids op) m (tm_step op m)" by (rule step_moves) (use Cons.prems in auto)
  then have step: "task_moves new m (tm_step op m)" by (rule moves_mono) (use Cons.prems(1) in simp)
  moreover have "task_moves new (tm_step op m) (tm_run ops (tm_step op m))"
    using Cons.IH Cons.prems moves_life_ok[OF step] by simp
  ultimately show ?case by (simp add: tm_run_def)
qed (simp add: tm_run_def)

lemma life_ok_new: "life_ok (task_manager_new g now)"
  by (simp add: life_ok_def task_manager_new_def record_at_def bt_get_def)

lemma run_life_ok: "\<forall>op \<in> set ops. honest op \<Longrightarrow> life_ok m \<Longrightarrow> life_ok (tm_run ops m)"
  using moves_life_ok run_moves[of ops UNIV m] by blast

section \<open>The log tells the life of a task\<close>

text \<open>
  C7: The state changes in the event log of a task chain from pending to its present state along the edges
  of the diagram, whatever clients, workers, sinks and the cleanup do in between: every change starts
  where the last one ended, none follows a terminal state, and the last one is the state the manager
  reports.
\<close>

theorem task_log_tells_its_life:
  assumes "\<forall>op \<in> set ops. honest op" "m = tm_run ops (task_manager_new g now)" "record_at m i = Some r"
  shows "life TsPending (changes (logs m ! tr_events r)) (th_state (tr_handle r)) \<and>
    (is_terminal (th_state (tr_handle r)) \<longleftrightarrow> tr_terminated_at r \<noteq> None)"
proof -
  have "life_ok m" unfolding assms(2) by (rule run_life_ok[OF assms(1) life_ok_new])
  from life_okD(2,3)[OF this assms(3)] show ?thesis by (simp add: st_def)
qed

definition demo_tenant :: tenant_config where
  "demo_tenant = \<lparr>tn_namespace = ''acme'', tn_agent_type = ''coder'', tn_vfs_root = ''/srv'',
     tn_budget_pool = \<lparr>bp_max_tokens = 0, bp_max_cost = []\<rparr>, tn_hooks = [], tn_integrations = [], tn_mcp_servers = []\<rparr>"

definition demo_task_ops :: "task_op list" where
  "demo_task_ops =
     [OpCreatePending ''t1'' demo_tenant ''fix it'' None (JObj []) None, OpStart ''t1'', OpPause ''t1'',
      OpSink (sink_new ''t1'' 0) (AcToken ''hi''), OpResume ''t1'', OpComplete ''t1'' TsCompleted None, OpCancel ''t1'']"

theorem task_log_tells_its_life_witness:
  "let m = tm_run demo_task_ops (task_manager_new 10 0) in
     \<exists>r. record_at m ''t1'' = Some r \<and> th_state (tr_handle r) = TsCompleted \<and>
       life TsPending (changes (logs m ! tr_events r)) TsCompleted"
proof -
  let ?m = "tm_run demo_task_ops (task_manager_new 10 0)"
  have s: "map_option (\<lambda>r. th_state (tr_handle r)) (record_at ?m ''t1'') = Some TsCompleted" by code_simp
  then obtain r where r: "record_at ?m ''t1'' = Some r" "th_state (tr_handle r) = TsCompleted" by auto
  have "\<forall>op \<in> set demo_task_ops. honest op" by (simp add: demo_task_ops_def)
  from task_log_tells_its_life[OF this refl r(1)] r show ?thesis by (auto simp: Let_def)
qed

section \<open>Terminal states and the grace period\<close>

definition kept_since :: "task_manager \<Rightarrow> task_record \<Rightarrow> nat" where
  "kept_since m r = (case tr_terminated_at r of Some t \<Rightarrow> t | None \<Rightarrow> tm_clock m)"

definition task_kept :: "string \<Rightarrow> task_manager \<Rightarrow> task_manager \<Rightarrow> bool" where
  "task_kept i m m' \<longleftrightarrow> tm_clock m \<le> tm_clock m' \<and> tm_grace m' = tm_grace m \<and>
     (case record_at m i of
        None \<Rightarrow> record_at m' i = None
      | Some r \<Rightarrow>
          (case record_at m' i of
             None \<Rightarrow> kept_since m r + tm_grace m \<le> tm_clock m'
           | Some r' \<Rightarrow> kept_since m r \<le> kept_since m' r' \<and>
               (is_terminal (st r) \<longrightarrow> st r' = st r \<and> tr_terminated_at r' = tr_terminated_at r)))"

lemma task_kept_refl: "task_kept i m m"
  by (auto simp: task_kept_def split: option.split)

lemma task_kept_trans: "task_kept i m m' \<Longrightarrow> task_kept i m' m'' \<Longrightarrow> task_kept i m m''"
  unfolding task_kept_def by (auto split: option.splits)

lemma move_kept:
  assumes "task_move new m m'" "life_ok m" "i \<notin> new"
  shows "task_kept i m m'"
  using assms(1)
proof cases
  case quiet
  then show ?thesis by (auto simp: task_kept_def same_frame_def kept_since_def split: option.split)
next
  case (update j r r')
  then show ?thesis by (auto simp: task_kept_def same_frame_def kept_since_def same_life_def st_def split: option.split)
next
  case advance
  then show ?thesis by (auto simp: task_kept_def kept_since_def split: option.split)
next
  case (opened l)
  then show ?thesis by (auto simp: task_kept_def same_frame_def kept_since_def split: option.split)
next
  case (created j r l)
  then have "j \<noteq> i" using assms(3) by auto
  with created show ?thesis by (auto simp: task_kept_def same_frame_def kept_since_def split: option.split)
next
  case (moved j r r' n reason)
  then show ?thesis using life_okD(4)[OF assms(2)]
    by (auto simp: task_kept_def same_frame_def kept_since_def may_follow_def split: option.split)
next
  case (wrote ev c)
  then show ?thesis by (auto simp: task_kept_def same_frame_def kept_since_def split: option.split)
next
  case evicted
  then show ?thesis using life_okD(4)[OF assms(2), of i]
    by (fastforce simp: task_kept_def same_frame_def kept_since_def expired_def split: option.splits)
qed

lemma moves_kept:
  assumes "task_moves new m m'" "life_ok m" "i \<notin> new"
  shows "task_kept i m m'"
  using assms(1)
proof (induction rule: rtranclp_induct)
  case (step y z)
  have "life_ok y" using moves_life_ok[OF step(1) assms(2)] .
  from task_kept_trans[OF step(3) move_kept[OF step(2) this assms(3)]] show ?case .
qed (rule task_kept_refl)

text \<open>
  C8: A terminal state is final, and a task is kept for the grace period.  Between two moments of the
  server, unless its id is created anew: a terminal task still there has the same state and time of
  termination; a task that is gone had been terminal for the whole grace period, so none is evicted
  while it runs.
\<close>

theorem terminal_tasks_final_and_kept:
  assumes "\<forall>op \<in> set (before @ after). honest op" "\<forall>op \<in> set after. i \<notin> new_ids op"
    and "m = tm_run before (task_manager_new g now)" "record_at m i = Some r" "m' = tm_run after m"
  shows "case record_at m' i of
      Some r' \<Rightarrow> is_terminal (th_state (tr_handle r)) \<longrightarrow>
        th_state (tr_handle r') = th_state (tr_handle r) \<and> tr_terminated_at r' = tr_terminated_at r
    | None \<Rightarrow> (case tr_terminated_at r of Some t \<Rightarrow> t | None \<Rightarrow> tm_clock m) + tm_grace m \<le> tm_clock m'"
proof -
  have ok: "life_ok m" unfolding assms(3) using assms(1) by (intro run_life_ok life_ok_new) auto
  have "task_moves (- {i}) m m'" unfolding assms(5) using assms(1,2) by (intro run_moves[OF _ ok]) auto
  from moves_kept[OF this ok] have "task_kept i m m'" by simp
  then show ?thesis using assms(4) by (auto simp: task_kept_def kept_since_def st_def split: option.splits)
qed

theorem terminal_tasks_final_and_kept_witness:
  "case record_at (tm_run [OpPause ''t1'', OpAdvance 9, OpCleanup] (tm_run demo_task_ops (task_manager_new 10 0))) ''t1'' of
     Some r' \<Rightarrow> th_state (tr_handle r') = TsCompleted
   | None \<Rightarrow> False"
proof -
  let ?m = "tm_run demo_task_ops (task_manager_new 10 0)"
  let ?m' = "tm_run [OpPause ''t1'', OpAdvance 9, OpCleanup] ?m"
  have s: "map_option (\<lambda>r. (th_state (tr_handle r), tr_terminated_at r)) (record_at ?m ''t1'') = Some (TsCompleted, Some 0)"
    and c: "tm_clock ?m' = 9" "tm_grace ?m = 10" by code_simp+
  then obtain r where r: "record_at ?m ''t1'' = Some r" "th_state (tr_handle r) = TsCompleted" "tr_terminated_at r = Some 0"
    by auto
  have honest: "\<forall>op \<in> set (demo_task_ops @ [OpPause ''t1'', OpAdvance 9, OpCleanup]). honest op"
    "\<forall>op \<in> set [OpPause ''t1'', OpAdvance 9, OpCleanup]. ''t1'' \<notin> new_ids op"
    by (simp_all add: demo_task_ops_def)
  from terminal_tasks_final_and_kept[OF honest refl r(1) refl] show ?thesis
    using r(2,3) c by (auto simp: is_terminal_def split: option.splits)
qed

section \<open>The numbers of a task's events\<close>

text \<open>
  The manager and the sink of the engine number the events of one task with two counters of their own, so
  the numbers in its log repeat and go back: start, two tokens of the agent, then pause.
\<close>

definition event_numbers :: "task_manager \<Rightarrow> nat \<Rightarrow> json option list" where
  "event_numbers m c = map (\<lambda>ev. json_get ev ''seq'') (ec_log (tm_channels m ! c))"

theorem task_log_numbers_repeat:
  "event_numbers (tm_run [OpCreatePending ''t1'' demo_tenant ''fix it'' None (JObj []) None, OpStart ''t1'',
       OpSink (sink_new ''t1'' 0) (AcToken ''hi''), OpSink ((sink_new ''t1'' 0)\<lparr>as_seq := 1\<rparr>) (AcToken ''!''),
       OpPause ''t1''] (task_manager_new 10 0)) 0 =
   [Some (json_u64 1), Some (json_u64 0), Some (json_u64 1), Some (json_u64 2)]"
  by code_simp

end
