(* ===== verification/Spec2Isabelle.thy ===== *)
theory Spec2Isabelle
  imports Vfs_Stack Capability Readonly_Guard Prefix_Mount Overlay_Fs Hooks Replay Context_Window Shell_Exec Supervisor_Control Supervisor_Waits Sandbox_Safety Agent_Safety Sandbox_Http Apply_Patch_Run Server_Lifecycle
begin

text \<open>
  Simulacra (\<^verbatim>\<open>src/crates/\<close>) runs language-model agents behind a capability boundary.  An agent loop asks
  a provider, dispatches tools and journals what it does; the tools act through an agent cell, which
  checks a capability token and a byte budget before every call on a virtual filesystem; a supervisor
  spawns child agents below the authority and the budget of their parents; hooks may rewrite, deny or
  kill an operation; context compaction keeps a conversation inside the window of the model; the
  filesystem is a stack of layers over an in-memory or overlay filesystem, with a durable memory per
  tenant.  This development models these parts in the order the code has them and proves what each
  promises.

  \<^bold>\<open>Shared vocabulary.\<close>
  \<^item> \<^verbatim>\<open>Sim_Prelude\<close>: results as sums, saturating words, byte strings, splitting and joining, ordered maps.
  \<^item> \<^verbatim>\<open>Std_Text\<close>: the functions of the standard library on text (UTF-8 checks, lines, trimming).
  \<^item> \<^verbatim>\<open>Vfs_Path\<close>: the two normalisers (\<^verbatim>\<open>simulacra-vfs/src/path.rs\<close>, \<^verbatim>\<open>simulacra-types/src/capability.rs\<close>)
    and the segment view that every path proof uses.

  \<^bold>\<open>Authority.\<close>
  \<^item> \<^verbatim>\<open>Path_Glob\<close>, \<^verbatim>\<open>Mcp_Glob\<close>: the pattern languages, shown to decide inclusion, intersection and matching of
    the sets of names they denote.
  \<^item> \<^verbatim>\<open>Memory_Path\<close>: tenant ids and memory paths, canonical once parsed.
  \<^item> \<^verbatim>\<open>Capability\<close>: every check of a token; the abstract specification is the set of requests a token
    admits, which the subset test never enlarges and the intersection computes.
  \<^item> \<^verbatim>\<open>Budget\<close>: the budget record and the order in which limits are reported.

  \<^bold>\<open>Filesystems.\<close>  \<^verbatim>\<open>Vfs_Types\<close> holds the trait as a record of operations on a state and the contracts
  \<open>file_store\<close> and \<open>atomic_store\<close>, stated as locales over any filesystem and interpreted on
  the in-memory one, the guard, the mount and the overlay.
  \<^item> \<^verbatim>\<open>Atomic_Paths\<close>, \<^verbatim>\<open>Memory_Fs\<close>: the touches of atomic calls; \<open>MemoryFs\<close>, which refines a tree from segment
    lists to files, with atomic batches and snapshots that restore.
  \<^item> \<^verbatim>\<open>Readonly_Guard\<close>, \<^verbatim>\<open>Prefix_Mount\<close>, \<^verbatim>\<open>Overlay_Fs\<close>: the decorators, each a store again, with what it protects.
  \<^item> \<^verbatim>\<open>Memory_Store\<close>, \<^verbatim>\<open>Recent_Writes\<close>: the durable rows of a tenant behind the contract \<open>memory_contract\<close>,
    and the buffer through which a run reads its own writes.
  \<^item> \<^verbatim>\<open>Vfs_Layers\<close>, \<^verbatim>\<open>Memory_Store_Fs\<close>, \<^verbatim>\<open>Mailbox_Fs\<close>, \<^verbatim>\<open>Service_Fs\<close>, \<^verbatim>\<open>Proc_Fs\<close>, \<^verbatim>\<open>Vfs_Stack\<close>: the layers of a
    server agent; what each asks of the filesystem below composes to integrity and confidentiality of
    the durable state.

  \<^bold>\<open>The cell and the shell.\<close>
  \<^item> \<^verbatim>\<open>Sandbox_Cell\<close>, \<^verbatim>\<open>Sandbox_Proxy\<close>, \<^verbatim>\<open>Sandbox_Batch\<close>: guards, plain file operations, the mediated filesystem of
    scripts, batched mutations with reservation, journal, commit and rollback
    (\<^verbatim>\<open>simulacra-sandbox/src/\<close>).  Other holders of the filesystem act between any two calls of a cell.
  \<^item> \<^verbatim>\<open>Sandbox_Steps\<close>, \<^verbatim>\<open>Sandbox_Safety\<close>: every operation is a sequence of a few steps (locale \<open>cell_steps\<close>), so
    confinement, the byte budget and the append-only journal hold of all runs.
  \<^item> \<^verbatim>\<open>Sandbox_Http\<close>: the network access of a cell, its callers and the injected credentials of integrations
    (\<^verbatim>\<open>simulacra-sandbox/src/http.rs\<close>, \<^verbatim>\<open>simulacra-integration/src/\<close>): which hosts a fetch reaches through its
    redirects, and whose credentials it can carry.  The URL parser and the HTTP client are parameters.
  \<^item> \<^verbatim>\<open>Apply_Patch\<close>, \<^verbatim>\<open>Apply_Patch_Run\<close>: the patch tool (\<^verbatim>\<open>simulacra-tool/src/sandbox_tools/apply_patch.rs\<close>), whose
    grammar parses back what is printed, and a call of which is a run of the cell that reads, then commits once.
  \<^item> \<^verbatim>\<open>Shell_Parser\<close>, \<^verbatim>\<open>Shell_Builtins\<close>, \<^verbatim>\<open>Shell_Exec\<close>: the virtual shell (\<^verbatim>\<open>simulacra-shell/src/\<close>) from the
    tokenizer to command substitution.

  \<^bold>\<open>The runtime.\<close>
  \<^item> \<^verbatim>\<open>Runtime_Types\<close>, \<^verbatim>\<open>Hooks\<close>, \<^verbatim>\<open>Journal\<close>, \<^verbatim>\<open>Replay\<close>, \<^verbatim>\<open>Context_Window\<close>: values and errors, the hook pipeline, the
    journal and its wrappers, the replay cursor, both compaction strategies.
  \<^item> \<^verbatim>\<open>Supervisor\<close> and \<^verbatim>\<open>Supervisor_Budget\<close>, \<^verbatim>\<open>Supervisor_Invariant\<close>, \<^verbatim>\<open>Supervisor_Lifecycle\<close>, \<^verbatim>\<open>Supervisor_Control\<close>,
    \<^verbatim>\<open>Supervisor_Waits\<close>: the actor of \<^verbatim>\<open>simulacra-runtime/src/supervisor/\<close> as a step relation (message, attempt
    finished, timer), its invariants by rule induction (locale \<open>supervisor_invariant\<close>), and what they
    give: no overcommitted budget, one report per child, no forgotten waiter.
  \<^item> \<^verbatim>\<open>Agent_Loop\<close>, \<^verbatim>\<open>Agent_Turn\<close>, \<^verbatim>\<open>Agent_Steps\<close>, \<^verbatim>\<open>Agent_Order\<close>, \<^verbatim>\<open>Agent_Safety\<close>: the loop
    (\<^verbatim>\<open>simulacra-runtime/src/agent_loop/\<close>) against an environment that answers for everything outside it, and
    the order of its effects over whole runs.

  \<^bold>\<open>Server.\<close>
  \<^item> \<^verbatim>\<open>Server_Events\<close>: the event log of a task with its late subscribers, and the translation of activity
    events (\<^verbatim>\<open>simulacra-server/src/task.rs\<close>, \<^verbatim>\<open>engine.rs\<close>); history and received events are the log.
  \<^item> \<^verbatim>\<open>Server_Task\<close>: the task manager, every operation, and the activity sink beside it.
  \<^item> \<^verbatim>\<open>Server_Lifecycle\<close>: any interleaving of the operations is a sequence of moves of the table and the
    logs, the log of a task tells its life, terminal states are final and kept for the grace period.

  \<^bold>\<open>Correspondence.\<close>  A struct is a record, an enum a datatype, \<open>u32\<close> and \<open>u64\<close> are words, \<open>usize\<close> and lengths
  of data in memory are naturals, a string is the list of its UTF-8 bytes, \<open>Result\<close> is a sum, a lock with its
  data is a state passed along, \<open>Arc<Mutex<..>>\<close> cells that several records share are a heap of addresses, and
  a trait object is a record of functions.  Where other tasks can run, the model calls an argument
  (\<open>ev_others\<close>, \<open>sf_others\<close>) that may change what is shared.

  \<^bold>\<open>Loops and fuel.\<close>  The tokenizer is \<open>while_option\<close>: the theorem on its termination says exactly when it
  returns.  Command substitution takes fuel, and any fuel above the length of the line is enough.  The run
  of an agent takes the number of turns; the recursive copy of the file proxy takes the stack depth, and
  \<open>None\<close> is its exhaustion.  Every other loop terminates by structure or by a measure.

  \<^bold>\<open>Parameters.\<close>  JSON values and their codec, the decimal type of costs, the byte-pair encoder, the QuickJS
  engine, the provider, the tools, the clock, SHA-256, Unicode lower-casing, the order of a hash set, which
  SQLite transactions fail, the artifact store and the integration registry are arguments of the
  definitions that use them.

  \<^bold>\<open>Not modelled.\<close>  Spans, meters and log lines; poisoned locks (but for the table of
  tasks); filesystem watchers; the text
  tools of the shell other than the builtins named in \<^verbatim>\<open>Shell_Builtins\<close>; host-directory mounts, SQLite
  journals, the vector index and its background embedder (file and database access); the provider, MCP,
  HTTP and catalog clients (wire formats of services); the JavaScript, Python and WebAssembly hosts (bindings to
  engines); the HTTP, GraphQL and command-line front ends of the server (plumbing around the parts above).
\<close>

end
